(* ===== verification/Prelude.thy ===== *)
theory Prelude
  imports Main "HOL-Library.Word" "HOL-Library.AList"
begin

text \<open>
  Shared vocabulary of the development: byte strings, Rust's fixed-width unsigned
  arithmetic (checked and saturating), results with an explicit panic outcome,
  hash maps as association lists, and the generic lemmas the components use.

  Unsigned integers are natural numbers; every place where the Rust code can leave
  the width of the type goes through one of the operations below.  The workspace
  compiles with overflow checks, so a plain addition that leaves the width panics.
\<close>

section \<open>Proof collections\<close>

named_theorems result_simps "evaluation and inversion of results"
named_theorems map_simps "lookup and update of hash maps"
named_theorems width_simps "the width constants"

section \<open>Types\<close>

type_synonym byte = "8 word"
type_synonym bytes = "byte list"
type_synonym hash32 = bytes
type_synonym address = bytes

section \<open>Fixed-width unsigned arithmetic\<close>

definition U8_MAX :: nat where
"U8_MAX = 255"

definition U16_MAX :: nat where
"U16_MAX = 65535"

definition U32_MAX :: nat where
"U32_MAX = 4294967295"

definition U64_MAX :: nat where
"U64_MAX = 18446744073709551615"

definition U128_MAX :: nat where
"U128_MAX = 340282366920938463463374607431768211455"

definition checked_add :: "nat \<Rightarrow> nat \<Rightarrow> nat \<Rightarrow> nat option" where
"checked_add m a b = (if a + b \<le> m then Some (a + b) else None)"

definition checked_mul :: "nat \<Rightarrow> nat \<Rightarrow> nat \<Rightarrow> nat option" where
"checked_mul m a b = (if a * b \<le> m then Some (a * b) else None)"

definition checked_sub :: "nat \<Rightarrow> nat \<Rightarrow> nat option" where
"checked_sub a b = (if b \<le> a then Some (a - b) else None)"

definition saturating_add :: "nat \<Rightarrow> nat \<Rightarrow> nat \<Rightarrow> nat" where
"saturating_add m a b = min m (a + b)"

definition saturating_mul :: "nat \<Rightarrow> nat \<Rightarrow> nat \<Rightarrow> nat" where
"saturating_mul m a b = min m (a * b)"

definition saturating_sub :: "nat \<Rightarrow> nat \<Rightarrow> nat" where
"saturating_sub a b = a - b"

text \<open>The cast \<open>as u64\<close> of a wider unsigned value keeps its low 64 bits.\<close>

definition truncate_u64 :: "nat \<Rightarrow> nat" where
"truncate_u64 x = x mod 2 ^ 64"

text \<open>\<open>to_be_bytes\<close> of an \<open>n\<close>-byte unsigned integer.\<close>

fun be_bytes :: "nat \<Rightarrow> nat \<Rightarrow> bytes" where
"be_bytes 0 x = []" |
"be_bytes (Suc n) x = be_bytes n (x div 256) @ [word_of_nat (x mod 256)]"

fun from_be_bytes :: "bytes \<Rightarrow> nat" where
"from_be_bytes bs = foldl (\<lambda>a b. a * 256 + unat b) 0 bs"

section \<open>Results\<close>

text \<open>
  The outcome of fallible code: \<open>Ok\<close> and \<open>Err\<close> of Rust's \<open>Result\<close>, and \<open>Panic\<close> for
  an arithmetic overflow, an out-of-range index or a failed \<open>expect\<close>.
\<close>

datatype ('a, 'e) result = Ok 'a | Err 'e | Panic

fun bind_r :: "('a, 'e) result \<Rightarrow> ('a \<Rightarrow> ('b, 'e) result) \<Rightarrow> ('b, 'e) result" where
"bind_r (Ok x) f = f x" |
"bind_r (Err e) f = Err e" |
"bind_r Panic f = Panic"

fun map_err :: "('e \<Rightarrow> 'f) \<Rightarrow> ('a, 'e) result \<Rightarrow> ('a, 'f) result" where
"map_err g (Ok x) = Ok x" |
"map_err g (Err e) = Err (g e)" |
"map_err g Panic = Panic"

definition ok_or :: "'a option \<Rightarrow> 'e \<Rightarrow> ('a, 'e) result" where
"ok_or x e = (case x of Some v \<Rightarrow> Ok v | None \<Rightarrow> Err e)"

definition or_panic :: "'a option \<Rightarrow> ('a, 'e) result" where
"or_panic x = (case x of Some v \<Rightarrow> Ok v | None \<Rightarrow> Panic)"

definition ensure :: "bool \<Rightarrow> 'e \<Rightarrow> (unit, 'e) result" where
"ensure b e = (if b then Ok () else Err e)"

definition is_ok :: "('a, 'e) result \<Rightarrow> bool" where
"is_ok r = (case r of Ok _ \<Rightarrow> True | _ \<Rightarrow> False)"

section \<open>Hash maps\<close>

text \<open>
  A \<open>HashMap\<close> is an association list with distinct keys.  The iteration order of the
  Rust map is unspecified; the lemmas never fix the order of the list.
\<close>

type_synonym ('k, 'v) hmap = "('k \<times> 'v) list"

definition hget :: "('k, 'v) hmap \<Rightarrow> 'k \<Rightarrow> 'v option" where
"hget m k = map_of m k"

definition hput :: "'k \<Rightarrow> 'v \<Rightarrow> ('k, 'v) hmap \<Rightarrow> ('k, 'v) hmap" where
"hput k v m = AList.update k v m"

definition hdel :: "'k \<Rightarrow> ('k, 'v) hmap \<Rightarrow> ('k, 'v) hmap" where
"hdel k m = AList.delete k m"

definition hhas :: "('k, 'v) hmap \<Rightarrow> 'k \<Rightarrow> bool" where
"hhas m k = (hget m k \<noteq> None)"

definition hvals :: "('k, 'v) hmap \<Rightarrow> 'v list" where
"hvals m = map snd m"

definition hwf :: "('k, 'v) hmap \<Rightarrow> bool" where
"hwf m = distinct (map fst m)"

definition hsum :: "('v \<Rightarrow> nat) \<Rightarrow> ('k, 'v) hmap \<Rightarrow> nat" where
"hsum f m = sum_list (map (f \<circ> snd) m)"

section \<open>Reachability\<close>

text \<open>States reached from an initial state by finitely many steps.\<close>

inductive reach :: "('s \<Rightarrow> bool) \<Rightarrow> ('s \<Rightarrow> 's \<Rightarrow> bool) \<Rightarrow> 's \<Rightarrow> bool"
  for start :: "'s \<Rightarrow> bool" and step :: "'s \<Rightarrow> 's \<Rightarrow> bool" where
reach_start: "start s \<Longrightarrow> reach start step s" |
reach_step: "reach start step s \<Longrightarrow> step s t \<Longrightarrow> reach start step t"

section \<open>Lemmas on arithmetic\<close>

lemmas width_defs [width_simps] = U8_MAX_def U16_MAX_def U32_MAX_def U64_MAX_def U128_MAX_def

lemma checked_add_Some [simp]: "checked_add m a b = Some c \<longleftrightarrow> c = a + b \<and> a + b \<le> m"
  by (auto simp: checked_add_def)

lemma checked_mul_Some [simp]: "checked_mul m a b = Some c \<longleftrightarrow> c = a * b \<and> a * b \<le> m"
  by (auto simp: checked_mul_def)

lemma checked_sub_Some [simp]: "checked_sub a b = Some c \<longleftrightarrow> b \<le> a \<and> c = a - b"
  by (auto simp: checked_sub_def)

lemma saturating_add_le: "saturating_add m a b \<le> m"
  by (simp add: saturating_add_def)

lemma saturating_add_exact: "a + b \<le> m \<Longrightarrow> saturating_add m a b = a + b"
  by (simp add: saturating_add_def)

lemma saturating_add_mono: "a \<le> c \<Longrightarrow> b \<le> d \<Longrightarrow> saturating_add m a b \<le> saturating_add m c d"
  by (simp add: saturating_add_def min_le_iff_disj add_mono)

lemma saturating_mul_le: "saturating_mul m a b \<le> m"
  by (simp add: saturating_mul_def)

lemma truncate_u64_id: "x \<le> U64_MAX \<Longrightarrow> truncate_u64 x = x"
  by (simp add: truncate_u64_def U64_MAX_def)

lemma truncate_u64_le: "truncate_u64 x \<le> U64_MAX"
proof -
  have "x mod 2 ^ 64 < 2 ^ 64" by (rule mod_less_divisor) simp
  then show ?thesis by (simp add: truncate_u64_def U64_MAX_def)
qed

section \<open>Lemmas on byte strings\<close>

lemma length_be_bytes [simp]: "length (be_bytes n x) = n"
  by (induction n arbitrary: x) auto

lemma be_bytes_inj:
  assumes "x < 256 ^ n" "y < 256 ^ n" "be_bytes n x = be_bytes n y"
  shows "x = y"
  using assms
proof (induction n arbitrary: x y)
  case (Suc n)
  have hi: "be_bytes n (x div 256) = be_bytes n (y div 256)"
    and lo: "(word_of_nat (x mod 256) :: byte) = word_of_nat (y mod 256)"
    using Suc.prems(3) by auto
  have "x div 256 < 256 ^ n" "y div 256 < 256 ^ n"
    using Suc.prems(1,2) by (auto simp: less_mult_imp_div_less mult.commute)
  then have "x div 256 = y div 256" using Suc.IH hi by blast
  moreover have "x mod 256 = y mod 256"
    using arg_cong [OF lo, of unat] by (simp add: unat_of_nat)
  ultimately show ?case by (metis div_mult_mod_eq)
qed simp

lemma from_be_bytes_snoc: "from_be_bytes (bs @ [b]) = from_be_bytes bs * 256 + unat b"
  by simp

lemma from_be_bytes_be_bytes: "x < 256 ^ n \<Longrightarrow> from_be_bytes (be_bytes n x) = x"
proof (induction n arbitrary: x)
  case (Suc n)
  have "x div 256 < 256 ^ n"
    using Suc.prems by (simp add: less_mult_imp_div_less mult.commute)
  then have "from_be_bytes (be_bytes n (x div 256)) = x div 256" by (rule Suc.IH)
  moreover have "unat (word_of_nat (x mod 256) :: byte) = x mod 256"
    by (simp add: unat_of_nat)
  ultimately show ?case
    by (simp only: be_bytes.simps from_be_bytes_snoc) (simp add: div_mult_mod_eq)
qed simp

lemma append_eq_fixed:
  "length a = length c \<Longrightarrow> a @ b = c @ d \<longleftrightarrow> a = c \<and> b = d"
  by (rule append_eq_append_conv) simp

section \<open>Lemmas on results\<close>

lemma bind_r_Ok [result_simps]: "bind_r m f = Ok y \<longleftrightarrow> (\<exists>x. m = Ok x \<and> f x = Ok y)"
  by (cases m) auto

lemma bind_r_Err [result_simps]:
  "bind_r m f = Err e \<longleftrightarrow> m = Err e \<or> (\<exists>x. m = Ok x \<and> f x = Err e)"
  by (cases m) auto

lemma bind_r_Panic [result_simps]:
  "bind_r m f = Panic \<longleftrightarrow> m = Panic \<or> (\<exists>x. m = Ok x \<and> f x = Panic)"
  by (cases m) auto

lemma map_err_Ok [result_simps]: "map_err g m = Ok y \<longleftrightarrow> m = Ok y"
  by (cases m) auto

lemma ok_or_simps [simp]: "ok_or (Some v) e = Ok v" "ok_or None e = Err e"
  by (simp_all add: ok_or_def)

lemma ok_or_Ok [result_simps]: "ok_or x e = Ok v \<longleftrightarrow> x = Some v"
  by (cases x) auto

lemma ok_or_Err [result_simps]: "ok_or x e = Err d \<longleftrightarrow> x = None \<and> d = e"
  by (cases x) auto

lemma ok_or_Panic [simp]: "ok_or x e \<noteq> Panic"
  by (cases x) auto

lemma or_panic_simps [simp]: "or_panic (Some v) = Ok v" "or_panic None = Panic"
  by (simp_all add: or_panic_def)

lemma or_panic_Ok [result_simps]: "or_panic x = Ok v \<longleftrightarrow> x = Some v"
  by (cases x) auto

lemma or_panic_Err [simp]: "or_panic x \<noteq> Err e"
  by (cases x) auto

lemma ensure_simps [simp]: "ensure True e = Ok ()" "ensure False e = Err e"
  by (simp_all add: ensure_def)

lemma ensure_Ok [result_simps]: "ensure b e = Ok u \<longleftrightarrow> b"
  by (simp add: ensure_def)

lemma ensure_Err [result_simps]: "ensure b e = Err d \<longleftrightarrow> \<not> b \<and> d = e"
  by (auto simp: ensure_def)

lemma ensure_Panic [simp]: "ensure b e \<noteq> Panic"
  by (simp add: ensure_def)

lemma is_ok_simps [simp]: "is_ok (Ok x)" "\<not> is_ok (Err e)" "\<not> is_ok Panic"
  by (simp_all add: is_ok_def)

lemma is_ok_iff: "is_ok r \<longleftrightarrow> (\<exists>x. r = Ok x)"
  by (cases r) auto

section \<open>Lemmas on hash maps\<close>

lemma hget_Nil [simp]: "hget [] k = None"
  by (simp add: hget_def)

lemma hget_hput [map_simps]: "hget (hput k v m) j = (if j = k then Some v else hget m j)"
  by (simp add: hget_def hput_def update_conv')

lemma hget_hput_same [simp]: "hget (hput k v m) k = Some v"
  by (simp add: hget_hput)

lemma hget_hput_other [simp]: "j \<noteq> k \<Longrightarrow> hget (hput k v m) j = hget m j"
  by (simp add: hget_hput)

lemma hget_hdel [map_simps]: "hget (hdel k m) j = (if j = k then None else hget m j)"
  by (simp add: hget_def hdel_def delete_conv')

lemma hhas_hput [map_simps]: "hhas (hput k v m) j \<longleftrightarrow> j = k \<or> hhas m j"
  by (simp add: hhas_def hget_hput)

lemma hwf_Nil [simp]: "hwf []"
  by (simp add: hwf_def)

lemma hwf_hput [simp]: "hwf m \<Longrightarrow> hwf (hput k v m)"
  by (simp add: hwf_def hput_def distinct_update)

lemma hwf_hdel [simp]: "hwf m \<Longrightarrow> hwf (hdel k m)"
  by (simp add: hwf_def hdel_def distinct_delete)

lemma hget_mem: "hget m k = Some v \<Longrightarrow> (k, v) \<in> set m"
  by (simp add: hget_def map_of_SomeD)

lemma mem_hget: "hwf m \<Longrightarrow> (k, v) \<in> set m \<longleftrightarrow> hget m k = Some v"
  by (simp add: hget_def hwf_def map_of_eq_Some_iff)

lemma hvals_iff: "hwf m \<Longrightarrow> v \<in> set (hvals m) \<longleftrightarrow> (\<exists>k. hget m k = Some v)"
  by (force simp: hvals_def mem_hget [symmetric])

lemma hsum_Nil [simp]: "hsum f [] = 0"
  by (simp add: hsum_def)

lemma hsum_hput_new: "hget m k = None \<Longrightarrow> hsum f (hput k v m) = hsum f m + f v"
  by (induction m) (auto simp: hsum_def hget_def hput_def split: if_splits)

lemma hsum_hput_old:
  "hget m k = Some w \<Longrightarrow> hsum f (hput k v m) + f w = hsum f m + f v"
  by (induction m) (auto simp: hsum_def hget_def hput_def split: if_splits)

lemma hsum_ge: "hget m k = Some w \<Longrightarrow> f w \<le> hsum f m"
  by (induction m) (auto simp: hsum_def hget_def split: if_splits)

lemma hsum_hput:
  "hsum f (hput k v m) = hsum f m - (case hget m k of Some w \<Rightarrow> f w | None \<Rightarrow> 0) + f v"
proof (cases "hget m k")
  case (Some w)
  then show ?thesis using hsum_hput_old [OF Some, of f v] hsum_ge [OF Some, of f] by simp
qed (simp add: hsum_hput_new)

section \<open>Lemmas on reachability\<close>

lemma reach_invariant:
  assumes "reach start step s" "\<And>s. start s \<Longrightarrow> P s" "\<And>s t. P s \<Longrightarrow> step s t \<Longrightarrow> P t"
  shows "P s"
  using assms(1) by induction (use assms(2,3) in blast)+

end
