(* ===== verification/Crypto_Hash.thy ===== *)
theory Crypto_Hash
  imports Prelude
begin

text \<open>
  The hashing layer of \<open>pqc-crypto\<close> (\<open>hash.rs\<close>, \<open>address.rs\<close>) and the fork digest of
  \<open>pqc-types\<close> (\<open>fork.rs\<close>): tagged hashes, the length-prefixed hasher, the binary Merkle
  root.  SHAKE-256 itself belongs to the crate \<open>sha3\<close>; it is the parameter \<open>X\<close>, a function
  from the absorbed bytes and the output length to the output.  Collision freedom is
  only ever assumed of the finite set of preimages a statement is about.
\<close>

type_synonym xof = "bytes \<Rightarrow> nat \<Rightarrow> bytes"

definition bstr :: "string \<Rightarrow> bytes" where
"bstr s = map (\<lambda>c. word_of_nat (of_char c)) s"

section \<open>SHAKE-256 entry points\<close>

definition shake256_32 :: "xof \<Rightarrow> bytes \<Rightarrow> hash32" where
"shake256_32 X data = X data 32"

definition shake256_n :: "xof \<Rightarrow> nat \<Rightarrow> bytes list \<Rightarrow> bytes" where
"shake256_n X n chunks = X (concat chunks) n"

definition tagged_hash :: "xof \<Rightarrow> bytes \<Rightarrow> bytes \<Rightarrow> hash32" where
"tagged_hash X tag data =
   (let tag_hash = shake256_32 X tag in X (tag_hash @ tag_hash @ data) 32)"

section \<open>The streaming tagged hasher\<close>

text \<open>The state of a \<open>TaggedHasher\<close> is the byte string absorbed so far.\<close>

type_synonym tagged_hasher = bytes

definition th_new :: "xof \<Rightarrow> bytes \<Rightarrow> tagged_hasher" where
"th_new X tag = (let tag_hash = shake256_32 X tag in tag_hash @ tag_hash)"

definition push_chunk :: "bytes \<Rightarrow> tagged_hasher \<Rightarrow> tagged_hasher" where
"push_chunk bs d = d @ be_bytes 8 (min (length bs) U64_MAX) @ bs"

definition push_u64 :: "nat \<Rightarrow> tagged_hasher \<Rightarrow> tagged_hasher" where
"push_u64 v d = push_chunk (be_bytes 8 v) d"

definition push_raw :: "bytes \<Rightarrow> tagged_hasher \<Rightarrow> tagged_hasher" where
"push_raw bs d = d @ bs"

definition th_finish :: "xof \<Rightarrow> tagged_hasher \<Rightarrow> hash32" where
"th_finish X d = X d 32"

text \<open>A whole sequence of chunks pushed in order.\<close>

fun push_chunks :: "bytes list \<Rightarrow> tagged_hasher \<Rightarrow> tagged_hasher" where
"push_chunks [] d = d" |
"push_chunks (c # cs) d = push_chunks cs (push_chunk c d)"

section \<open>The binary Merkle root\<close>

text \<open>One pass of the loop body: adjacent pairs are hashed, a lone trailing node with itself.\<close>

fun merkle_layer :: "xof \<Rightarrow> bytes \<Rightarrow> hash32 list \<Rightarrow> hash32 list" where
"merkle_layer X bd [] = []" |
"merkle_layer X bd [a] = [tagged_hash X bd (a @ a)]" |
"merkle_layer X bd (a # b # rest) = tagged_hash X bd (a @ b) # merkle_layer X bd rest"

lemma length_merkle_layer: "length (merkle_layer X bd xs) = (length xs + 1) div 2"
  by (induction X bd xs rule: merkle_layer.induct) auto

function merkle_fold :: "xof \<Rightarrow> bytes \<Rightarrow> hash32 list \<Rightarrow> hash32 list" where
"merkle_fold X bd layer =
   (if length layer > 1 then merkle_fold X bd (merkle_layer X bd layer) else layer)"
  by pat_completeness auto
termination
  by (relation "measure (\<lambda>(X, bd, layer). length layer)") (auto simp: length_merkle_layer)

declare merkle_fold.simps [simp del]

definition binary_merkle_root :: "xof \<Rightarrow> hash32 list \<Rightarrow> bytes \<Rightarrow> hash32" where
"binary_merkle_root X leaves branch_domain =
   (if leaves = [] then tagged_hash X branch_domain []
    else hd (merkle_fold X branch_domain leaves))"

section \<open>Addresses and the fork digest\<close>

definition ADDRESS_DOMAIN_V1 :: bytes where
"ADDRESS_DOMAIN_V1 = bstr ''VIPER-ADDR-V1''"

definition derive_address_raw :: "xof \<Rightarrow> bytes \<Rightarrow> nat \<Rightarrow> bytes \<Rightarrow> address" where
"derive_address_raw X chain_id alg_id pk_bytes =
   tagged_hash X ADDRESS_DOMAIN_V1 (chain_id @ be_bytes 2 alg_id @ pk_bytes)"

definition FORK_DIGEST_DOMAIN :: bytes where
"FORK_DIGEST_DOMAIN = bstr ''VIPER-FORK-V1''"

definition fork_digest_compute :: "xof \<Rightarrow> nat \<Rightarrow> hash32 \<Rightarrow> bytes" where
"fork_digest_compute X fork_version genesis_validators_root =
   shake256_n X 4 [FORK_DIGEST_DOMAIN, be_bytes 4 fork_version, genesis_validators_root]"

section \<open>The preimages a root is computed from\<close>

text \<open>
  \<open>merkle_inputs\<close> collects every byte string hashed by the branch calls of one root.
  It is the set on which the binding theorem assumes SHAKE-256 free of collisions.
\<close>

definition tagged_input :: "xof \<Rightarrow> bytes \<Rightarrow> bytes \<Rightarrow> bytes" where
"tagged_input X tag data = shake256_32 X tag @ shake256_32 X tag @ data"

fun layer_inputs :: "xof \<Rightarrow> bytes \<Rightarrow> hash32 list \<Rightarrow> bytes set" where
"layer_inputs X bd [] = {}" |
"layer_inputs X bd [a] = {tagged_input X bd (a @ a)}" |
"layer_inputs X bd (a # b # rest) = insert (tagged_input X bd (a @ b)) (layer_inputs X bd rest)"

function merkle_inputs :: "xof \<Rightarrow> bytes \<Rightarrow> hash32 list \<Rightarrow> bytes set" where
"merkle_inputs X bd layer =
   (if length layer > 1
    then layer_inputs X bd layer \<union> merkle_inputs X bd (merkle_layer X bd layer) else {})"
  by pat_completeness auto
termination
  by (relation "measure (\<lambda>(X, bd, layer). length layer)") (auto simp: length_merkle_layer)

declare merkle_inputs.simps [simp del]

section \<open>Framing\<close>

lemma tagged_hash_input: "tagged_hash X tag data = X (tagged_input X tag data) 32"
  by (simp add: tagged_hash_def tagged_input_def Let_def)

lemma tagged_input_eq [simp]: "tagged_input X tag a = tagged_input X tag b \<longleftrightarrow> a = b"
  by (simp add: tagged_input_def)

lemma th_finish_tagged: "th_finish X (push_raw body (th_new X tag)) = tagged_hash X tag body"
  by (simp add: th_finish_def push_raw_def th_new_def tagged_hash_def Let_def)

lemma push_chunk_append: "push_chunk c d = d @ push_chunk c []"
  by (simp add: push_chunk_def)

lemma push_chunks_append: "push_chunks cs d = d @ push_chunks cs []"
proof (induction cs arbitrary: d)
  case (Cons c cs)
  show ?case
    using Cons.IH [of "push_chunk c d"] Cons.IH [of "push_chunk c []"] push_chunk_append [of c d]
    by simp
qed simp

lemma push_chunk_ne: "push_chunk c d \<noteq> []"
proof
  assume "push_chunk c d = []"
  then have "length (push_chunk c d) = 0" by simp
  then show False by (simp add: push_chunk_def del: be_bytes.simps)
qed

lemma push_chunk_split:
  assumes "length a \<le> U64_MAX" "length b \<le> U64_MAX"
    "push_chunk a [] @ r = push_chunk b [] @ s"
  shows "a = b \<and> r = s"
proof -
  have eq: "be_bytes 8 (length a) @ a @ r = be_bytes 8 (length b) @ b @ s"
    using assms by (simp add: push_chunk_def min_absorb1 del: be_bytes.simps)
  then have hd: "be_bytes 8 (length a) = be_bytes 8 (length b)" and tl: "a @ r = b @ s"
    by (simp_all add: append_eq_fixed del: be_bytes.simps)
  have "length a = length b"
    by (rule be_bytes_inj [OF _ _ hd]) (use assms in \<open>simp_all add: U64_MAX_def\<close>)
  with tl show ?thesis by (simp add: append_eq_fixed)
qed

lemma push_chunks_Cons: "push_chunks (c # cs) [] = push_chunk c [] @ push_chunks cs []"
  using push_chunks_append [of cs "push_chunk c []"] by simp

lemma push_chunks_Nil_iff: "push_chunks cs [] = [] \<longleftrightarrow> cs = []"
  by (cases cs) (simp_all add: push_chunks_Cons push_chunk_ne del: push_chunks.simps(2))

lemma push_chunks_inj_aux:
  assumes "\<forall>c\<in>set cs. length c \<le> U64_MAX" "\<forall>c\<in>set ds. length c \<le> U64_MAX"
    "push_chunks cs [] = push_chunks ds []"
  shows "cs = ds"
  using assms
proof (induction cs arbitrary: ds)
  case Nil
  then show ?case using push_chunks_Nil_iff [of ds] by simp
next
  case (Cons c cs)
  then obtain d ds' where ds: "ds = d # ds'"
    using push_chunks_Nil_iff [of "c # cs"] by (cases ds) auto
  have "push_chunk c [] @ push_chunks cs [] = push_chunk d [] @ push_chunks ds' []"
    using Cons.prems(3) by (simp only: ds push_chunks_Cons)
  then have "c = d \<and> push_chunks cs [] = push_chunks ds' []"
    by (rule push_chunk_split [rotated 2]) (use Cons.prems(1,2) ds in simp_all)
  moreover have "cs = ds'" if "push_chunks cs [] = push_chunks ds' []"
    by (rule Cons.IH [OF _ _ that]) (use Cons.prems(1,2) ds in simp_all)
  ultimately show ?case using ds by simp
qed

section \<open>Merkle binding\<close>

lemma merkle_layer_fold_step:
  "length xs > 1 \<Longrightarrow> merkle_fold X bd xs = merkle_fold X bd (merkle_layer X bd xs)"
  by (subst merkle_fold.simps) simp

lemma length_merkle_fold: "xs \<noteq> [] \<Longrightarrow> length (merkle_fold X bd xs) = 1"
proof (induction X bd xs rule: merkle_fold.induct)
  case (1 X bd layer)
  show ?case
  proof (cases "length layer > 1")
    case True
    then have "merkle_layer X bd layer \<noteq> []"
      using length_merkle_layer [of X bd layer] by (intro notI) simp
    then show ?thesis using 1 True by (simp add: merkle_layer_fold_step)
  next
    case False
    then show ?thesis using 1(2) by (subst merkle_fold.simps) (cases layer; simp)
  qed
qed

lemma layer_width:
  "(\<And>x. length (X x 32) = 32) \<Longrightarrow> \<forall>a\<in>set (merkle_layer X bd xs). length a = 32"
  by (induction X bd xs rule: merkle_layer.induct) (auto simp: tagged_hash_input)

lemma layer_inj:
  assumes "inj_on (\<lambda>x. X x 32) (layer_inputs X bd xs \<union> layer_inputs X bd ys)"
    "length xs = length ys" "\<forall>a\<in>set xs. length a = 32" "\<forall>a\<in>set ys. length a = 32"
    "merkle_layer X bd xs = merkle_layer X bd ys"
  shows "xs = ys"
  using assms
proof (induction X bd xs arbitrary: ys rule: merkle_layer.induct)
  case (2 X bd a)
  then obtain b where ys: "ys = [b]" by (cases ys) auto
  have "tagged_input X bd (a @ a) = tagged_input X bd (b @ b)"
    by (rule inj_onD [OF 2(1)]) (use 2(5) ys in \<open>simp_all add: tagged_hash_input\<close>)
  then have "a @ a = b @ b" by simp
  moreover have "length a = length b" using 2(3,4) ys by simp
  ultimately show ?case using ys append_eq_fixed [of a b a b] by simp
next
  case (3 X bd a b rest)
  obtain c d rest' where ys: "ys = c # d # rest'"
    using 3(3) by (metis Suc_length_conv length_Cons)
  have "tagged_input X bd (a @ b) = tagged_input X bd (c @ d)"
    by (rule inj_onD [OF 3(2)]) (use 3(6) ys in \<open>simp_all add: tagged_hash_input\<close>)
  then have "a @ b = c @ d" by simp
  moreover have "length a = length c" using 3(4,5) ys by simp
  ultimately have "a = c" "b = d" using append_eq_fixed [of a c b d] by simp_all
  moreover have "rest = rest'"
  proof (rule 3(1))
    show "inj_on (\<lambda>x. X x 32) (layer_inputs X bd rest \<union> layer_inputs X bd rest')"
      using 3(2) by (rule inj_on_subset) (auto simp: ys)
  qed (use 3(3-6) ys in simp_all)
  ultimately show ?case using ys by simp
qed simp

lemma fold_inj:
  assumes "\<And>x. length (X x 32) = 32"
    "inj_on (\<lambda>x. X x 32) (merkle_inputs X bd xs \<union> merkle_inputs X bd ys)"
    "length xs = length ys" "\<forall>a\<in>set xs. length a = 32" "\<forall>a\<in>set ys. length a = 32"
    "merkle_fold X bd xs = merkle_fold X bd ys"
  shows "xs = ys"
  using assms
proof (induction X bd xs arbitrary: ys rule: merkle_fold.induct)
  case (1 X bd xs)
  show ?case
  proof (cases "length xs > 1")
    case True
    let ?lx = "merkle_layer X bd xs" and ?ly = "merkle_layer X bd ys"
    have in_x: "merkle_inputs X bd xs = layer_inputs X bd xs \<union> merkle_inputs X bd ?lx"
      and in_y: "merkle_inputs X bd ys = layer_inputs X bd ys \<union> merkle_inputs X bd ?ly"
      using True 1(4) by (subst merkle_inputs.simps; simp)+
    have "?lx = ?ly"
    proof (rule 1(1) [OF True 1(2)])
      show "inj_on (\<lambda>x. X x 32) (merkle_inputs X bd ?lx \<union> merkle_inputs X bd ?ly)"
        using 1(3) by (rule inj_on_subset) (auto simp: in_x in_y)
      show "merkle_fold X bd ?lx = merkle_fold X bd ?ly"
        using 1(4,7) True by (simp add: merkle_layer_fold_step)
    qed (use 1(4) layer_width [of X, OF 1(2)] in \<open>simp_all add: length_merkle_layer\<close>)
    moreover have "inj_on (\<lambda>x. X x 32) (layer_inputs X bd xs \<union> layer_inputs X bd ys)"
      using 1(3) by (rule inj_on_subset) (auto simp: in_x in_y)
    ultimately show ?thesis using layer_inj 1(4-6) by blast
  next
    case False
    then show ?thesis using 1(4,7) by (simp add: merkle_fold.simps)
  qed
qed

lemma merkle_root_inj:
  assumes "\<And>x. length (X x 32) = 32"
    "inj_on (\<lambda>x. X x 32) (merkle_inputs X bd xs \<union> merkle_inputs X bd ys)"
    "length xs = length ys" "\<forall>a\<in>set xs. length a = 32" "\<forall>a\<in>set ys. length a = 32"
    "binary_merkle_root X xs bd = binary_merkle_root X ys bd"
  shows "xs = ys"
proof (cases "xs = []")
  case False
  with assms(3) have ne: "ys \<noteq> []" by auto
  have "hd (merkle_fold X bd xs) = hd (merkle_fold X bd ys)"
    using assms(6) False ne by (simp add: binary_merkle_root_def)
  then have "merkle_fold X bd xs = merkle_fold X bd ys"
    using length_merkle_fold [OF False, of X bd] length_merkle_fold [OF ne, of X bd]
    by (auto simp: length_Suc_conv)
  then show ?thesis using fold_inj assms(1-5) by blast
qed (use assms(3) in simp)

end
