(* ===== verification/Slh_Params.thy ===== *)
theory Slh_Params
  imports Crypto_Hash
begin

text \<open>
  The hash addresses (\<open>vendor/slh-dsa/src/address.rs\<close>) and the parameter sets of SLH-DSA
  (\<open>hashes.rs\<close>, \<open>hashes/shake.rs\<close>, \<open>hashes/sha2.rs\<close>).  The digests themselves belong to the crates
  \<open>sha3\<close>, \<open>sha2\<close> and \<open>hmac\<close> and are the parameter \<open>H\<close>.  An array type fixes the length of every
  value it holds: \<open>fit n\<close> is the content of an \<open>n\<close>-byte array filled from a digest.

  The locale \<open>slh_params\<close> is the contract of the trait \<open>ParameterSet\<close>: the output lengths of the hash
  functions and the arithmetic between the constants.  It is interpreted for the twelve sets of the
  crate.  The encodings of two different addresses never coincide.
\<close>

unbundle bit_operations_syntax

section \<open>Addresses\<close>

text \<open>The constant fields (type, padding) are written by the encoding.\<close>

record wots_hash =
  wh_layer_adrs :: nat
  wh_tree_adrs_high :: nat
  wh_tree_adrs_low :: nat
  wh_key_pair_adrs :: nat
  wh_chain_adrs :: nat
  wh_hash_adrs :: nat

record wots_pk =
  wk_layer_adrs :: nat
  wk_tree_adrs_high :: nat
  wk_tree_adrs_low :: nat
  wk_key_pair_adrs :: nat

record hash_tree =
  ht_layer_adrs :: nat
  ht_tree_adrs_high :: nat
  ht_tree_adrs_low :: nat
  ht_tree_height :: nat
  ht_tree_index :: nat

record fors_tree =
  ft_tree_adrs_high :: nat
  ft_tree_adrs_low :: nat
  ft_key_pair_adrs :: nat
  ft_tree_height :: nat
  ft_tree_index :: nat

record fors_roots =
  fr_tree_adrs_high :: nat
  fr_tree_adrs_low :: nat
  fr_key_pair_adrs :: nat

record wots_prf =
  wp_layer_adrs :: nat
  wp_tree_adrs_high :: nat
  wp_tree_adrs_low :: nat
  wp_key_pair_adrs :: nat
  wp_chain_adrs :: nat

record fors_prf =
  fp_tree_adrs_high :: nat
  fp_tree_adrs_low :: nat
  fp_key_pair_adrs :: nat
  fp_tree_index :: nat

datatype slh_address =
    WotsHash wots_hash
  | WotsPk wots_pk
  | HashTree hash_tree
  | ForsTree fors_tree
  | ForsRoots fors_roots
  | WotsPrf wots_prf
  | ForsPrf fors_prf

fun TYPE_CONST :: "slh_address \<Rightarrow> nat" where
"TYPE_CONST (WotsHash a) = 0" |
"TYPE_CONST (WotsPk a) = 1" |
"TYPE_CONST (HashTree a) = 2" |
"TYPE_CONST (ForsTree a) = 3" |
"TYPE_CONST (ForsRoots a) = 4" |
"TYPE_CONST (WotsPrf a) = 5" |
"TYPE_CONST (ForsPrf a) = 6"

text \<open>The fields of an address in the order of its struct: layer, high and low tree, three words.\<close>

fun adrs_fields :: "slh_address \<Rightarrow> nat \<times> nat \<times> nat \<times> nat \<times> nat \<times> nat" where
"adrs_fields (WotsHash a) =
   (wh_layer_adrs a, wh_tree_adrs_high a, wh_tree_adrs_low a, wh_key_pair_adrs a, wh_chain_adrs a, wh_hash_adrs a)" |
"adrs_fields (WotsPk a) =
   (wk_layer_adrs a, wk_tree_adrs_high a, wk_tree_adrs_low a, wk_key_pair_adrs a, 0, 0)" |
"adrs_fields (HashTree a) =
   (ht_layer_adrs a, ht_tree_adrs_high a, ht_tree_adrs_low a, 0, ht_tree_height a, ht_tree_index a)" |
"adrs_fields (ForsTree a) =
   (0, ft_tree_adrs_high a, ft_tree_adrs_low a, ft_key_pair_adrs a, ft_tree_height a, ft_tree_index a)" |
"adrs_fields (ForsRoots a) =
   (0, fr_tree_adrs_high a, fr_tree_adrs_low a, fr_key_pair_adrs a, 0, 0)" |
"adrs_fields (WotsPrf a) =
   (wp_layer_adrs a, wp_tree_adrs_high a, wp_tree_adrs_low a, wp_key_pair_adrs a, wp_chain_adrs a, 0)" |
"adrs_fields (ForsPrf a) =
   (0, fp_tree_adrs_high a, fp_tree_adrs_low a, fp_key_pair_adrs a, 0, fp_tree_index a)"

definition as_bytes :: "slh_address \<Rightarrow> bytes" where
"as_bytes a = (case adrs_fields a of (layer, high, low, w1, w2, w3) \<Rightarrow>
   be_bytes 4 layer @ be_bytes 4 high @ be_bytes 8 low @ be_bytes 4 (TYPE_CONST a)
   @ be_bytes 4 w1 @ be_bytes 4 w2 @ be_bytes 4 w3)"

definition compressed :: "slh_address \<Rightarrow> bytes" where
"compressed a = (let bs = as_bytes a in
   [bs ! 3] @ take 8 (drop 8 bs) @ [bs ! 19] @ take 12 (drop 20 bs))"

definition wots_hash_default :: wots_hash where
"wots_hash_default = \<lparr> wh_layer_adrs = 0, wh_tree_adrs_high = 0, wh_tree_adrs_low = 0,
   wh_key_pair_adrs = 0, wh_chain_adrs = 0, wh_hash_adrs = 0 \<rparr>"

definition wh_prf_adrs :: "wots_hash \<Rightarrow> wots_prf" where
"wh_prf_adrs a = \<lparr> wp_layer_adrs = wh_layer_adrs a, wp_tree_adrs_high = wh_tree_adrs_high a,
   wp_tree_adrs_low = wh_tree_adrs_low a, wp_key_pair_adrs = wh_key_pair_adrs a, wp_chain_adrs = 0 \<rparr>"

definition wh_pk_adrs :: "wots_hash \<Rightarrow> wots_pk" where
"wh_pk_adrs a = \<lparr> wk_layer_adrs = wh_layer_adrs a, wk_tree_adrs_high = wh_tree_adrs_high a,
   wk_tree_adrs_low = wh_tree_adrs_low a, wk_key_pair_adrs = wh_key_pair_adrs a \<rparr>"

definition wh_tree_adrs :: "wots_hash \<Rightarrow> hash_tree" where
"wh_tree_adrs a = \<lparr> ht_layer_adrs = wh_layer_adrs a, ht_tree_adrs_high = wh_tree_adrs_high a,
   ht_tree_adrs_low = wh_tree_adrs_low a, ht_tree_height = 0, ht_tree_index = 0 \<rparr>"

definition fors_tree_new :: "nat \<Rightarrow> nat \<Rightarrow> fors_tree" where
"fors_tree_new tree_adrs_low key_pair_adrs = \<lparr> ft_tree_adrs_high = 0, ft_tree_adrs_low = tree_adrs_low,
   ft_key_pair_adrs = key_pair_adrs, ft_tree_height = 0, ft_tree_index = 0 \<rparr>"

definition ft_prf_adrs :: "fors_tree \<Rightarrow> fors_prf" where
"ft_prf_adrs a = \<lparr> fp_tree_adrs_high = ft_tree_adrs_high a, fp_tree_adrs_low = ft_tree_adrs_low a,
   fp_key_pair_adrs = ft_key_pair_adrs a, fp_tree_index = ft_tree_index a \<rparr>"

definition ft_fors_roots :: "fors_tree \<Rightarrow> fors_roots" where
"ft_fors_roots a = \<lparr> fr_tree_adrs_high = ft_tree_adrs_high a, fr_tree_adrs_low = ft_tree_adrs_low a,
   fr_key_pair_adrs = ft_key_pair_adrs a \<rparr>"

section \<open>Addresses are encoded injectively\<close>

text \<open>Every field fits its width.\<close>

definition adrs_in_range :: "slh_address \<Rightarrow> bool" where
"adrs_in_range a = (case adrs_fields a of (layer, high, low, w1, w2, w3) \<Rightarrow>
   layer \<le> U32_MAX \<and> high \<le> U32_MAX \<and> low \<le> U64_MAX \<and> w1 \<le> U32_MAX \<and> w2 \<le> U32_MAX \<and> w3 \<le> U32_MAX)"

text \<open>The layer and the high tree word that the compressed form cuts down hold nothing else.\<close>

definition adrs_compressible :: "slh_address \<Rightarrow> bool" where
"adrs_compressible a = (case adrs_fields a of (layer, high, _) \<Rightarrow> layer < 256 \<and> high = 0)"

lemma be_bytes_u32_inj: "be_bytes 4 x = be_bytes 4 y \<Longrightarrow> x \<le> U32_MAX \<Longrightarrow> y \<le> U32_MAX \<Longrightarrow> x = y"
  by (rule be_bytes_inj [of _ 4]) (auto simp: width_simps)

lemma be_bytes_u64_inj: "be_bytes 8 x = be_bytes 8 y \<Longrightarrow> x \<le> U64_MAX \<Longrightarrow> y \<le> U64_MAX \<Longrightarrow> x = y"
  by (rule be_bytes_inj [of _ 8]) (auto simp: width_simps)

lemma TYPE_CONST_le: "TYPE_CONST a \<le> 6"
  by (cases a) auto

lemma slh_address_eqI: "TYPE_CONST a = TYPE_CONST b \<Longrightarrow> adrs_fields a = adrs_fields b \<Longrightarrow> a = b"
  by (cases a; cases b) auto

lemma as_bytes_inj:
  assumes "adrs_in_range a" "adrs_in_range b" "as_bytes a = as_bytes b"
  shows "a = b"
proof (rule slh_address_eqI)
  obtain l h w x y z where a: "adrs_fields a = (l, h, w, x, y, z)" by (rule prod_cases6)
  obtain l' h' w' x' y' z' where b: "adrs_fields b = (l', h', w', x', y', z')" by (rule prod_cases6)
  have eq: "be_bytes 4 l = be_bytes 4 l'" "be_bytes 4 h = be_bytes 4 h'" "be_bytes 8 w = be_bytes 8 w'"
    "be_bytes 4 (TYPE_CONST a) = be_bytes 4 (TYPE_CONST b)"
    "be_bytes 4 x = be_bytes 4 x'" "be_bytes 4 y = be_bytes 4 y'" "be_bytes 4 z = be_bytes 4 z'"
    using assms(3) by (simp_all add: as_bytes_def a b del: be_bytes.simps)
  show "TYPE_CONST a = TYPE_CONST b"
    using be_bytes_u32_inj [OF eq(4)] TYPE_CONST_le [of a] TYPE_CONST_le [of b] by (simp add: U32_MAX_def)
  show "adrs_fields a = adrs_fields b"
    using assms(1,2) eq by (simp add: a b adrs_in_range_def be_bytes_u32_inj be_bytes_u64_inj)
qed

lemma be_bytes_low: "be_bytes 4 x ! 3 = word_of_nat (x mod 256)"
proof -
  have "be_bytes 4 x = be_bytes 3 (x div 256) @ [word_of_nat (x mod 256)]"
    using be_bytes.simps(2) [of 3 x] by (simp del: be_bytes.simps)
  then show ?thesis by (simp add: nth_append del: be_bytes.simps)
qed

lemma compressed_fields:
  assumes "adrs_fields a = (l, h, w, x, y, z)"
  shows "compressed a = word_of_nat (l mod 256) # be_bytes 8 w @ word_of_nat (TYPE_CONST a mod 256) # be_bytes 4 x @ be_bytes 4 y @ be_bytes 4 z"
proof -
  have "as_bytes a ! 3 = be_bytes 4 l ! 3"
    by (simp add: as_bytes_def assms nth_append del: be_bytes.simps)
  moreover have "as_bytes a ! 19 = be_bytes 4 (TYPE_CONST a) ! 3"
    by (simp add: as_bytes_def assms nth_append del: be_bytes.simps)
  ultimately show ?thesis
    by (simp add: compressed_def as_bytes_def assms be_bytes_low del: be_bytes.simps)
qed

lemma compressed_inj:
  assumes "adrs_in_range a" "adrs_in_range b" "adrs_compressible a" "adrs_compressible b"
    and "compressed a = compressed b"
  shows "a = b"
proof (rule slh_address_eqI)
  obtain l h w x y z where a: "adrs_fields a = (l, h, w, x, y, z)" by (rule prod_cases6)
  obtain l' h' w' x' y' z' where b: "adrs_fields b = (l', h', w', x', y', z')" by (rule prod_cases6)
  have eq: "(word_of_nat (l mod 256) :: byte) = word_of_nat (l' mod 256)" "be_bytes 8 w = be_bytes 8 w'"
    "(word_of_nat (TYPE_CONST a mod 256) :: byte) = word_of_nat (TYPE_CONST b mod 256)"
    "be_bytes 4 x = be_bytes 4 x'" "be_bytes 4 y = be_bytes 4 y'" "be_bytes 4 z = be_bytes 4 z'"
    using assms(5) by (simp_all add: compressed_fields [OF a] compressed_fields [OF b] del: be_bytes.simps)
  have byte: "i = j" if "(word_of_nat (i mod 256) :: byte) = word_of_nat (j mod 256)" "i < 256" "j < 256" for i j :: nat
  proof -
    have "i mod 256 = j mod 256" using arg_cong [OF that(1), of unat] by (simp add: unat_of_nat)
    then show ?thesis using that(2,3) by simp
  qed
  show "TYPE_CONST a = TYPE_CONST b"
    using byte [OF eq(3)] TYPE_CONST_le [of a] TYPE_CONST_le [of b] by simp
  show "adrs_fields a = adrs_fields b"
    using assms(1-4) eq byte [OF eq(1)]
    by (simp add: a b adrs_in_range_def adrs_compressible_def be_bytes_u32_inj be_bytes_u64_inj)
qed

text \<open>
  Two hash addresses with the same bytes are the same address, whatever their kinds: hashes of
  different positions never share their address input.  The 22-byte form that the SHA-2 sets use
  keeps this for every address whose layer fits a byte and whose high tree word is unused, which
  holds for all sets of the crate.
\<close>

theorem slh_address_binding:
  assumes "adrs_in_range a" "adrs_in_range b"
  shows "(as_bytes a = as_bytes b \<longleftrightarrow> a = b)
    \<and> (adrs_compressible a \<and> adrs_compressible b \<longrightarrow> (compressed a = compressed b \<longleftrightarrow> a = b))"
  using assms as_bytes_inj compressed_inj by blast

theorem slh_address_binding_witness:
  "as_bytes (WotsHash wots_hash_default) \<noteq> as_bytes (ForsTree (fors_tree_new 3 5))
   \<and> compressed (WotsHash wots_hash_default) \<noteq> compressed (ForsTree (fors_tree_new 3 5))"
  using slh_address_binding [of "WotsHash wots_hash_default" "ForsTree (fors_tree_new 3 5)"]
  by (simp add: adrs_in_range_def adrs_compressible_def wots_hash_default_def fors_tree_new_def width_simps)

section \<open>Hash suites\<close>

text \<open>The digests of the external crates.\<close>

record digests =
  dg_shake256 :: xof
  dg_sha256 :: "bytes \<Rightarrow> bytes"
  dg_sha512 :: "bytes \<Rightarrow> bytes"
  dg_hmac_sha256 :: "bytes \<Rightarrow> bytes \<Rightarrow> bytes"
  dg_hmac_sha512 :: "bytes \<Rightarrow> bytes \<Rightarrow> bytes"

definition fit :: "nat \<Rightarrow> bytes \<Rightarrow> bytes" where
"fit n bs = take n (bs @ replicate n 0)"

text \<open>The trait \<open>HashSuite\<close>: the lengths and the six hash functions.\<close>

record hash_suite =
  hs_n :: nat
  hs_m :: nat
  hs_prf_msg :: "bytes \<Rightarrow> bytes \<Rightarrow> bytes \<Rightarrow> bytes"
  hs_h_msg :: "bytes \<Rightarrow> bytes \<Rightarrow> bytes \<Rightarrow> bytes \<Rightarrow> bytes"
  hs_prf_sk :: "bytes \<Rightarrow> bytes \<Rightarrow> slh_address \<Rightarrow> bytes"
  hs_t :: "bytes \<Rightarrow> slh_address \<Rightarrow> bytes list \<Rightarrow> bytes"
  hs_h :: "bytes \<Rightarrow> slh_address \<Rightarrow> bytes \<Rightarrow> bytes \<Rightarrow> bytes"
  hs_f :: "bytes \<Rightarrow> slh_address \<Rightarrow> bytes \<Rightarrow> bytes"

text \<open>The constants that the traits \<open>WotsParams\<close> to \<open>ParameterSet\<close> add.\<close>

record parameter_set = hash_suite +
  ps_wots_msg_len :: nat
  ps_wots_sig_len :: nat
  ps_hprime :: nat
  ps_d :: nat
  ps_h :: nat
  ps_k :: nat
  ps_a :: nat
  ps_md :: nat
  ps_vk_len :: nat
  ps_sk_len :: nat
  ps_sig_len :: nat

definition Shake :: "digests \<Rightarrow> nat \<Rightarrow> nat \<Rightarrow> hash_suite" where
"Shake H n m =
   \<lparr> hs_n = n, hs_m = m,
     hs_prf_msg = (\<lambda>sk_prf opt_rand msg. fit n (dg_shake256 H (sk_prf @ opt_rand @ msg) n)),
     hs_h_msg = (\<lambda>rand pk_seed pk_root msg. fit m (dg_shake256 H (rand @ pk_seed @ pk_root @ msg) m)),
     hs_prf_sk = (\<lambda>pk_seed sk_seed adrs. fit n (dg_shake256 H (pk_seed @ as_bytes adrs @ sk_seed) n)),
     hs_t = (\<lambda>pk_seed adrs ms. fit n (dg_shake256 H (pk_seed @ as_bytes adrs @ concat ms) n)),
     hs_h = (\<lambda>pk_seed adrs m1 m2. fit n (dg_shake256 H (pk_seed @ as_bytes adrs @ m1 @ m2) n)),
     hs_f = (\<lambda>pk_seed adrs x. fit n (dg_shake256 H (pk_seed @ as_bytes adrs @ x) n)) \<rparr>"

definition sha256 :: "digests \<Rightarrow> bytes \<Rightarrow> bytes" where
"sha256 H bs = fit 32 (dg_sha256 H bs)"

definition sha512 :: "digests \<Rightarrow> bytes \<Rightarrow> bytes" where
"sha512 H bs = fit 64 (dg_sha512 H bs)"

definition hmac_sha256 :: "digests \<Rightarrow> bytes \<Rightarrow> bytes \<Rightarrow> bytes" where
"hmac_sha256 H key bs = fit 32 (dg_hmac_sha256 H key bs)"

definition hmac_sha512 :: "digests \<Rightarrow> bytes \<Rightarrow> bytes \<Rightarrow> bytes" where
"hmac_sha512 H key bs = fit 64 (dg_hmac_sha512 H key bs)"

text \<open>\<open>mgf1\<close> fills \<open>len\<close> bytes in blocks of the digest's output size, the last one cut off.\<close>

definition mgf1 :: "(bytes \<Rightarrow> bytes) \<Rightarrow> nat \<Rightarrow> nat \<Rightarrow> bytes \<Rightarrow> bytes" where
"mgf1 digest output_size len seed =
   take len (concat (map (\<lambda>counter. digest (seed @ be_bytes 4 counter)) [0..<(len + output_size - 1) div output_size]))"

definition Sha2L1 :: "digests \<Rightarrow> nat \<Rightarrow> nat \<Rightarrow> hash_suite" where
"Sha2L1 H n m =
   (let zeroes = replicate (64 - n) 0 in
   \<lparr> hs_n = n, hs_m = m,
     hs_prf_msg = (\<lambda>sk_prf opt_rand msg. take n (hmac_sha256 H sk_prf (opt_rand @ msg))),
     hs_h_msg = (\<lambda>rand pk_seed pk_root msg.
       mgf1 (sha256 H) 32 m (rand @ pk_seed @ sha256 H (rand @ pk_seed @ pk_root @ msg))),
     hs_prf_sk = (\<lambda>pk_seed sk_seed adrs. take n (sha256 H (pk_seed @ zeroes @ compressed adrs @ sk_seed))),
     hs_t = (\<lambda>pk_seed adrs ms. take n (sha256 H (pk_seed @ zeroes @ compressed adrs @ concat ms))),
     hs_h = (\<lambda>pk_seed adrs m1 m2. take n (sha256 H (pk_seed @ zeroes @ compressed adrs @ m1 @ m2))),
     hs_f = (\<lambda>pk_seed adrs x. take n (sha256 H (pk_seed @ zeroes @ compressed adrs @ x))) \<rparr>)"

definition Sha2L35 :: "digests \<Rightarrow> nat \<Rightarrow> nat \<Rightarrow> hash_suite" where
"Sha2L35 H n m =
   (let zeroes64 = replicate (64 - n) 0; zeroes128 = replicate (128 - n) 0 in
   \<lparr> hs_n = n, hs_m = m,
     hs_prf_msg = (\<lambda>sk_prf opt_rand msg. take n (hmac_sha512 H sk_prf (opt_rand @ msg))),
     hs_h_msg = (\<lambda>rand pk_seed pk_root msg.
       mgf1 (sha512 H) 64 m (rand @ pk_seed @ sha512 H (rand @ pk_seed @ pk_root @ msg))),
     hs_prf_sk = (\<lambda>pk_seed sk_seed adrs. take n (sha256 H (pk_seed @ zeroes64 @ compressed adrs @ sk_seed))),
     hs_t = (\<lambda>pk_seed adrs ms. take n (sha512 H (pk_seed @ zeroes128 @ compressed adrs @ concat ms))),
     hs_h = (\<lambda>pk_seed adrs m1 m2. take n (sha512 H (pk_seed @ zeroes128 @ compressed adrs @ m1 @ m2))),
     hs_f = (\<lambda>pk_seed adrs x. take n (sha256 H (pk_seed @ zeroes64 @ compressed adrs @ x))) \<rparr>)"

section \<open>The parameter sets\<close>

datatype slh_set =
    Shake128s | Shake128f | Shake192s | Shake192f | Shake256s | Shake256f
  | Sha2_128s | Sha2_128f | Sha2_192s | Sha2_192f | Sha2_256s | Sha2_256f

fun set_suite :: "digests \<Rightarrow> slh_set \<Rightarrow> hash_suite" where
"set_suite H Shake128s = Shake H 16 30" |
"set_suite H Shake128f = Shake H 16 34" |
"set_suite H Shake192s = Shake H 24 39" |
"set_suite H Shake192f = Shake H 24 42" |
"set_suite H Shake256s = Shake H 32 47" |
"set_suite H Shake256f = Shake H 32 49" |
"set_suite H Sha2_128s = Sha2L1 H 16 30" |
"set_suite H Sha2_128f = Sha2L1 H 16 34" |
"set_suite H Sha2_192s = Sha2L35 H 24 39" |
"set_suite H Sha2_192f = Sha2L35 H 24 42" |
"set_suite H Sha2_256s = Sha2L35 H 32 47" |
"set_suite H Sha2_256f = Sha2L35 H 32 49"

text \<open>
  The constants in the order of the record: the two WOTS+ lengths, \<open>H'\<close>, \<open>D\<close>, \<open>H\<close>, \<open>K\<close>, \<open>A\<close>, \<open>MD\<close> and
  the lengths of an encoded verifying key, signing key and signature.
\<close>

fun set_constants :: "slh_set \<Rightarrow> nat \<times> nat \<times> nat \<times> nat \<times> nat \<times> nat \<times> nat \<times> nat \<times> nat \<times> nat \<times> nat" where
"set_constants Shake128s = (32, 35, 9, 7, 63, 14, 12, (12 * 14 + 7) div 8, 32, 4 * 16, 7856)" |
"set_constants Shake128f = (32, 35, 3, 22, 66, 33, 6, 25, 32, 4 * 16, 17088)" |
"set_constants Shake192s = (24 * 2, 24 * 2 + 3, 9, 7, 63, 17, 14, (14 * 17 + 7) div 8, 48, 4 * 24, 16224)" |
"set_constants Shake192f = (24 * 2, 24 * 2 + 3, 3, 22, 66, 33, 8, (33 * 8 + 7) div 8, 48, 4 * 24, 35664)" |
"set_constants Shake256s = (32 * 2, 32 * 2 + 3, 8, 8, 64, 22, 14, (14 * 22 + 7) div 8, 64, 4 * 32, 29792)" |
"set_constants Shake256f = (32 * 2, 32 * 2 + 3, 4, 17, 68, 35, 9, (35 * 9 + 7) div 8, 64, 4 * 32, 49856)" |
"set_constants Sha2_128s = (32, 35, 9, 7, 63, 14, 12, (12 * 14 + 7) div 8, 32, 4 * 16, 7856)" |
"set_constants Sha2_128f = (32, 35, 3, 22, 66, 33, 6, 25, 32, 4 * 16, 17088)" |
"set_constants Sha2_192s = (24 * 2, 24 * 2 + 3, 9, 7, 63, 17, 14, (14 * 17 + 7) div 8, 48, 4 * 24, 16224)" |
"set_constants Sha2_192f = (24 * 2, 24 * 2 + 3, 3, 22, 66, 33, 8, (33 * 8 + 7) div 8, 48, 4 * 24, 35664)" |
"set_constants Sha2_256s = (32 * 2, 32 * 2 + 3, 8, 8, 64, 22, 14, (14 * 22 + 7) div 8, 64, 4 * 32, 29792)" |
"set_constants Sha2_256f = (32 * 2, 32 * 2 + 3, 4, 17, 68, 35, 9, (35 * 9 + 7) div 8, 64, 4 * 32, 49856)"

definition slh_set_params :: "digests \<Rightarrow> slh_set \<Rightarrow> parameter_set" where
"slh_set_params H s = (case set_constants s of (wm, wl, hp, d, h, k, a, md, vk, sk, sg) \<Rightarrow>
   hash_suite.extend (set_suite H s) (parameter_set.fields wm wl hp d h k a md vk sk sg))"

section \<open>The contract of a parameter set\<close>

locale slh_params =
  fixes P :: parameter_set
  assumes n_pos: "0 < hs_n P"
    and n_le: "hs_n P \<le> 64"
    and wots_msg_len: "ps_wots_msg_len P = 2 * hs_n P"
    and wots_sig_len: "ps_wots_sig_len P = 2 * hs_n P + 3"
    and hprime_pos: "0 < ps_hprime P"
    and hprime_less: "ps_hprime P < 32"
    and d_pos: "0 < ps_d P"
    and h_eq: "ps_h P = ps_hprime P * ps_d P"
    and tree_bits: "ps_h P - ps_hprime P \<le> 64"
    and a_pos: "0 < ps_a P"
    and a_le: "ps_a P \<le> 16"
    and fors_index_bits: "ps_k P * 2 ^ ps_a P \<le> 2 ^ 32"
    and md_bits: "ps_k P * ps_a P \<le> 8 * ps_md P"
    and digest_len: "ps_md P + (ps_h P - ps_hprime P + 7) div 8 + (ps_hprime P + 7) div 8 \<le> hs_m P"
    and vk_len: "ps_vk_len P = 2 * hs_n P"
    and sk_len: "ps_sk_len P = 4 * hs_n P"
    and sig_len: "ps_sig_len P = hs_n P * (1 + ps_k P * (ps_a P + 1) + ps_d P * (ps_wots_sig_len P + ps_hprime P))"
    and prf_msg_length: "length (hs_prf_msg P a b c) = hs_n P"
    and h_msg_length: "length (hs_h_msg P a b c e) = hs_m P"
    and prf_sk_length: "length (hs_prf_sk P a b x) = hs_n P"
    and t_length: "length (hs_t P a x bs) = hs_n P"
    and h_length: "length (hs_h P a x b c) = hs_n P"
    and f_length: "length (hs_f P a x b) = hs_n P"

lemma length_fit [simp]: "length (fit n bs) = n"
  by (simp add: fit_def)

lemma length_mgf1:
  assumes "\<And>x. length (digest x) = w" "0 < w"
  shows "length (mgf1 digest w len seed) = len"
proof -
  have sum: "length (concat (map (\<lambda>i. digest (seed @ be_bytes 4 i)) ns)) = length ns * w" for ns
    using assms(1) by (induction ns) auto
  have "len \<le> (len + w - 1) div w * w"
  proof -
    have "len + w - 1 = (len + w - 1) div w * w + (len + w - 1) mod w" by simp
    moreover have "(len + w - 1) mod w < w" using assms(2) by simp
    ultimately show ?thesis by linarith
  qed
  then show ?thesis by (simp add: mgf1_def sum min_absorb2)
qed

text \<open>Every set of the crate keeps the contract.\<close>

lemmas suite_defs = Shake_def Sha2L1_def Sha2L35_def hash_suite.extend_def parameter_set.fields_def
  sha256_def sha512_def hmac_sha256_def hmac_sha512_def

interpretation slh_set: slh_params "slh_set_params H s" for H :: digests and s :: slh_set
proof -
  show "slh_params (slh_set_params H s)"
    by (cases s; unfold_locales) (simp_all add: slh_set_params_def suite_defs length_mgf1 Let_def)
qed

end
