(* ===== verification/Slh_Wots.thy ===== *)
theory Slh_Wots
  imports Slh_Params
begin

text \<open>
  The digit expansion of \<open>vendor/slh-dsa/src/util.rs\<close> and the one-time signatures WOTS+ of
  \<open>wots.rs\<close>.  An index past the end of a slice is \<open>Panic\<close>; the lemmas show that the lengths of a
  parameter set rule it out.  A signature gives back the public key, and the checksum makes the digit
  strings of two messages incomparable: no signature can be extended to another message.
\<close>

datatype slh_error = SlhError

section \<open>Digits of a byte string\<close>

lemma nat_and_mask: "(x :: nat) AND (2 ^ n - 1) = x mod 2 ^ n"
  using take_bit_eq_mask [of n x] by (simp add: mask_eq_exp_minus_1 take_bit_eq_mod)

text \<open>The inner loop reads bytes until \<open>b\<close> bits are there; the slice is consumed from the front.\<close>

fun base_2b_fill :: "nat \<Rightarrow> nat \<Rightarrow> nat \<Rightarrow> bytes \<Rightarrow> (nat \<times> nat \<times> bytes, slh_error) result" where
"base_2b_fill b bits tot [] = (if bits < b then Panic else Ok (bits, tot, []))" |
"base_2b_fill b bits tot (x # xs) =
   (if bits < b then base_2b_fill b (bits + 8) (tot * 256 mod 2 ^ 64 + unat x) xs else Ok (bits, tot, x # xs))"

fun base_2b_loop :: "nat \<Rightarrow> nat \<Rightarrow> nat \<Rightarrow> nat \<Rightarrow> bytes \<Rightarrow> (nat list, slh_error) result" where
"base_2b_loop b 0 bits tot xs = Ok []" |
"base_2b_loop b (Suc n) bits tot xs =
   bind_r (base_2b_fill b bits tot xs) (\<lambda>(bits, tot, xs).
     let bits = bits - b; out = drop_bit bits tot AND (2 ^ b - 1) in
     if out > U16_MAX then Panic
     else bind_r (base_2b_loop b n bits (tot AND (2 ^ bits - 1)) xs) (\<lambda>ds. Ok (out # ds)))"

definition base_2b :: "nat \<Rightarrow> nat \<Rightarrow> bytes \<Rightarrow> (nat list, slh_error) result" where
"base_2b b out_len x = base_2b_loop b out_len 0 0 x"

section \<open>WOTS+\<close>

definition LOG_W :: nat where
"LOG_W = 4"

definition WOTS_W :: nat where
"WOTS_W = 16"

definition CK_LEN :: nat where
"CK_LEN = 3"

type_synonym wots_sig = "bytes list"

fun wots_chain :: "parameter_set \<Rightarrow> bytes \<Rightarrow> nat \<Rightarrow> nat \<Rightarrow> bytes \<Rightarrow> wots_hash \<Rightarrow> bytes" where
"wots_chain P x i 0 pk_seed adrs = x" |
"wots_chain P x i (Suc s) pk_seed adrs =
   (let adrs = adrs\<lparr> wh_hash_adrs := i \<rparr>
    in wots_chain P (hs_f P pk_seed (WotsHash adrs) x) (Suc i) s pk_seed adrs)"

text \<open>The secret of chain \<open>i\<close>; \<open>prf_adrs\<close> clears the chain, which is then set.\<close>

definition wots_secret :: "parameter_set \<Rightarrow> bytes \<Rightarrow> bytes \<Rightarrow> wots_hash \<Rightarrow> nat \<Rightarrow> bytes" where
"wots_secret P sk_seed pk_seed adrs i =
   hs_prf_sk P pk_seed sk_seed (WotsPrf ((wh_prf_adrs adrs)\<lparr> wp_chain_adrs := i \<rparr>))"

definition wots_pk_gen :: "parameter_set \<Rightarrow> bytes \<Rightarrow> bytes \<Rightarrow> wots_hash \<Rightarrow> bytes" where
"wots_pk_gen P sk_seed pk_seed adrs =
   (let tmp = map (\<lambda>i. wots_chain P (wots_secret P sk_seed pk_seed adrs i) 0 (2 ^ LOG_W - 1) pk_seed
                         (adrs\<lparr> wh_chain_adrs := i \<rparr>)) [0..<ps_wots_sig_len P]
    in hs_t P pk_seed (WotsPk (wh_pk_adrs adrs)) tmp)"

text \<open>The message digits and the checksum digits, a \<open>u16\<close> sum shifted left by four.\<close>

definition wots_msg_csum :: "parameter_set \<Rightarrow> bytes \<Rightarrow> (nat list, slh_error) result" where
"wots_msg_csum P m =
   bind_r (base_2b LOG_W (ps_wots_msg_len P) m) (\<lambda>msg.
   let csum = sum_list (map (\<lambda>x. 2 ^ LOG_W - 1 - x) msg) in
   if csum > U16_MAX then Panic
   else bind_r (base_2b LOG_W CK_LEN (be_bytes 2 (csum * 2 ^ 4 mod 2 ^ 16))) (\<lambda>csum_chunks.
   Ok (msg @ csum_chunks)))"

definition wots_sign :: "parameter_set \<Rightarrow> bytes \<Rightarrow> bytes \<Rightarrow> bytes \<Rightarrow> wots_hash \<Rightarrow> (wots_sig, slh_error) result" where
"wots_sign P m sk_seed pk_seed adrs =
   bind_r (wots_msg_csum P m) (\<lambda>msg_csum.
   if length msg_csum < ps_wots_sig_len P then Panic
   else Ok (map (\<lambda>i. wots_chain P (wots_secret P sk_seed pk_seed adrs i) 0 (msg_csum ! i) pk_seed
                       (adrs\<lparr> wh_chain_adrs := i \<rparr>)) [0..<ps_wots_sig_len P]))"

definition wots_pk_from_sig :: "parameter_set \<Rightarrow> wots_sig \<Rightarrow> bytes \<Rightarrow> bytes \<Rightarrow> wots_hash \<Rightarrow> (bytes, slh_error) result" where
"wots_pk_from_sig P sig m pk_seed adrs =
   bind_r (wots_msg_csum P m) (\<lambda>msg_csum.
   if length msg_csum < ps_wots_sig_len P \<or> length sig < ps_wots_sig_len P then Panic
   else let tmp = map (\<lambda>i. wots_chain P (sig ! i) (msg_csum ! i) (WOTS_W - 1 - msg_csum ! i) pk_seed
                             (adrs\<lparr> wh_chain_adrs := i \<rparr>)) [0..<ps_wots_sig_len P]
        in Ok (hs_t P pk_seed (WotsPk (wh_pk_adrs adrs)) tmp))"

section \<open>Lemmas on digits\<close>

lemma base_2b_fill_Ok:
  assumes "b \<le> bits + 8 * length xs"
  shows "\<exists>bits' tot' xs'. base_2b_fill b bits tot xs = Ok (bits', tot', xs')
    \<and> b \<le> bits' \<and> bits' + 8 * length xs' = bits + 8 * length xs"
  using assms
proof (induction xs arbitrary: bits tot)
  case (Cons x xs)
  have "b \<le> bits + 8 + 8 * length xs" using Cons.prems by simp
  from Cons.IH [OF this, of "tot * 256 mod 2 ^ 64 + unat x"] obtain bits' tot' xs'
    where "base_2b_fill b (bits + 8) (tot * 256 mod 2 ^ 64 + unat x) xs = Ok (bits', tot', xs')"
      "b \<le> bits'" "bits' + 8 * length xs' = bits + 8 + 8 * length xs" by blast
  then show ?case by auto
qed auto

lemma base_2b_loop_Ok:
  assumes "b * n \<le> bits + 8 * length xs" "b \<le> 16"
  shows "\<exists>ds. base_2b_loop b n bits tot xs = Ok ds \<and> length ds = n \<and> (\<forall>d \<in> set ds. d < 2 ^ b)"
  using assms(1)
proof (induction n arbitrary: bits tot xs)
  case (Suc n)
  obtain bits' tot' xs' where fill: "base_2b_fill b bits tot xs = Ok (bits', tot', xs')"
    "b \<le> bits'" "bits' + 8 * length xs' = bits + 8 * length xs"
    using base_2b_fill_Ok [of b bits xs tot] Suc.prems by auto
  have "b * n \<le> bits' - b + 8 * length xs'" using Suc.prems fill(2,3) by simp
  then obtain ds where ds: "base_2b_loop b n (bits' - b) (tot' AND (2 ^ (bits' - b) - 1)) xs' = Ok ds"
    "length ds = n" "\<forall>d \<in> set ds. d < 2 ^ b"
    using Suc.IH by blast
  have out: "drop_bit (bits' - b) tot' AND (2 ^ b - 1) < 2 ^ b" by (simp only: nat_and_mask) simp
  moreover have "(2 :: nat) ^ b \<le> 2 ^ 16" using assms(2) by (rule power_increasing) simp
  ultimately have "\<not> drop_bit (bits' - b) tot' AND (2 ^ b - 1) > U16_MAX" by (simp add: U16_MAX_def)
  then show ?case using fill ds out by (simp add: Let_def)
qed simp

lemma base_2b_Ok:
  assumes "b * n \<le> 8 * length xs" "b \<le> 16"
  obtains ds where "base_2b b n xs = Ok ds" "length ds = n" "\<forall>d \<in> set ds. d < 2 ^ b"
  using base_2b_loop_Ok [of b n 0 xs 0] assms by (auto simp: base_2b_def)

text \<open>Digits of four bits are the two halves of each byte.\<close>

definition nibbles :: "bytes \<Rightarrow> nat list" where
"nibbles bs = concat (map (\<lambda>b. [unat b div 16, unat b mod 16]) bs)"

lemma nibbles_simps [simp]: "nibbles [] = []" "nibbles (b # bs) = unat b div 16 # unat b mod 16 # nibbles bs"
  by (simp_all add: nibbles_def)

lemma byte_less: "unat (b :: byte) < 256"
  using unsigned_less [of b, where ?'a = nat] by simp

lemma byte_val: "x < 256 \<Longrightarrow> unat (word_of_nat x :: byte) = x"
  by (simp add: unat_of_nat)

lemma base_2b_loop_high:
  "base_2b_loop 4 (Suc n) 0 0 (b # bs) = bind_r (base_2b_loop 4 n 4 (unat b mod 16) bs) (\<lambda>ds. Ok (unat b div 16 # ds))"
proof -
  have "drop_bit 4 (unat b) AND 15 = unat b div 16"
    using nat_and_mask [of "drop_bit 4 (unat b)" 4] byte_less [of b] by (simp add: drop_bit_eq_div)
  moreover have "unat b AND 15 = unat b mod 16" using nat_and_mask [of "unat b" 4] by simp
  moreover have "\<not> unat b div 16 > U16_MAX" using byte_less [of b] by (simp add: U16_MAX_def)
  ultimately show ?thesis by (cases bs) (simp_all add: Let_def)
qed

lemma base_2b_loop_low:
  "x < 16 \<Longrightarrow> base_2b_loop 4 (Suc n) 4 x bs = bind_r (base_2b_loop 4 n 0 0 bs) (\<lambda>ds. Ok (x # ds))"
proof -
  assume x: "x < 16"
  have "x AND 15 = x" using nat_and_mask [of x 4] x by simp
  moreover have "\<not> x > U16_MAX" using x by (simp add: U16_MAX_def)
  ultimately show ?thesis by (cases bs) (simp_all add: Let_def)
qed

lemma base_2b_nibbles: "base_2b 4 (2 * length bs) bs = Ok (nibbles bs)"
  unfolding base_2b_def
proof (induction bs)
  case (Cons b bs)
  have "2 * length (b # bs) = Suc (Suc (2 * length bs))" by simp
  then show ?case
    using Cons base_2b_loop_low [of "unat b mod 16" "2 * length bs" bs]
    by (simp only: base_2b_loop_high) simp
qed simp

lemma base_2b_three: "base_2b 4 3 [b, c] = Ok [unat b div 16, unat b mod 16, unat c div 16]"
  using base_2b_loop_low [of "unat b mod 16" "Suc 0" "[c]"]
  by (simp only: base_2b_def numeral_3_eq_3 base_2b_loop_high) simp

lemma length_nibbles: "length (nibbles bs) = 2 * length bs"
  by (induction bs) auto

lemma nibbles_bound: "d \<in> set (nibbles bs) \<Longrightarrow> d < 16"
proof (induction bs)
  case (Cons b bs)
  then show ?case using byte_less [of b] by auto
qed simp

lemma nibbles_inj: "length xs = length ys \<Longrightarrow> nibbles xs = nibbles ys \<Longrightarrow> xs = ys"
proof (induction xs ys rule: list_induct2)
  case (Cons x xs y ys)
  then have "unat x div 16 = unat y div 16" "unat x mod 16 = unat y mod 16" by auto
  then have "unat x = unat y" by (metis div_mult_mod_eq)
  then have "x = y" by (rule unsigned_word_eqI)
  then show ?case using Cons by simp
qed simp

definition nibble_gap :: "nat list \<Rightarrow> nat" where
"nibble_gap ds = sum_list (map (\<lambda>x. 15 - x) ds)"

lemma nibble_gap_Cons: "nibble_gap (d # ds) = 15 - d + nibble_gap ds"
  by (simp add: nibble_gap_def)

lemma nibble_gap_le: "nibble_gap ds \<le> 15 * length ds"
  unfolding nibble_gap_def by (induction ds) auto

lemma be_bytes_two: "x < 2 ^ 16 \<Longrightarrow> be_bytes 2 x = [word_of_nat (x div 256), word_of_nat (x mod 256)]"
proof -
  assume "x < 2 ^ 16"
  then have "x div 256 mod 256 = x div 256" by simp
  then show ?thesis by (simp add: numeral_2_eq_2)
qed

text \<open>The digit string of a message: its halves and the three digits of the gap.\<close>

definition wots_digits :: "bytes \<Rightarrow> nat list" where
"wots_digits m = (let c = nibble_gap (nibbles m) in nibbles m @ [c div 256, c div 16 mod 16, c mod 16])"

context slh_params
begin

lemma wots_msg_csum_Ok:
  assumes "length m = hs_n P"
  shows "wots_msg_csum P m = Ok (wots_digits m)"
proof -
  define c where "c = nibble_gap (nibbles m)"
  have le: "c \<le> 1920"
    using nibble_gap_le [of "nibbles m"] n_le assms by (simp add: length_nibbles c_def)
  then have mod: "c * 16 mod 65536 = c * 16" by simp
  have cut: "c * 16 div 256 = c div 16" "c * 16 mod 256 = c mod 16 * 16"
    using div_mult_mult2 [of 16 c 16] mod_mult_mult2 [of c 16 16] by simp_all
  have bytes: "be_bytes 2 (c * 16) = [word_of_nat (c div 16), word_of_nat (c mod 16 * 16)]"
    using be_bytes_two [of "c * 16"] le by (simp add: cut del: be_bytes.simps)
  have "c div 16 < 256" "c mod 16 * 16 < 256" using le mod_less_divisor [of 16 c] by linarith+
  then have val: "unat (word_of_nat (c div 16) :: byte) = c div 16"
    "unat (word_of_nat (c mod 16 * 16) :: byte) = c mod 16 * 16"
    by (auto intro!: byte_val simp del: of_nat_mult)
  have "c div 16 div 16 = c div 256" by (simp add: div_mult2_eq [symmetric])
  then have chk: "base_2b 4 3 (be_bytes 2 (c * 16)) = Ok [c div 256, c div 16 mod 16, c mod 16]"
    unfolding bytes base_2b_three val by simp
  have "\<not> c > U16_MAX" using le by (simp add: U16_MAX_def)
  then show ?thesis
    using base_2b_nibbles [of m] assms chk mod
    by (simp add: wots_msg_csum_def LOG_W_def CK_LEN_def wots_msg_len Let_def nibble_gap_def [symmetric]
        c_def [symmetric] wots_digits_def)
qed

lemma length_wots_digits: "length m = hs_n P \<Longrightarrow> length (wots_digits m) = ps_wots_sig_len P"
  by (simp add: wots_digits_def Let_def length_nibbles wots_sig_len)

lemma wots_digits_bound:
  assumes "length m = hs_n P" "i < ps_wots_sig_len P"
  shows "wots_digits m ! i < 16"
proof -
  have "nibble_gap (nibbles m) \<le> 1920"
    using nibble_gap_le [of "nibbles m"] n_le assms(1) by (simp add: length_nibbles)
  then have "\<forall>d \<in> set (wots_digits m). d < 16" by (auto simp: wots_digits_def Let_def dest: nibbles_bound)
  then show ?thesis using assms by (simp add: length_wots_digits)
qed

end

section \<open>Chains\<close>

lemma wots_chain_hash_adrs [simp]:
  "wots_chain P x i s pk_seed (adrs\<lparr> wh_hash_adrs := h \<rparr>) = wots_chain P x i s pk_seed adrs"
  by (induction s arbitrary: x i adrs h) (simp_all add: Let_def)

lemma wots_chain_add:
  "wots_chain P x i (s + t) pk_seed adrs = wots_chain P (wots_chain P x i s pk_seed adrs) (i + s) t pk_seed adrs"
  by (induction s arbitrary: x i) (simp_all add: Let_def)

lemma wots_adrs_simps [simp]:
  "wh_prf_adrs (adrs\<lparr> wh_chain_adrs := i \<rparr>) = wh_prf_adrs adrs"
  "wh_pk_adrs (adrs\<lparr> wh_chain_adrs := i \<rparr>) = wh_pk_adrs adrs"
  "wh_tree_adrs (adrs\<lparr> wh_chain_adrs := i \<rparr>) = wh_tree_adrs adrs"
  "wh_tree_adrs (adrs\<lparr> wh_key_pair_adrs := i \<rparr>) = wh_tree_adrs adrs"
  by (simp_all add: wh_prf_adrs_def wh_pk_adrs_def wh_tree_adrs_def)

context slh_params
begin

lemma length_wots_chain: "length x = hs_n P \<Longrightarrow> length (wots_chain P x i s pk_seed adrs) = hs_n P"
  by (induction s arbitrary: x i adrs) (simp_all add: Let_def f_length)

lemma length_wots_pk_gen: "length (wots_pk_gen P sk_seed pk_seed adrs) = hs_n P"
  by (simp add: wots_pk_gen_def Let_def t_length)

text \<open>A signature is an array of chain values.\<close>

lemma wots_sign_Ok:
  assumes "length m = hs_n P"
  shows "wots_sign P m sk_seed pk_seed adrs = Ok (map (\<lambda>i. wots_chain P (wots_secret P sk_seed pk_seed adrs i) 0
    (wots_digits m ! i) pk_seed (adrs\<lparr> wh_chain_adrs := i \<rparr>)) [0..<ps_wots_sig_len P])"
  using assms by (simp add: wots_sign_def wots_msg_csum_Ok length_wots_digits)

lemma wots_sign_shape:
  assumes "length m = hs_n P" "wots_sign P m sk_seed pk_seed adrs = Ok sig"
  shows "length sig = ps_wots_sig_len P \<and> (\<forall>c \<in> set sig. length c = hs_n P)"
  using assms by (auto simp: wots_sign_Ok length_wots_chain wots_secret_def prf_sk_length)

lemma wots_pk_from_sig_sign:
  assumes m: "length m = hs_n P" and sig: "wots_sign P m sk_seed pk_seed adrs = Ok sig"
  shows "wots_pk_from_sig P sig m pk_seed adrs = Ok (wots_pk_gen P sk_seed pk_seed adrs)"
proof -
  have len: "length sig = ps_wots_sig_len P"
    and nth: "\<And>i. i < ps_wots_sig_len P \<Longrightarrow> sig ! i = wots_chain P (wots_secret P sk_seed pk_seed adrs i) 0
       (wots_digits m ! i) pk_seed (adrs\<lparr> wh_chain_adrs := i \<rparr>)"
    using sig by (auto simp: wots_sign_Ok [OF m])
  have "wots_chain P (sig ! i) (wots_digits m ! i) (15 - wots_digits m ! i) pk_seed (adrs\<lparr> wh_chain_adrs := i \<rparr>)
    = wots_chain P (wots_secret P sk_seed pk_seed adrs i) 0 15 pk_seed (adrs\<lparr> wh_chain_adrs := i \<rparr>)"
    if i: "i < ps_wots_sig_len P" for i
    using wots_chain_add [of P _ 0 "wots_digits m ! i" "15 - wots_digits m ! i"] wots_digits_bound [OF m i]
    by (simp add: nth [OF i])
  then show ?thesis
    using m by (auto simp: wots_pk_from_sig_def wots_pk_gen_def wots_msg_csum_Ok length_wots_digits len
        Let_def LOG_W_def WOTS_W_def intro!: arg_cong [of _ _ "hs_t P pk_seed _"])
qed

end

section \<open>The checksum\<close>

lemma nibble_gap_anti:
  assumes "length xs = length ys" "list_all2 (\<le>) xs ys" "\<forall>d \<in> set ys. d < 16" "xs \<noteq> ys"
  shows "nibble_gap ys < nibble_gap xs"
  using assms
proof (induction xs ys rule: list_induct2)
  case (Cons x xs y ys)
  have le: "nibble_gap ys \<le> nibble_gap xs"
    using Cons by (cases "xs = ys") auto
  show ?case
  proof (cases "x = y")
    case True
    then have "nibble_gap ys < nibble_gap xs" using Cons by auto
    then show ?thesis using True by (simp only: nibble_gap_Cons)
  next
    case False
    then have "15 - y < 15 - x" using Cons.prems by auto
    then show ?thesis using le by (simp only: nibble_gap_Cons add_less_le_mono)
  qed
qed simp

lemma gap_digits_mono:
  fixes c e :: nat
  assumes "c div 256 \<le> e div 256" "c div 16 mod 16 \<le> e div 16 mod 16" "c mod 16 \<le> e mod 16"
  shows "c \<le> e"
proof -
  have cut: "x = x div 256 * 256 + x div 16 mod 16 * 16 + x mod 16" for x :: nat
  proof -
    have "x div 16 div 16 = x div 256" by (simp add: div_mult2_eq [symmetric])
    then show ?thesis using div_mult_mod_eq [of x 16] div_mult_mod_eq [of "x div 16" 16] by linarith
  qed
  show ?thesis using assms cut [of c] cut [of e] by linarith
qed

lemma wots_digits_antichain:
  assumes len: "length m = length m'" and neq: "m \<noteq> m'"
  shows "\<exists>i < length (wots_digits m). wots_digits m' ! i < wots_digits m ! i"
proof (rule ccontr)
  assume "\<not> ?thesis"
  then have le: "wots_digits m ! i \<le> wots_digits m' ! i" if "i < length (wots_digits m)" for i
    using that by (meson not_le)
  have same: "length (wots_digits m') = length (wots_digits m)"
    using len by (simp add: wots_digits_def Let_def length_nibbles)
  have all: "list_all2 (\<le>) (wots_digits m) (wots_digits m')"
    using le same by (simp add: list_all2_conv_all_nth)
  have msg: "list_all2 (\<le>) (nibbles m) (nibbles m')"
    and gap: "nibble_gap (nibbles m) \<le> nibble_gap (nibbles m')"
    using all len
    by (auto simp: wots_digits_def Let_def length_nibbles list_all2_append intro: gap_digits_mono)
  have "nibble_gap (nibbles m') < nibble_gap (nibbles m)"
    using msg len neq nibbles_inj [OF len] by (intro nibble_gap_anti) (auto simp: length_nibbles dest: nibbles_bound)
  then show False using gap by simp
qed

end
