(* ===== verification/Slh_Tree.thy ===== *)
theory Slh_Tree
  imports Slh_Wots
begin

text \<open>
  The trees of SLH-DSA: XMSS (\<open>vendor/slh-dsa/src/xmss.rs\<close>), the hypertree (\<open>hypertree.rs\<close>) and the
  few-time signatures FORS (\<open>fors.rs\<close>).  The locale \<open>merkle_tree\<close> holds the one argument that the
  trees share: an authentication path leads from a leaf to the root.  It is interpreted for
  \<open>xmss_node\<close> and for \<open>fors_node\<close>.
\<close>

unbundle bit_operations_syntax

section \<open>XMSS\<close>

record xmss_sig =
  xs_sig :: wots_sig
  xs_auth :: "bytes list"

fun xmss_node :: "parameter_set \<Rightarrow> bytes \<Rightarrow> nat \<Rightarrow> nat \<Rightarrow> bytes \<Rightarrow> wots_hash \<Rightarrow> bytes" where
"xmss_node P sk_seed node 0 pk_seed adrs = wots_pk_gen P sk_seed pk_seed (adrs\<lparr> wh_key_pair_adrs := node \<rparr>)" |
"xmss_node P sk_seed node (Suc height) pk_seed adrs =
   (let lnode = xmss_node P sk_seed (2 * node) height pk_seed adrs;
        rnode = xmss_node P sk_seed (2 * node + 1) height pk_seed adrs
    in hs_h P pk_seed (HashTree ((wh_tree_adrs adrs)\<lparr> ht_tree_height := Suc height, ht_tree_index := node \<rparr>)) lnode rnode)"

definition xmss_sign :: "parameter_set \<Rightarrow> bytes \<Rightarrow> bytes \<Rightarrow> bytes \<Rightarrow> nat \<Rightarrow> wots_hash \<Rightarrow> (xmss_sig, slh_error) result" where
"xmss_sign P m sk_seed pk_seed idx adrs =
   (let adrs = adrs\<lparr> wh_key_pair_adrs := idx \<rparr> in
    bind_r (wots_sign P m sk_seed pk_seed adrs) (\<lambda>sig.
    Ok \<lparr> xs_sig = sig,
         xs_auth = map (\<lambda>j. xmss_node P sk_seed (drop_bit j idx XOR 1) j pk_seed adrs) [0..<ps_hprime P] \<rparr>))"

text \<open>The loop over the authentication path; \<open>j\<close> counts its iterations.\<close>

fun xmss_climb :: "parameter_set \<Rightarrow> bytes \<Rightarrow> hash_tree \<Rightarrow> nat \<Rightarrow> nat \<Rightarrow> bytes \<Rightarrow> bytes list \<Rightarrow> bytes" where
"xmss_climb P pk_seed adrs j idx node [] = node" |
"xmss_climb P pk_seed adrs j idx node (a # auth) =
   (let rem = idx AND 1; idx = drop_bit 1 idx;
        adrs = adrs\<lparr> ht_tree_height := j + 1, ht_tree_index := idx \<rparr>;
        node = (if rem = 0 then hs_h P pk_seed (HashTree adrs) node a else hs_h P pk_seed (HashTree adrs) a node)
    in xmss_climb P pk_seed adrs (j + 1) idx node auth)"

definition xmss_pk_from_sig :: "parameter_set \<Rightarrow> nat \<Rightarrow> xmss_sig \<Rightarrow> bytes \<Rightarrow> bytes \<Rightarrow> wots_hash \<Rightarrow> (bytes, slh_error) result" where
"xmss_pk_from_sig P idx sig m pk_seed adrs =
   (let adrs = adrs\<lparr> wh_key_pair_adrs := idx \<rparr> in
    bind_r (wots_pk_from_sig P (xs_sig sig) m pk_seed adrs) (\<lambda>node.
    if length (xs_auth sig) < ps_hprime P then Panic
    else Ok (xmss_climb P pk_seed (wh_tree_adrs adrs) 0 idx node (take (ps_hprime P) (xs_auth sig)))))"

section \<open>The hypertree\<close>

type_synonym hypertree_sig = "xmss_sig list"

text \<open>The index arithmetic at the head of both loops: the leaf and the tree one layer up.\<close>

definition ht_next :: "parameter_set \<Rightarrow> nat \<Rightarrow> (nat \<times> nat, slh_error) result" where
"ht_next P idx_tree =
   (let idx_leaf = idx_tree AND (2 ^ ps_hprime P - 1) in
    if idx_leaf > U32_MAX then Panic else Ok (idx_leaf, drop_bit (ps_hprime P) idx_tree))"

fun ht_sign_loop ::
    "parameter_set \<Rightarrow> bytes \<Rightarrow> bytes \<Rightarrow> nat \<Rightarrow> nat \<Rightarrow> bytes \<Rightarrow> nat \<Rightarrow> wots_hash \<Rightarrow> (hypertree_sig, slh_error) result" where
"ht_sign_loop P sk_seed pk_seed j 0 root idx_tree adrs = Ok []" |
"ht_sign_loop P sk_seed pk_seed j (Suc n) root idx_tree adrs =
   bind_r (ht_next P idx_tree) (\<lambda>(idx_leaf, idx_tree).
   let adrs = adrs\<lparr> wh_layer_adrs := j, wh_tree_adrs_low := idx_tree \<rparr> in
   bind_r (xmss_sign P root sk_seed pk_seed idx_leaf adrs) (\<lambda>sig.
   bind_r (if j \<noteq> ps_d P - 1 then xmss_pk_from_sig P idx_leaf sig root pk_seed adrs else Ok root) (\<lambda>root.
   bind_r (ht_sign_loop P sk_seed pk_seed (j + 1) n root idx_tree adrs) (\<lambda>sigs. Ok (sig # sigs)))))"

definition ht_sign :: "parameter_set \<Rightarrow> bytes \<Rightarrow> bytes \<Rightarrow> bytes \<Rightarrow> nat \<Rightarrow> nat \<Rightarrow> (hypertree_sig, slh_error) result" where
"ht_sign P m sk_seed pk_seed idx_tree idx_leaf =
   (let adrs = wots_hash_default\<lparr> wh_tree_adrs_low := idx_tree \<rparr> in
    bind_r (xmss_sign P m sk_seed pk_seed idx_leaf adrs) (\<lambda>sig.
    bind_r (xmss_pk_from_sig P idx_leaf sig m pk_seed adrs) (\<lambda>root.
    bind_r (ht_sign_loop P sk_seed pk_seed 1 (ps_d P - 1) root idx_tree adrs) (\<lambda>sigs. Ok (sig # sigs)))))"

fun ht_verify_loop ::
    "parameter_set \<Rightarrow> bytes \<Rightarrow> nat \<Rightarrow> hypertree_sig \<Rightarrow> bytes \<Rightarrow> nat \<Rightarrow> wots_hash \<Rightarrow> (bytes, slh_error) result" where
"ht_verify_loop P pk_seed j [] root idx_tree adrs = Ok root" |
"ht_verify_loop P pk_seed j (sig # sigs) root idx_tree adrs =
   bind_r (ht_next P idx_tree) (\<lambda>(idx_leaf, idx_tree).
   let adrs = adrs\<lparr> wh_layer_adrs := j, wh_tree_adrs_low := idx_tree \<rparr> in
   bind_r (xmss_pk_from_sig P idx_leaf sig root pk_seed adrs) (\<lambda>root.
   ht_verify_loop P pk_seed (j + 1) sigs root idx_tree adrs))"

definition ht_verify :: "parameter_set \<Rightarrow> bytes \<Rightarrow> hypertree_sig \<Rightarrow> bytes \<Rightarrow> nat \<Rightarrow> nat \<Rightarrow> bytes \<Rightarrow> (bool, slh_error) result" where
"ht_verify P m sig pk_seed idx_tree idx_leaf pk_root =
   (let adrs = wots_hash_default\<lparr> wh_tree_adrs_low := idx_tree \<rparr> in
    if length sig < ps_d P \<or> sig = [] then Panic
    else bind_r (xmss_pk_from_sig P idx_leaf (sig ! 0) m pk_seed adrs) (\<lambda>root.
    bind_r (ht_verify_loop P pk_seed 1 (take (ps_d P - 1) (tl sig)) root idx_tree adrs) (\<lambda>root.
    Ok (root = pk_root))))"

section \<open>FORS\<close>

record fors_mt_sig =
  fm_sk :: bytes
  fm_auth :: "bytes list"

type_synonym fors_signature = "fors_mt_sig list"

definition fors_sk_gen :: "parameter_set \<Rightarrow> bytes \<Rightarrow> bytes \<Rightarrow> fors_tree \<Rightarrow> nat \<Rightarrow> bytes" where
"fors_sk_gen P sk_seed pk_seed adrs idx =
   hs_prf_sk P pk_seed sk_seed (ForsPrf ((ft_prf_adrs adrs)\<lparr> fp_tree_index := idx \<rparr>))"

fun fors_node :: "parameter_set \<Rightarrow> bytes \<Rightarrow> nat \<Rightarrow> nat \<Rightarrow> bytes \<Rightarrow> fors_tree \<Rightarrow> bytes" where
"fors_node P sk_seed i 0 pk_seed adrs =
   hs_f P pk_seed (ForsTree (adrs\<lparr> ft_tree_height := 0, ft_tree_index := i \<rparr>)) (fors_sk_gen P sk_seed pk_seed adrs i)" |
"fors_node P sk_seed i (Suc z) pk_seed adrs =
   (let lnode = fors_node P sk_seed (2 * i) z pk_seed adrs;
        rnode = fors_node P sk_seed (2 * i + 1) z pk_seed adrs
    in hs_h P pk_seed (ForsTree (adrs\<lparr> ft_tree_height := Suc z, ft_tree_index := i \<rparr>)) lnode rnode)"

definition fors_sign :: "parameter_set \<Rightarrow> bytes \<Rightarrow> bytes \<Rightarrow> bytes \<Rightarrow> fors_tree \<Rightarrow> (fors_signature, slh_error) result" where
"fors_sign P md sk_seed pk_seed adrs =
   bind_r (base_2b (ps_a P) (ps_k P) md) (\<lambda>indices.
   Ok (map (\<lambda>i. \<lparr> fm_sk = fors_sk_gen P sk_seed pk_seed adrs (i * 2 ^ ps_a P + indices ! i),
                  fm_auth = map (\<lambda>j. let s = drop_bit j (indices ! i) XOR 1
                                      in fors_node P sk_seed (i * 2 ^ (ps_a P - j) + s) j pk_seed adrs)
                                [0..<ps_a P] \<rparr>) [0..<ps_k P]))"

fun fors_climb :: "parameter_set \<Rightarrow> bytes \<Rightarrow> fors_tree \<Rightarrow> nat \<Rightarrow> nat \<Rightarrow> bytes \<Rightarrow> bytes list \<Rightarrow> bytes" where
"fors_climb P pk_seed adrs index j node [] = node" |
"fors_climb P pk_seed adrs index j node (a # auth) =
   (let adrs = adrs\<lparr> ft_tree_height := j + 1, ft_tree_index := drop_bit 1 (ft_tree_index adrs) \<rparr>;
        node = (if drop_bit j index AND 1 = 0 then hs_h P pk_seed (ForsTree adrs) node a
                else hs_h P pk_seed (ForsTree adrs) a node)
    in fors_climb P pk_seed adrs index (j + 1) node auth)"

definition fors_pk_from_sig :: "parameter_set \<Rightarrow> fors_signature \<Rightarrow> bytes \<Rightarrow> bytes \<Rightarrow> fors_tree \<Rightarrow> (bytes, slh_error) result" where
"fors_pk_from_sig P sig md pk_seed adrs =
   bind_r (base_2b (ps_a P) (ps_k P) md) (\<lambda>indices.
   if length sig < ps_k P \<or> (\<exists>s \<in> set (take (ps_k P) sig). length (fm_auth s) < ps_a P) then Panic
   else let roots = map (\<lambda>i.
              let adrs = adrs\<lparr> ft_tree_height := 0, ft_tree_index := i * 2 ^ ps_a P + indices ! i \<rparr>;
                  node = hs_f P pk_seed (ForsTree adrs) (fm_sk (sig ! i))
              in fors_climb P pk_seed adrs (indices ! i) 0 node (take (ps_a P) (fm_auth (sig ! i)))) [0..<ps_k P]
        in Ok (hs_t P pk_seed (ForsRoots (ft_fors_roots adrs)) roots))"

section \<open>Authentication paths\<close>

text \<open>Climbing a path with a hash that depends on the height and the index of the parent.\<close>

fun merkle_climb :: "(nat \<Rightarrow> nat \<Rightarrow> bytes \<Rightarrow> bytes \<Rightarrow> bytes) \<Rightarrow> nat \<Rightarrow> nat \<Rightarrow> bytes \<Rightarrow> bytes list \<Rightarrow> bytes" where
"merkle_climb h j idx node [] = node" |
"merkle_climb h j idx node (a # auth) =
   merkle_climb h (Suc j) (idx div 2)
     (if even idx then h (Suc j) (idx div 2) node a else h (Suc j) (idx div 2) a node) auth"

lemma sibling_even: "even (n :: nat) \<Longrightarrow> n XOR 1 = n + 1"
  by (simp add: xor_Suc_0_eq)

lemma sibling_odd: "odd (n :: nat) \<Longrightarrow> n XOR 1 = n - 1"
  by (simp add: xor_Suc_0_eq)

lemma drop_bit_half: "drop_bit k (n div 2) = drop_bit (Suc k) (n :: nat)"
  by (simp add: drop_bit_eq_div div_mult2_eq)

lemma half_drop_bit: "drop_bit k n div 2 = drop_bit (Suc k) (n :: nat)"
  by (simp add: drop_bit_eq_div div_mult2_eq [symmetric] mult.commute)

locale merkle_tree =
  fixes node :: "nat \<Rightarrow> nat \<Rightarrow> bytes"
    and h :: "nat \<Rightarrow> nat \<Rightarrow> bytes \<Rightarrow> bytes \<Rightarrow> bytes"
  assumes node_Suc: "node (Suc k) i = h (Suc k) i (node k (2 * i)) (node k (2 * i + 1))"
begin

lemma parent:
  "node (Suc k) (i div 2) =
   (if even i then h (Suc k) (i div 2) (node k i) (node k (i XOR 1))
    else h (Suc k) (i div 2) (node k (i XOR 1)) (node k i))"
proof (cases "even i")
  case True
  then show ?thesis using node_Suc [of k "i div 2"] sibling_even [of i] by simp
next
  case False
  then show ?thesis using node_Suc [of k "i div 2"] sibling_odd [of i] by simp
qed

lemma climb:
  "merkle_climb h j idx (node j idx) (map (\<lambda>k. node (j + k) (drop_bit k idx XOR 1)) [0..<n]) = node (j + n) (drop_bit n idx)"
proof (induction n arbitrary: j idx)
  case (Suc n)
  have path: "map (\<lambda>k. node (j + k) (drop_bit k idx XOR 1)) [0..<Suc n]
    = node j (idx XOR 1) # map (\<lambda>k. node (Suc j + k) (drop_bit k (idx div 2) XOR 1)) [0..<n]"
    by (simp add: upt_conv_Cons map_Suc_upt [symmetric] drop_bit_half del: upt_Suc)
  show ?case
    unfolding path merkle_climb.simps parent [symmetric]
    using Suc.IH [of "Suc j" "idx div 2"] by (simp add: drop_bit_half)
qed simp

end

lemma xmss_climb_merkle:
  "xmss_climb P pk_seed adrs j idx node auth =
   merkle_climb (\<lambda>k i. hs_h P pk_seed (HashTree (adrs\<lparr> ht_tree_height := k, ht_tree_index := i \<rparr>))) j idx node auth"
proof (induction auth arbitrary: adrs j idx node)
  case (Cons a auth)
  show ?case
    by (simp add: Let_def Cons.IH drop_bit_eq_div and_one_eq even_iff_mod_2_eq_zero)
qed simp

interpretation xm: merkle_tree "\<lambda>k i. xmss_node P sk_seed i k pk_seed adrs"
    "\<lambda>k i. hs_h P pk_seed (HashTree ((wh_tree_adrs adrs)\<lparr> ht_tree_height := k, ht_tree_index := i \<rparr>))"
  for P :: parameter_set and sk_seed pk_seed :: bytes and adrs :: wots_hash
  by unfold_locales (simp add: Let_def)

interpretation fo: merkle_tree "\<lambda>k i. fors_node P sk_seed i k pk_seed adrs"
    "\<lambda>k i. hs_h P pk_seed (ForsTree (adrs\<lparr> ft_tree_height := k, ft_tree_index := i \<rparr>))"
  for P :: parameter_set and sk_seed pk_seed :: bytes and adrs :: fors_tree
  by unfold_locales (simp add: Let_def)

lemma xmss_node_key_pair [simp]:
  "xmss_node P sk_seed i k pk_seed (adrs\<lparr> wh_key_pair_adrs := x \<rparr>) = xmss_node P sk_seed i k pk_seed adrs"
  by (induction k arbitrary: i) (simp_all add: Let_def)


lemma fors_node_position [simp]:
  "fors_node P sk_seed i k pk_seed (adrs\<lparr> ft_tree_height := x, ft_tree_index := y \<rparr>) = fors_node P sk_seed i k pk_seed adrs"
  by (induction k arbitrary: i) (simp_all add: Let_def fors_sk_gen_def ft_prf_adrs_def)

text \<open>FORS chooses sides by the digit, not by the tree index: the tree number never reaches the low bits.\<close>

lemma fors_climb_merkle:
  assumes "j + length auth \<le> a" "ft_tree_index adrs = i * 2 ^ (a - j) + drop_bit j index"
  shows "fors_climb P pk_seed adrs index j node auth =
   merkle_climb (\<lambda>k i. hs_h P pk_seed (ForsTree (adrs\<lparr> ft_tree_height := k, ft_tree_index := i \<rparr>))) j
     (ft_tree_index adrs) node auth"
  using assms
proof (induction auth arbitrary: adrs j node)
  case (Cons x auth)
  obtain c where c: "a - j = Suc c" "c = a - Suc j" using Cons.prems(1) by (cases "a - j") auto
  have half: "ft_tree_index adrs div 2 = i * 2 ^ (a - Suc j) + drop_bit (Suc j) index"
  proof -
    have "ft_tree_index adrs = drop_bit j index + 2 * (i * 2 ^ (a - Suc j))" using Cons.prems(2) c by simp
    then show ?thesis by (simp add: half_drop_bit)
  qed
  have "even (ft_tree_index adrs) = even (drop_bit j index)" using Cons.prems(2) c by simp
  then show ?case
    using Cons.prems(1) half
      Cons.IH [of "Suc j" "adrs\<lparr> ft_tree_height := Suc j, ft_tree_index := ft_tree_index adrs div 2 \<rparr>"]
    by (simp add: Let_def drop_bit_eq_div and_one_eq even_iff_mod_2_eq_zero)
qed simp


section \<open>XMSS and FORS give back their roots\<close>

text \<open>The arrays of a signature have the lengths of the parameter set.\<close>

definition wots_sig_ok :: "parameter_set \<Rightarrow> wots_sig \<Rightarrow> bool" where
"wots_sig_ok P s = (length s = ps_wots_sig_len P \<and> (\<forall>c \<in> set s. length c = hs_n P))"

definition xmss_sig_ok :: "parameter_set \<Rightarrow> xmss_sig \<Rightarrow> bool" where
"xmss_sig_ok P s = (wots_sig_ok P (xs_sig s) \<and> length (xs_auth s) = ps_hprime P \<and> (\<forall>c \<in> set (xs_auth s). length c = hs_n P))"

definition ht_sig_ok :: "parameter_set \<Rightarrow> hypertree_sig \<Rightarrow> bool" where
"ht_sig_ok P s = (length s = ps_d P \<and> (\<forall>x \<in> set s. xmss_sig_ok P x))"

definition fors_mt_sig_ok :: "parameter_set \<Rightarrow> fors_mt_sig \<Rightarrow> bool" where
"fors_mt_sig_ok P s = (length (fm_sk s) = hs_n P \<and> length (fm_auth s) = ps_a P \<and> (\<forall>c \<in> set (fm_auth s). length c = hs_n P))"

definition fors_sig_ok :: "parameter_set \<Rightarrow> fors_signature \<Rightarrow> bool" where
"fors_sig_ok P s = (length s = ps_k P \<and> (\<forall>x \<in> set s. fors_mt_sig_ok P x))"

lemma drop_bit_forest:
  assumes "k \<le> a"
  shows "drop_bit k (i * 2 ^ a + x) = i * 2 ^ (a - k) + drop_bit k (x :: nat)"
proof -
  have eq: "i * 2 ^ a + x = x + 2 ^ k * (i * 2 ^ (a - k))" using assms by (simp add: power_add [symmetric])
  show ?thesis unfolding eq by (simp add: drop_bit_eq_div)
qed

lemma sibling_forest:
  assumes "k < a"
  shows "i * 2 ^ (a - k) + (x XOR 1) = (i * 2 ^ (a - k) + x) XOR (1 :: nat)"
proof -
  have "even (i * 2 ^ (a - k))" using assms by simp
  then have "even (i * 2 ^ (a - k) + x) = even x" by simp
  then show ?thesis
    using sibling_even [of x] sibling_odd [of x] sibling_even [of "i * 2 ^ (a - k) + x"]
      sibling_odd [of "i * 2 ^ (a - k) + x"] odd_pos [of x]
    by (cases "even x") (simp_all only: if_True, linarith+)
qed

lemma fors_tree_root:
  assumes x: "x < 2 ^ ps_a P"
  shows "fors_climb P pk_seed (adrs\<lparr> ft_tree_height := 0, ft_tree_index := i * 2 ^ ps_a P + x \<rparr>) x 0
      (fors_node P sk_seed (i * 2 ^ ps_a P + x) 0 pk_seed adrs)
      (map (\<lambda>j. fors_node P sk_seed (i * 2 ^ (ps_a P - j) + (drop_bit j x XOR 1)) j pk_seed adrs) [0..<ps_a P])
    = fors_node P sk_seed i (ps_a P) pk_seed adrs"
proof -
  let ?t = "i * 2 ^ ps_a P + x"
  have path: "map (\<lambda>j. fors_node P sk_seed (i * 2 ^ (ps_a P - j) + (drop_bit j x XOR 1)) j pk_seed adrs) [0..<ps_a P]
    = map (\<lambda>k. fors_node P sk_seed (drop_bit k ?t XOR 1) (0 + k) pk_seed adrs) [0..<ps_a P]"
    by (rule map_cong [OF refl]) (simp only: drop_bit_forest sibling_forest set_upt atLeastLessThan_iff less_imp_le add_0)
  have "drop_bit (ps_a P) ?t = i" using x drop_bit_forest [of "ps_a P" "ps_a P" i x] by (simp add: drop_bit_eq_div)
  then show ?thesis
    using fo.climb [where j = 0 and n = "ps_a P" and idx = ?t and adrs = adrs]
    unfolding path by (subst fors_climb_merkle [where a = "ps_a P" and i = i]) simp_all
qed

text \<open>The address of tree \<open>t\<close> in layer \<open>j\<close>.\<close>

definition ht_adrs :: "nat \<Rightarrow> nat \<Rightarrow> wots_hash" where
"ht_adrs j t = wots_hash_default\<lparr> wh_layer_adrs := j, wh_tree_adrs_low := t \<rparr>"

lemma ht_adrs_update [simp]: "(ht_adrs i u)\<lparr> wh_layer_adrs := j, wh_tree_adrs_low := v \<rparr> = ht_adrs j v"
  by (simp add: ht_adrs_def)

context slh_params
begin

lemma length_xmss_node: "length (xmss_node P sk_seed i k pk_seed adrs) = hs_n P"
  by (cases k) (simp_all add: Let_def length_wots_pk_gen h_length)

lemma length_fors_node: "length (fors_node P sk_seed i k pk_seed adrs) = hs_n P"
  by (cases k) (simp_all add: Let_def f_length h_length)

lemma xmss_sign_Ok:
  assumes m: "length m = hs_n P" and idx: "idx < 2 ^ ps_hprime P"
  obtains s where "xmss_sign P m sk_seed pk_seed idx adrs = Ok s" "xmss_sig_ok P s"
    "xmss_pk_from_sig P idx s m pk_seed adrs = Ok (xmss_node P sk_seed 0 (ps_hprime P) pk_seed adrs)"
proof -
  let ?adrs = "adrs\<lparr> wh_key_pair_adrs := idx \<rparr>"
  let ?auth = "map (\<lambda>j. xmss_node P sk_seed (drop_bit j idx XOR 1) j pk_seed adrs) [0..<ps_hprime P]"
  obtain w where w: "wots_sign P m sk_seed pk_seed ?adrs = Ok w" using wots_sign_Ok [OF m] by blast
  define s where "s = \<lparr> xs_sig = w, xs_auth = ?auth \<rparr>"
  have sign: "xmss_sign P m sk_seed pk_seed idx adrs = Ok s" by (simp add: xmss_sign_def w s_def Let_def)
  have ok: "xmss_sig_ok P s"
    using wots_sign_shape [OF m w] by (auto simp: xmss_sig_ok_def wots_sig_ok_def s_def length_xmss_node)
  have leaf: "wots_pk_from_sig P w m pk_seed ?adrs = Ok (xmss_node P sk_seed idx 0 pk_seed adrs)"
    using wots_pk_from_sig_sign [OF m w] by simp
  have "xmss_climb P pk_seed (wh_tree_adrs adrs) 0 idx (xmss_node P sk_seed idx 0 pk_seed adrs) ?auth
    = xmss_node P sk_seed (drop_bit (ps_hprime P) idx) (ps_hprime P) pk_seed adrs"
    using xm.climb [where j = 0 and n = "ps_hprime P" and idx = idx and adrs = adrs] by (simp only: xmss_climb_merkle add_0)
  also have "drop_bit (ps_hprime P) idx = 0" using idx by (simp add: drop_bit_eq_div)
  finally have "xmss_pk_from_sig P idx s m pk_seed adrs = Ok (xmss_node P sk_seed 0 (ps_hprime P) pk_seed adrs)"
    using leaf by (simp add: xmss_pk_from_sig_def s_def Let_def)
  then show ?thesis using that sign ok by blast
qed

lemma fors_sign_Ok:
  assumes md: "length md = ps_md P"
  obtains s where "fors_sign P md sk_seed pk_seed adrs = Ok s" "fors_sig_ok P s"
    "fors_pk_from_sig P s md pk_seed adrs = Ok (hs_t P pk_seed (ForsRoots (ft_fors_roots adrs))
       (map (\<lambda>i. fors_node P sk_seed i (ps_a P) pk_seed adrs) [0..<ps_k P]))"
proof -
  obtain ds where ds: "base_2b (ps_a P) (ps_k P) md = Ok ds" "length ds = ps_k P" "\<forall>d \<in> set ds. d < 2 ^ ps_a P"
    using base_2b_Ok [of "ps_a P" "ps_k P" md] md md_bits a_le by (auto simp: mult.commute)
  define s where "s = map (\<lambda>i. \<lparr> fm_sk = fors_sk_gen P sk_seed pk_seed adrs (i * 2 ^ ps_a P + ds ! i),
     fm_auth = map (\<lambda>j. fors_node P sk_seed (i * 2 ^ (ps_a P - j) + (drop_bit j (ds ! i) XOR 1)) j pk_seed adrs)
                   [0..<ps_a P] \<rparr>) [0..<ps_k P]"
  have sign: "fors_sign P md sk_seed pk_seed adrs = Ok s" by (simp add: fors_sign_def ds s_def Let_def)
  have ok: "fors_sig_ok P s"
    by (auto simp: fors_sig_ok_def fors_mt_sig_ok_def s_def fors_sk_gen_def prf_sk_length length_fors_node)
  have root: "fors_climb P pk_seed (adrs\<lparr> ft_tree_height := 0, ft_tree_index := i * 2 ^ ps_a P + ds ! i \<rparr>) (ds ! i) 0
      (hs_f P pk_seed (ForsTree (adrs\<lparr> ft_tree_height := 0, ft_tree_index := i * 2 ^ ps_a P + ds ! i \<rparr>)) (fm_sk (s ! i)))
      (fm_auth (s ! i)) = fors_node P sk_seed i (ps_a P) pk_seed adrs" if "i < ps_k P" for i
    using that ds fors_tree_root [where x = "ds ! i" and i = i and adrs = adrs] by (simp add: s_def)
  have "length s = ps_k P" "\<forall>x \<in> set s. length (fm_auth x) = ps_a P" using ok by (auto simp: fors_sig_ok_def fors_mt_sig_ok_def)
  then have "fors_pk_from_sig P s md pk_seed adrs = Ok (hs_t P pk_seed (ForsRoots (ft_fors_roots adrs))
       (map (\<lambda>i. fors_node P sk_seed i (ps_a P) pk_seed adrs) [0..<ps_k P]))"
    using root by (auto simp: fors_pk_from_sig_def ds Let_def intro!: arg_cong [of _ _ "hs_t P pk_seed _"])
  then show ?thesis using that sign ok by blast
qed

lemma ht_next_Ok: "ht_next P t = Ok (t mod 2 ^ ps_hprime P, drop_bit (ps_hprime P) t)"
proof -
  have "t mod 2 ^ ps_hprime P < 2 ^ ps_hprime P" by simp
  also have "(2 :: nat) ^ ps_hprime P \<le> 2 ^ 31" using hprime_less by (intro power_increasing) simp_all
  finally have "\<not> t mod 2 ^ ps_hprime P > U32_MAX" by (simp add: U32_MAX_def)
  then show ?thesis by (simp only: ht_next_def nat_and_mask Let_def if_False)
qed

lemma ht_loop_Ok:
  assumes "length root = hs_n P" "j + n = ps_d P" "1 \<le> j"
  shows "\<exists>sigs. ht_sign_loop P sk_seed pk_seed j n root t (ht_adrs i u) = Ok sigs \<and> length sigs = n
    \<and> (\<forall>s \<in> set sigs. xmss_sig_ok P s)
    \<and> ht_verify_loop P pk_seed j sigs root t (ht_adrs i u)
      = Ok (if n = 0 then root
            else xmss_node P sk_seed 0 (ps_hprime P) pk_seed (ht_adrs (ps_d P - 1) (drop_bit (ps_hprime P * n) t)))"
  using assms
proof (induction n arbitrary: j root t i u)
  case (Suc n)
  note IH = Suc.IH and prems = Suc.prems
  define v where "v = drop_bit (ps_hprime P) t"
  define leaf where "leaf = t mod 2 ^ ps_hprime P"
  define top where "top = xmss_node P sk_seed 0 (ps_hprime P) pk_seed (ht_adrs j v)"
  have step: "ht_next P t = Ok (leaf, v)" by (simp add: ht_next_Ok leaf_def v_def)
  obtain s where s: "xmss_sign P root sk_seed pk_seed leaf (ht_adrs j v) = Ok s" "xmss_sig_ok P s"
    "xmss_pk_from_sig P leaf s root pk_seed (ht_adrs j v) = Ok top"
    using xmss_sign_Ok [OF Suc.prems(1), of leaf sk_seed pk_seed "ht_adrs j v"] unfolding leaf_def top_def by auto
  show ?case
  proof (cases n)
    case 0
    then have last: "j = ps_d P - 1" using prems(2) by simp
    then show ?thesis
      using s 0 by (simp add: step Let_def top_def v_def [symmetric])
  next
    case (Suc n')
    then have inner: "j \<noteq> ps_d P - 1" and depth: "j + 1 + n = ps_d P" using prems(2) by simp_all
    have len: "length top = hs_n P" by (simp add: top_def length_xmss_node)
    have shift: "drop_bit (ps_hprime P * n) v = drop_bit (ps_hprime P * Suc n) t"
      by (simp add: v_def drop_bit_drop_bit add.commute)
    obtain sigs where "ht_sign_loop P sk_seed pk_seed (j + 1) n top v (ht_adrs j v) = Ok sigs" "length sigs = n"
      "\<forall>s \<in> set sigs. xmss_sig_ok P s"
      "ht_verify_loop P pk_seed (j + 1) sigs top v (ht_adrs j v)
       = Ok (xmss_node P sk_seed 0 (ps_hprime P) pk_seed (ht_adrs (ps_d P - 1) (drop_bit (ps_hprime P * Suc n) t)))"
      using IH [OF len depth, of v j v] Suc unfolding shift by auto
    then show ?thesis using s inner by (simp add: step Let_def del: mult_Suc_right)
  qed
qed simp

text \<open>The root key generation publishes: the tree of the top layer.\<close>

lemma ht_sign_Ok:
  assumes m: "length m = hs_n P" and leaf: "idx_leaf < 2 ^ ps_hprime P"
    and tree: "idx_tree < 2 ^ (ps_h P - ps_hprime P)"
  obtains sig where "ht_sign P m sk_seed pk_seed idx_tree idx_leaf = Ok sig" "ht_sig_ok P sig"
    "ht_verify P m sig pk_seed idx_tree idx_leaf
       (xmss_node P sk_seed 0 (ps_hprime P) pk_seed (ht_adrs (ps_d P - 1) 0)) = Ok True"
proof -
  have base: "wots_hash_default\<lparr> wh_tree_adrs_low := idx_tree \<rparr> = ht_adrs 0 idx_tree"
    by (simp add: ht_adrs_def wots_hash_default_def)
  let ?root = "xmss_node P sk_seed 0 (ps_hprime P) pk_seed (ht_adrs 0 idx_tree)"
  obtain s where s: "xmss_sign P m sk_seed pk_seed idx_leaf (ht_adrs 0 idx_tree) = Ok s" "xmss_sig_ok P s"
    "xmss_pk_from_sig P idx_leaf s m pk_seed (ht_adrs 0 idx_tree) = Ok ?root"
    using xmss_sign_Ok [OF m leaf] .
  have "1 + (ps_d P - 1) = ps_d P" using d_pos by simp
  from ht_loop_Ok [where root = ?root and t = idx_tree and i = 0 and u = idx_tree, OF length_xmss_node this order.refl]
  obtain sigs where loop: "ht_sign_loop P sk_seed pk_seed 1 (ps_d P - 1) ?root idx_tree (ht_adrs 0 idx_tree) = Ok sigs"
    "length sigs = ps_d P - 1" "\<forall>s \<in> set sigs. xmss_sig_ok P s"
    and ver: "ht_verify_loop P pk_seed 1 sigs ?root idx_tree (ht_adrs 0 idx_tree)
      = Ok (if ps_d P - 1 = 0 then ?root
            else xmss_node P sk_seed 0 (ps_hprime P) pk_seed
              (ht_adrs (ps_d P - 1) (drop_bit (ps_hprime P * (ps_d P - 1)) idx_tree)))"
    by blast
  have bits: "ps_h P - ps_hprime P = ps_hprime P * (ps_d P - 1)" by (simp add: h_eq diff_mult_distrib2)
  have zero: "drop_bit (ps_hprime P * (ps_d P - 1)) idx_tree = 0"
    using tree by (simp add: bits drop_bit_eq_div)
  have one: "idx_tree = 0" if "ps_d P - 1 = 0" using tree bits that by simp
  have top: "ht_verify_loop P pk_seed 1 sigs ?root idx_tree (ht_adrs 0 idx_tree)
      = Ok (xmss_node P sk_seed 0 (ps_hprime P) pk_seed (ht_adrs (ps_d P - 1) 0))"
    using ver zero one by auto
  have "ht_sig_ok P (s # sigs)" using s(2) loop(2,3) d_pos by (simp add: ht_sig_ok_def)
  moreover have "ht_sign P m sk_seed pk_seed idx_tree idx_leaf = Ok (s # sigs)"
    using s loop by (simp add: ht_sign_def base Let_def)
  moreover have "ht_verify P m (s # sigs) pk_seed idx_tree idx_leaf
       (xmss_node P sk_seed 0 (ps_hprime P) pk_seed (ht_adrs (ps_d P - 1) 0)) = Ok True"
    using s(3) top loop(2) d_pos by (simp add: ht_verify_def base Let_def)
  ultimately show ?thesis using that by blast
qed

end

end
