(* ===== verification/Slh_Encoding.thy ===== *)
theory Slh_Encoding
  imports Slh_Tree
begin

text \<open>
  The byte encodings of SLH-DSA signatures: the \<open>write_to\<close> and \<open>try_from\<close> of \<open>wots.rs\<close>, \<open>xmss.rs\<close>,
  \<open>hypertree.rs\<close>, \<open>fors.rs\<close> and \<open>signature_encoding.rs\<close>.  The locale \<open>fixed_codec\<close> is the contract of
  an encoding of fixed size; each level is an interpretation of it, and the arrays of a level inherit
  it from their elements.  A byte string decodes exactly when it has the right length, and no two byte
  strings decode to the same signature.
\<close>

section \<open>Sizes\<close>

definition WOTS_SIG_SIZE :: "parameter_set \<Rightarrow> nat" where
"WOTS_SIG_SIZE P = hs_n P * ps_wots_sig_len P"

definition XMSS_SIG_SIZE :: "parameter_set \<Rightarrow> nat" where
"XMSS_SIG_SIZE P = WOTS_SIG_SIZE P + ps_hprime P * hs_n P"

definition HT_SIG_SIZE :: "parameter_set \<Rightarrow> nat" where
"HT_SIG_SIZE P = XMSS_SIG_SIZE P * ps_d P"

definition FORS_MT_SIZE :: "parameter_set \<Rightarrow> nat" where
"FORS_MT_SIZE P = hs_n P + ps_a P * hs_n P"

definition FORS_SIG_SIZE :: "parameter_set \<Rightarrow> nat" where
"FORS_SIG_SIZE P = ps_k P * (ps_a P + 1) * hs_n P"

section \<open>Encoding and decoding\<close>

text \<open>The \<open>k\<close> consecutive slices of \<open>n\<close> bytes, and the iterator \<open>chunks\<close>.\<close>

definition slices :: "nat \<Rightarrow> nat \<Rightarrow> bytes \<Rightarrow> bytes list" where
"slices n k bs = map (\<lambda>i. take n (drop (i * n) bs)) [0..<k]"

definition chunks :: "nat \<Rightarrow> bytes \<Rightarrow> bytes list" where
"chunks n bs = slices n ((length bs + n - 1) div n) bs"

text \<open>Collecting the unwrapped results of a decoder.\<close>

fun unwrap_all :: "('a \<Rightarrow> ('b, 'e) result) \<Rightarrow> 'a list \<Rightarrow> ('b list, 'e) result" where
"unwrap_all f [] = Ok []" |
"unwrap_all f (x # xs) = (case f x of Ok y \<Rightarrow> bind_r (unwrap_all f xs) (\<lambda>ys. Ok (y # ys)) | _ \<Rightarrow> Panic)"

definition wots_sig_to_vec :: "wots_sig \<Rightarrow> bytes" where
"wots_sig_to_vec s = concat s"

definition wots_sig_try_from :: "parameter_set \<Rightarrow> bytes \<Rightarrow> (wots_sig, unit) result" where
"wots_sig_try_from P bs =
   (if length bs \<noteq> WOTS_SIG_SIZE P then Err () else Ok (slices (hs_n P) (ps_wots_sig_len P) bs))"

definition xmss_sig_to_vec :: "xmss_sig \<Rightarrow> bytes" where
"xmss_sig_to_vec s = wots_sig_to_vec (xs_sig s) @ concat (xs_auth s)"

definition xmss_sig_try_from :: "parameter_set \<Rightarrow> bytes \<Rightarrow> (xmss_sig, unit) result" where
"xmss_sig_try_from P bs =
   (if length bs \<noteq> XMSS_SIG_SIZE P then Err ()
    else bind_r (wots_sig_try_from P (take (WOTS_SIG_SIZE P) bs)) (\<lambda>sig.
    Ok \<lparr> xs_sig = sig, xs_auth = slices (hs_n P) (ps_hprime P) (drop (WOTS_SIG_SIZE P) bs) \<rparr>))"

definition ht_sig_to_vec :: "hypertree_sig \<Rightarrow> bytes" where
"ht_sig_to_vec s = concat (map xmss_sig_to_vec s)"

definition ht_sig_try_from :: "parameter_set \<Rightarrow> bytes \<Rightarrow> (hypertree_sig, unit) result" where
"ht_sig_try_from P bs =
   (if length bs \<noteq> HT_SIG_SIZE P then Err ()
    else unwrap_all (xmss_sig_try_from P) (chunks (XMSS_SIG_SIZE P) bs))"

definition fors_mt_sig_to_vec :: "fors_mt_sig \<Rightarrow> bytes" where
"fors_mt_sig_to_vec s = fm_sk s @ concat (fm_auth s)"

definition fors_mt_sig_try_from :: "parameter_set \<Rightarrow> bytes \<Rightarrow> (fors_mt_sig, unit) result" where
"fors_mt_sig_try_from P bs =
   (if length bs \<noteq> FORS_MT_SIZE P then Err ()
    else Ok \<lparr> fm_sk = take (hs_n P) bs, fm_auth = slices (hs_n P) (ps_a P) (drop (hs_n P) bs) \<rparr>)"

definition fors_sig_to_vec :: "fors_signature \<Rightarrow> bytes" where
"fors_sig_to_vec s = concat (map fors_mt_sig_to_vec s)"

definition fors_sig_try_from :: "parameter_set \<Rightarrow> bytes \<Rightarrow> (fors_signature, unit) result" where
"fors_sig_try_from P bs =
   (if length bs \<noteq> FORS_SIG_SIZE P then Err ()
    else unwrap_all (fors_mt_sig_try_from P) (chunks (FORS_MT_SIZE P) bs))"

record slh_signature =
  sg_randomizer :: bytes
  sg_fors_sig :: fors_signature
  sg_ht_sig :: hypertree_sig

definition signature_to_vec :: "slh_signature \<Rightarrow> bytes" where
"signature_to_vec s = sg_randomizer s @ fors_sig_to_vec (sg_fors_sig s) @ ht_sig_to_vec (sg_ht_sig s)"

definition signature_try_from :: "parameter_set \<Rightarrow> bytes \<Rightarrow> (slh_signature, slh_error) result" where
"signature_try_from P bs =
   (if length bs \<noteq> ps_sig_len P then Err SlhError
    else let rest = drop (hs_n P) bs in
    bind_r (map_err (\<lambda>_. SlhError) (fors_sig_try_from P (take (FORS_SIG_SIZE P) rest))) (\<lambda>fors_sig.
    bind_r (map_err (\<lambda>_. SlhError) (ht_sig_try_from P (drop (FORS_SIG_SIZE P) rest))) (\<lambda>ht_sig.
    Ok \<lparr> sg_randomizer = take (hs_n P) bs, sg_fors_sig = fors_sig, sg_ht_sig = ht_sig \<rparr>)))"

definition signature_ok :: "parameter_set \<Rightarrow> slh_signature \<Rightarrow> bool" where
"signature_ok P s = (length (sg_randomizer s) = hs_n P \<and> fors_sig_ok P (sg_fors_sig s) \<and> ht_sig_ok P (sg_ht_sig s))"

section \<open>Slices\<close>

lemma length_slices [simp]: "length (slices n k bs) = k"
  by (simp add: slices_def)

lemma slices_Suc: "slices n (Suc k) bs = take n bs # slices n k (drop n bs)"
  by (simp add: slices_def upt_conv_Cons map_Suc_upt [symmetric] add.commute del: upt_Suc)

lemma concat_slices: "concat (slices n k bs) = take (k * n) bs"
proof (induction k arbitrary: bs)
  case (Suc k)
  then show ?case by (simp add: slices_Suc take_add)
qed (simp add: slices_def)

lemma slices_concat: "\<forall>x \<in> set xs. length x = n \<Longrightarrow> slices n (length xs) (concat xs) = xs"
proof (induction xs)
  case (Cons x xs)
  then show ?case by (simp add: slices_Suc)
qed (simp add: slices_def)

lemma slices_length: "k * n \<le> length bs \<Longrightarrow> \<forall>x \<in> set (slices n k bs). length x = n"
proof (induction k arbitrary: bs)
  case (Suc k)
  have "k * n \<le> length (drop n bs)" using Suc.prems by simp
  from Suc.IH [OF this] show ?case using Suc.prems by (simp add: slices_Suc)
qed (simp add: slices_def)

lemma chunks_exact: "0 < n \<Longrightarrow> length bs = k * n \<Longrightarrow> chunks n bs = slices n k bs"
proof -
  assume n: "0 < n" and len: "length bs = k * n"
  have "(k * n + n - 1) div n = k" using n by (intro div_nat_eqI) (simp_all add: mult.commute)
  then show ?thesis by (simp add: chunks_def len)
qed

lemma length_concat_const: "\<forall>x \<in> set xs. length x = n \<Longrightarrow> length (concat xs) = length xs * n"
  by (induction xs) auto

section \<open>Encodings of fixed size\<close>

locale fixed_codec =
  fixes enc :: "'a \<Rightarrow> bytes"
    and dec :: "bytes \<Rightarrow> ('a, 'e) result"
    and ok :: "'a \<Rightarrow> bool"
    and size :: nat
    and err :: 'e
  assumes dec_enc: "ok x \<Longrightarrow> dec (enc x) = Ok x"
    and enc_length: "ok x \<Longrightarrow> length (enc x) = size"
    and dec_exact: "length bs = size \<Longrightarrow> \<exists>x. dec bs = Ok x \<and> ok x \<and> enc x = bs"
    and dec_other: "length bs \<noteq> size \<Longrightarrow> dec bs = Err err"
begin

lemma dec_iff: "dec bs = Ok x \<longleftrightarrow> ok x \<and> enc x = bs"
proof
  assume d: "dec bs = Ok x"
  then have "length bs = size" using dec_other [of bs] by (cases "length bs = size") auto
  then show "ok x \<and> enc x = bs" using dec_exact [of bs] d by auto
qed (auto simp: dec_enc)

lemma unwrap_all_enc: "\<forall>x \<in> set xs. ok x \<Longrightarrow> unwrap_all dec (map enc xs) = Ok xs"
  by (induction xs) (simp_all add: dec_enc)

lemma unwrap_all_dec:
  "\<forall>b \<in> set bs. length b = size \<Longrightarrow> \<exists>xs. unwrap_all dec bs = Ok xs \<and> (\<forall>x \<in> set xs. ok x) \<and> map enc xs = bs"
proof (induction bs)
  case (Cons b bs)
  have "length b = size" "\<forall>b \<in> set bs. length b = size" using Cons.prems by auto
  then obtain x xs where "dec b = Ok x" "ok x" "enc x = b"
    "unwrap_all dec bs = Ok xs" "\<forall>x \<in> set xs. ok x" "map enc xs = bs"
    using dec_exact [of b] Cons.IH by blast
  then show ?case by (intro exI [of _ "x # xs"]) simp
qed simp

text \<open>An array of \<open>k\<close> elements is encoded by concatenation and decoded chunk by chunk.\<close>

lemma array_dec_enc:
  assumes "0 < size" "length xs = k" "\<forall>x \<in> set xs. ok x"
  shows "length (concat (map enc xs)) = size * k \<and> unwrap_all dec (chunks size (concat (map enc xs))) = Ok xs"
proof -
  have all: "\<forall>b \<in> set (map enc xs). length b = size" using assms(3) enc_length by auto
  have len: "length (concat (map enc xs)) = k * size" using length_concat_const [OF all] assms(2) by simp
  have "chunks size (concat (map enc xs)) = map enc xs"
    using chunks_exact [OF assms(1) len] slices_concat [OF all] assms(2) by simp
  then show ?thesis using unwrap_all_enc [OF assms(3)] len by (simp add: mult.commute)
qed

lemma array_dec_exact:
  assumes "0 < size" "length bs = size * k"
  shows "\<exists>xs. unwrap_all dec (chunks size bs) = Ok xs \<and> length xs = k \<and> (\<forall>x \<in> set xs. ok x) \<and> concat (map enc xs) = bs"
proof -
  have len: "length bs = k * size" using assms(2) by (simp add: mult.commute)
  have "\<forall>b \<in> set (slices size k bs). length b = size" using len by (intro slices_length) simp
  then obtain xs where "unwrap_all dec (slices size k bs) = Ok xs" "\<forall>x \<in> set xs. ok x" "map enc xs = slices size k bs"
    using unwrap_all_dec by blast
  moreover from this(3) have "length xs = k" by (metis length_map length_slices)
  ultimately show ?thesis
    using chunks_exact [OF assms(1) len] concat_slices [of size k bs] len by (intro exI [of _ xs]) simp
qed

end

interpretation wots_codec: fixed_codec wots_sig_to_vec "wots_sig_try_from P" "wots_sig_ok P" "WOTS_SIG_SIZE P" "()"
  for P :: parameter_set
proof
  show "wots_sig_try_from P (wots_sig_to_vec x) = Ok x" "length (wots_sig_to_vec x) = WOTS_SIG_SIZE P"
    if "wots_sig_ok P x" for x
    using that slices_concat [of x "hs_n P"] length_concat_const [of x "hs_n P"]
    by (simp_all add: wots_sig_try_from_def wots_sig_to_vec_def wots_sig_ok_def WOTS_SIG_SIZE_def mult.commute)
  show "\<exists>x. wots_sig_try_from P bs = Ok x \<and> wots_sig_ok P x \<and> wots_sig_to_vec x = bs"
    if "length bs = WOTS_SIG_SIZE P" for bs
    using that slices_length [of "ps_wots_sig_len P" "hs_n P" bs]
    by (simp add: wots_sig_try_from_def wots_sig_to_vec_def wots_sig_ok_def WOTS_SIG_SIZE_def concat_slices mult.commute)
qed (simp add: wots_sig_try_from_def)

interpretation xmss_codec: fixed_codec xmss_sig_to_vec "xmss_sig_try_from P" "xmss_sig_ok P" "XMSS_SIG_SIZE P" "()"
  for P :: parameter_set
proof
  show "length (xmss_sig_to_vec x) = XMSS_SIG_SIZE P" if "xmss_sig_ok P x" for x
    using that length_concat_const [of "xs_auth x" "hs_n P"]
    by (simp add: xmss_sig_ok_def xmss_sig_to_vec_def XMSS_SIG_SIZE_def wots_codec.enc_length)
  show "xmss_sig_try_from P (xmss_sig_to_vec x) = Ok x" if ok: "xmss_sig_ok P x" for x
  proof -
    have "length (wots_sig_to_vec (xs_sig x)) = WOTS_SIG_SIZE P" "wots_sig_try_from P (wots_sig_to_vec (xs_sig x)) = Ok (xs_sig x)"
      using ok by (auto simp: xmss_sig_ok_def wots_codec.enc_length wots_codec.dec_enc)
    then show ?thesis
      using ok slices_concat [of "xs_auth x" "hs_n P"] length_concat_const [of "xs_auth x" "hs_n P"]
      by (simp add: xmss_sig_ok_def xmss_sig_to_vec_def xmss_sig_try_from_def XMSS_SIG_SIZE_def)
  qed
  show "\<exists>x. xmss_sig_try_from P bs = Ok x \<and> xmss_sig_ok P x \<and> xmss_sig_to_vec x = bs"
    if len: "length bs = XMSS_SIG_SIZE P" for bs
  proof -
    have "length (take (WOTS_SIG_SIZE P) bs) = WOTS_SIG_SIZE P" using len by (simp add: XMSS_SIG_SIZE_def)
    from wots_codec.dec_exact [OF this] obtain w where w: "wots_sig_try_from P (take (WOTS_SIG_SIZE P) bs) = Ok w"
      "wots_sig_ok P w" "wots_sig_to_vec w = take (WOTS_SIG_SIZE P) bs" by blast
    have rest: "ps_hprime P * hs_n P = length (drop (WOTS_SIG_SIZE P) bs)" using len by (simp add: XMSS_SIG_SIZE_def)
    then have "\<forall>c \<in> set (slices (hs_n P) (ps_hprime P) (drop (WOTS_SIG_SIZE P) bs)). length c = hs_n P"
      by (intro slices_length) simp
    moreover have "concat (slices (hs_n P) (ps_hprime P) (drop (WOTS_SIG_SIZE P) bs)) = drop (WOTS_SIG_SIZE P) bs"
      unfolding concat_slices rest by simp
    ultimately show ?thesis
      using len w by (simp add: xmss_sig_try_from_def xmss_sig_ok_def xmss_sig_to_vec_def)
  qed
qed (simp add: xmss_sig_try_from_def)

interpretation fors_mt_codec: fixed_codec fors_mt_sig_to_vec "fors_mt_sig_try_from P" "fors_mt_sig_ok P" "FORS_MT_SIZE P" "()"
  for P :: parameter_set
proof
  show "length (fors_mt_sig_to_vec x) = FORS_MT_SIZE P" if "fors_mt_sig_ok P x" for x
    using that length_concat_const [of "fm_auth x" "hs_n P"]
    by (simp add: fors_mt_sig_ok_def fors_mt_sig_to_vec_def FORS_MT_SIZE_def)
  show "fors_mt_sig_try_from P (fors_mt_sig_to_vec x) = Ok x" if "fors_mt_sig_ok P x" for x
    using that slices_concat [of "fm_auth x" "hs_n P"] length_concat_const [of "fm_auth x" "hs_n P"]
    by (simp add: fors_mt_sig_ok_def fors_mt_sig_to_vec_def fors_mt_sig_try_from_def FORS_MT_SIZE_def)
  show "\<exists>x. fors_mt_sig_try_from P bs = Ok x \<and> fors_mt_sig_ok P x \<and> fors_mt_sig_to_vec x = bs"
    if len: "length bs = FORS_MT_SIZE P" for bs
  proof -
    have rest: "ps_a P * hs_n P = length (drop (hs_n P) bs)" using len by (simp add: FORS_MT_SIZE_def)
    then have "\<forall>c \<in> set (slices (hs_n P) (ps_a P) (drop (hs_n P) bs)). length c = hs_n P"
      by (intro slices_length) simp
    moreover have "concat (slices (hs_n P) (ps_a P) (drop (hs_n P) bs)) = drop (hs_n P) bs"
      unfolding concat_slices rest by simp
    moreover have "hs_n P \<le> length bs" using len by (simp add: FORS_MT_SIZE_def)
    ultimately show ?thesis
      using len by (simp add: fors_mt_sig_try_from_def fors_mt_sig_ok_def fors_mt_sig_to_vec_def)
  qed
qed (simp add: fors_mt_sig_try_from_def)

section \<open>Signatures\<close>

context slh_params
begin

lemma mt_size_pos: "0 < FORS_MT_SIZE P"
  using n_pos by (simp add: FORS_MT_SIZE_def)

lemma xmss_size_pos: "0 < XMSS_SIG_SIZE P"
  using n_pos hprime_pos by (simp add: XMSS_SIG_SIZE_def)

lemma fors_size: "FORS_SIG_SIZE P = FORS_MT_SIZE P * ps_k P"
  by (simp add: FORS_SIG_SIZE_def FORS_MT_SIZE_def algebra_simps)

lemma fors_codec: "fixed_codec fors_sig_to_vec (fors_sig_try_from P) (fors_sig_ok P) (FORS_SIG_SIZE P) ()"
proof
  show "fors_sig_try_from P (fors_sig_to_vec x) = Ok x" "length (fors_sig_to_vec x) = FORS_SIG_SIZE P"
    if "fors_sig_ok P x" for x
    using fors_mt_codec.array_dec_enc [OF mt_size_pos, of x "ps_k P"] that
    by (auto simp: fors_sig_try_from_def fors_sig_to_vec_def fors_sig_ok_def fors_size)
  show "\<exists>x. fors_sig_try_from P bs = Ok x \<and> fors_sig_ok P x \<and> fors_sig_to_vec x = bs"
    if "length bs = FORS_SIG_SIZE P" for bs
    using fors_mt_codec.array_dec_exact [OF mt_size_pos, of bs "ps_k P"] that
    by (auto simp: fors_sig_try_from_def fors_sig_to_vec_def fors_sig_ok_def fors_size)
qed (simp add: fors_sig_try_from_def)

lemma ht_codec: "fixed_codec ht_sig_to_vec (ht_sig_try_from P) (ht_sig_ok P) (HT_SIG_SIZE P) ()"
proof
  show "ht_sig_try_from P (ht_sig_to_vec x) = Ok x" "length (ht_sig_to_vec x) = HT_SIG_SIZE P"
    if "ht_sig_ok P x" for x
    using xmss_codec.array_dec_enc [OF xmss_size_pos, of x "ps_d P"] that
    by (auto simp: ht_sig_try_from_def ht_sig_to_vec_def ht_sig_ok_def HT_SIG_SIZE_def)
  show "\<exists>x. ht_sig_try_from P bs = Ok x \<and> ht_sig_ok P x \<and> ht_sig_to_vec x = bs"
    if "length bs = HT_SIG_SIZE P" for bs
    using xmss_codec.array_dec_exact [OF xmss_size_pos, of bs "ps_d P"] that
    by (auto simp: ht_sig_try_from_def ht_sig_to_vec_def ht_sig_ok_def HT_SIG_SIZE_def)
qed (simp add: ht_sig_try_from_def)

lemma sig_size: "ps_sig_len P = hs_n P + FORS_SIG_SIZE P + HT_SIG_SIZE P"
  by (simp add: sig_len FORS_SIG_SIZE_def HT_SIG_SIZE_def XMSS_SIG_SIZE_def WOTS_SIG_SIZE_def algebra_simps)

lemma signature_codec: "fixed_codec signature_to_vec (signature_try_from P) (signature_ok P) (ps_sig_len P) SlhError"
proof
  show len: "length (signature_to_vec x) = ps_sig_len P" if "signature_ok P x" for x
    using that fixed_codec.enc_length [OF fors_codec] fixed_codec.enc_length [OF ht_codec]
    by (simp add: signature_to_vec_def signature_ok_def sig_size)
  show "signature_try_from P (signature_to_vec x) = Ok x" if ok: "signature_ok P x" for x
  proof -
    have "length (fors_sig_to_vec (sg_fors_sig x)) = FORS_SIG_SIZE P"
      "fors_sig_try_from P (fors_sig_to_vec (sg_fors_sig x)) = Ok (sg_fors_sig x)"
      "ht_sig_try_from P (ht_sig_to_vec (sg_ht_sig x)) = Ok (sg_ht_sig x)" "length (sg_randomizer x) = hs_n P"
      using ok fixed_codec.enc_length [OF fors_codec] fixed_codec.dec_enc [OF fors_codec] fixed_codec.dec_enc [OF ht_codec]
      by (auto simp: signature_ok_def)
    then show ?thesis using len [OF ok] by (simp add: signature_try_from_def signature_to_vec_def)
  qed
  show "\<exists>x. signature_try_from P bs = Ok x \<and> signature_ok P x \<and> signature_to_vec x = bs"
    if len: "length bs = ps_sig_len P" for bs
  proof -
    let ?rest = "drop (hs_n P) bs"
    have "length (take (FORS_SIG_SIZE P) ?rest) = FORS_SIG_SIZE P" using len by (simp add: sig_size)
    from fixed_codec.dec_exact [OF fors_codec this] obtain f where f: "fors_sig_try_from P (take (FORS_SIG_SIZE P) ?rest) = Ok f"
      "fors_sig_ok P f" "fors_sig_to_vec f = take (FORS_SIG_SIZE P) ?rest" by blast
    have "length (drop (FORS_SIG_SIZE P) ?rest) = HT_SIG_SIZE P" using len by (simp add: sig_size)
    from fixed_codec.dec_exact [OF ht_codec this] obtain t where t: "ht_sig_try_from P (drop (FORS_SIG_SIZE P) ?rest) = Ok t"
      "ht_sig_ok P t" "ht_sig_to_vec t = drop (FORS_SIG_SIZE P) ?rest" by blast
    have "fors_sig_to_vec f @ ht_sig_to_vec t = ?rest" unfolding f(3) t(3) by (rule append_take_drop_id)
    moreover have "hs_n P \<le> length bs" using len by (simp add: sig_size)
    ultimately show ?thesis
      using len f(1,2) t(1,2) by (simp add: signature_try_from_def signature_ok_def signature_to_vec_def Let_def del: drop_drop)
  qed
qed (simp add: signature_try_from_def)

end

text \<open>The encoding of signatures of every parameter set.\<close>

interpretation slh_codec: fixed_codec signature_to_vec "signature_try_from (slh_set_params H s)"
    "signature_ok (slh_set_params H s)" "ps_sig_len (slh_set_params H s)" SlhError
  for H :: digests and s :: slh_set
  by (rule slh_set.signature_codec)

end
