(* ===== verification/Round.thy ===== *)
theory Round
  imports Crypto_Hash "HOL-Library.List_Lexorder"
begin

text \<open>
  The consensus round of \<open>pqc-consensus\<close>: \<open>quorum.rs\<close>, \<open>round.rs\<close> and the proposer
  selection of \<open>epoch.rs\<close>.  A \<open>VoteStore\<close> keeps the first vote per validator, height,
  round and step and reports conflicting ones; a \<open>ConsensusRound\<close> is the per-height
  state machine, each handler a function from the state to the new state and the
  actions the caller performs.
\<close>

section \<open>Quorum\<close>

definition quorum_size :: "nat \<Rightarrow> nat" where
"quorum_size n = (2 * n) div 3 + 1"

section \<open>Votes\<close>

datatype vote_step = Step_Prevote | Step_Precommit

fun step_u8 :: "vote_step \<Rightarrow> byte" where
"step_u8 Step_Prevote = 1" |
"step_u8 Step_Precommit = 2"

definition NIL_HASH :: hash32 where
"NIL_HASH = replicate 32 0"

definition VOTE_DOMAIN_TAG :: bytes where
"VOTE_DOMAIN_TAG = bstr ''VIPER-VOTE-V1''"

definition PROPOSAL_DOMAIN_TAG :: bytes where
"PROPOSAL_DOMAIN_TAG = bstr ''VIPER-PROPOSAL-V1''"

definition vote_body :: "bytes \<Rightarrow> nat \<Rightarrow> nat \<Rightarrow> vote_step \<Rightarrow> hash32 \<Rightarrow> bytes" where
"vote_body fork_digest height round step block_hash =
   fork_digest @ be_bytes 8 height @ be_bytes 4 round @ [step_u8 step] @ block_hash"

definition vote_preimage :: "xof \<Rightarrow> bytes \<Rightarrow> nat \<Rightarrow> nat \<Rightarrow> vote_step \<Rightarrow> hash32 \<Rightarrow> hash32" where
"vote_preimage X fork_digest height round step block_hash =
   tagged_hash X VOTE_DOMAIN_TAG (vote_body fork_digest height round step block_hash)"

text \<open>\<open>i32::to_be_bytes\<close> is the two's complement of the signed value.\<close>

definition proposal_preimage :: "xof \<Rightarrow> bytes \<Rightarrow> nat \<Rightarrow> nat \<Rightarrow> int \<Rightarrow> hash32 \<Rightarrow> hash32" where
"proposal_preimage X fork_digest height round pol_round block_hash =
   tagged_hash X PROPOSAL_DOMAIN_TAG
     (fork_digest @ be_bytes 8 height @ be_bytes 4 round
      @ be_bytes 4 (nat (pol_round mod 2 ^ 32)) @ block_hash)"

section \<open>Proposer selection\<close>

definition select_epoch_proposer :: "xof \<Rightarrow> address list \<Rightarrow> nat \<Rightarrow> hash32 \<Rightarrow> nat option" where
"select_epoch_proposer X validators height randao_accumulator =
   (if validators = [] then None
    else let hash = shake256_32 X (randao_accumulator @ be_bytes 8 height);
             idx_raw = from_be_bytes (take 8 hash)
         in Some (idx_raw mod length validators))"

definition advance_randao :: "xof \<Rightarrow> hash32 \<Rightarrow> hash32 \<Rightarrow> hash32" where
"advance_randao X prev block_hash = tagged_hash X (bstr ''VIPER-RANDAO-V1'') (prev @ block_hash)"

definition select_proposer ::
    "xof \<Rightarrow> address list \<Rightarrow> nat \<Rightarrow> nat \<Rightarrow> hash32 option \<Rightarrow> address option" where
"select_proposer X validators height round randao_accumulator =
   (if validators = [] then None
    else case randao_accumulator of
      Some randao \<Rightarrow>
        (case select_epoch_proposer X validators height randao of
           None \<Rightarrow> None
         | Some idx \<Rightarrow> Some (validators ! idx))
    | None \<Rightarrow>
        let sorted = sort validators
        in Some (sorted ! ((height + round) mod length sorted)))"

section \<open>The vote store\<close>

record consensus_vote =
  cv_height :: nat
  cv_round :: nat
  cv_step :: vote_step
  cv_block_hash :: hash32
  cv_validator_address :: address
  cv_signature :: bytes

record vote_key =
  vk_validator :: address
  vk_height :: nat
  vk_round :: nat
  vk_step :: vote_step

record equivocation_evidence =
  ee_validator_address :: address
  ee_height :: nat
  ee_round :: nat
  ee_step :: vote_step
  ee_vote_a :: consensus_vote
  ee_vote_b :: consensus_vote

record vote_store =
  votes :: "(vote_key, consensus_vote) hmap"
  equivocations :: "equivocation_evidence list"

definition vs_new :: vote_store where
"vs_new = \<lparr> votes = [], equivocations = [] \<rparr>"

definition key_of :: "consensus_vote \<Rightarrow> vote_key" where
"key_of v = \<lparr> vk_validator = cv_validator_address v, vk_height = cv_height v,
              vk_round = cv_round v, vk_step = cv_step v \<rparr>"

definition vs_record ::
    "vote_store \<Rightarrow> consensus_vote \<Rightarrow> vote_store \<times> equivocation_evidence option" where
"vs_record s vote =
   (case hget (votes s) (key_of vote) of
      Some existing \<Rightarrow>
        if cv_block_hash existing \<noteq> cv_block_hash vote
           \<and> (cv_block_hash existing \<noteq> NIL_HASH \<or> cv_block_hash vote \<noteq> NIL_HASH)
        then let evidence = \<lparr> ee_validator_address = cv_validator_address vote,
                              ee_height = cv_height vote, ee_round = cv_round vote,
                              ee_step = cv_step vote, ee_vote_a = existing, ee_vote_b = vote \<rparr>
             in (s\<lparr> equivocations := equivocations s @ [evidence] \<rparr>, Some evidence)
        else (s, None)
    | None \<Rightarrow> (s\<lparr> votes := hput (key_of vote) vote (votes s) \<rparr>, None))"

definition prevotes :: "vote_store \<Rightarrow> nat \<Rightarrow> nat \<Rightarrow> consensus_vote list" where
"prevotes s height round =
   filter (\<lambda>v. cv_height v = height \<and> cv_round v = round \<and> cv_step v = Step_Prevote)
     (hvals (votes s))"

definition precommits :: "vote_store \<Rightarrow> nat \<Rightarrow> nat \<Rightarrow> consensus_vote list" where
"precommits s height round =
   filter (\<lambda>v. cv_height v = height \<and> cv_round v = round \<and> cv_step v = Step_Precommit)
     (hvals (votes s))"

definition prevote_count_for :: "vote_store \<Rightarrow> nat \<Rightarrow> nat \<Rightarrow> hash32 \<Rightarrow> nat" where
"prevote_count_for s height round block_hash =
   length (filter (\<lambda>v. cv_block_hash v = block_hash) (prevotes s height round))"

definition precommit_count_for :: "vote_store \<Rightarrow> nat \<Rightarrow> nat \<Rightarrow> hash32 \<Rightarrow> nat" where
"precommit_count_for s height round block_hash =
   length (filter (\<lambda>v. cv_block_hash v = block_hash) (precommits s height round))"

definition has_polka :: "vote_store \<Rightarrow> nat \<Rightarrow> nat \<Rightarrow> hash32 \<Rightarrow> nat \<Rightarrow> bool" where
"has_polka s height round block_hash quorum =
   (if block_hash = NIL_HASH then False
    else prevote_count_for s height round block_hash \<ge> quorum)"

definition has_commit_quorum :: "vote_store \<Rightarrow> nat \<Rightarrow> nat \<Rightarrow> hash32 \<Rightarrow> nat \<Rightarrow> bool" where
"has_commit_quorum s height round block_hash quorum =
   (if block_hash = NIL_HASH then False
    else precommit_count_for s height round block_hash \<ge> quorum)"

definition equivocation_count :: "vote_store \<Rightarrow> nat" where
"equivocation_count s = length (equivocations s)"

section \<open>The round state machine\<close>

datatype round_phase = Phase_Propose | Phase_Prevote | Phase_Precommit | Phase_Decided

datatype round_action =
    BroadcastPrevote hash32
  | BroadcastPrecommit hash32
  | Commit hash32 nat
  | NextRound

record consensus_round =
  cr_height :: nat
  cr_round :: nat
  cr_phase :: round_phase
  cr_validator_count :: nat
  cr_locked_block :: "hash32 option"
  cr_locked_round :: "nat option"
  cr_vote_store :: vote_store

definition cr_new :: "nat \<Rightarrow> nat \<Rightarrow> consensus_round" where
"cr_new height validator_count =
   \<lparr> cr_height = height, cr_round = 0, cr_phase = Phase_Propose,
     cr_validator_count = validator_count, cr_locked_block = None, cr_locked_round = None,
     cr_vote_store = vs_new \<rparr>"

definition cr_quorum :: "consensus_round \<Rightarrow> nat" where
"cr_quorum c = quorum_size (cr_validator_count c)"

definition on_proposal_received ::
    "consensus_round \<Rightarrow> hash32 \<Rightarrow> consensus_round \<times> round_action list" where
"on_proposal_received c block_hash =
   (if cr_phase c \<noteq> Phase_Propose then (c, [])
    else let vote_hash = (case cr_locked_block c of
                            Some locked \<Rightarrow> if locked \<noteq> block_hash then NIL_HASH else block_hash
                          | None \<Rightarrow> block_hash)
         in (c\<lparr> cr_phase := Phase_Prevote \<rparr>, [BroadcastPrevote vote_hash]))"

definition on_propose_timeout :: "consensus_round \<Rightarrow> consensus_round \<times> round_action list" where
"on_propose_timeout c =
   (if cr_phase c \<noteq> Phase_Propose then (c, [])
    else (c\<lparr> cr_phase := Phase_Prevote \<rparr>, [BroadcastPrevote NIL_HASH]))"

definition on_prevote ::
    "consensus_round \<Rightarrow> consensus_vote \<Rightarrow> consensus_round \<times> round_action list" where
"on_prevote c vote =
   (let c = c\<lparr> cr_vote_store := fst (vs_record (cr_vote_store c) vote) \<rparr> in
    if cr_phase c = Phase_Decided then (c, [])
    else if cv_height vote \<noteq> cr_height c \<or> cv_round vote \<noteq> cr_round c then (c, [])
    else if cv_block_hash vote = NIL_HASH then (c, [])
    else if cr_phase c = Phase_Prevote
         \<and> has_polka (cr_vote_store c) (cr_height c) (cr_round c) (cv_block_hash vote) (cr_quorum c)
    then (c\<lparr> cr_phase := Phase_Precommit,
             cr_locked_block := Some (cv_block_hash vote),
             cr_locked_round := Some (cr_round c) \<rparr>,
          [BroadcastPrecommit (cv_block_hash vote)])
    else (c, []))"

definition on_prevote_timeout :: "consensus_round \<Rightarrow> consensus_round \<times> round_action list" where
"on_prevote_timeout c =
   (if cr_phase c \<noteq> Phase_Prevote then (c, [])
    else (c\<lparr> cr_phase := Phase_Precommit \<rparr>, [BroadcastPrecommit NIL_HASH]))"

definition on_precommit ::
    "consensus_round \<Rightarrow> consensus_vote \<Rightarrow> consensus_round \<times> round_action list" where
"on_precommit c vote =
   (let c = c\<lparr> cr_vote_store := fst (vs_record (cr_vote_store c) vote) \<rparr> in
    if cr_phase c = Phase_Decided then (c, [])
    else if cv_height vote \<noteq> cr_height c \<or> cv_round vote \<noteq> cr_round c then (c, [])
    else if cv_block_hash vote = NIL_HASH then (c, [])
    else let quorum = cr_quorum c in
      if has_commit_quorum (cr_vote_store c) (cr_height c) (cr_round c) (cv_block_hash vote) quorum
      then (c\<lparr> cr_phase := Phase_Decided \<rparr>, [Commit (cv_block_hash vote) (cr_round c)])
      else (c, []))"

text \<open>\<open>round += 1\<close> on a \<open>u32\<close>: \<open>None\<close> is the overflow panic.\<close>

definition on_precommit_timeout ::
    "consensus_round \<Rightarrow> (consensus_round \<times> round_action list) option" where
"on_precommit_timeout c =
   (if cr_phase c = Phase_Decided then Some (c, [])
    else case checked_add U32_MAX (cr_round c) 1 of
      None \<Rightarrow> None
    | Some r \<Rightarrow> Some (c\<lparr> cr_round := r, cr_phase := Phase_Propose \<rparr>, [NextRound]))"

definition is_decided :: "consensus_round \<Rightarrow> bool" where
"is_decided c = (cr_phase c = Phase_Decided)"

definition committed_in_round :: "consensus_round \<Rightarrow> nat \<Rightarrow> hash32 option" where
"committed_in_round c round =
   map_option cv_block_hash
     (find (\<lambda>vote. cv_block_hash vote \<noteq> NIL_HASH
               \<and> has_commit_quorum (cr_vote_store c) (cr_height c) round (cv_block_hash vote)
                   (cr_quorum c))
        (precommits (cr_vote_store c) (cr_height c) round))"

fun first_committed :: "consensus_round \<Rightarrow> nat list \<Rightarrow> hash32 option" where
"first_committed c [] = None" |
"first_committed c (r # rs) =
   (case committed_in_round c r of Some b \<Rightarrow> Some b | None \<Rightarrow> first_committed c rs)"

definition committed_block_hash :: "consensus_round \<Rightarrow> hash32 option" where
"committed_block_hash c =
   (if cr_phase c = Phase_Decided then first_committed c [0..<Suc (cr_round c)] else None)"

section \<open>Invariant of the vote store\<close>

definition conflicting :: "consensus_vote \<Rightarrow> consensus_vote \<Rightarrow> bool" where
"conflicting a b = (key_of a = key_of b \<and> cv_block_hash a \<noteq> cv_block_hash b)"

definition evidence_ok :: "equivocation_evidence \<Rightarrow> bool" where
"evidence_ok e =
   (conflicting (ee_vote_a e) (ee_vote_b e)
    \<and> key_of (ee_vote_a e) = \<lparr> vk_validator = ee_validator_address e, vk_height = ee_height e,
                               vk_round = ee_round e, vk_step = ee_step e \<rparr>)"

definition vs_inv :: "vote_store \<Rightarrow> bool" where
"vs_inv s = (hwf (votes s) \<and> (\<forall>(k, v)\<in>set (votes s). k = key_of v)
             \<and> (\<forall>e\<in>set (equivocations s). evidence_ok e))"

text \<open>The store after a sequence of votes, in the order they were recorded.\<close>

fun record_all :: "vote_store \<Rightarrow> consensus_vote list \<Rightarrow> vote_store" where
"record_all s [] = s" |
"record_all s (v # vs) = record_all (fst (vs_record s v)) vs"

text \<open>The validators whose vote for \<open>b\<close> the store holds at one height, round and step.\<close>

definition voters :: "vote_store \<Rightarrow> nat \<Rightarrow> nat \<Rightarrow> vote_step \<Rightarrow> hash32 \<Rightarrow> address set" where
"voters s h r st b =
   {a. \<exists>v. hget (votes s) \<lparr> vk_validator = a, vk_height = h, vk_round = r, vk_step = st \<rparr> = Some v
           \<and> cv_block_hash v = b}"

section \<open>Facts of the vote store\<close>

lemma vs_inv_new [simp]: "vs_inv vs_new"
  by (simp add: vs_inv_def vs_new_def)

lemma vs_inv_key: "vs_inv s \<Longrightarrow> hget (votes s) k = Some v \<Longrightarrow> key_of v = k"
  by (auto simp: vs_inv_def dest: hget_mem)

lemma vs_record_votes:
  "hget (votes (fst (vs_record s v))) k =
     (if k = key_of v \<and> hget (votes s) k = None then Some v else hget (votes s) k)"
  by (auto simp: vs_record_def Let_def hget_hput split: option.splits)

lemma vs_record_votes_mono:
  "hget (votes s) k = Some w \<Longrightarrow> hget (votes (fst (vs_record s v))) k = Some w"
  by (simp add: vs_record_votes)

lemma vs_record_evidence:
  "equivocations (fst (vs_record s v)) =
     equivocations s @ (case snd (vs_record s v) of None \<Rightarrow> [] | Some e \<Rightarrow> [e])"
  by (auto simp: vs_record_def Let_def split: option.splits)

lemma vs_record_evidence_ok:
  assumes "vs_inv s" "snd (vs_record s v) = Some e"
  shows "evidence_ok e"
proof -
  obtain w where w: "hget (votes s) (key_of v) = Some w" "cv_block_hash w \<noteq> cv_block_hash v"
    and e: "e = \<lparr> ee_validator_address = cv_validator_address v, ee_height = cv_height v,
                  ee_round = cv_round v, ee_step = cv_step v, ee_vote_a = w, ee_vote_b = v \<rparr>"
    using assms(2) by (auto simp: vs_record_def Let_def split: option.splits if_splits)
  have "key_of w = key_of v" using vs_inv_key [OF assms(1) w(1)] .
  then show ?thesis using w(2) by (simp add: evidence_ok_def conflicting_def e) (simp add: key_of_def)
qed

lemma vs_inv_record [simp]:
  assumes "vs_inv s"
  shows "vs_inv (fst (vs_record s v))"
proof -
  have wf: "hwf (votes (fst (vs_record s v)))"
    using assms by (auto simp: vs_inv_def vs_record_def Let_def split: option.splits)
  have "k = key_of w" if "hget (votes (fst (vs_record s v))) k = Some w" for k w
    using that vs_inv_key [OF assms, of k w] by (auto simp: vs_record_votes split: if_splits)
  then have "\<forall>(k, w)\<in>set (votes (fst (vs_record s v))). k = key_of w"
    using mem_hget [OF wf] by auto
  moreover have "\<forall>e\<in>set (equivocations (fst (vs_record s v))). evidence_ok e"
    using assms vs_record_evidence_ok [OF assms, of v]
    by (auto simp: vs_inv_def vs_record_evidence split: option.splits)
  ultimately show ?thesis using wf by (simp add: vs_inv_def)
qed

lemma vs_inv_record_all: "vs_inv s \<Longrightarrow> vs_inv (record_all s vs)"
  by (induction vs arbitrary: s) auto

lemma key_of_simps [simp]:
  "vk_validator (key_of v) = cv_validator_address v" "vk_height (key_of v) = cv_height v"
  "vk_round (key_of v) = cv_round v" "vk_step (key_of v) = cv_step v"
  by (simp_all add: key_of_def)

lemma length_filter_voters:
  assumes "vs_inv s"
  shows "length (filter (\<lambda>v. cv_block_hash v = b)
           (filter (\<lambda>v. cv_height v = h \<and> cv_round v = r \<and> cv_step v = st) (hvals (votes s))))
         = card (voters s h r st b)"
proof -
  let ?P = "\<lambda>(k, v). cv_block_hash v = b \<and> cv_height v = h \<and> cv_round v = r \<and> cv_step v = st"
  let ?l = "filter ?P (votes s)"
  have wf: "hwf (votes s)" using assms by (simp add: vs_inv_def)
  have key: "k = key_of v" if "(k, v) \<in> set (votes s)" for k v
    using assms that by (auto simp: vs_inv_def)
  have "length (filter (\<lambda>v. cv_block_hash v = b)
           (filter (\<lambda>v. cv_height v = h \<and> cv_round v = r \<and> cv_step v = st) (hvals (votes s))))
        = length ?l"
    by (simp add: hvals_def filter_map comp_def conj_ac case_prod_beta')
  also have "\<dots> = card (set ?l)"
    using wf by (subst distinct_card) (auto simp: hwf_def distinct_map)
  also have "\<dots> = card ((\<lambda>(k, v). vk_validator k) ` set ?l)"
  proof (rule card_image [symmetric], rule inj_onI)
    fix x y
    assume x: "x \<in> set ?l" and y: "y \<in> set ?l"
      and eq: "(\<lambda>(k, v). vk_validator k) x = (\<lambda>(k, v). vk_validator k) y"
    obtain k v k' v' where xy: "x = (k, v)" "y = (k', v')" by fastforce
    have "k = key_of v" "k' = key_of v'" using x y xy key [of k v] key [of k' v'] by auto
    moreover have "cv_height v = h \<and> cv_round v = r \<and> cv_step v = st"
      "cv_height v' = h \<and> cv_round v' = r \<and> cv_step v' = st"
      using x y xy by auto
    ultimately have kk: "k = k'" using eq xy by (simp add: key_of_def)
    have "hget (votes s) k = Some v" "hget (votes s) k' = Some v'"
      using x y xy mem_hget [OF wf] by auto
    then show "x = y" using kk xy by simp
  qed
  also have "(\<lambda>(k, v). vk_validator k) ` set ?l = voters s h r st b"
  proof (intro set_eqI iffI)
    fix a assume "a \<in> (\<lambda>(k, v). vk_validator k) ` set ?l"
    then obtain k v where kv: "(k, v) \<in> set (votes s)" "?P (k, v)" "a = vk_validator k" by auto
    then have "k = \<lparr> vk_validator = a, vk_height = h, vk_round = r, vk_step = st \<rparr>"
      using key [OF kv(1)] by (simp add: key_of_def)
    then show "a \<in> voters s h r st b" using kv mem_hget [OF wf] by (auto simp: voters_def)
  next
    fix a assume "a \<in> voters s h r st b"
    then obtain v where v: "cv_block_hash v = b"
      "hget (votes s) \<lparr> vk_validator = a, vk_height = h, vk_round = r, vk_step = st \<rparr> = Some v"
      by (auto simp: voters_def)
    then have mem: "(\<lparr> vk_validator = a, vk_height = h, vk_round = r, vk_step = st \<rparr>, v) \<in> set (votes s)"
      using mem_hget [OF wf] by simp
    from key [OF mem] have "?P (\<lparr> vk_validator = a, vk_height = h, vk_round = r, vk_step = st \<rparr>, v)"
      using v by (simp add: key_of_def)
    with mem have "(\<lparr> vk_validator = a, vk_height = h, vk_round = r, vk_step = st \<rparr>, v) \<in> set ?l"
      by simp
    then show "a \<in> (\<lambda>(k, v). vk_validator k) ` set ?l"
      by (rule rev_image_eqI) simp
  qed
  finally show ?thesis .
qed

lemma prevote_count_voters:
  "vs_inv s \<Longrightarrow> prevote_count_for s h r b = card (voters s h r Step_Prevote b)"
  unfolding prevote_count_for_def prevotes_def by (rule length_filter_voters)

lemma precommit_count_voters:
  "vs_inv s \<Longrightarrow> precommit_count_for s h r b = card (voters s h r Step_Precommit b)"
  unfolding precommit_count_for_def precommits_def by (rule length_filter_voters)

lemma finite_voters: "finite (voters s h r st b)"
proof -
  have "voters s h r st b \<subseteq> vk_validator ` fst ` set (votes s)"
    by (force simp: voters_def dest: hget_mem)
  then show ?thesis by (rule finite_subset) simp
qed

lemma voters_record: "voters s h r st b \<subseteq> voters (fst (vs_record s v)) h r st b"
  by (auto simp: voters_def vs_record_votes)

lemma commit_quorum_record:
  assumes "vs_inv s" "has_commit_quorum s h r b q"
  shows "has_commit_quorum (fst (vs_record s v)) h r b q"
  using assms card_mono [OF finite_voters voters_record [of s h r Step_Precommit b v]]
  by (auto simp: has_commit_quorum_def precommit_count_voters split: if_splits)

lemma committed_in_round_quorum:
  "committed_in_round c r = Some b \<Longrightarrow>
     has_commit_quorum (cr_vote_store c) (cr_height c) r b (cr_quorum c)"
  by (auto simp: committed_in_round_def find_Some_iff)

lemma first_committed_quorum:
  "first_committed c rs = Some b \<Longrightarrow>
     \<exists>r\<in>set rs. has_commit_quorum (cr_vote_store c) (cr_height c) r b (cr_quorum c)"
  by (induction rs) (auto split: option.splits dest: committed_in_round_quorum)

lemma committed_in_round_exists:
  assumes "has_commit_quorum (cr_vote_store c) (cr_height c) r b (cr_quorum c)"
  shows "committed_in_round c r \<noteq> None"
proof
  assume "committed_in_round c r = None"
  then have none: "\<not> (cv_block_hash v \<noteq> NIL_HASH
      \<and> has_commit_quorum (cr_vote_store c) (cr_height c) r (cv_block_hash v) (cr_quorum c))"
    if "v \<in> set (precommits (cr_vote_store c) (cr_height c) r)" for v
    using that by (auto simp: committed_in_round_def find_None_iff)
  have "b \<noteq> NIL_HASH" using assms by (auto simp: has_commit_quorum_def)
  have "0 < precommit_count_for (cr_vote_store c) (cr_height c) r b"
    using assms by (auto simp: has_commit_quorum_def cr_quorum_def quorum_size_def split: if_splits)
  then obtain v where "v \<in> set (precommits (cr_vote_store c) (cr_height c) r)" "cv_block_hash v = b"
    by (auto simp: precommit_count_for_def filter_empty_conv)
  then show False using none assms \<open>b \<noteq> NIL_HASH\<close> by blast
qed

lemma first_committed_exists:
  "r \<in> set rs \<Longrightarrow> committed_in_round c r \<noteq> None \<Longrightarrow> first_committed c rs \<noteq> None"
  by (induction rs) (auto split: option.splits)

section \<open>Equivocation detection\<close>

definition reported :: "vote_store \<Rightarrow> vote_key \<Rightarrow> bool" where
"reported s k = (\<exists>e\<in>set (equivocations s). key_of (ee_vote_a e) = k)"

lemma reported_record:
  assumes "vs_inv s"
  shows "reported (fst (vs_record s v)) k \<longleftrightarrow>
    reported s k \<or> (\<exists>w. hget (votes s) k = Some w \<and> key_of v = k \<and> cv_block_hash w \<noteq> cv_block_hash v)"
proof (cases "hget (votes s) (key_of v)")
  case None
  then show ?thesis by (auto simp: vs_record_def reported_def)
next
  case (Some w)
  have "key_of w = key_of v" using vs_inv_key [OF assms Some] .
  then show ?thesis using Some by (auto simp: vs_record_def reported_def Let_def)
qed

lemma reported_record_all:
  assumes "vs_inv s"
  shows "reported (record_all s vs) k \<longleftrightarrow> reported s k \<or>
    (case hget (votes s) k of
       Some w \<Rightarrow> \<exists>b\<in>set vs. key_of b = k \<and> cv_block_hash w \<noteq> cv_block_hash b
     | None \<Rightarrow> \<exists>a\<in>set vs. \<exists>b\<in>set vs. key_of a = k \<and> key_of b = k \<and> cv_block_hash a \<noteq> cv_block_hash b)"
  using assms
proof (induction vs arbitrary: s)
  case Nil
  then show ?case by (simp split: option.splits)
next
  case (Cons v vs)
  have "reported (record_all s (v # vs)) k \<longleftrightarrow> reported (fst (vs_record s v)) k \<or>
    (case hget (votes (fst (vs_record s v))) k of
       Some w \<Rightarrow> \<exists>b\<in>set vs. key_of b = k \<and> cv_block_hash w \<noteq> cv_block_hash b
     | None \<Rightarrow> \<exists>a\<in>set vs. \<exists>b\<in>set vs. key_of a = k \<and> key_of b = k \<and> cv_block_hash a \<noteq> cv_block_hash b)"
    using Cons by simp
  then show ?case
    unfolding reported_record [OF Cons.prems] vs_record_votes
    by (cases "hget (votes s) k"; cases "key_of v = k") auto
qed

definition sourced :: "consensus_vote set \<Rightarrow> vote_store \<Rightarrow> bool" where
"sourced A s = ((\<forall>k w. hget (votes s) k = Some w \<longrightarrow> w \<in> A)
   \<and> (\<forall>e\<in>set (equivocations s). ee_vote_a e \<in> A \<and> ee_vote_b e \<in> A))"

lemma sourced_record:
  assumes "sourced A s" "v \<in> A"
  shows "sourced A (fst (vs_record s v))"
proof -
  have "\<forall>e\<in>set (equivocations (fst (vs_record s v))). ee_vote_a e \<in> A \<and> ee_vote_b e \<in> A"
    using assms by (auto simp: sourced_def vs_record_def Let_def split: option.splits)
  then show ?thesis using assms by (auto simp: sourced_def vs_record_votes split: if_splits)
qed

lemma sourced_record_all: "sourced A s \<Longrightarrow> set vs \<subseteq> A \<Longrightarrow> sourced A (record_all s vs)"
  by (induction vs arbitrary: s) (simp_all add: sourced_record)

text \<open>
  equivocation detection.  After any sequence of votes, evidence exists for a
  validator, height, round and step exactly when two votes of the sequence conflict
  there, and every piece of evidence holds two votes of the sequence that conflict.
\<close>

theorem equivocation_detected_iff:
  "((\<exists>e\<in>set (equivocations (record_all vs_new vs)). key_of (ee_vote_a e) = k) \<longleftrightarrow>
      (\<exists>a\<in>set vs. \<exists>b\<in>set vs. key_of a = k \<and> conflicting a b))
   \<and> list_all (\<lambda>e. ee_vote_a e \<in> set vs \<and> ee_vote_b e \<in> set vs \<and> evidence_ok e)
       (equivocations (record_all vs_new vs))"
proof
  have "hget (votes vs_new) k = None" "\<not> reported vs_new k"
    by (simp_all add: vs_new_def reported_def)
  then have "reported (record_all vs_new vs) k \<longleftrightarrow>
     (\<exists>a\<in>set vs. \<exists>b\<in>set vs. key_of a = k \<and> key_of b = k \<and> cv_block_hash a \<noteq> cv_block_hash b)"
    by (simp add: reported_record_all)
  also have "\<dots> \<longleftrightarrow> (\<exists>a\<in>set vs. \<exists>b\<in>set vs. key_of a = k \<and> conflicting a b)"
    unfolding conflicting_def by (intro bex_cong refl) auto
  finally have "reported (record_all vs_new vs) k \<longleftrightarrow>
     (\<exists>a\<in>set vs. \<exists>b\<in>set vs. key_of a = k \<and> conflicting a b)" .
  then show "(\<exists>e\<in>set (equivocations (record_all vs_new vs)). key_of (ee_vote_a e) = k) \<longleftrightarrow>
     (\<exists>a\<in>set vs. \<exists>b\<in>set vs. key_of a = k \<and> conflicting a b)"
    by (simp add: reported_def)
  have "sourced (set vs) (record_all vs_new vs)"
    by (rule sourced_record_all) (simp_all add: sourced_def vs_new_def)
  then have "\<forall>e\<in>set (equivocations (record_all vs_new vs)). ee_vote_a e \<in> set vs \<and> ee_vote_b e \<in> set vs"
    by (simp add: sourced_def)
  moreover have "\<forall>e\<in>set (equivocations (record_all vs_new vs)). evidence_ok e"
    using vs_inv_record_all [OF vs_inv_new, of vs] by (simp add: vs_inv_def)
  ultimately show "list_all (\<lambda>e. ee_vote_a e \<in> set vs \<and> ee_vote_b e \<in> set vs \<and> evidence_ok e)
       (equivocations (record_all vs_new vs))"
    by (simp add: list_all_iff)
qed

section \<open>Signing preimages and proposers\<close>

lemma vote_body_inj:
  assumes "length fd = length fd'" "h \<le> U64_MAX" "h' \<le> U64_MAX" "r \<le> U32_MAX" "r' \<le> U32_MAX"
    "vote_body fd h r st b = vote_body fd' h' r' st' b'"
  shows "fd = fd' \<and> h = h' \<and> r = r' \<and> st = st' \<and> b = b'"
proof -
  have e1: "fd = fd' \<and> be_bytes 8 h @ be_bytes 4 r @ step_u8 st # b
      = be_bytes 8 h' @ be_bytes 4 r' @ step_u8 st' # b'"
    by (rule append_eq_fixed [THEN iffD1, OF assms(1)]) (use assms(6) in \<open>simp add: vote_body_def\<close>)
  have e2: "be_bytes 8 h = be_bytes 8 h' \<and> be_bytes 4 r @ step_u8 st # b = be_bytes 4 r' @ step_u8 st' # b'"
    by (rule append_eq_fixed [THEN iffD1, OF _ conjunct2 [OF e1]]) simp
  have e3: "be_bytes 4 r = be_bytes 4 r' \<and> step_u8 st # b = step_u8 st' # b'"
    by (rule append_eq_fixed [THEN iffD1, OF _ conjunct2 [OF e2]]) simp
  have eq: "fd = fd'" "be_bytes 8 h = be_bytes 8 h'" "be_bytes 4 r = be_bytes 4 r'"
    "step_u8 st = step_u8 st'" "b = b'"
    using e1 e2 e3 by simp_all
  have "h = h'" by (rule be_bytes_inj [OF _ _ eq(2)]) (use assms(2,3) in \<open>simp_all add: U64_MAX_def\<close>)
  moreover have "r = r'" by (rule be_bytes_inj [OF _ _ eq(3)]) (use assms(4,5) in \<open>simp_all add: U32_MAX_def\<close>)
  moreover have "st = st'" using eq(4) by (cases st; cases st') simp_all
  ultimately show ?thesis using eq(1,5) by blast
qed

text \<open>
  votes are bound by their signing preimage.  Two votes that differ in the fork digest,
  height, round, step or block hash have different preimages, provided SHAKE-256 does not
  collide on the two byte strings hashed for them: a signature on one vote cannot be
  replayed as another one or on another fork.
\<close>

theorem vote_preimage_binding:
  assumes "length fd = 4" "length fd' = 4" "h \<le> U64_MAX" "h' \<le> U64_MAX" "r \<le> U32_MAX" "r' \<le> U32_MAX"
    "(fd, h, r, st, b) \<noteq> (fd', h', r', st', b')"
    "inj_on (\<lambda>x. X x 32) {tagged_input X VOTE_DOMAIN_TAG (vote_body fd h r st b),
                          tagged_input X VOTE_DOMAIN_TAG (vote_body fd' h' r' st' b')}"
  shows "vote_preimage X fd h r st b \<noteq> vote_preimage X fd' h' r' st' b'"
proof
  assume eq: "vote_preimage X fd h r st b = vote_preimage X fd' h' r' st' b'"
  have "tagged_input X VOTE_DOMAIN_TAG (vote_body fd h r st b)
      = tagged_input X VOTE_DOMAIN_TAG (vote_body fd' h' r' st' b')"
    by (rule inj_onD [OF assms(8)]) (use eq in \<open>simp_all add: vote_preimage_def tagged_hash_input\<close>)
  then have "vote_body fd h r st b = vote_body fd' h' r' st' b'" by simp
  then have "fd = fd' \<and> h = h' \<and> r = r' \<and> st = st' \<and> b = b'"
    by (rule vote_body_inj [rotated 5]) (use assms(1-6) in simp_all)
  then show False using assms(7) by blast
qed

theorem vote_preimage_binding_witness:
  "vote_preimage (\<lambda>d n. take n (rev d)) [0, 0, 0, 1] 5 0 Step_Prevote (replicate 32 1)
   \<noteq> vote_preimage (\<lambda>d n. take n (rev d)) [0, 0, 0, 1] 5 0 Step_Prevote (replicate 32 2)"
  by (rule vote_preimage_binding)
    (simp_all add: U64_MAX_def U32_MAX_def inj_on_def tagged_input_def vote_body_def)

text \<open>
  proposer rotation.  Without a RANDAO value the proposer is a member of the validator
  set in every round, and over any window of as many consecutive rounds as there are
  validators each of them is selected.
\<close>

theorem proposer_rotation:
  assumes "v \<in> set vals"
  shows "(\<exists>r\<in>{r0..<r0 + length vals}. select_proposer X vals h r None = Some v)
    \<and> (\<forall>r. \<exists>w\<in>set vals. select_proposer X vals h r None = Some w)"
proof
  let ?n = "length vals" and ?s = "sort vals"
  have ne: "vals \<noteq> []" and n: "0 < ?n" using assms by auto
  have sel: "select_proposer X vals h r None = Some (?s ! ((h + r) mod ?n))" for r
    using ne by (simp add: select_proposer_def Let_def)
  obtain i where i: "i < ?n" "?s ! i = v"
    using assms by (metis in_set_conv_nth length_sort set_sort)
  define k where "k = (i + ?n - (h + r0) mod ?n) mod ?n"
  have "(h + (r0 + k)) mod ?n = ((h + r0) mod ?n + k) mod ?n"
    by (simp add: mod_add_left_eq add.assoc [symmetric])
  also have "\<dots> = ((h + r0) mod ?n + (i + ?n - (h + r0) mod ?n)) mod ?n"
    unfolding k_def by (simp only: mod_add_right_eq)
  also have "(h + r0) mod ?n + (i + ?n - (h + r0) mod ?n) = i + ?n"
    using mod_less_divisor [OF n, of "h + r0"] by linarith
  also have "(i + ?n) mod ?n = i" using i by simp
  finally have "select_proposer X vals h (r0 + k) None = Some v" using sel i by simp
  moreover have "k < ?n" unfolding k_def using n by simp
  ultimately show "\<exists>r\<in>{r0..<r0 + ?n}. select_proposer X vals h r None = Some v" by force
  show "\<forall>r. \<exists>w\<in>set vals. select_proposer X vals h r None = Some w"
    using sel n by (metis length_sort mod_less_divisor nth_mem set_sort)
qed

theorem proposer_rotation_witness:
  "\<exists>r\<in>{6..<6 + length [[1 :: byte], [2], [3]]}.
     select_proposer (\<lambda>d n. d) [[1], [2], [3]] 40 r None = Some [3]"
  using proposer_rotation [of "[3]" "[[1], [2], [3]]" 6 "\<lambda>d n. d" 40] by simp

end
