(* ===== verification/Bft.thy ===== *)
theory Bft
  imports Round
begin

text \<open>
  Agreement of the round state machine.  Each honest validator runs a \<open>ConsensusRound\<close> of
  theory \<open>Round\<close>; proposals, timeouts and deliveries of sent votes reach it in any order;
  the remaining validators send any vote under their own address.  Delivery is
  restricted to votes that were sent, which is what the signature check of the
  network layer gives.
\<close>

section \<open>Quorum rules\<close>

text \<open>
  The contract of a quorum rule: whenever fewer than a third of the members are faulty,
  two quorums together exceed the membership by more than the faulty members.
\<close>

locale quorum_rule =
  fixes quorum :: "nat \<Rightarrow> nat"
  assumes overlap: "3 * f < n \<Longrightarrow> n + f < 2 * quorum n"
begin

lemma quorum_pos: "0 < n \<Longrightarrow> 0 < quorum n"
  using overlap [of 0 n] by simp

lemma quorums_share_correct:
  assumes "finite U" "3 * card F < card U" "A \<subseteq> U" "B \<subseteq> U"
    "quorum (card U) \<le> card A" "quorum (card U) \<le> card B" "F \<subseteq> U"
  shows "\<exists>x. x \<in> A \<and> x \<in> B \<and> x \<notin> F"
proof (rule ccontr)
  assume none: "\<not> ?thesis"
  have fin: "finite A" "finite B" "finite F" using assms by (auto intro: finite_subset)
  have "card A + card B = card (A \<union> B) + card (A \<inter> B)"
    by (rule card_Un_Int [OF fin(1,2)])
  also have "\<dots> \<le> card U + card F"
    using none assms fin by (intro add_mono card_mono) auto
  also have "\<dots> < 2 * quorum (card U)" using overlap assms(2) by blast
  finally show False using assms(5,6) by simp
qed

lemma quorum_has_correct:
  assumes "finite U" "3 * card F < card U" "A \<subseteq> U" "quorum (card U) \<le> card A" "F \<subseteq> U"
  shows "\<exists>x. x \<in> A \<and> x \<notin> F"
  using quorums_share_correct [OF assms(1,2,3,3,4,4,5)] by blast

end

lemma quorum_size_overlap: "3 * f < n \<Longrightarrow> n + f < 2 * quorum_size n"
  unfolding quorum_size_def by presburger

interpretation qs: quorum_rule quorum_size
  by unfold_locales (rule quorum_size_overlap)

section \<open>The network\<close>

datatype round_event =
    Ev_Proposal hash32
  | Ev_ProposeTimeout
  | Ev_Prevote consensus_vote
  | Ev_PrevoteTimeout
  | Ev_Precommit consensus_vote
  | Ev_PrecommitTimeout

fun handle :: "consensus_round \<Rightarrow> round_event \<Rightarrow> (consensus_round \<times> round_action list) option" where
"handle c (Ev_Proposal b) = Some (on_proposal_received c b)" |
"handle c Ev_ProposeTimeout = Some (on_propose_timeout c)" |
"handle c (Ev_Prevote v) = Some (on_prevote c v)" |
"handle c Ev_PrevoteTimeout = Some (on_prevote_timeout c)" |
"handle c (Ev_Precommit v) = Some (on_precommit c v)" |
"handle c Ev_PrecommitTimeout = on_precommit_timeout c"

record network =
  nodes :: "address \<Rightarrow> consensus_round"
  sent :: "consensus_vote list"
  commits :: "(address \<times> hash32 \<times> nat) list"

definition net_start :: "nat \<Rightarrow> address list \<Rightarrow> network" where
"net_start H vals =
   \<lparr> nodes = (\<lambda>_. cr_new H (length vals)), sent = [], commits = [] \<rparr>"

text \<open>The vote a caller broadcasts for an action, under its own address and current round.\<close>

definition own_vote :: "address \<Rightarrow> consensus_round \<Rightarrow> bytes \<Rightarrow> vote_step \<Rightarrow> hash32 \<Rightarrow> consensus_vote" where
"own_vote p c sig st b =
   \<lparr> cv_height = cr_height c, cv_round = cr_round c, cv_step = st, cv_block_hash = b,
     cv_validator_address = p, cv_signature = sig \<rparr>"

fun votes_of :: "address \<Rightarrow> consensus_round \<Rightarrow> bytes \<Rightarrow> round_action list \<Rightarrow> consensus_vote list" where
"votes_of p c sig [] = []" |
"votes_of p c sig (BroadcastPrevote b # as) = own_vote p c sig Step_Prevote b # votes_of p c sig as" |
"votes_of p c sig (BroadcastPrecommit b # as) =
   own_vote p c sig Step_Precommit b # votes_of p c sig as" |
"votes_of p c sig (Commit b r # as) = votes_of p c sig as" |
"votes_of p c sig (NextRound # as) = votes_of p c sig as"

fun commits_of :: "address \<Rightarrow> round_action list \<Rightarrow> (address \<times> hash32 \<times> nat) list" where
"commits_of p [] = []" |
"commits_of p (Commit b r # as) = (p, b, r) # commits_of p as" |
"commits_of p (BroadcastPrevote b # as) = commits_of p as" |
"commits_of p (BroadcastPrecommit b # as) = commits_of p as" |
"commits_of p (NextRound # as) = commits_of p as"

fun deliverable :: "network \<Rightarrow> round_event \<Rightarrow> bool" where
"deliverable s (Ev_Prevote v) = (v \<in> set (sent s))" |
"deliverable s (Ev_Precommit v) = (v \<in> set (sent s))" |
"deliverable s e = True"

datatype net_event =
    Honest address round_event bytes
  | Byzantine consensus_vote

text \<open>One event: an honest validator handles it and broadcasts, or a faulty one sends a vote.\<close>

fun net_exec :: "address list \<Rightarrow> address list \<Rightarrow> network \<Rightarrow> net_event \<Rightarrow> network option" where
"net_exec vals byz s (Honest p e sig) =
   (if p \<in> set vals \<and> p \<notin> set byz \<and> deliverable s e
    then case handle (nodes s p) e of
           None \<Rightarrow> None
         | Some (c, as) \<Rightarrow> Some \<lparr> nodes = (nodes s)(p := c), sent = votes_of p c sig as @ sent s,
                                  commits = commits_of p as @ commits s \<rparr>
    else None)" |
"net_exec vals byz s (Byzantine v) =
   (if cv_validator_address v \<in> set vals \<and> cv_validator_address v \<in> set byz
    then Some (s\<lparr> sent := v # sent s \<rparr>) else None)"

definition net_step :: "address list \<Rightarrow> address list \<Rightarrow> network \<Rightarrow> network \<Rightarrow> bool" where
"net_step vals byz s t = (\<exists>e. net_exec vals byz s e = Some t)"

abbreviation net_reach :: "nat \<Rightarrow> address list \<Rightarrow> address list \<Rightarrow> network \<Rightarrow> bool" where
"net_reach H vals byz \<equiv> reach (\<lambda>s. s = net_start H vals) (net_step vals byz)"

text \<open>A schedule of events, for evaluating concrete runs.\<close>

fun net_run :: "address list \<Rightarrow> address list \<Rightarrow> network \<Rightarrow> net_event list \<Rightarrow> network option" where
"net_run vals byz s [] = Some s" |
"net_run vals byz s (e # es) =
   (case net_exec vals byz s e of None \<Rightarrow> None | Some t \<Rightarrow> net_run vals byz t es)"

section \<open>What the votes on the wire say\<close>

definition voted :: "nat \<Rightarrow> consensus_vote list \<Rightarrow> address \<Rightarrow> vote_step \<Rightarrow> nat \<Rightarrow> hash32 \<Rightarrow> bool" where
"voted H ms p st r b =
   (\<exists>v\<in>set ms. cv_validator_address v = p \<and> cv_height v = H \<and> cv_round v = r
               \<and> cv_step v = st \<and> cv_block_hash v = b)"

definition quorum_voted ::
    "nat \<Rightarrow> address list \<Rightarrow> consensus_vote list \<Rightarrow> vote_step \<Rightarrow> nat \<Rightarrow> hash32 \<Rightarrow> bool" where
"quorum_voted H vals ms st r b =
   (b \<noteq> NIL_HASH \<and> quorum_size (length vals) \<le> card {p \<in> set vals. voted H ms p st r b})"

text \<open>The state of one honest validator agrees with the votes it sent.\<close>

definition node_ok :: "nat \<Rightarrow> address list \<Rightarrow> consensus_vote list \<Rightarrow> consensus_round \<Rightarrow> bool" where
"node_ok H vals ms c =
   (cr_height c = H \<and> cr_validator_count c = length vals \<and> vs_inv (cr_vote_store c)
    \<and> (\<forall>k v. hget (votes (cr_vote_store c)) k = Some v \<longrightarrow> v \<in> set ms))"

definition votes_behind :: "nat \<Rightarrow> consensus_vote list \<Rightarrow> address \<Rightarrow> consensus_round \<Rightarrow> bool" where
"votes_behind H ms p c =
   ((\<forall>r b. voted H ms p Step_Prevote r b \<longrightarrow>
        r < cr_round c \<or> r = cr_round c \<and> cr_phase c \<noteq> Phase_Propose)
    \<and> (\<forall>r b. voted H ms p Step_Precommit r b \<longrightarrow>
        r < cr_round c \<or> r = cr_round c \<and> cr_phase c \<in> {Phase_Precommit, Phase_Decided}))"

definition votes_unique :: "nat \<Rightarrow> consensus_vote list \<Rightarrow> address \<Rightarrow> bool" where
"votes_unique H ms p =
   (\<forall>st r b b'. voted H ms p st r b \<longrightarrow> voted H ms p st r b' \<longrightarrow> b = b')"

definition precommits_justified :: "nat \<Rightarrow> address list \<Rightarrow> consensus_vote list \<Rightarrow> address \<Rightarrow> bool" where
"precommits_justified H vals ms p =
   (\<forall>r b. voted H ms p Step_Precommit r b \<longrightarrow> b \<noteq> NIL_HASH \<longrightarrow>
        quorum_voted H vals ms Step_Prevote r b)"

definition lock_respected :: "nat \<Rightarrow> consensus_vote list \<Rightarrow> address \<Rightarrow> bool" where
"lock_respected H ms p =
   (\<forall>r b r' b'. voted H ms p Step_Precommit r b \<longrightarrow> b \<noteq> NIL_HASH \<longrightarrow>
        voted H ms p Step_Prevote r' b' \<longrightarrow> b' \<noteq> NIL_HASH \<longrightarrow> r < r' \<longrightarrow>
        (\<exists>r1. r \<le> r1 \<and> r1 < r' \<and> voted H ms p Step_Precommit r1 b'))"

definition lock_current :: "nat \<Rightarrow> consensus_vote list \<Rightarrow> address \<Rightarrow> consensus_round \<Rightarrow> bool" where
"lock_current H ms p c =
   (\<forall>r b. voted H ms p Step_Precommit r b \<longrightarrow> b \<noteq> NIL_HASH \<longrightarrow>
        (\<exists>l rl. cr_locked_block c = Some l \<and> r \<le> rl \<and> voted H ms p Step_Precommit rl l))"

definition honest_ok ::
    "nat \<Rightarrow> address list \<Rightarrow> consensus_vote list \<Rightarrow> address \<Rightarrow> consensus_round \<Rightarrow> bool" where
"honest_ok H vals ms p c =
   (node_ok H vals ms c \<and> votes_behind H ms p c \<and> votes_unique H ms p
    \<and> precommits_justified H vals ms p \<and> lock_respected H ms p \<and> lock_current H ms p c)"

definition net_inv :: "nat \<Rightarrow> address list \<Rightarrow> address list \<Rightarrow> network \<Rightarrow> bool" where
"net_inv H vals byz s =
   ((\<forall>p. p \<in> set vals \<and> p \<notin> set byz \<longrightarrow> honest_ok H vals (sent s) p (nodes s p))
    \<and> (\<forall>v\<in>set (sent s). cv_validator_address v \<in> set vals)
    \<and> (\<forall>(p, b, r)\<in>set (commits s). quorum_voted H vals (sent s) Step_Precommit r b))"

lemmas honest_defs = node_ok_def votes_behind_def votes_unique_def precommits_justified_def
  lock_respected_def lock_current_def

section \<open>Agreement from the votes\<close>

lemma voted_Cons:
  "voted H (v # ms) p st r b \<longleftrightarrow>
     (cv_validator_address v = p \<and> cv_height v = H \<and> cv_round v = r \<and> cv_step v = st
      \<and> cv_block_hash v = b) \<or> voted H ms p st r b"
  by (auto simp: voted_def)

lemma voted_mono: "voted H ms p st r b \<Longrightarrow> set ms \<subseteq> set ms' \<Longrightarrow> voted H ms' p st r b"
  by (auto simp: voted_def)

lemma quorum_voted_mono:
  assumes "quorum_voted H vals ms st r b" "set ms \<subseteq> set ms'"
  shows "quorum_voted H vals ms' st r b"
proof -
  have "card {p \<in> set vals. voted H ms p st r b} \<le> card {p \<in> set vals. voted H ms' p st r b}"
    using assms(2) by (intro card_mono) (auto intro: voted_mono)
  then show ?thesis using assms(1) by (auto simp: quorum_voted_def)
qed

lemma quorum_voted_Cons: "quorum_voted H vals ms st r b \<Longrightarrow> quorum_voted H vals (v # ms) st r b"
  by (erule quorum_voted_mono) auto

lemma quorum_voted_share:
  assumes "distinct vals" "set byz \<subseteq> set vals" "3 * card (set byz) < length vals"
    "quorum_voted H vals ms st r b" "quorum_voted H vals ms st' r' b'"
  obtains p where "p \<in> set vals" "p \<notin> set byz" "voted H ms p st r b" "voted H ms p st' r' b'"
proof -
  have card: "card (set vals) = length vals" using assms(1) by (rule distinct_card)
  have "\<exists>p. p \<in> {p \<in> set vals. voted H ms p st r b} \<and> p \<in> {p \<in> set vals. voted H ms p st' r' b'}
          \<and> p \<notin> set byz"
    by (rule qs.quorums_share_correct [of "set vals"])
      (use assms card in \<open>auto simp: quorum_voted_def\<close>)
  then show thesis using that by auto
qed

text \<open>After a commit quorum for \<open>b\<close> in round \<open>r\<close> no other value gets a prevote quorum.\<close>

lemma polka_after_commit:
  assumes cfg: "distinct vals" "set byz \<subseteq> set vals" "3 * card (set byz) < length vals"
    and ok: "\<And>p. p \<in> set vals \<Longrightarrow> p \<notin> set byz \<Longrightarrow>
      votes_unique H ms p \<and> precommits_justified H vals ms p \<and> lock_respected H ms p"
    and commit: "quorum_voted H vals ms Step_Precommit r b"
    and polka: "quorum_voted H vals ms Step_Prevote r' b'" and "r \<le> r'"
  shows "b' = b"
  using polka \<open>r \<le> r'\<close>
proof (induction r' arbitrary: b' rule: less_induct)
  case (less r')
  have nn: "b \<noteq> NIL_HASH" "b' \<noteq> NIL_HASH" using commit less.prems by (auto simp: quorum_voted_def)
  show ?case
  proof (cases "r' = r")
    case True
    obtain p where p: "p \<in> set vals" "p \<notin> set byz" "voted H ms p Step_Precommit r b"
      using quorum_voted_share [OF cfg commit commit] by blast
    then have "quorum_voted H vals ms Step_Prevote r b"
      using ok [OF p(1,2)] nn by (simp add: precommits_justified_def)
    then obtain q where q: "q \<in> set vals" "q \<notin> set byz" "voted H ms q Step_Prevote r b"
      "voted H ms q Step_Prevote r b'"
      using quorum_voted_share [OF cfg _ less.prems(1)] True by blast
    have "votes_unique H ms q" using ok [OF q(1,2)] by blast
    then show ?thesis using q(3,4) unfolding votes_unique_def by blast
  next
    case False
    then have "r < r'" using less.prems(2) by simp
    obtain p where p: "p \<in> set vals" "p \<notin> set byz" "voted H ms p Step_Precommit r b"
      "voted H ms p Step_Prevote r' b'"
      using quorum_voted_share [OF cfg commit less.prems(1)] by blast
    have "lock_respected H ms p" using ok [OF p(1,2)] by blast
    then obtain r1 where r1: "r \<le> r1" "r1 < r'" "voted H ms p Step_Precommit r1 b'"
      using p(3,4) nn \<open>r < r'\<close> unfolding lock_respected_def by blast
    then have "quorum_voted H vals ms Step_Prevote r1 b'"
      using ok [OF p(1,2)] nn by (simp add: precommits_justified_def)
    then show ?thesis using less.IH r1 by blast
  qed
qed

lemma commit_quorums_agree:
  assumes cfg: "distinct vals" "set byz \<subseteq> set vals" "3 * card (set byz) < length vals"
    and ok: "\<And>p. p \<in> set vals \<Longrightarrow> p \<notin> set byz \<Longrightarrow>
      votes_unique H ms p \<and> precommits_justified H vals ms p \<and> lock_respected H ms p"
    and c1: "quorum_voted H vals ms Step_Precommit r1 b1"
    and c2: "quorum_voted H vals ms Step_Precommit r2 b2"
  shows "b1 = b2"
proof -
  have polka: "quorum_voted H vals ms Step_Prevote r b"
    if q: "quorum_voted H vals ms Step_Precommit r b" for r b
  proof -
    obtain p where p: "p \<in> set vals" "p \<notin> set byz" "voted H ms p Step_Precommit r b"
      using quorum_voted_share [OF cfg q q] by blast
    then show ?thesis using ok [OF p(1,2)] q
      by (simp add: precommits_justified_def) (simp add: quorum_voted_def)
  qed
  show ?thesis
    using polka_after_commit [OF cfg ok c1 polka [OF c2]]
      polka_after_commit [OF cfg ok c2 polka [OF c1]] by (cases "r1 \<le> r2") auto
qed

section \<open>One handler call\<close>

lemma handle_frame:
  assumes "handle c e = Some (c', as)"
  shows "cr_height c' = cr_height c" "cr_validator_count c' = cr_validator_count c"
  using assms
  by (cases e; auto simp: on_proposal_received_def on_propose_timeout_def on_prevote_def
      on_prevote_timeout_def on_precommit_def on_precommit_timeout_def Let_def
      split: if_splits option.splits)+

lemma handle_store:
  assumes "handle c e = Some (c', as)"
  shows "cr_vote_store c' = cr_vote_store c \<or>
    (\<exists>v. (e = Ev_Prevote v \<or> e = Ev_Precommit v)
         \<and> cr_vote_store c' = fst (vs_record (cr_vote_store c) v))"
  using assms
  by (cases e; auto simp: on_proposal_received_def on_propose_timeout_def on_prevote_def
      on_prevote_timeout_def on_precommit_def on_precommit_timeout_def Let_def
      split: if_splits option.splits)

lemma handle_cases:
  assumes "handle c e = Some (c', as)"
  obtains
    (quiet) "as = []" "cr_round c' = cr_round c" "cr_phase c' = cr_phase c"
      "cr_locked_block c' = cr_locked_block c"
  | (prevote) b where "as = [BroadcastPrevote b]" "cr_round c' = cr_round c"
      "cr_phase c = Phase_Propose" "cr_phase c' = Phase_Prevote"
      "cr_locked_block c' = cr_locked_block c"
      "b = NIL_HASH \<or> cr_locked_block c = None \<or> cr_locked_block c = Some b"
  | (precommit_nil) "as = [BroadcastPrecommit NIL_HASH]" "cr_round c' = cr_round c"
      "cr_phase c = Phase_Prevote" "cr_phase c' = Phase_Precommit"
      "cr_locked_block c' = cr_locked_block c"
  | (precommit) b where "as = [BroadcastPrecommit b]" "cr_round c' = cr_round c"
      "cr_phase c = Phase_Prevote" "cr_phase c' = Phase_Precommit"
      "cr_locked_block c' = Some b"
      "has_polka (cr_vote_store c') (cr_height c) (cr_round c) b (cr_quorum c)"
  | (commit) b where "as = [Commit b (cr_round c)]" "cr_round c' = cr_round c"
      "cr_phase c' = Phase_Decided" "cr_locked_block c' = cr_locked_block c"
      "has_commit_quorum (cr_vote_store c') (cr_height c) (cr_round c) b (cr_quorum c)"
  | (next_round) "as = [NextRound]" "cr_round c' = cr_round c + 1"
      "cr_phase c' = Phase_Propose" "cr_locked_block c' = cr_locked_block c"
proof (cases e)
  case (Ev_Proposal b)
  then show thesis
    using assms quiet prevote [of b] prevote [of NIL_HASH]
    by (auto simp: on_proposal_received_def split: if_splits option.splits)
next
  case Ev_ProposeTimeout
  then show thesis using assms quiet prevote [of NIL_HASH]
    by (auto simp: on_propose_timeout_def split: if_splits)
next
  case (Ev_Prevote v)
  then show thesis using assms quiet precommit [of "cv_block_hash v"]
    by (auto simp: on_prevote_def cr_quorum_def Let_def split: if_splits)
next
  case Ev_PrevoteTimeout
  then show thesis using assms quiet precommit_nil
    by (auto simp: on_prevote_timeout_def split: if_splits)
next
  case (Ev_Precommit v)
  then show thesis using assms quiet commit [of "cv_block_hash v"]
    by (auto simp: on_precommit_def cr_quorum_def Let_def split: if_splits)
next
  case Ev_PrecommitTimeout
  then show thesis using assms quiet next_round
    by (auto simp: on_precommit_timeout_def split: if_splits option.splits)
qed

lemma handle_node_ok:
  assumes "handle c e = Some (c', as)" "node_ok H vals (sent s) c" "deliverable s e"
  shows "node_ok H vals (ws @ sent s) c'"
proof -
  from handle_store [OF assms(1)] have "vs_inv (cr_vote_store c') \<and>
    (\<forall>k v. hget (votes (cr_vote_store c')) k = Some v \<longrightarrow> v \<in> set (sent s))"
  proof
    assume "cr_vote_store c' = cr_vote_store c"
    then show ?thesis using assms(2) by (simp add: node_ok_def)
  next
    assume "\<exists>v. (e = Ev_Prevote v \<or> e = Ev_Precommit v)
         \<and> cr_vote_store c' = fst (vs_record (cr_vote_store c) v)"
    then obtain v where "e = Ev_Prevote v \<or> e = Ev_Precommit v"
      and st: "cr_vote_store c' = fst (vs_record (cr_vote_store c) v)" by blast
    then have "v \<in> set (sent s)" using assms(3) by auto
    then show ?thesis using assms(2) by (auto simp: node_ok_def st vs_record_votes)
  qed
  then show ?thesis using handle_frame [OF assms(1)] assms(2) by (auto simp: node_ok_def)
qed

text \<open>A quorum counted in a vote store is a quorum of votes on the wire.\<close>

lemma voters_voted:
  assumes "vs_inv s" "\<forall>k v. hget (votes s) k = Some v \<longrightarrow> v \<in> set ms"
    "\<forall>v\<in>set ms. cv_validator_address v \<in> set vals"
  shows "voters s H r st b \<subseteq> {p \<in> set vals. voted H ms p st r b}"
proof
  fix a assume "a \<in> voters s H r st b"
  then obtain v where v: "cv_block_hash v = b"
    "hget (votes s) \<lparr> vk_validator = a, vk_height = H, vk_round = r, vk_step = st \<rparr> = Some v"
    by (auto simp: voters_def)
  then have "key_of v = \<lparr> vk_validator = a, vk_height = H, vk_round = r, vk_step = st \<rparr>"
    using vs_inv_key [OF assms(1)] by blast
  moreover have "v \<in> set ms" using v assms(2) by blast
  ultimately show "a \<in> {p \<in> set vals. voted H ms p st r b}"
    using v assms(3) by (auto simp: voted_def key_of_def)
qed

lemma store_quorum_voted:
  assumes "node_ok H vals ms c" "\<forall>v\<in>set ms. cv_validator_address v \<in> set vals"
    "b \<noteq> NIL_HASH" "cr_quorum c \<le> card (voters (cr_vote_store c) H r st b)"
  shows "quorum_voted H vals ms st r b"
proof -
  have "card (voters (cr_vote_store c) H r st b) \<le> card {p \<in> set vals. voted H ms p st r b}"
    using assms(1,2) by (intro card_mono voters_voted) (auto simp: node_ok_def)
  then show ?thesis using assms by (simp add: quorum_voted_def cr_quorum_def node_ok_def)
qed

lemma polka_voted:
  assumes "node_ok H vals ms c" "\<forall>v\<in>set ms. cv_validator_address v \<in> set vals"
    "has_polka (cr_vote_store c) H r b (cr_quorum c)"
  shows "quorum_voted H vals ms Step_Prevote r b"
  by (rule store_quorum_voted [OF assms(1,2)])
    (use assms in \<open>auto simp: has_polka_def node_ok_def prevote_count_voters split: if_splits\<close>)

lemma commit_quorum_voted:
  assumes "node_ok H vals ms c" "\<forall>v\<in>set ms. cv_validator_address v \<in> set vals"
    "has_commit_quorum (cr_vote_store c) H r b (cr_quorum c)"
  shows "quorum_voted H vals ms Step_Precommit r b"
  by (rule store_quorum_voted [OF assms(1,2)])
    (use assms in \<open>auto simp: has_commit_quorum_def node_ok_def precommit_count_voters
      split: if_splits\<close>)

section \<open>Preservation of the invariant\<close>

text \<open>A vote of another validator leaves what is known of \<open>p\<close> untouched.\<close>

lemma node_ok_mono: "node_ok H vals ms c \<Longrightarrow> set ms \<subseteq> set ms' \<Longrightarrow> node_ok H vals ms' c"
  by (auto simp: node_ok_def)

lemma honest_ok_other:
  assumes "honest_ok H vals ms p c" "cv_validator_address v \<noteq> p"
  shows "honest_ok H vals (v # ms) p c"
proof -
  have v: "voted H (v # ms) p st r b = voted H ms p st r b" for st r b
    using assms(2) by (simp add: voted_Cons)
  have "precommits_justified H vals (v # ms) p"
    using assms(1) quorum_voted_Cons
    by (auto simp: honest_ok_def precommits_justified_def v)
  moreover have "node_ok H vals (v # ms) c"
    using assms(1) by (auto simp: honest_ok_def intro: node_ok_mono)
  ultimately show ?thesis
    using assms(1) by (simp add: honest_ok_def votes_behind_def votes_unique_def
        lock_respected_def lock_current_def v)
qed

lemma honest_ok_advance:
  assumes "honest_ok H vals ms p c" "node_ok H vals ms c'"
    "cr_locked_block c' = cr_locked_block c"
    "cr_round c < cr_round c' \<or> cr_round c' = cr_round c \<and>
       (cr_phase c' = cr_phase c \<or> cr_phase c' = Phase_Decided)"
  shows "honest_ok H vals ms p c'"
proof -
  have "votes_behind H ms p c'"
    using assms(1,4) unfolding honest_ok_def votes_behind_def by fastforce
  then show ?thesis using assms(1-3) by (simp add: honest_ok_def lock_current_def)
qed

lemma honest_ok_prevote:
  assumes ok: "honest_ok H vals ms p c" and node: "node_ok H vals (v # ms) c'"
    and v: "v = own_vote p c' sig Step_Prevote b"
    and c': "cr_round c' = cr_round c" "cr_phase c = Phase_Propose" "cr_phase c' = Phase_Prevote"
      "cr_locked_block c' = cr_locked_block c"
    and b: "b = NIL_HASH \<or> cr_locked_block c = None \<or> cr_locked_block c = Some b"
  shows "honest_ok H vals (v # ms) p c'"
proof -
  have h: "cr_height c' = H" using node by (simp add: node_ok_def)
  have vd: "voted H (v # ms) p st r d \<longleftrightarrow>
      (st = Step_Prevote \<and> r = cr_round c \<and> d = b) \<or> voted H ms p st r d" for st r d
    by (auto simp: voted_Cons v own_vote_def h c')
  have fresh: "\<not> voted H ms p Step_Prevote (cr_round c) d" "voted H ms p Step_Precommit r d \<Longrightarrow> r < cr_round c" for r d
    using ok c' by (auto simp: honest_ok_def votes_behind_def)
  have "votes_behind H (v # ms) p c'" using ok c' by (auto simp: honest_ok_def votes_behind_def vd)
  moreover have "votes_unique H (v # ms) p"
    using ok fresh(1) unfolding honest_ok_def votes_unique_def vd by blast
  moreover have "precommits_justified H vals (v # ms) p"
    using ok quorum_voted_Cons
    by (auto simp: honest_ok_def precommits_justified_def vd)
  moreover have "lock_current H (v # ms) p c'"
    using ok c' by (simp add: honest_ok_def lock_current_def vd)
  moreover have "lock_respected H (v # ms) p"
    unfolding lock_respected_def vd
  proof (intro allI impI)
    fix r d r' d'
    assume pc: "Step_Precommit = Step_Prevote \<and> r = cr_round c \<and> d = b \<or> voted H ms p Step_Precommit r d"
      and dn: "d \<noteq> NIL_HASH" "d' \<noteq> NIL_HASH" and "r < r'"
      and pv: "Step_Prevote = Step_Prevote \<and> r' = cr_round c \<and> d' = b \<or> voted H ms p Step_Prevote r' d'"
    have "\<exists>r1\<ge>r. r1 < r' \<and> voted H ms p Step_Precommit r1 d'"
    proof (cases "voted H ms p Step_Prevote r' d'")
      case True
      then show ?thesis
        using ok pc dn \<open>r < r'\<close> unfolding honest_ok_def lock_respected_def by blast
    next
      case False
      then have eq: "r' = cr_round c" "d' = b" using pv by auto
      obtain l rl where "cr_locked_block c = Some l" "r \<le> rl" "voted H ms p Step_Precommit rl l"
        using ok pc dn unfolding honest_ok_def lock_current_def by blast
      then show ?thesis using b dn eq fresh(2) by auto
    qed
    then show "\<exists>r1\<ge>r. r1 < r' \<and>
        (Step_Precommit = Step_Prevote \<and> r1 = cr_round c \<and> d' = b \<or> voted H ms p Step_Precommit r1 d')"
      by blast
  qed
  ultimately show ?thesis using node by (simp add: honest_ok_def)
qed

lemma honest_ok_precommit:
  assumes ok: "honest_ok H vals ms p c" and node: "node_ok H vals (v # ms) c'"
    and v: "v = own_vote p c' sig Step_Precommit b"
    and c': "cr_round c' = cr_round c" "cr_phase c = Phase_Prevote" "cr_phase c' = Phase_Precommit"
    and b: "b = NIL_HASH \<and> cr_locked_block c' = cr_locked_block c
      \<or> cr_locked_block c' = Some b \<and> quorum_voted H vals ms Step_Prevote (cr_round c) b"
  shows "honest_ok H vals (v # ms) p c'"
proof -
  have h: "cr_height c' = H" using node by (simp add: node_ok_def)
  have vd: "voted H (v # ms) p st r d \<longleftrightarrow>
      (st = Step_Precommit \<and> r = cr_round c \<and> d = b) \<or> voted H ms p st r d" for st r d
    by (auto simp: voted_Cons v own_vote_def h c')
  have fresh: "voted H ms p Step_Precommit r d \<Longrightarrow> r < cr_round c"
    "voted H ms p Step_Prevote r d \<Longrightarrow> r \<le> cr_round c" for r d
    using ok c' by (auto simp: honest_ok_def votes_behind_def)
  have "votes_behind H (v # ms) p c'" using ok c' by (auto simp: honest_ok_def votes_behind_def vd)
  moreover have "votes_unique H (v # ms) p"
    using ok fresh(1) unfolding honest_ok_def votes_unique_def vd by blast
  moreover have "precommits_justified H vals (v # ms) p"
    using ok b quorum_voted_Cons
    by (auto simp: honest_ok_def precommits_justified_def vd)
  moreover have "lock_current H (v # ms) p c'"
    unfolding lock_current_def
  proof (intro allI impI)
    fix r d assume pc: "voted H (v # ms) p Step_Precommit r d" and "d \<noteq> NIL_HASH"
    show "\<exists>l rl. cr_locked_block c' = Some l \<and> r \<le> rl \<and> voted H (v # ms) p Step_Precommit rl l"
    proof (cases "cr_locked_block c' = Some b")
      case True
      moreover have "r \<le> cr_round c" using pc fresh(1) [of r d] by (auto simp: vd)
      ultimately show ?thesis unfolding vd by blast
    next
      case False
      then have pc': "voted H ms p Step_Precommit r d" and l': "cr_locked_block c' = cr_locked_block c"
        using pc b \<open>d \<noteq> NIL_HASH\<close> by (auto simp: vd)
      then show ?thesis using ok \<open>d \<noteq> NIL_HASH\<close> unfolding honest_ok_def lock_current_def vd l' by blast
    qed
  qed
  moreover have "lock_respected H (v # ms) p"
    using ok fresh(2) unfolding honest_ok_def lock_respected_def vd by fastforce
  ultimately show ?thesis using node by (simp add: honest_ok_def)
qed

lemma honest_ok_step:
  assumes step: "handle c e = Some (c', as)" and ok: "honest_ok H vals (sent s) p c"
    and dl: "deliverable s e" and addr: "\<forall>v\<in>set (sent s). cv_validator_address v \<in> set vals"
    and p: "p \<in> set vals"
  shows "honest_ok H vals (votes_of p c' sig as @ sent s) p c' \<and>
    (\<forall>(q, b, r)\<in>set (commits_of p as). quorum_voted H vals (sent s) Step_Precommit r b)"
proof -
  have node: "node_ok H vals (ws @ sent s) c'" for ws
    using handle_node_ok [OF step _ dl] ok by (simp add: honest_ok_def)
  then have node0: "node_ok H vals (sent s) c'" using node [of "[]"] by simp
  have h: "cr_height c = H" "cr_quorum c' = cr_quorum c"
    using ok handle_frame [OF step] by (simp_all add: honest_ok_def node_ok_def cr_quorum_def)
  from step show ?thesis
  proof (cases rule: handle_cases)
    case quiet
    then show ?thesis using honest_ok_advance [OF ok node0] by simp
  next
    case (prevote b)
    then show ?thesis using honest_ok_prevote [OF ok node [of "[own_vote p c' sig Step_Prevote b]", simplified]]
      by simp
  next
    case precommit_nil
    then show ?thesis
      using honest_ok_precommit [OF ok node [of "[own_vote p c' sig Step_Precommit NIL_HASH]", simplified]]
      by simp
  next
    case (precommit b)
    then have "quorum_voted H vals (sent s) Step_Prevote (cr_round c) b"
      using polka_voted [OF node0 addr] h by simp
    then show ?thesis
      using precommit honest_ok_precommit [OF ok node [of "[own_vote p c' sig Step_Precommit b]", simplified]]
      by simp
  next
    case (commit b)
    then have "quorum_voted H vals (sent s) Step_Precommit (cr_round c) b"
      using commit_quorum_voted [OF node0 addr] h by simp
    then show ?thesis using commit honest_ok_advance [OF ok node0] by simp
  next
    case next_round
    then show ?thesis using honest_ok_advance [OF ok node0] by simp
  qed
qed

lemma votes_of_addr: "v \<in> set (votes_of p c sig as) \<Longrightarrow> cv_validator_address v = p"
  by (induction p c sig as rule: votes_of.induct) (auto simp: own_vote_def)

lemma honest_ok_others:
  assumes "honest_ok H vals ms p c" "\<forall>v\<in>set ws. cv_validator_address v \<noteq> p"
  shows "honest_ok H vals (ws @ ms) p c"
  using assms by (induction ws) (auto intro: honest_ok_other)

lemma voted_Nil [simp]: "\<not> voted H [] p st r b"
  by (simp add: voted_def)

lemma net_inv_start: "net_inv H vals byz (net_start H vals)"
  by (simp add: net_inv_def net_start_def honest_ok_def honest_defs cr_new_def)
    (simp add: vs_new_def)

lemma net_inv_byzantine:
  assumes "net_inv H vals byz s" "cv_validator_address v \<in> set vals" "cv_validator_address v \<in> set byz"
  shows "net_inv H vals byz (s\<lparr> sent := v # sent s \<rparr>)"
proof -
  have "honest_ok H vals (v # sent s) p (nodes s p)" if "p \<in> set vals" "p \<notin> set byz" for p
    using assms that honest_ok_other [of H vals "sent s" p "nodes s p" v] by (auto simp: net_inv_def)
  moreover have "\<forall>(p, b, r)\<in>set (commits s). quorum_voted H vals (v # sent s) Step_Precommit r b"
    using assms(1) quorum_voted_Cons by (fastforce simp: net_inv_def)
  ultimately show ?thesis using assms by (simp add: net_inv_def)
qed

lemma net_inv_honest:
  assumes inv: "net_inv H vals byz s" and p: "p \<in> set vals" "p \<notin> set byz"
    and dl: "deliverable s e" and step: "handle (nodes s p) e = Some (c, as)"
  shows "net_inv H vals byz \<lparr> nodes = (nodes s)(p := c), sent = votes_of p c sig as @ sent s,
                              commits = commits_of p as @ commits s \<rparr>"
proof -
  let ?ms = "votes_of p c sig as @ sent s"
  have addr: "\<forall>v\<in>set (sent s). cv_validator_address v \<in> set vals" using inv by (simp add: net_inv_def)
  have own: "honest_ok H vals ?ms p c"
    and new: "\<forall>(q, b, r)\<in>set (commits_of p as). quorum_voted H vals (sent s) Step_Precommit r b"
    using honest_ok_step [OF step _ dl addr p(1)] inv p by (auto simp: net_inv_def)
  have others: "honest_ok H vals ?ms q (nodes s q)" if "q \<in> set vals" "q \<notin> set byz" "q \<noteq> p" for q
    using inv that by (intro honest_ok_others) (auto simp: net_inv_def dest: votes_of_addr)
  have "\<forall>(q, b, r)\<in>set (commits_of p as @ commits s). quorum_voted H vals (sent s) Step_Precommit r b"
    using inv new by (auto simp: net_inv_def)
  then have "\<forall>(q, b, r)\<in>set (commits_of p as @ commits s). quorum_voted H vals ?ms Step_Precommit r b"
    using quorum_voted_mono [of H vals "sent s" Step_Precommit _ _ ?ms] by fastforce
  then show ?thesis using own others addr p by (auto simp: net_inv_def dest: votes_of_addr)
qed

lemma net_inv_step: "net_inv H vals byz s \<Longrightarrow> net_step vals byz s t \<Longrightarrow> net_inv H vals byz t"
proof -
  assume inv: "net_inv H vals byz s" and "net_step vals byz s t"
  then obtain e where e: "net_exec vals byz s e = Some t" by (auto simp: net_step_def)
  then show ?thesis
    using inv net_inv_honest net_inv_byzantine
    by (cases e) (auto split: if_splits option.splits)
qed

lemma net_inv_reach: "net_reach H vals byz s \<Longrightarrow> net_inv H vals byz s"
  by (erule reach_invariant) (auto intro: net_inv_start net_inv_step)

lemma net_run_reach: "net_reach H vals byz s \<Longrightarrow> net_run vals byz s es = Some t \<Longrightarrow> net_reach H vals byz t"
proof (induction es arbitrary: s)
  case (Cons e es)
  from Cons.prems(2) obtain u where u: "net_exec vals byz s e = Some u" "net_run vals byz u es = Some t"
    by (auto split: option.splits)
  have "net_reach H vals byz u"
    by (rule reach_step [OF Cons.prems(1)]) (use u(1) in \<open>auto simp: net_step_def\<close>)
  then show ?case using Cons.IH u(2) by blast
qed simp

section \<open>Decided validators\<close>

text \<open>A validator that committed stays decided and keeps the quorum in its store.\<close>

definition commit_kept :: "nat \<Rightarrow> network \<Rightarrow> bool" where
"commit_kept H s =
   (\<forall>(p, b, r)\<in>set (commits s). cr_phase (nodes s p) = Phase_Decided \<and> r \<le> cr_round (nodes s p)
      \<and> has_commit_quorum (cr_vote_store (nodes s p)) H r b (cr_quorum (nodes s p)))"

lemma handle_decided:
  assumes "handle c e = Some (c', as)" "cr_phase c = Phase_Decided"
  shows "as = [] \<and> cr_phase c' = Phase_Decided \<and> cr_round c' = cr_round c"
  using assms(1)
  by (cases rule: handle_cases) (use assms in \<open>cases e; auto simp: on_precommit_def Let_def
      on_precommit_timeout_def on_proposal_received_def on_propose_timeout_def on_prevote_def
      on_prevote_timeout_def\<close>)+

lemma handle_keeps_quorum:
  assumes "handle c e = Some (c', as)" "vs_inv (cr_vote_store c)"
    "has_commit_quorum (cr_vote_store c) h r b q"
  shows "has_commit_quorum (cr_vote_store c') h r b q"
  using handle_store [OF assms(1)] assms(2,3) commit_quorum_record by auto

lemma handle_new_commit:
  assumes "handle c e = Some (c', as)" "(q, b, r) \<in> set (commits_of p as)"
  shows "q = p \<and> r = cr_round c' \<and> cr_phase c' = Phase_Decided
    \<and> has_commit_quorum (cr_vote_store c') (cr_height c) r b (cr_quorum c)"
  using assms(1) by (cases rule: handle_cases) (use assms(2) in auto)

lemma commit_kept_honest:
  assumes inv: "net_inv H vals byz s" and kept: "commit_kept H s"
    and hon: "\<forall>(p, b, r)\<in>set (commits s). p \<in> set vals \<and> p \<notin> set byz"
    and p: "p \<in> set vals" "p \<notin> set byz" and step: "handle (nodes s p) e = Some (c, as)"
  shows "commit_kept H \<lparr> nodes = (nodes s)(p := c), sent = ms, commits = commits_of p as @ commits s \<rparr>"
proof -
  have node: "cr_height (nodes s p) = H" "vs_inv (cr_vote_store (nodes s p))"
    "cr_quorum c = cr_quorum (nodes s p)"
    using inv p handle_frame [OF step]
    by (auto simp: net_inv_def honest_ok_def node_ok_def cr_quorum_def)
  have old: "cr_phase c = Phase_Decided \<and> r \<le> cr_round c
      \<and> has_commit_quorum (cr_vote_store c) H r b (cr_quorum c)" if "(p, b, r) \<in> set (commits s)" for b r
    using that kept handle_decided [OF step] handle_keeps_quorum [OF step node(2)] node(3)
    by (fastforce simp: commit_kept_def)
  have new: "q = p \<and> r = cr_round c \<and> cr_phase c = Phase_Decided
      \<and> has_commit_quorum (cr_vote_store c) H r b (cr_quorum c)" if "(q, b, r) \<in> set (commits_of p as)" for q b r
    using handle_new_commit [OF step that] node by auto
  show ?thesis
    unfolding commit_kept_def
  proof (intro ballI, clarify)
    fix q b r
    assume "(q, b, r) \<in> set (commits \<lparr> nodes = (nodes s)(p := c), sent = ms,
                                       commits = commits_of p as @ commits s \<rparr>)"
    then have "(q, b, r) \<in> set (commits_of p as) \<or> (q, b, r) \<in> set (commits s)" by simp
    then have "cr_phase (((nodes s)(p := c)) q) = Phase_Decided \<and> r \<le> cr_round (((nodes s)(p := c)) q)
      \<and> has_commit_quorum (cr_vote_store (((nodes s)(p := c)) q)) H r b (cr_quorum (((nodes s)(p := c)) q))"
      using old [of b r] new [of q b r] kept by (cases "q = p") (auto simp: commit_kept_def)
    then show "cr_phase (nodes \<lparr> nodes = (nodes s)(p := c), sent = ms,
                                 commits = commits_of p as @ commits s \<rparr> q) = Phase_Decided
      \<and> r \<le> cr_round (nodes \<lparr> nodes = (nodes s)(p := c), sent = ms,
                                 commits = commits_of p as @ commits s \<rparr> q)
      \<and> has_commit_quorum (cr_vote_store (nodes \<lparr> nodes = (nodes s)(p := c), sent = ms,
                                 commits = commits_of p as @ commits s \<rparr> q)) H r b
          (cr_quorum (nodes \<lparr> nodes = (nodes s)(p := c), sent = ms,
                                 commits = commits_of p as @ commits s \<rparr> q))"
      by simp
  qed
qed

lemma commits_honest_step:
  assumes "net_exec vals byz s e = Some t"
    "\<forall>(p, b, r)\<in>set (commits s). p \<in> set vals \<and> p \<notin> set byz"
  shows "\<forall>(p, b, r)\<in>set (commits t). p \<in> set vals \<and> p \<notin> set byz"
proof (cases e)
  case (Honest p ev sig)
  have "q = p" if "(q, b, r) \<in> set (commits_of p as)" for q b r as
    using that by (induction p as rule: commits_of.induct) auto
  then show ?thesis using assms Honest by (fastforce split: if_splits option.splits)
next
  case (Byzantine v)
  then show ?thesis using assms by (auto split: if_splits)
qed

lemma decided_inv_reach:
  assumes "net_reach H vals byz s"
  shows "net_inv H vals byz s \<and> commit_kept H s
    \<and> (\<forall>(p, b, r)\<in>set (commits s). p \<in> set vals \<and> p \<notin> set byz)"
  using assms
proof (rule reach_invariant)
  fix s assume "s = net_start H vals"
  then show "net_inv H vals byz s \<and> commit_kept H s
    \<and> (\<forall>(p, b, r)\<in>set (commits s). p \<in> set vals \<and> p \<notin> set byz)"
    by (simp add: net_inv_start commit_kept_def) (simp add: net_start_def)
next
  fix s t
  assume IH: "net_inv H vals byz s \<and> commit_kept H s
      \<and> (\<forall>(p, b, r)\<in>set (commits s). p \<in> set vals \<and> p \<notin> set byz)"
    and st: "net_step vals byz s t"
  then obtain e where e: "net_exec vals byz s e = Some t" by (auto simp: net_step_def)
  have "commit_kept H t"
  proof (cases e)
    case (Honest p ev sig)
    then show ?thesis using e IH commit_kept_honest
      by (auto split: if_splits option.splits)
  next
    case (Byzantine v)
    then show ?thesis using e IH by (auto simp: commit_kept_def split: if_splits)
  qed
  then show "net_inv H vals byz t \<and> commit_kept H t
      \<and> (\<forall>(p, b, r)\<in>set (commits t). p \<in> set vals \<and> p \<notin> set byz)"
    using IH net_inv_step [OF _ st] commits_honest_step [OF e] by blast
qed

section \<open>Agreement\<close>

text \<open>
  C1: agreement.  In every reachable state of a network with fewer than a third of
  faulty validators, any two commits of honest validators at one height, in whichever
  rounds they happen, are for the same block.
\<close>

theorem bft_agreement:
  assumes "distinct vals" "set byz \<subseteq> set vals" "3 * card (set byz) < length vals"
    and "net_reach H vals byz s"
    and "(p, b, r) \<in> set (commits s)" "(q, b', r') \<in> set (commits s)"
  shows "b = b'"
proof -
  have inv: "net_inv H vals byz s" using net_inv_reach assms(4) .
  have ok: "votes_unique H (sent s) p \<and> precommits_justified H vals (sent s) p \<and> lock_respected H (sent s) p"
    if "p \<in> set vals" "p \<notin> set byz" for p
    using inv that by (simp add: net_inv_def honest_ok_def)
  have "quorum_voted H vals (sent s) Step_Precommit r b"
    "quorum_voted H vals (sent s) Step_Precommit r' b'"
    using inv assms(5,6) by (auto simp: net_inv_def)
  then show ?thesis using commit_quorums_agree [OF assms(1-3), of H "sent s"] ok by blast
qed

text \<open>
  A run with four validators, one of which votes for another block in both steps: the
  first two validators commit.
\<close>

definition addr_of :: "byte \<Rightarrow> bytes" where
"addr_of k = replicate 32 k"

definition run_vals :: "address list" where
"run_vals = [addr_of 1, addr_of 2, addr_of 3, addr_of 4]"

definition run_vote :: "vote_step \<Rightarrow> byte \<Rightarrow> byte \<Rightarrow> consensus_vote" where
"run_vote st p b = \<lparr> cv_height = 7, cv_round = 0, cv_step = st, cv_block_hash = addr_of b,
                     cv_validator_address = addr_of p, cv_signature = [] \<rparr>"

definition run_schedule :: "net_event list" where
"run_schedule =
   map (\<lambda>p. Honest (addr_of p) (Ev_Proposal (addr_of 9)) []) [1, 2, 3]
   @ [Byzantine (run_vote Step_Prevote 4 8), Byzantine (run_vote Step_Precommit 4 8)]
   @ map (\<lambda>(p, q). Honest (addr_of p) (Ev_Prevote (run_vote Step_Prevote q 9)) [])
       [(1, 1), (1, 2), (1, 3), (2, 1), (2, 2), (2, 3), (3, 1), (3, 2), (3, 3)]
   @ map (\<lambda>(p, q). Honest (addr_of p) (Ev_Precommit (run_vote Step_Precommit q 9)) [])
       [(1, 1), (1, 2), (1, 3), (2, 1), (2, 2), (2, 3)]"

lemma run_commits:
  "map_option commits (net_run run_vals [addr_of 4] (net_start 7 run_vals) run_schedule)
   = Some [(addr_of 2, addr_of 9, 0), (addr_of 1, addr_of 9, 0)]"
  by code_simp

theorem bft_agreement_witness:
  "\<exists>s. net_run run_vals [addr_of 4] (net_start 7 run_vals) run_schedule = Some s
       \<and> commits s = [(addr_of 2, addr_of 9, 0), (addr_of 1, addr_of 9, 0)]
       \<and> fst (snd (commits s ! 0)) = fst (snd (commits s ! 1))"
proof -
  obtain s where run: "net_run run_vals [addr_of 4] (net_start 7 run_vals) run_schedule = Some s"
    and com: "commits s = [(addr_of 2, addr_of 9, 0), (addr_of 1, addr_of 9, 0)]"
    using run_commits by auto
  have "net_reach 7 run_vals [addr_of 4] s"
    by (rule net_run_reach [OF _ run]) (simp add: reach_start)
  moreover have "distinct run_vals" "set [addr_of 4] \<subseteq> set run_vals"
    "3 * card (set [addr_of 4]) < length run_vals"
    by (simp_all add: run_vals_def addr_of_def)
  ultimately have "fst (snd (commits s ! 0)) = fst (snd (commits s ! 1))"
    using bft_agreement [of run_vals "[addr_of 4]" 7 s "addr_of 2" "addr_of 9" 0 "addr_of 1" "addr_of 9" 0]
    by (simp add: com)
  then show ?thesis using run com by blast
qed

text \<open>
  the committed hash is the one reported.  In every reachable state a validator that
  committed a block is decided, and \<open>committed_block_hash\<close> returns exactly that block,
  whichever other precommits its vote store holds.
\<close>

theorem committed_hash_reported:
  assumes cfg: "distinct vals" "set byz \<subseteq> set vals" "3 * card (set byz) < length vals"
    and reach: "net_reach H vals byz s" and com: "(p, b, r) \<in> set (commits s)"
  shows "is_decided (nodes s p) \<and> committed_block_hash (nodes s p) = Some b"
proof -
  let ?c = "nodes s p"
  have inv: "net_inv H vals byz s" and hon: "p \<in> set vals" "p \<notin> set byz"
    and kept: "cr_phase ?c = Phase_Decided" "r \<le> cr_round ?c"
      "has_commit_quorum (cr_vote_store ?c) H r b (cr_quorum ?c)"
    using decided_inv_reach [OF reach] com by (auto simp: commit_kept_def)
  then have node: "node_ok H vals (sent s) ?c" and height: "cr_height ?c = H"
    and addr: "\<forall>v\<in>set (sent s). cv_validator_address v \<in> set vals"
    by (auto simp: net_inv_def honest_ok_def node_ok_def)
  have "first_committed ?c [0..<Suc (cr_round ?c)] \<noteq> None"
    by (rule first_committed_exists [OF _ committed_in_round_exists [of _ r b]])
      (use kept height in auto)
  then obtain b' where b': "first_committed ?c [0..<Suc (cr_round ?c)] = Some b'" by blast
  then obtain r' where "has_commit_quorum (cr_vote_store ?c) H r' b' (cr_quorum ?c)"
    using first_committed_quorum height by blast
  then have q: "quorum_voted H vals (sent s) Step_Precommit r' b'"
    "quorum_voted H vals (sent s) Step_Precommit r b"
    using commit_quorum_voted [OF node addr] kept(3) by blast+
  have "votes_unique H (sent s) q \<and> precommits_justified H vals (sent s) q \<and> lock_respected H (sent s) q"
    if "q \<in> set vals" "q \<notin> set byz" for q
    using inv that by (simp add: net_inv_def honest_ok_def)
  then have "b' = b" using commit_quorums_agree [OF cfg, of H "sent s"] q by blast
  then show ?thesis using b' kept(1)
    by (simp add: committed_block_hash_def is_decided_def del: upt_Suc)
qed

theorem committed_hash_reported_witness:
  "\<exists>s. net_run run_vals [addr_of 4] (net_start 7 run_vals) run_schedule = Some s
       \<and> is_decided (nodes s (addr_of 1))
       \<and> committed_block_hash (nodes s (addr_of 1)) = Some (addr_of 9)"
proof -
  obtain s where run: "net_run run_vals [addr_of 4] (net_start 7 run_vals) run_schedule = Some s"
    and com: "commits s = [(addr_of 2, addr_of 9, 0), (addr_of 1, addr_of 9, 0)]"
    using run_commits by auto
  have "net_reach 7 run_vals [addr_of 4] s"
    by (rule net_run_reach [OF _ run]) (simp add: reach_start)
  then show ?thesis
    using run committed_hash_reported [of run_vals "[addr_of 4]" 7 s "addr_of 1" "addr_of 9" 0]
    by (auto simp: com run_vals_def addr_of_def)
qed

end
