(* ===== verification/Types.thy ===== *)
theory Types
  imports Crypto_Hash
begin

text \<open>
  Data types of \<open>pqc-crypto\<close> (\<open>alg.rs\<close>, \<open>registry.rs\<close>, \<open>hash_registry.rs\<close>, \<open>envelope.rs\<close>)
  and \<open>pqc-types\<close> (\<open>keyset.rs\<close>, \<open>account.rs\<close>, \<open>transaction.rs\<close>): algorithm identifiers and
  their registry, key sets with the lookup procedure, accounts with their invariants, and
  the transaction envelope.  Permission masks are 32-bit words; the other unsigned
  integers are natural numbers with the width kept by the decoders.
\<close>

unbundle bit_operations_syntax

section \<open>Algorithms\<close>

datatype alg_id =
    MlDsa44 | MlDsa65 | MlDsa87 | FnDsaPadded512 | SlhDsaSha2128s
  | SlhDsaShake192s | SlhDsaShake256s | SlhDsaShake128s | MlKem768

fun alg_as_u16 :: "alg_id \<Rightarrow> nat" where
"alg_as_u16 MlDsa44 = 1" |
"alg_as_u16 MlDsa65 = 2" |
"alg_as_u16 MlDsa87 = 3" |
"alg_as_u16 FnDsaPadded512 = 16" |
"alg_as_u16 SlhDsaSha2128s = 32" |
"alg_as_u16 SlhDsaShake192s = 33" |
"alg_as_u16 SlhDsaShake256s = 34" |
"alg_as_u16 SlhDsaShake128s = 35" |
"alg_as_u16 MlKem768 = 256"

definition alg_from_u16 :: "nat \<Rightarrow> alg_id option" where
"alg_from_u16 v =
   (if v = 1 then Some MlDsa44
    else if v = 2 then Some MlDsa65
    else if v = 3 then Some MlDsa87
    else if v = 16 then Some FnDsaPadded512
    else if v = 32 then Some SlhDsaSha2128s
    else if v = 33 then Some SlhDsaShake192s
    else if v = 34 then Some SlhDsaShake256s
    else if v = 35 then Some SlhDsaShake128s
    else if v = 256 then Some MlKem768
    else None)"

fun allowed_for_consensus :: "alg_id \<Rightarrow> bool" where
"allowed_for_consensus MlDsa65 = True" |
"allowed_for_consensus MlDsa87 = True" |
"allowed_for_consensus SlhDsaShake192s = True" |
"allowed_for_consensus _ = False"

fun allowed_for_archival :: "alg_id \<Rightarrow> bool" where
"allowed_for_archival SlhDsaShake192s = True" |
"allowed_for_archival SlhDsaShake256s = True" |
"allowed_for_archival _ = False"

datatype lifecycle = LC_Active | LC_Discouraged | LC_Deprecated | LC_Banned

fun admits_transactions :: "lifecycle \<Rightarrow> bool" where
"admits_transactions LC_Active = True" |
"admits_transactions LC_Discouraged = True" |
"admits_transactions _ = False"

datatype sig_class = SC_Reduced | SC_Standard | SC_Premium

record alg_entry =
  ae_alg_id :: alg_id
  ae_spec_ref :: string
  ae_pk_size :: nat
  ae_sig_size :: nat
  ae_sig_class :: "sig_class option"
  ae_min_fee :: nat
  ae_lifecycle :: lifecycle
  ae_benchmark_verify_per_sec :: nat

definition alg_entry_row :: "alg_id \<Rightarrow> string \<Rightarrow> nat \<Rightarrow> nat \<Rightarrow> sig_class option \<Rightarrow> nat \<Rightarrow> alg_entry" where
"alg_entry_row a spec pk sig cls bench =
   \<lparr> ae_alg_id = a, ae_spec_ref = spec, ae_pk_size = pk, ae_sig_size = sig, ae_sig_class = cls,
     ae_min_fee = 0, ae_lifecycle = LC_Active, ae_benchmark_verify_per_sec = bench \<rparr>"

definition phase1_registry :: "alg_entry list" where
"phase1_registry =
   [alg_entry_row MlDsa44 ''FIPS 204'' 1312 2420 (Some SC_Standard) 89000,
    alg_entry_row MlDsa65 ''FIPS 204'' 1952 3309 (Some SC_Standard) 55000,
    alg_entry_row MlDsa87 ''FIPS 204'' 2592 4627 (Some SC_Standard) 37000,
    alg_entry_row FnDsaPadded512 ''FIPS 206 (draft)'' 897 666 (Some SC_Reduced) 62000,
    alg_entry_row SlhDsaSha2128s ''FIPS 205'' 32 7856 (Some SC_Premium) 951,
    alg_entry_row SlhDsaShake128s ''FIPS 205'' 32 7856 (Some SC_Premium) 951,
    alg_entry_row SlhDsaShake192s ''FIPS 205'' 48 16224 (Some SC_Premium) 312,
    alg_entry_row SlhDsaShake256s ''FIPS 205'' 64 29792 (Some SC_Premium) 132,
    alg_entry_row MlKem768 ''FIPS 203'' 1184 0 None 0]"

definition new_governance_alg ::
    "alg_id \<Rightarrow> string \<Rightarrow> nat \<Rightarrow> nat \<Rightarrow> sig_class option \<Rightarrow> nat \<Rightarrow> lifecycle \<Rightarrow> nat \<Rightarrow> alg_entry" where
"new_governance_alg a spec pk sig cls fee lc bench =
   \<lparr> ae_alg_id = a, ae_spec_ref = spec, ae_pk_size = pk, ae_sig_size = sig, ae_sig_class = cls,
     ae_min_fee = fee, ae_lifecycle = lc, ae_benchmark_verify_per_sec = bench \<rparr>"

section \<open>Hash functions\<close>

definition HASH_ID_SENTINEL :: nat where
"HASH_ID_SENTINEL = 0"

definition HASH_ID_SHAKE_256 :: nat where
"HASH_ID_SHAKE_256 = 1"

definition HASH_CORE_RESERVED_MAX :: nat where
"HASH_CORE_RESERVED_MAX = 15"

definition hash_id_from_u8 :: "nat \<Rightarrow> nat option" where
"hash_id_from_u8 raw = (if raw = HASH_ID_SENTINEL then None else Some raw)"

record hash_entry =
  he_hash_id :: nat
  he_spec_ref :: string
  he_output_size_bytes :: nat
  he_lifecycle :: lifecycle

definition phase1_hash_registry :: "hash_entry list" where
"phase1_hash_registry =
   [\<lparr> he_hash_id = HASH_ID_SHAKE_256, he_spec_ref = ''FIPS 202 (SHAKE-256)'',
      he_output_size_bytes = 32, he_lifecycle = LC_Active \<rparr>]"

section \<open>Signature envelopes\<close>

definition le_bytes_u16 :: "nat \<Rightarrow> bytes" where
"le_bytes_u16 x = [word_of_nat (x mod 256), word_of_nat (x div 256)]"

definition from_le_bytes_u16 :: "byte \<Rightarrow> byte \<Rightarrow> nat" where
"from_le_bytes_u16 lo hi = unat lo + 256 * unat hi"

definition ENVELOPE_VERSION :: byte where
"ENVELOPE_VERSION = 1"

datatype crypto_error =
    CE_UnknownAlgId nat
  | NotASigningAlgorithm alg_id
  | CE_AlgorithmBanned alg_id
  | PublicKeyLengthMismatch alg_id nat nat
  | SignatureLengthMismatch alg_id nat nat
  | VerificationFailed
  | InvalidKeySize
  | InvalidSignatureSize
  | Backend string
  | KemInvalidKey
  | Bech32mEncodingError string

definition encode_envelope :: "alg_id \<Rightarrow> bytes \<Rightarrow> (bytes, crypto_error) result" where
"encode_envelope a payload =
   (if length payload > U16_MAX then Err InvalidSignatureSize
    else Ok (ENVELOPE_VERSION # le_bytes_u16 (alg_as_u16 a) @ le_bytes_u16 (length payload) @ payload))"

definition decode_envelope :: "bytes \<Rightarrow> (alg_id \<times> bytes, crypto_error) result" where
"decode_envelope bs =
   (case bs of
      version # a0 # a1 # l0 # l1 # rest \<Rightarrow>
        if version \<noteq> ENVELOPE_VERSION then Err InvalidSignatureSize
        else let algo_id_raw = from_le_bytes_u16 a0 a1; payload_len = from_le_bytes_u16 l0 l1 in
          if length bs \<noteq> 5 + payload_len then Err InvalidSignatureSize
          else (case alg_from_u16 algo_id_raw of
                  None \<Rightarrow> Err InvalidSignatureSize
                | Some a \<Rightarrow> Ok (a, rest))
    | _ \<Rightarrow> Err InvalidSignatureSize)"

section \<open>Keys and accounts\<close>

datatype key_status = KS_Pending | KS_Active | KS_Revoked

definition ATX_VAULT :: "32 word" where
"ATX_VAULT = 1"

definition ATX_ATTESTATION :: "32 word" where
"ATX_ATTESTATION = 2"

definition ATX_KEY_MGMT :: "32 word" where
"ATX_KEY_MGMT = 4"

definition ATX_GOVERNANCE :: "32 word" where
"ATX_GOVERNANCE = 8"

definition ATX_ALL :: "32 word" where
"ATX_ALL = ATX_VAULT OR ATX_ATTESTATION OR ATX_KEY_MGMT OR ATX_GOVERNANCE"

definition ATX_SLH_DSA_ONLY :: "32 word" where
"ATX_SLH_DSA_ONLY = ATX_KEY_MGMT"

record key_entry =
  ke_alg_id :: alg_id
  ke_pk_bytes :: bytes
  ke_key_version :: nat
  ke_valid_from_height :: nat
  ke_status :: key_status
  ke_allowed_tx_types :: "32 word"

definition can_sign :: "key_entry \<Rightarrow> 32 word \<Rightarrow> nat \<Rightarrow> bool" where
"can_sign k tx_type_bit current_height =
   (ke_status k = KS_Active \<and> current_height \<ge> ke_valid_from_height k
    \<and> (ke_allowed_tx_types k AND tx_type_bit) \<noteq> 0)"

datatype key_lookup_error =
    KeyNotFound | AlgMismatch | KeyRevoked | KeyNotYetActive nat | PermissionDenied

definition key_lookup ::
    "key_entry list \<Rightarrow> alg_id \<Rightarrow> nat \<Rightarrow> 32 word \<Rightarrow> nat \<Rightarrow> (key_entry, key_lookup_error) result" where
"key_lookup ks alg key_version tx_type_bit current_height =
   (case find (\<lambda>k. ke_key_version k = key_version) ks of
      None \<Rightarrow> Err KeyNotFound
    | Some e \<Rightarrow>
        if ke_alg_id e \<noteq> alg then Err AlgMismatch
        else if ke_status e = KS_Revoked then Err KeyRevoked
        else if current_height < ke_valid_from_height e
        then Err (KeyNotYetActive (ke_valid_from_height e))
        else if ke_status e \<noteq> KS_Active then Err (KeyNotYetActive (ke_valid_from_height e))
        else if (ke_allowed_tx_types e AND tx_type_bit) = 0 then Err PermissionDenied
        else Ok e)"

definition has_active_key :: "key_entry list \<Rightarrow> bool" where
"has_active_key ks = list_ex (\<lambda>k. ke_status k = KS_Active) ks"

fun duplicate_from :: "nat list \<Rightarrow> key_entry list \<Rightarrow> bool" where
"duplicate_from seen [] = False" |
"duplicate_from seen (k # ks) =
   (if ke_key_version k \<in> set seen then True else duplicate_from (ke_key_version k # seen) ks)"

definition has_duplicate_versions :: "key_entry list \<Rightarrow> bool" where
"has_duplicate_versions ks = duplicate_from [] ks"

definition VERIFIER_TEMPLATE_ID_EOA :: nat where
"VERIFIER_TEMPLATE_ID_EOA = 1"

definition VERIFIER_TEMPLATE_CORE_RESERVED_MAX :: nat where
"VERIFIER_TEMPLATE_CORE_RESERVED_MAX = 15"

definition VERIFIER_TEMPLATE_GOV_MIN :: nat where
"VERIFIER_TEMPLATE_GOV_MIN = 16"

record account =
  ac_address :: address
  ac_balance :: nat
  ac_nonce :: nat
  ac_keys :: "key_entry list"
  ac_policy_version :: nat
  ac_policy_hash :: "hash32 option"
  ac_verifier_template_id :: nat
  ac_auth_data :: bytes

definition check_invariants :: "account \<Rightarrow> (unit, string) result" where
"check_invariants a =
   (if \<not> has_active_key (ac_keys a) then Err ''I-1: account has no active key''
    else if has_duplicate_versions (ac_keys a)
    then Err ''I-2: duplicate key_version values in KeySet''
    else if ac_verifier_template_id a = VERIFIER_TEMPLATE_ID_EOA \<and> ac_auth_data a \<noteq> []
    then Err ''I-3: EOA verifier template requires empty auth_data''
    else Ok ())"

section \<open>Transactions\<close>

datatype msg_type =
    VaultCreate | VaultPolicyUpdate | TokenTransfer
  | AttestationCreate | AttestationRevoke | ProofAnchor
  | KeyAdd | KeyRotate | KeyRevoke | ConsensusKeyRotate
  | GovernanceProposal | GovernanceVote
  | ValidatorRegister | ValidatorExit | ValidatorUnjail
  | SubmitEquivocationEvidence | ValidatorRotatePeerId | ValidatorRegisterArchivalKey
  | ArchivalRecordSubmit | ArchivalRecordAddAnchor | ArchivalRecordRenew

fun msg_type_as_u16 :: "msg_type \<Rightarrow> nat" where
"msg_type_as_u16 VaultCreate = 1" |
"msg_type_as_u16 VaultPolicyUpdate = 2" |
"msg_type_as_u16 TokenTransfer = 3" |
"msg_type_as_u16 AttestationCreate = 256" |
"msg_type_as_u16 AttestationRevoke = 257" |
"msg_type_as_u16 ProofAnchor = 258" |
"msg_type_as_u16 KeyAdd = 512" |
"msg_type_as_u16 KeyRotate = 513" |
"msg_type_as_u16 KeyRevoke = 514" |
"msg_type_as_u16 ConsensusKeyRotate = 515" |
"msg_type_as_u16 GovernanceProposal = 768" |
"msg_type_as_u16 GovernanceVote = 769" |
"msg_type_as_u16 ValidatorRegister = 1024" |
"msg_type_as_u16 ValidatorExit = 1025" |
"msg_type_as_u16 ValidatorUnjail = 1026" |
"msg_type_as_u16 SubmitEquivocationEvidence = 1027" |
"msg_type_as_u16 ValidatorRotatePeerId = 1028" |
"msg_type_as_u16 ValidatorRegisterArchivalKey = 1029" |
"msg_type_as_u16 ArchivalRecordSubmit = 1792" |
"msg_type_as_u16 ArchivalRecordAddAnchor = 1793" |
"msg_type_as_u16 ArchivalRecordRenew = 1794"

definition msg_type_from_u16 :: "nat \<Rightarrow> msg_type option" where
"msg_type_from_u16 v =
   (if v = 1 then Some VaultCreate
    else if v = 2 then Some VaultPolicyUpdate
    else if v = 3 then Some TokenTransfer
    else if v = 256 then Some AttestationCreate
    else if v = 257 then Some AttestationRevoke
    else if v = 258 then Some ProofAnchor
    else if v = 512 then Some KeyAdd
    else if v = 513 then Some KeyRotate
    else if v = 514 then Some KeyRevoke
    else if v = 515 then Some ConsensusKeyRotate
    else if v = 768 then Some GovernanceProposal
    else if v = 769 then Some GovernanceVote
    else if v = 1024 then Some ValidatorRegister
    else if v = 1025 then Some ValidatorExit
    else if v = 1026 then Some ValidatorUnjail
    else if v = 1027 then Some SubmitEquivocationEvidence
    else if v = 1028 then Some ValidatorRotatePeerId
    else if v = 1029 then Some ValidatorRegisterArchivalKey
    else if v = 1792 then Some ArchivalRecordSubmit
    else if v = 1793 then Some ArchivalRecordAddAnchor
    else if v = 1794 then Some ArchivalRecordRenew
    else None)"

fun required_permission_bit :: "msg_type \<Rightarrow> 32 word" where
"required_permission_bit VaultCreate = ATX_VAULT" |
"required_permission_bit VaultPolicyUpdate = ATX_VAULT" |
"required_permission_bit TokenTransfer = ATX_VAULT" |
"required_permission_bit AttestationCreate = ATX_ATTESTATION" |
"required_permission_bit AttestationRevoke = ATX_ATTESTATION" |
"required_permission_bit ProofAnchor = ATX_ATTESTATION" |
"required_permission_bit KeyAdd = ATX_KEY_MGMT" |
"required_permission_bit KeyRotate = ATX_KEY_MGMT" |
"required_permission_bit KeyRevoke = ATX_KEY_MGMT" |
"required_permission_bit ConsensusKeyRotate = ATX_KEY_MGMT" |
"required_permission_bit GovernanceProposal = ATX_GOVERNANCE" |
"required_permission_bit GovernanceVote = ATX_GOVERNANCE" |
"required_permission_bit ValidatorRegister = ATX_GOVERNANCE" |
"required_permission_bit ValidatorExit = ATX_GOVERNANCE" |
"required_permission_bit ValidatorUnjail = ATX_GOVERNANCE" |
"required_permission_bit SubmitEquivocationEvidence = ATX_GOVERNANCE" |
"required_permission_bit ValidatorRotatePeerId = ATX_GOVERNANCE" |
"required_permission_bit ValidatorRegisterArchivalKey = ATX_GOVERNANCE" |
"required_permission_bit ArchivalRecordSubmit = ATX_GOVERNANCE" |
"required_permission_bit ArchivalRecordAddAnchor = ATX_GOVERNANCE" |
"required_permission_bit ArchivalRecordRenew = ATX_GOVERNANCE"

record transaction =
  tx_version :: nat
  tx_chain_id :: bytes
  tx_msg_type :: msg_type
  tx_sender :: address
  tx_nonce :: nat
  tx_fee :: nat
  tx_fee_tip :: nat
  tx_gas_limit :: nat
  tx_payload :: bytes
  tx_sig_alg_id :: alg_id
  tx_sig_key_version :: nat
  tx_signature :: bytes

definition derive_address :: "xof \<Rightarrow> bytes \<Rightarrow> alg_id \<Rightarrow> bytes \<Rightarrow> address" where
"derive_address X chain_id a pk_bytes = derive_address_raw X chain_id (alg_as_u16 a) pk_bytes"

section \<open>Round trips of the identifiers\<close>

lemma alg_from_as [simp]: "alg_from_u16 (alg_as_u16 a) = Some a"
  by (cases a) (simp_all add: alg_from_u16_def)

lemma alg_as_from: "alg_from_u16 v = Some a \<Longrightarrow> alg_as_u16 a = v"
  by (auto simp: alg_from_u16_def split: if_splits)

lemma alg_as_u16_inj: "alg_as_u16 a = alg_as_u16 b \<longleftrightarrow> a = b"
  by (metis alg_from_as option.inject)

lemma alg_as_u16_le: "alg_as_u16 a \<le> 256"
  by (cases a) simp_all

lemma msg_type_from_as [simp]: "msg_type_from_u16 (msg_type_as_u16 m) = Some m"
  by (cases m) (simp_all add: msg_type_from_u16_def)

lemma msg_type_as_from: "msg_type_from_u16 v = Some m \<Longrightarrow> msg_type_as_u16 m = v"
  by (auto simp: msg_type_from_u16_def split: if_splits)

lemma msg_type_as_u16_le: "msg_type_as_u16 m \<le> 1794"
  by (cases m) simp_all

section \<open>Envelopes\<close>

lemma from_le_le: "x \<le> U16_MAX \<Longrightarrow> le_bytes_u16 x = [lo, hi] \<Longrightarrow> from_le_bytes_u16 lo hi = x"
  by (auto simp: le_bytes_u16_def from_le_bytes_u16_def U16_MAX_def unat_of_nat)

lemma decode_encode_envelope:
  assumes "encode_envelope a payload = Ok bs"
  shows "decode_envelope bs = Ok (a, payload)"
proof -
  have len: "length payload \<le> U16_MAX"
    and bs: "bs = ENVELOPE_VERSION # le_bytes_u16 (alg_as_u16 a) @ le_bytes_u16 (length payload) @ payload"
    using assms by (auto simp: encode_envelope_def split: if_splits)
  obtain a0 a1 l0 l1 where b: "le_bytes_u16 (alg_as_u16 a) = [a0, a1]" "le_bytes_u16 (length payload) = [l0, l1]"
    by (simp add: le_bytes_u16_def)
  have "alg_as_u16 a \<le> U16_MAX" using alg_as_u16_le [of a] by (simp add: U16_MAX_def)
  then have "from_le_bytes_u16 a0 a1 = alg_as_u16 a" "from_le_bytes_u16 l0 l1 = length payload"
    using from_le_le b len by blast+
  then show ?thesis by (simp add: decode_envelope_def bs b)
qed

section \<open>Key lookup\<close>

lemma duplicate_from_iff:
  "duplicate_from seen ks \<longleftrightarrow>
     \<not> distinct (map ke_key_version ks) \<or> set (map ke_key_version ks) \<inter> set seen \<noteq> {}"
  by (induction seen ks rule: duplicate_from.induct) auto

lemma has_duplicate_versions_iff: "has_duplicate_versions ks \<longleftrightarrow> \<not> distinct (map ke_key_version ks)"
  by (simp add: has_duplicate_versions_def duplicate_from_iff)

lemma has_active_key_iff: "has_active_key ks \<longleftrightarrow> (\<exists>k\<in>set ks. ke_status k = KS_Active)"
  by (simp add: has_active_key_def list_ex_iff)

lemma key_lookup_Ok:
  "key_lookup ks alg v tb h = Ok e \<longleftrightarrow>
     find (\<lambda>k. ke_key_version k = v) ks = Some e \<and> ke_alg_id e = alg \<and> can_sign e tb h"
  by (auto simp: key_lookup_def can_sign_def split: option.splits if_splits)

lemma find_distinct:
  assumes "distinct (map ke_key_version ks)"
  shows "find (\<lambda>k. ke_key_version k = v) ks = Some e \<longleftrightarrow> e \<in> set ks \<and> ke_key_version e = v"
  using assms by (induction ks) auto

lemma check_invariants_Ok:
  "check_invariants a = Ok () \<longleftrightarrow>
     (\<exists>k\<in>set (ac_keys a). ke_status k = KS_Active) \<and> distinct (map ke_key_version (ac_keys a))
     \<and> (ac_verifier_template_id a = VERIFIER_TEMPLATE_ID_EOA \<longrightarrow> ac_auth_data a = [])"
  by (simp add: check_invariants_def has_active_key_iff has_duplicate_versions_iff)

text \<open>
  key lookup.  On a key set with unique versions, the lookup succeeds exactly with the
  entry of the requested version that has the requested algorithm and may sign the
  operation at this height: the ordered rejection steps and \<open>can_sign\<close> agree.
\<close>

theorem key_lookup_correct:
  assumes "\<not> has_duplicate_versions ks"
  shows "key_lookup ks alg v tb h = Ok e \<longleftrightarrow>
    e \<in> set ks \<and> ke_key_version e = v \<and> ke_alg_id e = alg \<and> can_sign e tb h"
  using assms by (simp add: key_lookup_Ok has_duplicate_versions_iff find_distinct conj_assoc)

definition sample_key :: "nat \<Rightarrow> key_status \<Rightarrow> key_entry" where
"sample_key v st = \<lparr> ke_alg_id = MlDsa65, ke_pk_bytes = replicate 4 7, ke_key_version = v,
                     ke_valid_from_height = 10, ke_status = st, ke_allowed_tx_types = 15 \<rparr>"

theorem key_lookup_correct_witness:
  "key_lookup [sample_key 1 KS_Revoked, sample_key 2 KS_Active] MlDsa65 2 ATX_KEY_MGMT 10
   = Ok (sample_key 2 KS_Active)"
  using key_lookup_correct [of "[sample_key 1 KS_Revoked, sample_key 2 KS_Active]" MlDsa65 2
      ATX_KEY_MGMT 10 "sample_key 2 KS_Active"]
  by (simp add: has_duplicate_versions_def sample_key_def can_sign_def ATX_KEY_MGMT_def)

end
