(* ===== verification/State_Types.thy ===== *)
theory State_Types
  imports Types
begin

text \<open>
  The records kept by the state store: attestations, proof anchors, key rotations,
  validators, governance objects, the slash ledger and archival records (\<open>pqc-types\<close>), the storage fund
  (\<open>pqc-state/src/storage_fund.rs\<close>) and the fee market (\<open>pqc-state/src/store.rs\<close>), with the
  bounds and the monotonicity of the fee-market step.
\<close>

section \<open>Attestations, anchors, rotations\<close>

datatype attestation_status = AS_Active | AS_Revoked

record attestation_revocation =
  ar_revoked_at_height :: nat
  ar_revoker :: address
  ar_revocation_reason_hash :: "hash32 option"

record attestation =
  at_attestation_id :: hash32
  at_attester :: address
  at_subject :: hash32
  at_attestation_type :: nat
  at_content_hash :: hash32
  at_schema_id :: hash32
  at_metadata_hash :: "hash32 option"
  at_anchor_height :: nat
  at_expires_at_height :: "nat option"
  at_status :: attestation_status
  at_revocation :: "attestation_revocation option"

definition is_supported_attestation_type :: "nat \<Rightarrow> bool" where
"is_supported_attestation_type t = (1 \<le> t \<and> t \<le> 6)"

record proof_anchor =
  pa_anchor_id :: hash32
  pa_claimer :: address
  pa_claim_type :: nat
  pa_asset_id_hash :: hash32
  pa_proof_hash :: hash32
  pa_schema_id :: "hash32 option"
  pa_anchor_height :: nat

definition is_supported_claim_type :: "nat \<Rightarrow> bool" where
"is_supported_claim_type t = (1 \<le> t \<and> t \<le> 3)"

record consensus_key_rotation =
  ro_operator :: address
  ro_new_alg_id :: alg_id
  ro_new_pk_bytes :: bytes
  ro_rotation_start_height :: nat
  ro_recorded_at_height :: nat

section \<open>Validators\<close>

definition VALIDATOR_MAX_ACTIVE_SET_SIZE :: nat where
"VALIDATOR_MAX_ACTIVE_SET_SIZE = 24"

definition VALIDATOR_UNBONDING_PERIOD :: nat where
"VALIDATOR_UNBONDING_PERIOD = 120"

definition VALIDATOR_PEER_ID_MAX_LEN :: nat where
"VALIDATOR_PEER_ID_MAX_LEN = 64"

datatype validator_status = VS_Candidate | VS_Active | VS_Jailed | VS_Unbonding nat | VS_Exited

record validator_record =
  vr_operator :: address
  vr_node_id :: string
  vr_consensus_alg_id :: alg_id
  vr_consensus_pk :: bytes
  vr_self_bond :: nat
  vr_status :: validator_status
  vr_registered_height :: nat
  vr_tombstoned :: bool

record churn_config =
  cc_activation_target_bps :: nat
  cc_activation_min_stake :: nat
  cc_exit_target_bps :: nat
  cc_exit_min_stake :: nat

definition churn_viper_pq_1 :: churn_config where
"churn_viper_pq_1 = \<lparr> cc_activation_target_bps = 39, cc_activation_min_stake = 0,
   cc_exit_target_bps = 313, cc_exit_min_stake = 0 \<rparr>"

definition stake_weighted_activation_limit :: "nat \<Rightarrow> churn_config \<Rightarrow> nat" where
"stake_weighted_activation_limit active_stake cfg =
   max (cc_activation_min_stake cfg)
     (saturating_mul U128_MAX active_stake (cc_activation_target_bps cfg) div 10000)"

definition stake_weighted_exit_limit :: "nat \<Rightarrow> churn_config \<Rightarrow> nat" where
"stake_weighted_exit_limit active_stake cfg =
   max (cc_exit_min_stake cfg)
     (saturating_mul U128_MAX active_stake (cc_exit_target_bps cfg) div 10000)"

section \<open>Governance objects\<close>

datatype proposal_type =
    PT_RegistryUpdate | PT_BurnRateUpdate | PT_FeeParamUpdate | PT_SoftwareUpgrade
  | PT_AddAlgorithm | PT_AddSlashingVerifier | PT_AddHash | PT_AddAuthTemplate

fun proposal_type_as_u8 :: "proposal_type \<Rightarrow> nat" where
"proposal_type_as_u8 PT_RegistryUpdate = 1" |
"proposal_type_as_u8 PT_BurnRateUpdate = 2" |
"proposal_type_as_u8 PT_FeeParamUpdate = 3" |
"proposal_type_as_u8 PT_SoftwareUpgrade = 4" |
"proposal_type_as_u8 PT_AddAlgorithm = 5" |
"proposal_type_as_u8 PT_AddSlashingVerifier = 6" |
"proposal_type_as_u8 PT_AddHash = 7" |
"proposal_type_as_u8 PT_AddAuthTemplate = 8"

definition proposal_type_from_u8 :: "nat \<Rightarrow> proposal_type option" where
"proposal_type_from_u8 raw =
   (if raw = 1 then Some PT_RegistryUpdate
    else if raw = 2 then Some PT_BurnRateUpdate
    else if raw = 3 then Some PT_FeeParamUpdate
    else if raw = 4 then Some PT_SoftwareUpgrade
    else if raw = 5 then Some PT_AddAlgorithm
    else if raw = 6 then Some PT_AddSlashingVerifier
    else if raw = 7 then Some PT_AddHash
    else if raw = 8 then Some PT_AddAuthTemplate
    else None)"

datatype proposal_status = PS_Voting | PS_Executed | PS_Expired | PS_Rejected | PS_ExecutionFailed

record add_algorithm_proposal =
  aa_alg_id :: nat
  aa_spec_ref :: string
  aa_pk_size :: nat
  aa_sig_size :: nat
  aa_sig_class :: "nat option"
  aa_min_fee :: nat
  aa_benchmark_verify_per_sec :: nat
  aa_initial_lifecycle :: lifecycle

definition decode_sig_class :: "nat \<Rightarrow> sig_class option option" where
"decode_sig_class raw =
   (if raw = 0 then Some None
    else if raw = 1 then Some (Some SC_Reduced)
    else if raw = 2 then Some (Some SC_Standard)
    else if raw = 3 then Some (Some SC_Premium)
    else None)"

record add_auth_template_proposal =
  ap_template_id :: nat
  ap_spec_ref :: string
  ap_lifecycle :: lifecycle

record add_hash_proposal =
  ah_hash_id :: nat
  ah_spec_ref :: string
  ah_output_size_bytes :: nat
  ah_initial_lifecycle :: lifecycle

record slashing_verifier_proposal =
  sp_evidence_type :: nat
  sp_spec_ref :: string
  sp_slash_fraction_bps :: nat
  sp_jail_duration_blocks :: nat
  sp_tombstone :: bool
  sp_lifecycle :: lifecycle

record slashing_verifier_entry =
  se_evidence_type :: nat
  se_spec_ref :: string
  se_slash_fraction_bps :: nat
  se_jail_duration_blocks :: nat
  se_tombstone :: bool
  se_lifecycle :: lifecycle

datatype proposal_effect =
    PE_RegistryUpdate alg_id "lifecycle option" "nat option"
  | PE_BurnRateUpdate nat
  | PE_FeeParamUpdate nat
  | PE_SoftwareUpgrade nat nat
  | PE_AddAlgorithm add_algorithm_proposal
  | PE_AddSlashingVerifier slashing_verifier_proposal
  | PE_AddHash add_hash_proposal
  | PE_AddAuthTemplate add_auth_template_proposal

record pending_upgrade =
  pu_proposal_id :: hash32
  pu_activate_at_timestamp_ns :: nat
  pu_expected_version :: nat

record pending_proposal =
  pp_proposal_id :: hash32
  pp_proposal_type :: proposal_type
  pp_proposer :: address
  pp_voting_deadline :: nat
  pp_execute_after :: nat
  pp_effect :: proposal_effect
  pp_votes :: "(address, bool) hmap"
  pp_status :: proposal_status
  pp_rationale_hash :: hash32

record governance_receipt =
  gr_proposal_id :: hash32
  gr_proposal_type :: proposal_type
  gr_proposer :: address
  gr_target_alg_id :: alg_id
  gr_lifecycle_before :: lifecycle
  gr_lifecycle_after :: lifecycle
  gr_min_fee_before :: nat
  gr_min_fee_after :: nat
  gr_rationale_hash :: hash32
  gr_executed_at_height :: nat

record recent_slash_entry =
  rs_height :: nat
  rs_slashed_stake :: nat

section \<open>The archival overlay\<close>

definition SLH_DSA_SHAKE_256S_PK_LEN :: nat where
"SLH_DSA_SHAKE_256S_PK_LEN = 64"

definition ARCHIVAL_ALG_ID_SLH_DSA_SHAKE_256S :: nat where
"ARCHIVAL_ALG_ID_SLH_DSA_SHAKE_256S = 0x23"

definition TIMESTAMP_ANCHOR_EXTERNAL_HASH_MAX_LEN :: nat where
"TIMESTAMP_ANCHOR_EXTERNAL_HASH_MAX_LEN = 16384"

datatype anchor_kind = AK_Rfc3161Tsa | AK_BitcoinOpReturn | AK_EthereumL1 | AK_OtherTsa

fun anchor_kind_as_u8 :: "anchor_kind \<Rightarrow> nat" where
"anchor_kind_as_u8 AK_Rfc3161Tsa = 1" |
"anchor_kind_as_u8 AK_BitcoinOpReturn = 2" |
"anchor_kind_as_u8 AK_EthereumL1 = 3" |
"anchor_kind_as_u8 AK_OtherTsa = 255"

definition anchor_kind_from_u8 :: "nat \<Rightarrow> anchor_kind option" where
"anchor_kind_from_u8 raw =
   (if raw = 1 then Some AK_Rfc3161Tsa
    else if raw = 2 then Some AK_BitcoinOpReturn
    else if raw = 3 then Some AK_EthereumL1
    else if raw = 255 then Some AK_OtherTsa
    else None)"

record tsa_ref =
  tr_url :: string
  tr_cert_fingerprint_sha256 :: hash32
  tr_policy_oid :: "string option"

record timestamp_anchor =
  ta_kind :: anchor_kind
  ta_tsa_ref :: "tsa_ref option"
  ta_external_hash :: bytes
  ta_posted_at_height :: nat

record validator_archival_key =
  vk_operator :: address
  vk_archival_alg_id :: nat
  vk_archival_pk :: bytes
  vk_registered_at_height :: nat

record archival_record =
  av_epoch_number :: nat
  av_epoch_root :: hash32
  av_signer_addresses :: "address list"
  av_slh_signatures :: "bytes list"
  av_timestamp_anchors :: "timestamp_anchor list"
  av_evidence_record_version :: nat

section \<open>Storage fund\<close>

definition REBATE_BPS_DENOM :: nat where
"REBATE_BPS_DENOM = 10000"

record storage_fund_state =
  sf_balance :: nat
  sf_perpetual_cost_per_byte :: nat
  sf_rebate_fraction_bps :: nat

definition storage_fund_default :: storage_fund_state where
"storage_fund_default = \<lparr> sf_balance = 0, sf_perpetual_cost_per_byte = 1, sf_rebate_fraction_bps = 9900 \<rparr>"

definition storage_fee :: "storage_fund_state \<Rightarrow> nat \<Rightarrow> nat" where
"storage_fee f n = saturating_mul U128_MAX n (sf_perpetual_cost_per_byte f)"

definition storage_rebate :: "storage_fund_state \<Rightarrow> nat \<Rightarrow> nat" where
"storage_rebate f original_fee =
   saturating_mul U128_MAX original_fee (sf_rebate_fraction_bps f) div REBATE_BPS_DENOM"

definition fund_credit :: "nat \<Rightarrow> storage_fund_state \<Rightarrow> storage_fund_state" where
"fund_credit amount f = f\<lparr> sf_balance := saturating_add U128_MAX (sf_balance f) amount \<rparr>"

definition fund_debit :: "nat \<Rightarrow> storage_fund_state \<Rightarrow> storage_fund_state \<times> nat" where
"fund_debit amount f =
   (let debit = min amount (sf_balance f) in (f\<lparr> sf_balance := sf_balance f - debit \<rparr>, debit))"

section \<open>Fee market\<close>

definition COMPUTE_RESERVE_FLOOR :: nat where
"COMPUTE_RESERVE_FLOOR = 100"

definition BASE_FEE_MAX :: nat where
"BASE_FEE_MAX = 10000000"

definition DEFAULT_BLOCK_GAS_LIMIT :: nat where
"DEFAULT_BLOCK_GAS_LIMIT = 10000000"

definition COMPUTE_FEE_UPDATE_FRACTION :: nat where
"COMPUTE_FEE_UPDATE_FRACTION = 3338477"

record fee_market_dimension =
  fd_base_fee :: nat
  fd_limit :: nat
  fd_target :: nat
  fd_excess :: nat
  fd_reserve_floor :: nat
  fd_update_fraction :: nat

definition compute_default :: fee_market_dimension where
"compute_default = \<lparr> fd_base_fee = 0, fd_limit = DEFAULT_BLOCK_GAS_LIMIT,
   fd_target = DEFAULT_BLOCK_GAS_LIMIT div 2, fd_excess = 0,
   fd_reserve_floor = COMPUTE_RESERVE_FLOOR, fd_update_fraction = COMPUTE_FEE_UPDATE_FRACTION \<rparr>"

definition reserved_default :: "nat \<Rightarrow> fee_market_dimension" where
"reserved_default floor = \<lparr> fd_base_fee = floor, fd_limit = 0, fd_target = 0, fd_excess = 0,
   fd_reserve_floor = floor, fd_update_fraction = 1 \<rparr>"

record fee_market_state =
  fm_compute :: fee_market_dimension
  fm_storage :: fee_market_dimension
  fm_witness :: fee_market_dimension
  fm_contention :: fee_market_dimension
  fm_burn_rate_bps :: nat

definition fee_market_default :: fee_market_state where
"fee_market_default = \<lparr> fm_compute = compute_default,
   fm_storage = reserved_default COMPUTE_RESERVE_FLOOR,
   fm_witness = reserved_default COMPUTE_RESERVE_FLOOR,
   fm_contention = reserved_default COMPUTE_RESERVE_FLOOR, fm_burn_rate_bps = 0 \<rparr>"

text \<open>The loop of \<open>fake_exponential\<close>; the counter stops it after 128 rounds at the latest.\<close>

function exp_loop :: "nat \<Rightarrow> nat \<Rightarrow> nat \<Rightarrow> nat \<Rightarrow> nat \<Rightarrow> nat" where
"exp_loop numerator denominator outp accum i =
   (if accum > 0 then
      let outp' = saturating_add U128_MAX outp accum;
          accum' = saturating_mul U128_MAX accum numerator div saturating_mul U128_MAX denominator i
      in if i + 1 > 128 then outp' else exp_loop numerator denominator outp' accum' (i + 1)
    else outp)"
  by pat_completeness auto
termination
  by (relation "measure (\<lambda>(n, d, out, a, i). 129 - i)") auto

declare exp_loop.simps [simp del]

definition fake_exponential :: "nat \<Rightarrow> nat \<Rightarrow> nat \<Rightarrow> nat" where
"fake_exponential factor numerator denominator =
   (if denominator = 0 then factor
    else let outp = exp_loop numerator denominator 0 (saturating_mul U128_MAX factor denominator) 1;
             clamped = outp div denominator
         in min clamped U64_MAX)"

text \<open>\<open>Ord::clamp\<close> panics when the lower bound exceeds the upper one.\<close>

definition clamp :: "nat \<Rightarrow> nat \<Rightarrow> nat \<Rightarrow> nat option" where
"clamp x lo hi = (if lo \<le> hi then Some (max lo (min x hi)) else None)"

definition dimension_step :: "nat \<Rightarrow> fee_market_dimension \<Rightarrow> fee_market_dimension option" where
"dimension_step used dim =
   (let sum = saturating_add U64_MAX (fd_excess dim) used;
        excess = saturating_sub sum (fd_target dim);
        denom_mul = saturating_mul U64_MAX (fd_reserve_floor dim) (fd_update_fraction dim);
        raw = fake_exponential (fd_reserve_floor dim) excess denom_mul
    in case clamp raw (fd_reserve_floor dim) BASE_FEE_MAX of
         None \<Rightarrow> None
       | Some fee \<Rightarrow> Some (dim\<lparr> fd_excess := excess, fd_base_fee := fee \<rparr>))"

definition market_step :: "nat \<Rightarrow> nat \<Rightarrow> nat \<Rightarrow> nat \<Rightarrow> fee_market_state \<Rightarrow> fee_market_state option" where
"market_step compute_used storage_used witness_used contention_used m =
   (case dimension_step compute_used (fm_compute m) of None \<Rightarrow> None | Some c \<Rightarrow>
    case dimension_step storage_used (fm_storage m) of None \<Rightarrow> None | Some s \<Rightarrow>
    case dimension_step witness_used (fm_witness m) of None \<Rightarrow> None | Some w \<Rightarrow>
    case dimension_step contention_used (fm_contention m) of None \<Rightarrow> None | Some t \<Rightarrow>
      Some (m\<lparr> fm_compute := c, fm_storage := s, fm_witness := w, fm_contention := t \<rparr>))"

section \<open>Facts of the fee market\<close>

definition dim_wf :: "fee_market_dimension \<Rightarrow> bool" where
"dim_wf d = (fd_reserve_floor d \<le> BASE_FEE_MAX)"

definition market_wf :: "fee_market_state \<Rightarrow> bool" where
"market_wf m = (dim_wf (fm_compute m) \<and> dim_wf (fm_storage m) \<and> dim_wf (fm_witness m)
                \<and> dim_wf (fm_contention m))"

lemma market_default_wf [simp]: "market_wf fee_market_default"
  by (simp add: market_wf_def dim_wf_def fee_market_default_def compute_default_def
      reserved_default_def COMPUTE_RESERVE_FLOOR_def BASE_FEE_MAX_def)

lemma saturating_mul_mono2: "a \<le> c \<Longrightarrow> b \<le> d \<Longrightarrow> saturating_mul m a b \<le> saturating_mul m c d"
  by (simp add: saturating_mul_def min_le_iff_disj mult_le_mono)

lemma exp_loop_ge: "outp \<le> U128_MAX \<Longrightarrow> outp \<le> exp_loop n d outp a i"
proof (induction n d outp a i rule: exp_loop.induct)
  case (1 n d outp a i)
  let ?o = "saturating_add U128_MAX outp a"
  have "outp \<le> ?o" using "1.prems" by (simp add: saturating_add_def)
  moreover have "?o \<le> exp_loop n d ?o (saturating_mul U128_MAX a n div saturating_mul U128_MAX d i) (i + 1)"
    if "0 < a" "\<not> i + 1 > 128"
    using 1(1) [OF that(1) refl refl that(2)] saturating_add_le by blast
  ultimately show ?case by (subst exp_loop.simps) (auto simp: Let_def intro: order_trans)
qed

lemma exp_loop_mono:
  assumes "n \<le> n'" "outp \<le> outp'" "a \<le> a'" "outp' \<le> U128_MAX"
  shows "exp_loop n d outp a i \<le> exp_loop n' d outp' a' i"
  using assms
proof (induction n d outp a i arbitrary: outp' a' rule: exp_loop.induct)
  case (1 n d outp a i)
  show ?case
  proof (cases "0 < a")
    case True
    let ?o = "saturating_add U128_MAX outp a" and ?o' = "saturating_add U128_MAX outp' a'"
    let ?a = "saturating_mul U128_MAX a n div saturating_mul U128_MAX d i"
    let ?a' = "saturating_mul U128_MAX a' n' div saturating_mul U128_MAX d i"
    have o: "?o \<le> ?o'" using 1 by (simp add: saturating_add_mono)
    have a: "?a \<le> ?a'" using 1 by (intro div_le_mono saturating_mul_mono2)
    have "exp_loop n d ?o ?a (i + 1) \<le> exp_loop n' d ?o' ?a' (i + 1)" if "\<not> i + 1 > 128"
      using 1(1) [OF True refl refl that 1(2) o a saturating_add_le] .
    then show ?thesis
      using True 1 o by (subst (1 2) exp_loop.simps) (simp add: Let_def)
  next
    case False
    then have "exp_loop n d outp a i = outp" by (subst exp_loop.simps) simp
    then show ?thesis using exp_loop_ge [OF 1(5)] 1(3) order_trans by metis
  qed
qed

lemma fake_exponential_mono:
  "n \<le> n' \<Longrightarrow> fake_exponential f n d \<le> fake_exponential f n' d"
  by (auto simp: fake_exponential_def Let_def min_le_iff_disj
      intro!: div_le_mono exp_loop_mono min.mono)

lemma fake_exponential_zero:
  assumes "f * d \<le> U128_MAX" "f \<le> U64_MAX" "d \<noteq> 0"
  shows "fake_exponential f 0 d = f"
proof -
  have zero: "exp_loop 0 d out 0 i = out" for out i by (subst exp_loop.simps) simp
  have "exp_loop 0 d 0 (f * d) 1 = f * d"
    using assms by (subst exp_loop.simps) (simp add: Let_def saturating_add_def saturating_mul_def zero)
  then show ?thesis using assms by (simp add: fake_exponential_def saturating_mul_def Let_def)
qed

lemma dimension_step_Some:
  "dim_wf d \<Longrightarrow> \<exists>d'. dimension_step used d = Some d' \<and> dim_wf d' \<and>
     fd_reserve_floor d \<le> fd_base_fee d' \<and> fd_base_fee d' \<le> BASE_FEE_MAX \<and>
     fd_reserve_floor d' = fd_reserve_floor d"
  by (auto simp: dimension_step_def dim_wf_def clamp_def Let_def)

lemma market_step_Some:
  assumes "market_wf m"
  shows "\<exists>m'. market_step c s w t m = Some m' \<and> market_wf m'
    \<and> fm_burn_rate_bps m' = fm_burn_rate_bps m
    \<and> fd_reserve_floor (fm_compute m) \<le> fd_base_fee (fm_compute m')
    \<and> fd_base_fee (fm_compute m') \<le> BASE_FEE_MAX"
  using assms dimension_step_Some [of "fm_compute m" c] dimension_step_Some [of "fm_storage m" s]
    dimension_step_Some [of "fm_witness m" w] dimension_step_Some [of "fm_contention m" t]
  by (auto simp: market_step_def market_wf_def)

section \<open>Properties\<close>

text \<open>
  the fee-market step.  For a dimension whose floor is at most the cap, the step always
  returns (its clamp cannot panic), the new base fee lies between the floor and the cap,
  and a block that used more never yields a lower base fee.
\<close>

theorem fee_market_step_bounds:
  assumes "dim_wf d" "used \<le> used'"
  shows "\<exists>e e'. dimension_step used d = Some e \<and> dimension_step used' d = Some e'
    \<and> fd_reserve_floor d \<le> fd_base_fee e \<and> fd_base_fee e \<le> fd_base_fee e'
    \<and> fd_base_fee e' \<le> BASE_FEE_MAX"
proof -
  let ?x = "\<lambda>u. saturating_sub (saturating_add U64_MAX (fd_excess d) u) (fd_target d)"
  let ?f = "\<lambda>u. fake_exponential (fd_reserve_floor d) (?x u)
              (saturating_mul U64_MAX (fd_reserve_floor d) (fd_update_fraction d))"
  have "?x used \<le> ?x used'"
    using assms(2) by (simp add: saturating_sub_def diff_le_mono saturating_add_mono)
  then have "?f used \<le> ?f used'" by (rule fake_exponential_mono)
  then show ?thesis using assms(1) by (auto simp: dimension_step_def dim_wf_def clamp_def Let_def)
qed

theorem fee_market_step_bounds_witness:
  "\<exists>e e'. dimension_step 0 compute_default = Some e \<and> dimension_step 9000000 compute_default = Some e'
    \<and> 100 \<le> fd_base_fee e \<and> fd_base_fee e \<le> fd_base_fee e'"
proof -
  have "dim_wf compute_default"
    by (simp add: dim_wf_def compute_default_def COMPUTE_RESERVE_FLOOR_def BASE_FEE_MAX_def)
  from fee_market_step_bounds [OF this, of 0 9000000] show ?thesis
    by (auto simp: compute_default_def COMPUTE_RESERVE_FLOOR_def)
qed

end
