(* ===== verification/State_Leaf.thy ===== *)
theory State_Leaf
  imports State_Types "HOL-Library.List_Lexorder" "HOL-Library.Product_Lexorder"
begin

text \<open>
  The per-category leaf hashes of the state tree, \<open>pqc-state/src/store/state_merkle.rs\<close> and
  the two of \<open>apply/archival.rs\<close>.  Each is a tagged hash over a list of length-framed
  chunks; the chunk list is a function of its own, so that equal leaf hashes can be
  traced back to equal records.  Strings are their UTF-8 bytes.
\<close>

section \<open>Chunk lists\<close>

definition leaf_hash :: "xof \<Rightarrow> string \<Rightarrow> bytes list \<Rightarrow> hash32" where
"leaf_hash X tag chunks = th_finish X (push_chunks chunks (th_new X (bstr tag)))"

definition u16b :: "nat \<Rightarrow> bytes" where
"u16b n = be_bytes 2 n"

definition u32b :: "nat \<Rightarrow> bytes" where
"u32b n = be_bytes 4 n"

definition u64b :: "nat \<Rightarrow> bytes" where
"u64b n = be_bytes 8 n"

definition u128b :: "nat \<Rightarrow> bytes" where
"u128b n = be_bytes 16 n"

definition byte1 :: "nat \<Rightarrow> bytes" where
"byte1 n = [word_of_nat n]"

fun opt_chunks :: "bytes option \<Rightarrow> bytes list" where
"opt_chunks (Some h) = [byte1 1, h]" |
"opt_chunks None = [byte1 0]"

fun key_status_byte :: "key_status \<Rightarrow> nat" where
"key_status_byte KS_Pending = 0" |
"key_status_byte KS_Active = 1" |
"key_status_byte KS_Revoked = 2"

fun encode_lifecycle_byte :: "lifecycle \<Rightarrow> nat" where
"encode_lifecycle_byte LC_Active = 0" |
"encode_lifecycle_byte LC_Discouraged = 1" |
"encode_lifecycle_byte LC_Deprecated = 2" |
"encode_lifecycle_byte LC_Banned = 3"

fun sig_class_byte :: "sig_class option \<Rightarrow> nat" where
"sig_class_byte (Some SC_Reduced) = 1" |
"sig_class_byte (Some SC_Standard) = 2" |
"sig_class_byte (Some SC_Premium) = 3" |
"sig_class_byte None = 0"

section \<open>Accounts, attestations, registry, anchors, rotations, receipts\<close>

definition key_chunks :: "key_entry \<Rightarrow> bytes list" where
"key_chunks k =
   [u16b (alg_as_u16 (ke_alg_id k)), u32b (ke_key_version k), u64b (ke_valid_from_height k),
    byte1 (key_status_byte (ke_status k)), u32b (unat (ke_allowed_tx_types k)), ke_pk_bytes k]"

definition account_chunks :: "account \<Rightarrow> bytes list" where
"account_chunks a =
   (let keys = sort_key ke_key_version (ac_keys a) in
    [ac_address a, u128b (ac_balance a), u64b (ac_nonce a), u64b (length keys)]
    @ concat (map key_chunks keys)
    @ [u32b (ac_policy_version a)] @ opt_chunks (ac_policy_hash a)
    @ [u16b (ac_verifier_template_id a), ac_auth_data a])"

definition compute_account_leaf_hash :: "xof \<Rightarrow> account \<Rightarrow> hash32" where
"compute_account_leaf_hash X a = leaf_hash X ''PQC-ACCOUNT-LEAF-V1'' (account_chunks a)"

definition revocation_chunks :: "attestation_revocation option \<Rightarrow> bytes list" where
"revocation_chunks r = (case r of
     Some rv \<Rightarrow> [byte1 1, u64b (ar_revoked_at_height rv), ar_revoker rv]
                 @ opt_chunks (ar_revocation_reason_hash rv)
   | None \<Rightarrow> [byte1 0])"

definition attestation_chunks :: "attestation \<Rightarrow> bytes list" where
"attestation_chunks a =
   [at_attestation_id a, at_attester a, at_subject a, u16b (at_attestation_type a),
    at_content_hash a, at_schema_id a] @ opt_chunks (at_metadata_hash a)
   @ [u64b (at_anchor_height a)] @ opt_chunks (map_option u64b (at_expires_at_height a))
   @ [byte1 (case at_status a of AS_Active \<Rightarrow> 0 | AS_Revoked \<Rightarrow> 1)]
   @ revocation_chunks (at_revocation a)"

definition compute_attestation_leaf_hash :: "xof \<Rightarrow> attestation \<Rightarrow> hash32" where
"compute_attestation_leaf_hash X a = leaf_hash X ''PQC-ATTESTATION-LEAF-V1'' (attestation_chunks a)"

definition compute_alg_leaf_hash :: "xof \<Rightarrow> alg_entry \<Rightarrow> hash32" where
"compute_alg_leaf_hash X e = leaf_hash X ''PQC-ALG-LEAF-V1''
   [u16b (alg_as_u16 (ae_alg_id e)), bstr (ae_spec_ref e), u64b (ae_pk_size e), u64b (ae_sig_size e),
    u64b (ae_min_fee e), byte1 (encode_lifecycle_byte (ae_lifecycle e)),
    byte1 (sig_class_byte (ae_sig_class e)), u32b (ae_benchmark_verify_per_sec e)]"

definition compute_proof_anchor_leaf_hash :: "xof \<Rightarrow> proof_anchor \<Rightarrow> hash32" where
"compute_proof_anchor_leaf_hash X a = leaf_hash X ''PQC-PROOF-ANCHOR-LEAF-V1''
   ([pa_anchor_id a, pa_claimer a, u16b (pa_claim_type a), pa_asset_id_hash a, pa_proof_hash a]
    @ opt_chunks (pa_schema_id a) @ [u64b (pa_anchor_height a)])"

definition compute_consensus_rotation_leaf_hash :: "xof \<Rightarrow> consensus_key_rotation \<Rightarrow> hash32" where
"compute_consensus_rotation_leaf_hash X r = leaf_hash X ''PQC-CONSENSUS-ROTATE-LEAF-V1''
   [ro_operator r, u16b (alg_as_u16 (ro_new_alg_id r)), u64b (length (ro_new_pk_bytes r)),
    ro_new_pk_bytes r, u64b (ro_rotation_start_height r), u64b (ro_recorded_at_height r)]"

definition compute_receipt_leaf_hash :: "xof \<Rightarrow> governance_receipt \<Rightarrow> hash32" where
"compute_receipt_leaf_hash X r = leaf_hash X ''PQC-RECEIPT-LEAF-V1''
   [gr_proposal_id r, byte1 (proposal_type_as_u8 (gr_proposal_type r)), gr_proposer r,
    u16b (alg_as_u16 (gr_target_alg_id r)), byte1 (encode_lifecycle_byte (gr_lifecycle_before r)),
    byte1 (encode_lifecycle_byte (gr_lifecycle_after r)), u64b (gr_min_fee_before r),
    u64b (gr_min_fee_after r), gr_rationale_hash r, u64b (gr_executed_at_height r)]"

section \<open>Validators, fee market, storage fund, slashes\<close>

definition compute_peer_id_binding_leaf_hash :: "xof \<Rightarrow> address \<Rightarrow> bytes \<Rightarrow> hash32" where
"compute_peer_id_binding_leaf_hash X operator peer_id =
   leaf_hash X ''PQC-PEER-ID-BINDING-LEAF-V1'' [operator, u64b (length peer_id), peer_id]"

fun validator_status_chunks :: "validator_status \<Rightarrow> bytes list" where
"validator_status_chunks VS_Candidate = [byte1 0]" |
"validator_status_chunks VS_Active = [byte1 1]" |
"validator_status_chunks VS_Jailed = [byte1 2]" |
"validator_status_chunks (VS_Unbonding start) = [byte1 3, u64b start]" |
"validator_status_chunks VS_Exited = [byte1 4]"

definition validator_chunks :: "validator_record \<Rightarrow> bytes list" where
"validator_chunks r =
   [vr_operator r, bstr (vr_node_id r), u16b (alg_as_u16 (vr_consensus_alg_id r)),
    u64b (length (vr_consensus_pk r)), vr_consensus_pk r, u128b (vr_self_bond r),
    u64b (vr_registered_height r)] @ validator_status_chunks (vr_status r)
   @ [byte1 (if vr_tombstoned r then 1 else 0)]"

definition compute_validator_leaf_hash :: "xof \<Rightarrow> validator_record \<Rightarrow> hash32" where
"compute_validator_leaf_hash X r = leaf_hash X ''PQC-VALIDATOR-LEAF-V1'' (validator_chunks r)"

definition compute_storage_fund_leaf_hash :: "xof \<Rightarrow> storage_fund_state \<Rightarrow> hash32" where
"compute_storage_fund_leaf_hash X f = leaf_hash X ''VIPER-STORAGE-FUND-V1''
   [u128b (sf_balance f), u64b (sf_perpetual_cost_per_byte f), u64b (sf_rebate_fraction_bps f)]"

definition push_dim :: "fee_market_dimension \<Rightarrow> bytes list" where
"push_dim d = [u64b (fd_base_fee d), u64b (fd_limit d), u64b (fd_target d), u64b (fd_excess d),
   u64b (fd_reserve_floor d), u64b (fd_update_fraction d)]"

definition compute_fee_market_leaf_hash :: "xof \<Rightarrow> fee_market_state \<Rightarrow> hash32" where
"compute_fee_market_leaf_hash X m = leaf_hash X ''VIPER-FEE-MARKET-V1''
   (push_dim (fm_compute m) @ push_dim (fm_storage m) @ push_dim (fm_witness m)
    @ push_dim (fm_contention m) @ [u64b (fm_burn_rate_bps m)])"

definition compute_recent_slashes_leaf_hash :: "xof \<Rightarrow> recent_slash_entry list \<Rightarrow> hash32" where
"compute_recent_slashes_leaf_hash X es = leaf_hash X ''VIPER-RECENT-SLASHES-V1''
   (u64b (length es) # concat (map (\<lambda>e. [u64b (rs_height e), u128b (rs_slashed_stake e)]) es))"

section \<open>Governance\<close>

fun proposal_status_byte :: "proposal_status \<Rightarrow> nat" where
"proposal_status_byte PS_Voting = 0" |
"proposal_status_byte PS_Executed = 1" |
"proposal_status_byte PS_Expired = 2" |
"proposal_status_byte PS_Rejected = 3" |
"proposal_status_byte PS_ExecutionFailed = 4"

definition lifecycle_opt_chunks :: "lifecycle option \<Rightarrow> bytes list" where
"lifecycle_opt_chunks l = (case l of
     Some lc \<Rightarrow> [[1, word_of_nat (encode_lifecycle_byte lc)]]
   | None \<Rightarrow> [byte1 0])"

fun effect_chunks :: "proposal_effect \<Rightarrow> bytes list" where
"effect_chunks (PE_RegistryUpdate a lc fee) =
   [byte1 1, u16b (alg_as_u16 a)] @ lifecycle_opt_chunks lc @ opt_chunks (map_option u64b fee)" |
"effect_chunks (PE_BurnRateUpdate bps) = [byte1 2, u16b bps]" |
"effect_chunks (PE_FeeParamUpdate limit) = [byte1 3, u64b limit]" |
"effect_chunks (PE_SoftwareUpgrade ts version) = [byte1 4, u64b ts, u16b version]" |
"effect_chunks (PE_AddAlgorithm p) =
   [byte1 5, u16b (aa_alg_id p), u64b (length (aa_spec_ref p)), bstr (aa_spec_ref p),
    u32b (aa_pk_size p), u32b (aa_sig_size p),
    byte1 (case aa_sig_class p of None \<Rightarrow> 0 | Some c \<Rightarrow> c), u64b (aa_min_fee p),
    u32b (aa_benchmark_verify_per_sec p), byte1 (encode_lifecycle_byte (aa_initial_lifecycle p))]" |
"effect_chunks (PE_AddSlashingVerifier p) =
   [byte1 6, byte1 (sp_evidence_type p), u64b (length (sp_spec_ref p)), bstr (sp_spec_ref p),
    u16b (sp_slash_fraction_bps p), u64b (sp_jail_duration_blocks p),
    byte1 (if sp_tombstone p then 1 else 0), byte1 (encode_lifecycle_byte (sp_lifecycle p))]" |
"effect_chunks (PE_AddHash p) =
   [byte1 7, byte1 (ah_hash_id p), u64b (length (ah_spec_ref p)), bstr (ah_spec_ref p),
    u32b (ah_output_size_bytes p), byte1 (encode_lifecycle_byte (ah_initial_lifecycle p))]" |
"effect_chunks (PE_AddAuthTemplate p) =
   [byte1 8, u16b (ap_template_id p), u64b (length (ap_spec_ref p)), bstr (ap_spec_ref p),
    byte1 (encode_lifecycle_byte (ap_lifecycle p))]"

definition proposal_chunks :: "pending_proposal \<Rightarrow> bytes list" where
"proposal_chunks p =
   (let votes = sort_key fst (pp_votes p) in
    [pp_proposal_id p, byte1 (proposal_type_as_u8 (pp_proposal_type p)),
     byte1 (proposal_status_byte (pp_status p)), u64b (pp_voting_deadline p),
     u64b (pp_execute_after p), u64b (length votes)]
    @ concat (map (\<lambda>(addr, yes). [addr, byte1 (if yes then 1 else 0)]) votes)
    @ effect_chunks (pp_effect p) @ [pp_rationale_hash p])"

definition compute_proposal_leaf_hash :: "xof \<Rightarrow> pending_proposal \<Rightarrow> hash32" where
"compute_proposal_leaf_hash X p = leaf_hash X ''PQC-PROPOSAL-LEAF-V1'' (proposal_chunks p)"

definition compute_upgrade_leaf_hash :: "xof \<Rightarrow> pending_upgrade \<Rightarrow> hash32" where
"compute_upgrade_leaf_hash X u = leaf_hash X ''PQC-UPGRADE-LEAF-V1''
   [pu_proposal_id u, u64b (pu_activate_at_timestamp_ns u), u16b (pu_expected_version u)]"

definition compute_hash_registry_leaf_hash :: "xof \<Rightarrow> hash_entry \<Rightarrow> hash32" where
"compute_hash_registry_leaf_hash X e = leaf_hash X ''VIPER-HASH-REGISTRY-V1''
   [byte1 (he_hash_id e), u64b (length (he_spec_ref e)), bstr (he_spec_ref e),
    u32b (he_output_size_bytes e), byte1 (encode_lifecycle_byte (he_lifecycle e))]"

definition compute_slashing_verifier_leaf_hash :: "xof \<Rightarrow> slashing_verifier_entry \<Rightarrow> hash32" where
"compute_slashing_verifier_leaf_hash X e = leaf_hash X ''VIPER-SLASHING-REGISTRY-V1''
   [byte1 (se_evidence_type e), u64b (length (se_spec_ref e)), bstr (se_spec_ref e),
    u16b (se_slash_fraction_bps e), u64b (se_jail_duration_blocks e),
    byte1 (if se_tombstone e then 1 else 0), byte1 (encode_lifecycle_byte (se_lifecycle e))]"

section \<open>Archival records\<close>

definition push_tsa_ref :: "tsa_ref option \<Rightarrow> bytes list" where
"push_tsa_ref t = (case t of
     Some r \<Rightarrow> [byte1 1, u64b (length (tr_url r)), bstr (tr_url r), tr_cert_fingerprint_sha256 r]
       @ (case tr_policy_oid r of
            Some oid \<Rightarrow> [byte1 1, u64b (length oid), bstr oid]
          | None \<Rightarrow> [byte1 0])
   | None \<Rightarrow> [byte1 0])"

definition anchor_chunks :: "timestamp_anchor \<Rightarrow> bytes list" where
"anchor_chunks a =
   byte1 (anchor_kind_as_u8 (ta_kind a)) # push_tsa_ref (ta_tsa_ref a)
   @ [u64b (length (ta_external_hash a)), ta_external_hash a, u64b (ta_posted_at_height a)]"

definition compute_archival_record_leaf_hash :: "xof \<Rightarrow> archival_record \<Rightarrow> hash32" where
"compute_archival_record_leaf_hash X r = leaf_hash X ''VIPER-ARCHIVAL-RECORDS-V1''
   ([u64b (av_epoch_number r), av_epoch_root r, u64b (length (av_signer_addresses r))]
    @ av_signer_addresses r
    @ [u64b (length (av_slh_signatures r))]
    @ concat (map (\<lambda>sig. [u64b (length sig), sig]) (av_slh_signatures r))
    @ [u64b (length (av_timestamp_anchors r))]
    @ concat (map anchor_chunks (av_timestamp_anchors r))
    @ [u64b (av_evidence_record_version r)])"

definition compute_archival_key_leaf_hash :: "xof \<Rightarrow> validator_archival_key \<Rightarrow> hash32" where
"compute_archival_key_leaf_hash X k = leaf_hash X ''VIPER-ARCHIVAL-KEYS-V1''
   [vk_operator k, u16b (vk_archival_alg_id k), u64b (length (vk_archival_pk k)),
    vk_archival_pk k, u64b (vk_registered_at_height k)]"

end
