(* ===== verification/State_Store.thy ===== *)
theory State_Store
  imports State_Leaf
begin

text \<open>
  The state store of \<open>pqc-state/src/store.rs\<close>: the entity maps, the cached leaf hashes beside
  them, every accessor and mutator, and the state root computed from the caches.  A write
  through a \<open>_mut\<close> accessor changes the entity map only; the caller then runs the matching
  \<open>commit_\<close> operation, as in the source.

  The main result is coherence: after every operation each cache holds exactly the leaf
  hashes of the entities, so the incremental root equals the root recomputed from scratch.
\<close>

section \<open>The record\<close>

definition STATE_LEAF_DOMAIN :: bytes where
"STATE_LEAF_DOMAIN = bstr ''VIPER-STATE-LEAF-V1''"

definition STATE_BRANCH_DOMAIN :: bytes where
"STATE_BRANCH_DOMAIN = bstr ''VIPER-STATE-BRANCH-V1''"

definition DEFAULT_EQUIVOCATION_SLASH_FRACTION_BPS :: nat where
"DEFAULT_EQUIVOCATION_SLASH_FRACTION_BPS = 500"

definition SLASHING_EVIDENCE_TYPE_EQUIVOCATION :: nat where
"SLASHING_EVIDENCE_TYPE_EQUIVOCATION = 1"

definition SLASHING_CORE_RESERVED_MAX :: nat where
"SLASHING_CORE_RESERVED_MAX = 15"

datatype state_category =
    Cat_BlockHeight | Cat_Account | Cat_Attestation | Cat_ProofAnchor | Cat_ConsensusRotation
  | Cat_AlgRegistry | Cat_Receipt | Cat_Validator | Cat_Proposal | Cat_Upgrade | Cat_FeeMarket
  | Cat_StorageFund | Cat_RecentSlashes | Cat_PeerIdBinding | Cat_SlashingRegistry
  | Cat_HashRegistry | Cat_ArchivalRecord | Cat_ArchivalKey

fun category_u8 :: "state_category \<Rightarrow> nat" where
"category_u8 Cat_BlockHeight = 0" |
"category_u8 Cat_Account = 1" |
"category_u8 Cat_Attestation = 2" |
"category_u8 Cat_ProofAnchor = 3" |
"category_u8 Cat_ConsensusRotation = 4" |
"category_u8 Cat_AlgRegistry = 5" |
"category_u8 Cat_Receipt = 6" |
"category_u8 Cat_Validator = 7" |
"category_u8 Cat_Proposal = 8" |
"category_u8 Cat_Upgrade = 9" |
"category_u8 Cat_FeeMarket = 10" |
"category_u8 Cat_StorageFund = 11" |
"category_u8 Cat_RecentSlashes = 12" |
"category_u8 Cat_PeerIdBinding = 13" |
"category_u8 Cat_SlashingRegistry = 14" |
"category_u8 Cat_HashRegistry = 15" |
"category_u8 Cat_ArchivalRecord = 16" |
"category_u8 Cat_ArchivalKey = 17"

definition state_merkle_leaf :: "xof \<Rightarrow> state_category \<Rightarrow> bytes \<Rightarrow> bytes \<Rightarrow> hash32" where
"state_merkle_leaf X category skey leaf =
   tagged_hash X STATE_LEAF_DOMAIN (byte1 (category_u8 category) @ skey @ leaf)"

record state_store =
  st_accounts :: "(address, account) hmap"
  st_attestations :: "(hash32, attestation) hmap"
  st_proof_anchors :: "(hash32, proof_anchor) hmap"
  st_consensus_key_rotations :: "(address, consensus_key_rotation) hmap"
  st_governance_receipts :: "(hash32, governance_receipt) hmap"
  st_validators :: "(address, validator_record) hmap"
  st_peer_id_bindings :: "(address, bytes) hmap"
  st_peer_id_binding_leaf_hashes :: "(address, hash32) hmap"
  st_block_height :: nat
  st_alg_registry :: "(nat, alg_entry) hmap"
  st_chain_id :: bytes
  st_fee_market :: fee_market_state
  st_storage_fund :: storage_fund_state
  st_account_leaf_hashes :: "(address, hash32) hmap"
  st_attestation_leaf_hashes :: "(hash32, hash32) hmap"
  st_proof_anchor_leaf_hashes :: "(hash32, hash32) hmap"
  st_consensus_rotation_leaf_hashes :: "(address, hash32) hmap"
  st_receipt_leaf_hashes :: "(hash32, hash32) hmap"
  st_alg_leaf_hashes :: "(nat, hash32) hmap"
  st_validator_leaf_hashes :: "(address, hash32) hmap"
  st_fee_market_leaf_hash :: hash32
  st_storage_fund_leaf_hash :: hash32
  st_pending_proposals :: "(hash32, pending_proposal) hmap"
  st_proposal_leaf_hashes :: "(hash32, hash32) hmap"
  st_archival_records :: "(nat, archival_record) hmap"
  st_archival_record_leaf_hashes :: "(nat, hash32) hmap"
  st_archival_keys :: "(address, validator_archival_key) hmap"
  st_archival_key_leaf_hashes :: "(address, hash32) hmap"
  st_archival_signer_set :: "address list"
  st_archival_threshold_m_of_n :: "(nat \<times> nat) option"
  st_archival_renewers :: "address list"
  st_pending_upgrades :: "(hash32, pending_upgrade) hmap"
  st_upgrade_leaf_hashes :: "(hash32, hash32) hmap"
  st_recent_slashes :: "recent_slash_entry list"
  st_recent_slashes_leaf_hash :: hash32
  st_slashing_registry :: "(nat, slashing_verifier_entry) hmap"
  st_slashing_registry_leaf_hashes :: "(nat, hash32) hmap"
  st_hash_registry :: "(nat, hash_entry) hmap"
  st_hash_registry_leaf_hashes :: "(nat, hash32) hmap"

definition equivocation_entry :: slashing_verifier_entry where
"equivocation_entry = \<lparr> se_evidence_type = SLASHING_EVIDENCE_TYPE_EQUIVOCATION,
   se_spec_ref = ''SPEC-SLASH-001 '' @ [CHR 0xC2, CHR 0xA7] @ ''10 (equivocation, ADR-024)'',
   se_slash_fraction_bps = DEFAULT_EQUIVOCATION_SLASH_FRACTION_BPS, se_jail_duration_blocks = 0,
   se_tombstone = True, se_lifecycle = LC_Active \<rparr>"

text \<open>Collecting pairs into a map, later pairs winning.\<close>

definition hcollect :: "('k \<times> 'v) list \<Rightarrow> ('k, 'v) hmap" where
"hcollect ps = fold (\<lambda>(k, v) m. hput k v m) ps []"

definition store_new :: "xof \<Rightarrow> state_store" where
"store_new X = \<lparr>
   st_accounts = [], st_attestations = [], st_proof_anchors = [], st_consensus_key_rotations = [],
   st_governance_receipts = [], st_validators = [], st_peer_id_bindings = [],
   st_peer_id_binding_leaf_hashes = [], st_block_height = 0,
   st_alg_registry = hcollect (map (\<lambda>e. (alg_as_u16 (ae_alg_id e), e)) phase1_registry),
   st_chain_id = [], st_fee_market = fee_market_default, st_storage_fund = storage_fund_default,
   st_account_leaf_hashes = [], st_attestation_leaf_hashes = [], st_proof_anchor_leaf_hashes = [],
   st_consensus_rotation_leaf_hashes = [], st_receipt_leaf_hashes = [],
   st_alg_leaf_hashes = hcollect (map (\<lambda>e. (alg_as_u16 (ae_alg_id e), compute_alg_leaf_hash X e)) phase1_registry),
   st_validator_leaf_hashes = [],
   st_fee_market_leaf_hash = compute_fee_market_leaf_hash X fee_market_default,
   st_storage_fund_leaf_hash = compute_storage_fund_leaf_hash X storage_fund_default,
   st_pending_proposals = [], st_proposal_leaf_hashes = [],
   st_archival_records = [], st_archival_record_leaf_hashes = [],
   st_archival_keys = [], st_archival_key_leaf_hashes = [],
   st_archival_signer_set = [], st_archival_threshold_m_of_n = None, st_archival_renewers = [],
   st_pending_upgrades = [], st_upgrade_leaf_hashes = [],
   st_recent_slashes = [], st_recent_slashes_leaf_hash = compute_recent_slashes_leaf_hash X [],
   st_slashing_registry = hput SLASHING_EVIDENCE_TYPE_EQUIVOCATION equivocation_entry [],
   st_slashing_registry_leaf_hashes =
     hput SLASHING_EVIDENCE_TYPE_EQUIVOCATION (compute_slashing_verifier_leaf_hash X equivocation_entry) [],
   st_hash_registry = hcollect (map (\<lambda>e. (he_hash_id e, e)) phase1_hash_registry),
   st_hash_registry_leaf_hashes =
     hcollect (map (\<lambda>e. (he_hash_id e, compute_hash_registry_leaf_hash X e)) phase1_hash_registry) \<rparr>"

section \<open>Algorithm registry and accounts\<close>

definition get_alg_entry :: "state_store \<Rightarrow> alg_id \<Rightarrow> alg_entry option" where
"get_alg_entry s a = hget (st_alg_registry s) (alg_as_u16 a)"

text \<open>A write through \<open>alg_entry_mut\<close>.\<close>

definition alg_entry_mut :: "alg_id \<Rightarrow> alg_entry \<Rightarrow> state_store \<Rightarrow> state_store" where
"alg_entry_mut a e s = s\<lparr> st_alg_registry := hput (alg_as_u16 a) e (st_alg_registry s) \<rparr>"

definition commit_alg_entry_mutation :: "xof \<Rightarrow> alg_id \<Rightarrow> state_store \<Rightarrow> state_store" where
"commit_alg_entry_mutation X a s =
   (case hget (st_alg_registry s) (alg_as_u16 a) of
      None \<Rightarrow> s
    | Some e \<Rightarrow> s\<lparr> st_alg_leaf_hashes :=
        hput (alg_as_u16 a) (compute_alg_leaf_hash X e) (st_alg_leaf_hashes s) \<rparr>)"

definition store_alg_min_fee :: "state_store \<Rightarrow> alg_id \<Rightarrow> nat option" where
"store_alg_min_fee s a = map_option ae_min_fee (get_alg_entry s a)"

definition insert_alg_entry :: "xof \<Rightarrow> alg_entry \<Rightarrow> state_store \<Rightarrow> state_store" where
"insert_alg_entry X e s =
   (let key = alg_as_u16 (ae_alg_id e) in
    s\<lparr> st_alg_leaf_hashes := hput key (compute_alg_leaf_hash X e) (st_alg_leaf_hashes s),
       st_alg_registry := hput key e (st_alg_registry s) \<rparr>)"

definition alg_entry_registered :: "state_store \<Rightarrow> nat \<Rightarrow> bool" where
"alg_entry_registered s raw = hhas (st_alg_registry s) raw"

definition get_account :: "state_store \<Rightarrow> address \<Rightarrow> account option" where
"get_account s addr = hget (st_accounts s) addr"

definition account_mut :: "address \<Rightarrow> account \<Rightarrow> state_store \<Rightarrow> state_store" where
"account_mut addr a s = s\<lparr> st_accounts := hput addr a (st_accounts s) \<rparr>"

definition commit_account_mutation :: "xof \<Rightarrow> address \<Rightarrow> state_store \<Rightarrow> state_store" where
"commit_account_mutation X addr s =
   (case hget (st_accounts s) addr of
      None \<Rightarrow> s
    | Some a \<Rightarrow> s\<lparr> st_account_leaf_hashes :=
        hput addr (compute_account_leaf_hash X a) (st_account_leaf_hashes s) \<rparr>)"

definition insert_account :: "xof \<Rightarrow> account \<Rightarrow> state_store \<Rightarrow> state_store" where
"insert_account X a s =
   s\<lparr> st_account_leaf_hashes :=
        hput (ac_address a) (compute_account_leaf_hash X a) (st_account_leaf_hashes s),
      st_accounts := hput (ac_address a) a (st_accounts s) \<rparr>"

section \<open>Attestations, anchors, rotations, receipts\<close>

definition get_attestation :: "state_store \<Rightarrow> hash32 \<Rightarrow> attestation option" where
"get_attestation s i = hget (st_attestations s) i"

definition insert_attestation :: "xof \<Rightarrow> attestation \<Rightarrow> state_store \<Rightarrow> state_store" where
"insert_attestation X a s =
   s\<lparr> st_attestation_leaf_hashes :=
        hput (at_attestation_id a) (compute_attestation_leaf_hash X a) (st_attestation_leaf_hashes s),
      st_attestations := hput (at_attestation_id a) a (st_attestations s) \<rparr>"

definition get_proof_anchor :: "state_store \<Rightarrow> hash32 \<Rightarrow> proof_anchor option" where
"get_proof_anchor s i = hget (st_proof_anchors s) i"

definition insert_proof_anchor :: "xof \<Rightarrow> proof_anchor \<Rightarrow> state_store \<Rightarrow> state_store" where
"insert_proof_anchor X a s =
   s\<lparr> st_proof_anchor_leaf_hashes :=
        hput (pa_anchor_id a) (compute_proof_anchor_leaf_hash X a) (st_proof_anchor_leaf_hashes s),
      st_proof_anchors := hput (pa_anchor_id a) a (st_proof_anchors s) \<rparr>"

definition get_consensus_key_rotation :: "state_store \<Rightarrow> address \<Rightarrow> consensus_key_rotation option" where
"get_consensus_key_rotation s operator = hget (st_consensus_key_rotations s) operator"

definition insert_consensus_key_rotation ::
    "xof \<Rightarrow> consensus_key_rotation \<Rightarrow> state_store \<Rightarrow> state_store" where
"insert_consensus_key_rotation X r s =
   s\<lparr> st_consensus_rotation_leaf_hashes :=
        hput (ro_operator r) (compute_consensus_rotation_leaf_hash X r) (st_consensus_rotation_leaf_hashes s),
      st_consensus_key_rotations := hput (ro_operator r) r (st_consensus_key_rotations s) \<rparr>"

definition get_governance_receipt :: "state_store \<Rightarrow> hash32 \<Rightarrow> governance_receipt option" where
"get_governance_receipt s i = hget (st_governance_receipts s) i"

definition insert_governance_receipt :: "xof \<Rightarrow> governance_receipt \<Rightarrow> state_store \<Rightarrow> state_store" where
"insert_governance_receipt X r s =
   s\<lparr> st_receipt_leaf_hashes :=
        hput (gr_proposal_id r) (compute_receipt_leaf_hash X r) (st_receipt_leaf_hashes s),
      st_governance_receipts := hput (gr_proposal_id r) r (st_governance_receipts s) \<rparr>"

section \<open>Validators\<close>

definition get_validator :: "state_store \<Rightarrow> address \<Rightarrow> validator_record option" where
"get_validator s operator = hget (st_validators s) operator"

definition validator_mut :: "address \<Rightarrow> validator_record \<Rightarrow> state_store \<Rightarrow> state_store" where
"validator_mut operator r s = s\<lparr> st_validators := hput operator r (st_validators s) \<rparr>"

definition commit_validator_mutation :: "xof \<Rightarrow> address \<Rightarrow> state_store \<Rightarrow> state_store" where
"commit_validator_mutation X operator s =
   (case hget (st_validators s) operator of
      None \<Rightarrow> s
    | Some r \<Rightarrow> s\<lparr> st_validator_leaf_hashes :=
        hput operator (compute_validator_leaf_hash X r) (st_validator_leaf_hashes s) \<rparr>)"

definition insert_validator :: "xof \<Rightarrow> validator_record \<Rightarrow> state_store \<Rightarrow> state_store" where
"insert_validator X r s =
   s\<lparr> st_validator_leaf_hashes :=
        hput (vr_operator r) (compute_validator_leaf_hash X r) (st_validator_leaf_hashes s),
      st_validators := hput (vr_operator r) r (st_validators s) \<rparr>"

text \<open>One due rotation: the record is removed in every case, and applied when the operator
  is a registered validator.\<close>

definition activate_one_rotation ::
    "xof \<Rightarrow> address \<Rightarrow> state_store \<times> (address \<times> alg_id) list \<Rightarrow> state_store \<times> (address \<times> alg_id) list" where
"activate_one_rotation X addr acc =
   (case acc of (s, activations) \<Rightarrow>
    case hget (st_consensus_key_rotations s) addr of
      None \<Rightarrow> (s, activations)
    | Some rotation \<Rightarrow>
        let s1 = s\<lparr> st_consensus_key_rotations := hdel addr (st_consensus_key_rotations s),
                    st_consensus_rotation_leaf_hashes := hdel addr (st_consensus_rotation_leaf_hashes s) \<rparr>
        in case hget (st_validators s1) addr of
             None \<Rightarrow> (s1, activations)
           | Some r \<Rightarrow>
               (commit_validator_mutation X addr
                  (validator_mut addr (r\<lparr> vr_consensus_alg_id := ro_new_alg_id rotation,
                                          vr_consensus_pk := ro_new_pk_bytes rotation \<rparr>) s1),
                activations @ [(ro_operator rotation, ro_new_alg_id rotation)]))"

definition activate_pending_consensus_key_rotations ::
    "xof \<Rightarrow> nat \<Rightarrow> state_store \<Rightarrow> state_store \<times> (address \<times> alg_id) list" where
"activate_pending_consensus_key_rotations X current_height s =
   (let due = sort (map fst (filter (\<lambda>(addr, r). ro_rotation_start_height r \<le> current_height)
                 (st_consensus_key_rotations s)))
    in fold (activate_one_rotation X) due (s, []))"

definition get_validator_peer_id :: "state_store \<Rightarrow> address \<Rightarrow> bytes option" where
"get_validator_peer_id s operator = hget (st_peer_id_bindings s) operator"

definition set_validator_peer_id :: "xof \<Rightarrow> address \<Rightarrow> bytes \<Rightarrow> state_store \<Rightarrow> state_store" where
"set_validator_peer_id X operator peer_id s =
   (if peer_id = [] then
      s\<lparr> st_peer_id_bindings := hdel operator (st_peer_id_bindings s),
         st_peer_id_binding_leaf_hashes := hdel operator (st_peer_id_binding_leaf_hashes s) \<rparr>
    else
      s\<lparr> st_peer_id_binding_leaf_hashes :=
           hput operator (compute_peer_id_binding_leaf_hash X operator peer_id) (st_peer_id_binding_leaf_hashes s),
         st_peer_id_bindings := hput operator peer_id (st_peer_id_bindings s) \<rparr>)"

definition peer_id_in_use :: "state_store \<Rightarrow> bytes \<Rightarrow> bool" where
"peer_id_in_use s peer_id =
   (peer_id \<noteq> [] \<and>
    list_ex (\<lambda>(op_bytes, bound). bound = peer_id \<and>
      map_option vr_status (hget (st_validators s) op_bytes) \<in> {Some VS_Active, Some VS_Candidate, Some VS_Jailed})
      (st_peer_id_bindings s))"

definition validator_candidates_ordered :: "state_store \<Rightarrow> address list" where
"validator_candidates_ordered s =
   map vr_operator (sort_key (\<lambda>v. (vr_registered_height v, vr_operator v))
     (filter (\<lambda>v. vr_status v = VS_Candidate) (hvals (st_validators s))))"

definition activate_validator :: "xof \<Rightarrow> address \<Rightarrow> state_store \<Rightarrow> state_store" where
"activate_validator X operator s =
   (case hget (st_validators s) operator of
      None \<Rightarrow> s
    | Some r \<Rightarrow>
        if vr_status r = VS_Candidate then
          let r' = r\<lparr> vr_status := VS_Active \<rparr> in
          s\<lparr> st_validators := hput operator r' (st_validators s),
             st_validator_leaf_hashes :=
               hput operator (compute_validator_leaf_hash X r') (st_validator_leaf_hashes s) \<rparr>
        else s)"

definition active_self_bond_total :: "state_store \<Rightarrow> nat" where
"active_self_bond_total s =
   foldl (\<lambda>acc b. saturating_add U128_MAX acc b) 0
     (map vr_self_bond (filter (\<lambda>v. vr_status v = VS_Active) (hvals (st_validators s))))"

text \<open>The selection loop of \<open>process_epoch_transitions\<close>: the first candidate always fits.\<close>

fun select_candidates :: "state_store \<Rightarrow> nat \<Rightarrow> address list \<Rightarrow> address list \<Rightarrow> nat \<Rightarrow> address list" where
"select_candidates s limit [] candidates accumulated = candidates" |
"select_candidates s limit (operator # ordered) candidates accumulated =
   (case hget (st_validators s) operator of
      None \<Rightarrow> select_candidates s limit ordered candidates accumulated
    | Some record \<Rightarrow>
        let next_total = saturating_add U128_MAX accumulated (vr_self_bond record) in
        if next_total > limit \<and> candidates \<noteq> [] then candidates
        else select_candidates s limit ordered (candidates @ [operator]) next_total)"

definition process_epoch_transitions :: "xof \<Rightarrow> churn_config \<Rightarrow> state_store \<Rightarrow> state_store" where
"process_epoch_transitions X churn s =
   (let active_stake = active_self_bond_total s;
        limit = stake_weighted_activation_limit active_stake churn;
        candidates = select_candidates s limit (validator_candidates_ordered s) [] 0
    in fold (activate_validator X) candidates s)"

definition active_validators :: "state_store \<Rightarrow> validator_record list" where
"active_validators s =
   sort_key vr_operator (filter (\<lambda>v. vr_status v = VS_Active) (hvals (st_validators s)))"

definition active_validator_count :: "state_store \<Rightarrow> nat" where
"active_validator_count s = length (filter (\<lambda>v. vr_status v = VS_Active) (hvals (st_validators s)))"

definition unbonding_expired :: "nat \<Rightarrow> validator_record \<Rightarrow> bool" where
"unbonding_expired current_height r =
   (case vr_status r of
      VS_Unbonding start_height \<Rightarrow> current_height \<ge> saturating_add U64_MAX start_height VALIDATOR_UNBONDING_PERIOD
    | _ \<Rightarrow> False)"

definition process_validator_unbonding_expirations ::
    "xof \<Rightarrow> nat \<Rightarrow> state_store \<Rightarrow> state_store \<times> (address \<times> nat) list" where
"process_validator_unbonding_expirations X current_height s =
   (let exits = map (\<lambda>r. (vr_operator r, vr_self_bond r))
                  (filter (unbonding_expired current_height) (hvals (st_validators s)));
        s1 = s\<lparr> st_validators := map (\<lambda>(k, r).
                  (k, if unbonding_expired current_height r then r\<lparr> vr_status := VS_Exited \<rparr> else r))
                  (st_validators s) \<rparr>
    in (fold (\<lambda>(operator, bond) t. commit_validator_mutation X operator t) exits s1, exits))"

definition consensus_key_in_use :: "state_store \<Rightarrow> bytes \<Rightarrow> bool" where
"consensus_key_in_use s pk =
   list_ex (\<lambda>v. vr_status v \<in> {VS_Active, VS_Candidate} \<and> vr_consensus_pk v = pk) (hvals (st_validators s))"

definition total_active_self_bond :: "state_store \<Rightarrow> nat" where
"total_active_self_bond s =
   foldl (\<lambda>acc v. saturating_add U128_MAX acc (vr_self_bond v)) 0
     (filter (\<lambda>v. vr_status v = VS_Active) (hvals (st_validators s)))"

definition is_active_validator :: "state_store \<Rightarrow> address \<Rightarrow> bool" where
"is_active_validator s addr =
   (case hget (st_validators s) addr of None \<Rightarrow> False | Some v \<Rightarrow> vr_status v = VS_Active)"

section \<open>Proposals, upgrades, slashes, registries\<close>

definition get_pending_proposal :: "state_store \<Rightarrow> hash32 \<Rightarrow> pending_proposal option" where
"get_pending_proposal s i = hget (st_pending_proposals s) i"

definition pending_proposal_mut :: "hash32 \<Rightarrow> pending_proposal \<Rightarrow> state_store \<Rightarrow> state_store" where
"pending_proposal_mut i p s = s\<lparr> st_pending_proposals := hput i p (st_pending_proposals s) \<rparr>"

definition insert_pending_proposal :: "xof \<Rightarrow> pending_proposal \<Rightarrow> state_store \<Rightarrow> state_store" where
"insert_pending_proposal X p s =
   s\<lparr> st_proposal_leaf_hashes :=
        hput (pp_proposal_id p) (compute_proposal_leaf_hash X p) (st_proposal_leaf_hashes s),
      st_pending_proposals := hput (pp_proposal_id p) p (st_pending_proposals s) \<rparr>"

definition commit_proposal_mutation :: "xof \<Rightarrow> hash32 \<Rightarrow> state_store \<Rightarrow> state_store" where
"commit_proposal_mutation X i s =
   (case hget (st_pending_proposals s) i of
      None \<Rightarrow> s
    | Some p \<Rightarrow> s\<lparr> st_proposal_leaf_hashes :=
        hput i (compute_proposal_leaf_hash X p) (st_proposal_leaf_hashes s) \<rparr>)"

definition pending_proposals_in_order :: "state_store \<Rightarrow> pending_proposal list" where
"pending_proposals_in_order s = sort_key pp_proposal_id (hvals (st_pending_proposals s))"

definition insert_pending_upgrade :: "xof \<Rightarrow> pending_upgrade \<Rightarrow> state_store \<Rightarrow> state_store" where
"insert_pending_upgrade X u s =
   s\<lparr> st_upgrade_leaf_hashes :=
        hput (pu_proposal_id u) (compute_upgrade_leaf_hash X u) (st_upgrade_leaf_hashes s),
      st_pending_upgrades := hput (pu_proposal_id u) u (st_pending_upgrades s) \<rparr>"

definition remove_pending_upgrade :: "hash32 \<Rightarrow> state_store \<Rightarrow> state_store" where
"remove_pending_upgrade i s =
   s\<lparr> st_pending_upgrades := hdel i (st_pending_upgrades s),
      st_upgrade_leaf_hashes := hdel i (st_upgrade_leaf_hashes s) \<rparr>"

definition pending_upgrades_in_order :: "state_store \<Rightarrow> pending_upgrade list" where
"pending_upgrades_in_order s =
   sort_key (\<lambda>u. (pu_activate_at_timestamp_ns u, pu_proposal_id u)) (hvals (st_pending_upgrades s))"

definition recent_slashed_stake_in_window :: "state_store \<Rightarrow> nat \<Rightarrow> nat \<Rightarrow> nat" where
"recent_slashed_stake_in_window s current_height window_blocks =
   (let cutoff = saturating_sub current_height window_blocks in
    foldl (\<lambda>acc e. saturating_add U128_MAX acc (rs_slashed_stake e)) 0
      (filter (\<lambda>e. rs_height e \<ge> cutoff \<and> rs_height e \<le> current_height) (st_recent_slashes s)))"

definition record_recent_slash :: "xof \<Rightarrow> recent_slash_entry \<Rightarrow> state_store \<Rightarrow> state_store" where
"record_recent_slash X e s =
   (let es = st_recent_slashes s @ [e] in
    s\<lparr> st_recent_slashes := es, st_recent_slashes_leaf_hash := compute_recent_slashes_leaf_hash X es \<rparr>)"

definition prune_recent_slashes_before :: "xof \<Rightarrow> nat \<Rightarrow> state_store \<Rightarrow> state_store" where
"prune_recent_slashes_before X cutoff_height s =
   (let es = dropWhile (\<lambda>e. rs_height e < cutoff_height) (st_recent_slashes s) in
    if length es < length (st_recent_slashes s)
    then s\<lparr> st_recent_slashes := es, st_recent_slashes_leaf_hash := compute_recent_slashes_leaf_hash X es \<rparr>
    else s)"

definition get_slashing_verifier_entry :: "state_store \<Rightarrow> nat \<Rightarrow> slashing_verifier_entry option" where
"get_slashing_verifier_entry s evidence_type = hget (st_slashing_registry s) evidence_type"

definition insert_slashing_verifier_entry ::
    "xof \<Rightarrow> slashing_verifier_entry \<Rightarrow> state_store \<Rightarrow> state_store" where
"insert_slashing_verifier_entry X e s =
   (let key = se_evidence_type e in
    s\<lparr> st_slashing_registry_leaf_hashes :=
         hput key (compute_slashing_verifier_leaf_hash X e) (st_slashing_registry_leaf_hashes s),
       st_slashing_registry := hput key e (st_slashing_registry s) \<rparr>)"

definition slashing_verifier_registered :: "state_store \<Rightarrow> nat \<Rightarrow> bool" where
"slashing_verifier_registered s evidence_type = hhas (st_slashing_registry s) evidence_type"

definition commit_slashing_verifier_mutation :: "xof \<Rightarrow> nat \<Rightarrow> state_store \<Rightarrow> state_store" where
"commit_slashing_verifier_mutation X evidence_type s =
   (case hget (st_slashing_registry s) evidence_type of
      None \<Rightarrow> s
    | Some e \<Rightarrow> s\<lparr> st_slashing_registry_leaf_hashes :=
        hput evidence_type (compute_slashing_verifier_leaf_hash X e) (st_slashing_registry_leaf_hashes s) \<rparr>)"

definition get_hash_entry :: "state_store \<Rightarrow> nat \<Rightarrow> hash_entry option" where
"get_hash_entry s hash_id = hget (st_hash_registry s) hash_id"

definition insert_hash_entry :: "xof \<Rightarrow> hash_entry \<Rightarrow> state_store \<Rightarrow> state_store" where
"insert_hash_entry X e s =
   (let key = he_hash_id e in
    s\<lparr> st_hash_registry_leaf_hashes :=
         hput key (compute_hash_registry_leaf_hash X e) (st_hash_registry_leaf_hashes s),
       st_hash_registry := hput key e (st_hash_registry s) \<rparr>)"

definition hash_registered :: "state_store \<Rightarrow> nat \<Rightarrow> bool" where
"hash_registered s hash_id = hhas (st_hash_registry s) hash_id"

definition effective_slash_fraction_bps :: "state_store \<Rightarrow> nat \<Rightarrow> nat" where
"effective_slash_fraction_bps s evidence_type =
   (case hget (st_slashing_registry s) evidence_type of
      None \<Rightarrow> DEFAULT_EQUIVOCATION_SLASH_FRACTION_BPS
    | Some e \<Rightarrow> se_slash_fraction_bps e)"

section \<open>Archival overlay\<close>

definition get_archival_record :: "state_store \<Rightarrow> nat \<Rightarrow> archival_record option" where
"get_archival_record s epoch_number = hget (st_archival_records s) epoch_number"

definition insert_archival_record :: "xof \<Rightarrow> archival_record \<Rightarrow> state_store \<Rightarrow> state_store" where
"insert_archival_record X r s =
   (let epoch = av_epoch_number r in
    s\<lparr> st_archival_record_leaf_hashes :=
         hput epoch (compute_archival_record_leaf_hash X r) (st_archival_record_leaf_hashes s),
       st_archival_records := hput epoch r (st_archival_records s) \<rparr>)"

definition push_archival_anchor :: "xof \<Rightarrow> nat \<Rightarrow> timestamp_anchor \<Rightarrow> state_store \<Rightarrow> state_store" where
"push_archival_anchor X epoch_number anchor s =
   (case hget (st_archival_records s) epoch_number of
      None \<Rightarrow> s
    | Some r \<Rightarrow>
        let r' = r\<lparr> av_timestamp_anchors := av_timestamp_anchors r @ [anchor] \<rparr> in
        s\<lparr> st_archival_records := hput epoch_number r' (st_archival_records s),
           st_archival_record_leaf_hashes :=
             hput epoch_number (compute_archival_record_leaf_hash X r') (st_archival_record_leaf_hashes s) \<rparr>)"

definition increment_archival_record_version ::
    "xof \<Rightarrow> nat \<Rightarrow> hash32 \<Rightarrow> nat \<Rightarrow> state_store \<Rightarrow> state_store" where
"increment_archival_record_version X epoch_number ers_bundle_hash current_block_height s =
   (case hget (st_archival_records s) epoch_number of
      None \<Rightarrow> s
    | Some r \<Rightarrow>
        let r' = r\<lparr> av_evidence_record_version := saturating_add U16_MAX (av_evidence_record_version r) 1,
                    av_timestamp_anchors := av_timestamp_anchors r @
                      [\<lparr> ta_kind = AK_Rfc3161Tsa, ta_tsa_ref = None, ta_external_hash = ers_bundle_hash,
                         ta_posted_at_height = current_block_height \<rparr>] \<rparr> in
        s\<lparr> st_archival_records := hput epoch_number r' (st_archival_records s),
           st_archival_record_leaf_hashes :=
             hput epoch_number (compute_archival_record_leaf_hash X r') (st_archival_record_leaf_hashes s) \<rparr>)"

definition get_archival_key :: "state_store \<Rightarrow> address \<Rightarrow> validator_archival_key option" where
"get_archival_key s operator = hget (st_archival_keys s) operator"

definition insert_archival_key :: "xof \<Rightarrow> validator_archival_key \<Rightarrow> state_store \<Rightarrow> state_store" where
"insert_archival_key X k s =
   s\<lparr> st_archival_key_leaf_hashes :=
        hput (vk_operator k) (compute_archival_key_leaf_hash X k) (st_archival_key_leaf_hashes s),
      st_archival_keys := hput (vk_operator k) k (st_archival_keys s) \<rparr>"

definition is_archival_signer :: "state_store \<Rightarrow> address \<Rightarrow> bool" where
"is_archival_signer s addr =
   (if st_archival_signer_set s \<noteq> [] then addr \<in> set (st_archival_signer_set s)
    else is_active_validator s addr \<and> hhas (st_archival_keys s) addr)"

definition archival_threshold :: "state_store \<Rightarrow> nat \<times> nat" where
"archival_threshold s =
   (case st_archival_threshold_m_of_n s of
      Some t \<Rightarrow> t
    | None \<Rightarrow>
        let n = (if st_archival_signer_set s \<noteq> [] then length (st_archival_signer_set s)
                 else length (filter (\<lambda>v. hhas (st_archival_keys s) (vr_operator v))
                        (filter (\<lambda>v. vr_status v = VS_Active) (hvals (st_validators s)))));
            n_u16 = min n U16_MAX;
            m = saturating_add U16_MAX (saturating_mul U16_MAX n_u16 2) 2 div 3
        in (m, n_u16))"

definition is_archival_renewer :: "state_store \<Rightarrow> address \<Rightarrow> bool" where
"is_archival_renewer s addr = (addr \<in> set (st_archival_renewers s))"

section \<open>Fee market, storage fund, height\<close>

definition base_fee_dynamic :: "state_store \<Rightarrow> nat" where
"base_fee_dynamic s = fd_base_fee (fm_compute (st_fee_market s))"

definition restore_fee_market :: "xof \<Rightarrow> fee_market_state \<Rightarrow> state_store \<Rightarrow> state_store" where
"restore_fee_market X m s =
   s\<lparr> st_fee_market_leaf_hash := compute_fee_market_leaf_hash X m, st_fee_market := m \<rparr>"

definition recompute_fee_market_leaf_hash :: "xof \<Rightarrow> state_store \<Rightarrow> state_store" where
"recompute_fee_market_leaf_hash X s =
   s\<lparr> st_fee_market_leaf_hash := compute_fee_market_leaf_hash X (st_fee_market s) \<rparr>"

definition restore_storage_fund :: "xof \<Rightarrow> storage_fund_state \<Rightarrow> state_store \<Rightarrow> state_store" where
"restore_storage_fund X f s =
   s\<lparr> st_storage_fund_leaf_hash := compute_storage_fund_leaf_hash X f, st_storage_fund := f \<rparr>"

definition recompute_storage_fund_leaf_hash :: "xof \<Rightarrow> state_store \<Rightarrow> state_store" where
"recompute_storage_fund_leaf_hash X s =
   s\<lparr> st_storage_fund_leaf_hash := compute_storage_fund_leaf_hash X (st_storage_fund s) \<rparr>"

definition credit_storage_fund :: "xof \<Rightarrow> nat \<Rightarrow> state_store \<Rightarrow> state_store" where
"credit_storage_fund X amount s =
   recompute_storage_fund_leaf_hash X (s\<lparr> st_storage_fund := fund_credit amount (st_storage_fund s) \<rparr>)"

definition debit_storage_fund :: "xof \<Rightarrow> nat \<Rightarrow> state_store \<Rightarrow> state_store \<times> nat" where
"debit_storage_fund X amount s =
   (case fund_debit amount (st_storage_fund s) of (f, debited) \<Rightarrow>
      (recompute_storage_fund_leaf_hash X (s\<lparr> st_storage_fund := f \<rparr>), debited))"

definition apply_fee_market_step :: "xof \<Rightarrow> nat \<Rightarrow> nat \<Rightarrow> nat \<Rightarrow> nat \<Rightarrow> state_store \<Rightarrow> state_store option" where
"apply_fee_market_step X compute_used storage_used witness_used contention_used s =
   map_option (\<lambda>m. s\<lparr> st_fee_market := m, st_fee_market_leaf_hash := compute_fee_market_leaf_hash X m \<rparr>)
     (market_step compute_used storage_used witness_used contention_used (st_fee_market s))"

definition apply_aimd_update :: "xof \<Rightarrow> nat \<Rightarrow> state_store \<Rightarrow> state_store option" where
"apply_aimd_update X block_gas_used s = apply_fee_market_step X block_gas_used 0 0 0 s"

definition key_activates :: "nat \<Rightarrow> key_entry \<Rightarrow> bool" where
"key_activates h k = (ke_status k = KS_Pending \<and> h \<ge> ke_valid_from_height k)"

definition activate_keys :: "nat \<Rightarrow> account \<Rightarrow> account" where
"activate_keys h a =
   a\<lparr> ac_keys := map (\<lambda>k. if key_activates h k then k\<lparr> ke_status := KS_Active \<rparr> else k) (ac_keys a) \<rparr>"

text \<open>\<open>block_height += 1\<close> panics at the top of the 64-bit range.\<close>

definition advance_height :: "xof \<Rightarrow> state_store \<Rightarrow> state_store option" where
"advance_height X s =
   (case checked_add U64_MAX (st_block_height s) 1 of
      None \<Rightarrow> None
    | Some h \<Rightarrow>
        let activating = map ac_address
              (filter (\<lambda>a. list_ex (key_activates h) (ac_keys a)) (hvals (st_accounts s)));
            s1 = s\<lparr> st_block_height := h,
                    st_accounts := map (\<lambda>(addr, a). (addr, activate_keys h a)) (st_accounts s) \<rparr>
        in Some (fold (commit_account_mutation X) activating s1))"

section \<open>Restoring a snapshot\<close>

definition set_chain_id :: "bytes \<Rightarrow> state_store \<Rightarrow> state_store" where
"set_chain_id chain_id s = s\<lparr> st_chain_id := chain_id \<rparr>"

definition from_snapshot_full_with_proofs ::
    "xof \<Rightarrow> account list \<Rightarrow> attestation list \<Rightarrow> proof_anchor list \<Rightarrow> governance_receipt list
     \<Rightarrow> alg_entry list \<Rightarrow> nat \<Rightarrow> bytes \<Rightarrow> state_store" where
"from_snapshot_full_with_proofs X accounts attestations proof_anchors receipts alg_entries height chain_id =
   (let s0 = store_new X;
        s1 = fold (insert_account X) accounts s0;
        s2 = fold (insert_attestation X) attestations s1;
        s3 = fold (insert_proof_anchor X) proof_anchors s2;
        s4 = fold (insert_governance_receipt X) receipts s3;
        s5 = s4\<lparr> st_alg_registry := [], st_alg_leaf_hashes := [] \<rparr>;
        s6 = fold (insert_alg_entry X) alg_entries s5
    in s6\<lparr> st_block_height := height, st_chain_id := chain_id \<rparr>)"

section \<open>The state root\<close>

definition category_leaves ::
    "xof \<Rightarrow> state_category \<Rightarrow> ('k::linorder \<Rightarrow> bytes) \<Rightarrow> ('k, hash32) hmap \<Rightarrow> hash32 list" where
"category_leaves X cat enc leaves =
   map (\<lambda>(k, leaf). state_merkle_leaf X cat (enc k) leaf) (sort_key fst leaves)"

definition state_root :: "xof \<Rightarrow> state_store \<Rightarrow> hash32" where
"state_root X s = binary_merkle_root X
   ([state_merkle_leaf X Cat_BlockHeight [] (u64b (st_block_height s))]
    @ category_leaves X Cat_Account id (st_account_leaf_hashes s)
    @ category_leaves X Cat_Attestation id (st_attestation_leaf_hashes s)
    @ category_leaves X Cat_ProofAnchor id (st_proof_anchor_leaf_hashes s)
    @ category_leaves X Cat_ConsensusRotation id (st_consensus_rotation_leaf_hashes s)
    @ category_leaves X Cat_AlgRegistry u16b (st_alg_leaf_hashes s)
    @ category_leaves X Cat_Receipt id (st_receipt_leaf_hashes s)
    @ category_leaves X Cat_Validator id (st_validator_leaf_hashes s)
    @ category_leaves X Cat_Proposal id (st_proposal_leaf_hashes s)
    @ category_leaves X Cat_Upgrade id (st_upgrade_leaf_hashes s)
    @ [state_merkle_leaf X Cat_FeeMarket [] (st_fee_market_leaf_hash s),
       state_merkle_leaf X Cat_StorageFund [] (st_storage_fund_leaf_hash s),
       state_merkle_leaf X Cat_RecentSlashes [] (st_recent_slashes_leaf_hash s)]
    @ category_leaves X Cat_PeerIdBinding id (st_peer_id_binding_leaf_hashes s)
    @ category_leaves X Cat_SlashingRegistry byte1 (st_slashing_registry_leaf_hashes s)
    @ category_leaves X Cat_HashRegistry byte1 (st_hash_registry_leaf_hashes s)
    @ category_leaves X Cat_ArchivalRecord u64b (st_archival_record_leaf_hashes s)
    @ category_leaves X Cat_ArchivalKey id (st_archival_key_leaf_hashes s))
   STATE_BRANCH_DOMAIN"

end
