(* ===== verification/State_Root.thy ===== *)
theory State_Root
  imports State_Store
begin

text \<open>
  Coherence of the leaf-hash caches of the state store.  \<open>coherent X s\<close> says that every
  cache holds exactly the leaf hashes of its entity map.  It holds for a fresh store and
  is kept by every operation, and under it the incremental \<open>state_root\<close> equals
  \<open>reference_root\<close>, which rebuilds all leaf hashes from the entities.
\<close>

named_theorems coherent_intros "operations that keep the caches coherent"

section \<open>One cached table\<close>

definition coh :: "('k \<Rightarrow> 'v \<Rightarrow> hash32) \<Rightarrow> ('k, 'v) hmap \<Rightarrow> ('k, hash32) hmap \<Rightarrow> bool" where
"coh f es ls = (hwf es \<and> hwf ls \<and> (\<forall>k. hget ls k = map_option (f k) (hget es k)))"

lemma coh_Nil [simp]: "coh f [] []"
  by (simp add: coh_def)

lemma coh_hput: "coh f es ls \<Longrightarrow> h = f k v \<Longrightarrow> coh f (hput k v es) (hput k h ls)"
  by (simp add: coh_def map_simps)

lemma coh_hdel: "coh f es ls \<Longrightarrow> coh f (hdel k es) (hdel k ls)"
  by (simp add: coh_def map_simps)

lemma coh_refresh: "coh f es ls \<Longrightarrow> hget es k = Some v \<Longrightarrow> h = f k v \<Longrightarrow> coh f es (hput k h ls)"
  by (simp add: coh_def map_simps)

lemma coh_refresh_all:
  assumes "hwf es" "hwf ls" "\<forall>k. k \<notin> set ks \<longrightarrow> hget ls k = map_option (f k) (hget es k)"
    "\<forall>k\<in>set ks. hget es k \<noteq> None"
  shows "coh f es (fold (\<lambda>k l. case hget es k of None \<Rightarrow> l | Some v \<Rightarrow> hput k (f k v) l) ks ls)"
  using assms
proof (induction ks arbitrary: ls)
  case Nil
  then show ?case by (simp add: coh_def)
next
  case (Cons k ks)
  then obtain v where v: "hget es k = Some v" by auto
  show ?case using Cons.prems v
    by (auto intro!: Cons.IH simp: map_simps)
qed

section \<open>The whole store\<close>

definition coherent :: "xof \<Rightarrow> state_store \<Rightarrow> bool" where
"coherent X s =
   (coh (\<lambda>_. compute_account_leaf_hash X) (st_accounts s) (st_account_leaf_hashes s)
  \<and> coh (\<lambda>_. compute_attestation_leaf_hash X) (st_attestations s) (st_attestation_leaf_hashes s)
  \<and> coh (\<lambda>_. compute_proof_anchor_leaf_hash X) (st_proof_anchors s) (st_proof_anchor_leaf_hashes s)
  \<and> coh (\<lambda>_. compute_consensus_rotation_leaf_hash X) (st_consensus_key_rotations s) (st_consensus_rotation_leaf_hashes s)
  \<and> coh (\<lambda>_. compute_alg_leaf_hash X) (st_alg_registry s) (st_alg_leaf_hashes s)
  \<and> coh (\<lambda>_. compute_receipt_leaf_hash X) (st_governance_receipts s) (st_receipt_leaf_hashes s)
  \<and> coh (\<lambda>_. compute_validator_leaf_hash X) (st_validators s) (st_validator_leaf_hashes s)
  \<and> coh (\<lambda>_. compute_proposal_leaf_hash X) (st_pending_proposals s) (st_proposal_leaf_hashes s)
  \<and> coh (\<lambda>_. compute_upgrade_leaf_hash X) (st_pending_upgrades s) (st_upgrade_leaf_hashes s)
  \<and> st_fee_market_leaf_hash s = compute_fee_market_leaf_hash X (st_fee_market s)
  \<and> st_storage_fund_leaf_hash s = compute_storage_fund_leaf_hash X (st_storage_fund s)
  \<and> st_recent_slashes_leaf_hash s = compute_recent_slashes_leaf_hash X (st_recent_slashes s)
  \<and> coh (compute_peer_id_binding_leaf_hash X) (st_peer_id_bindings s) (st_peer_id_binding_leaf_hashes s)
  \<and> coh (\<lambda>_. compute_slashing_verifier_leaf_hash X) (st_slashing_registry s) (st_slashing_registry_leaf_hashes s)
  \<and> coh (\<lambda>_. compute_hash_registry_leaf_hash X) (st_hash_registry s) (st_hash_registry_leaf_hashes s)
  \<and> coh (\<lambda>_. compute_archival_record_leaf_hash X) (st_archival_records s) (st_archival_record_leaf_hashes s)
  \<and> coh (\<lambda>_. compute_archival_key_leaf_hash X) (st_archival_keys s) (st_archival_key_leaf_hashes s))"

definition entity_leaves ::
    "xof \<Rightarrow> state_category \<Rightarrow> ('k::linorder \<Rightarrow> bytes) \<Rightarrow> ('k \<Rightarrow> 'v \<Rightarrow> hash32) \<Rightarrow> ('k, 'v) hmap \<Rightarrow> hash32 list" where
"entity_leaves X cat enc f es = category_leaves X cat enc (map (\<lambda>(k, v). (k, f k v)) es)"

definition reference_root :: "xof \<Rightarrow> state_store \<Rightarrow> hash32" where
"reference_root X s = binary_merkle_root X
   ([state_merkle_leaf X Cat_BlockHeight [] (u64b (st_block_height s))]
    @ entity_leaves X Cat_Account id (\<lambda>_. compute_account_leaf_hash X) (st_accounts s)
    @ entity_leaves X Cat_Attestation id (\<lambda>_. compute_attestation_leaf_hash X) (st_attestations s)
    @ entity_leaves X Cat_ProofAnchor id (\<lambda>_. compute_proof_anchor_leaf_hash X) (st_proof_anchors s)
    @ entity_leaves X Cat_ConsensusRotation id (\<lambda>_. compute_consensus_rotation_leaf_hash X) (st_consensus_key_rotations s)
    @ entity_leaves X Cat_AlgRegistry u16b (\<lambda>_. compute_alg_leaf_hash X) (st_alg_registry s)
    @ entity_leaves X Cat_Receipt id (\<lambda>_. compute_receipt_leaf_hash X) (st_governance_receipts s)
    @ entity_leaves X Cat_Validator id (\<lambda>_. compute_validator_leaf_hash X) (st_validators s)
    @ entity_leaves X Cat_Proposal id (\<lambda>_. compute_proposal_leaf_hash X) (st_pending_proposals s)
    @ entity_leaves X Cat_Upgrade id (\<lambda>_. compute_upgrade_leaf_hash X) (st_pending_upgrades s)
    @ [state_merkle_leaf X Cat_FeeMarket [] (compute_fee_market_leaf_hash X (st_fee_market s)),
       state_merkle_leaf X Cat_StorageFund [] (compute_storage_fund_leaf_hash X (st_storage_fund s)),
       state_merkle_leaf X Cat_RecentSlashes [] (compute_recent_slashes_leaf_hash X (st_recent_slashes s))]
    @ entity_leaves X Cat_PeerIdBinding id (compute_peer_id_binding_leaf_hash X) (st_peer_id_bindings s)
    @ entity_leaves X Cat_SlashingRegistry byte1 (\<lambda>_. compute_slashing_verifier_leaf_hash X) (st_slashing_registry s)
    @ entity_leaves X Cat_HashRegistry byte1 (\<lambda>_. compute_hash_registry_leaf_hash X) (st_hash_registry s)
    @ entity_leaves X Cat_ArchivalRecord u64b (\<lambda>_. compute_archival_record_leaf_hash X) (st_archival_records s)
    @ entity_leaves X Cat_ArchivalKey id (\<lambda>_. compute_archival_key_leaf_hash X) (st_archival_keys s))
   STATE_BRANCH_DOMAIN"

section \<open>The incremental root is the reference root\<close>

lemma sort_key_fst_unique:
  fixes xs ys :: "('k::linorder \<times> 'v) list"
  assumes "hwf xs" "hwf ys" "\<forall>k. hget xs k = hget ys k"
  shows "sort_key fst xs = sort_key fst ys"
proof (rule map_sorted_distinct_set_unique)
  have eq: "set xs = set ys"
    using assms by (auto simp: mem_hget)
  have "distinct (map fst xs)" "distinct (map fst ys)" using assms by (simp_all add: hwf_def)
  then show "distinct (map fst (sort_key fst xs))" "distinct (map fst (sort_key fst ys))"
    by (simp_all add: distinct_map)
  show "set (sort_key fst xs) = set (sort_key fst ys)" using eq by simp
  show "inj_on fst (set (sort_key fst xs) \<union> set (sort_key fst ys))"
    using eq \<open>distinct (map fst xs)\<close> by (simp add: distinct_map)
qed simp_all

lemma hget_map_pairs: "hget (map (\<lambda>(k, v). (k, f k v)) es) k = map_option (f k) (hget es k)"
  unfolding hget_def by (induction es) auto

lemma hwf_map_pairs: "hwf (map (\<lambda>(k, v). (k, f k v)) es) = hwf es"
  by (simp add: hwf_def case_prod_unfold comp_def)

lemma coh_leaves: "coh f es ls \<Longrightarrow> category_leaves X cat enc ls = entity_leaves X cat enc f es"
  unfolding entity_leaves_def category_leaves_def
  by (rule arg_cong [where f = "map _"], rule sort_key_fst_unique)
     (auto simp: coh_def hget_map_pairs hwf_map_pairs)

lemma coherent_root: "coherent X s \<Longrightarrow> state_root X s = reference_root X s"
  unfolding coherent_def state_root_def reference_root_def
  by (elim conjE, rule arg_cong2 [where f = "binary_merkle_root X"], intro arg_cong2 [where f = "(@)"] coh_leaves)
     simp_all

section \<open>Every operation keeps the caches coherent\<close>

lemma coh_hcollect_aux:
  "coh f es ls \<Longrightarrow>
   coh f (fold (\<lambda>(k, v) m. hput k v m) (map (\<lambda>e. (key e, e)) xs) es)
         (fold (\<lambda>(k, v) m. hput k v m) (map (\<lambda>e. (key e, f (key e) e)) xs) ls)"
  by (induction xs arbitrary: es ls) (simp_all add: coh_hput)

lemma coh_hcollect:
  "coh f (hcollect (map (\<lambda>e. (key e, e)) xs)) (hcollect (map (\<lambda>e. (key e, f (key e) e)) xs))"
  unfolding hcollect_def by (rule coh_hcollect_aux) simp

lemma coherent_store_new [coherent_intros]: "coherent X (store_new X)"
  using coh_hcollect [of "\<lambda>_. compute_alg_leaf_hash X" "\<lambda>e. alg_as_u16 (ae_alg_id e)" phase1_registry]
    coh_hcollect [of "\<lambda>_. compute_hash_registry_leaf_hash X" he_hash_id phase1_hash_registry]
    coh_hput [OF coh_Nil refl, of "\<lambda>_. compute_slashing_verifier_leaf_hash X"
      SLASHING_EVIDENCE_TYPE_EQUIVOCATION equivocation_entry]
  by (simp add: coherent_def store_new_def)

lemma coherent_insert_alg_entry [coherent_intros]:
  "coherent X s \<Longrightarrow> coherent X (insert_alg_entry X e s)"
  by (simp add: coherent_def insert_alg_entry_def Let_def coh_hput)

lemma coherent_alg_mutation [coherent_intros]:
  "coherent X s \<Longrightarrow> coherent X (commit_alg_entry_mutation X a (alg_entry_mut a e s))"
  by (simp add: coherent_def commit_alg_entry_mutation_def alg_entry_mut_def coh_hput)

lemma coherent_insert_account [coherent_intros]:
  "coherent X s \<Longrightarrow> coherent X (insert_account X a s)"
  by (simp add: coherent_def insert_account_def coh_hput)

lemma coherent_account_mutation [coherent_intros]:
  "coherent X s \<Longrightarrow> coherent X (commit_account_mutation X addr (account_mut addr a s))"
  by (simp add: coherent_def commit_account_mutation_def account_mut_def coh_hput)

lemma coherent_commit_account [coherent_intros]:
  "coherent X s \<Longrightarrow> coherent X (commit_account_mutation X addr s)"
  by (simp add: coherent_def commit_account_mutation_def coh_refresh split: option.split)

lemma coherent_insert_attestation [coherent_intros]:
  "coherent X s \<Longrightarrow> coherent X (insert_attestation X a s)"
  by (simp add: coherent_def insert_attestation_def coh_hput)

lemma coherent_insert_proof_anchor [coherent_intros]:
  "coherent X s \<Longrightarrow> coherent X (insert_proof_anchor X a s)"
  by (simp add: coherent_def insert_proof_anchor_def coh_hput)

lemma coherent_insert_rotation [coherent_intros]:
  "coherent X s \<Longrightarrow> coherent X (insert_consensus_key_rotation X r s)"
  by (simp add: coherent_def insert_consensus_key_rotation_def coh_hput)

lemma coherent_insert_receipt [coherent_intros]:
  "coherent X s \<Longrightarrow> coherent X (insert_governance_receipt X r s)"
  by (simp add: coherent_def insert_governance_receipt_def coh_hput)

lemma coherent_insert_validator [coherent_intros]:
  "coherent X s \<Longrightarrow> coherent X (insert_validator X r s)"
  by (simp add: coherent_def insert_validator_def coh_hput)

lemma coherent_validator_mutation [coherent_intros]:
  "coherent X s \<Longrightarrow> coherent X (commit_validator_mutation X addr (validator_mut addr r s))"
  by (simp add: coherent_def commit_validator_mutation_def validator_mut_def coh_hput)

lemma coherent_activate_one_rotation:
  "coherent X (fst acc) \<Longrightarrow> coherent X (fst (activate_one_rotation X addr acc))"
  by (auto simp: activate_one_rotation_def coherent_def Let_def coh_hdel coh_hput validator_mut_def
      commit_validator_mutation_def split: prod.split option.split)

lemma coherent_fold_fst:
  "(\<And>x acc. P (fst acc) \<Longrightarrow> P (fst (g x acc))) \<Longrightarrow> P (fst acc) \<Longrightarrow> P (fst (fold g xs acc))"
  by (induction xs arbitrary: acc) auto

lemma fold_invariant':
  "(\<And>x s. P s \<Longrightarrow> P (g x s)) \<Longrightarrow> P s \<Longrightarrow> P (fold g xs s)"
  by (induction xs arbitrary: s) auto

lemma coherent_activate_rotations [coherent_intros]:
  "coherent X s \<Longrightarrow> coherent X (fst (activate_pending_consensus_key_rotations X h s))"
  unfolding activate_pending_consensus_key_rotations_def Let_def
  by (rule coherent_fold_fst [where P = "coherent X"]) (simp_all add: coherent_activate_one_rotation)

lemma coherent_set_peer_id [coherent_intros]:
  "coherent X s \<Longrightarrow> coherent X (set_validator_peer_id X operator p s)"
  by (simp add: coherent_def set_validator_peer_id_def coh_hput coh_hdel)

lemma coherent_activate_validator [coherent_intros]:
  "coherent X s \<Longrightarrow> coherent X (activate_validator X operator s)"
  by (simp add: coherent_def activate_validator_def Let_def coh_hput split: option.split)

lemma coherent_epoch_transitions [coherent_intros]:
  "coherent X s \<Longrightarrow> coherent X (process_epoch_transitions X churn s)"
  unfolding process_epoch_transitions_def Let_def
  by (rule fold_invariant' [where P = "coherent X"]) (simp_all add: coherent_activate_validator)

lemma coherent_insert_proposal [coherent_intros]:
  "coherent X s \<Longrightarrow> coherent X (insert_pending_proposal X p s)"
  by (simp add: coherent_def insert_pending_proposal_def coh_hput)

lemma coherent_proposal_mutation [coherent_intros]:
  "coherent X s \<Longrightarrow> coherent X (commit_proposal_mutation X i (pending_proposal_mut i p s))"
  by (simp add: coherent_def commit_proposal_mutation_def pending_proposal_mut_def coh_hput)

lemma coherent_insert_upgrade [coherent_intros]:
  "coherent X s \<Longrightarrow> coherent X (insert_pending_upgrade X u s)"
  by (simp add: coherent_def insert_pending_upgrade_def coh_hput)

lemma coherent_remove_upgrade [coherent_intros]:
  "coherent X s \<Longrightarrow> coherent X (remove_pending_upgrade i s)"
  by (simp add: coherent_def remove_pending_upgrade_def coh_hdel)

lemma coherent_record_slash [coherent_intros]:
  "coherent X s \<Longrightarrow> coherent X (record_recent_slash X e s)"
  by (simp add: coherent_def record_recent_slash_def Let_def)

lemma coherent_prune_slashes [coherent_intros]:
  "coherent X s \<Longrightarrow> coherent X (prune_recent_slashes_before X h s)"
  by (simp add: coherent_def prune_recent_slashes_before_def Let_def)

lemma coherent_insert_slashing_verifier [coherent_intros]:
  "coherent X s \<Longrightarrow> coherent X (insert_slashing_verifier_entry X e s)"
  by (simp add: coherent_def insert_slashing_verifier_entry_def Let_def coh_hput)

lemma coherent_insert_hash_entry [coherent_intros]:
  "coherent X s \<Longrightarrow> coherent X (insert_hash_entry X e s)"
  by (simp add: coherent_def insert_hash_entry_def Let_def coh_hput)

lemma coherent_insert_archival_record [coherent_intros]:
  "coherent X s \<Longrightarrow> coherent X (insert_archival_record X r s)"
  by (simp add: coherent_def insert_archival_record_def Let_def coh_hput)

lemma coherent_push_anchor [coherent_intros]:
  "coherent X s \<Longrightarrow> coherent X (push_archival_anchor X e a s)"
  by (simp add: coherent_def push_archival_anchor_def Let_def coh_hput split: option.split)

lemma coherent_increment_version [coherent_intros]:
  "coherent X s \<Longrightarrow> coherent X (increment_archival_record_version X e h b s)"
  by (simp add: coherent_def increment_archival_record_version_def Let_def coh_hput split: option.split)

lemma coherent_insert_archival_key [coherent_intros]:
  "coherent X s \<Longrightarrow> coherent X (insert_archival_key X k s)"
  by (simp add: coherent_def insert_archival_key_def coh_hput)

lemma coherent_restore_fee_market [coherent_intros]:
  "coherent X s \<Longrightarrow> coherent X (restore_fee_market X m s)"
  by (simp add: coherent_def restore_fee_market_def)

lemma coherent_recompute_fee_market [coherent_intros]:
  "coherent X s \<Longrightarrow> coherent X (recompute_fee_market_leaf_hash X (s\<lparr> st_fee_market := m \<rparr>))"
  by (simp add: coherent_def recompute_fee_market_leaf_hash_def)

lemma coherent_credit_fund [coherent_intros]:
  "coherent X s \<Longrightarrow> coherent X (credit_storage_fund X n s)"
  by (simp add: coherent_def credit_storage_fund_def recompute_storage_fund_leaf_hash_def)

lemma coherent_debit_fund [coherent_intros]:
  "coherent X s \<Longrightarrow> coherent X (fst (debit_storage_fund X n s))"
  by (simp add: coherent_def debit_storage_fund_def recompute_storage_fund_leaf_hash_def split: prod.split)

lemma coherent_aimd [coherent_intros]:
  "coherent X s \<Longrightarrow> apply_aimd_update X used s = Some t \<Longrightarrow> coherent X t"
  by (auto simp: coherent_def apply_aimd_update_def apply_fee_market_step_def)

section \<open>Tables keyed by a field\<close>

definition keyed :: "('v \<Rightarrow> 'k) \<Rightarrow> ('k, 'v) hmap \<Rightarrow> bool" where
"keyed key es = (\<forall>k v. hget es k = Some v \<longrightarrow> key v = k)"

lemma keyedD: "keyed key es \<Longrightarrow> hget es k = Some v \<Longrightarrow> key v = k"
  by (simp add: keyed_def)

lemma keyed_Nil [simp]: "keyed key []"
  by (simp add: keyed_def)

lemma keyed_hput: "keyed key es \<Longrightarrow> key v = k \<Longrightarrow> keyed key (hput k v es)"
  by (simp add: keyed_def map_simps)

lemma keyed_hdel: "keyed key es \<Longrightarrow> keyed key (hdel k es)"
  by (simp add: keyed_def map_simps)

lemma keyed_map: "keyed key es \<Longrightarrow> (\<And>v. key (f v) = key v) \<Longrightarrow> keyed key (map (\<lambda>(k, v). (k, f v)) es)"
  by (auto simp: keyed_def hget_map_pairs)

definition store_wf :: "xof \<Rightarrow> state_store \<Rightarrow> bool" where
"store_wf X s = (coherent X s \<and> keyed ac_address (st_accounts s) \<and> keyed vr_operator (st_validators s)
   \<and> keyed at_attestation_id (st_attestations s)
   \<and> keyed pp_proposal_id (st_pending_proposals s) \<and> keyed pu_proposal_id (st_pending_upgrades s)
   \<and> market_wf (st_fee_market s))"

lemma store_wf_coherent: "store_wf X s \<Longrightarrow> coherent X s"
  by (simp add: store_wf_def)

lemma store_wf_new: "store_wf X (store_new X)"
  using coherent_store_new [of X] by (simp add: store_wf_def store_new_def)

section \<open>Whole-table refreshes\<close>

lemma fold_commit_accounts:
  "fold (commit_account_mutation X) ks s = s\<lparr> st_account_leaf_hashes :=
     fold (\<lambda>k l. case hget (st_accounts s) k of None \<Rightarrow> l | Some a \<Rightarrow> hput k (compute_account_leaf_hash X a) l)
       ks (st_account_leaf_hashes s) \<rparr>"
  by (induction ks arbitrary: s) (simp_all add: commit_account_mutation_def split: option.split)

lemma fold_commit_validators:
  "fold (\<lambda>(operator, bond) t. commit_validator_mutation X operator t) es s = s\<lparr> st_validator_leaf_hashes :=
     fold (\<lambda>k l. case hget (st_validators s) k of None \<Rightarrow> l | Some r \<Rightarrow> hput k (compute_validator_leaf_hash X r) l)
       (map fst es) (st_validator_leaf_hashes s) \<rparr>"
  by (induction es arbitrary: s) (auto simp: commit_validator_mutation_def split: option.split)

text \<open>Mapping a function over a keyed table and refreshing the leaves of the entries it changes.\<close>

lemma coh_map_refresh:
  assumes "coh (\<lambda>_. lf) es ls" "keyed key es" "\<And>v. \<not> p v \<Longrightarrow> g v = v"
  shows "coh (\<lambda>_. lf) (map (\<lambda>(k, v). (k, g v)) es)
    (fold (\<lambda>k l. case hget (map (\<lambda>(k, v). (k, g v)) es) k of None \<Rightarrow> l | Some v \<Rightarrow> hput k (lf v) l)
       (map key (filter p (hvals es))) ls)"
proof (rule coh_refresh_all)
  have wf: "hwf es" using assms(1) by (simp add: coh_def)
  show "hwf (map (\<lambda>(k, v). (k, g v)) es)" "hwf ls"
    using assms(1) by (simp_all add: hwf_map_pairs coh_def)
  show "\<forall>k. k \<notin> set (map key (filter p (hvals es))) \<longrightarrow>
    hget ls k = map_option lf (hget (map (\<lambda>(k, v). (k, g v)) es) k)"
  proof (intro allI impI)
    fix k assume k: "k \<notin> set (map key (filter p (hvals es)))"
    have "\<not> p v" if "hget es k = Some v" for v
      using that k keyedD [OF assms(2) that] hvals_iff [OF wf, of v] by force
    then show "hget ls k = map_option lf (hget (map (\<lambda>(k, v). (k, g v)) es) k)"
      using assms(1,3) by (cases "hget es k") (simp_all add: coh_def hget_map_pairs)
  qed
  show "\<forall>k\<in>set (map key (filter p (hvals es))). hget (map (\<lambda>(k, v). (k, g v)) es) k \<noteq> None"
    using keyedD [OF assms(2)] hvals_iff [OF wf] by (fastforce simp: hget_map_pairs)
qed

lemma activate_keys_id: "\<not> list_ex (key_activates h) (ac_keys a) \<Longrightarrow> activate_keys h a = a"
  by (cases a) (auto simp: activate_keys_def list_ex_iff intro: map_idI)

lemma coherent_advance_height:
  assumes "coherent X s" "keyed ac_address (st_accounts s)" "advance_height X s = Some t"
  shows "coherent X t"
  using assms coh_map_refresh [of "compute_account_leaf_hash X" "st_accounts s" "st_account_leaf_hashes s"
      ac_address "\<lambda>a. list_ex (key_activates (Suc (st_block_height s))) (ac_keys a)"
      "activate_keys (Suc (st_block_height s))", OF _ _ activate_keys_id]
  by (auto simp: coherent_def advance_height_def fold_commit_accounts Let_def split: option.splits)

lemma advance_height_wf:
  "store_wf X s \<Longrightarrow> advance_height X s = Some t \<Longrightarrow> store_wf X t"
  using coherent_advance_height [of X s t]
  by (auto simp: store_wf_def advance_height_def fold_commit_accounts Let_def activate_keys_def
      intro!: keyed_map split: option.splits)

lemma coherent_unbonding:
  assumes "coherent X s" "keyed vr_operator (st_validators s)"
  shows "coherent X (fst (process_validator_unbonding_expirations X h s))"
  using assms coh_map_refresh [of "compute_validator_leaf_hash X" "st_validators s" "st_validator_leaf_hashes s"
      vr_operator "unbonding_expired h" "\<lambda>r. if unbonding_expired h r then r\<lparr> vr_status := VS_Exited \<rparr> else r"]
  by (auto simp: coherent_def process_validator_unbonding_expirations_def fold_commit_validators Let_def comp_def)

end
