(* ===== verification/State_Evolution.thy ===== *)
theory State_Evolution
  imports State_Root "HOL-Library.Sublist"
begin

text \<open>
  What no state transition may do to the store.  \<open>evolves s t\<close> relates a state to its possible
  successors: accounts keep their address and their keys, nonces and policy versions never go
  back, a revoked key stays revoked, a tombstoned validator stays jailed, attestations are only
  ever revoked by their attester, decided proposals are final, cast votes stand, algorithms only
  move forward in their lifecycle, and archival records are append-only.  It is a preorder, so it
  lifts from single operations to whole histories.  \<open>total_supply\<close> counts the tokens.
\<close>

named_theorems evolves_intros "operations that respect the evolution preorder"

section \<open>Comparing entries\<close>

fun key_rank :: "key_status \<Rightarrow> nat" where
"key_rank KS_Pending = 0" |
"key_rank KS_Active = 1" |
"key_rank KS_Revoked = 2"

fun lifecycle_rank :: "lifecycle \<Rightarrow> nat" where
"lifecycle_rank LC_Active = 0" |
"lifecycle_rank LC_Discouraged = 1" |
"lifecycle_rank LC_Deprecated = 2" |
"lifecycle_rank LC_Banned = 3"

definition key_le :: "key_entry \<Rightarrow> key_entry \<Rightarrow> bool" where
"key_le k l = (key_rank (ke_status k) \<le> key_rank (ke_status l) \<and> l = k\<lparr> ke_status := ke_status l \<rparr>)"

definition acct_le :: "account \<Rightarrow> account \<Rightarrow> bool" where
"acct_le a b = (ac_address b = ac_address a \<and> ac_nonce a \<le> ac_nonce b
   \<and> ac_policy_version a \<le> ac_policy_version b
   \<and> (\<forall>k \<in> set (ac_keys a). \<exists>l \<in> set (ac_keys b). key_le k l))"

definition val_le :: "validator_record \<Rightarrow> validator_record \<Rightarrow> bool" where
"val_le r q = (vr_operator q = vr_operator r
   \<and> (vr_tombstoned r \<and> vr_status r = VS_Jailed \<longrightarrow> vr_tombstoned q \<and> vr_status q = VS_Jailed))"

definition att_le :: "attestation \<Rightarrow> attestation \<Rightarrow> bool" where
"att_le a b = (b = a \<or> (at_status a = AS_Active \<and> (\<exists>rv. ar_revoker rv = at_attester a \<and>
   b = a\<lparr> at_status := AS_Revoked, at_revocation := Some rv \<rparr>)))"

definition prop_le :: "pending_proposal \<Rightarrow> pending_proposal \<Rightarrow> bool" where
"prop_le p q = (q = p \<or> (pp_status p = PS_Voting
   \<and> q = p\<lparr> pp_votes := pp_votes q, pp_status := pp_status q \<rparr>
   \<and> (\<forall>a v. hget (pp_votes p) a = Some v \<longrightarrow> hget (pp_votes q) a = Some v)))"

definition alg_le :: "alg_entry \<Rightarrow> alg_entry \<Rightarrow> bool" where
"alg_le e f = (lifecycle_rank (ae_lifecycle e) \<le> lifecycle_rank (ae_lifecycle f)
   \<and> f = e\<lparr> ae_lifecycle := ae_lifecycle f, ae_min_fee := ae_min_fee f \<rparr>)"

definition arch_le :: "archival_record \<Rightarrow> archival_record \<Rightarrow> bool" where
"arch_le r q = (min U16_MAX (av_evidence_record_version r) \<le> av_evidence_record_version q
   \<and> prefix (av_timestamp_anchors r) (av_timestamp_anchors q)
   \<and> q = r\<lparr> av_timestamp_anchors := av_timestamp_anchors q,
            av_evidence_record_version := av_evidence_record_version q \<rparr>)"

lemma key_le_refl [simp]: "key_le k k"
  by (simp add: key_le_def)

lemma acct_le_refl [simp]: "acct_le a a"
  unfolding acct_le_def using key_le_refl by blast

lemma acct_le_same_keys:
  "ac_address b = ac_address a \<Longrightarrow> ac_nonce a \<le> ac_nonce b \<Longrightarrow> ac_policy_version a \<le> ac_policy_version b \<Longrightarrow>
   ac_keys b = ac_keys a \<Longrightarrow> acct_le a b"
  unfolding acct_le_def using key_le_refl by metis

lemma val_le_refl [simp]: "val_le r r"
  by (simp add: val_le_def)

lemma att_le_refl [simp]: "att_le a a"
  by (simp add: att_le_def)

lemma prop_le_refl [simp]: "prop_le p p"
  by (simp add: prop_le_def)

lemma alg_le_refl [simp]: "alg_le e e"
  by (simp add: alg_le_def)

lemma arch_le_refl [simp]: "arch_le r r"
  by (simp add: arch_le_def)

lemma key_le_trans: "key_le k l \<Longrightarrow> key_le l m \<Longrightarrow> key_le k m"
  unfolding key_le_def by (cases k, cases l, cases m) auto

lemma acct_le_trans: "acct_le a b \<Longrightarrow> acct_le b c \<Longrightarrow> acct_le a c"
  unfolding acct_le_def by (metis key_le_trans order_trans)

lemma val_le_trans: "val_le a b \<Longrightarrow> val_le b c \<Longrightarrow> val_le a c"
  unfolding val_le_def by auto

lemma att_le_trans: "att_le a b \<Longrightarrow> att_le b c \<Longrightarrow> att_le a c"
  unfolding att_le_def by (elim disjE conjE exE) (simp_all, blast+)

lemma prop_le_trans: "prop_le a b \<Longrightarrow> prop_le b c \<Longrightarrow> prop_le a c"
  unfolding prop_le_def by (cases a, cases b, cases c) auto

lemma alg_le_trans: "alg_le a b \<Longrightarrow> alg_le b c \<Longrightarrow> alg_le a c"
  unfolding alg_le_def by (cases a, cases b, cases c) auto

lemma arch_le_trans: "arch_le a b \<Longrightarrow> arch_le b c \<Longrightarrow> arch_le a c"
  unfolding arch_le_def by (cases a, cases b, cases c) (auto intro: prefix_order.trans)

section \<open>Comparing tables\<close>

definition tbl_le :: "('v \<Rightarrow> 'v \<Rightarrow> bool) \<Rightarrow> ('k, 'v) hmap \<Rightarrow> ('k, 'v) hmap \<Rightarrow> bool" where
"tbl_le R es fs = (\<forall>k v. hget es k = Some v \<longrightarrow> (\<exists>w. hget fs k = Some w \<and> R v w))"

lemma tbl_le_refl: "(\<And>v. R v v) \<Longrightarrow> tbl_le R es es"
  by (simp add: tbl_le_def)

lemma tbl_le_trans:
  "(\<And>u v w. R u v \<Longrightarrow> R v w \<Longrightarrow> R u w) \<Longrightarrow> tbl_le R es fs \<Longrightarrow> tbl_le R fs gs \<Longrightarrow> tbl_le R es gs"
  unfolding tbl_le_def by metis

lemma tbl_le_hput:
  "(\<And>v. R v v) \<Longrightarrow> (\<And>u. hget es k = Some u \<Longrightarrow> R u v) \<Longrightarrow> tbl_le R es (hput k v es)"
  by (auto simp: tbl_le_def map_simps)

lemma tbl_le_map:
  "(\<And>k v. hget es k = Some v \<Longrightarrow> R v (f v)) \<Longrightarrow> tbl_le R es (map (\<lambda>(k, v). (k, f v)) es)"
  by (auto simp: tbl_le_def hget_map_pairs)

definition evolves :: "state_store \<Rightarrow> state_store \<Rightarrow> bool" where
"evolves s t =
   (st_chain_id t = st_chain_id s \<and> st_block_height s \<le> st_block_height t
  \<and> tbl_le acct_le (st_accounts s) (st_accounts t)
  \<and> tbl_le val_le (st_validators s) (st_validators t)
  \<and> tbl_le att_le (st_attestations s) (st_attestations t)
  \<and> tbl_le prop_le (st_pending_proposals s) (st_pending_proposals t)
  \<and> tbl_le alg_le (st_alg_registry s) (st_alg_registry t)
  \<and> tbl_le arch_le (st_archival_records s) (st_archival_records t))"

lemmas tbl_refls = tbl_le_refl [where R = acct_le, simplified] tbl_le_refl [where R = val_le, simplified]
  tbl_le_refl [where R = att_le, simplified] tbl_le_refl [where R = prop_le, simplified]
  tbl_le_refl [where R = alg_le, simplified] tbl_le_refl [where R = arch_le, simplified]

lemma evolves_refl [simp]: "evolves s s"
  by (simp add: evolves_def tbl_refls)

lemma evolves_trans [trans]: "evolves s t \<Longrightarrow> evolves t u \<Longrightarrow> evolves s u"
  unfolding evolves_def
  by (elim conjE, intro conjI)
     (simp, simp, (rule tbl_le_trans [OF acct_le_trans] tbl_le_trans [OF val_le_trans]
        tbl_le_trans [OF att_le_trans] tbl_le_trans [OF prop_le_trans] tbl_le_trans [OF alg_le_trans]
        tbl_le_trans [OF arch_le_trans]; assumption)+)

lemma evolves_fold: "(\<And>x s. evolves s (g x s)) \<Longrightarrow> evolves s (fold g xs s)"
  by (induction xs arbitrary: s) (auto intro: evolves_trans)

section \<open>Tokens\<close>

text \<open>The bond of an exited validator has been paid back and no longer counts.\<close>

definition bonded :: "validator_record \<Rightarrow> nat" where
"bonded r = (if vr_status r = VS_Exited then 0 else vr_self_bond r)"

definition total_supply :: "state_store \<Rightarrow> nat" where
"total_supply s = hsum ac_balance (st_accounts s) + hsum bonded (st_validators s)"

section \<open>Tombstones\<close>

definition tomb_inv :: "state_store \<Rightarrow> bool" where
"tomb_inv s = (\<forall>a r. hget (st_validators s) a = Some r \<longrightarrow> vr_tombstoned r \<longrightarrow> vr_status r = VS_Jailed)"

section \<open>The store operations\<close>

named_theorems wf_intros "operations that keep the store well-formed"
named_theorems tomb_intros "operations that keep tombstoned validators jailed"

lemma write_account_eq:
  "commit_account_mutation X addr (account_mut addr a s) =
     s\<lparr> st_accounts := hput addr a (st_accounts s),
        st_account_leaf_hashes := hput addr (compute_account_leaf_hash X a) (st_account_leaf_hashes s) \<rparr>"
  by (simp add: commit_account_mutation_def account_mut_def)

lemma write_validator_eq:
  "commit_validator_mutation X addr (validator_mut addr r s) =
     s\<lparr> st_validators := hput addr r (st_validators s),
        st_validator_leaf_hashes := hput addr (compute_validator_leaf_hash X r) (st_validator_leaf_hashes s) \<rparr>"
  by (simp add: commit_validator_mutation_def validator_mut_def)

lemma write_proposal_eq:
  "commit_proposal_mutation X i (pending_proposal_mut i p s) =
     s\<lparr> st_pending_proposals := hput i p (st_pending_proposals s),
        st_proposal_leaf_hashes := hput i (compute_proposal_leaf_hash X p) (st_proposal_leaf_hashes s) \<rparr>"
  by (simp add: commit_proposal_mutation_def pending_proposal_mut_def)

lemma write_alg_eq:
  "commit_alg_entry_mutation X a (alg_entry_mut a e s) =
     s\<lparr> st_alg_registry := hput (alg_as_u16 a) e (st_alg_registry s),
        st_alg_leaf_hashes := hput (alg_as_u16 a) (compute_alg_leaf_hash X e) (st_alg_leaf_hashes s) \<rparr>"
  by (simp add: commit_alg_entry_mutation_def alg_entry_mut_def)

lemmas write_eqs = write_account_eq write_validator_eq write_proposal_eq write_alg_eq

lemma wf_write_account [wf_intros]:
  "store_wf X s \<Longrightarrow> ac_address a = addr \<Longrightarrow>
   store_wf X (commit_account_mutation X addr (account_mut addr a s))"
  using coherent_account_mutation [of X s addr a] by (simp add: store_wf_def write_eqs keyed_hput)

lemma wf_insert_account [wf_intros]: "store_wf X s \<Longrightarrow> store_wf X (insert_account X a s)"
  using coherent_insert_account [of X s a] by (simp add: store_wf_def insert_account_def keyed_hput)

lemma wf_write_validator [wf_intros]:
  "store_wf X s \<Longrightarrow> vr_operator r = addr \<Longrightarrow>
   store_wf X (commit_validator_mutation X addr (validator_mut addr r s))"
  using coherent_validator_mutation [of X s addr r] by (simp add: store_wf_def write_eqs keyed_hput)

lemma wf_insert_validator [wf_intros]: "store_wf X s \<Longrightarrow> store_wf X (insert_validator X r s)"
  using coherent_insert_validator [of X s r] by (simp add: store_wf_def insert_validator_def keyed_hput)

lemma wf_write_proposal [wf_intros]:
  "store_wf X s \<Longrightarrow> pp_proposal_id p = i \<Longrightarrow>
   store_wf X (commit_proposal_mutation X i (pending_proposal_mut i p s))"
  using coherent_proposal_mutation [of X s i p] by (simp add: store_wf_def write_eqs keyed_hput)

lemma wf_insert_proposal [wf_intros]: "store_wf X s \<Longrightarrow> store_wf X (insert_pending_proposal X p s)"
  using coherent_insert_proposal [of X s p] by (simp add: store_wf_def insert_pending_proposal_def keyed_hput)

lemma wf_insert_upgrade [wf_intros]: "store_wf X s \<Longrightarrow> store_wf X (insert_pending_upgrade X u s)"
  using coherent_insert_upgrade [of X s u] by (simp add: store_wf_def insert_pending_upgrade_def keyed_hput)

lemma wf_remove_upgrade [wf_intros]: "store_wf X s \<Longrightarrow> store_wf X (remove_pending_upgrade i s)"
  using coherent_remove_upgrade [of X s i] by (simp add: store_wf_def remove_pending_upgrade_def keyed_hdel)

lemma wf_write_alg [wf_intros]:
  "store_wf X s \<Longrightarrow> store_wf X (commit_alg_entry_mutation X a (alg_entry_mut a e s))"
  using coherent_alg_mutation [of X s a e] by (simp add: store_wf_def write_eqs)

lemma wf_insert_alg [wf_intros]: "store_wf X s \<Longrightarrow> store_wf X (insert_alg_entry X e s)"
  using coherent_insert_alg_entry [of X s e] by (simp add: store_wf_def insert_alg_entry_def Let_def)

lemma wf_insert_attestation [wf_intros]: "store_wf X s \<Longrightarrow> store_wf X (insert_attestation X a s)"
  using coherent_insert_attestation [of X s a] by (simp add: store_wf_def insert_attestation_def keyed_hput)

lemma wf_insert_proof_anchor [wf_intros]: "store_wf X s \<Longrightarrow> store_wf X (insert_proof_anchor X a s)"
  using coherent_insert_proof_anchor [of X s a] by (simp add: store_wf_def insert_proof_anchor_def)

lemma wf_insert_rotation [wf_intros]: "store_wf X s \<Longrightarrow> store_wf X (insert_consensus_key_rotation X r s)"
  using coherent_insert_rotation [of X s r] by (simp add: store_wf_def insert_consensus_key_rotation_def)

lemma wf_insert_receipt [wf_intros]: "store_wf X s \<Longrightarrow> store_wf X (insert_governance_receipt X r s)"
  using coherent_insert_receipt [of X s r] by (simp add: store_wf_def insert_governance_receipt_def)

lemma wf_set_peer_id [wf_intros]: "store_wf X s \<Longrightarrow> store_wf X (set_validator_peer_id X a p s)"
  using coherent_set_peer_id [of X s a p] by (simp add: store_wf_def set_validator_peer_id_def)

lemma wf_record_slash [wf_intros]: "store_wf X s \<Longrightarrow> store_wf X (record_recent_slash X e s)"
  using coherent_record_slash [of X s e] by (simp add: store_wf_def record_recent_slash_def Let_def)

lemma wf_prune_slashes [wf_intros]: "store_wf X s \<Longrightarrow> store_wf X (prune_recent_slashes_before X h s)"
  using coherent_prune_slashes [of X s h] by (simp add: store_wf_def prune_recent_slashes_before_def Let_def)

lemma wf_insert_slashing_verifier [wf_intros]:
  "store_wf X s \<Longrightarrow> store_wf X (insert_slashing_verifier_entry X e s)"
  using coherent_insert_slashing_verifier [of X s e]
  by (simp add: store_wf_def insert_slashing_verifier_entry_def Let_def)

lemma wf_insert_hash_entry [wf_intros]: "store_wf X s \<Longrightarrow> store_wf X (insert_hash_entry X e s)"
  using coherent_insert_hash_entry [of X s e] by (simp add: store_wf_def insert_hash_entry_def Let_def)

lemma wf_insert_archival_record [wf_intros]: "store_wf X s \<Longrightarrow> store_wf X (insert_archival_record X r s)"
  using coherent_insert_archival_record [of X s r] by (simp add: store_wf_def insert_archival_record_def Let_def)

lemma wf_push_anchor [wf_intros]: "store_wf X s \<Longrightarrow> store_wf X (push_archival_anchor X e a s)"
  using coherent_push_anchor [of X s e a]
  by (simp add: store_wf_def push_archival_anchor_def Let_def split: option.split)

lemma wf_increment_version [wf_intros]:
  "store_wf X s \<Longrightarrow> store_wf X (increment_archival_record_version X e h b s)"
  using coherent_increment_version [of X s e h b]
  by (simp add: store_wf_def increment_archival_record_version_def Let_def split: option.split)

lemma wf_insert_archival_key [wf_intros]: "store_wf X s \<Longrightarrow> store_wf X (insert_archival_key X k s)"
  using coherent_insert_archival_key [of X s k] by (simp add: store_wf_def insert_archival_key_def)

lemma wf_set_market [wf_intros]:
  "store_wf X s \<Longrightarrow> market_wf m \<Longrightarrow> store_wf X (recompute_fee_market_leaf_hash X (s\<lparr> st_fee_market := m \<rparr>))"
  using coherent_recompute_fee_market [of X s m] by (simp add: store_wf_def recompute_fee_market_leaf_hash_def)

lemma wf_aimd: "store_wf X s \<Longrightarrow> \<exists>t. apply_aimd_update X used s = Some t \<and> store_wf X t"
  using market_step_Some [of "st_fee_market s" used 0 0 0] coherent_aimd [of X s used]
  by (auto simp: store_wf_def apply_aimd_update_def apply_fee_market_step_def)

section \<open>Evolution of the store operations\<close>

lemma ev_accounts:
  "(\<And>u. hget (st_accounts s) addr = Some u \<Longrightarrow> acct_le u a) \<Longrightarrow>
   evolves s (s\<lparr> st_accounts := hput addr a (st_accounts s), st_account_leaf_hashes := l \<rparr>)"
  by (simp add: evolves_def tbl_refls tbl_le_hput)

lemma ev_write_account [evolves_intros]:
  "(\<And>u. hget (st_accounts s) addr = Some u \<Longrightarrow> acct_le u a) \<Longrightarrow>
   evolves s (commit_account_mutation X addr (account_mut addr a s))"
  by (simp add: evolves_def write_eqs tbl_refls tbl_le_hput)

lemma ev_insert_account [evolves_intros]:
  "(\<And>u. hget (st_accounts s) (ac_address a) = Some u \<Longrightarrow> acct_le u a) \<Longrightarrow> evolves s (insert_account X a s)"
  by (simp add: evolves_def insert_account_def tbl_refls tbl_le_hput)

lemma ev_write_validator [evolves_intros]:
  "(\<And>u. hget (st_validators s) addr = Some u \<Longrightarrow> val_le u r) \<Longrightarrow>
   evolves s (commit_validator_mutation X addr (validator_mut addr r s))"
  by (simp add: evolves_def write_eqs tbl_refls tbl_le_hput)

lemma ev_insert_validator [evolves_intros]:
  "(\<And>u. hget (st_validators s) (vr_operator r) = Some u \<Longrightarrow> val_le u r) \<Longrightarrow> evolves s (insert_validator X r s)"
  by (simp add: evolves_def insert_validator_def tbl_refls tbl_le_hput)

lemma ev_write_proposal [evolves_intros]:
  "(\<And>u. hget (st_pending_proposals s) i = Some u \<Longrightarrow> prop_le u p) \<Longrightarrow>
   evolves s (commit_proposal_mutation X i (pending_proposal_mut i p s))"
  by (simp add: evolves_def write_eqs tbl_refls tbl_le_hput)

lemma ev_insert_proposal [evolves_intros]:
  "(\<And>u. hget (st_pending_proposals s) (pp_proposal_id p) = Some u \<Longrightarrow> prop_le u p) \<Longrightarrow>
   evolves s (insert_pending_proposal X p s)"
  by (simp add: evolves_def insert_pending_proposal_def tbl_refls tbl_le_hput)

lemma ev_write_alg [evolves_intros]:
  "(\<And>u. hget (st_alg_registry s) (alg_as_u16 a) = Some u \<Longrightarrow> alg_le u e) \<Longrightarrow>
   evolves s (commit_alg_entry_mutation X a (alg_entry_mut a e s))"
  by (simp add: evolves_def write_eqs tbl_refls tbl_le_hput)

lemma ev_insert_alg [evolves_intros]:
  "(\<And>u. hget (st_alg_registry s) (alg_as_u16 (ae_alg_id e)) = Some u \<Longrightarrow> alg_le u e) \<Longrightarrow>
   evolves s (insert_alg_entry X e s)"
  by (simp add: evolves_def insert_alg_entry_def Let_def tbl_refls tbl_le_hput)

lemma ev_insert_attestation [evolves_intros]:
  "(\<And>u. hget (st_attestations s) (at_attestation_id a) = Some u \<Longrightarrow> att_le u a) \<Longrightarrow>
   evolves s (insert_attestation X a s)"
  by (simp add: evolves_def insert_attestation_def tbl_refls tbl_le_hput)

lemma ev_insert_archival_record [evolves_intros]:
  "(\<And>u. hget (st_archival_records s) (av_epoch_number r) = Some u \<Longrightarrow> arch_le u r) \<Longrightarrow>
   evolves s (insert_archival_record X r s)"
  by (simp add: evolves_def insert_archival_record_def Let_def tbl_refls tbl_le_hput)

lemma ev_push_anchor [evolves_intros]: "evolves s (push_archival_anchor X e a s)"
  by (auto simp: evolves_def push_archival_anchor_def Let_def tbl_refls arch_le_def
      intro!: tbl_le_hput split: option.split)

lemma ev_increment_version [evolves_intros]: "evolves s (increment_archival_record_version X e h b s)"
  by (auto simp: evolves_def increment_archival_record_version_def Let_def tbl_refls arch_le_def
      saturating_add_def intro!: tbl_le_hput split: option.split)

lemma ev_frames [evolves_intros]:
  "evolves s (insert_proof_anchor X pa s)"
  "evolves s (insert_consensus_key_rotation X ro s)"
  "evolves s (insert_governance_receipt X gr s)"
  "evolves s (set_validator_peer_id X addr peer s)"
  "evolves s (insert_pending_upgrade X u s)"
  "evolves s (remove_pending_upgrade i s)"
  "evolves s (record_recent_slash X e s)"
  "evolves s (prune_recent_slashes_before X h s)"
  "evolves s (insert_slashing_verifier_entry X sv s)"
  "evolves s (insert_hash_entry X he s)"
  "evolves s (insert_archival_key X k s)"
  "evolves s (recompute_fee_market_leaf_hash X (s\<lparr> st_fee_market := m \<rparr>))"
  by (simp_all add: evolves_def tbl_refls insert_proof_anchor_def insert_consensus_key_rotation_def
      insert_governance_receipt_def set_validator_peer_id_def insert_pending_upgrade_def
      remove_pending_upgrade_def record_recent_slash_def prune_recent_slashes_before_def
      insert_slashing_verifier_entry_def insert_hash_entry_def insert_archival_key_def
      recompute_fee_market_leaf_hash_def Let_def)

section \<open>Tombstones under the store operations\<close>

lemma tomb_write_validator [tomb_intros]:
  "tomb_inv s \<Longrightarrow> (vr_tombstoned r \<Longrightarrow> vr_status r = VS_Jailed) \<Longrightarrow>
   tomb_inv (commit_validator_mutation X addr (validator_mut addr r s))"
  by (auto simp: tomb_inv_def write_eqs map_simps)

lemma tomb_insert_validator [tomb_intros]:
  "tomb_inv s \<Longrightarrow> (vr_tombstoned r \<Longrightarrow> vr_status r = VS_Jailed) \<Longrightarrow> tomb_inv (insert_validator X r s)"
  by (auto simp: tomb_inv_def insert_validator_def map_simps)

lemma tomb_same: "st_validators t = st_validators s \<Longrightarrow> tomb_inv t = tomb_inv s"
  by (simp add: tomb_inv_def)

text \<open>The operations that leave accounts, validators, height and chain identifier alone.\<close>

lemma validators_frame [simp]:
  "st_validators (insert_account X a s) = st_validators s"
  "st_validators (commit_account_mutation X addr (account_mut addr a s)) = st_validators s"
  "st_validators (insert_attestation X at s) = st_validators s"
  "st_validators (insert_proof_anchor X pa s) = st_validators s"
  "st_validators (insert_consensus_key_rotation X ro s) = st_validators s"
  "st_validators (insert_governance_receipt X gr s) = st_validators s"
  "st_validators (set_validator_peer_id X op p s) = st_validators s"
  "st_validators (insert_pending_proposal X pp s) = st_validators s"
  "st_validators (commit_proposal_mutation X i (pending_proposal_mut i pp s)) = st_validators s"
  "st_validators (insert_pending_upgrade X u s) = st_validators s"
  "st_validators (remove_pending_upgrade i s) = st_validators s"
  "st_validators (record_recent_slash X e s) = st_validators s"
  "st_validators (prune_recent_slashes_before X h s) = st_validators s"
  "st_validators (insert_slashing_verifier_entry X sv s) = st_validators s"
  "st_validators (insert_hash_entry X he s) = st_validators s"
  "st_validators (insert_alg_entry X ae s) = st_validators s"
  "st_validators (commit_alg_entry_mutation X al (alg_entry_mut al ae s)) = st_validators s"
  "st_validators (insert_archival_record X ar s) = st_validators s"
  "st_validators (push_archival_anchor X n an s) = st_validators s"
  "st_validators (increment_archival_record_version X n hh b s) = st_validators s"
  "st_validators (insert_archival_key X k s) = st_validators s"
  "st_validators (recompute_fee_market_leaf_hash X s) = st_validators s"
  by (simp_all add: insert_account_def write_eqs insert_attestation_def insert_proof_anchor_def
      insert_consensus_key_rotation_def insert_governance_receipt_def set_validator_peer_id_def
      insert_pending_proposal_def insert_pending_upgrade_def remove_pending_upgrade_def
      record_recent_slash_def prune_recent_slashes_before_def insert_slashing_verifier_entry_def
      insert_hash_entry_def insert_alg_entry_def insert_archival_record_def push_archival_anchor_def
      increment_archival_record_version_def insert_archival_key_def recompute_fee_market_leaf_hash_def
      Let_def split: option.split)

lemma accounts_frame [simp]:
  "st_accounts (insert_validator X r s) = st_accounts s"
  "st_accounts (commit_validator_mutation X op (validator_mut op r s)) = st_accounts s"
  "st_accounts (insert_attestation X at s) = st_accounts s"
  "st_accounts (insert_proof_anchor X pa s) = st_accounts s"
  "st_accounts (insert_consensus_key_rotation X ro s) = st_accounts s"
  "st_accounts (insert_governance_receipt X gr s) = st_accounts s"
  "st_accounts (set_validator_peer_id X op p s) = st_accounts s"
  "st_accounts (insert_pending_proposal X pp s) = st_accounts s"
  "st_accounts (commit_proposal_mutation X i (pending_proposal_mut i pp s)) = st_accounts s"
  "st_accounts (insert_pending_upgrade X u s) = st_accounts s"
  "st_accounts (remove_pending_upgrade i s) = st_accounts s"
  "st_accounts (record_recent_slash X e s) = st_accounts s"
  "st_accounts (prune_recent_slashes_before X h s) = st_accounts s"
  "st_accounts (insert_slashing_verifier_entry X sv s) = st_accounts s"
  "st_accounts (insert_hash_entry X he s) = st_accounts s"
  "st_accounts (insert_alg_entry X ae s) = st_accounts s"
  "st_accounts (commit_alg_entry_mutation X al (alg_entry_mut al ae s)) = st_accounts s"
  "st_accounts (insert_archival_record X ar s) = st_accounts s"
  "st_accounts (push_archival_anchor X n an s) = st_accounts s"
  "st_accounts (increment_archival_record_version X n hh b s) = st_accounts s"
  "st_accounts (insert_archival_key X k s) = st_accounts s"
  "st_accounts (recompute_fee_market_leaf_hash X s) = st_accounts s"
  by (simp_all add: insert_validator_def write_eqs insert_attestation_def insert_proof_anchor_def
      insert_consensus_key_rotation_def insert_governance_receipt_def set_validator_peer_id_def
      insert_pending_proposal_def insert_pending_upgrade_def remove_pending_upgrade_def
      record_recent_slash_def prune_recent_slashes_before_def insert_slashing_verifier_entry_def
      insert_hash_entry_def insert_alg_entry_def insert_archival_record_def push_archival_anchor_def
      increment_archival_record_version_def insert_archival_key_def recompute_fee_market_leaf_hash_def
      Let_def split: option.split)

section \<open>Block-level operations\<close>

lemma acct_le_activate: "acct_le a (activate_keys h a)"
proof -
  have "\<exists>l \<in> set (ac_keys (activate_keys h a)). key_le k l" if "k \<in> set (ac_keys a)" for k
    using that by (intro bexI [of _ "if key_activates h k then k\<lparr> ke_status := KS_Active \<rparr> else k"])
      (auto simp: activate_keys_def key_le_def key_activates_def)
  then show ?thesis unfolding acct_le_def by (simp add: activate_keys_def)
qed

lemma ev_advance_height: "advance_height X s = Some t \<Longrightarrow> evolves s t"
  by (auto simp: advance_height_def Let_def fold_commit_accounts evolves_def tbl_refls
      intro!: tbl_le_map acct_le_activate split: option.splits)

lemma ev_activate_validator: "evolves s (activate_validator X operator s)"
  by (auto simp: activate_validator_def Let_def evolves_def tbl_refls val_le_def intro!: tbl_le_hput
      split: option.split)

lemma ev_epoch_transitions: "evolves s (process_epoch_transitions X churn s)"
  unfolding process_epoch_transitions_def Let_def by (rule evolves_fold) (rule ev_activate_validator)

lemma ev_activate_one_rotation: "evolves (fst acc) (fst (activate_one_rotation X addr acc))"
  by (auto simp: activate_one_rotation_def Let_def write_eqs evolves_def tbl_refls val_le_def
      intro!: tbl_le_hput split: prod.split option.split)

lemma ev_activate_rotations: "evolves s (fst (activate_pending_consensus_key_rotations X h s))"
proof -
  have "evolves (fst acc) (fst (fold (activate_one_rotation X) xs acc))" for xs acc
  proof (induction xs arbitrary: acc)
    case (Cons x xs)
    show ?case using evolves_trans [OF ev_activate_one_rotation Cons.IH] by simp
  qed simp
  then show ?thesis
    unfolding activate_pending_consensus_key_rotations_def Let_def by (metis fst_conv)
qed

lemma ev_unbonding: "evolves s (fst (process_validator_unbonding_expirations X h s))"
  by (auto simp: process_validator_unbonding_expirations_def Let_def fold_commit_validators evolves_def
      tbl_refls val_le_def unbonding_expired_def intro!: tbl_le_map split: validator_status.splits)

lemma ev_aimd: "apply_aimd_update X used s = Some t \<Longrightarrow> evolves s t"
  by (auto simp: apply_aimd_update_def apply_fee_market_step_def evolves_def tbl_refls)

lemma wf_activate_validator: "store_wf X s \<Longrightarrow> store_wf X (activate_validator X operator s)"
  using coherent_activate_validator [of X s operator]
  by (auto simp: store_wf_def activate_validator_def Let_def keyed_def map_simps split: option.split)

lemma wf_epoch_transitions: "store_wf X s \<Longrightarrow> store_wf X (process_epoch_transitions X churn s)"
  unfolding process_epoch_transitions_def Let_def
  by (rule fold_invariant' [where P = "store_wf X"]) (simp_all add: wf_activate_validator)

lemma wf_activate_one_rotation:
  "store_wf X (fst acc) \<Longrightarrow> store_wf X (fst (activate_one_rotation X addr acc))"
  using coherent_activate_one_rotation [of X acc addr]
  by (auto simp: store_wf_def activate_one_rotation_def Let_def write_eqs keyed_def map_simps
      split: prod.splits option.splits)

lemma wf_activate_rotations:
  "store_wf X s \<Longrightarrow> store_wf X (fst (activate_pending_consensus_key_rotations X h s))"
  unfolding activate_pending_consensus_key_rotations_def Let_def
  by (rule coherent_fold_fst [where P = "store_wf X"]) (simp_all add: wf_activate_one_rotation)

lemma wf_unbonding: "store_wf X s \<Longrightarrow> store_wf X (fst (process_validator_unbonding_expirations X h s))"
  using coherent_unbonding [of X s h]
  by (auto simp: store_wf_def process_validator_unbonding_expirations_def fold_commit_validators Let_def
      intro!: keyed_map)

lemma tomb_activate_validator: "tomb_inv s \<Longrightarrow> tomb_inv (activate_validator X operator s)"
  by (auto simp: tomb_inv_def activate_validator_def Let_def map_simps split: option.split)

lemma tomb_epoch_transitions: "tomb_inv s \<Longrightarrow> tomb_inv (process_epoch_transitions X churn s)"
  unfolding process_epoch_transitions_def Let_def
  by (rule fold_invariant' [where P = tomb_inv]) (simp_all add: tomb_activate_validator)

lemma tomb_activate_one_rotation:
  "tomb_inv (fst acc) \<Longrightarrow> tomb_inv (fst (activate_one_rotation X addr acc))"
  by (auto simp: tomb_inv_def activate_one_rotation_def Let_def write_eqs map_simps
      split: prod.splits option.splits)

lemma tomb_activate_rotations:
  "tomb_inv s \<Longrightarrow> tomb_inv (fst (activate_pending_consensus_key_rotations X h s))"
  unfolding activate_pending_consensus_key_rotations_def Let_def
  by (rule coherent_fold_fst [where P = tomb_inv]) (simp_all add: tomb_activate_one_rotation)

lemma unbonding_expiredD: "unbonding_expired h r \<Longrightarrow> \<exists>n. vr_status r = VS_Unbonding n"
  by (simp add: unbonding_expired_def split: validator_status.splits)

lemma tomb_unbonding: "tomb_inv s \<Longrightarrow> tomb_inv (fst (process_validator_unbonding_expirations X h s))"
  by (fastforce simp: tomb_inv_def process_validator_unbonding_expirations_def fold_commit_validators Let_def
      hget_map_pairs dest: unbonding_expiredD split: if_splits)

section \<open>Tokens under the block-level operations\<close>

lemma hsum_map: "hsum f (map (\<lambda>(k, v). (k, g v)) es) = hsum (\<lambda>v. f (g v)) es"
  by (simp add: hsum_def case_prod_unfold comp_def)

lemma supply_advance_height: "advance_height X s = Some t \<Longrightarrow> total_supply t = total_supply s"
  by (auto simp: total_supply_def advance_height_def Let_def fold_commit_accounts hsum_map activate_keys_def
      split: option.splits)

lemma supply_aimd: "apply_aimd_update X used s = Some t \<Longrightarrow> total_supply t = total_supply s"
  by (auto simp: apply_aimd_update_def apply_fee_market_step_def total_supply_def)

lemma hsum_hput_same: "hget m k = Some w \<Longrightarrow> f v = f w \<Longrightarrow> hsum f (hput k v m) = hsum f m"
  using hsum_hput_old [of m k w f v] by simp

lemma supply_activate_validator: "total_supply (activate_validator X operator s) = total_supply s"
  by (auto simp: total_supply_def activate_validator_def Let_def bonded_def intro!: hsum_hput_same
      split: option.split)

lemma supply_epoch_transitions: "total_supply (process_epoch_transitions X churn s) = total_supply s"
proof -
  have "total_supply (fold (activate_validator X) xs s) = total_supply s" for xs
    by (induction xs arbitrary: s) (simp_all add: supply_activate_validator)
  then show ?thesis by (simp add: process_epoch_transitions_def Let_def)
qed

lemma supply_activate_rotations:
  "total_supply (fst (activate_pending_consensus_key_rotations X h s)) = total_supply s"
proof -
  have one: "total_supply (fst (activate_one_rotation X addr acc)) = total_supply (fst acc)" for addr acc
    by (auto simp: total_supply_def activate_one_rotation_def Let_def write_eqs bonded_def
        intro!: hsum_hput_same split: prod.split option.split)
  have "total_supply (fst (fold (activate_one_rotation X) xs acc)) = total_supply (fst acc)" for xs acc
    by (induction xs arbitrary: acc) (simp_all add: one)
  then show ?thesis by (simp add: activate_pending_consensus_key_rotations_def Let_def)
qed

text \<open>The bonds that leave with the exits are exactly what the exits report.\<close>

lemma supply_unbonding:
  "total_supply (fst (process_validator_unbonding_expirations X h s))
     + sum_list (map snd (snd (process_validator_unbonding_expirations X h s))) = total_supply s"
proof -
  let ?g = "\<lambda>r. if unbonding_expired h r then r\<lparr> vr_status := VS_Exited \<rparr> else r"
  have g: "unbonding_expired h r \<Longrightarrow> bonded (r\<lparr> vr_status := VS_Exited \<rparr>) = 0 \<and> bonded r = vr_self_bond r" for r
    by (auto simp: bonded_def dest: unbonding_expiredD)
  have "hsum bonded (map (\<lambda>(k, r). (k, ?g r)) es)
      + sum_list (map vr_self_bond (filter (unbonding_expired h) (hvals es))) = hsum bonded es" for es
    unfolding hsum_map hsum_def hvals_def using g
    by (induction es) (auto simp: add.assoc add.left_commute split: if_splits)
  then show ?thesis
    by (simp add: total_supply_def process_validator_unbonding_expirations_def fold_commit_validators
        Let_def comp_def)
qed

end
