(* ===== verification/Codec.thy ===== *)
theory Codec
  imports Types
begin

text \<open>
  The transaction codec of \<open>pqc-tx\<close>: \<open>codec.rs\<close>, \<open>preimage.rs\<close> and \<open>hash.rs\<close>.  The CBOR
  reader and writer (crate \<open>ciborium\<close>), SHAKE-256 and the signature verifier are the fields
  of the record \<open>env\<close>, a parameter of every definition that calls them.
\<close>

section \<open>The environment\<close>

text \<open>\<open>ciborium\<close>'s value type; \<open>COther\<close> stands for the variants the code never matches on.\<close>

datatype cbor =
    CInt int
  | CBytes bytes
  | CText string
  | CBool bool
  | CArray "cbor list"
  | CMap "(cbor \<times> cbor) list"
  | CNull
  | COther

record env =
  e_xof :: xof
  e_cbor_read :: "bytes \<Rightarrow> (cbor, string) result"
  e_cbor_write :: "cbor \<Rightarrow> (bytes, string) result"
  e_verify :: "alg_id \<times> bytes \<Rightarrow> bytes \<Rightarrow> alg_id \<times> bytes \<Rightarrow> bool"

section \<open>Errors\<close>

datatype tx_error =
    EncodingInvalid
  | VersionUnsupported nat
  | ChainIdMismatch
  | MsgTypeUnknown nat
  | AlgorithmNotFound nat
  | AlgorithmBanned nat
  | SenderNotFound
  | KeyLookupFailed key_lookup_error
  | SignatureInvalid
  | NonceInvalid nat nat
  | FeeInsufficient nat nat nat nat nat nat
  | GasLimitTooLow nat
  | BalanceInsufficient nat nat
  | VerifyBudgetExceeded
  | TxTooLarge nat
  | PayloadInvalid string
  | FeeBelowMarket nat nat

section \<open>Integer conversions\<close>

text \<open>\<open>uN::try_from\<close> of an \<open>i128\<close>.\<close>

definition try_from_int :: "nat \<Rightarrow> int \<Rightarrow> nat option" where
"try_from_int m v = (if 0 \<le> v \<and> v \<le> int m then Some (nat v) else None)"

section \<open>Decoding\<close>

type_synonym map_fields = "(int, cbor) hmap"

fun from_pairs :: "map_fields \<Rightarrow> (cbor \<times> cbor) list \<Rightarrow> (map_fields, tx_error) result" where
"from_pairs acc [] = Ok acc" |
"from_pairs acc ((k, v) # rest) =
   (case k of
      CInt key \<Rightarrow> if hhas acc key then Err EncodingInvalid else from_pairs (hput key v acc) rest
    | _ \<Rightarrow> Err EncodingInvalid)"

definition get_integer :: "map_fields \<Rightarrow> int \<Rightarrow> (int, tx_error) result" where
"get_integer fs key =
   (case hget fs key of
      Some (CInt i) \<Rightarrow> Ok i
    | Some _ \<Rightarrow> Err EncodingInvalid
    | None \<Rightarrow> Err EncodingInvalid)"

definition get_uint :: "nat \<Rightarrow> map_fields \<Rightarrow> int \<Rightarrow> (nat, tx_error) result" where
"get_uint m fs key =
   bind_r (get_integer fs key) (\<lambda>v. ok_or (try_from_int m v) EncodingInvalid)"

definition get_u64_optional :: "map_fields \<Rightarrow> int \<Rightarrow> (nat option, tx_error) result" where
"get_u64_optional fs key =
   (case hget fs key of
      None \<Rightarrow> Ok None
    | Some _ \<Rightarrow> bind_r (get_uint U64_MAX fs key) (\<lambda>v. Ok (Some v)))"

definition get_bytes :: "map_fields \<Rightarrow> int \<Rightarrow> (bytes, tx_error) result" where
"get_bytes fs key =
   (case hget fs key of
      Some (CBytes b) \<Rightarrow> Ok b
    | Some _ \<Rightarrow> Err EncodingInvalid
    | None \<Rightarrow> Err EncodingInvalid)"

definition decode_fields :: "map_fields \<Rightarrow> (transaction, tx_error) result" where
"decode_fields fs =
   bind_r (get_uint U8_MAX fs 1) (\<lambda>version.
   bind_r (get_bytes fs 2) (\<lambda>chain_id.
   bind_r (get_uint U16_MAX fs 3) (\<lambda>msg_type_raw.
   bind_r (get_bytes fs 4) (\<lambda>sender_bytes.
   bind_r (get_uint U64_MAX fs 5) (\<lambda>nonce.
   bind_r (get_uint U64_MAX fs 6) (\<lambda>fee.
   bind_r (get_u64_optional fs 7) (\<lambda>fee_tip_opt.
   bind_r (get_uint U64_MAX fs 8) (\<lambda>gas_limit.
   bind_r (get_bytes fs 9) (\<lambda>payload.
   bind_r (get_uint U16_MAX fs 10) (\<lambda>sig_alg_id_raw.
   bind_r (get_uint U32_MAX fs 11) (\<lambda>sig_key_version.
   bind_r (get_bytes fs 12) (\<lambda>signature.
   bind_r (ok_or (msg_type_from_u16 msg_type_raw) (MsgTypeUnknown msg_type_raw)) (\<lambda>msg_type.
   bind_r (ok_or (alg_from_u16 sig_alg_id_raw) (AlgorithmNotFound sig_alg_id_raw)) (\<lambda>sig_alg_id.
   bind_r (map_err (\<lambda>_. EncodingInvalid) (decode_envelope signature)) (\<lambda>(envelope_alg_id, raw_sig).
   bind_r (ensure (envelope_alg_id = sig_alg_id) EncodingInvalid) (\<lambda>_.
   bind_r (ensure (length sender_bytes = 32) EncodingInvalid) (\<lambda>_.
   Ok \<lparr> tx_version = version, tx_chain_id = chain_id, tx_msg_type = msg_type,
        tx_sender = sender_bytes, tx_nonce = nonce, tx_fee = fee,
        tx_fee_tip = (case fee_tip_opt of Some t \<Rightarrow> t | None \<Rightarrow> 0), tx_gas_limit = gas_limit,
        tx_payload = payload, tx_sig_alg_id = sig_alg_id, tx_sig_key_version = sig_key_version,
        tx_signature = raw_sig \<rparr>)))))))))))))))))"

definition decode_tx :: "env \<Rightarrow> bytes \<Rightarrow> (transaction, tx_error) result" where
"decode_tx E bs =
   bind_r (map_err (\<lambda>_. EncodingInvalid) (e_cbor_read E bs)) (\<lambda>value.
   case value of
     CMap m \<Rightarrow>
       bind_r (map_err (\<lambda>_. EncodingInvalid) (e_cbor_write E (CMap m))) (\<lambda>reencoded.
       if reencoded \<noteq> bs then Err EncodingInvalid
       else bind_r (from_pairs [] m) decode_fields)
   | _ \<Rightarrow> Err EncodingInvalid)"

section \<open>Encoding\<close>

abbreviation cint :: "nat \<Rightarrow> cbor" where
"cint n \<equiv> CInt (int n)"

definition tx_pairs :: "transaction \<Rightarrow> bytes \<Rightarrow> (cbor \<times> cbor) list" where
"tx_pairs tx envelope =
   (let pairs =
      [(cint 1, cint (tx_version tx)),
       (cint 2, CBytes (tx_chain_id tx)),
       (cint 3, cint (msg_type_as_u16 (tx_msg_type tx))),
       (cint 4, CBytes (tx_sender tx)),
       (cint 5, cint (tx_nonce tx)),
       (cint 6, cint (tx_fee tx)),
       (cint 8, cint (tx_gas_limit tx)),
       (cint 9, CBytes (tx_payload tx)),
       (cint 10, cint (alg_as_u16 (tx_sig_alg_id tx))),
       (cint 11, cint (tx_sig_key_version tx)),
       (cint 12, CBytes envelope)]
    in if tx_fee_tip tx \<noteq> 0
       then take 6 pairs @ [(cint 7, cint (tx_fee_tip tx))] @ drop 6 pairs
       else pairs)"

definition encode_tx :: "env \<Rightarrow> transaction \<Rightarrow> (bytes, tx_error) result" where
"encode_tx E tx =
   bind_r (map_err (\<lambda>_. EncodingInvalid) (encode_envelope (tx_sig_alg_id tx) (tx_signature tx)))
     (\<lambda>envelope. map_err (\<lambda>_. EncodingInvalid) (e_cbor_write E (CMap (tx_pairs tx envelope))))"

definition compute_tx_hash :: "env \<Rightarrow> bytes \<Rightarrow> hash32" where
"compute_tx_hash E raw = shake256_32 (e_xof E) raw"

section \<open>The signed preimage\<close>

definition DOMAIN_SEPARATOR :: bytes where
"DOMAIN_SEPARATOR = bstr ''PQC-TX-V1''"

definition preimage_map :: "transaction \<Rightarrow> cbor" where
"preimage_map tx = CMap
   [(cint 1, cint (tx_version tx)),
    (cint 2, CBytes (tx_chain_id tx)),
    (cint 3, cint (msg_type_as_u16 (tx_msg_type tx))),
    (cint 4, CBytes (tx_sender tx)),
    (cint 5, cint (tx_nonce tx)),
    (cint 6, cint (tx_fee tx)),
    (cint 7, cint (tx_fee_tip tx)),
    (cint 8, cint (tx_gas_limit tx)),
    (cint 9, CBytes (tx_payload tx)),
    (cint 10, cint (alg_as_u16 (tx_sig_alg_id tx))),
    (cint 11, cint (tx_sig_key_version tx))]"

definition build_preimage :: "env \<Rightarrow> bytes \<Rightarrow> transaction \<Rightarrow> (bytes, string) result" where
"build_preimage E fork_digest tx =
   bind_r (e_cbor_write E (preimage_map tx)) (\<lambda>cbor_bytes.
   Ok (tagged_hash (e_xof E) DOMAIN_SEPARATOR (fork_digest @ cbor_bytes)))"

section \<open>Well-formed transactions\<close>

text \<open>The widths of the Rust fields.\<close>

definition tx_wf :: "transaction \<Rightarrow> bool" where
"tx_wf tx =
   (tx_version tx \<le> U8_MAX \<and> length (tx_sender tx) = 32 \<and> tx_nonce tx \<le> U64_MAX
    \<and> tx_fee tx \<le> U64_MAX \<and> tx_fee_tip tx \<le> U64_MAX \<and> tx_gas_limit tx \<le> U64_MAX
    \<and> tx_sig_key_version tx \<le> U32_MAX)"

section \<open>Facts of the codec\<close>

lemma try_from_int_nat [simp]: "n \<le> m \<Longrightarrow> try_from_int m (int n) = Some n"
  by (simp add: try_from_int_def)

lemma try_from_int_Some: "try_from_int m v = Some n \<longleftrightarrow> v = int n \<and> n \<le> m"
  by (auto simp: try_from_int_def)

lemma from_pairs_map_of:
  assumes "distinct (map fst ps)" "\<forall>k\<in>set (map fst ps). hget acc k = None"
  shows "\<exists>m. from_pairs acc (map (\<lambda>(k, v). (CInt k, v)) ps) = Ok m \<and>
    (\<forall>k. hget m k = (case map_of ps k of Some v \<Rightarrow> Some v | None \<Rightarrow> hget acc k))"
  using assms
proof (induction ps arbitrary: acc)
  case (Cons p ps)
  obtain k v where p: "p = (k, v)" by fastforce
  have nk: "hget acc k = None" "map_of ps k = None" using Cons.prems p by (auto simp: map_of_eq_None_iff)
  have "\<forall>j\<in>set (map fst ps). hget (hput k v acc) j = None"
    using Cons.prems p by (auto simp: hget_hput)
  then obtain m where m: "from_pairs (hput k v acc) (map (\<lambda>(k, v). (CInt k, v)) ps) = Ok m"
    "\<forall>j. hget m j = (case map_of ps j of Some v \<Rightarrow> Some v | None \<Rightarrow> hget (hput k v acc) j)"
    using Cons.IH Cons.prems(1) by fastforce
  then show ?case using nk p by (auto simp: hhas_def hget_hput split: option.splits)
qed simp

text \<open>The pairs of an encoded transaction, with their integer keys.\<close>

definition tx_assoc :: "transaction \<Rightarrow> bytes \<Rightarrow> (int \<times> cbor) list" where
"tx_assoc tx envelope =
   [(1, cint (tx_version tx)), (2, CBytes (tx_chain_id tx)),
    (3, cint (msg_type_as_u16 (tx_msg_type tx))), (4, CBytes (tx_sender tx)),
    (5, cint (tx_nonce tx)), (6, cint (tx_fee tx))]
   @ (if tx_fee_tip tx \<noteq> 0 then [(7, cint (tx_fee_tip tx))] else [])
   @ [(8, cint (tx_gas_limit tx)), (9, CBytes (tx_payload tx)),
      (10, cint (alg_as_u16 (tx_sig_alg_id tx))), (11, cint (tx_sig_key_version tx)),
      (12, CBytes envelope)]"

lemma tx_pairs_assoc: "tx_pairs tx envelope = map (\<lambda>(k, v). (CInt k, v)) (tx_assoc tx envelope)"
  by (simp add: tx_pairs_def tx_assoc_def Let_def numeral_eq_Suc)

lemma tx_assoc_distinct: "distinct (map fst (tx_assoc tx envelope))"
  by (simp add: tx_assoc_def)

lemma decode_fields_assoc:
  assumes "tx_wf tx" "encode_envelope (tx_sig_alg_id tx) (tx_signature tx) = Ok envelope"
    "\<And>k. hget m k = map_of (tx_assoc tx envelope) k"
  shows "decode_fields m = Ok tx"
proof -
  have widths: "msg_type_as_u16 (tx_msg_type tx) \<le> U16_MAX" "alg_as_u16 (tx_sig_alg_id tx) \<le> U16_MAX"
    using msg_type_as_u16_le [of "tx_msg_type tx"] alg_as_u16_le [of "tx_sig_alg_id tx"]
    by (simp_all add: U16_MAX_def)
  show ?thesis
    using assms(1,2) widths decode_encode_envelope [OF assms(2)]
    by (simp add: decode_fields_def get_uint_def get_integer_def get_bytes_def get_u64_optional_def
        assms(3) tx_assoc_def tx_wf_def)
qed

lemma decode_tx_perm:
  assumes "tx_wf tx" "encode_envelope (tx_sig_alg_id tx) (tx_signature tx) = Ok envelope"
    and perm: "distinct (map fst ps)" "set ps = set (tx_assoc tx envelope)"
    and io: "e_cbor_write E (CMap (map (\<lambda>(k, v). (CInt k, v)) ps)) = Ok raw"
      "e_cbor_read E raw = Ok (CMap (map (\<lambda>(k, v). (CInt k, v)) ps))"
  shows "decode_tx E raw = Ok tx"
proof -
  obtain m where m: "from_pairs [] (map (\<lambda>(k, v). (CInt k, v)) ps) = Ok m"
    "\<forall>k. hget m k = (case map_of ps k of Some v \<Rightarrow> Some v | None \<Rightarrow> hget [] k)"
    using from_pairs_map_of [OF perm(1), of "[]"] by auto
  have "map_of ps = map_of (tx_assoc tx envelope)"
    using map_of_inject_set [OF perm(1) tx_assoc_distinct] perm(2) by simp
  then have "hget m k = map_of (tx_assoc tx envelope) k" for k
    using m(2) by (simp split: option.splits)
  then have "decode_fields m = Ok tx" by (rule decode_fields_assoc [OF assms(1,2)])
  then show ?thesis using io m(1) by (simp add: decode_tx_def)
qed

section \<open>Properties\<close>

text \<open>
  C40: the transaction codec round-trips.  A transaction within the field widths that
  encodes to some bytes is decoded from these bytes unchanged, whenever the CBOR library
  reads back what it wrote.
\<close>

theorem decode_encode_tx:
  assumes "tx_wf tx" "encode_tx E tx = Ok raw"
    "\<And>v bs. e_cbor_write E v = Ok bs \<Longrightarrow> e_cbor_read E bs = Ok v"
  shows "decode_tx E raw = Ok tx"
proof -
  obtain envelope where env: "encode_envelope (tx_sig_alg_id tx) (tx_signature tx) = Ok envelope"
    and w: "e_cbor_write E (CMap (tx_pairs tx envelope)) = Ok raw"
    using assms(2) by (auto simp: encode_tx_def result_simps)
  show ?thesis
    by (rule decode_tx_perm [OF assms(1) env tx_assoc_distinct refl])
      (use w assms(3) in \<open>simp_all add: tx_pairs_assoc\<close>)
qed

definition sample_tx :: transaction where
"sample_tx = \<lparr> tx_version = 1, tx_chain_id = [118], tx_msg_type = TokenTransfer,
   tx_sender = replicate 32 5, tx_nonce = 3, tx_fee = 500, tx_fee_tip = 2, tx_gas_limit = 10,
   tx_payload = [160], tx_sig_alg_id = MlDsa65, tx_sig_key_version = 1, tx_signature = [9, 9] \<rparr>"

definition sample_value :: cbor where
"sample_value = CMap (tx_pairs sample_tx [1, 2, 0, 2, 0, 9, 9])"

definition sample_env :: env where
"sample_env = \<lparr> e_xof = (\<lambda>d n. take n (d @ replicate n 0)),
   e_cbor_read = (\<lambda>bs. if bs = [42] then Ok sample_value else Err ''eof''),
   e_cbor_write = (\<lambda>v. if v = sample_value then Ok [42] else Err ''io''),
   e_verify = (\<lambda>pk msg sig. True) \<rparr>"

lemma sample_encode: "encode_tx sample_env sample_tx = Ok [42]"
  by (simp add: encode_tx_def sample_env_def sample_value_def encode_envelope_def sample_tx_def
      le_bytes_u16_def U16_MAX_def ENVELOPE_VERSION_def)

theorem decode_encode_tx_witness: "decode_tx sample_env [42] = Ok sample_tx"
  by (rule decode_encode_tx [OF _ sample_encode])
    (simp add: tx_wf_def sample_tx_def width_simps, simp add: sample_env_def split: if_splits)

text \<open>
  field order is not part of the canonical check.  The fields of an encoded
  transaction written in any other order decode to the same transaction, so one
  transaction has several accepted encodings, hence several hashes, although the rules at
  the head of \<open>codec.rs\<close> ask for ascending keys: re-encoding the decoded map keeps the
  order it arrived in.
\<close>

theorem decode_tx_accepts_any_order:
  assumes "tx_wf tx" "encode_envelope (tx_sig_alg_id tx) (tx_signature tx) = Ok envelope"
    "e_cbor_write E (CMap (rev (tx_pairs tx envelope))) = Ok raw"
    "e_cbor_read E raw = Ok (CMap (rev (tx_pairs tx envelope)))"
  shows "decode_tx E raw = Ok tx"
proof (rule decode_tx_perm [OF assms(1,2)])
  show "distinct (map fst (rev (tx_assoc tx envelope)))"
    using tx_assoc_distinct [of tx envelope] by (simp only: rev_map [symmetric] distinct_rev)
qed (use assms(3,4) in \<open>simp_all add: tx_pairs_assoc rev_map\<close>)

theorem decode_tx_accepts_any_order_witness:
  "let v = CMap (rev (tx_pairs sample_tx [1, 2, 0, 2, 0, 9, 9]));
       E = sample_env\<lparr> e_cbor_read := (\<lambda>bs. if bs = [43] then Ok v else Err ''eof''),
                       e_cbor_write := (\<lambda>w. if w = v then Ok [43] else Err ''io'') \<rparr>
   in decode_tx E [43] = Ok sample_tx"
  unfolding Let_def
  by (rule decode_tx_accepts_any_order [of _ "[1, 2, 0, 2, 0, 9, 9]"])
    (simp add: tx_wf_def sample_tx_def width_simps,
     simp add: sample_tx_def encode_envelope_def le_bytes_u16_def U16_MAX_def ENVELOPE_VERSION_def,
     simp_all)

section \<open>Types of decoded transactions\<close>

lemma get_uint_bound: "get_uint m fs k = Ok n \<Longrightarrow> n \<le> m"
  by (auto simp: get_uint_def result_simps try_from_int_def split: if_splits)

lemma get_u64_optional_bound: "get_u64_optional fs k = Ok (Some n) \<Longrightarrow> n \<le> U64_MAX"
  by (auto simp: get_u64_optional_def result_simps dest: get_uint_bound split: option.splits)

lemma decode_tx_fields:
  assumes "decode_tx E raw = Ok tx"
  obtains fs where "decode_fields fs = Ok tx"
proof (cases "e_cbor_read E raw")
  case (Ok v)
  then show ?thesis using assms that by (cases v) (auto simp: decode_tx_def result_simps split: if_splits)
qed (use assms in \<open>simp_all add: decode_tx_def\<close>)

lemma decode_fields_Ok:
  assumes "decode_fields fs = Ok tx"
  shows "get_uint U8_MAX fs 1 = Ok (tx_version tx)" "get_uint U64_MAX fs 5 = Ok (tx_nonce tx)"
    "get_uint U64_MAX fs 6 = Ok (tx_fee tx)" "get_uint U64_MAX fs 8 = Ok (tx_gas_limit tx)"
    "get_uint U32_MAX fs 11 = Ok (tx_sig_key_version tx)" "length (tx_sender tx) = 32"
    "\<exists>tip. get_u64_optional fs 7 = Ok tip \<and> tx_fee_tip tx = (case tip of Some t \<Rightarrow> t | None \<Rightarrow> 0)"
    "\<exists>bs. decode_envelope bs = Ok (tx_sig_alg_id tx, tx_signature tx)"
  using assms unfolding decode_fields_def by (clarsimp simp: result_simps case_prod_beta ensure_def split: if_splits, fastforce?)+

lemma decode_envelope_length: "decode_envelope bs = Ok (a, sg) \<Longrightarrow> length sg \<le> U16_MAX"
proof -
  have "from_le_bytes_u16 lo hi \<le> U16_MAX" for lo hi
    using unsigned_less [of lo, where ?'a = nat] unsigned_less [of hi, where ?'a = nat]
    by (simp add: from_le_bytes_u16_def U16_MAX_def)
  then show "decode_envelope bs = Ok (a, sg) \<Longrightarrow> length sg \<le> U16_MAX"
    by (auto simp: decode_envelope_def Let_def split: list.splits if_splits option.splits)
qed

text \<open>
  Decoded transactions are well typed.  Whatever bytes are decoded, every number of the resulting
  transaction fits its field (8, 32 or 64 bits), the sender has 32 bytes, and the signature fits the
  16-bit length of an envelope, so that the transaction can be put into an envelope again.
\<close>

theorem decode_tx_typed:
  assumes "decode_tx E raw = Ok tx"
  shows "tx_wf tx \<and> (\<exists>envelope. encode_envelope (tx_sig_alg_id tx) (tx_signature tx) = Ok envelope)"
proof -
  obtain fs where fs: "decode_fields fs = Ok tx" by (rule decode_tx_fields [OF assms])
  note f = decode_fields_Ok [OF fs]
  obtain bs where "decode_envelope bs = Ok (tx_sig_alg_id tx, tx_signature tx)" using f(8) by blast
  then have "length (tx_signature tx) \<le> U16_MAX" by (rule decode_envelope_length)
  moreover have "tx_fee_tip tx \<le> U64_MAX" using f(7) get_u64_optional_bound by (auto split: option.splits)
  ultimately show ?thesis
    using f(1-5) [THEN get_uint_bound] f(6) by (auto simp: tx_wf_def encode_envelope_def)
qed

theorem decode_tx_typed_witness: "tx_wf sample_tx \<and> decode_tx sample_env [42] = Ok sample_tx"
proof -
  have env: "encode_envelope (tx_sig_alg_id sample_tx) (tx_signature sample_tx) = Ok [1, 2, 0, 2, 0, 9, 9]"
    by (simp add: sample_tx_def encode_envelope_def le_bytes_u16_def U16_MAX_def ENVELOPE_VERSION_def)
  have "decode_tx sample_env [42] = Ok sample_tx"
    by (rule decode_tx_perm [OF _ env tx_assoc_distinct refl])
      (simp add: tx_wf_def sample_tx_def width_simps, simp_all add: sample_env_def sample_value_def tx_pairs_assoc)
  then show ?thesis using decode_tx_typed [of sample_env "[42]" sample_tx] by simp
qed

end
