(* ===== verification/Apply_Error.thy ===== *)
theory Apply_Error
  imports Codec State_Types
begin

text \<open>
  The errors of the state transition, \<open>pqc-state/src/error.rs\<close>, one constructor per variant.
\<close>

datatype (plugins only: code) apply_error =
    AE_AccountExists | AE_UnsupportedAlgorithm | AE_InvalidKeyPermissions | AE_InvalidKeySize
  | AE_InvalidActivationHeight | AE_TransferAmountZero | AE_SelfTransfer | AE_InsufficientFunds
  | AE_InvalidRecipient | AE_AttestationExists | AE_InvalidAttestationType | AE_InvalidHash
  | AE_InvalidExpiry | AE_InvalidClaimType | AE_PolicyVersionConflict | AE_AttestationNotFound
  | AE_AttestationAlreadyRevoked | AE_UnauthorizedRevoker | AE_KeyVersionConflict | AE_KeyNotFound
  | AE_KeyAlreadyRevoked | AE_InsufficientActiveKeys | AE_InvalidKeyRotation | AE_SignerIsTarget
  | AE_NotAValidator | AE_AlgorithmNotAllowedForConsensus | AE_InvalidRotationHeight
  | AE_ConsensusKeyConflict | AE_ProposalOutOfScope | AE_InvalidLifecycleTransition
  | AE_GovernanceNoEffect | AE_AlgorithmAlreadyRegistered nat | AE_ReservedAlgIdRange nat
  | AE_InvalidSize | AE_InvalidInitialLifecycle | AE_DuplicateSlashingVerifier nat
  | AE_ReservedSlashingEvidenceType nat | AE_InvalidSlashingFraction
  | AE_HashAlreadyRegistered nat | AE_ReservedHashIdRange nat | AE_ValidatorAlreadyRegistered
  | AE_ValidatorNotFound | AE_ValidatorNotActive | AE_ValidatorNotJailed | AE_ValidatorSetFull
  | AE_ValidatorExitWouldEmptySet | AE_AlgorithmNotAllowedForConsensusKey | AE_ValidatorBondZero
  | AE_ValidatorConsensusKeyConflict | AE_ValidatorPeerIdTooLarge | AE_ValidatorPeerIdConflict
  | AE_ValidatorPeerIdEmpty | AE_ValidatorPeerIdNotRotatable | AE_AlreadyTombstoned
  | AE_EvidenceExpired | AE_InvalidEquivocationVote | AE_EquivocationNotProven
  | AE_EvidenceHeightMismatch | AE_EvidenceRoundMismatch | AE_EvidenceStepMismatch
  | AE_InvalidSignature | AE_ProposalNotFound | AE_ProposalNotVoting | AE_VotingPeriodClosed
  | AE_AlreadyVoted | AE_NotAnActiveValidatorForVote | AE_DuplicateProposal
  | AE_BurnRateOutOfRange | AE_BlockGasLimitZero | AE_ArchivalAlgorithmNotAllowed
  | AE_ArchivalInvalidPkSize | AE_ArchivalValidatorNotEligible | AE_DuplicateArchivalRecord
  | AE_ArchivalEpochInFuture | AE_ArchivalSignerNotAuthorized | AE_ArchivalThresholdNotMet
  | AE_ArchivalSignatureInvalid | AE_ArchivalMissingKey | AE_ArchivalRecordNotFound
  | AE_ArchivalUnknownAnchorKind | AE_ArchivalAnchorTooLarge | AE_ArchivalNotRenewer
  | AE_PayloadDecode string | AE_TokenEconomicsDisabled | AE_MigrationNoHandler nat nat
  | AE_SoftwareUpgradeVersionMismatch nat nat nat

end
