(* ===== verification/Payload.thy ===== *)
theory Payload
  imports Apply_Error
begin

text \<open>
  Decoding of transaction payloads: the \<open>decode_*_payload\<close> functions of the handlers under
  \<open>pqc-state/src/apply/\<close> and of \<open>pqc-types/src/slashing.rs\<close>.  Each is a loop over the entries of
  a CBOR map that collects optional fields, a later entry overwriting an earlier one, followed
  by the checks for missing fields.
\<close>

section \<open>Rendering and UTF-8\<close>

fun dec_nat :: "nat \<Rightarrow> string" where
"dec_nat n = (if n < 10 then [char_of (48 + n)] else dec_nat (n div 10) @ [char_of (48 + n mod 10)])"

declare dec_nat.simps [simp del]

definition dec_int :: "int \<Rightarrow> string" where
"dec_int i = (if i < 0 then CHR ''-'' # dec_nat (nat (- i)) else dec_nat (nat i))"

definition hex_digit :: "nat \<Rightarrow> char" where
"hex_digit n = (if n < 10 then char_of (48 + n) else char_of (87 + n))"

text \<open>\<open>{:#04x}\<close> of a byte.\<close>

definition hex_byte :: "nat \<Rightarrow> string" where
"hex_byte v = ''0x'' @ [hex_digit (v div 16), hex_digit (v mod 16)]"

definition cont_byte :: "byte \<Rightarrow> bool" where
"cont_byte b = (0x80 \<le> b \<and> b \<le> 0xBF)"

text \<open>Well-formed UTF-8 in the sense of \<open>String::from_utf8\<close>.\<close>

fun utf8_valid :: "bytes \<Rightarrow> bool" where
"utf8_valid [] = True" |
"utf8_valid (a # rest) =
   (if a \<le> 0x7F then utf8_valid rest
    else if 0xC2 \<le> a \<and> a \<le> 0xDF then
      (case rest of b # r \<Rightarrow> cont_byte b \<and> utf8_valid r | _ \<Rightarrow> False)
    else if 0xE0 \<le> a \<and> a \<le> 0xEF then
      (case rest of
         b # c # r \<Rightarrow> cont_byte b \<and> cont_byte c \<and> (a = 0xE0 \<longrightarrow> 0xA0 \<le> b)
           \<and> (a = 0xED \<longrightarrow> b \<le> 0x9F) \<and> utf8_valid r
       | _ \<Rightarrow> False)
    else if 0xF0 \<le> a \<and> a \<le> 0xF4 then
      (case rest of
         b # c # d # r \<Rightarrow> cont_byte b \<and> cont_byte c \<and> cont_byte d \<and> (a = 0xF0 \<longrightarrow> 0x90 \<le> b)
           \<and> (a = 0xF4 \<longrightarrow> b \<le> 0x8F) \<and> utf8_valid r
       | _ \<Rightarrow> False)
    else False)"

definition string_from_utf8 :: "bytes \<Rightarrow> string option" where
"string_from_utf8 b = (if utf8_valid b then Some (map (\<lambda>x. char_of (unat x)) b) else None)"

section \<open>Shared helpers of the handlers\<close>

abbreviation pderr :: "string \<Rightarrow> ('a, apply_error) result" where
"pderr msg \<equiv> Err (AE_PayloadDecode msg)"

definition unknown_key :: "int \<Rightarrow> ('a, apply_error) result" where
"unknown_key key = pderr (''unknown payload key: '' @ dec_int key)"

text \<open>The prologue of most decoders: reject an empty payload, parse, expect a map.\<close>

definition payload_map :: "env \<Rightarrow> bytes \<Rightarrow> ((cbor \<times> cbor) list, apply_error) result" where
"payload_map E payload =
   (if payload = [] then pderr ''empty payload''
    else bind_r (map_err AE_PayloadDecode (e_cbor_read E payload)) (\<lambda>value.
      case value of CMap m \<Rightarrow> Ok m | _ \<Rightarrow> pderr ''payload must be a CBOR map''))"

text \<open>The loop over the entries; \<open>step\<close> handles one integer key.\<close>

fun decode_loop ::
    "(int \<Rightarrow> cbor \<Rightarrow> 'a \<Rightarrow> ('a, apply_error) result) \<Rightarrow> (cbor \<times> cbor) list \<Rightarrow> 'a \<Rightarrow> ('a, apply_error) result" where
"decode_loop step [] acc = Ok acc" |
"decode_loop step ((k, v) # rest) acc =
   (case k of
      CInt key \<Rightarrow> bind_r (step key v acc) (decode_loop step rest)
    | _ \<Rightarrow> pderr ''non-integer map key'')"

fun expect_integer :: "cbor \<Rightarrow> (int, apply_error) result" where
"expect_integer (CInt i) = Ok i" |
"expect_integer _ = pderr ''expected integer''"

fun expect_bytes :: "cbor \<Rightarrow> (bytes, apply_error) result" where
"expect_bytes (CBytes b) = Ok b" |
"expect_bytes _ = pderr ''expected bytes''"

definition decode_uint :: "nat \<Rightarrow> string \<Rightarrow> cbor \<Rightarrow> (nat, apply_error) result" where
"decode_uint m msg v = bind_r (expect_integer v) (\<lambda>i. ok_or (try_from_int m i) (AE_PayloadDecode msg))"

definition expect_hash32 :: "cbor \<Rightarrow> (hash32, apply_error) result" where
"expect_hash32 v = bind_r (expect_bytes v) (\<lambda>b. if length b \<noteq> 32 then Err AE_InvalidHash else Ok b)"

definition need :: "'a option \<Rightarrow> string \<Rightarrow> ('a, apply_error) result" where
"need x msg = ok_or x (AE_PayloadDecode msg)"

section \<open>Transfers\<close>

record token_transfer_payload =
  tt_recipient :: address
  tt_amount :: nat

fun expect_u128 :: "cbor \<Rightarrow> (nat, apply_error) result" where
"expect_u128 (CInt i) = ok_or (try_from_int U128_MAX i) (AE_PayloadDecode ''amount out of u128 range'')" |
"expect_u128 (CBytes b) =
   (if length b \<noteq> 16
    then pderr (''amount bytestring must be exactly 16 bytes, got '' @ dec_nat (length b))
    else Ok (from_be_bytes b))" |
"expect_u128 _ = pderr ''amount must be integer or 16-byte bytestring''"

definition decode_token_transfer_payload :: "env \<Rightarrow> bytes \<Rightarrow> (token_transfer_payload, apply_error) result" where
"decode_token_transfer_payload E payload =
   bind_r (payload_map E payload) (\<lambda>m.
   bind_r (decode_loop (\<lambda>key v (recipient_bytes, amount).
       if key = 1 then bind_r (expect_bytes v) (\<lambda>b. Ok (Some b, amount))
       else if key = 2 then bind_r (expect_u128 v) (\<lambda>n. Ok (recipient_bytes, Some n))
       else if key = 3 then Ok (recipient_bytes, amount)
       else unknown_key key) m (None, None)) (\<lambda>(recipient_bytes, amount).
   bind_r (need recipient_bytes ''missing field 1 (recipient)'') (\<lambda>rb.
   if length rb \<noteq> 32 then Err AE_InvalidRecipient
   else bind_r (need amount ''missing field 2 (amount)'') (\<lambda>a.
   Ok \<lparr> tt_recipient = rb, tt_amount = a \<rparr>))))"

section \<open>Vaults\<close>

record vault_create_payload =
  vt_alg_id :: nat
  vt_pk_bytes :: bytes
  vt_allowed_tx_types :: nat
  vt_valid_from_height :: nat

definition decode_vault_create_payload :: "env \<Rightarrow> bytes \<Rightarrow> (vault_create_payload, apply_error) result" where
"decode_vault_create_payload E payload =
   bind_r (payload_map E payload) (\<lambda>m.
   bind_r (decode_loop (\<lambda>key v (alg, pk, allowed, from).
       if key = 1 then bind_r (decode_uint U16_MAX ''alg_id out of u16 range'' v) (\<lambda>n. Ok (Some n, pk, allowed, from))
       else if key = 2 then bind_r (expect_bytes v) (\<lambda>b. Ok (alg, Some b, allowed, from))
       else if key = 3 then bind_r (decode_uint U32_MAX ''allowed_tx_types out of u32 range'' v)
         (\<lambda>n. Ok (alg, pk, Some n, from))
       else if key = 4 then bind_r (decode_uint U64_MAX ''valid_from_height out of u64 range'' v)
         (\<lambda>n. Ok (alg, pk, allowed, Some n))
       else if key = 5 then Ok (alg, pk, allowed, from)
       else unknown_key key) m (None, None, None, None)) (\<lambda>(alg, pk, allowed, from).
   bind_r (need alg ''missing field 1 (alg_id)'') (\<lambda>alg.
   bind_r (need pk ''missing field 2 (pk_bytes)'') (\<lambda>pk.
   bind_r (need allowed ''missing field 3 (allowed_tx_types)'') (\<lambda>allowed.
   bind_r (need from ''missing field 4 (valid_from_height)'') (\<lambda>from.
   Ok \<lparr> vt_alg_id = alg, vt_pk_bytes = pk, vt_allowed_tx_types = allowed, vt_valid_from_height = from \<rparr>))))))"

record vault_policy_update_payload =
  vp_policy_version :: nat
  vp_policy_hash :: hash32

definition decode_vault_policy_update_payload ::
    "env \<Rightarrow> bytes \<Rightarrow> (vault_policy_update_payload, apply_error) result" where
"decode_vault_policy_update_payload E payload =
   bind_r (payload_map E payload) (\<lambda>m.
   bind_r (decode_loop (\<lambda>key v (version, hash).
       if key = 1 then bind_r (decode_uint U32_MAX ''policy_version out of u32 range'' v) (\<lambda>n. Ok (Some n, hash))
       else if key = 2 then bind_r (expect_hash32 v) (\<lambda>h. Ok (version, Some h))
       else if key = 3 then Ok (version, hash)
       else unknown_key key) m (None, None)) (\<lambda>(version, hash).
   bind_r (need version ''missing field 1 (policy_version)'') (\<lambda>version.
   bind_r (need hash ''missing field 2 (policy_hash)'') (\<lambda>hash.
   Ok \<lparr> vp_policy_version = version, vp_policy_hash = hash \<rparr>))))"

section \<open>Key management\<close>

text \<open>\<open>decode_map\<close> of \<open>key_mgmt.rs\<close> rejects a non-integer key before any value is looked at.\<close>

fun int_key :: "cbor \<times> cbor \<Rightarrow> bool" where
"int_key (CInt i, v) = True" |
"int_key _ = False"

definition decode_map :: "env \<Rightarrow> bytes \<Rightarrow> ((cbor \<times> cbor) list, apply_error) result" where
"decode_map E payload =
   bind_r (payload_map E payload) (\<lambda>m.
   if list_all int_key m then Ok m else pderr ''non-integer map key'')"

record key_add_payload =
  ka_alg_id :: nat
  ka_pk_bytes :: bytes
  ka_key_version :: nat
  ka_valid_from_height :: nat
  ka_allowed_tx_types :: nat

definition decode_key_add_payload :: "env \<Rightarrow> bytes \<Rightarrow> (key_add_payload, apply_error) result" where
"decode_key_add_payload E payload =
   bind_r (decode_map E payload) (\<lambda>m.
   bind_r (decode_loop (\<lambda>key v (alg, pk, version, from, allowed).
       if key = 1 then bind_r (decode_uint U16_MAX ''alg_id out of u16 range'' v)
         (\<lambda>n. Ok (Some n, pk, version, from, allowed))
       else if key = 2 then bind_r (expect_bytes v) (\<lambda>b. Ok (alg, Some b, version, from, allowed))
       else if key = 3 then bind_r (decode_uint U32_MAX ''key_version out of u32 range'' v)
         (\<lambda>n. Ok (alg, pk, Some n, from, allowed))
       else if key = 4 then bind_r (decode_uint U64_MAX ''valid_from_height out of u64 range'' v)
         (\<lambda>n. Ok (alg, pk, version, Some n, allowed))
       else if key = 5 then bind_r (decode_uint U32_MAX ''allowed_tx_types out of u32 range'' v)
         (\<lambda>n. Ok (alg, pk, version, from, Some n))
       else unknown_key key) m (None, None, None, None, None)) (\<lambda>(alg, pk, version, from, allowed).
   bind_r (need alg ''missing field 1 (alg_id)'') (\<lambda>alg.
   bind_r (need pk ''missing field 2 (pk_bytes)'') (\<lambda>pk.
   bind_r (need version ''missing field 3 (key_version)'') (\<lambda>version.
   bind_r (need from ''missing field 4 (valid_from_height)'') (\<lambda>from.
   bind_r (need allowed ''missing field 5 (allowed_tx_types)'') (\<lambda>allowed.
   Ok \<lparr> ka_alg_id = alg, ka_pk_bytes = pk, ka_key_version = version, ka_valid_from_height = from,
        ka_allowed_tx_types = allowed \<rparr>)))))))"

record key_rotate_payload =
  kr_new_alg_id :: nat
  kr_new_pk_bytes :: bytes
  kr_new_key_version :: nat
  kr_new_valid_from_height :: nat
  kr_new_allowed_tx_types :: nat
  kr_revoke_key_version :: nat

definition decode_key_rotate_payload :: "env \<Rightarrow> bytes \<Rightarrow> (key_rotate_payload, apply_error) result" where
"decode_key_rotate_payload E payload =
   bind_r (decode_map E payload) (\<lambda>m.
   bind_r (decode_loop (\<lambda>key v (alg, pk, version, from, allowed, rvk).
       if key = 1 then bind_r (decode_uint U16_MAX ''new_alg_id out of u16 range'' v)
         (\<lambda>n. Ok (Some n, pk, version, from, allowed, rvk))
       else if key = 2 then bind_r (expect_bytes v) (\<lambda>b. Ok (alg, Some b, version, from, allowed, rvk))
       else if key = 3 then bind_r (decode_uint U32_MAX ''new_key_version out of u32 range'' v)
         (\<lambda>n. Ok (alg, pk, Some n, from, allowed, rvk))
       else if key = 4 then bind_r (decode_uint U64_MAX ''new_valid_from_height out of u64 range'' v)
         (\<lambda>n. Ok (alg, pk, version, Some n, allowed, rvk))
       else if key = 5 then bind_r (decode_uint U32_MAX ''new_allowed_tx_types out of u32 range'' v)
         (\<lambda>n. Ok (alg, pk, version, from, Some n, rvk))
       else if key = 6 then bind_r (decode_uint U32_MAX ''revoke_key_version out of u32 range'' v)
         (\<lambda>n. Ok (alg, pk, version, from, allowed, Some n))
       else unknown_key key) m (None, None, None, None, None, None)) (\<lambda>(alg, pk, version, from, allowed, rvk).
   bind_r (need alg ''missing field 1 (new_alg_id)'') (\<lambda>alg.
   bind_r (need pk ''missing field 2 (new_pk_bytes)'') (\<lambda>pk.
   bind_r (need version ''missing field 3 (new_key_version)'') (\<lambda>version.
   bind_r (need from ''missing field 4 (new_valid_from_height)'') (\<lambda>from.
   bind_r (need allowed ''missing field 5 (new_allowed_tx_types)'') (\<lambda>allowed.
   bind_r (need rvk ''missing field 6 (revoke_key_version)'') (\<lambda>rvk.
   Ok \<lparr> kr_new_alg_id = alg, kr_new_pk_bytes = pk, kr_new_key_version = version,
        kr_new_valid_from_height = from, kr_new_allowed_tx_types = allowed,
        kr_revoke_key_version = rvk \<rparr>))))))))"

definition decode_key_revoke_payload :: "env \<Rightarrow> bytes \<Rightarrow> (nat, apply_error) result" where
"decode_key_revoke_payload E payload =
   bind_r (decode_map E payload) (\<lambda>m.
   bind_r (decode_loop (\<lambda>key v target.
       if key = 1 then bind_r (decode_uint U32_MAX ''target_key_version out of u32 range'' v) (\<lambda>n. Ok (Some n))
       else unknown_key key) m None) (\<lambda>target.
   need target ''missing field 1 (target_key_version)''))"

section \<open>Validators\<close>

text \<open>Decoders that skip unknown and non-integer keys.\<close>

definition lenient_map :: "env \<Rightarrow> bytes \<Rightarrow> ((cbor \<times> cbor) list, apply_error) result" where
"lenient_map E payload =
   bind_r (map_err (\<lambda>e. AE_PayloadDecode (''CBOR decode failed: '' @ e)) (e_cbor_read E payload)) (\<lambda>value.
   case value of CMap m \<Rightarrow> Ok m | _ \<Rightarrow> pderr ''expected CBOR map'')"

fun lenient_loop ::
    "(int \<Rightarrow> cbor \<Rightarrow> 'a \<Rightarrow> ('a, apply_error) result) \<Rightarrow> (cbor \<times> cbor) list \<Rightarrow> 'a \<Rightarrow> ('a, apply_error) result" where
"lenient_loop step [] acc = Ok acc" |
"lenient_loop step ((k, v) # rest) acc =
   (case k of
      CInt key \<Rightarrow> bind_r (step key v acc) (lenient_loop step rest)
    | _ \<Rightarrow> lenient_loop step rest acc)"

fun field_bytes :: "string \<Rightarrow> cbor \<Rightarrow> (bytes, apply_error) result" where
"field_bytes msg (CBytes b) = Ok b" |
"field_bytes msg _ = pderr msg"

fun field_uint :: "nat \<Rightarrow> string \<Rightarrow> string \<Rightarrow> cbor \<Rightarrow> (nat, apply_error) result" where
"field_uint m over msg (CInt i) = ok_or (try_from_int m i) (AE_PayloadDecode over)" |
"field_uint m over msg _ = pderr msg"

record validator_register_payload =
  rp_node_id :: string
  rp_consensus_alg_id :: nat
  rp_consensus_pk :: bytes
  rp_self_bond :: nat
  rp_peer_id :: bytes

definition decode_register_payload :: "env \<Rightarrow> bytes \<Rightarrow> (validator_register_payload, apply_error) result" where
"decode_register_payload E payload =
   bind_r (lenient_map E payload) (\<lambda>m.
   bind_r (lenient_loop (\<lambda>key v (node, alg, pk, bond, peer).
       if key = 1 then bind_r (field_bytes ''field 1 must be bytes'' v) (\<lambda>b.
         bind_r (need (string_from_utf8 b) ''node_id must be UTF-8'') (\<lambda>n. Ok (Some n, alg, pk, bond, peer)))
       else if key = 2 then bind_r (field_uint U16_MAX ''alg_id overflow'' ''field 2 must be integer'' v)
         (\<lambda>n. Ok (node, Some n, pk, bond, peer))
       else if key = 3 then bind_r (field_bytes ''field 3 must be bytes'' v)
         (\<lambda>b. Ok (node, alg, Some b, bond, peer))
       else if key = 4 then bind_r (field_bytes ''field 4 must be 16-byte bstr'' v) (\<lambda>b.
         if length b = 16 then Ok (node, alg, pk, Some (from_be_bytes b), peer)
         else pderr ''field 4 must be 16-byte bstr'')
       else if key = 5 then bind_r (field_bytes ''field 5 must be bytes'' v)
         (\<lambda>b. Ok (node, alg, pk, bond, Some b))
       else Ok (node, alg, pk, bond, peer)) m (None, None, None, None, None)) (\<lambda>(node, alg, pk, bond, peer).
   bind_r (need node ''missing field 1 (node_id)'') (\<lambda>node.
   bind_r (need alg ''missing field 2 (alg_id)'') (\<lambda>alg.
   bind_r (need pk ''missing field 3 (consensus_pk)'') (\<lambda>pk.
   bind_r (need bond ''missing field 4 (self_bond)'') (\<lambda>bond.
   Ok \<lparr> rp_node_id = node, rp_consensus_alg_id = alg, rp_consensus_pk = pk, rp_self_bond = bond,
        rp_peer_id = (case peer of None \<Rightarrow> [] | Some p \<Rightarrow> p) \<rparr>))))))"

definition decode_rotate_peer_id_payload :: "env \<Rightarrow> bytes \<Rightarrow> (bytes, apply_error) result" where
"decode_rotate_peer_id_payload E payload =
   bind_r (lenient_map E payload) (\<lambda>m.
   bind_r (lenient_loop (\<lambda>key v new_peer_id.
       if key = 1 then bind_r (field_bytes ''field 1 must be bytes'' v) (\<lambda>b. Ok (Some b))
       else Ok new_peer_id) m None) (\<lambda>new_peer_id.
   need new_peer_id ''missing field 1 (new_peer_id)''))"

record consensus_key_rotate_payload =
  cr_new_consensus_alg_id :: nat
  cr_new_consensus_pk_bytes :: bytes
  cr_rotation_start_height :: nat

definition decode_consensus_key_rotate_payload ::
    "env \<Rightarrow> bytes \<Rightarrow> (consensus_key_rotate_payload, apply_error) result" where
"decode_consensus_key_rotate_payload E payload =
   bind_r (payload_map E payload) (\<lambda>m.
   bind_r (decode_loop (\<lambda>key v (alg, pk, start).
       if key = 1 then bind_r (decode_uint U16_MAX ''new_consensus_alg_id out of u16 range'' v)
         (\<lambda>n. Ok (Some n, pk, start))
       else if key = 2 then bind_r (expect_bytes v) (\<lambda>b. Ok (alg, Some b, start))
       else if key = 3 then bind_r (decode_uint U64_MAX ''rotation_start_height out of u64 range'' v)
         (\<lambda>n. Ok (alg, pk, Some n))
       else unknown_key key) m (None, None, None)) (\<lambda>(alg, pk, start).
   bind_r (need alg ''missing field 1 (new_consensus_alg_id)'') (\<lambda>alg.
   bind_r (need pk ''missing field 2 (new_consensus_pk_bytes)'') (\<lambda>pk.
   bind_r (need start ''missing field 3 (rotation_start_height)'') (\<lambda>start.
   Ok \<lparr> cr_new_consensus_alg_id = alg, cr_new_consensus_pk_bytes = pk, cr_rotation_start_height = start \<rparr>)))))"

section \<open>Attestations and proof anchors\<close>

record attestation_create_payload =
  ac_p_subject :: hash32
  ac_p_attestation_type :: nat
  ac_p_content_hash :: hash32
  ac_p_schema_id :: hash32
  ac_p_metadata_hash :: "hash32 option"
  ac_p_expires_at_height :: "nat option"

definition decode_attestation_create_payload ::
    "env \<Rightarrow> bytes \<Rightarrow> (attestation_create_payload, apply_error) result" where
"decode_attestation_create_payload E payload =
   bind_r (payload_map E payload) (\<lambda>m.
   bind_r (decode_loop (\<lambda>key v (subject, typ, content, schema, meta, expires).
       if key = 1 then bind_r (expect_hash32 v) (\<lambda>h. Ok (Some h, typ, content, schema, meta, expires))
       else if key = 2 then bind_r (decode_uint U16_MAX ''attestation_type out of u16 range'' v)
         (\<lambda>n. Ok (subject, Some n, content, schema, meta, expires))
       else if key = 3 then bind_r (expect_hash32 v) (\<lambda>h. Ok (subject, typ, Some h, schema, meta, expires))
       else if key = 4 then bind_r (expect_hash32 v) (\<lambda>h. Ok (subject, typ, content, Some h, meta, expires))
       else if key = 5 then bind_r (expect_hash32 v) (\<lambda>h. Ok (subject, typ, content, schema, Some h, expires))
       else if key = 6 then bind_r (decode_uint U64_MAX ''expires_at_height out of u64 range'' v)
         (\<lambda>n. Ok (subject, typ, content, schema, meta, Some n))
       else unknown_key key) m (None, None, None, None, None, None))
     (\<lambda>(subject, typ, content, schema, meta, expires).
   bind_r (need subject ''missing field 1 (subject)'') (\<lambda>subject.
   bind_r (need typ ''missing field 2 (attestation_type)'') (\<lambda>typ.
   bind_r (need content ''missing field 3 (content_hash)'') (\<lambda>content.
   bind_r (need schema ''missing field 4 (schema_id)'') (\<lambda>schema.
   Ok \<lparr> ac_p_subject = subject, ac_p_attestation_type = typ, ac_p_content_hash = content,
        ac_p_schema_id = schema, ac_p_metadata_hash = meta, ac_p_expires_at_height = expires \<rparr>))))))"

definition decode_attestation_revoke_payload ::
    "env \<Rightarrow> bytes \<Rightarrow> (hash32 \<times> hash32 option, apply_error) result" where
"decode_attestation_revoke_payload E payload =
   bind_r (payload_map E payload) (\<lambda>m.
   bind_r (decode_loop (\<lambda>key v (aid, reason).
       if key = 1 then bind_r (expect_hash32 v) (\<lambda>h. Ok (Some h, reason))
       else if key = 2 then bind_r (expect_hash32 v) (\<lambda>h. Ok (aid, Some h))
       else unknown_key key) m (None, None)) (\<lambda>(aid, reason).
   bind_r (need aid ''missing field 1 (attestation_id)'') (\<lambda>aid. Ok (aid, reason))))"

record proof_anchor_payload =
  pp_claim_type :: nat
  pp_asset_id_hash :: hash32
  pp_proof_hash :: hash32
  pp_schema_id :: "hash32 option"

definition decode_proof_anchor_payload :: "env \<Rightarrow> bytes \<Rightarrow> (proof_anchor_payload, apply_error) result" where
"decode_proof_anchor_payload E payload =
   bind_r (payload_map E payload) (\<lambda>m.
   bind_r (decode_loop (\<lambda>key v (claim, asset, prf, schema).
       if key = 1 then bind_r (decode_uint U16_MAX ''claim_type out of u16 range'' v)
         (\<lambda>n. Ok (Some n, asset, prf, schema))
       else if key = 2 then bind_r (expect_hash32 v) (\<lambda>h. Ok (claim, Some h, prf, schema))
       else if key = 3 then bind_r (expect_hash32 v) (\<lambda>h. Ok (claim, asset, Some h, schema))
       else if key = 4 then bind_r (expect_hash32 v) (\<lambda>h. Ok (claim, asset, prf, Some h))
       else unknown_key key) m (None, None, None, None)) (\<lambda>(claim, asset, prf, schema).
   bind_r (need claim ''missing field 1 (claim_type)'') (\<lambda>claim.
   bind_r (need asset ''missing field 2 (asset_id_hash)'') (\<lambda>asset.
   bind_r (need prf ''missing field 3 (proof_hash)'') (\<lambda>prf.
   Ok \<lparr> pp_claim_type = claim, pp_asset_id_hash = asset, pp_proof_hash = prf, pp_schema_id = schema \<rparr>)))))"

section \<open>Archival payloads\<close>

definition cbor_u64 :: "string \<Rightarrow> cbor \<Rightarrow> (nat, apply_error) result" where
"cbor_u64 field v = field_uint U64_MAX (field @ '' must be unsigned u64'') (field @ '' must be integer'') v"

definition cbor_bytes :: "string \<Rightarrow> cbor \<Rightarrow> (bytes, apply_error) result" where
"cbor_bytes field v = field_bytes (field @ '' must be bytes'') v"

definition decode_register_archival_key_payload :: "env \<Rightarrow> bytes \<Rightarrow> (nat \<times> bytes, apply_error) result" where
"decode_register_archival_key_payload E payload =
   bind_r (lenient_map E payload) (\<lambda>m.
   bind_r (lenient_loop (\<lambda>key v (alg, pk).
       if key = 1 then bind_r (cbor_u64 ''archival_alg_id'' v) (\<lambda>n.
         if n \<le> U16_MAX then Ok (Some n, pk) else pderr ''archival_alg_id overflow'')
       else if key = 2 then bind_r (cbor_bytes ''archival_pk'' v) (\<lambda>b. Ok (alg, Some b))
       else Ok (alg, pk)) m (None, None)) (\<lambda>(alg, pk).
   bind_r (need alg ''missing field 1 (archival_alg_id)'') (\<lambda>alg.
   bind_r (need pk ''missing field 2 (archival_pk)'') (\<lambda>pk. Ok (alg, pk)))))"

fun decode_sig_entry :: "cbor \<Rightarrow> (address \<times> bytes, apply_error) result" where
"decode_sig_entry (CArray p) =
   (case p of
      [a, sg] \<Rightarrow>
        bind_r (cbor_bytes ''slh_sig_set[].addr'' a) (\<lambda>addr.
        if length addr \<noteq> 32 then pderr ''slh_sig_set addr must be 32 bytes''
        else bind_r (cbor_bytes ''slh_sig_set[].sig'' sg) (\<lambda>sig_bytes. Ok (addr, sig_bytes)))
    | _ \<Rightarrow> pderr ''slh_sig_set entry must have 2 elements'')" |
"decode_sig_entry _ = pderr ''slh_sig_set entries must be arrays''"

fun decode_sig_set :: "cbor list \<Rightarrow> ((address \<times> bytes) list, apply_error) result" where
"decode_sig_set [] = Ok []" |
"decode_sig_set (item # arr) =
   bind_r (decode_sig_entry item) (\<lambda>e. bind_r (decode_sig_set arr) (\<lambda>es. Ok (e # es)))"

record archival_record_submit_payload =
  as_epoch_number :: nat
  as_first_height :: nat
  as_last_height :: nat
  as_epoch_root :: hash32
  as_slh_sig_set :: "(address \<times> bytes) list"

definition decode_archival_record_submit_payload ::
    "env \<Rightarrow> bytes \<Rightarrow> (archival_record_submit_payload, apply_error) result" where
"decode_archival_record_submit_payload E payload =
   bind_r (lenient_map E payload) (\<lambda>m.
   bind_r (lenient_loop (\<lambda>key v (epoch, first, last, root, sigs).
       if key = 1 then bind_r (cbor_u64 ''epoch_number'' v) (\<lambda>n. Ok (Some n, first, last, root, sigs))
       else if key = 2 then bind_r (cbor_u64 ''first_height'' v) (\<lambda>n. Ok (epoch, Some n, last, root, sigs))
       else if key = 3 then bind_r (cbor_u64 ''last_height'' v) (\<lambda>n. Ok (epoch, first, Some n, root, sigs))
       else if key = 4 then bind_r (cbor_bytes ''epoch_root'' v) (\<lambda>b.
         if length b \<noteq> 32 then pderr ''epoch_root must be 32 bytes''
         else Ok (epoch, first, last, Some b, sigs))
       else if key = 5 then (case v of
           CArray arr \<Rightarrow> bind_r (decode_sig_set arr) (\<lambda>es. Ok (epoch, first, last, root, Some es))
         | _ \<Rightarrow> pderr ''slh_sig_set must be array'')
       else Ok (epoch, first, last, root, sigs)) m (None, None, None, None, None))
     (\<lambda>(epoch, first, last, root, sigs).
   bind_r (need epoch ''missing field 1 (epoch_number)'') (\<lambda>epoch.
   bind_r (need first ''missing field 2 (first_height)'') (\<lambda>first.
   bind_r (need last ''missing field 3 (last_height)'') (\<lambda>last.
   bind_r (need root ''missing field 4 (epoch_root)'') (\<lambda>root.
   bind_r (need sigs ''missing field 5 (slh_sig_set)'') (\<lambda>sigs.
   Ok \<lparr> as_epoch_number = epoch, as_first_height = first, as_last_height = last,
        as_epoch_root = root, as_slh_sig_set = sigs \<rparr>)))))))"

record archival_record_add_anchor_payload =
  aa_epoch_number :: nat
  aa_anchor_kind :: nat
  aa_tst_bytes :: bytes
  aa_external_hash :: bytes
  aa_created_at :: nat

definition decode_archival_record_add_anchor_payload ::
    "env \<Rightarrow> bytes \<Rightarrow> (archival_record_add_anchor_payload, apply_error) result" where
"decode_archival_record_add_anchor_payload E payload =
   bind_r (lenient_map E payload) (\<lambda>m.
   bind_r (lenient_loop (\<lambda>key v (epoch, kind, tst, ext, created).
       if key = 1 then bind_r (cbor_u64 ''epoch_number'' v) (\<lambda>n. Ok (Some n, kind, tst, ext, created))
       else if key = 2 then bind_r (cbor_u64 ''anchor_kind'' v) (\<lambda>n.
         if n \<le> U8_MAX then Ok (epoch, Some n, tst, ext, created) else pderr ''anchor_kind overflow'')
       else if key = 3 then bind_r (cbor_bytes ''tst_bytes'' v) (\<lambda>b. Ok (epoch, kind, Some b, ext, created))
       else if key = 4 then bind_r (cbor_bytes ''external_hash'' v) (\<lambda>b. Ok (epoch, kind, tst, Some b, created))
       else if key = 5 then bind_r (cbor_u64 ''created_at'' v) (\<lambda>n. Ok (epoch, kind, tst, ext, Some n))
       else Ok (epoch, kind, tst, ext, created)) m (None, None, None, None, None))
     (\<lambda>(epoch, kind, tst, ext, created).
   bind_r (need epoch ''missing field 1 (epoch_number)'') (\<lambda>epoch.
   bind_r (need kind ''missing field 2 (anchor_kind)'') (\<lambda>kind.
   bind_r (need tst ''missing field 3 (tst_bytes)'') (\<lambda>tst.
   bind_r (need ext ''missing field 4 (external_hash)'') (\<lambda>ext.
   Ok \<lparr> aa_epoch_number = epoch, aa_anchor_kind = kind, aa_tst_bytes = tst, aa_external_hash = ext,
        aa_created_at = (case created of None \<Rightarrow> 0 | Some n \<Rightarrow> n) \<rparr>))))))"

definition decode_archival_record_renew_payload :: "env \<Rightarrow> bytes \<Rightarrow> (nat \<times> hash32, apply_error) result" where
"decode_archival_record_renew_payload E payload =
   bind_r (lenient_map E payload) (\<lambda>m.
   bind_r (lenient_loop (\<lambda>key v (epoch, ers).
       if key = 1 then bind_r (cbor_u64 ''epoch_number'' v) (\<lambda>n. Ok (Some n, ers))
       else if key = 2 then bind_r (cbor_bytes ''ers_bundle_hash'' v) (\<lambda>b.
         if length b \<noteq> 32 then pderr ''ers_bundle_hash must be 32 bytes'' else Ok (epoch, Some b))
       else Ok (epoch, ers)) m (None, None)) (\<lambda>(epoch, ers).
   bind_r (need epoch ''missing field 1 (epoch_number)'') (\<lambda>epoch.
   bind_r (need ers ''missing field 2 (ers_bundle_hash)'') (\<lambda>ers. Ok (epoch, ers)))))"

section \<open>Equivocation evidence\<close>

record equivocation_vote =
  ev_height :: nat
  ev_round :: nat
  ev_block_hash :: hash32
  ev_step :: nat
  ev_signature :: bytes

record slash_evidence =
  sl_validator_address :: address
  sl_height :: nat
  sl_vote_a :: equivocation_vote
  sl_vote_b :: equivocation_vote

datatype evidence_decode_error =
    InvalidFormat string | MissingField nat | InvalidField nat string | InvalidStep nat

fun evidence_key :: "cbor \<Rightarrow> (int, evidence_decode_error) result" where
"evidence_key (CInt i) =
   (if - (2 ^ 63) \<le> i \<and> i < 2 ^ 63 then Ok i else Err (InvalidFormat ''key out of i64 range''))" |
"evidence_key _ = Err (InvalidFormat ''map key must be integer'')"

fun evidence_uint :: "nat \<Rightarrow> nat \<Rightarrow> string \<Rightarrow> cbor \<Rightarrow> (nat, evidence_decode_error) result" where
"evidence_uint m field over (CInt i) = ok_or (try_from_int m i) (InvalidField field over)" |
"evidence_uint m field over _ = Err (InvalidField field ''must be integer'')"

fun evidence_bytes :: "nat \<Rightarrow> cbor \<Rightarrow> (bytes, evidence_decode_error) result" where
"evidence_bytes field (CBytes b) = Ok b" |
"evidence_bytes field _ = Err (InvalidField field ''must be bytes'')"

fun evidence_loop ::
    "(int \<Rightarrow> cbor \<Rightarrow> 'a \<Rightarrow> ('a, evidence_decode_error) result) \<Rightarrow> (cbor \<times> cbor) list \<Rightarrow> 'a
     \<Rightarrow> ('a, evidence_decode_error) result" where
"evidence_loop step [] acc = Ok acc" |
"evidence_loop step ((k, v) # rest) acc =
   bind_r (evidence_key k) (\<lambda>key. bind_r (step key v acc) (evidence_loop step rest))"

fun decode_equivocation_vote :: "cbor \<Rightarrow> (equivocation_vote, evidence_decode_error) result" where
"decode_equivocation_vote (CMap m) =
   bind_r (evidence_loop (\<lambda>key v (height, rnd, hash, stp, sg).
       if key = 1 then bind_r (evidence_uint U64_MAX 1 ''u64 overflow'' v) (\<lambda>n. Ok (Some n, rnd, hash, stp, sg))
       else if key = 2 then bind_r (evidence_uint U32_MAX 2 ''u32 overflow'' v)
         (\<lambda>n. Ok (height, Some n, hash, stp, sg))
       else if key = 3 then bind_r (evidence_bytes 3 v) (\<lambda>b.
         if length b \<noteq> 32
         then Err (InvalidField 3 (''block_hash must be 32 bytes, got '' @ dec_nat (length b)))
         else Ok (height, rnd, Some b, stp, sg))
       else if key = 4 then bind_r (evidence_uint U8_MAX 4 ''u8 overflow'' v) (\<lambda>n.
         if n \<noteq> 1 \<and> n \<noteq> 2 then Err (InvalidStep n) else Ok (height, rnd, hash, Some n, sg))
       else if key = 5 then bind_r (evidence_bytes 5 v) (\<lambda>b. Ok (height, rnd, hash, stp, Some b))
       else Err (InvalidFormat (''unknown key '' @ dec_int key @ '' in EquivocationVote'')))
     m (None, None, None, None, None)) (\<lambda>(height, rnd, hash, stp, sg).
   bind_r (ok_or height (MissingField 1)) (\<lambda>height.
   bind_r (ok_or rnd (MissingField 2)) (\<lambda>rnd.
   bind_r (ok_or hash (MissingField 3)) (\<lambda>hash.
   bind_r (ok_or stp (MissingField 4)) (\<lambda>stp.
   bind_r (ok_or sg (MissingField 5)) (\<lambda>sg.
   Ok \<lparr> ev_height = height, ev_round = rnd, ev_block_hash = hash, ev_step = stp, ev_signature = sg \<rparr>))))))" |
"decode_equivocation_vote _ = Err (InvalidFormat ''vote must be a CBOR map'')"

definition decode_equivocation_evidence :: "env \<Rightarrow> bytes \<Rightarrow> (slash_evidence, evidence_decode_error) result" where
"decode_equivocation_evidence E payload =
   bind_r (map_err (\<lambda>e. InvalidFormat (''CBOR parse error: '' @ e)) (e_cbor_read E payload)) (\<lambda>value.
   bind_r (case value of CMap m \<Rightarrow> Ok m | _ \<Rightarrow> Err (InvalidFormat ''payload must be a CBOR map'')) (\<lambda>m.
   bind_r (evidence_loop (\<lambda>key v (addr, height, va, vb).
       if key = 1 then bind_r (evidence_bytes 1 v) (\<lambda>b.
         if length b \<noteq> 32
         then Err (InvalidField 1 (''validator_address must be 32 bytes, got '' @ dec_nat (length b)))
         else Ok (Some b, height, va, vb))
       else if key = 2 then bind_r (evidence_uint U64_MAX 2 ''u64 overflow'' v) (\<lambda>n. Ok (addr, Some n, va, vb))
       else if key = 3 then bind_r (decode_equivocation_vote v) (\<lambda>x. Ok (addr, height, Some x, vb))
       else if key = 4 then bind_r (decode_equivocation_vote v) (\<lambda>x. Ok (addr, height, va, Some x))
       else Err (InvalidFormat (''unknown key '' @ dec_int key @ '' in EquivocationEvidence'')))
     m (None, None, None, None)) (\<lambda>(addr, height, va, vb).
   bind_r (ok_or addr (MissingField 1)) (\<lambda>addr.
   bind_r (ok_or height (MissingField 2)) (\<lambda>height.
   bind_r (ok_or va (MissingField 3)) (\<lambda>va.
   bind_r (ok_or vb (MissingField 4)) (\<lambda>vb.
   Ok \<lparr> sl_validator_address = addr, sl_height = height, sl_vote_a = va, sl_vote_b = vb \<rparr>)))))))"

text \<open>The \<open>Display\<close> text of a decode error, which carries the tag that the handler puts in front of it again.\<close>

fun evidence_error_text :: "evidence_decode_error \<Rightarrow> string" where
"evidence_error_text (InvalidFormat s) = ''INVALID_EVIDENCE_FORMAT: '' @ s" |
"evidence_error_text (MissingField k) = ''INVALID_EVIDENCE_FORMAT: missing field '' @ dec_nat k" |
"evidence_error_text (InvalidField k s) =
   ''INVALID_EVIDENCE_FORMAT: field '' @ dec_nat k @ '': '' @ s" |
"evidence_error_text (InvalidStep v) =
   ''INVALID_EVIDENCE_FORMAT: step '' @ hex_byte v @ '' is not 0x01 or 0x02''"

end
