(* ===== verification/Validate.thy ===== *)
theory Validate
  imports Codec
begin

text \<open>
  The validation pipeline of \<open>pqc-tx\<close> (\<open>validate.rs\<close>): fee parameters and fee breakdowns,
  and \<open>validate_tx\<close> with its ordered steps.  The context is a record; the verifier comes
  from the environment.
\<close>

section \<open>Fees\<close>

record fee_params =
  fp_base_fee :: nat
  fp_byte_fee :: nat
  fp_sigverify_fee_v_a :: nat
  fp_sigverify_fee_v_b :: nat
  fp_sigverify_fee_v_c :: nat
  fp_exec_fee_per_gas :: nat
  fp_base_fee_dynamic :: nat

fun lane_multiplier_bps :: "msg_type \<Rightarrow> nat" where
"lane_multiplier_bps ValidatorRegister = 20000" |
"lane_multiplier_bps ValidatorExit = 20000" |
"lane_multiplier_bps GovernanceProposal = 20000" |
"lane_multiplier_bps _ = 10000"

definition effective_base_fee :: "fee_params \<Rightarrow> msg_type \<Rightarrow> nat" where
"effective_base_fee params msg_type =
   (let dynamic = (if fp_base_fee_dynamic params > 0 then fp_base_fee_dynamic params
                   else fp_base_fee params);
        multiplier = lane_multiplier_bps msg_type
    in truncate_u64 (saturating_mul U128_MAX dynamic multiplier div 10000))"

record fee_breakdown =
  fb_base :: nat
  fb_bytes :: nat
  fb_sigverify :: nat
  fb_exec :: nat

definition fee_total :: "fee_breakdown \<Rightarrow> nat" where
"fee_total b =
   saturating_add U64_MAX
     (saturating_add U64_MAX (saturating_add U64_MAX (fb_base b) (fb_bytes b)) (fb_sigverify b))
     (fb_exec b)"

definition sigverify_fee_for_alg :: "alg_id \<Rightarrow> fee_params \<Rightarrow> nat \<Rightarrow> nat" where
"sigverify_fee_for_alg alg params registry_min_fee =
   (let class = (case alg of
                   FnDsaPadded512 \<Rightarrow> SC_Reduced
                 | MlDsa44 \<Rightarrow> SC_Standard | MlDsa65 \<Rightarrow> SC_Standard | MlDsa87 \<Rightarrow> SC_Standard
                 | SlhDsaSha2128s \<Rightarrow> SC_Premium
                 | _ \<Rightarrow> SC_Standard);
        class_fee = (case class of
                       SC_Reduced \<Rightarrow> fp_sigverify_fee_v_a params
                     | SC_Standard \<Rightarrow> fp_sigverify_fee_v_b params
                     | SC_Premium \<Rightarrow> fp_sigverify_fee_v_c params)
    in max class_fee registry_min_fee)"

definition required_fee_breakdown :: "transaction \<Rightarrow> nat \<Rightarrow> fee_params \<Rightarrow> nat \<Rightarrow> fee_breakdown" where
"required_fee_breakdown tx raw_bytes_len params registry_min_fee =
   \<lparr> fb_base = effective_base_fee params (tx_msg_type tx),
     fb_bytes = saturating_mul U64_MAX (fp_byte_fee params) raw_bytes_len,
     fb_sigverify = sigverify_fee_for_alg (tx_sig_alg_id tx) params registry_min_fee,
     fb_exec = saturating_mul U64_MAX (fp_exec_fee_per_gas params) (tx_gas_limit tx) \<rparr>"

definition actual_fee_breakdown ::
    "transaction \<Rightarrow> nat \<Rightarrow> nat \<Rightarrow> fee_params \<Rightarrow> nat \<Rightarrow> fee_breakdown" where
"actual_fee_breakdown tx raw_bytes_len gas_used params registry_min_fee =
   \<lparr> fb_base = effective_base_fee params (tx_msg_type tx),
     fb_bytes = saturating_mul U64_MAX (fp_byte_fee params) raw_bytes_len,
     fb_sigverify = sigverify_fee_for_alg (tx_sig_alg_id tx) params registry_min_fee,
     fb_exec = saturating_mul U64_MAX (fp_exec_fee_per_gas params) (min gas_used (tx_gas_limit tx)) \<rparr>"

section \<open>The pipeline\<close>

definition MAX_TX_BYTES :: nat where
"MAX_TX_BYTES = 1048576"

record validation_context =
  vc_chain_id :: bytes
  vc_fork_digest :: bytes
  vc_current_height :: nat
  vc_sender_account :: "account option"
  vc_fee_params :: fee_params
  vc_alg_lifecycle :: "alg_id \<Rightarrow> lifecycle option"
  vc_alg_min_fee :: "alg_id \<Rightarrow> nat option"

definition validate_tx :: "env \<Rightarrow> transaction \<Rightarrow> bytes \<Rightarrow> validation_context \<Rightarrow> (unit, tx_error) result" where
"validate_tx E tx raw ctx =
   (if length raw > MAX_TX_BYTES then Err (TxTooLarge (length raw))
    else if tx_version tx \<noteq> 1 then Err (VersionUnsupported (tx_version tx))
    else if tx_chain_id tx \<noteq> vc_chain_id ctx then Err ChainIdMismatch
    else bind_r (ok_or (vc_alg_lifecycle ctx (tx_sig_alg_id tx))
                   (AlgorithmNotFound (alg_as_u16 (tx_sig_alg_id tx)))) (\<lambda>lifecycle.
    if \<not> admits_transactions lifecycle
    then Err (AlgorithmBanned (alg_as_u16 (tx_sig_alg_id tx)))
    else bind_r (ok_or (vc_sender_account ctx) SenderNotFound) (\<lambda>account.
    bind_r (map_err KeyLookupFailed
              (key_lookup (ac_keys account) (tx_sig_alg_id tx) (tx_sig_key_version tx)
                 (required_permission_bit (tx_msg_type tx)) (vc_current_height ctx))) (\<lambda>key_entry.
    bind_r (map_err (\<lambda>_. EncodingInvalid) (build_preimage E (vc_fork_digest ctx) tx)) (\<lambda>preimage.
    if \<not> e_verify E (ke_alg_id key_entry, ke_pk_bytes key_entry) preimage
           (tx_sig_alg_id tx, tx_signature tx)
    then Err SignatureInvalid
    else if tx_nonce tx \<noteq> ac_nonce account then Err (NonceInvalid (ac_nonce account) (tx_nonce tx))
    else bind_r (ok_or (vc_alg_min_fee ctx (tx_sig_alg_id tx))
                   (AlgorithmNotFound (alg_as_u16 (tx_sig_alg_id tx)))) (\<lambda>registry_min_fee.
    let fee_breakdown = required_fee_breakdown tx (length raw) (vc_fee_params ctx) registry_min_fee;
        required = fee_total fee_breakdown;
        max_debit = saturating_add U128_MAX (tx_fee tx) (tx_fee_tip tx)
    in if tx_fee tx < required
       then Err (FeeInsufficient (tx_fee tx) required (fb_base fee_breakdown) (fb_bytes fee_breakdown)
                   (fb_sigverify fee_breakdown) (fb_exec fee_breakdown))
       else if ac_balance account < max_debit
       then Err (BalanceInsufficient (ac_balance account) max_debit)
       else Ok ()))))))"

section \<open>Facts of the fees\<close>

lemma saturating_mul_mono: "b \<le> c \<Longrightarrow> saturating_mul m a b \<le> saturating_mul m a c"
  by (simp add: saturating_mul_def min_le_iff_disj mult_le_mono2)

lemma fee_total_mono:
  "fb_base b \<le> fb_base c \<Longrightarrow> fb_bytes b \<le> fb_bytes c \<Longrightarrow> fb_sigverify b \<le> fb_sigverify c \<Longrightarrow>
   fb_exec b \<le> fb_exec c \<Longrightarrow> fee_total b \<le> fee_total c"
  by (simp add: fee_total_def saturating_add_mono)

lemma fee_total_le: "fee_total b \<le> U64_MAX"
  by (simp add: fee_total_def saturating_add_le)

lemma actual_le_required:
  "fee_total (actual_fee_breakdown tx n gas params mf) \<le> fee_total (required_fee_breakdown tx n params mf)"
  by (rule fee_total_mono) (simp_all add: actual_fee_breakdown_def required_fee_breakdown_def saturating_mul_mono)

lemma lane_multiplier_values: "lane_multiplier_bps m = 10000 \<or> lane_multiplier_bps m = 20000"
  by (cases m) simp_all

section \<open>Properties\<close>

text \<open>
  an accepted transaction pays for its execution.  For a transaction that passed
  validation, the fee charged after execution, whatever gas was used, is at most the
  declared fee, and the declared fee and tip are covered by the sender's balance.
\<close>

theorem validated_fee_covers_execution:
  assumes "validate_tx E tx raw ctx = Ok ()" "vc_sender_account ctx = Some acc"
    "vc_alg_min_fee ctx (tx_sig_alg_id tx) = Some mf" "tx_wf tx"
  shows "fee_total (actual_fee_breakdown tx (length raw) gas (vc_fee_params ctx) mf) \<le> tx_fee tx
    \<and> tx_fee tx + tx_fee_tip tx \<le> ac_balance acc"
proof -
  have req: "fee_total (required_fee_breakdown tx (length raw) (vc_fee_params ctx) mf) \<le> tx_fee tx"
    and bal: "saturating_add U128_MAX (tx_fee tx) (tx_fee_tip tx) \<le> ac_balance acc"
    using assms(1-3) by (auto simp: validate_tx_def result_simps Let_def not_less split: if_splits)
  have "tx_fee tx + tx_fee_tip tx \<le> U128_MAX"
    using assms(4) by (simp add: tx_wf_def width_simps)
  then have "tx_fee tx + tx_fee_tip tx \<le> ac_balance acc" using bal by (simp add: saturating_add_exact)
  then show ?thesis using order_trans [OF actual_le_required req] by blast
qed

definition sample_account :: account where
"sample_account = \<lparr> ac_address = replicate 32 5, ac_balance = 1000, ac_nonce = 3,
   ac_keys = [sample_key 1 KS_Active], ac_policy_version = 0, ac_policy_hash = None,
   ac_verifier_template_id = 1, ac_auth_data = [] \<rparr>"

definition sample_params :: fee_params where
"sample_params = \<lparr> fp_base_fee = 100, fp_byte_fee = 1, fp_sigverify_fee_v_a = 1,
   fp_sigverify_fee_v_b = 2, fp_sigverify_fee_v_c = 3, fp_exec_fee_per_gas = 4,
   fp_base_fee_dynamic = 0 \<rparr>"

definition sample_ctx :: validation_context where
"sample_ctx = \<lparr> vc_chain_id = [118], vc_fork_digest = [0, 0, 0, 1], vc_current_height = 20,
   vc_sender_account = Some sample_account, vc_fee_params = sample_params,
   vc_alg_lifecycle = (\<lambda>_. Some LC_Active), vc_alg_min_fee = (\<lambda>_. Some 0) \<rparr>"

definition write_all :: env where
"write_all = \<lparr> e_xof = (\<lambda>d n. take n (d @ replicate n 0)),
   e_cbor_read = (\<lambda>bs. Err ''eof''), e_cbor_write = (\<lambda>v. Ok [0]), e_verify = (\<lambda>pk msg sig. True) \<rparr>"

lemma sample_validates: "validate_tx write_all sample_tx [42] sample_ctx = Ok ()"
  by (simp add: validate_tx_def sample_tx_def sample_ctx_def sample_account_def sample_params_def
      sample_key_def write_all_def MAX_TX_BYTES_def key_lookup_def build_preimage_def
      required_fee_breakdown_def fee_total_def effective_base_fee_def sigverify_fee_for_alg_def
      saturating_add_def saturating_mul_def truncate_u64_def width_simps ATX_VAULT_def Let_def)

theorem validated_fee_covers_execution_witness:
  "validate_tx write_all sample_tx [42] sample_ctx = Ok ()
   \<and> fee_total (actual_fee_breakdown sample_tx 1 7 sample_params 0) \<le> 500 \<and> 502 \<le> ac_balance sample_account"
  using validated_fee_covers_execution [OF sample_validates, of sample_account 0 7] sample_validates
  by (simp add: sample_ctx_def tx_wf_def sample_tx_def width_simps)

text \<open>
  the heavy lane pays double below the market cap, and only there.  While twice the
  base fee fits 64 bits, the effective base fee of every message type is the base fee
  times its lane multiplier; at a dynamic base fee of \<open>2 ^ 63\<close> the final cast keeps only
  the low 64 bits and the heavy lane pays nothing.
\<close>

theorem effective_base_fee_lane:
  assumes "0 < fp_base_fee_dynamic p" "2 * fp_base_fee_dynamic p \<le> U64_MAX"
  shows "effective_base_fee p m = fp_base_fee_dynamic p * (lane_multiplier_bps m div 10000)
    \<and> effective_base_fee (p\<lparr> fp_base_fee_dynamic := 2 ^ 63 \<rparr>) ValidatorRegister = 0"
proof
  have "fp_base_fee_dynamic p * lane_multiplier_bps m \<le> U128_MAX"
    using lane_multiplier_values [of m] assms(2) by (auto simp: width_simps)
  then have sat: "saturating_mul U128_MAX (fp_base_fee_dynamic p) (lane_multiplier_bps m)
      = fp_base_fee_dynamic p * lane_multiplier_bps m"
    by (simp add: saturating_mul_def)
  show "effective_base_fee p m = fp_base_fee_dynamic p * (lane_multiplier_bps m div 10000)"
    using lane_multiplier_values [of m] assms
    by (auto simp: effective_base_fee_def Let_def sat truncate_u64_id)
  show "effective_base_fee (p\<lparr> fp_base_fee_dynamic := 2 ^ 63 \<rparr>) ValidatorRegister = 0"
    by (simp add: effective_base_fee_def saturating_mul_def U128_MAX_def truncate_u64_def)
qed

theorem effective_base_fee_lane_witness:
  "effective_base_fee (sample_params\<lparr> fp_base_fee_dynamic := 100 \<rparr>) GovernanceProposal = 200"
  using effective_base_fee_lane [of "sample_params\<lparr> fp_base_fee_dynamic := 100 \<rparr>" GovernanceProposal]
  by (simp add: U64_MAX_def)

end
