(* ===== verification/Handler.thy ===== *)
theory Handler
  imports State_Evolution Payload Validate
begin

text \<open>
  The contract of a payload handler.  A handler runs on a clone of the store that is dropped on
  error, so it is a function from the store to a new store, an error or a panic.  The locale
  \<open>payload_handler\<close> states what the transaction pipeline relies on: a successful handler
  keeps the store well-formed, respects the evolution preorder, leaves every nonce and the height
  alone, and accounts for every token.  Settlement of the fee (\<open>settle_sender\<close> of \<open>apply.rs\<close>)
  is analysed once, for any handler that satisfies the contract.
\<close>

type_synonym handler = "env \<Rightarrow> state_store \<Rightarrow> transaction \<Rightarrow> (state_store, apply_error) result"

section \<open>Accounts without keys\<close>

text \<open>The account created for an address that receives tokens before it exists.\<close>

definition implicit_account :: "address \<Rightarrow> nat \<Rightarrow> account" where
"implicit_account addr amount =
   \<lparr> ac_address = addr, ac_balance = amount, ac_nonce = 0, ac_keys = [], ac_policy_version = 0,
     ac_policy_hash = None, ac_verifier_template_id = VERIFIER_TEMPLATE_ID_EOA, ac_auth_data = [] \<rparr>"

definition credit_account :: "xof \<Rightarrow> address \<Rightarrow> nat \<Rightarrow> state_store \<Rightarrow> state_store" where
"credit_account X addr amount s =
   (if amount = 0 then s
    else case get_account s addr of
      Some acc \<Rightarrow> commit_account_mutation X addr
        (account_mut addr (acc\<lparr> ac_balance := saturating_add U128_MAX (ac_balance acc) amount \<rparr>) s)
    | None \<Rightarrow> insert_account X (implicit_account addr amount) s)"

definition settle_sender :: "xof \<Rightarrow> transaction \<Rightarrow> nat \<Rightarrow> state_store \<Rightarrow> (state_store, apply_error) result" where
"settle_sender X tx fee_charged s =
   (let total_debit = saturating_add U128_MAX fee_charged (tx_fee_tip tx) in
    bind_r (ok_or (get_account s (tx_sender tx)) AE_InsufficientFunds) (\<lambda>sender.
    if ac_balance sender < total_debit then Err AE_InsufficientFunds
    else bind_r (or_panic (checked_add U64_MAX (ac_nonce sender) 1)) (\<lambda>nonce.
      Ok (commit_account_mutation X (tx_sender tx)
        (account_mut (tx_sender tx)
          (sender\<lparr> ac_balance := ac_balance sender - total_debit, ac_nonce := nonce \<rparr>) s)))))"

section \<open>What a step keeps\<close>

definition same_nonces :: "state_store \<Rightarrow> state_store \<Rightarrow> bool" where
"same_nonces s t = tbl_le (\<lambda>u w. ac_nonce w = ac_nonce u) (st_accounts s) (st_accounts t)"

definition keeps :: "xof \<Rightarrow> state_store \<Rightarrow> state_store \<Rightarrow> bool" where
"keeps X s t = (store_wf X t \<and> tomb_inv t \<and> evolves s t \<and> same_nonces s t
   \<and> st_block_height t = st_block_height s \<and> st_fee_market t = st_fee_market s)"

definition sound :: "xof \<Rightarrow> state_store \<Rightarrow> bool" where
"sound X s = (store_wf X s \<and> tomb_inv s)"

lemma same_nonces_refl [simp]: "same_nonces s s"
  by (simp add: same_nonces_def tbl_le_def)

lemma keeps_refl: "sound X s \<Longrightarrow> keeps X s s"
  by (simp add: keeps_def sound_def)

lemma keeps_sound: "keeps X s t \<Longrightarrow> sound X t"
  by (simp add: keeps_def sound_def)

lemma keeps_trans: "keeps X s t \<Longrightarrow> keeps X t u \<Longrightarrow> keeps X s u"
  unfolding keeps_def same_nonces_def
  by (auto intro: evolves_trans elim!: tbl_le_trans [rotated])

lemma keeps_write_account:
  assumes "sound X s" "hget (st_accounts s) addr = Some u" "acct_le u a" "ac_nonce a = ac_nonce u"
  shows "keeps X s (commit_account_mutation X addr (account_mut addr a s))"
proof -
  have "ac_address u = addr" using assms(1,2) by (auto simp: sound_def store_wf_def dest: keyedD)
  then have addr: "ac_address a = addr" using assms(3) by (simp add: acct_le_def)
  show ?thesis unfolding keeps_def
    using assms wf_write_account [OF _ addr] ev_write_account [of s addr a X]
    by (auto simp: sound_def tomb_inv_def same_nonces_def tbl_le_def write_eqs map_simps)
qed

lemma keeps_insert_account:
  assumes "sound X s" "hget (st_accounts s) (ac_address a) = None"
  shows "keeps X s (insert_account X a s)"
  unfolding keeps_def
  using assms wf_insert_account [of X s a] ev_insert_account [of s a X]
  by (auto simp: sound_def tomb_inv_def same_nonces_def tbl_le_def insert_account_def map_simps)

lemma keeps_write_validator:
  assumes "sound X s" "hget (st_validators s) addr = Some u" "val_le u r"
    "vr_tombstoned r \<Longrightarrow> vr_status r = VS_Jailed"
  shows "keeps X s (commit_validator_mutation X addr (validator_mut addr r s))"
proof -
  have "vr_operator u = addr" using assms(1,2) by (auto simp: sound_def store_wf_def dest: keyedD)
  then have addr: "vr_operator r = addr" using assms(3) by (simp add: val_le_def)
  show ?thesis unfolding keeps_def
    using assms wf_write_validator [OF _ addr] ev_write_validator [of s addr r X]
      tomb_write_validator [of s r X addr]
    by (auto simp: sound_def same_nonces_def tbl_le_def write_eqs)
qed

lemma keeps_insert_validator:
  assumes "sound X s" "\<And>u. hget (st_validators s) (vr_operator r) = Some u \<Longrightarrow> val_le u r" "\<not> vr_tombstoned r"
  shows "keeps X s (insert_validator X r s)"
  unfolding keeps_def
  using assms wf_insert_validator [of X s r] ev_insert_validator [of s r X] tomb_insert_validator [of s r X]
  by (auto simp: sound_def same_nonces_def tbl_le_def insert_validator_def)

lemma heights_frame [simp]:
  "st_block_height (insert_attestation X at s) = st_block_height s"
  "st_block_height (insert_proof_anchor X pa s) = st_block_height s"
  "st_block_height (insert_consensus_key_rotation X ro s) = st_block_height s"
  "st_block_height (set_validator_peer_id X op p s) = st_block_height s"
  "st_block_height (insert_pending_proposal X pp s) = st_block_height s"
  "st_block_height (commit_proposal_mutation X i (pending_proposal_mut i pp s)) = st_block_height s"
  "st_block_height (record_recent_slash X e s) = st_block_height s"
  "st_block_height (prune_recent_slashes_before X h s) = st_block_height s"
  "st_block_height (insert_archival_record X ar s) = st_block_height s"
  "st_block_height (push_archival_anchor X n an s) = st_block_height s"
  "st_block_height (increment_archival_record_version X n hh b s) = st_block_height s"
  "st_block_height (insert_archival_key X k s) = st_block_height s"
  by (simp_all add: write_eqs insert_attestation_def insert_proof_anchor_def
      insert_consensus_key_rotation_def set_validator_peer_id_def insert_pending_proposal_def
      record_recent_slash_def prune_recent_slashes_before_def insert_archival_record_def
      push_archival_anchor_def increment_archival_record_version_def insert_archival_key_def
      Let_def split: option.split)

lemma markets_frame [simp]:
  "st_fee_market (insert_attestation X at s) = st_fee_market s"
  "st_fee_market (insert_proof_anchor X pa s) = st_fee_market s"
  "st_fee_market (insert_consensus_key_rotation X ro s) = st_fee_market s"
  "st_fee_market (set_validator_peer_id X op p s) = st_fee_market s"
  "st_fee_market (insert_pending_proposal X pp s) = st_fee_market s"
  "st_fee_market (commit_proposal_mutation X i (pending_proposal_mut i pp s)) = st_fee_market s"
  "st_fee_market (record_recent_slash X e s) = st_fee_market s"
  "st_fee_market (prune_recent_slashes_before X h s) = st_fee_market s"
  "st_fee_market (insert_archival_record X ar s) = st_fee_market s"
  "st_fee_market (push_archival_anchor X n an s) = st_fee_market s"
  "st_fee_market (increment_archival_record_version X n hh b s) = st_fee_market s"
  "st_fee_market (insert_archival_key X k s) = st_fee_market s"
  by (simp_all add: write_eqs insert_attestation_def insert_proof_anchor_def
      insert_consensus_key_rotation_def set_validator_peer_id_def insert_pending_proposal_def
      record_recent_slash_def prune_recent_slashes_before_def insert_archival_record_def
      push_archival_anchor_def increment_archival_record_version_def insert_archival_key_def
      Let_def split: option.split)

text \<open>A step that touches neither accounts nor validators.\<close>

lemma keeps_frame:
  assumes "sound X s" "store_wf X t" "evolves s t" "st_accounts t = st_accounts s"
    "st_validators t = st_validators s" "st_block_height t = st_block_height s" "st_fee_market t = st_fee_market s"
  shows "keeps X s t"
  using assms by (simp add: keeps_def sound_def same_nonces_def tbl_le_def tomb_same [of t s])

lemma supply_frame:
  "st_accounts t = st_accounts s \<Longrightarrow> st_validators t = st_validators s \<Longrightarrow> total_supply t = total_supply s"
  by (simp add: total_supply_def)

section \<open>Balances\<close>

lemma supply_write_account:
  "hget (st_accounts s) addr = Some u \<Longrightarrow>
   total_supply (commit_account_mutation X addr (account_mut addr a s)) + ac_balance u
     = total_supply s + ac_balance a"
  using hsum_hput_old [of "st_accounts s" addr u ac_balance a] by (simp add: total_supply_def write_eqs)

lemma supply_insert_account:
  "hget (st_accounts s) (ac_address a) = None \<Longrightarrow>
   total_supply (insert_account X a s) = total_supply s + ac_balance a"
  by (simp add: total_supply_def insert_account_def hsum_hput_new)

lemma supply_write_validator:
  "hget (st_validators s) addr = Some u \<Longrightarrow>
   total_supply (commit_validator_mutation X addr (validator_mut addr r s)) + bonded u
     = total_supply s + bonded r"
  using hsum_hput_old [of "st_validators s" addr u bonded r] by (simp add: total_supply_def write_eqs)

lemma balance_le_supply: "hget (st_accounts s) addr = Some u \<Longrightarrow> ac_balance u \<le> total_supply s"
  using hsum_ge [of "st_accounts s" addr u ac_balance] by (simp add: total_supply_def)

lemma keeps_credit_account: "sound X s \<Longrightarrow> keeps X s (credit_account X addr amount s)"
  by (auto simp: credit_account_def get_account_def implicit_account_def keeps_refl
      intro!: keeps_write_account keeps_insert_account acct_le_same_keys split: option.split)

lemma supply_credit_account:
  assumes "total_supply s + amount \<le> U128_MAX"
  shows "total_supply (credit_account X addr amount s) = total_supply s + amount"
proof (cases "hget (st_accounts s) addr")
  case (Some u)
  have "ac_balance u + amount \<le> U128_MAX" using balance_le_supply [OF Some] assms by simp
  then have sat: "saturating_add U128_MAX (ac_balance u) amount = ac_balance u + amount"
    by (rule saturating_add_exact)
  show ?thesis
    using Some supply_write_account [OF Some, of X "u\<lparr> ac_balance := ac_balance u + amount \<rparr>"]
    by (simp add: credit_account_def get_account_def sat)
next
  case None
  then show ?thesis
    using supply_insert_account [of s "implicit_account addr amount" X]
    by (simp add: credit_account_def get_account_def implicit_account_def)
qed

section \<open>Settlement\<close>

text \<open>What a successful settlement is: the sender could pay, pays, and its nonce steps by one.\<close>

lemma settle_sender_Ok:
  "settle_sender X tx fee s = Ok t \<longleftrightarrow>
   (\<exists>u. hget (st_accounts s) (tx_sender tx) = Some u
      \<and> saturating_add U128_MAX fee (tx_fee_tip tx) \<le> ac_balance u \<and> ac_nonce u < U64_MAX
      \<and> t = commit_account_mutation X (tx_sender tx) (account_mut (tx_sender tx)
          (u\<lparr> ac_balance := ac_balance u - saturating_add U128_MAX fee (tx_fee_tip tx),
              ac_nonce := Suc (ac_nonce u) \<rparr>) s))"
  by (auto simp: settle_sender_def Let_def get_account_def result_simps not_less Suc_le_eq split: if_splits)

lemma settle_wf:
  assumes "settle_sender X tx fee s = Ok t" "sound X s"
  shows "sound X t \<and> evolves s t \<and> st_block_height t = st_block_height s \<and> st_fee_market t = st_fee_market s"
proof -
  obtain u where u: "hget (st_accounts s) (tx_sender tx) = Some u"
    and t: "t = commit_account_mutation X (tx_sender tx) (account_mut (tx_sender tx)
        (u\<lparr> ac_balance := ac_balance u - saturating_add U128_MAX fee (tx_fee_tip tx),
            ac_nonce := Suc (ac_nonce u) \<rparr>) s)"
    using assms(1) by (auto simp: settle_sender_Ok)
  have "ac_address u = tx_sender tx" using assms(2) u by (auto simp: sound_def store_wf_def dest: keyedD)
  then have "store_wf X t" "evolves s t"
    unfolding t using assms(2) u
    by (auto simp: sound_def intro!: wf_write_account ev_write_account acct_le_same_keys)
  moreover have "tomb_inv t" using assms(2) by (simp add: sound_def tomb_inv_def t write_eqs)
  ultimately show ?thesis by (simp add: sound_def t write_eqs)
qed

lemma settle_supply:
  assumes "settle_sender X tx fee s = Ok t" "fee + tx_fee_tip tx \<le> U128_MAX"
  shows "total_supply t + fee + tx_fee_tip tx = total_supply s"
proof -
  have sat: "saturating_add U128_MAX fee (tx_fee_tip tx) = fee + tx_fee_tip tx"
    using assms(2) by (rule saturating_add_exact)
  obtain u where u: "hget (st_accounts s) (tx_sender tx) = Some u" "fee + tx_fee_tip tx \<le> ac_balance u"
    and t: "t = commit_account_mutation X (tx_sender tx) (account_mut (tx_sender tx)
        (u\<lparr> ac_balance := ac_balance u - (fee + tx_fee_tip tx), ac_nonce := Suc (ac_nonce u) \<rparr>) s)"
    using assms(1) by (auto simp: settle_sender_Ok sat)
  show ?thesis unfolding t
    using supply_write_account [OF u(1), of X "u\<lparr> ac_balance := ac_balance u - (fee + tx_fee_tip tx),
      ac_nonce := Suc (ac_nonce u) \<rparr>"] u(2) by simp
qed

lemma settle_nonces:
  assumes "settle_sender X tx fee s = Ok t" "hget (st_accounts s) a = Some u"
  shows "\<exists>w. hget (st_accounts t) a = Some w \<and> ac_nonce w = (if a = tx_sender tx then Suc (ac_nonce u) else ac_nonce u)"
  using assms by (auto simp: settle_sender_Ok write_eqs map_simps)

section \<open>The contract\<close>

text \<open>\<open>minted E s tx\<close> is the number of tokens the handler creates out of nothing.\<close>

locale payload_handler =
  fixes h :: handler
    and minted :: "env \<Rightarrow> state_store \<Rightarrow> transaction \<Rightarrow> nat"
  assumes keeps: "h E s tx = Ok t \<Longrightarrow> sound (e_xof E) s \<Longrightarrow> keeps (e_xof E) s t"
    and accounts_for: "h E s tx = Ok t \<Longrightarrow> total_supply s + minted E s tx \<le> U128_MAX \<Longrightarrow>
      total_supply t = total_supply s + minted E s tx"
begin

text \<open>A handler followed by settlement.\<close>

lemma settled_sound:
  assumes "h E s tx = Ok w" "settle_sender (e_xof E) tx fee w = Ok t" "sound (e_xof E) s"
  shows "sound (e_xof E) t \<and> evolves s t \<and> st_block_height t = st_block_height s
    \<and> st_fee_market t = st_fee_market s"
proof -
  have k: "keeps (e_xof E) s w" using assms(1,3) by (rule keeps)
  then show ?thesis
    using settle_wf [OF assms(2) keeps_sound [OF k]] by (auto simp: keeps_def intro: evolves_trans)
qed

lemma settled_supply:
  assumes "h E s tx = Ok w" "settle_sender (e_xof E) tx fee w = Ok t" "fee + tx_fee_tip tx \<le> U128_MAX"
    "total_supply s + minted E s tx \<le> U128_MAX"
  shows "total_supply t + fee + tx_fee_tip tx = total_supply s + minted E s tx"
  using settle_supply [OF assms(2,3)] accounts_for [OF assms(1,4)] by simp

lemma settled_nonces:
  assumes "h E s tx = Ok w" "settle_sender (e_xof E) tx fee w = Ok t" "sound (e_xof E) s"
    "hget (st_accounts s) a = Some u"
  shows "\<exists>v. hget (st_accounts t) a = Some v \<and> ac_nonce v = (if a = tx_sender tx then Suc (ac_nonce u) else ac_nonce u)"
proof -
  obtain x where "hget (st_accounts w) a = Some x" "ac_nonce x = ac_nonce u"
    using keeps [OF assms(1,3)] assms(4) by (auto simp: keeps_def same_nonces_def tbl_le_def)
  then show ?thesis using settle_nonces [OF assms(2)] by fastforce
qed

end

end
