(* ===== verification/Apply_Account.thy ===== *)
theory Apply_Account
  imports Handler
begin

text \<open>
  The payload handlers that work on accounts: \<open>apply/vault.rs\<close>, \<open>apply/transfer.rs\<close>,
  \<open>apply/key_mgmt.rs\<close>, \<open>apply/attestation.rs\<close> and \<open>apply/proof_anchor.rs\<close>, each with its
  interpretation of the handler contract.
\<close>

section \<open>Transfers\<close>

definition apply_token_transfer :: handler where
"apply_token_transfer E s tx =
   bind_r (decode_token_transfer_payload E (tx_payload tx)) (\<lambda>payload.
   if tt_amount payload = 0 then Err AE_TransferAmountZero
   else if tx_sender tx = tt_recipient payload then Err AE_SelfTransfer
   else bind_r (ok_or (get_account s (tx_sender tx)) AE_InsufficientFunds) (\<lambda>sender.
   if ac_balance sender < tt_amount payload then Err AE_InsufficientFunds
   else
     let s1 = commit_account_mutation (e_xof E) (tx_sender tx)
                (account_mut (tx_sender tx) (sender\<lparr> ac_balance := ac_balance sender - tt_amount payload \<rparr>) s)
     in case get_account s1 (tt_recipient payload) of
          Some recipient \<Rightarrow>
            bind_r (or_panic (checked_add U128_MAX (ac_balance recipient) (tt_amount payload))) (\<lambda>b.
            Ok (commit_account_mutation (e_xof E) (tt_recipient payload)
                 (account_mut (tt_recipient payload) (recipient\<lparr> ac_balance := b \<rparr>) s1)))
        | None \<Rightarrow> Ok (insert_account (e_xof E) (implicit_account (tt_recipient payload) (tt_amount payload)) s1)))"

section \<open>Vaults\<close>

definition apply_vault_create :: handler where
"apply_vault_create E s tx =
   bind_r (decode_vault_create_payload E (tx_payload tx)) (\<lambda>payload.
   bind_r (ok_or (alg_from_u16 (vt_alg_id payload)) AE_UnsupportedAlgorithm) (\<lambda>alg.
   bind_r (ok_or (get_alg_entry s alg) AE_UnsupportedAlgorithm) (\<lambda>entry.
   if ae_lifecycle entry \<noteq> LC_Active then Err AE_UnsupportedAlgorithm
   else if length (vt_pk_bytes payload) \<noteq> ae_pk_size entry then Err AE_InvalidKeySize
   else if alg = SlhDsaSha2128s \<and> word_of_nat (vt_allowed_tx_types payload) \<noteq> ATX_SLH_DSA_ONLY
   then Err AE_InvalidKeyPermissions
   else
     let new_address = derive_address (e_xof E) (st_chain_id s) alg (vt_pk_bytes payload) in
     if get_account s new_address \<noteq> None then Err AE_AccountExists
     else
       let key_status = (if st_block_height s \<ge> vt_valid_from_height payload then KS_Active else KS_Pending);
           account = (implicit_account new_address 0)
             \<lparr> ac_keys := [\<lparr> ke_alg_id = alg, ke_pk_bytes = vt_pk_bytes payload, ke_key_version = 1,
                            ke_valid_from_height = vt_valid_from_height payload, ke_status = key_status,
                            ke_allowed_tx_types = word_of_nat (vt_allowed_tx_types payload) \<rparr>] \<rparr>
       in bind_r (map_err AE_PayloadDecode (check_invariants account)) (\<lambda>_.
          Ok (insert_account (e_xof E) account s)))))"

definition apply_vault_policy_update :: handler where
"apply_vault_policy_update E s tx =
   bind_r (decode_vault_policy_update_payload E (tx_payload tx)) (\<lambda>payload.
   bind_r (ok_or (get_account s (tx_sender tx)) AE_InsufficientFunds) (\<lambda>account.
   if vp_policy_version payload \<le> ac_policy_version account then Err AE_PolicyVersionConflict
   else Ok (commit_account_mutation (e_xof E) (tx_sender tx)
     (account_mut (tx_sender tx)
       (account\<lparr> ac_policy_version := vp_policy_version payload,
                 ac_policy_hash := Some (vp_policy_hash payload) \<rparr>) s))))"

section \<open>Keys\<close>

definition build_new_key_entry ::
    "state_store \<Rightarrow> nat \<Rightarrow> bytes \<Rightarrow> nat \<Rightarrow> nat \<Rightarrow> nat \<Rightarrow> (key_entry, apply_error) result" where
"build_new_key_entry s alg_id_raw pk_bytes key_version valid_from_height allowed_tx_types =
   bind_r (ok_or (alg_from_u16 alg_id_raw) AE_UnsupportedAlgorithm) (\<lambda>alg.
   bind_r (ok_or (get_alg_entry s alg) AE_UnsupportedAlgorithm) (\<lambda>entry.
   if ae_lifecycle entry \<noteq> LC_Active then Err AE_UnsupportedAlgorithm
   else if length pk_bytes \<noteq> ae_pk_size entry then Err AE_InvalidKeySize
   else if valid_from_height < st_block_height s then Err AE_InvalidActivationHeight
   else if alg = SlhDsaSha2128s \<and> word_of_nat allowed_tx_types \<noteq> ATX_SLH_DSA_ONLY
   then Err AE_InvalidKeyPermissions
   else Ok \<lparr> ke_alg_id = alg, ke_pk_bytes = pk_bytes, ke_key_version = key_version,
             ke_valid_from_height = valid_from_height,
             ke_status = (if st_block_height s \<ge> valid_from_height then KS_Active else KS_Pending),
             ke_allowed_tx_types = word_of_nat allowed_tx_types \<rparr>))"

definition ensure_account_invariants :: "account \<Rightarrow> (unit, apply_error) result" where
"ensure_account_invariants a =
   map_err (\<lambda>err. if err = ''I-1: account has no active key'' then AE_InsufficientActiveKeys
                  else if err = ''I-2: duplicate key_version values in KeySet'' then AE_KeyVersionConflict
                  else AE_PayloadDecode err) (check_invariants a)"

definition max_key_version :: "key_entry list \<Rightarrow> nat" where
"max_key_version ks = foldl (\<lambda>m k. max m (ke_key_version k)) 0 ks"

definition apply_key_add :: handler where
"apply_key_add E s tx =
   bind_r (decode_key_add_payload E (tx_payload tx)) (\<lambda>payload.
   bind_r (build_new_key_entry s (ka_alg_id payload) (ka_pk_bytes payload) (ka_key_version payload)
             (ka_valid_from_height payload) (ka_allowed_tx_types payload)) (\<lambda>new_key.
   bind_r (ok_or (get_account s (tx_sender tx)) AE_KeyNotFound) (\<lambda>sender.
   if ke_key_version new_key = 0 \<or> ke_key_version new_key \<le> max_key_version (ac_keys sender)
   then Err AE_KeyVersionConflict
   else
     let sender' = sender\<lparr> ac_keys := ac_keys sender @ [new_key] \<rparr>
     in bind_r (ensure_account_invariants sender') (\<lambda>_.
        Ok (commit_account_mutation (e_xof E) (tx_sender tx) (account_mut (tx_sender tx) sender' s))))))"

text \<open>\<open>position\<close> and the write through the index; the index is in range by construction.\<close>

fun position :: "('a \<Rightarrow> bool) \<Rightarrow> 'a list \<Rightarrow> nat option" where
"position p [] = None" |
"position p (x # xs) = (if p x then Some 0 else map_option Suc (position p xs))"

definition revoke_at :: "nat \<Rightarrow> key_entry list \<Rightarrow> key_entry list" where
"revoke_at i ks = ks[i := (ks ! i)\<lparr> ke_status := KS_Revoked \<rparr>]"

definition apply_key_rotate :: handler where
"apply_key_rotate E s tx =
   bind_r (decode_key_rotate_payload E (tx_payload tx)) (\<lambda>payload.
   bind_r (build_new_key_entry s (kr_new_alg_id payload) (kr_new_pk_bytes payload) (kr_new_key_version payload)
             (kr_new_valid_from_height payload) (kr_new_allowed_tx_types payload)) (\<lambda>new_key.
   bind_r (ok_or (get_account s (tx_sender tx)) AE_KeyNotFound) (\<lambda>sender.
   if ke_key_version new_key = 0 \<or> ke_key_version new_key \<le> max_key_version (ac_keys sender)
   then Err AE_KeyVersionConflict
   else if kr_revoke_key_version payload = ke_key_version new_key then Err AE_InvalidKeyRotation
   else bind_r (ok_or (position (\<lambda>k. ke_key_version k = kr_revoke_key_version payload) (ac_keys sender))
                  AE_KeyNotFound) (\<lambda>i.
     case ke_status (ac_keys sender ! i) of
       KS_Revoked \<Rightarrow> Err AE_KeyAlreadyRevoked
     | KS_Pending \<Rightarrow> Err AE_InvalidKeyRotation
     | KS_Active \<Rightarrow>
         let sender' = sender\<lparr> ac_keys := revoke_at i (ac_keys sender) @ [new_key] \<rparr>
         in bind_r (ensure_account_invariants sender') (\<lambda>_.
            Ok (commit_account_mutation (e_xof E) (tx_sender tx) (account_mut (tx_sender tx) sender' s)))))))"

definition apply_key_revoke :: handler where
"apply_key_revoke E s tx =
   bind_r (decode_key_revoke_payload E (tx_payload tx)) (\<lambda>target_key_version.
   if target_key_version = tx_sig_key_version tx then Err AE_SignerIsTarget
   else bind_r (ok_or (get_account s (tx_sender tx)) AE_KeyNotFound) (\<lambda>sender.
   bind_r (ok_or (position (\<lambda>k. ke_key_version k = target_key_version) (ac_keys sender)) AE_KeyNotFound) (\<lambda>i.
   if ke_status (ac_keys sender ! i) = KS_Revoked then Err AE_KeyAlreadyRevoked
   else
     let sender' = sender\<lparr> ac_keys := revoke_at i (ac_keys sender) \<rparr>
     in bind_r (ensure_account_invariants sender') (\<lambda>_.
        Ok (commit_account_mutation (e_xof E) (tx_sender tx) (account_mut (tx_sender tx) sender' s))))))"

section \<open>Attestations and anchors\<close>

text \<open>The identifier of an attestation or anchor is the hash of the transaction.\<close>

definition tx_identifier :: "env \<Rightarrow> transaction \<Rightarrow> (hash32, apply_error) result" where
"tx_identifier E tx =
   bind_r (map_err (\<lambda>_. AE_PayloadDecode
             ''ENCODING_INVALID: transaction is not valid deterministic CBOR'') (encode_tx E tx)) (\<lambda>raw.
   Ok (compute_tx_hash E raw))"

definition apply_attestation_create :: handler where
"apply_attestation_create E s tx =
   bind_r (decode_attestation_create_payload E (tx_payload tx)) (\<lambda>payload.
   let anchor_height = saturating_add U64_MAX (st_block_height s) 1 in
   if \<not> is_supported_attestation_type (ac_p_attestation_type payload) then Err AE_InvalidAttestationType
   else if (case ac_p_expires_at_height payload of Some h \<Rightarrow> h \<le> anchor_height | None \<Rightarrow> False)
   then Err AE_InvalidExpiry
   else bind_r (tx_identifier E tx) (\<lambda>attestation_id.
   if get_attestation s attestation_id \<noteq> None then Err AE_AttestationExists
   else Ok (insert_attestation (e_xof E)
     \<lparr> at_attestation_id = attestation_id, at_attester = tx_sender tx, at_subject = ac_p_subject payload,
       at_attestation_type = ac_p_attestation_type payload, at_content_hash = ac_p_content_hash payload,
       at_schema_id = ac_p_schema_id payload, at_metadata_hash = ac_p_metadata_hash payload,
       at_anchor_height = anchor_height, at_expires_at_height = ac_p_expires_at_height payload,
       at_status = AS_Active, at_revocation = None \<rparr> s)))"

definition apply_attestation_revoke :: handler where
"apply_attestation_revoke E s tx =
   bind_r (decode_attestation_revoke_payload E (tx_payload tx)) (\<lambda>(attestation_id, reason).
   bind_r (ok_or (get_attestation s attestation_id) AE_AttestationNotFound) (\<lambda>attestation.
   if at_status attestation = AS_Revoked then Err AE_AttestationAlreadyRevoked
   else if at_attester attestation \<noteq> tx_sender tx then Err AE_UnauthorizedRevoker
   else Ok (insert_attestation (e_xof E)
     (attestation\<lparr> at_status := AS_Revoked,
        at_revocation := Some \<lparr> ar_revoked_at_height = saturating_add U64_MAX (st_block_height s) 1,
          ar_revoker = tx_sender tx, ar_revocation_reason_hash = reason \<rparr> \<rparr>) s)))"

definition apply_proof_anchor :: handler where
"apply_proof_anchor E s tx =
   bind_r (decode_proof_anchor_payload E (tx_payload tx)) (\<lambda>payload.
   if \<not> is_supported_claim_type (pp_claim_type payload) then Err AE_InvalidClaimType
   else bind_r (tx_identifier E tx) (\<lambda>anchor_id.
   Ok (insert_proof_anchor (e_xof E)
     \<lparr> pa_anchor_id = anchor_id, pa_claimer = tx_sender tx, pa_claim_type = pp_claim_type payload,
       pa_asset_id_hash = pp_asset_id_hash payload, pa_proof_hash = pp_proof_hash payload,
       pa_schema_id = pp_schema_id payload,
       pa_anchor_height = saturating_add U64_MAX (st_block_height s) 1 \<rparr> s)))"

section \<open>The handlers meet the contract\<close>

text \<open>The state after a transfer: the debit of the sender, then the credit of the recipient.\<close>

definition debited :: "xof \<Rightarrow> address \<Rightarrow> account \<Rightarrow> nat \<Rightarrow> state_store \<Rightarrow> state_store" where
"debited X addr u n s =
   commit_account_mutation X addr (account_mut addr (u\<lparr> ac_balance := ac_balance u - n \<rparr>) s)"

definition credited :: "xof \<Rightarrow> address \<Rightarrow> nat \<Rightarrow> state_store \<Rightarrow> state_store" where
"credited X addr n s =
   (case hget (st_accounts s) addr of
      Some r \<Rightarrow> commit_account_mutation X addr (account_mut addr (r\<lparr> ac_balance := ac_balance r + n \<rparr>) s)
    | None \<Rightarrow> insert_account X (implicit_account addr n) s)"

lemma transfer_Ok:
  assumes "apply_token_transfer E s tx = Ok t"
  shows "\<exists>p u. decode_token_transfer_payload E (tx_payload tx) = Ok p
    \<and> tx_sender tx \<noteq> tt_recipient p \<and> 0 < tt_amount p
    \<and> hget (st_accounts s) (tx_sender tx) = Some u \<and> tt_amount p \<le> ac_balance u
    \<and> t = credited (e_xof E) (tt_recipient p) (tt_amount p) (debited (e_xof E) (tx_sender tx) u (tt_amount p) s)"
  using assms
  by (auto simp: apply_token_transfer_def result_simps Let_def get_account_def write_account_eq map_simps
      not_less debited_def credited_def split: if_splits option.splits)

lemma keeps_debited:
  "sound X s \<Longrightarrow> hget (st_accounts s) addr = Some u \<Longrightarrow> keeps X s (debited X addr u n s)"
  unfolding debited_def by (auto intro!: keeps_write_account acct_le_same_keys)

lemma keeps_credited: "sound X s \<Longrightarrow> keeps X s (credited X addr n s)"
  by (auto simp: credited_def implicit_account_def intro!: keeps_write_account keeps_insert_account
      acct_le_same_keys split: option.split)

lemma supply_debited:
  "hget (st_accounts s) addr = Some u \<Longrightarrow> n \<le> ac_balance u \<Longrightarrow>
   total_supply (debited X addr u n s) + n = total_supply s"
  using supply_write_account [of s addr u X "u\<lparr> ac_balance := ac_balance u - n \<rparr>"] by (simp add: debited_def)

lemma supply_credited: "total_supply (credited X addr n s) = total_supply s + n"
proof (cases "hget (st_accounts s) addr")
  case (Some r)
  then show ?thesis
    using supply_write_account [OF Some, of X "r\<lparr> ac_balance := ac_balance r + n \<rparr>"]
    by (simp add: credited_def)
qed (simp add: credited_def supply_insert_account implicit_account_def)

interpretation transfer_h: payload_handler apply_token_transfer "\<lambda>E s tx. 0"
proof
  fix E s tx t
  assume "apply_token_transfer E s tx = Ok t"
  from transfer_Ok [OF this] obtain p :: token_transfer_payload and u where u: "hget (st_accounts s) (tx_sender tx) = Some u" "tt_amount p \<le> ac_balance u"
    and t: "t = credited (e_xof E) (tt_recipient p) (tt_amount p) (debited (e_xof E) (tx_sender tx) u (tt_amount p) s)"
    by blast
  show "keeps (e_xof E) s t" if "sound (e_xof E) s"
    unfolding t using keeps_debited [OF that u(1)] keeps_credited keeps_sound keeps_trans by blast
  show "total_supply t = total_supply s + 0"
    using supply_debited [OF u] by (simp add: t supply_credited)
qed

text \<open>Handlers whose only effect is one rewritten account.\<close>

lemma one_account_write:
  assumes "t = commit_account_mutation X addr (account_mut addr a s)" "hget (st_accounts s) addr = Some u"
    "acct_le u a" "ac_nonce a = ac_nonce u" "ac_balance a = ac_balance u"
  shows "sound X s \<Longrightarrow> keeps X s t" "total_supply t = total_supply s"
  using assms keeps_write_account [of X s addr u a] supply_write_account [of s addr u X a] by simp_all

interpretation policy_h: payload_handler apply_vault_policy_update "\<lambda>E s tx. 0"
  by unfold_locales
     (auto simp: apply_vault_policy_update_def result_simps get_account_def not_le split: if_splits
      intro!: one_account_write [OF refl] acct_le_same_keys)

interpretation vault_h: payload_handler apply_vault_create "\<lambda>E s tx. 0"
  by unfold_locales
     (auto simp: apply_vault_create_def result_simps get_account_def Let_def implicit_account_def
      supply_insert_account split: if_splits intro!: keeps_insert_account)

lemma position_Some:
  "position p xs = Some i \<Longrightarrow> i < length xs \<and> p (xs ! i)"
  by (induction xs arbitrary: i) (auto split: if_splits)

lemma revoke_at_le:
  assumes "i < length ks" "k \<in> set ks"
  shows "\<exists>l \<in> set (revoke_at i ks). key_le k l"
proof (cases "k = ks ! i")
  case True
  have "(ks ! i)\<lparr> ke_status := KS_Revoked \<rparr> \<in> set (revoke_at i ks)"
    using assms(1) by (auto simp: revoke_at_def set_update_memI)
  moreover have "key_le k ((ks ! i)\<lparr> ke_status := KS_Revoked \<rparr>)"
    using True by (cases "ke_status (ks ! i)") (simp_all add: key_le_def)
  ultimately show ?thesis by blast
next
  case False
  then obtain j where "j < length ks" "k = ks ! j" "j \<noteq> i" using assms(2) by (auto simp: in_set_conv_nth)
  then have "k \<in> set (revoke_at i ks)"
    using nth_mem [of j "revoke_at i ks"] by (simp add: revoke_at_def)
  then show ?thesis using key_le_refl by blast
qed

lemma acct_le_add_key: "acct_le u (u\<lparr> ac_keys := ac_keys u @ ks \<rparr>)"
  unfolding acct_le_def by (auto, metis UnI1 key_le_refl)

lemma acct_le_revoke:
  "i < length (ac_keys u) \<Longrightarrow> acct_le u (u\<lparr> ac_keys := revoke_at i (ac_keys u) @ ks \<rparr>)"
  unfolding acct_le_def by (auto dest: revoke_at_le)

lemma acct_le_revoke':
  "i < length (ac_keys u) \<Longrightarrow> acct_le u (u\<lparr> ac_keys := revoke_at i (ac_keys u) \<rparr>)"
  using acct_le_revoke [of i u "[]"] by simp

interpretation key_add_h: payload_handler apply_key_add "\<lambda>E s tx. 0"
  by unfold_locales
     (auto simp: apply_key_add_def result_simps get_account_def Let_def split: if_splits
      intro!: one_account_write [OF refl] acct_le_add_key)

interpretation key_rotate_h: payload_handler apply_key_rotate "\<lambda>E s tx. 0"
  by unfold_locales
     (auto simp: apply_key_rotate_def result_simps get_account_def Let_def split: if_splits key_status.splits
      intro!: one_account_write [OF refl] acct_le_revoke dest!: position_Some, (metis key_status.exhaust)+)

interpretation key_revoke_h: payload_handler apply_key_revoke "\<lambda>E s tx. 0"
  by unfold_locales
     (auto simp: apply_key_revoke_def result_simps get_account_def Let_def split: if_splits
      intro!: one_account_write [OF refl] acct_le_revoke' dest!: position_Some)

text \<open>Handlers that touch neither accounts nor validators.\<close>

interpretation att_create_h: payload_handler apply_attestation_create "\<lambda>E s tx. 0"
  by unfold_locales
     (auto simp: apply_attestation_create_def result_simps get_attestation_def Let_def sound_def
      split: if_splits intro!: keeps_frame supply_frame wf_insert_attestation ev_insert_attestation)

lemma att_le_revoked:
  "at_status a = AS_Active \<Longrightarrow> ar_revoker rv = at_attester a \<Longrightarrow>
   att_le a (a\<lparr> at_status := AS_Revoked, at_revocation := Some rv \<rparr>)"
  unfolding att_le_def by blast

interpretation anchor_h: payload_handler apply_proof_anchor "\<lambda>E s tx. 0"
  by unfold_locales
     (auto simp: apply_proof_anchor_def result_simps sound_def split: if_splits
      intro!: keeps_frame supply_frame wf_insert_proof_anchor ev_frames)

interpretation att_revoke_h: payload_handler apply_attestation_revoke "\<lambda>E s tx. 0"
proof
  fix E s tx t
  assume "apply_attestation_revoke E s tx = Ok t"
  then obtain i a rv where a: "hget (st_attestations s) i = Some a" "at_status a \<noteq> AS_Revoked"
      "at_attester a = tx_sender tx" "ar_revoker rv = tx_sender tx"
    and t: "t = insert_attestation (e_xof E) (a\<lparr> at_status := AS_Revoked, at_revocation := Some rv \<rparr>) s"
    by (force simp: apply_attestation_revoke_def result_simps get_attestation_def split: if_splits)
  show "keeps (e_xof E) s t" if "sound (e_xof E) s"
  proof -
    have "at_attestation_id a = i" using that a(1) by (auto simp: sound_def store_wf_def dest: keyedD)
    moreover have "at_status a = AS_Active" using a(2) by (cases "at_status a") simp_all
    ultimately show ?thesis
      unfolding t using that a
      by (auto simp: sound_def intro!: keeps_frame wf_insert_attestation ev_insert_attestation att_le_revoked)
  qed
  show "total_supply t = total_supply s + 0" by (auto simp: t intro!: supply_frame)
qed

end
