(* ===== verification/Fork.thy ===== *)
theory Fork
  imports Types State_Leaf
begin

text \<open>
  The fork digest and the genesis validator root, \<open>pqc-types/src/fork.rs\<close>.
\<close>

definition VIPER_FORK_VERSION_V1 :: nat where
"VIPER_FORK_VERSION_V1 = 1"

definition VIPER_PQ_1_GENESIS_VALIDATORS_ROOT :: hash32 where
"VIPER_PQ_1_GENESIS_VALIDATORS_ROOT =
   [0x38, 0x7f, 0xa6, 0x78, 0x92, 0x29, 0xe9, 0xd9, 0x30, 0xee, 0x8d, 0x1c, 0xad, 0xee, 0x6c, 0x92,
    0x3d, 0xef, 0x50, 0x1a, 0x8d, 0xd4, 0xa2, 0x10, 0x59, 0xa4, 0x55, 0xa5, 0x74, 0xbe, 0x3c, 0xb2]"

definition VIPER_RESEARCH_1_GENESIS_VALIDATORS_ROOT :: hash32 where
"VIPER_RESEARCH_1_GENESIS_VALIDATORS_ROOT =
   [0x61, 0xd6, 0xc7, 0xfe, 0x2f, 0x96, 0x60, 0x4d, 0x57, 0xed, 0x0c, 0xaf, 0x3f, 0xe4, 0x8a, 0xa1,
    0x90, 0xbb, 0x19, 0x20, 0x69, 0xdf, 0x8e, 0xcd, 0x75, 0xfa, 0xa0, 0x76, 0xe8, 0xde, 0x6d, 0x8d]"

definition viper_pq_1 :: "xof \<Rightarrow> bytes" where
"viper_pq_1 X = fork_digest_compute X VIPER_FORK_VERSION_V1 VIPER_PQ_1_GENESIS_VALIDATORS_ROOT"

definition viper_research_1 :: "xof \<Rightarrow> bytes" where
"viper_research_1 X = fork_digest_compute X VIPER_FORK_VERSION_V1 VIPER_RESEARCH_1_GENESIS_VALIDATORS_ROOT"

definition compute_genesis_validator_leaf :: "xof \<Rightarrow> address \<Rightarrow> alg_id \<Rightarrow> bytes \<Rightarrow> hash32" where
"compute_genesis_validator_leaf X addr alg pk =
   leaf_hash X ''VIPER-VALIDATOR-GENESIS-LEAF-V1'' [addr, u16b (alg_as_u16 alg), u64b (length pk), pk]"

definition compute_genesis_validators_root :: "xof \<Rightarrow> (address \<times> alg_id \<times> bytes) list \<Rightarrow> hash32" where
"compute_genesis_validators_root X validators =
   (let entries = sort_key fst
          (map (\<lambda>(addr, alg, pk). (addr, compute_genesis_validator_leaf X addr alg pk)) validators)
    in leaf_hash X ''VIPER-VALIDATORS-ROOT-V1'' (map snd entries))"

section \<open>Properties\<close>

text \<open>Sorting by a key that is injective on the elements forgets the order they came in.\<close>

lemma sort_key_mset_unique:
  fixes f :: "'a \<Rightarrow> 'k::linorder"
  assumes "set xs = set ys" "distinct (map f xs)" "distinct (map f ys)"
  shows "sort_key f xs = sort_key f ys"
  using assms
  by (intro map_sorted_distinct_set_unique [of f]) (auto simp: distinct_map)

text \<open>
  The genesis root names a set.  For validators with pairwise distinct operator addresses the
  root does not depend on the order of the genesis file.
\<close>

lemma genesis_root_order_independent:
  assumes "set vs = set ws" "distinct (map fst vs)" "distinct (map fst ws)"
  shows "compute_genesis_validators_root X vs = compute_genesis_validators_root X ws"
proof -
  let ?e = "\<lambda>(addr, alg, pk). (addr, compute_genesis_validator_leaf X addr alg pk)"
  have fst_e: "map fst (map ?e zs) = map fst zs" for zs by auto
  have "sort_key fst (map ?e vs) = sort_key fst (map ?e ws)"
    by (rule sort_key_mset_unique) (use assms in \<open>simp_all only: fst_e set_map\<close>)
  then show ?thesis by (simp add: compute_genesis_validators_root_def Let_def)
qed

end
