(* ===== verification/Apply_Validator.thy ===== *)
theory Apply_Validator
  imports Handler Fork Round
begin

text \<open>
  The handlers on validators: \<open>apply/validator.rs\<close>, \<open>apply/consensus_rotate.rs\<close> and
  \<open>apply/slashing.rs\<close>, each with its interpretation of the handler contract.
\<close>

section \<open>Registration, exit, unjailing\<close>

definition apply_validator_register :: handler where
"apply_validator_register E s tx =
   bind_r (decode_register_payload E (tx_payload tx)) (\<lambda>payload.
   bind_r (ok_or (alg_from_u16 (rp_consensus_alg_id payload)) AE_AlgorithmNotAllowedForConsensusKey) (\<lambda>alg.
   if \<not> allowed_for_consensus alg then Err AE_AlgorithmNotAllowedForConsensusKey
   else bind_r (ok_or (get_alg_entry s alg) AE_UnsupportedAlgorithm) (\<lambda>entry.
   if length (rp_consensus_pk payload) \<noteq> ae_pk_size entry then Err AE_InvalidKeySize
   else if rp_self_bond payload = 0 then Err AE_ValidatorBondZero
   else if (case get_validator s (tx_sender tx) of
              Some existing \<Rightarrow> vr_status existing \<noteq> VS_Exited | None \<Rightarrow> False)
   then Err AE_ValidatorAlreadyRegistered
   else if consensus_key_in_use s (rp_consensus_pk payload) then Err AE_ValidatorConsensusKeyConflict
   else if length (rp_peer_id payload) > VALIDATOR_PEER_ID_MAX_LEN then Err AE_ValidatorPeerIdTooLarge
   else if rp_peer_id payload \<noteq> [] \<and> peer_id_in_use s (rp_peer_id payload) then Err AE_ValidatorPeerIdConflict
   else bind_r (ok_or (get_account s (tx_sender tx)) AE_ValidatorNotFound) (\<lambda>operator.
   if ac_balance operator < rp_self_bond payload then Err AE_InsufficientFunds
   else
     let s1 = commit_account_mutation (e_xof E) (tx_sender tx) (account_mut (tx_sender tx)
                (operator\<lparr> ac_balance := ac_balance operator - rp_self_bond payload \<rparr>) s);
         initial_status = (if active_validator_count s1 < VALIDATOR_MAX_ACTIVE_SET_SIZE
                           then VS_Active else VS_Candidate);
         s2 = insert_validator (e_xof E)
                \<lparr> vr_operator = tx_sender tx, vr_node_id = rp_node_id payload, vr_consensus_alg_id = alg,
                  vr_consensus_pk = rp_consensus_pk payload, vr_self_bond = rp_self_bond payload,
                  vr_status = initial_status, vr_registered_height = st_block_height s1,
                  vr_tombstoned = False \<rparr> s1
     in Ok (if rp_peer_id payload \<noteq> [] then set_validator_peer_id (e_xof E) (tx_sender tx) (rp_peer_id payload) s2
            else s2)))))"

definition apply_validator_exit :: handler where
"apply_validator_exit E s tx =
   bind_r (ok_or (get_validator s (tx_sender tx)) AE_ValidatorNotFound) (\<lambda>record.
   if vr_status record \<noteq> VS_Active then Err AE_ValidatorNotActive
   else if active_validator_count s \<le> 1 then Err AE_ValidatorExitWouldEmptySet
   else Ok (commit_validator_mutation (e_xof E) (tx_sender tx)
     (validator_mut (tx_sender tx) (record\<lparr> vr_status := VS_Unbonding (st_block_height s) \<rparr>) s)))"

definition apply_validator_unjail :: handler where
"apply_validator_unjail E s tx =
   bind_r (ok_or (get_validator s (tx_sender tx)) AE_ValidatorNotFound) (\<lambda>record.
   if vr_tombstoned record then Err AE_AlreadyTombstoned
   else if vr_status record \<noteq> VS_Jailed then Err AE_ValidatorNotJailed
   else
     let new_status = (if active_validator_count s < VALIDATOR_MAX_ACTIVE_SET_SIZE
                       then VS_Active else VS_Candidate)
     in Ok (commit_validator_mutation (e_xof E) (tx_sender tx)
          (validator_mut (tx_sender tx) (record\<lparr> vr_status := new_status \<rparr>) s)))"

definition apply_validator_rotate_peer_id :: handler where
"apply_validator_rotate_peer_id E s tx =
   bind_r (decode_rotate_peer_id_payload E (tx_payload tx)) (\<lambda>new_peer_id.
   if new_peer_id = [] then Err AE_ValidatorPeerIdEmpty
   else if length new_peer_id > VALIDATOR_PEER_ID_MAX_LEN then Err AE_ValidatorPeerIdTooLarge
   else bind_r (ok_or (get_validator s (tx_sender tx)) AE_ValidatorNotFound) (\<lambda>record.
   bind_r (case vr_status record of
             VS_Active \<Rightarrow> Ok () | VS_Candidate \<Rightarrow> Ok () | VS_Jailed \<Rightarrow> Ok ()
           | VS_Unbonding _ \<Rightarrow> Err AE_ValidatorPeerIdNotRotatable
           | VS_Exited \<Rightarrow> Err AE_ValidatorPeerIdNotRotatable) (\<lambda>_.
   if get_validator_peer_id s (tx_sender tx) \<noteq> Some new_peer_id \<and> peer_id_in_use s new_peer_id
   then Err AE_ValidatorPeerIdConflict
   else Ok (set_validator_peer_id (e_xof E) (tx_sender tx) new_peer_id s))))"

section \<open>Rotation of the consensus key\<close>

definition ROTATION_WINDOW :: nat where
"ROTATION_WINDOW = 100"

definition apply_consensus_key_rotate :: handler where
"apply_consensus_key_rotate E s tx =
   bind_r (decode_consensus_key_rotate_payload E (tx_payload tx)) (\<lambda>payload.
   bind_r (ok_or (alg_from_u16 (cr_new_consensus_alg_id payload)) AE_UnsupportedAlgorithm) (\<lambda>alg.
   if \<not> allowed_for_consensus alg then Err AE_AlgorithmNotAllowedForConsensus
   else bind_r (ok_or (get_alg_entry s alg) AE_UnsupportedAlgorithm) (\<lambda>entry.
   if length (cr_new_consensus_pk_bytes payload) \<noteq> ae_pk_size entry then Err AE_InvalidKeySize
   else
     let min_start = saturating_add U64_MAX (st_block_height s) ROTATION_WINDOW in
     if cr_rotation_start_height payload < min_start then Err AE_InvalidRotationHeight
     else Ok (insert_consensus_key_rotation (e_xof E)
       \<lparr> ro_operator = tx_sender tx, ro_new_alg_id = alg,
         ro_new_pk_bytes = cr_new_consensus_pk_bytes payload,
         ro_rotation_start_height = cr_rotation_start_height payload,
         ro_recorded_at_height = st_block_height s \<rparr> s))))"

section \<open>Slashing\<close>

definition EVIDENCE_VALIDITY_WINDOW_BLOCKS :: nat where
"EVIDENCE_VALIDITY_WINDOW_BLOCKS = 2419200"

definition SLASH_FRACTION_BPS :: nat where
"SLASH_FRACTION_BPS = 500"

definition BASIS_POINTS_TOTAL :: nat where
"BASIS_POINTS_TOTAL = 10000"

definition TREASURY_ADDRESS :: address where
"TREASURY_ADDRESS = replicate 32 1"

definition CORRELATION_WINDOW_BLOCKS :: nat where
"CORRELATION_WINDOW_BLOCKS = 6220800"

definition MAX_MULT_BOOST :: nat where
"MAX_MULT_BOOST = 19"

definition CORRELATION_BASE_MULT :: nat where
"CORRELATION_BASE_MULT = 3"

definition compute_vote_preimage :: "xof \<Rightarrow> bytes \<Rightarrow> equivocation_vote \<Rightarrow> hash32" where
"compute_vote_preimage X fork_digest vote =
   tagged_hash X (bstr ''VIPER-VOTE-V1'')
     (fork_digest @ be_bytes 8 (ev_height vote) @ be_bytes 4 (ev_round vote)
      @ [word_of_nat (ev_step vote)] @ ev_block_hash vote)"

definition verify_vote_signature :: "env \<Rightarrow> alg_id \<times> bytes \<Rightarrow> equivocation_vote \<Rightarrow> bool" where
"verify_vote_signature E pk vote =
   (let preimage = compute_vote_preimage (e_xof E) (viper_research_1 (e_xof E)) vote
    in e_verify E pk preimage (fst pk, ev_signature vote))"

definition correlation_adjusted_slash_fraction_bps :: "nat \<Rightarrow> nat \<Rightarrow> nat \<Rightarrow> nat" where
"correlation_adjusted_slash_fraction_bps base_fraction_bps window_slashed_stake active_stake =
   (if active_stake = 0 then base_fraction_bps
    else
      let ratio_bps_unclamped = saturating_mul U128_MAX window_slashed_stake BASIS_POINTS_TOTAL div active_stake;
          ratio_bps = min ratio_bps_unclamped BASIS_POINTS_TOTAL;
          multiplier_bps = min (saturating_mul U128_MAX ratio_bps CORRELATION_BASE_MULT) BASIS_POINTS_TOTAL;
          boost_bps = saturating_add U128_MAX BASIS_POINTS_TOTAL
                        (saturating_mul U128_MAX multiplier_bps MAX_MULT_BOOST);
          product = saturating_mul U128_MAX base_fraction_bps boost_bps;
          effective_bps = product div BASIS_POINTS_TOTAL
      in min effective_bps BASIS_POINTS_TOTAL)"

definition compute_slash_amount :: "nat \<Rightarrow> nat \<Rightarrow> nat" where
"compute_slash_amount self_bond fraction_bps =
   saturating_mul U128_MAX self_bond fraction_bps div BASIS_POINTS_TOTAL"

text \<open>\<open>credit_treasury\<close> has the same body as \<open>credit_account\<close>, at the treasury's address.\<close>

definition credit_treasury :: "xof \<Rightarrow> nat \<Rightarrow> state_store \<Rightarrow> state_store" where
"credit_treasury X amount s =
   (if amount = 0 then s
    else case get_account s TREASURY_ADDRESS of
      Some acc \<Rightarrow> commit_account_mutation X TREASURY_ADDRESS
        (account_mut TREASURY_ADDRESS (acc\<lparr> ac_balance := saturating_add U128_MAX (ac_balance acc) amount \<rparr>) s)
    | None \<Rightarrow> insert_account X (implicit_account TREASURY_ADDRESS amount) s)"

definition slash_amount_for :: "state_store \<Rightarrow> nat \<Rightarrow> validator_record \<Rightarrow> nat" where
"slash_amount_for s current_block_height r =
   (let active_stake = total_active_self_bond s;
        window_sum = recent_slashed_stake_in_window s current_block_height CORRELATION_WINDOW_BLOCKS;
        effective_fraction_bps =
          correlation_adjusted_slash_fraction_bps SLASH_FRACTION_BPS window_sum active_stake
    in compute_slash_amount (vr_self_bond r) effective_fraction_bps)"

definition apply_submit_equivocation_evidence :: handler where
"apply_submit_equivocation_evidence E s tx =
   (let current_block_height = st_block_height s; X = e_xof E in
   bind_r (map_err (\<lambda>e. AE_PayloadDecode (''INVALID_EVIDENCE_FORMAT: '' @ evidence_error_text e))
             (decode_equivocation_evidence E (tx_payload tx))) (\<lambda>evidence.
   let va = sl_vote_a evidence; vb = sl_vote_b evidence in
   if ev_height va \<noteq> sl_height evidence \<or> ev_height vb \<noteq> sl_height evidence then Err AE_EvidenceHeightMismatch
   else if ev_round va \<noteq> ev_round vb then Err AE_EvidenceRoundMismatch
   else if ev_step va \<noteq> ev_step vb then Err AE_EvidenceStepMismatch
   else if ev_block_hash va = ev_block_hash vb then Err AE_EquivocationNotProven
   else if ev_block_hash va = replicate 32 0 \<and> ev_block_hash vb = replicate 32 0 then Err AE_EquivocationNotProven
   else if sl_height evidence > current_block_height then Err AE_EvidenceExpired
   else if current_block_height - sl_height evidence > EVIDENCE_VALIDITY_WINDOW_BLOCKS then Err AE_EvidenceExpired
   else bind_r (ok_or (get_validator s (sl_validator_address evidence)) AE_NotAValidator) (\<lambda>record.
   if vr_tombstoned record then Err AE_AlreadyTombstoned
   else
     let pk = (vr_consensus_alg_id record, vr_consensus_pk record) in
     if \<not> verify_vote_signature E pk va then Err AE_InvalidSignature
     else if \<not> verify_vote_signature E pk vb then Err AE_InvalidSignature
     else
       let cutoff = saturating_sub current_block_height CORRELATION_WINDOW_BLOCKS;
           s1 = prune_recent_slashes_before X cutoff s
       in bind_r (ok_or (get_validator s1 (sl_validator_address evidence)) AE_NotAValidator) (\<lambda>r.
          let slash_amount = slash_amount_for s1 current_block_height r;
              r' = r\<lparr> vr_self_bond := (if vr_self_bond r \<ge> slash_amount then vr_self_bond r - slash_amount else 0),
                      vr_status := VS_Jailed, vr_tombstoned := True \<rparr>;
              s2 = commit_validator_mutation X (sl_validator_address evidence)
                     (validator_mut (sl_validator_address evidence) r' s1);
              s3 = credit_treasury X slash_amount s2
          in Ok (record_recent_slash X
               \<lparr> rs_height = current_block_height, rs_slashed_stake = slash_amount \<rparr> s3)))))"

section \<open>The handlers meet the contract\<close>

text \<open>Handlers whose only effect is one rewritten validator record with an unchanged bond.\<close>

lemma one_validator_write:
  assumes "t = commit_validator_mutation X addr (validator_mut addr r s)" "hget (st_validators s) addr = Some u"
    "val_le u r" "vr_tombstoned r \<Longrightarrow> vr_status r = VS_Jailed" "bonded r = bonded u"
  shows "sound X s \<Longrightarrow> keeps X s t" "total_supply t = total_supply s"
  using assms keeps_write_validator [of X s addr u r] supply_write_validator [of s addr u X r] by simp_all

lemma sound_tomb:
  "sound X s \<Longrightarrow> hget (st_validators s) addr = Some u \<Longrightarrow> vr_tombstoned u \<Longrightarrow> vr_status u = VS_Jailed"
  by (auto simp: sound_def tomb_inv_def)

lemma supply_insert_validator:
  "(\<And>u. hget (st_validators s) (vr_operator r) = Some u \<Longrightarrow> bonded u = 0) \<Longrightarrow>
   total_supply (insert_validator X r s) = total_supply s + bonded r"
  using hsum_hput_old [of "st_validators s" "vr_operator r" _ bonded r]
  by (cases "hget (st_validators s) (vr_operator r)")
     (auto simp: total_supply_def insert_validator_def hsum_hput_new)

interpretation exit_h: payload_handler apply_validator_exit "\<lambda>E s tx. 0"
proof
  fix E s tx t
  assume "apply_validator_exit E s tx = Ok t"
  then obtain u where u: "hget (st_validators s) (tx_sender tx) = Some u" "vr_status u = VS_Active"
    and t: "t = commit_validator_mutation (e_xof E) (tx_sender tx)
      (validator_mut (tx_sender tx) (u\<lparr> vr_status := VS_Unbonding (st_block_height s) \<rparr>) s)"
    by (auto simp: apply_validator_exit_def result_simps get_validator_def split: if_splits)
  show "keeps (e_xof E) s t" if "sound (e_xof E) s"
    using that u sound_tomb [OF that u(1)] by (intro one_validator_write(1) [OF t u(1)]) (auto simp: val_le_def bonded_def)
  show "total_supply t = total_supply s + 0"
    using supply_write_validator [OF u(1), of "e_xof E" "u\<lparr> vr_status := VS_Unbonding (st_block_height s) \<rparr>"] u(2)
    by (simp add: t bonded_def)
qed

interpretation unjail_h: payload_handler apply_validator_unjail "\<lambda>E s tx. 0"
proof
  fix E s tx t
  assume "apply_validator_unjail E s tx = Ok t"
  then obtain u st where u: "hget (st_validators s) (tx_sender tx) = Some u" "vr_status u = VS_Jailed" "\<not> vr_tombstoned u"
    and st: "st = VS_Active \<or> st = VS_Candidate"
    and t: "t = commit_validator_mutation (e_xof E) (tx_sender tx)
      (validator_mut (tx_sender tx) (u\<lparr> vr_status := st \<rparr>) s)"
    by (auto simp: apply_validator_unjail_def result_simps get_validator_def Let_def split: if_splits)
  show "keeps (e_xof E) s t" if "sound (e_xof E) s"
    using that u st by (intro one_validator_write(1) [OF t u(1)]) (auto simp: val_le_def bonded_def)
  show "total_supply t = total_supply s + 0"
    using supply_write_validator [OF u(1), of "e_xof E" "u\<lparr> vr_status := st \<rparr>"] u(2) st
    by (auto simp: t bonded_def)
qed

lemma rotate_peer_id_Ok:
  assumes "apply_validator_rotate_peer_id E s tx = Ok t"
  obtains p where "t = set_validator_peer_id (e_xof E) (tx_sender tx) p s" "p \<noteq> []"
    "length p \<le> VALIDATOR_PEER_ID_MAX_LEN"
    "get_validator_peer_id s (tx_sender tx) = Some p \<or> \<not> peer_id_in_use s p"
proof -
  from assms obtain p r where p: "decode_rotate_peer_id_payload E (tx_payload tx) = Ok p" "p \<noteq> []"
      "length p \<le> VALIDATOR_PEER_ID_MAX_LEN" and r: "get_validator s (tx_sender tx) = Some r"
    by (auto simp: apply_validator_rotate_peer_id_def result_simps split: if_splits)
  with assms that show thesis
    by (cases "vr_status r") (auto simp: apply_validator_rotate_peer_id_def result_simps split: if_splits)
qed

interpretation peer_h: payload_handler apply_validator_rotate_peer_id "\<lambda>E s tx. 0"
  by unfold_locales
     (auto simp: sound_def elim!: rotate_peer_id_Ok intro!: keeps_frame supply_frame wf_set_peer_id ev_frames)

interpretation consensus_rotate_h: payload_handler apply_consensus_key_rotate "\<lambda>E s tx. 0"
  by unfold_locales
     (auto simp: apply_consensus_key_rotate_def result_simps Let_def sound_def split: if_splits
      intro!: keeps_frame supply_frame wf_insert_rotation ev_frames)

text \<open>Registration moves the bond from the balance to the validator record.\<close>

lemma register_Ok:
  assumes "apply_validator_register E s tx = Ok t"
  obtains r u p where "hget (st_accounts s) (tx_sender tx) = Some u" "vr_self_bond r \<le> ac_balance u"
    "0 < vr_self_bond r" "vr_operator r = tx_sender tx" "\<not> vr_tombstoned r" "vr_status r = VS_Active \<or> vr_status r = VS_Candidate"
    "\<And>q. hget (st_validators s) (tx_sender tx) = Some q \<Longrightarrow> vr_status q = VS_Exited"
    "t = (let s2 = insert_validator (e_xof E) r (commit_account_mutation (e_xof E) (tx_sender tx)
            (account_mut (tx_sender tx) (u\<lparr> ac_balance := ac_balance u - vr_self_bond r \<rparr>) s))
          in if p \<noteq> [] then set_validator_peer_id (e_xof E) (tx_sender tx) p s2 else s2)"
proof -
  from assms obtain p :: validator_register_payload and alg u where
      p: "decode_register_payload E (tx_payload tx) = Ok p" "0 < rp_self_bond p" "rp_self_bond p \<le> ac_balance u"
    and u: "hget (st_accounts s) (tx_sender tx) = Some u"
    and q: "\<And>q. hget (st_validators s) (tx_sender tx) = Some q \<Longrightarrow> vr_status q = VS_Exited"
    and alg: "alg_from_u16 (rp_consensus_alg_id p) = Some alg"
    by (auto simp: apply_validator_register_def result_simps get_account_def get_validator_def Let_def not_less
        split: if_splits option.splits)
  let ?s1 = "commit_account_mutation (e_xof E) (tx_sender tx)
            (account_mut (tx_sender tx) (u\<lparr> ac_balance := ac_balance u - rp_self_bond p \<rparr>) s)"
  let ?r = "\<lparr> vr_operator = tx_sender tx, vr_node_id = rp_node_id p, vr_consensus_alg_id = alg,
       vr_consensus_pk = rp_consensus_pk p, vr_self_bond = rp_self_bond p,
       vr_status = (if active_validator_count ?s1 < VALIDATOR_MAX_ACTIVE_SET_SIZE then VS_Active else VS_Candidate),
       vr_registered_height = st_block_height ?s1, vr_tombstoned = False \<rparr>"
  show thesis
    by (rule that [of u ?r "rp_peer_id p"])
       (use assms p u q alg in \<open>simp_all add: apply_validator_register_def result_simps get_account_def Let_def
          split: if_splits\<close>)
qed

interpretation register_h: payload_handler apply_validator_register "\<lambda>E s tx. 0"
proof
  fix E s tx t
  assume "apply_validator_register E s tx = Ok t"
  then obtain r u p where u: "hget (st_accounts s) (tx_sender tx) = Some u" "vr_self_bond r \<le> ac_balance u"
    and r: "vr_operator r = tx_sender tx" "\<not> vr_tombstoned r" "vr_status r = VS_Active \<or> vr_status r = VS_Candidate"
    and q: "\<And>q. hget (st_validators s) (tx_sender tx) = Some q \<Longrightarrow> vr_status q = VS_Exited"
    and t: "t = (let s2 = insert_validator (e_xof E) r (commit_account_mutation (e_xof E) (tx_sender tx)
            (account_mut (tx_sender tx) (u\<lparr> ac_balance := ac_balance u - vr_self_bond r \<rparr>) s))
          in if p \<noteq> [] then set_validator_peer_id (e_xof E) (tx_sender tx) p s2 else s2)"
    by (rule register_Ok) blast
  define s1 where "s1 = commit_account_mutation (e_xof E) (tx_sender tx)
            (account_mut (tx_sender tx) (u\<lparr> ac_balance := ac_balance u - vr_self_bond r \<rparr>) s)"
  define s2 where "s2 = insert_validator (e_xof E) r s1"
  have same: "st_validators s1 = st_validators s" by (simp add: s1_def)
  have t2: "t = (if p \<noteq> [] then set_validator_peer_id (e_xof E) (tx_sender tx) p s2 else s2)"
    by (simp add: t s2_def s1_def Let_def)
  show "keeps (e_xof E) s t" if snd: "sound (e_xof E) s"
  proof -
    have k1: "keeps (e_xof E) s s1"
      unfolding s1_def by (rule keeps_write_account [OF snd u(1)]) (simp_all add: acct_le_same_keys)
    have le: "val_le v r" if "hget (st_validators s1) (vr_operator r) = Some v" for v
      using that q r keyedD [of vr_operator "st_validators s"] snd
      by (auto simp: same val_le_def sound_def store_wf_def)
    have k2: "keeps (e_xof E) s1 s2"
      unfolding s2_def by (rule keeps_insert_validator [OF keeps_sound [OF k1] le r(2)])
    have k3: "keeps (e_xof E) s2 t"
      using keeps_sound [OF k2] unfolding t2
      by (auto simp: sound_def keeps_refl intro!: keeps_frame wf_set_peer_id ev_frames)
    show ?thesis using k1 k2 k3 keeps_trans by blast
  qed
  have "total_supply t = total_supply s2" unfolding t2 by (auto intro!: supply_frame)
  moreover have "total_supply s2 = total_supply s1 + vr_self_bond r"
    unfolding s2_def using r q by (subst supply_insert_validator) (auto simp: bonded_def same)
  moreover have "total_supply s1 + vr_self_bond r = total_supply s"
    using supply_write_account [OF u(1), of "e_xof E" "u\<lparr> ac_balance := ac_balance u - vr_self_bond r \<rparr>"] u(2)
    by (simp add: s1_def)
  ultimately show "total_supply t = total_supply s + 0" by simp
qed

section \<open>The slashing penalty\<close>

lemmas bps_defs = BASIS_POINTS_TOTAL_def SLASH_FRACTION_BPS_def CORRELATION_BASE_MULT_def MAX_MULT_BOOST_def

lemma correlation_bounds:
  assumes "base \<le> BASIS_POINTS_TOTAL"
  shows "correlation_adjusted_slash_fraction_bps base w a \<le> BASIS_POINTS_TOTAL"
  using assms by (simp add: correlation_adjusted_slash_fraction_bps_def Let_def)

lemma correlation_at_least_base:
  assumes "base \<le> BASIS_POINTS_TOTAL"
  shows "base \<le> correlation_adjusted_slash_fraction_bps base w a"
proof (cases "a = 0")
  case False
  define m where "m = min (saturating_mul U128_MAX (min (saturating_mul U128_MAX w BASIS_POINTS_TOTAL div a)
    BASIS_POINTS_TOTAL) CORRELATION_BASE_MULT) BASIS_POINTS_TOTAL"
  have m: "m \<le> 10000" by (simp add: m_def bps_defs)
  then have boost: "saturating_add U128_MAX BASIS_POINTS_TOTAL (saturating_mul U128_MAX m MAX_MULT_BOOST)
      = 10000 + m * 19"
    by (simp add: bps_defs saturating_mul_def saturating_add_def width_simps)
  have "base * (10000 + m * 19) \<le> 10000 * 200000"
    using assms m by (intro mult_mono) (simp_all add: bps_defs)
  then have prod: "saturating_mul U128_MAX base (10000 + m * 19) = base * (10000 + m * 19)"
    by (simp add: saturating_mul_def width_simps)
  have "base * 10000 div 10000 \<le> base * (10000 + m * 19) div 10000"
    by (intro div_le_mono mult_le_mono) simp_all
  then show ?thesis using False assms
    by (simp add: correlation_adjusted_slash_fraction_bps_def Let_def boost prod m_def [symmetric])
       (simp add: bps_defs)
qed (simp add: correlation_adjusted_slash_fraction_bps_def)

lemma slash_amount_le_bond:
  "f \<le> BASIS_POINTS_TOTAL \<Longrightarrow> compute_slash_amount b f \<le> b"
proof -
  assume f: "f \<le> BASIS_POINTS_TOTAL"
  have "saturating_mul U128_MAX b f \<le> b * BASIS_POINTS_TOTAL"
    using f by (simp add: saturating_mul_def min.coboundedI2)
  from div_le_mono [OF this, of BASIS_POINTS_TOTAL] show ?thesis
    by (simp add: compute_slash_amount_def bps_defs)
qed

lemma slash_amount_for_le: "slash_amount_for s h r \<le> vr_self_bond r"
  unfolding slash_amount_for_def Let_def
  by (intro slash_amount_le_bond correlation_bounds) (simp add: bps_defs)

lemma credit_treasury_eq: "credit_treasury X n s = credit_account X TREASURY_ADDRESS n s"
  by (simp add: credit_treasury_def credit_account_def)

text \<open>
  What slashing adds to the supply: an exited validator has been paid its bond back, but its record
  still names the bond, so that slashing it counts the bond a second time.
\<close>

definition revived_bond :: "env \<Rightarrow> state_store \<Rightarrow> transaction \<Rightarrow> nat" where
"revived_bond E s tx =
   (case decode_equivocation_evidence E (tx_payload tx) of
      Ok ev \<Rightarrow> (case get_validator s (sl_validator_address ev) of
                 Some r \<Rightarrow> (if vr_status r = VS_Exited then vr_self_bond r else 0)
               | None \<Rightarrow> 0)
    | _ \<Rightarrow> 0)"

definition slashed :: "validator_record \<Rightarrow> nat \<Rightarrow> validator_record" where
"slashed r n = r\<lparr> vr_self_bond := vr_self_bond r - n, vr_status := VS_Jailed, vr_tombstoned := True \<rparr>"

lemma prune_validators [simp]: "get_validator (prune_recent_slashes_before X h s) a = get_validator s a"
  by (simp add: get_validator_def)

lemma equivocation_Ok:
  assumes "apply_submit_equivocation_evidence E s tx = Ok t"
  obtains ev r n s1 where "decode_equivocation_evidence E (tx_payload tx) = Ok ev"
    "s1 = prune_recent_slashes_before (e_xof E) (saturating_sub (st_block_height s) CORRELATION_WINDOW_BLOCKS) s"
    "hget (st_validators s) (sl_validator_address ev) = Some r" "\<not> vr_tombstoned r"
    "n = slash_amount_for s1 (st_block_height s) r" "n \<le> vr_self_bond r"
    "t = record_recent_slash (e_xof E) \<lparr> rs_height = st_block_height s, rs_slashed_stake = n \<rparr>
           (credit_account (e_xof E) TREASURY_ADDRESS n
             (commit_validator_mutation (e_xof E) (sl_validator_address ev)
               (validator_mut (sl_validator_address ev) (slashed r n) s1)))"
    "ev_block_hash (sl_vote_a ev) \<noteq> ev_block_hash (sl_vote_b ev)"
    "verify_vote_signature E (vr_consensus_alg_id r, vr_consensus_pk r) (sl_vote_a ev)"
    "verify_vote_signature E (vr_consensus_alg_id r, vr_consensus_pk r) (sl_vote_b ev)"
  using assms slash_amount_for_le
  by (auto simp: apply_submit_equivocation_evidence_def result_simps Let_def get_validator_def slashed_def
      credit_treasury_eq split: if_splits)

interpretation equivocation_h: payload_handler apply_submit_equivocation_evidence revived_bond
proof
  fix E s tx t
  assume "apply_submit_equivocation_evidence E s tx = Ok t"
  then obtain ev r n s1 where ev: "decode_equivocation_evidence E (tx_payload tx) = Ok ev"
    and s1: "s1 = prune_recent_slashes_before (e_xof E) (saturating_sub (st_block_height s) CORRELATION_WINDOW_BLOCKS) s"
    and r: "hget (st_validators s) (sl_validator_address ev) = Some r" "n \<le> vr_self_bond r"
    and t: "t = record_recent_slash (e_xof E) \<lparr> rs_height = st_block_height s, rs_slashed_stake = n \<rparr>
           (credit_account (e_xof E) TREASURY_ADDRESS n
             (commit_validator_mutation (e_xof E) (sl_validator_address ev)
               (validator_mut (sl_validator_address ev) (slashed r n) s1)))"
    by (rule equivocation_Ok) blast
  define s2 where "s2 = commit_validator_mutation (e_xof E) (sl_validator_address ev)
               (validator_mut (sl_validator_address ev) (slashed r n) s1)"
  define s3 where "s3 = credit_account (e_xof E) TREASURY_ADDRESS n s2"
  have r1: "hget (st_validators s1) (sl_validator_address ev) = Some r" using r by (simp add: s1)
  have t3: "t = record_recent_slash (e_xof E) \<lparr> rs_height = st_block_height s, rs_slashed_stake = n \<rparr> s3"
    by (simp add: t s3_def s2_def)
  show "keeps (e_xof E) s t" if snd: "sound (e_xof E) s"
  proof -
    have k1: "keeps (e_xof E) s s1"
      using snd by (auto simp: s1 sound_def intro!: keeps_frame wf_prune_slashes ev_frames)
    have k2: "keeps (e_xof E) s1 s2"
      unfolding s2_def
      by (rule keeps_write_validator [OF keeps_sound [OF k1] r1]) (simp_all add: slashed_def val_le_def)
    have k3: "keeps (e_xof E) s2 s3" unfolding s3_def by (rule keeps_credit_account [OF keeps_sound [OF k2]])
    have "keeps (e_xof E) s3 t" unfolding t3
      using keeps_sound [OF k3] by (auto simp: sound_def intro!: keeps_frame wf_record_slash ev_frames)
    with k1 k2 k3 show ?thesis using keeps_trans by blast
  qed
  assume cap: "total_supply s + revived_bond E s tx \<le> U128_MAX"
  have "total_supply s1 = total_supply s" unfolding s1 by (auto intro!: supply_frame)
  then have s2: "total_supply s2 + n = total_supply s + revived_bond E s tx"
    using supply_write_validator [OF r1, of "e_xof E" "slashed r n"] r
    by (simp add: s2_def slashed_def bonded_def revived_bond_def ev get_validator_def split: if_splits)
  then have "total_supply s3 = total_supply s2 + n"
    unfolding s3_def using cap by (intro supply_credit_account) simp
  moreover have "total_supply t = total_supply s3" unfolding t3 by (auto intro!: supply_frame)
  ultimately show "total_supply t = total_supply s + revived_bond E s tx" using s2 by simp
qed

section \<open>Properties\<close>

text \<open>
  a vote that the consensus engine signs and the same vote submitted as evidence have the same
  preimage, so that a signature valid for one is valid for the other.
\<close>

theorem vote_preimage_agrees:
  assumes "ev_step v = unat (step_u8 st)"
  shows "compute_vote_preimage X fd v = vote_preimage X fd (ev_height v) (ev_round v) st (ev_block_hash v)"
  using assms by (simp add: compute_vote_preimage_def vote_preimage_def vote_body_def VOTE_DOMAIN_TAG_def)

theorem vote_preimage_agrees_witness:
  "compute_vote_preimage (\<lambda>d n. take n d) [1, 2, 3, 4]
     \<lparr> ev_height = 7, ev_round = 0, ev_block_hash = replicate 32 9, ev_step = 2, ev_signature = [] \<rparr>
   = vote_preimage (\<lambda>d n. take n d) [1, 2, 3, 4] 7 0 Step_Precommit (replicate 32 9)"
  using vote_preimage_agrees [of "\<lparr> ev_height = 7, ev_round = 0, ev_block_hash = replicate 32 9, ev_step = 2,
    ev_signature = [] \<rparr>" Step_Precommit] by simp

lemma if_mono_le: "x \<le> x' \<Longrightarrow> y \<le> y' \<Longrightarrow> (if b then x else y) \<le> (if b then x' else (y' :: nat))"
  by simp

lemma correlation_mono:
  assumes "w \<le> w'"
  shows "correlation_adjusted_slash_fraction_bps base w a \<le> correlation_adjusted_slash_fraction_bps base w' a"
proof -
  have mul: "saturating_mul m x k \<le> saturating_mul m y k" "saturating_mul m k x \<le> saturating_mul m k y"
    if "x \<le> y" for m x y k :: nat
    using that by (auto simp: saturating_mul_def min_le_iff_disj)
  show ?thesis
    unfolding correlation_adjusted_slash_fraction_bps_def Let_def
    by (intro if_mono_le min.mono div_le_mono mul saturating_add_mono assms order_refl)
qed

text \<open>
  the correlation penalty, for a base fraction of at most 100 percent.  The effective fraction
  lies between the base and 100 percent, is the base when nothing was slashed in the window, never
  falls when more was slashed, and the amount taken never exceeds the bond.
\<close>

theorem slash_penalty_bounds:
  assumes "base \<le> BASIS_POINTS_TOTAL"
  shows "base \<le> correlation_adjusted_slash_fraction_bps base w a
    \<and> correlation_adjusted_slash_fraction_bps base w a \<le> BASIS_POINTS_TOTAL
    \<and> correlation_adjusted_slash_fraction_bps base 0 a = base
    \<and> correlation_adjusted_slash_fraction_bps base w a \<le> correlation_adjusted_slash_fraction_bps base (w + d) a
    \<and> compute_slash_amount bond (correlation_adjusted_slash_fraction_bps base w a) \<le> bond"
proof (intro conjI)
  have "base * 10000 \<le> U128_MAX" using assms by (simp add: bps_defs width_simps)
  then have "saturating_mul U128_MAX base 10000 = base * 10000" by (simp add: saturating_mul_def)
  then show "correlation_adjusted_slash_fraction_bps base 0 a = base"
    using assms by (simp add: correlation_adjusted_slash_fraction_bps_def bps_defs saturating_mul_def
        saturating_add_def width_simps)
qed (rule correlation_at_least_base correlation_bounds correlation_mono le_add1
      slash_amount_le_bond [OF correlation_bounds] assms)+

theorem slash_penalty_bounds_witness:
  "(500::nat) \<le> BASIS_POINTS_TOTAL \<and> (500::nat) \<le> correlation_adjusted_slash_fraction_bps 500 100 1000
   \<and> compute_slash_amount 70 (correlation_adjusted_slash_fraction_bps 500 100 1000) \<le> 70"
proof -
  have "(500::nat) \<le> BASIS_POINTS_TOTAL" by (simp add: bps_defs)
  with slash_penalty_bounds [OF this, of 100 1000 0 70] show ?thesis by blast
qed

end
