(* ===== verification/Apply_Archival.thy ===== *)
theory Apply_Archival
  imports Handler Fork
begin

text \<open>
  The handlers of the archival overlay, \<open>apply/archival.rs\<close>: the registration of archival keys, the
  submission of a signed epoch record, the attachment of timestamp anchors and the renewal of a record.
\<close>

section \<open>Handlers\<close>

definition ARCHIVAL_SIG_DOMAIN :: bytes where
"ARCHIVAL_SIG_DOMAIN = bstr ''VIPER-ARCHIVAL-SIG-V1''"

definition VALIDATOR_EPOCH_DURATION_DEVNET :: nat where
"VALIDATOR_EPOCH_DURATION_DEVNET = 60"

definition archival_sig_preimage :: "xof \<Rightarrow> bytes \<Rightarrow> nat \<Rightarrow> hash32 \<Rightarrow> hash32" where
"archival_sig_preimage X fork_digest epoch_number epoch_root =
   tagged_hash X ARCHIVAL_SIG_DOMAIN (fork_digest @ be_bytes 8 epoch_number @ epoch_root)"

definition current_epoch_number :: "nat \<Rightarrow> nat" where
"current_epoch_number current_block_height =
   (if VALIDATOR_EPOCH_DURATION_DEVNET = 0 then 0
    else current_block_height div VALIDATOR_EPOCH_DURATION_DEVNET)"

definition apply_validator_register_archival_key :: handler where
"apply_validator_register_archival_key E s tx =
   bind_r (decode_register_archival_key_payload E (tx_payload tx)) (\<lambda>(archival_alg_id, archival_pk).
   bind_r (ok_or (alg_from_u16 archival_alg_id) AE_ArchivalAlgorithmNotAllowed) (\<lambda>alg.
   if alg \<noteq> SlhDsaShake256s then Err AE_ArchivalAlgorithmNotAllowed
   else if length archival_pk \<noteq> SLH_DSA_SHAKE_256S_PK_LEN then Err AE_ArchivalInvalidPkSize
   else bind_r (ok_or (map_option vr_status (get_validator s (tx_sender tx))) AE_ArchivalValidatorNotEligible)
     (\<lambda>status.
   if status \<noteq> VS_Active \<and> status \<noteq> VS_Candidate then Err AE_ArchivalValidatorNotEligible
   else Ok (insert_archival_key (e_xof E)
     \<lparr> vk_operator = tx_sender tx, vk_archival_alg_id = archival_alg_id, vk_archival_pk = archival_pk,
       vk_registered_at_height = st_block_height s \<rparr> s))))"

text \<open>The loop over the signatures; it counts the ones that verify and stops at the first that does not.\<close>

fun verify_sig_set ::
    "env \<Rightarrow> state_store \<Rightarrow> hash32 \<Rightarrow> (address \<times> bytes) list \<Rightarrow> nat \<Rightarrow> (nat, apply_error) result" where
"verify_sig_set E s preimage [] verified = Ok verified" |
"verify_sig_set E s preimage ((addr, sig_bytes) # rest) verified =
   bind_r (ok_or (get_archival_key s addr) AE_ArchivalMissingKey) (\<lambda>key.
   bind_r (ok_or (alg_from_u16 (vk_archival_alg_id key)) AE_ArchivalAlgorithmNotAllowed) (\<lambda>alg.
   if \<not> e_verify E (alg, vk_archival_pk key) preimage (alg, sig_bytes) then Err AE_ArchivalSignatureInvalid
   else verify_sig_set E s preimage rest (saturating_add U32_MAX verified 1)))"

text \<open>\<open>Vec::dedup_by\<close> on the address: of consecutive entries with one address the first stays.\<close>

fun dedup_addr :: "(address \<times> bytes) list \<Rightarrow> (address \<times> bytes) list" where
"dedup_addr (x # y # rest) =
   (if fst y = fst x then dedup_addr (x # rest) else x # dedup_addr (y # rest))" |
"dedup_addr xs = xs"

definition apply_archival_record_submit :: handler where
"apply_archival_record_submit E s tx =
   bind_r (decode_archival_record_submit_payload E (tx_payload tx)) (\<lambda>payload.
   if as_epoch_number payload > current_epoch_number (st_block_height s) then Err AE_ArchivalEpochInFuture
   else if get_archival_record s (as_epoch_number payload) \<noteq> None then Err AE_DuplicateArchivalRecord
   else
     let (m, n) = archival_threshold s;
         unique_signers = remdups (map fst (as_slh_sig_set payload))
     in if length unique_signers mod 2 ^ 32 < m then Err AE_ArchivalThresholdNotMet
        else if \<not> list_all (is_archival_signer s) (map fst (as_slh_sig_set payload))
        then Err AE_ArchivalSignerNotAuthorized
        else
          let preimage = archival_sig_preimage (e_xof E) (viper_research_1 (e_xof E))
                           (as_epoch_number payload) (as_epoch_root payload)
          in bind_r (verify_sig_set E s preimage (as_slh_sig_set payload) 0) (\<lambda>verified.
             if verified < m then Err AE_ArchivalThresholdNotMet
             else
               let sig_set = dedup_addr (sort_key fst (as_slh_sig_set payload))
               in Ok (insert_archival_record (e_xof E)
                    \<lparr> av_epoch_number = as_epoch_number payload, av_epoch_root = as_epoch_root payload,
                      av_signer_addresses = map fst sig_set, av_slh_signatures = map snd sig_set,
                      av_timestamp_anchors = [], av_evidence_record_version = 0 \<rparr> s)))"

definition apply_archival_record_add_anchor :: handler where
"apply_archival_record_add_anchor E s tx =
   bind_r (decode_archival_record_add_anchor_payload E (tx_payload tx)) (\<lambda>payload.
   bind_r (ok_or (anchor_kind_from_u8 (aa_anchor_kind payload)) AE_ArchivalUnknownAnchorKind) (\<lambda>kind.
   if length (aa_external_hash payload) > TIMESTAMP_ANCHOR_EXTERNAL_HASH_MAX_LEN
      \<or> length (aa_tst_bytes payload) > TIMESTAMP_ANCHOR_EXTERNAL_HASH_MAX_LEN
   then Err AE_ArchivalAnchorTooLarge
   else if get_archival_record s (aa_epoch_number payload) = None then Err AE_ArchivalRecordNotFound
   else Ok (push_archival_anchor (e_xof E) (aa_epoch_number payload)
     \<lparr> ta_kind = kind, ta_tsa_ref = None, ta_external_hash = aa_external_hash payload,
       ta_posted_at_height = st_block_height s \<rparr> s)))"

definition apply_archival_record_renew :: handler where
"apply_archival_record_renew E s tx =
   bind_r (decode_archival_record_renew_payload E (tx_payload tx)) (\<lambda>(epoch_number, ers_bundle_hash).
   let is_active = (case get_validator s (tx_sender tx) of
                      Some r \<Rightarrow> vr_status r = VS_Active | None \<Rightarrow> False)
   in if \<not> is_active \<and> \<not> is_archival_renewer s (tx_sender tx) then Err AE_ArchivalNotRenewer
      else if get_archival_record s epoch_number = None then Err AE_ArchivalRecordNotFound
      else Ok (increment_archival_record_version (e_xof E) epoch_number ers_bundle_hash (st_block_height s) s))"

section \<open>The handlers meet the contract\<close>

interpretation archival_key_h: payload_handler apply_validator_register_archival_key "\<lambda>E s tx. 0"
  by unfold_locales
     (auto simp: apply_validator_register_archival_key_def result_simps sound_def split: if_splits
      intro!: keeps_frame supply_frame wf_insert_archival_key ev_frames)

interpretation archival_anchor_h: payload_handler apply_archival_record_add_anchor "\<lambda>E s tx. 0"
  by unfold_locales
     (auto simp: apply_archival_record_add_anchor_def result_simps sound_def split: if_splits
      intro!: keeps_frame supply_frame wf_push_anchor ev_push_anchor)

interpretation archival_renew_h: payload_handler apply_archival_record_renew "\<lambda>E s tx. 0"
  by unfold_locales
     (auto simp: apply_archival_record_renew_def result_simps sound_def Let_def split: if_splits
      intro!: keeps_frame supply_frame wf_increment_version ev_increment_version)

lemma archival_submit_Ok:
  assumes "apply_archival_record_submit E s tx = Ok t"
  obtains p v where "decode_archival_record_submit_payload E (tx_payload tx) = Ok p"
    "as_epoch_number p \<le> current_epoch_number (st_block_height s)"
    "hget (st_archival_records s) (as_epoch_number p) = None"
    "fst (archival_threshold s) \<le> length (remdups (map fst (as_slh_sig_set p))) mod 2 ^ 32"
    "\<forall>a \<in> fst ` set (as_slh_sig_set p). is_archival_signer s a"
    "verify_sig_set E s (archival_sig_preimage (e_xof E) (viper_research_1 (e_xof E))
       (as_epoch_number p) (as_epoch_root p)) (as_slh_sig_set p) 0 = Ok v"
    "t = insert_archival_record (e_xof E)
       \<lparr> av_epoch_number = as_epoch_number p, av_epoch_root = as_epoch_root p,
         av_signer_addresses = map fst (dedup_addr (sort_key fst (as_slh_sig_set p))),
         av_slh_signatures = map snd (dedup_addr (sort_key fst (as_slh_sig_set p))),
         av_timestamp_anchors = [], av_evidence_record_version = 0 \<rparr> s"
  using assms
  by (auto simp: apply_archival_record_submit_def result_simps get_archival_record_def Let_def not_less
      list_all_iff split: if_splits prod.splits)

lemma archival_submit_insert:
  assumes "apply_archival_record_submit E s tx = Ok t"
  shows "\<exists>r. hget (st_archival_records s) (av_epoch_number r) = None \<and> t = insert_archival_record (e_xof E) r s"
  by (rule archival_submit_Ok [OF assms], rule exI, rule conjI [rotated], assumption, simp)

interpretation archival_submit_h: payload_handler apply_archival_record_submit "\<lambda>E s tx. 0"
proof
  fix E s tx t
  assume "apply_archival_record_submit E s tx = Ok t"
  then obtain r where new: "hget (st_archival_records s) (av_epoch_number r) = None"
    and t: "t = insert_archival_record (e_xof E) r s"
    using archival_submit_insert by blast
  show "keeps (e_xof E) s t" if "sound (e_xof E) s"
    unfolding t using that new
    by (auto simp: sound_def intro!: keeps_frame wf_insert_archival_record ev_insert_archival_record)
  show "total_supply t = total_supply s + 0" unfolding t by (auto intro!: supply_frame)
qed

section \<open>Properties\<close>

lemma dedup_addr_sub: "z \<in> set (dedup_addr xs) \<Longrightarrow> z \<in> set xs"
  by (induction xs rule: dedup_addr.induct) (simp_all split: if_splits, blast+)

lemma dedup_addr_fst: "fst ` set (dedup_addr xs) = fst ` set xs"
  by (induction xs rule: dedup_addr.induct) (simp_all split: if_splits)

lemma dedup_addr_strict:
  "sorted (map fst xs) \<Longrightarrow> sorted_wrt (<) (map fst (dedup_addr xs))"
proof (induction xs rule: dedup_addr.induct)
  case (1 x y rest)
  have le: "fst x \<le> fst y" "\<forall>z \<in> set rest. fst y \<le> fst z" "sorted (map fst (y # rest))"
    using 1(3) by simp_all
  show ?case
  proof (cases "fst y = fst x")
    case True
    have "sorted (map fst (x # rest))" using le True by simp
    with 1(1) True show ?thesis by simp
  next
    case False
    have "fst x < fst z" if "z \<in> set (dedup_addr (y # rest))" for z
    proof -
      have "fst x < fst y" using le(1) False by (simp add: order.not_eq_order_implies_strict)
      moreover have "fst y \<le> fst z" using dedup_addr_sub [OF that] le(2) by auto
      ultimately show ?thesis by (rule less_le_trans)
    qed
    with 1(2) [OF False le(3)] False show ?thesis by simp
  qed
qed simp_all

lemma verify_sig_set_Ok:
  "verify_sig_set E s preimage sigs v = Ok w \<Longrightarrow> (a, sg) \<in> set sigs \<Longrightarrow>
   \<exists>key alg. get_archival_key s a = Some key \<and> alg_from_u16 (vk_archival_alg_id key) = Some alg
     \<and> e_verify E (alg, vk_archival_pk key) preimage (alg, sg)"
  by (induction sigs arbitrary: v) (auto simp: result_simps split: if_splits)

text \<open>
  C35: what an accepted archival record certifies.  The epoch had no record and is not in the future;
  the stored signers are strictly sorted, all authorised, and at least as many as the threshold asks
  for; and every stored signature verifies, under the key its signer registered, over the preimage
  of exactly this epoch and root.
\<close>

theorem archival_record_quorum:
  assumes "apply_archival_record_submit E s tx = Ok t"
    and "decode_archival_record_submit_payload E (tx_payload tx) = Ok p"
  shows "get_archival_record s (as_epoch_number p) = None
    \<and> as_epoch_number p \<le> current_epoch_number (st_block_height s)
    \<and> (\<exists>r. get_archival_record t (as_epoch_number p) = Some r \<and> av_epoch_root r = as_epoch_root p
        \<and> sorted_wrt (<) (av_signer_addresses r)
        \<and> fst (archival_threshold s) \<le> length (av_signer_addresses r)
        \<and> length (av_slh_signatures r) = length (av_signer_addresses r)
        \<and> list_all (is_archival_signer s) (av_signer_addresses r)
        \<and> list_all (\<lambda>(a, sg). \<exists>key alg. get_archival_key s a = Some key
              \<and> alg_from_u16 (vk_archival_alg_id key) = Some alg
              \<and> e_verify E (alg, vk_archival_pk key)
                  (archival_sig_preimage (e_xof E) (viper_research_1 (e_xof E)) (as_epoch_number p) (as_epoch_root p))
                  (alg, sg))
            (zip (av_signer_addresses r) (av_slh_signatures r)))"
  using assms(1)
proof (rule archival_submit_Ok)
  fix q :: archival_record_submit_payload and v
  let ?set = "dedup_addr (sort_key fst (as_slh_sig_set q))"
  assume q: "decode_archival_record_submit_payload E (tx_payload tx) = Ok q"
    and new: "hget (st_archival_records s) (as_epoch_number q) = None"
      "as_epoch_number q \<le> current_epoch_number (st_block_height s)"
    and m: "fst (archival_threshold s) \<le> length (remdups (map fst (as_slh_sig_set q))) mod 2 ^ 32"
    and auth: "\<forall>a \<in> fst ` set (as_slh_sig_set q). is_archival_signer s a"
    and ver: "verify_sig_set E s (archival_sig_preimage (e_xof E) (viper_research_1 (e_xof E))
       (as_epoch_number q) (as_epoch_root q)) (as_slh_sig_set q) 0 = Ok v"
    and t: "t = insert_archival_record (e_xof E) \<lparr> av_epoch_number = as_epoch_number q,
         av_epoch_root = as_epoch_root q, av_signer_addresses = map fst ?set,
         av_slh_signatures = map snd ?set, av_timestamp_anchors = [], av_evidence_record_version = 0 \<rparr> s"
  have [simp]: "q = p" using q assms(2) by simp
  have strict: "sorted_wrt (<) (map fst ?set)" by (rule dedup_addr_strict) simp
  have sets: "fst ` set ?set = fst ` set (as_slh_sig_set q)" "set ?set \<subseteq> set (as_slh_sig_set q)"
    using dedup_addr_fst [of "sort_key fst (as_slh_sig_set q)"]
      dedup_addr_sub [of _ "sort_key fst (as_slh_sig_set q)"] by auto
  have "distinct (map fst ?set)" using strict by (simp add: strict_sorted_iff)
  from distinct_card [OF this] sets(1) have len: "length ?set = length (remdups (map fst (as_slh_sig_set q)))"
    by (simp add: length_remdups_card_conv)
  have m': "fst (archival_threshold s) \<le> length ?set"
    unfolding len by (rule order_trans [OF m mod_less_eq_dividend])
  have "\<forall>a \<in> set (map fst ?set). is_archival_signer s a" using auth unfolding set_map sets(1) .
  then have auth': "list_all (is_archival_signer s) (map fst ?set)" unfolding list_all_iff .
  have ver': "list_all (\<lambda>(a, sg). \<exists>key alg. get_archival_key s a = Some key
      \<and> alg_from_u16 (vk_archival_alg_id key) = Some alg
      \<and> e_verify E (alg, vk_archival_pk key) (archival_sig_preimage (e_xof E) (viper_research_1 (e_xof E))
           (as_epoch_number q) (as_epoch_root q)) (alg, sg)) ?set"
    unfolding list_all_iff using verify_sig_set_Ok [OF ver] sets(2) by blast
  let ?r = "\<lparr> av_epoch_number = as_epoch_number q, av_epoch_root = as_epoch_root q,
    av_signer_addresses = map fst ?set, av_slh_signatures = map snd ?set,
    av_timestamp_anchors = [], av_evidence_record_version = 0 \<rparr>"
  have "get_archival_record t (as_epoch_number q) = Some ?r"
    by (simp add: t get_archival_record_def insert_archival_record_def map_simps Let_def)
  then show ?thesis
    using new strict m' auth' ver'
    by (intro conjI exI [of _ ?r]) (simp_all add: get_archival_record_def zip_map_fst_snd)
qed

text \<open>One active validator with a registered archival key, and a record of epoch 0 that it signed.\<close>

definition arch_value :: "cbor list \<Rightarrow> cbor" where
"arch_value sigs = CMap [(CInt 1, CInt 0), (CInt 2, CInt 0), (CInt 3, CInt 59),
   (CInt 4, CBytes (replicate 32 7)), (CInt 5, CArray sigs)]"

definition arch_env :: "cbor list \<Rightarrow> env" where
"arch_env sigs = \<lparr> e_xof = \<lambda>d n. take n d, e_cbor_read = \<lambda>b. Ok (arch_value sigs),
   e_cbor_write = \<lambda>v. Ok [], e_verify = \<lambda>pk m sg. snd sg = [42] \<rparr>"

definition arch_store :: state_store where
"arch_store = (store_new (\<lambda>d n. take n d))
   \<lparr> st_validators := [(replicate 32 5, \<lparr> vr_operator = replicate 32 5, vr_node_id = [], vr_consensus_alg_id = MlDsa65,
        vr_consensus_pk = [], vr_self_bond = 10, vr_status = VS_Active, vr_registered_height = 0, vr_tombstoned = False \<rparr>)],
     st_archival_keys := [(replicate 32 5, \<lparr> vk_operator = replicate 32 5, vk_archival_alg_id = 0x22,
        vk_archival_pk = replicate 64 1, vk_registered_at_height = 0 \<rparr>)] \<rparr>"

definition arch_tx :: transaction where
"arch_tx = \<lparr> tx_version = 1, tx_chain_id = [], tx_msg_type = ArchivalRecordSubmit, tx_sender = replicate 32 5,
   tx_nonce = 0, tx_fee = 0, tx_fee_tip = 0, tx_gas_limit = 0, tx_payload = [1], tx_sig_alg_id = MlDsa65,
   tx_sig_key_version = 1, tx_signature = [] \<rparr>"

lemma arch_decodes:
  "decode_archival_record_submit_payload (arch_env []) [1] =
     Ok \<lparr> as_epoch_number = 0, as_first_height = 0, as_last_height = 59, as_epoch_root = replicate 32 7,
          as_slh_sig_set = [] \<rparr>"
  "decode_archival_record_submit_payload (arch_env [CArray [CBytes (replicate 32 5), CBytes [42]]]) [1] =
     Ok \<lparr> as_epoch_number = 0, as_first_height = 0, as_last_height = 59, as_epoch_root = replicate 32 7,
          as_slh_sig_set = [(replicate 32 5, [42])] \<rparr>"
  by (simp_all add: decode_archival_record_submit_payload_def lenient_map_def arch_env_def arch_value_def
      result_simps cbor_u64_def cbor_bytes_def need_def try_from_int_def width_simps)

lemmas arch_eval = apply_archival_record_submit_def arch_decodes arch_tx_def arch_store_def store_new_def
  archival_threshold_def get_archival_record_def is_archival_signer_def is_active_validator_def
  get_archival_key_def hvals_def hhas_def hget_def current_epoch_number_def VALIDATOR_EPOCH_DURATION_DEVNET_def

lemma arch_accepted:
  "\<exists>t. apply_archival_record_submit (arch_env [CArray [CBytes (replicate 32 5), CBytes [42]]]) arch_store arch_tx = Ok t"
  by (simp add: arch_eval saturating_add_def saturating_mul_def width_simps alg_from_u16_def)
     (simp add: arch_env_def saturating_add_def width_simps)

theorem archival_record_quorum_witness:
  "\<exists>t r. apply_archival_record_submit (arch_env [CArray [CBytes (replicate 32 5), CBytes [42]]]) arch_store arch_tx = Ok t
     \<and> get_archival_record t 0 = Some r \<and> sorted_wrt (<) (av_signer_addresses r)
     \<and> fst (archival_threshold arch_store) \<le> length (av_signer_addresses r)"
proof -
  obtain t where t: "apply_archival_record_submit (arch_env [CArray [CBytes (replicate 32 5), CBytes [42]]])
      arch_store arch_tx = Ok t" using arch_accepted by blast
  have "decode_archival_record_submit_payload (arch_env [CArray [CBytes (replicate 32 5), CBytes [42]]])
      (tx_payload arch_tx) = Ok \<lparr> as_epoch_number = 0, as_first_height = 0, as_last_height = 59,
        as_epoch_root = replicate 32 7, as_slh_sig_set = [(replicate 32 5, [42])] \<rparr>"
    by (simp add: arch_decodes arch_tx_def)
  from archival_record_quorum [OF t this] t show ?thesis by auto
qed

lemma hhas_Nil: "\<not> hhas [] k"
  by (simp add: hhas_def hget_def)

text \<open>
  while no active validator has an archival key the threshold is zero, and a record that nobody
  signed is accepted; it then occupies its epoch for good.
\<close>

theorem archival_empty_quorum:
  assumes "st_archival_threshold_m_of_n s = None" "st_archival_signer_set s = []" "st_archival_keys s = []"
    and "decode_archival_record_submit_payload E (tx_payload tx) = Ok p" "as_slh_sig_set p = []"
    and "as_epoch_number p \<le> current_epoch_number (st_block_height s)"
    and "get_archival_record s (as_epoch_number p) = None"
  shows "\<exists>t r. apply_archival_record_submit E s tx = Ok t
    \<and> get_archival_record t (as_epoch_number p) = Some r \<and> av_slh_signatures r = []"
  using assms
  by (simp add: apply_archival_record_submit_def archival_threshold_def hhas_Nil not_less
      saturating_add_def saturating_mul_def width_simps get_archival_record_def insert_archival_record_def
      result_simps map_simps Let_def)

theorem archival_empty_quorum_witness:
  "\<exists>t r. apply_archival_record_submit (arch_env []) (store_new (\<lambda>d n. take n d)) arch_tx = Ok t
     \<and> get_archival_record t 0 = Some r \<and> av_slh_signatures r = []"
proof -
  have "decode_archival_record_submit_payload (arch_env []) (tx_payload arch_tx) =
     Ok \<lparr> as_epoch_number = 0, as_first_height = 0, as_last_height = 59, as_epoch_root = replicate 32 7,
          as_slh_sig_set = [] \<rparr>" by (simp add: arch_decodes arch_tx_def)
  from archival_empty_quorum [OF _ _ _ this, of "store_new (\<lambda>d n. take n d)"] show ?thesis
    by (simp add: store_new_def get_archival_record_def hget_def)
qed

end
