(* ===== verification/Governance.thy ===== *)
theory Governance
  imports Apply_Account
begin

text \<open>
  On-chain governance, \<open>apply/governance.rs\<close>: proposals, votes, the tally that runs once a block, the
  executors of the effects, and the check of pending software upgrades.
\<close>

section \<open>Payloads\<close>

text \<open>The local variables of \<open>decode_proposal_payload\<close>.\<close>

record proposal_fields =
  pf_type :: "nat option"
  pf_alg_id :: "nat option"
  pf_target_lifecycle :: "lifecycle option"
  pf_new_min_fee :: "nat option"
  pf_rationale_hash :: "hash32 option"
  pf_burn_rate :: "nat option"
  pf_gas_limit :: "nat option"
  pf_activate_at :: "nat option"
  pf_expected_version :: "nat option"
  pf_alg_spec_ref :: "string option"
  pf_alg_pk_size :: "nat option"
  pf_alg_sig_size :: "nat option"
  pf_alg_sig_class :: "nat option"
  pf_alg_lifecycle :: "lifecycle option"
  pf_alg_benchmark :: "nat option"
  pf_slash_evidence_type :: "nat option"
  pf_slash_spec_ref :: "string option"
  pf_slash_fraction :: "nat option"
  pf_slash_jail :: "nat option"
  pf_slash_tombstone :: "bool option"
  pf_slash_lifecycle :: "lifecycle option"
  pf_hash_id :: "nat option"
  pf_hash_spec_ref :: "string option"
  pf_hash_output_size :: "nat option"
  pf_hash_lifecycle :: "lifecycle option"

definition no_fields :: proposal_fields where
"no_fields = \<lparr> pf_type = None, pf_alg_id = None, pf_target_lifecycle = None, pf_new_min_fee = None,
   pf_rationale_hash = None, pf_burn_rate = None, pf_gas_limit = None, pf_activate_at = None,
   pf_expected_version = None, pf_alg_spec_ref = None, pf_alg_pk_size = None, pf_alg_sig_size = None,
   pf_alg_sig_class = None, pf_alg_lifecycle = None, pf_alg_benchmark = None,
   pf_slash_evidence_type = None, pf_slash_spec_ref = None, pf_slash_fraction = None, pf_slash_jail = None,
   pf_slash_tombstone = None, pf_slash_lifecycle = None, pf_hash_id = None, pf_hash_spec_ref = None,
   pf_hash_output_size = None, pf_hash_lifecycle = None \<rparr>"

fun expect_text :: "cbor \<Rightarrow> (string, apply_error) result" where
"expect_text (CText s) = Ok s" |
"expect_text _ = pderr ''expected text string''"

definition target_lifecycle_of :: "nat \<Rightarrow> (lifecycle, apply_error) result" where
"target_lifecycle_of raw =
   (if raw = 1 then Ok LC_Discouraged else if raw = 2 then Ok LC_Deprecated
    else if raw = 3 then Ok LC_Banned else Err AE_InvalidLifecycleTransition)"

definition initial_lifecycle_of :: "nat \<Rightarrow> (lifecycle, apply_error) result" where
"initial_lifecycle_of raw =
   (if raw = 0 then Ok LC_Active else if raw = 1 then Ok LC_Discouraged else Err AE_InvalidInitialLifecycle)"

definition proposal_field :: "int \<Rightarrow> cbor \<Rightarrow> proposal_fields \<Rightarrow> (proposal_fields, apply_error) result" where
"proposal_field key v f =
   (if key = 1 then bind_r (decode_uint U8_MAX ''proposal_type out of u8 range'' v) (\<lambda>n. Ok (f\<lparr> pf_type := Some n \<rparr>))
    else if key = 2 then bind_r (decode_uint U16_MAX ''alg_id out of u16 range'' v) (\<lambda>n. Ok (f\<lparr> pf_alg_id := Some n \<rparr>))
    else if key = 3 then bind_r (decode_uint U8_MAX ''target_lifecycle out of u8 range'' v) (\<lambda>n.
      bind_r (target_lifecycle_of n) (\<lambda>lc. Ok (f\<lparr> pf_target_lifecycle := Some lc \<rparr>)))
    else if key = 4 then bind_r (decode_uint U64_MAX ''new_min_fee out of u64 range'' v)
      (\<lambda>n. Ok (f\<lparr> pf_new_min_fee := Some n \<rparr>))
    else if key \<in> {5, 100, 101, 102} then Ok f
    else if key = 6 then bind_r (expect_hash32 v) (\<lambda>h. Ok (f\<lparr> pf_rationale_hash := Some h \<rparr>))
    else if key = 7 then bind_r (decode_uint U16_MAX ''new_burn_rate_bps out of u16 range'' v) (\<lambda>n.
      if n > 10000 then Err AE_BurnRateOutOfRange else Ok (f\<lparr> pf_burn_rate := Some n \<rparr>))
    else if key = 8 then bind_r (decode_uint U64_MAX ''new_block_gas_limit out of u64 range'' v) (\<lambda>n.
      if n = 0 then Err AE_BlockGasLimitZero else Ok (f\<lparr> pf_gas_limit := Some n \<rparr>))
    else if key = 9 then bind_r (decode_uint U64_MAX ''activate_at_timestamp_ns out of u64 range'' v)
      (\<lambda>n. Ok (f\<lparr> pf_activate_at := Some n \<rparr>))
    else if key = 10 then bind_r (decode_uint U16_MAX ''expected_version out of u16 range'' v)
      (\<lambda>n. Ok (f\<lparr> pf_expected_version := Some n \<rparr>))
    else if key = 11 then bind_r (expect_text v) (\<lambda>t. Ok (f\<lparr> pf_alg_spec_ref := Some t \<rparr>))
    else if key = 12 then bind_r (decode_uint U32_MAX ''pk_size out of u32 range'' v)
      (\<lambda>n. Ok (f\<lparr> pf_alg_pk_size := Some n \<rparr>))
    else if key = 13 then bind_r (decode_uint U32_MAX ''sig_size out of u32 range'' v)
      (\<lambda>n. Ok (f\<lparr> pf_alg_sig_size := Some n \<rparr>))
    else if key = 14 then bind_r (decode_uint U8_MAX ''sig_class out of u8 range'' v)
      (\<lambda>n. Ok (f\<lparr> pf_alg_sig_class := Some n \<rparr>))
    else if key = 15 then bind_r (decode_uint U8_MAX ''initial_lifecycle out of u8 range'' v) (\<lambda>n.
      bind_r (initial_lifecycle_of n) (\<lambda>lc. Ok (f\<lparr> pf_alg_lifecycle := Some lc \<rparr>)))
    else if key = 16 then bind_r (decode_uint U32_MAX ''benchmark_verify_per_sec out of u32 range'' v)
      (\<lambda>n. Ok (f\<lparr> pf_alg_benchmark := Some n \<rparr>))
    else if key = 30 then bind_r (decode_uint U8_MAX ''evidence_type out of u8 range'' v)
      (\<lambda>n. Ok (f\<lparr> pf_slash_evidence_type := Some n \<rparr>))
    else if key = 31 then bind_r (expect_text v) (\<lambda>t. Ok (f\<lparr> pf_slash_spec_ref := Some t \<rparr>))
    else if key = 32 then bind_r (decode_uint U16_MAX ''slash_fraction_bps out of u16 range'' v) (\<lambda>n.
      if n > 10000 then Err AE_InvalidSlashingFraction else Ok (f\<lparr> pf_slash_fraction := Some n \<rparr>))
    else if key = 33 then bind_r (decode_uint U64_MAX ''jail_duration_blocks out of u64 range'' v)
      (\<lambda>n. Ok (f\<lparr> pf_slash_jail := Some n \<rparr>))
    else if key = 34 then bind_r (decode_uint U8_MAX ''tombstone out of u8 range'' v)
      (\<lambda>n. Ok (f\<lparr> pf_slash_tombstone := Some (n \<noteq> 0) \<rparr>))
    else if key = 35 then bind_r (decode_uint U8_MAX ''slashing lifecycle out of u8 range'' v) (\<lambda>n.
      bind_r (initial_lifecycle_of n) (\<lambda>lc. Ok (f\<lparr> pf_slash_lifecycle := Some lc \<rparr>)))
    else if key = 40 then bind_r (decode_uint U8_MAX ''hash_id out of u8 range'' v)
      (\<lambda>n. Ok (f\<lparr> pf_hash_id := Some n \<rparr>))
    else if key = 41 then bind_r (expect_text v) (\<lambda>t. Ok (f\<lparr> pf_hash_spec_ref := Some t \<rparr>))
    else if key = 42 then bind_r (decode_uint U32_MAX ''output_size_bytes out of u32 range'' v)
      (\<lambda>n. Ok (f\<lparr> pf_hash_output_size := Some n \<rparr>))
    else if key = 43 then bind_r (decode_uint U8_MAX ''hash lifecycle out of u8 range'' v) (\<lambda>n.
      bind_r (initial_lifecycle_of n) (\<lambda>lc. Ok (f\<lparr> pf_hash_lifecycle := Some lc \<rparr>)))
    else unknown_key key)"

definition ADD_ALG_MAX_KEY_SIZE :: nat where
"ADD_ALG_MAX_KEY_SIZE = 256 * 1024"

definition or_default :: "nat \<Rightarrow> nat option \<Rightarrow> nat" where
"or_default d x = (case x of None \<Rightarrow> d | Some n \<Rightarrow> n)"

definition add_algorithm_effect :: "proposal_fields \<Rightarrow> (proposal_effect, apply_error) result" where
"add_algorithm_effect f =
   bind_r (need (pf_alg_id f) ''missing field 2 (alg_id) for AddAlgorithm'') (\<lambda>alg_id_val.
   if alg_id_val \<le> 0x000F then Err (AE_ReservedAlgIdRange alg_id_val)
   else bind_r (need (pf_alg_spec_ref f) ''missing field 11 (spec_ref) for AddAlgorithm'') (\<lambda>spec_ref.
   bind_r (need (pf_alg_pk_size f) ''missing field 12 (pk_size) for AddAlgorithm'') (\<lambda>pk_size.
   bind_r (need (pf_alg_sig_size f) ''missing field 13 (sig_size) for AddAlgorithm'') (\<lambda>sig_size.
   bind_r (need (pf_alg_lifecycle f) ''missing field 15 (initial_lifecycle) for AddAlgorithm'') (\<lambda>initial_lifecycle.
   if pk_size = 0 \<or> sig_size = 0 \<or> pk_size \<ge> ADD_ALG_MAX_KEY_SIZE \<or> sig_size \<ge> ADD_ALG_MAX_KEY_SIZE
   then Err AE_InvalidSize
   else Ok (PE_AddAlgorithm
     \<lparr> aa_alg_id = alg_id_val, aa_spec_ref = spec_ref, aa_pk_size = pk_size, aa_sig_size = sig_size,
       aa_sig_class = pf_alg_sig_class f, aa_min_fee = or_default 0 (pf_new_min_fee f),
       aa_benchmark_verify_per_sec = or_default 0 (pf_alg_benchmark f),
       aa_initial_lifecycle = initial_lifecycle \<rparr>))))))"

definition add_slashing_verifier_effect :: "proposal_fields \<Rightarrow> (proposal_effect, apply_error) result" where
"add_slashing_verifier_effect f =
   bind_r (need (pf_slash_evidence_type f) ''missing field 30 (evidence_type) for AddSlashingVerifier'') (\<lambda>evidence_type.
   if evidence_type = 0 \<or> evidence_type \<le> SLASHING_CORE_RESERVED_MAX
   then Err (AE_ReservedSlashingEvidenceType evidence_type)
   else bind_r (need (pf_slash_spec_ref f) ''missing field 31 (spec_ref) for AddSlashingVerifier'') (\<lambda>spec_ref.
   bind_r (need (pf_slash_fraction f) ''missing field 32 (slash_fraction_bps) for AddSlashingVerifier'') (\<lambda>bps.
   bind_r (need (pf_slash_lifecycle f) ''missing field 35 (lifecycle) for AddSlashingVerifier'') (\<lambda>lc.
   Ok (PE_AddSlashingVerifier
     \<lparr> sp_evidence_type = evidence_type, sp_spec_ref = spec_ref, sp_slash_fraction_bps = bps,
       sp_jail_duration_blocks = or_default 0 (pf_slash_jail f),
       sp_tombstone = (case pf_slash_tombstone f of None \<Rightarrow> False | Some b \<Rightarrow> b), sp_lifecycle = lc \<rparr>)))))"

definition add_hash_effect :: "proposal_fields \<Rightarrow> (proposal_effect, apply_error) result" where
"add_hash_effect f =
   bind_r (need (pf_hash_id f) ''missing field 40 (hash_id) for AddHash'') (\<lambda>hash_byte.
   if hash_byte = HASH_ID_SENTINEL \<or> hash_byte \<le> HASH_CORE_RESERVED_MAX then Err (AE_ReservedHashIdRange hash_byte)
   else bind_r (ok_or (hash_id_from_u8 hash_byte) (AE_ReservedHashIdRange hash_byte)) (\<lambda>hash_id.
   bind_r (need (pf_hash_spec_ref f) ''missing field 41 (spec_ref) for AddHash'') (\<lambda>spec_ref.
   bind_r (need (pf_hash_output_size f) ''missing field 42 (output_size_bytes) for AddHash'') (\<lambda>output_size_bytes.
   bind_r (need (pf_hash_lifecycle f) ''missing field 43 (initial_lifecycle) for AddHash'') (\<lambda>initial_lifecycle.
   if output_size_bytes = 0 \<or> output_size_bytes \<ge> ADD_ALG_MAX_KEY_SIZE then Err AE_InvalidSize
   else Ok (PE_AddHash
     \<lparr> ah_hash_id = hash_id, ah_spec_ref = spec_ref, ah_output_size_bytes = output_size_bytes,
       ah_initial_lifecycle = initial_lifecycle \<rparr>))))))"

definition proposal_effect_of :: "proposal_type \<Rightarrow> proposal_fields \<Rightarrow> (proposal_effect, apply_error) result" where
"proposal_effect_of typ f =
   (case typ of
      PT_RegistryUpdate \<Rightarrow>
        bind_r (need (pf_alg_id f) ''missing field 2 (alg_id) for RegistryUpdate'') (\<lambda>alg_id_val.
        bind_r (ok_or (alg_from_u16 alg_id_val) AE_UnsupportedAlgorithm) (\<lambda>alg.
        if pf_target_lifecycle f = None \<and> pf_new_min_fee f = None then Err AE_GovernanceNoEffect
        else Ok (PE_RegistryUpdate alg (pf_target_lifecycle f) (pf_new_min_fee f))))
    | PT_BurnRateUpdate \<Rightarrow>
        bind_r (need (pf_burn_rate f) ''missing field 7 (new_burn_rate_bps) for BurnRateUpdate'') (\<lambda>bps.
        Ok (PE_BurnRateUpdate bps))
    | PT_FeeParamUpdate \<Rightarrow>
        bind_r (need (pf_gas_limit f) ''missing field 8 (new_block_gas_limit) for FeeParamUpdate'') (\<lambda>limit.
        Ok (PE_FeeParamUpdate limit))
    | PT_SoftwareUpgrade \<Rightarrow>
        bind_r (need (pf_activate_at f) ''missing field 9 (activate_at_timestamp_ns) for SoftwareUpgrade'') (\<lambda>ts.
        bind_r (need (pf_expected_version f) ''missing field 10 (expected_version) for SoftwareUpgrade'') (\<lambda>version.
        Ok (PE_SoftwareUpgrade ts version)))
    | PT_AddAlgorithm \<Rightarrow> add_algorithm_effect f
    | PT_AddSlashingVerifier \<Rightarrow> add_slashing_verifier_effect f
    | PT_AddHash \<Rightarrow> add_hash_effect f
    | PT_AddAuthTemplate \<Rightarrow> Err AE_ProposalOutOfScope)"

definition decode_proposal_payload ::
    "env \<Rightarrow> bytes \<Rightarrow> (proposal_type \<times> proposal_effect \<times> hash32, apply_error) result" where
"decode_proposal_payload E payload =
   bind_r (payload_map E payload) (\<lambda>m.
   bind_r (decode_loop proposal_field m no_fields) (\<lambda>f.
   bind_r (need (pf_rationale_hash f) ''missing field 6 (rationale_hash)'') (\<lambda>rationale_hash.
   bind_r (need (pf_type f) ''missing field 1 (proposal_type)'') (\<lambda>raw.
   bind_r (ok_or (proposal_type_from_u8 raw) AE_ProposalOutOfScope) (\<lambda>typ.
   bind_r (proposal_effect_of typ f) (\<lambda>effect.
   Ok (typ, effect, rationale_hash)))))))"

fun vote_loop :: "(cbor \<times> cbor) list \<Rightarrow> hash32 option \<times> bool option
    \<Rightarrow> (hash32 option \<times> bool option, apply_error) result" where
"vote_loop [] acc = Ok acc" |
"vote_loop ((k, v) # rest) (pid, vote) =
   (case k of
      CInt key \<Rightarrow>
        if key = 1 then bind_r (expect_hash32 v) (\<lambda>h. vote_loop rest (Some h, vote))
        else if key = 2 then bind_r (decode_uint U8_MAX ''vote field out of u8 range'' v)
          (\<lambda>raw. vote_loop rest (pid, Some (raw = 1)))
        else pderr (''unknown vote payload key: '' @ dec_int key)
    | _ \<Rightarrow> pderr ''non-integer map key in vote'')"

definition decode_vote_payload :: "env \<Rightarrow> bytes \<Rightarrow> (hash32 \<times> bool, apply_error) result" where
"decode_vote_payload E payload =
   (if payload = [] then pderr ''empty vote payload''
    else bind_r (map_err AE_PayloadDecode (e_cbor_read E payload)) (\<lambda>value.
    bind_r (case value of CMap m \<Rightarrow> Ok m | _ \<Rightarrow> pderr ''vote payload must be a CBOR map'') (\<lambda>m.
    bind_r (vote_loop m (None, None)) (\<lambda>(pid, vote).
    bind_r (need pid ''missing field 1 (proposal_id) in vote'') (\<lambda>pid.
    bind_r (need vote ''missing field 2 (vote) in vote'') (\<lambda>vote. Ok (pid, vote)))))))"

section \<open>Proposals and votes\<close>

definition GOVERNANCE_VOTING_PERIOD :: nat where
"GOVERNANCE_VOTING_PERIOD = 5"

definition GOVERNANCE_TIMELOCK :: nat where
"GOVERNANCE_TIMELOCK = 0"

definition quorum_required :: "nat \<Rightarrow> nat" where
"quorum_required active_count = (if active_count = 0 then 1 else (2 * active_count + 2) div 3)"

definition apply_governance_proposal :: handler where
"apply_governance_proposal E s tx =
   bind_r (tx_identifier E tx) (\<lambda>proposal_id.
   if get_pending_proposal s proposal_id \<noteq> None then Err AE_DuplicateProposal
   else bind_r (decode_proposal_payload E (tx_payload tx)) (\<lambda>(typ, effect, rationale_hash).
   let voting_deadline = saturating_add U64_MAX (st_block_height s) GOVERNANCE_VOTING_PERIOD;
       execute_after = saturating_add U64_MAX voting_deadline GOVERNANCE_TIMELOCK
   in Ok (insert_pending_proposal (e_xof E)
        \<lparr> pp_proposal_id = proposal_id, pp_proposal_type = typ, pp_proposer = tx_sender tx,
          pp_voting_deadline = voting_deadline, pp_execute_after = execute_after, pp_effect = effect,
          pp_votes = [], pp_status = PS_Voting, pp_rationale_hash = rationale_hash \<rparr> s)))"

definition apply_governance_vote :: handler where
"apply_governance_vote E s tx =
   bind_r (decode_vote_payload E (tx_payload tx)) (\<lambda>(proposal_id, vote_yes).
   bind_r (ok_or (get_pending_proposal s proposal_id) AE_ProposalNotFound) (\<lambda>proposal.
   if pp_status proposal \<noteq> PS_Voting then Err AE_ProposalNotVoting
   else if st_block_height s > pp_voting_deadline proposal then Err AE_VotingPeriodClosed
   else if \<not> is_active_validator s (tx_sender tx) then Err AE_NotAnActiveValidatorForVote
   else if hhas (pp_votes proposal) (tx_sender tx) then Err AE_AlreadyVoted
   else Ok (commit_proposal_mutation (e_xof E) proposal_id (pending_proposal_mut proposal_id
          (proposal\<lparr> pp_votes := hput (tx_sender tx) vote_yes (pp_votes proposal) \<rparr>) s))))"

section \<open>Executors\<close>

text \<open>An executor returns the new state and whether the effect was applied.\<close>

definition valid_transition :: "lifecycle \<Rightarrow> lifecycle \<Rightarrow> bool" where
"valid_transition before target =
   ((before, target) \<in> {(LC_Active, LC_Discouraged), (LC_Discouraged, LC_Deprecated), (LC_Deprecated, LC_Banned)})"

definition initial_ok :: "lifecycle \<Rightarrow> bool" where
"initial_ok lc = (lc = LC_Active \<or> lc = LC_Discouraged)"

definition execute_registry_update ::
    "xof \<Rightarrow> hash32 \<Rightarrow> alg_id \<Rightarrow> lifecycle option \<Rightarrow> nat option \<Rightarrow> pending_proposal \<Rightarrow> nat
     \<Rightarrow> state_store \<Rightarrow> state_store \<times> bool" where
"execute_registry_update X proposal_id alg target_lifecycle new_min_fee proposal executed_at_height s =
   (case get_alg_entry s alg of
      None \<Rightarrow> (s, False)
    | Some entry \<Rightarrow>
        if (case target_lifecycle of
              Some target \<Rightarrow> \<not> valid_transition (ae_lifecycle entry) target | None \<Rightarrow> False)
        then (s, False)
        else
          let entry' = entry\<lparr> ae_lifecycle := (case target_lifecycle of Some lc \<Rightarrow> lc | None \<Rightarrow> ae_lifecycle entry),
                              ae_min_fee := or_default (ae_min_fee entry) new_min_fee \<rparr>;
              s1 = commit_alg_entry_mutation X alg (alg_entry_mut alg entry' s)
          in (insert_governance_receipt X
                \<lparr> gr_proposal_id = proposal_id, gr_proposal_type = pp_proposal_type proposal,
                  gr_proposer = pp_proposer proposal, gr_target_alg_id = alg,
                  gr_lifecycle_before = ae_lifecycle entry, gr_lifecycle_after = ae_lifecycle entry',
                  gr_min_fee_before = ae_min_fee entry, gr_min_fee_after = ae_min_fee entry',
                  gr_rationale_hash = pp_rationale_hash proposal,
                  gr_executed_at_height = executed_at_height \<rparr> s1, True))"

definition execute_add_algorithm :: "xof \<Rightarrow> add_algorithm_proposal \<Rightarrow> state_store \<Rightarrow> state_store \<times> bool" where
"execute_add_algorithm X p s =
   (if aa_alg_id p \<le> 0x000F then (s, False)
    else if alg_entry_registered s (aa_alg_id p) then (s, False)
    else if aa_pk_size p = 0 \<or> aa_sig_size p = 0 \<or> aa_pk_size p \<ge> ADD_ALG_MAX_KEY_SIZE
            \<or> aa_sig_size p \<ge> ADD_ALG_MAX_KEY_SIZE then (s, False)
    else if \<not> initial_ok (aa_initial_lifecycle p) then (s, False)
    else case alg_from_u16 (aa_alg_id p) of
        None \<Rightarrow> (s, False)
      | Some alg_id_typed \<Rightarrow>
          case (case aa_sig_class p of Some raw \<Rightarrow> decode_sig_class raw | None \<Rightarrow> Some None) of
            None \<Rightarrow> (s, False)
          | Some cls \<Rightarrow>
              (insert_alg_entry X (new_governance_alg alg_id_typed (aa_spec_ref p) (aa_pk_size p) (aa_sig_size p)
                 cls (aa_min_fee p) (aa_initial_lifecycle p) (aa_benchmark_verify_per_sec p)) s, True))"

definition execute_add_slashing_verifier ::
    "xof \<Rightarrow> slashing_verifier_proposal \<Rightarrow> state_store \<Rightarrow> state_store \<times> bool" where
"execute_add_slashing_verifier X p s =
   (if sp_evidence_type p = 0 \<or> sp_evidence_type p \<le> SLASHING_CORE_RESERVED_MAX then (s, False)
    else if slashing_verifier_registered s (sp_evidence_type p) then (s, False)
    else if sp_slash_fraction_bps p > 10000 then (s, False)
    else if \<not> initial_ok (sp_lifecycle p) then (s, False)
    else (insert_slashing_verifier_entry X
      \<lparr> se_evidence_type = sp_evidence_type p, se_spec_ref = sp_spec_ref p,
        se_slash_fraction_bps = sp_slash_fraction_bps p, se_jail_duration_blocks = sp_jail_duration_blocks p,
        se_tombstone = sp_tombstone p, se_lifecycle = sp_lifecycle p \<rparr> s, True))"

definition execute_add_hash :: "xof \<Rightarrow> add_hash_proposal \<Rightarrow> state_store \<Rightarrow> state_store \<times> bool" where
"execute_add_hash X p s =
   (if ah_hash_id p = HASH_ID_SENTINEL \<or> ah_hash_id p \<le> HASH_CORE_RESERVED_MAX then (s, False)
    else if hash_registered s (ah_hash_id p) then (s, False)
    else if ah_output_size_bytes p = 0 \<or> ah_output_size_bytes p \<ge> ADD_ALG_MAX_KEY_SIZE then (s, False)
    else if \<not> initial_ok (ah_initial_lifecycle p) then (s, False)
    else (insert_hash_entry X
      \<lparr> he_hash_id = ah_hash_id p, he_spec_ref = ah_spec_ref p,
        he_output_size_bytes = ah_output_size_bytes p, he_lifecycle = ah_initial_lifecycle p \<rparr> s, True))"

definition execute_add_auth_template :: "add_auth_template_proposal \<Rightarrow> state_store \<Rightarrow> state_store \<times> bool" where
"execute_add_auth_template p s =
   (if ap_template_id p = 0 \<or> ap_template_id p \<le> VERIFIER_TEMPLATE_CORE_RESERVED_MAX
       \<or> ap_template_id p < VERIFIER_TEMPLATE_GOV_MIN then (s, False)
    else if \<not> initial_ok (ap_lifecycle p) then (s, False)
    else (s, True))"

section \<open>Tally\<close>

definition execute_effect :: "xof \<Rightarrow> hash32 \<Rightarrow> pending_proposal \<Rightarrow> nat \<Rightarrow> state_store \<Rightarrow> state_store \<times> bool" where
"execute_effect X i proposal current_height s =
   (case pp_effect proposal of
      PE_RegistryUpdate alg target_lifecycle new_min_fee \<Rightarrow>
        execute_registry_update X i alg target_lifecycle new_min_fee proposal current_height s
    | PE_BurnRateUpdate bps \<Rightarrow>
        (recompute_fee_market_leaf_hash X
           (s\<lparr> st_fee_market := (st_fee_market s)\<lparr> fm_burn_rate_bps := bps \<rparr> \<rparr>), True)
    | PE_FeeParamUpdate limit \<Rightarrow>
        (recompute_fee_market_leaf_hash X
           (s\<lparr> st_fee_market := (st_fee_market s)\<lparr> fm_compute :=
                 (fm_compute (st_fee_market s))\<lparr> fd_limit := limit \<rparr> \<rparr> \<rparr>), True)
    | PE_SoftwareUpgrade ts version \<Rightarrow>
        (insert_pending_upgrade X
           \<lparr> pu_proposal_id = i, pu_activate_at_timestamp_ns = ts, pu_expected_version = version \<rparr> s, True)
    | PE_AddAlgorithm p \<Rightarrow> execute_add_algorithm X p s
    | PE_AddSlashingVerifier p \<Rightarrow> execute_add_slashing_verifier X p s
    | PE_AddHash p \<Rightarrow> execute_add_hash X p s
    | PE_AddAuthTemplate p \<Rightarrow> execute_add_auth_template p s)"

definition yes_count :: "pending_proposal \<Rightarrow> nat" where
"yes_count p = length (filter (\<lambda>v. v) (hvals (pp_votes p)))"

definition no_count :: "pending_proposal \<Rightarrow> nat" where
"no_count p = length (filter (\<lambda>v. \<not> v) (hvals (pp_votes p)))"

text \<open>A write of the status, through \<open>get_pending_proposal_mut\<close>, when the proposal is there.\<close>

definition set_status :: "hash32 \<Rightarrow> proposal_status \<Rightarrow> state_store \<Rightarrow> state_store" where
"set_status i st s =
   (case get_pending_proposal s i of
      None \<Rightarrow> s | Some p \<Rightarrow> pending_proposal_mut i (p\<lparr> pp_status := st \<rparr>) s)"

definition tally_one :: "xof \<Rightarrow> nat \<Rightarrow> hash32 \<Rightarrow> state_store \<Rightarrow> state_store" where
"tally_one X current_height i s =
   (let required = quorum_required (active_validator_count s) in
    case get_pending_proposal s i of
      None \<Rightarrow> s
    | Some proposal \<Rightarrow>
        let total_cast = yes_count proposal + no_count proposal;
            passes = (total_cast \<ge> required \<and> yes_count proposal > no_count proposal)
        in if passes then
             (case execute_effect X i proposal current_height s of
                (s1, effect_applied) \<Rightarrow>
                  commit_proposal_mutation X i
                    (set_status i (if effect_applied then PS_Executed else PS_ExecutionFailed) s1))
           else
             commit_proposal_mutation X i
               (set_status i (if total_cast \<ge> required then PS_Rejected else PS_Expired) s))"

definition process_governance_tallies :: "xof \<Rightarrow> nat \<Rightarrow> state_store \<Rightarrow> state_store" where
"process_governance_tallies X current_height s =
   (let ids_to_process = map pp_proposal_id
          (filter (\<lambda>p. pp_status p = PS_Voting \<and> pp_voting_deadline p < current_height)
             (pending_proposals_in_order s))
    in fold (tally_one X current_height) ids_to_process s)"

section \<open>Pending upgrades\<close>

fun upgrade_loop :: "nat \<Rightarrow> pending_upgrade list \<Rightarrow> state_store \<Rightarrow> (state_store, apply_error) result" where
"upgrade_loop compiled_version [] s = Ok s" |
"upgrade_loop compiled_version (u # rest) s =
   (if compiled_version \<noteq> pu_expected_version u
    then Err (AE_SoftwareUpgradeVersionMismatch (pu_activate_at_timestamp_ns u) (pu_expected_version u)
                compiled_version)
    else upgrade_loop compiled_version rest (remove_pending_upgrade (pu_proposal_id u) s))"

definition check_pending_upgrades :: "nat \<Rightarrow> nat \<Rightarrow> state_store \<Rightarrow> (state_store, apply_error) result" where
"check_pending_upgrades current_timestamp_ns compiled_version s =
   upgrade_loop compiled_version
     (filter (\<lambda>u. pu_activate_at_timestamp_ns u \<le> current_timestamp_ns) (pending_upgrades_in_order s)) s"

section \<open>The handlers meet the contract\<close>

lemma prop_le_vote:
  assumes "pp_status p = PS_Voting" "\<not> hhas (pp_votes p) a"
  shows "prop_le p (p\<lparr> pp_votes := hput a b (pp_votes p) \<rparr>)"
  using assms by (auto simp: prop_le_def hhas_def map_simps)

interpretation proposal_h: payload_handler apply_governance_proposal "\<lambda>E s tx. 0"
  by unfold_locales
     (auto simp: apply_governance_proposal_def result_simps get_pending_proposal_def Let_def sound_def
      split: if_splits intro!: keeps_frame supply_frame wf_insert_proposal ev_insert_proposal)

lemma vote_Ok:
  assumes "apply_governance_vote E s tx = Ok t"
  obtains i b p where "decode_vote_payload E (tx_payload tx) = Ok (i, b)" "hget (st_pending_proposals s) i = Some p"
    "pp_status p = PS_Voting" "st_block_height s \<le> pp_voting_deadline p" "is_active_validator s (tx_sender tx)"
    "\<not> hhas (pp_votes p) (tx_sender tx)"
    "t = commit_proposal_mutation (e_xof E) i (pending_proposal_mut i
       (p\<lparr> pp_votes := hput (tx_sender tx) b (pp_votes p) \<rparr>) s)"
  using assms
  by (auto simp: apply_governance_vote_def result_simps get_pending_proposal_def not_less split: if_splits)

lemma keyed_proposal:
  "store_wf X s \<Longrightarrow> hget (st_pending_proposals s) i = Some p \<Longrightarrow> pp_proposal_id p = i"
  by (auto simp: store_wf_def dest: keyedD)

interpretation vote_h: payload_handler apply_governance_vote "\<lambda>E s tx. 0"
proof
  fix E s tx t
  assume "apply_governance_vote E s tx = Ok t"
  then obtain i b p where p: "hget (st_pending_proposals s) i = Some p" "pp_status p = PS_Voting"
      "\<not> hhas (pp_votes p) (tx_sender tx)"
    and t: "t = commit_proposal_mutation (e_xof E) i (pending_proposal_mut i
       (p\<lparr> pp_votes := hput (tx_sender tx) b (pp_votes p) \<rparr>) s)"
    by (rule vote_Ok) blast
  show "keeps (e_xof E) s t" if "sound (e_xof E) s"
    unfolding t using that p keyed_proposal [of "e_xof E" s i p]
    by (auto simp: sound_def intro!: keeps_frame wf_write_proposal ev_write_proposal prop_le_vote)
  show "total_supply t = total_supply s + 0" unfolding t by (auto intro!: supply_frame)
qed

section \<open>The tally keeps the store\<close>

definition untouched :: "state_store \<Rightarrow> state_store \<Rightarrow> bool" where
"untouched s t = (st_accounts t = st_accounts s \<and> st_validators t = st_validators s
   \<and> st_pending_proposals t = st_pending_proposals s \<and> st_block_height t = st_block_height s)"

lemma market_wf_updates:
  "market_wf m \<Longrightarrow> market_wf (m\<lparr> fm_burn_rate_bps := b \<rparr>)"
  "market_wf m \<Longrightarrow> market_wf (m\<lparr> fm_compute := (fm_compute m)\<lparr> fd_limit := l \<rparr> \<rparr>)"
  by (simp_all add: market_wf_def dim_wf_def)

lemma store_wf_market: "store_wf X s \<Longrightarrow> market_wf (st_fee_market s)"
  by (simp add: store_wf_def)

lemma alg_le_transition:
  "(case lc of Some target \<Rightarrow> valid_transition (ae_lifecycle e) target | None \<Rightarrow> True) \<Longrightarrow>
   alg_le e (e\<lparr> ae_lifecycle := (case lc of Some l \<Rightarrow> l | None \<Rightarrow> ae_lifecycle e), ae_min_fee := f \<rparr>)"
  by (auto simp: alg_le_def valid_transition_def split: option.splits)

text \<open>What every executor guarantees.\<close>

definition exec_ok :: "xof \<Rightarrow> state_store \<Rightarrow> state_store \<times> bool \<Rightarrow> bool" where
"exec_ok X s r = (store_wf X s \<longrightarrow> store_wf X (fst r) \<and> evolves s (fst r) \<and> untouched s (fst r))"

lemma untouched_frames [simp]:
  "untouched s s"
  "untouched s (insert_pending_upgrade X u s)"
  "untouched s (insert_slashing_verifier_entry X sv s)"
  "untouched s (insert_hash_entry X he s)"
  "untouched s (insert_alg_entry X ae s)"
  "untouched s (recompute_fee_market_leaf_hash X (s\<lparr> st_fee_market := m \<rparr>))"
  "untouched s (insert_governance_receipt X gr (commit_alg_entry_mutation X a (alg_entry_mut a e s)))"
  by (simp_all add: untouched_def insert_pending_upgrade_def insert_slashing_verifier_entry_def
      insert_hash_entry_def insert_alg_entry_def recompute_fee_market_leaf_hash_def
      insert_governance_receipt_def write_eqs Let_def)

lemma exec_registry_update: "exec_ok X s (execute_registry_update X i a lc fee p h s)"
proof (cases "get_alg_entry s a")
  case (Some e)
  let ?e' = "e\<lparr> ae_lifecycle := (case lc of Some l \<Rightarrow> l | None \<Rightarrow> ae_lifecycle e),
    ae_min_fee := or_default (ae_min_fee e) fee \<rparr>"
  let ?s1 = "commit_alg_entry_mutation X a (alg_entry_mut a ?e' s)"
  show ?thesis
  proof (cases "case lc of Some target \<Rightarrow> valid_transition (ae_lifecycle e) target | None \<Rightarrow> True")
    case True
    then have "evolves s ?s1"
      using Some by (intro ev_write_alg) (auto simp: get_alg_entry_def intro: alg_le_transition)
    then have "evolves s (insert_governance_receipt X r ?s1)" for r using ev_frames(3) evolves_trans by blast
    moreover have "store_wf X s \<Longrightarrow> store_wf X (insert_governance_receipt X r ?s1)" for r
      by (intro wf_insert_receipt wf_write_alg)
    ultimately show ?thesis using Some True
      by (simp add: exec_ok_def execute_registry_update_def Let_def split: option.splits)
  next
    case False
    then show ?thesis using Some by (simp add: exec_ok_def execute_registry_update_def split: option.splits)
  qed
qed (simp add: exec_ok_def execute_registry_update_def)

lemma exec_add_algorithm: "exec_ok X s (execute_add_algorithm X p s)"
proof -
  have "evolves s (insert_alg_entry X e s)" if "\<not> alg_entry_registered s (alg_as_u16 (ae_alg_id e))" for e
    using that by (intro ev_insert_alg) (simp add: alg_entry_registered_def hhas_def)
  moreover have "alg_as_u16 a = n" if "alg_from_u16 n = Some a" for a n
    using that by (rule alg_as_from)
  ultimately show ?thesis
    by (auto simp: exec_ok_def execute_add_algorithm_def new_governance_alg_def wf_insert_alg
        split: option.splits)
qed

lemma exec_effect: "exec_ok X s (execute_effect X i p h s)"
proof (cases "pp_effect p")
  case (PE_RegistryUpdate a lc fee)
  then show ?thesis by (simp add: execute_effect_def exec_registry_update)
next
  case (PE_AddAlgorithm q)
  then show ?thesis by (simp add: execute_effect_def exec_add_algorithm)
next
  case (PE_BurnRateUpdate b)
  then show ?thesis by (simp add: execute_effect_def exec_ok_def ev_frames wf_set_market market_wf_updates store_wf_market)
next
  case (PE_FeeParamUpdate l)
  then show ?thesis by (simp add: execute_effect_def exec_ok_def ev_frames wf_set_market market_wf_updates store_wf_market)
qed (simp_all add: execute_effect_def exec_ok_def ev_frames wf_insert_upgrade execute_add_slashing_verifier_def
       wf_insert_slashing_verifier execute_add_hash_def wf_insert_hash_entry execute_add_auth_template_def)

definition verdict :: "nat \<Rightarrow> pending_proposal \<Rightarrow> bool \<Rightarrow> proposal_status" where
"verdict required p effect_applied =
   (if yes_count p + no_count p < required then PS_Expired
    else if yes_count p \<le> no_count p then PS_Rejected
    else if effect_applied then PS_Executed else PS_ExecutionFailed)"

text \<open>One tally is the effect, when the proposal passes, followed by one write of the verdict.\<close>

lemma tally_one_eq:
  fixes h :: nat
  assumes "store_wf X s" "hget (st_pending_proposals s) i = Some p"
  defines "r \<equiv> (if quorum_required (active_validator_count s) \<le> yes_count p + no_count p \<and> no_count p < yes_count p
                then execute_effect X i p h s else (s, False))"
  shows "tally_one X h i s = commit_proposal_mutation X i (pending_proposal_mut i
      (p\<lparr> pp_status := verdict (quorum_required (active_validator_count s)) p (snd r) \<rparr>) (fst r))"
    and "exec_ok X s r"
proof -
  show ok: "exec_ok X s r" unfolding r_def using exec_effect by (simp add: exec_ok_def)
  then have "hget (st_pending_proposals (fst r)) i = Some p"
    using assms(1,2) by (simp add: exec_ok_def untouched_def)
  then show "tally_one X h i s = commit_proposal_mutation X i (pending_proposal_mut i
      (p\<lparr> pp_status := verdict (quorum_required (active_validator_count s)) p (snd r) \<rparr>) (fst r))"
    using assms(2)
    by (auto simp: tally_one_def set_status_def get_pending_proposal_def verdict_def r_def Let_def split: prod.splits)
qed

lemma prop_le_status: "pp_status p = PS_Voting \<Longrightarrow> prop_le p (p\<lparr> pp_status := st \<rparr>)"
  by (simp add: prop_le_def)

definition tally_rel :: "xof \<Rightarrow> hash32 set \<Rightarrow> state_store \<Rightarrow> state_store \<Rightarrow> bool" where
"tally_rel X I s t = (store_wf X t \<and> evolves s t \<and> st_accounts t = st_accounts s
   \<and> st_validators t = st_validators s \<and> st_block_height t = st_block_height s
   \<and> (\<forall>j. j \<notin> I \<longrightarrow> hget (st_pending_proposals t) j = hget (st_pending_proposals s) j))"

lemma tally_one_rel:
  assumes "store_wf X s" "\<And>p. hget (st_pending_proposals s) i = Some p \<Longrightarrow> pp_status p = PS_Voting"
  shows "tally_rel X {i} s (tally_one X h i s)"
proof (cases "hget (st_pending_proposals s) i")
  case None
  then show ?thesis using assms(1) by (simp add: tally_rel_def tally_one_def get_pending_proposal_def)
next
  case (Some p)
  obtain t b st where t: "tally_one X h i s = commit_proposal_mutation X i (pending_proposal_mut i (p\<lparr> pp_status := st \<rparr>) t)"
    and ok: "exec_ok X s (t, b)"
    using tally_one_eq [OF assms(1) Some] by (metis prod.collapse)
  then have u: "store_wf X t" "evolves s t" "untouched s t" using assms(1) by (simp_all add: exec_ok_def)
  have p: "pp_proposal_id p = i" "pp_status p = PS_Voting" "hget (st_pending_proposals t) i = Some p"
    using keyed_proposal [OF assms(1) Some] assms(2) Some u(3) by (simp_all add: untouched_def)
  have "evolves t (tally_one X h i s)"
    unfolding t by (rule ev_write_proposal) (use p in \<open>simp add: prop_le_status\<close>)
  with u(2) have "evolves s (tally_one X h i s)" by (rule evolves_trans)
  moreover have "store_wf X (tally_one X h i s)" unfolding t using u(1) p(1) by (intro wf_write_proposal) simp_all
  ultimately show ?thesis
    using u(3) by (simp add: tally_rel_def t untouched_def) (simp add: write_eqs map_simps)
qed

lemma tally_fold:
  assumes "store_wf X s" "distinct ids"
    "\<And>i p. i \<in> set ids \<Longrightarrow> hget (st_pending_proposals s) i = Some p \<Longrightarrow> pp_status p = PS_Voting"
  shows "tally_rel X (set ids) s (fold (tally_one X h) ids s)"
  using assms
proof (induction ids arbitrary: s)
  case Nil
  then show ?case by (simp add: tally_rel_def)
next
  case (Cons i ids)
  let ?t = "tally_one X h i s"
  have one: "tally_rel X {i} s ?t" using Cons.prems by (intro tally_one_rel) auto
  have "tally_rel X (set ids) ?t (fold (tally_one X h) ids ?t)"
  proof (rule Cons.IH)
    fix j p assume j: "j \<in> set ids" "hget (st_pending_proposals ?t) j = Some p"
    with one Cons.prems(2) have "hget (st_pending_proposals s) j = Some p" by (auto simp: tally_rel_def)
    with j(1) Cons.prems(3) [of j p] show "pp_status p = PS_Voting" by simp
  qed (use one Cons.prems in \<open>simp_all add: tally_rel_def\<close>)
  with one show ?case by (auto simp: tally_rel_def intro: evolves_trans)
qed

lemma tally_one_verdict:
  assumes "store_wf X s" "hget (st_pending_proposals s) i = Some p"
  shows "hget (st_pending_proposals (tally_one X h i s)) i =
    Some (p\<lparr> pp_status := verdict (quorum_required (active_validator_count s)) p (snd (execute_effect X i p h s)) \<rparr>)"
  unfolding tally_one_eq(1) [OF assms] by (auto simp: write_eqs map_simps verdict_def)

lemma active_count_frame:
  "st_validators t = st_validators s \<Longrightarrow> active_validator_count t = active_validator_count s"
  by (simp add: active_validator_count_def)

lemma tally_fold_verdict:
  assumes "store_wf X s" "distinct ids" "ids = us @ i # vs" "hget (st_pending_proposals s) i = Some p"
    "\<And>i p. i \<in> set ids \<Longrightarrow> hget (st_pending_proposals s) i = Some p \<Longrightarrow> pp_status p = PS_Voting"
  shows "hget (st_pending_proposals (fold (tally_one X h) ids s)) i =
    Some (p\<lparr> pp_status := verdict (quorum_required (active_validator_count s)) p
      (snd (execute_effect X i p h (fold (tally_one X h) us s))) \<rparr>)"
proof -
  from assms(2,3) have ids: "ids = us @ i # vs" "i \<notin> set us" "i \<notin> set vs" "distinct us" "distinct vs"
      "set us \<inter> set vs = {}" by auto
  let ?t = "fold (tally_one X h) us s"
  have one: "tally_rel X (set us) s ?t"
    by (rule tally_fold [OF assms(1)]) (use ids(4) in simp, rule assms(5), simp_all add: ids(1))
  then have t: "store_wf X ?t" "hget (st_pending_proposals ?t) i = Some p"
      "active_validator_count ?t = active_validator_count s"
    using ids(2) assms(4) active_count_frame [of ?t s] by (simp_all add: tally_rel_def)
  have two: "tally_rel X {i} ?t (tally_one X h i ?t)"
    by (rule tally_one_rel [OF t(1)]) (use t(2) assms(5) [OF _ assms(4)] ids(1) in simp)
  have "tally_rel X (set vs) (tally_one X h i ?t) (fold (tally_one X h) vs (tally_one X h i ?t))"
  proof (rule tally_fold)
    fix j q assume j: "j \<in> set vs" "hget (st_pending_proposals (tally_one X h i ?t)) j = Some q"
    then have "j \<noteq> i" "j \<notin> set us" using ids by auto
    with one two j(2) have "hget (st_pending_proposals s) j = Some q" by (simp add: tally_rel_def)
    with j(1) ids(1) assms(5) [of j q] show "pp_status q = PS_Voting" by simp
  qed (use two ids(5) in \<open>simp_all add: tally_rel_def\<close>)
  then have "hget (st_pending_proposals (fold (tally_one X h) ids s)) i
      = hget (st_pending_proposals (tally_one X h i ?t)) i"
    using ids(3) by (simp add: ids(1) tally_rel_def)
  then show ?thesis using tally_one_verdict [OF t(1,2), of h] by (simp add: t(3))
qed

lemma distinct_keys:
  assumes "hwf m" "keyed key m"
  shows "distinct (map key (hvals m))"
proof -
  have "map key (hvals m) = map fst m"
    using assms keyedD [of key m] mem_hget [OF assms(1)] by (auto simp: hvals_def)
  then show ?thesis using assms(1) by (simp add: hwf_def)
qed

lemma proposals_hwf: "store_wf X s \<Longrightarrow> hwf (st_pending_proposals s)"
  by (simp add: store_wf_def coherent_def coh_def)

definition due :: "nat \<Rightarrow> pending_proposal \<Rightarrow> bool" where
"due h p = (pp_status p = PS_Voting \<and> pp_voting_deadline p < h)"

definition due_ids :: "nat \<Rightarrow> state_store \<Rightarrow> hash32 list" where
"due_ids h s = map pp_proposal_id (filter (due h) (pending_proposals_in_order s))"

lemma due_ids_distinct: "store_wf X s \<Longrightarrow> distinct (due_ids h s)"
proof -
  assume wf: "store_wf X s"
  have "distinct (map pp_proposal_id (hvals (st_pending_proposals s)))"
    using distinct_keys [OF proposals_hwf [OF wf]] wf by (simp add: store_wf_def)
  then have "distinct (map pp_proposal_id (pending_proposals_in_order s))"
    by (simp add: pending_proposals_in_order_def distinct_map inj_on_def)
  then show ?thesis unfolding due_ids_def by (rule distinct_map_filter)
qed

lemma due_ids_mem:
  assumes "store_wf X s" "hget (st_pending_proposals s) i = Some p"
  shows "i \<in> set (due_ids h s) \<longleftrightarrow> due h p"
proof -
  have "(\<exists>q. (j, q) \<in> set (st_pending_proposals s) \<and> due h q) \<longleftrightarrow> j \<in> set (due_ids h s)" for j
    using mem_hget [OF proposals_hwf [OF assms(1)]] keyed_proposal [OF assms(1)]
    by (force simp: due_ids_def pending_proposals_in_order_def hvals_def)
  then show ?thesis using assms(2) mem_hget [OF proposals_hwf [OF assms(1)]] by (metis option.inject)
qed

lemma tallies_eq: "process_governance_tallies X h s = fold (tally_one X h) (due_ids h s) s"
  by (simp add: process_governance_tallies_def due_ids_def due_def [abs_def])

lemma tallies_rel:
  assumes "store_wf X s"
  shows "tally_rel X (set (due_ids h s)) s (process_governance_tallies X h s)"
  unfolding tallies_eq
  by (rule tally_fold [OF assms due_ids_distinct [OF assms]]) (simp add: due_ids_mem [OF assms] due_def)

lemma quorum_bounds: "0 < quorum_required n" "2 * n \<le> 3 * quorum_required n"
proof -
  show le: "2 * n \<le> 3 * quorum_required n"
    using div_mult_mod_eq [of "2 * n + 2" 3] mod_less_divisor [of 3 "2 * n + 2"]
    unfolding quorum_required_def by (simp only: split: if_split) linarith
  show "0 < quorum_required n"
    by (rule ccontr) (use le in \<open>simp add: quorum_required_def split: if_splits\<close>)
qed

lemma verdict_executed:
  assumes "verdict (quorum_required n) p b = PS_Executed"
  shows "no_count p < yes_count p \<and> 2 * n \<le> 3 * (yes_count p + no_count p)"
proof -
  have "quorum_required n \<le> yes_count p + no_count p" "no_count p < yes_count p"
    using assms by (simp_all add: verdict_def split: if_splits)
  with quorum_bounds(2) [of n] show ?thesis using order_trans mult_le_mono2 by blast
qed

section \<open>Properties\<close>

text \<open>A tally that passes no proposal writes nothing but verdicts.\<close>

lemma tally_one_idle:
  assumes "\<And>p. hget (st_pending_proposals s) i = Some p \<Longrightarrow>
      \<not> (quorum_required (active_validator_count s) \<le> yes_count p + no_count p \<and> no_count p < yes_count p)"
  shows "(tally_one X h i s)\<lparr> st_pending_proposals := a, st_proposal_leaf_hashes := b \<rparr>
      = s\<lparr> st_pending_proposals := a, st_proposal_leaf_hashes := b \<rparr>"
    and "j \<noteq> i \<Longrightarrow> hget (st_pending_proposals (tally_one X h i s)) j = hget (st_pending_proposals s) j"
  using assms by (cases "hget (st_pending_proposals s) i",
      auto simp: tally_one_def set_status_def get_pending_proposal_def write_eqs map_simps Let_def)+

lemma tally_fold_idle:
  assumes "distinct ids" "\<And>i p. i \<in> set ids \<Longrightarrow> hget (st_pending_proposals s) i = Some p \<Longrightarrow>
      \<not> (quorum_required (active_validator_count s) \<le> yes_count p + no_count p \<and> no_count p < yes_count p)"
  shows "(fold (tally_one X h) ids s)\<lparr> st_pending_proposals := a, st_proposal_leaf_hashes := b \<rparr>
      = s\<lparr> st_pending_proposals := a, st_proposal_leaf_hashes := b \<rparr>"
  using assms
proof (induction ids arbitrary: s)
  case (Cons i ids)
  let ?t = "tally_one X h i s"
  have one: "?t\<lparr> st_pending_proposals := x, st_proposal_leaf_hashes := y \<rparr> = s\<lparr> st_pending_proposals := x, st_proposal_leaf_hashes := y \<rparr>"
    "j \<noteq> i \<Longrightarrow> hget (st_pending_proposals ?t) j = hget (st_pending_proposals s) j" for x y j
    by (rule tally_one_idle, rule Cons.prems(2), simp_all)+
  have "st_validators ?t = st_validators s" using arg_cong [OF one(1), of st_validators] by simp
  then have "active_validator_count ?t = active_validator_count s" by (rule active_count_frame)
  moreover have "j \<noteq> i" if "j \<in> set ids" for j using that Cons.prems(1) by auto
  ultimately have "(fold (tally_one X h) ids ?t)\<lparr> st_pending_proposals := a, st_proposal_leaf_hashes := b \<rparr>
      = ?t\<lparr> st_pending_proposals := a, st_proposal_leaf_hashes := b \<rparr>"
    using Cons.prems one(2) by (intro Cons.IH) (simp_all, metis)
  then show ?case using one(1) by simp
qed simp


definition sample_proposal :: pending_proposal where
"sample_proposal = \<lparr> pp_proposal_id = replicate 32 9, pp_proposal_type = PT_BurnRateUpdate,
   pp_proposer = replicate 32 5, pp_voting_deadline = 5, pp_execute_after = 5, pp_effect = PE_BurnRateUpdate 100,
   pp_votes = [], pp_status = PS_Voting, pp_rationale_hash = replicate 32 0 \<rparr>"


text \<open>
  C37: in every state that evolves from the initial store of a chain, whatever its chain id, an \<open>AddAlgorithm\<close> proposal changes
  nothing and fails: each identifier the binary knows is registered from the start, and the others are refused.  The specifications of addresses and of the
  genesis, and the comments on the reserved algorithm in \<open>registry.rs\<close> and \<open>verify.rs\<close>, describe it as the way to add one.
\<close>

theorem add_algorithm_never_executes:
  assumes "evolves (set_chain_id cid (store_new X)) s"
  shows "execute_add_algorithm Y p s = (s, False)"
proof -
  have "\<exists>e. hget (st_alg_registry (store_new X)) (alg_as_u16 a) = Some e" for a
    by (cases a) (simp_all add: store_new_def phase1_registry_def alg_entry_row_def hcollect_def map_simps)
  then have "alg_entry_registered s (alg_as_u16 a)" for a
    using assms by (fastforce simp: alg_entry_registered_def hhas_def evolves_def tbl_le_def set_chain_id_def)
  then have "alg_from_u16 (aa_alg_id p) = None" if "\<not> alg_entry_registered s (aa_alg_id p)"
    using that alg_as_from by (cases "alg_from_u16 (aa_alg_id p)") (simp, metis)
  then show ?thesis by (auto simp: execute_add_algorithm_def)
qed

theorem add_algorithm_never_executes_witness:
  "execute_add_algorithm (\<lambda>d n. take n d)
     \<lparr> aa_alg_id = 0x30, aa_spec_ref = ''HQC'', aa_pk_size = 100, aa_sig_size = 100, aa_sig_class = None,
       aa_min_fee = 0, aa_benchmark_verify_per_sec = 0, aa_initial_lifecycle = LC_Active \<rparr>
     (set_chain_id [1] (store_new (\<lambda>d n. take n d))) = (set_chain_id [1] (store_new (\<lambda>d n. take n d)), False)"
  by (rule add_algorithm_never_executes [OF evolves_refl])

lemma upgrade_loop_Ok:
  "upgrade_loop v us s = Ok t \<longleftrightarrow>
   list_all (\<lambda>u. pu_expected_version u = v) us \<and> t = fold (\<lambda>u. remove_pending_upgrade (pu_proposal_id u)) us s"
  by (induction us arbitrary: s) auto

lemma upgrade_loop_no_panic: "upgrade_loop v us s \<noteq> Panic"
  by (induction us arbitrary: s) auto

lemma fold_remove_upgrade:
  "hget (st_pending_upgrades (fold (\<lambda>u. remove_pending_upgrade (pu_proposal_id u)) us s)) i =
   (if i \<in> pu_proposal_id ` set us then None else hget (st_pending_upgrades s) i)"
  by (induction us arbitrary: s) (auto simp: remove_pending_upgrade_def map_simps)

definition due_upgrades :: "nat \<Rightarrow> state_store \<Rightarrow> pending_upgrade list" where
"due_upgrades now s = filter (\<lambda>u. pu_activate_at_timestamp_ns u \<le> now) (pending_upgrades_in_order s)"

lemma due_upgrades_set:
  assumes "store_wf X s"
  shows "u \<in> set (due_upgrades now s) \<longleftrightarrow>
    (\<exists>i. hget (st_pending_upgrades s) i = Some u) \<and> pu_activate_at_timestamp_ns u \<le> now"
proof -
  have wf: "hwf (st_pending_upgrades s)" using assms by (simp add: store_wf_def coherent_def coh_def)
  have "u \<in> set (hvals (st_pending_upgrades s)) \<longleftrightarrow> (\<exists>i. (i, u) \<in> set (st_pending_upgrades s))"
    by (auto simp: hvals_def) force
  then show ?thesis by (simp add: due_upgrades_def pending_upgrades_in_order_def mem_hget [OF wf])
qed

lemma due_upgrades_ids:
  assumes "store_wf X s" "hget (st_pending_upgrades s) i = Some u"
  shows "i \<in> pu_proposal_id ` set (due_upgrades now s) \<longleftrightarrow> pu_activate_at_timestamp_ns u \<le> now"
proof -
  have key: "pu_proposal_id v = j" if "hget (st_pending_upgrades s) j = Some v" for j v
    using assms that by (auto simp: store_wf_def dest: keyedD)
  show ?thesis unfolding image_iff due_upgrades_set [OF assms(1)] Bex_def
    using key assms(2) by (metis option.inject)
qed

text \<open>
  the upgrade gate.  When every upgrade that is due expects the version of the binary, the due
  upgrades are removed and the others stay; otherwise the block is refused with an error.
\<close>

theorem upgrade_gate:
  assumes "store_wf X s"
  shows "if list_all (\<lambda>u. pu_expected_version u = v) (due_upgrades now s)
    then \<exists>t. check_pending_upgrades now v s = Ok t
      \<and> (\<forall>i. hget (st_pending_upgrades t) i =
            Option.bind (hget (st_pending_upgrades s) i)
              (\<lambda>u. if pu_activate_at_timestamp_ns u \<le> now then None else Some u))
    else \<exists>e. check_pending_upgrades now v s = Err e"
proof (cases "list_all (\<lambda>u. pu_expected_version u = v) (due_upgrades now s)")
  case True
  let ?t = "fold (\<lambda>u. remove_pending_upgrade (pu_proposal_id u)) (due_upgrades now s) s"
  have "hget (st_pending_upgrades ?t) i = Option.bind (hget (st_pending_upgrades s) i)
      (\<lambda>u. if pu_activate_at_timestamp_ns u \<le> now then None else Some u)" for i
    using due_upgrades_ids [OF assms, of i _ now]
    by (cases "hget (st_pending_upgrades s) i") (simp_all add: fold_remove_upgrade)
  with True show ?thesis
    by (simp add: check_pending_upgrades_def due_upgrades_def [symmetric] upgrade_loop_Ok)
next
  case False
  then have "upgrade_loop v (due_upgrades now s) s \<noteq> Ok t" for t by (simp add: upgrade_loop_Ok)
  with False upgrade_loop_no_panic show ?thesis
    by (cases "upgrade_loop v (due_upgrades now s) s")
       (auto simp: check_pending_upgrades_def due_upgrades_def [symmetric])
qed

theorem upgrade_gate_witness:
  "\<exists>t. check_pending_upgrades 10 2 (insert_pending_upgrade (\<lambda>d n. take n d)
      \<lparr> pu_proposal_id = [1], pu_activate_at_timestamp_ns = 10, pu_expected_version = 2 \<rparr>
      (store_new (\<lambda>d n. take n d))) = Ok t \<and> hget (st_pending_upgrades t) [1] = None"
proof -
  let ?s = "insert_pending_upgrade (\<lambda>d n. take n d)
      \<lparr> pu_proposal_id = [1], pu_activate_at_timestamp_ns = 10, pu_expected_version = 2 \<rparr> (store_new (\<lambda>d n. take n d))"
  have wf: "store_wf (\<lambda>d n. take n d) ?s" by (rule wf_insert_upgrade [OF store_wf_new])
  have us: "st_pending_upgrades ?s =
      [([1], \<lparr> pu_proposal_id = [1], pu_activate_at_timestamp_ns = 10, pu_expected_version = 2 \<rparr>)]"
    by (simp add: insert_pending_upgrade_def store_new_def hput_def)
  then have "list_all (\<lambda>u. pu_expected_version u = 2) (due_upgrades 10 ?s)"
    by (simp add: due_upgrades_def pending_upgrades_in_order_def hvals_def)
  with upgrade_gate [OF wf, of 2 10] show ?thesis by (auto simp: us hget_def)
qed

end
