(* ===== verification/Apply.thy ===== *)
theory Apply
  imports Apply_Account Apply_Validator Apply_Archival Governance
begin

text \<open>
  The transaction pipeline of \<open>apply.rs\<close> and \<open>gas_schedule.rs\<close>: the gas schedule, the dispatch to the
  handlers, settlement of fee and tip, and the distribution of a block's fees.
\<close>

section \<open>Gas schedule\<close>

fun scheduled_gas_for_msg_type :: "msg_type \<Rightarrow> nat" where
"scheduled_gas_for_msg_type TokenTransfer = 5" |
"scheduled_gas_for_msg_type VaultCreate = 10" |
"scheduled_gas_for_msg_type VaultPolicyUpdate = 6" |
"scheduled_gas_for_msg_type AttestationCreate = 8" |
"scheduled_gas_for_msg_type AttestationRevoke = 6" |
"scheduled_gas_for_msg_type ProofAnchor = 7" |
"scheduled_gas_for_msg_type KeyAdd = 12" |
"scheduled_gas_for_msg_type KeyRotate = 15" |
"scheduled_gas_for_msg_type KeyRevoke = 10" |
"scheduled_gas_for_msg_type GovernanceProposal = 18" |
"scheduled_gas_for_msg_type ConsensusKeyRotate = 15" |
"scheduled_gas_for_msg_type ValidatorRegister = 20" |
"scheduled_gas_for_msg_type ValidatorExit = 10" |
"scheduled_gas_for_msg_type ValidatorUnjail = 10" |
"scheduled_gas_for_msg_type ValidatorRotatePeerId = 10" |
"scheduled_gas_for_msg_type SubmitEquivocationEvidence = 30" |
"scheduled_gas_for_msg_type GovernanceVote = 5" |
"scheduled_gas_for_msg_type ValidatorRegisterArchivalKey = 15" |
"scheduled_gas_for_msg_type ArchivalRecordSubmit = 50" |
"scheduled_gas_for_msg_type ArchivalRecordAddAnchor = 8" |
"scheduled_gas_for_msg_type ArchivalRecordRenew = 12"

definition scheduled_gas_for_tx :: "transaction \<Rightarrow> nat" where
"scheduled_gas_for_tx tx = scheduled_gas_for_msg_type (tx_msg_type tx)"

section \<open>Dispatch\<close>

text \<open>With the feature \<open>token_economics\<close>, which is on by default.\<close>

definition apply_payload :: handler where
"apply_payload E s tx =
   (case tx_msg_type tx of
      VaultCreate \<Rightarrow> apply_vault_create E s tx
    | VaultPolicyUpdate \<Rightarrow> apply_vault_policy_update E s tx
    | AttestationCreate \<Rightarrow> apply_attestation_create E s tx
    | AttestationRevoke \<Rightarrow> apply_attestation_revoke E s tx
    | ProofAnchor \<Rightarrow> apply_proof_anchor E s tx
    | TokenTransfer \<Rightarrow> apply_token_transfer E s tx
    | KeyAdd \<Rightarrow> apply_key_add E s tx
    | KeyRotate \<Rightarrow> apply_key_rotate E s tx
    | KeyRevoke \<Rightarrow> apply_key_revoke E s tx
    | GovernanceProposal \<Rightarrow> apply_governance_proposal E s tx
    | GovernanceVote \<Rightarrow> apply_governance_vote E s tx
    | ConsensusKeyRotate \<Rightarrow> apply_consensus_key_rotate E s tx
    | ValidatorRegister \<Rightarrow> apply_validator_register E s tx
    | ValidatorExit \<Rightarrow> apply_validator_exit E s tx
    | ValidatorUnjail \<Rightarrow> apply_validator_unjail E s tx
    | ValidatorRotatePeerId \<Rightarrow> apply_validator_rotate_peer_id E s tx
    | SubmitEquivocationEvidence \<Rightarrow> apply_submit_equivocation_evidence E s tx
    | ValidatorRegisterArchivalKey \<Rightarrow> apply_validator_register_archival_key E s tx
    | ArchivalRecordSubmit \<Rightarrow> apply_archival_record_submit E s tx
    | ArchivalRecordAddAnchor \<Rightarrow> apply_archival_record_add_anchor E s tx
    | ArchivalRecordRenew \<Rightarrow> apply_archival_record_renew E s tx)"

section \<open>Transactions\<close>

datatype execution_status = Applied | RevertedOutOfGas

record execution_context =
  xc_tx_bytes_len :: nat
  xc_fee_params :: fee_params

record execution_result =
  xr_status :: execution_status
  xr_gas_used :: nat
  xr_fee_charged :: nat
  xr_fee_refund :: nat

definition apply_tx ::
    "env \<Rightarrow> state_store \<Rightarrow> transaction \<Rightarrow> execution_context \<Rightarrow> (state_store \<times> execution_result, apply_error) result" where
"apply_tx E s tx exec_ctx =
   (let scheduled_gas = scheduled_gas_for_tx tx;
        registry_min_fee = or_default 0 (store_alg_min_fee s (tx_sig_alg_id tx))
    in if tx_gas_limit tx < scheduled_gas then
         bind_r (settle_sender (e_xof E) tx (tx_fee tx) s) (\<lambda>t.
         Ok (t, \<lparr> xr_status = RevertedOutOfGas, xr_gas_used = tx_gas_limit tx,
                  xr_fee_charged = tx_fee tx, xr_fee_refund = 0 \<rparr>))
       else
         bind_r (apply_payload E s tx) (\<lambda>working.
         let actual_fee = fee_total (actual_fee_breakdown tx (xc_tx_bytes_len exec_ctx) scheduled_gas
                            (xc_fee_params exec_ctx) registry_min_fee)
         in bind_r (settle_sender (e_xof E) tx actual_fee working) (\<lambda>t.
            Ok (t, \<lparr> xr_status = Applied, xr_gas_used = scheduled_gas, xr_fee_charged = actual_fee,
                     xr_fee_refund = saturating_sub (tx_fee tx) actual_fee \<rparr>))))"

section \<open>Block fees\<close>

record fee_distribution_params =
  dist_proposer_share_bps :: nat

definition fee_distribution_default :: fee_distribution_params where
"fee_distribution_default = \<lparr> dist_proposer_share_bps = 5000 \<rparr>"

definition distribute_block_fees ::
    "xof \<Rightarrow> address \<Rightarrow> nat \<Rightarrow> address list \<Rightarrow> fee_distribution_params \<Rightarrow> state_store \<Rightarrow> state_store" where
"distribute_block_fees X proposer fees_collected pool_validators dist s =
   (if fees_collected = 0 then s
    else
      let burn_rate_bps = fm_burn_rate_bps (st_fee_market s);
          burn_amount = (if burn_rate_bps > 0
                         then saturating_mul U128_MAX fees_collected burn_rate_bps div 10000 else 0);
          s1 = (if burn_amount > 0 then credit_account X (replicate 32 0) burn_amount s else s);
          validator_fees = saturating_sub fees_collected burn_amount
      in if validator_fees = 0 then s1
         else if pool_validators = [] then credit_account X proposer validator_fees s1
         else
           let proposer_bps = min (dist_proposer_share_bps dist) 10000;
               proposer_priority = saturating_mul U128_MAX validator_fees proposer_bps div 10000;
               pool_total = saturating_sub validator_fees proposer_priority;
               pool_count = length pool_validators;
               per_validator = pool_total div pool_count;
               pool_distributed = saturating_mul U128_MAX per_validator pool_count;
               remainder = saturating_sub pool_total pool_distributed;
               s2 = credit_account X proposer (saturating_add U128_MAX proposer_priority remainder) s1
           in if per_validator > 0
              then fold (\<lambda>addr. credit_account X addr per_validator) pool_validators s2
              else s2)"

section \<open>The dispatch meets the contract\<close>

definition minted_by :: "env \<Rightarrow> state_store \<Rightarrow> transaction \<Rightarrow> nat" where
"minted_by E s tx = (if tx_msg_type tx = SubmitEquivocationEvidence then revived_bond E s tx else 0)"

lemmas handler_keeps =
  transfer_h.keeps policy_h.keeps vault_h.keeps key_add_h.keeps key_rotate_h.keeps key_revoke_h.keeps
  att_create_h.keeps att_revoke_h.keeps anchor_h.keeps register_h.keeps exit_h.keeps unjail_h.keeps
  peer_h.keeps consensus_rotate_h.keeps equivocation_h.keeps archival_key_h.keeps archival_submit_h.keeps
  archival_anchor_h.keeps archival_renew_h.keeps proposal_h.keeps vote_h.keeps

lemmas handler_accounts =
  transfer_h.accounts_for policy_h.accounts_for vault_h.accounts_for key_add_h.accounts_for
  key_rotate_h.accounts_for key_revoke_h.accounts_for att_create_h.accounts_for att_revoke_h.accounts_for
  anchor_h.accounts_for register_h.accounts_for exit_h.accounts_for unjail_h.accounts_for
  peer_h.accounts_for consensus_rotate_h.accounts_for equivocation_h.accounts_for
  archival_key_h.accounts_for archival_submit_h.accounts_for archival_anchor_h.accounts_for
  archival_renew_h.accounts_for proposal_h.accounts_for vote_h.accounts_for

interpretation payload_h: payload_handler apply_payload minted_by
proof
  fix E s tx t
  assume ok: "apply_payload E s tx = Ok t"
  show "keeps (e_xof E) s t" if "sound (e_xof E) s"
    using ok that by (cases "tx_msg_type tx") (auto simp: apply_payload_def dest: handler_keeps)
  show "total_supply t = total_supply s + minted_by E s tx" if "total_supply s + minted_by E s tx \<le> U128_MAX"
    using ok that handler_accounts [of E s tx t]
    by (cases "tx_msg_type tx") (simp_all add: apply_payload_def minted_by_def)
qed

section \<open>Transactions keep the invariants\<close>

lemma receipt_total_le: "fee_total b \<le> U64_MAX"
  by (simp add: fee_total_def saturating_add_le)

text \<open>Every successful run is a handler, or nothing when the gas does not suffice, and one settlement.\<close>

definition effect :: "env \<Rightarrow> state_store \<Rightarrow> transaction \<Rightarrow> (state_store, apply_error) result" where
"effect E s tx = (if tx_gas_limit tx < scheduled_gas_for_tx tx then Ok s else apply_payload E s tx)"

definition created :: "env \<Rightarrow> state_store \<Rightarrow> transaction \<Rightarrow> nat" where
"created E s tx = (if tx_gas_limit tx < scheduled_gas_for_tx tx then 0 else minted_by E s tx)"

lemma apply_tx_Ok:
  assumes "apply_tx E s tx c = Ok (t, r)"
  obtains w where "effect E s tx = Ok w" "settle_sender (e_xof E) tx (xr_fee_charged r) w = Ok t"
    "xr_fee_charged r \<le> max (tx_fee tx) U64_MAX"
  using assms
  by (auto simp: apply_tx_def effect_def Let_def result_simps receipt_total_le le_max_iff_disj split: if_splits)

interpretation effect_h: payload_handler effect created
  using payload_h.keeps payload_h.accounts_for
  by unfold_locales (auto simp: effect_def created_def keeps_refl split: if_splits)

lemma apply_tx_sound:
  assumes "apply_tx E s tx c = Ok (t, r)" "sound (e_xof E) s"
  shows "sound (e_xof E) t \<and> evolves s t \<and> st_block_height t = st_block_height s
    \<and> st_fee_market t = st_fee_market s"
  using apply_tx_Ok [OF assms(1)] effect_h.settled_sound assms(2) by metis

section \<open>Properties of a transaction\<close>

lemma apply_tx_supply:
  assumes "apply_tx E s tx c = Ok (t, r)" "tx_fee tx \<le> U64_MAX" "tx_fee_tip tx \<le> U64_MAX"
    "total_supply s + created E s tx \<le> U128_MAX"
  shows "total_supply t + xr_fee_charged r + tx_fee_tip tx = total_supply s + created E s tx"
proof (rule apply_tx_Ok [OF assms(1)])
  fix w assume w: "effect E s tx = Ok w" "settle_sender (e_xof E) tx (xr_fee_charged r) w = Ok t"
    and "xr_fee_charged r \<le> max (tx_fee tx) U64_MAX"
  then have "xr_fee_charged r + tx_fee_tip tx \<le> U64_MAX + U64_MAX" using assms(2,3) by simp
  also have "\<dots> \<le> U128_MAX" by (simp add: width_simps)
  finally show ?thesis by (rule effect_h.settled_supply [OF w _ assms(4)])
qed

lemma apply_tx_counts:
  assumes "apply_tx E s tx c = Ok (t, r)" "sound (e_xof E) s" "get_account s a = Some u"
  shows "\<exists>v. get_account t a = Some v \<and> ac_nonce v = (if a = tx_sender tx then ac_nonce u + 1 else ac_nonce u)"
  using apply_tx_Ok [OF assms(1)] effect_h.settled_nonces [OF _ _ assms(2)] assms(3)
  by (metis get_account_def Suc_eq_plus1)

lemma created_none: "tx_msg_type tx \<noteq> SubmitEquivocationEvidence \<Longrightarrow> created E s tx = 0"
  by (simp add: created_def minted_by_def)

text \<open>
  C2: what a transaction does to the supply.  What the balances and bonds lose is the fee and the tip, for every kind of message, on success and
  when the gas runs out, but for what the transaction creates.  Only evidence of equivocation creates: against a validator that has exited, and so
  has its bond back, it creates the bond that the record still shows, a part of it as the penalty that the treasury receives
  and the rest as a bond that counts again.  Every other transaction creates nothing.
\<close>

theorem apply_tx_conserves_supply:
  assumes "apply_tx E s tx c = Ok (t, r)" "tx_fee tx \<le> U64_MAX" "tx_fee_tip tx \<le> U64_MAX"
    "total_supply s + created E s tx \<le> U128_MAX"
  shows "total_supply t + xr_fee_charged r + tx_fee_tip tx = total_supply s + created E s tx
    \<and> (created E s tx \<noteq> 0 \<longrightarrow> tx_msg_type tx = SubmitEquivocationEvidence
        \<and> (\<exists>ev v. decode_equivocation_evidence E (tx_payload tx) = Ok ev \<and> get_validator s (sl_validator_address ev) = Some v
             \<and> vr_status v = VS_Exited \<and> created E s tx = vr_self_bond v))"
  using apply_tx_supply [OF assms]
  by (auto simp: created_def minted_by_def revived_bond_def split: if_splits result.splits option.splits)

text \<open>
  C23: nonces count applied transactions.  A transaction that is applied raises the nonce of its
  sender by exactly one, whatever it does and also when it runs out of gas, and leaves every other
  nonce alone.
\<close>

theorem apply_tx_nonces:
  assumes "apply_tx E s tx c = Ok (t, r)" "sound (e_xof E) s" "get_account s a = Some u"
  shows "\<exists>v. get_account t a = Some v \<and> ac_nonce v = (if a = tx_sender tx then ac_nonce u + 1 else ac_nonce u)"
  by (rule apply_tx_counts [OF assms])

section \<open>Block fees as a list of credits\<close>

definition share :: "nat \<Rightarrow> nat \<Rightarrow> nat" where
"share v bps = saturating_mul U128_MAX v bps div 10000"

text \<open>Who is paid what: the burn, the proposer with the rounding, and the pool in equal parts.\<close>

definition fee_plan :: "nat \<Rightarrow> address \<Rightarrow> nat \<Rightarrow> address list \<Rightarrow> nat \<Rightarrow> (address \<times> nat) list" where
"fee_plan burn_bps proposer fees pool proposer_bps =
   (let burn = share fees burn_bps;
        rest = fees - burn;
        priority = (if pool = [] then rest else share rest (min proposer_bps 10000));
        each = (rest - priority) div length pool
    in (replicate 32 0, burn) # (proposer, rest - each * length pool) # map (\<lambda>a. (a, each)) pool)"

abbreviation pay :: "xof \<Rightarrow> address \<times> nat \<Rightarrow> state_store \<Rightarrow> state_store" where
"pay X c \<equiv> credit_account X (fst c) (snd c)"

lemma credit_zero [simp]: "credit_account X a 0 s = s"
  by (simp add: credit_account_def)

lemma share_le: "b \<le> 10000 \<Longrightarrow> share v b \<le> v"
proof -
  assume "b \<le> 10000"
  then have "saturating_mul U128_MAX v b \<le> v * 10000" by (simp add: saturating_mul_def min.coboundedI2)
  from div_le_mono [OF this, of 10000] show ?thesis by (simp add: share_def)
qed

lemma share_zero [simp]: "share v 0 = 0" "share 0 b = 0"
  by (simp_all add: share_def saturating_mul_def)

lemma fold_pay_each: "fold (pay X) (map (\<lambda>a. (a, n)) pool) s = fold (\<lambda>a. credit_account X a n) pool s"
  by (induction pool arbitrary: s) simp_all

lemma fold_credit_zero: "fold (\<lambda>a. credit_account X a 0) pool s = s"
  by (induction pool) simp_all

text \<open>The plan with its amounts named, for a pool that is not empty.\<close>

lemma fee_plan_pool:
  assumes "pool \<noteq> []" "burn = share fees burn_bps" "prio = share (fees - burn) (min bps 10000)"
    "each = (fees - burn - prio) div length pool"
  shows "fee_plan burn_bps proposer fees pool bps =
    (replicate 32 0, burn) # (proposer, fees - burn - each * length pool) # map (\<lambda>a. (a, each)) pool"
  using assms by (simp add: fee_plan_def Let_def)

lemma fee_plan_empty:
  "fee_plan burn_bps proposer fees [] bps =
    [(replicate 32 0, share fees burn_bps), (proposer, fees - share fees burn_bps)]"
  by (simp add: fee_plan_def Let_def)

lemma fees_eq_plan:
  assumes "fees \<le> U128_MAX"
  shows "distribute_block_fees X proposer fees pool dist s =
    fold (pay X) (fee_plan (fm_burn_rate_bps (st_fee_market s)) proposer fees pool (dist_proposer_share_bps dist)) s"
proof -
  obtain burn where burn: "burn = share fees (fm_burn_rate_bps (st_fee_market s))" by simp
  obtain rest where rest: "rest = fees - burn" by simp
  obtain prio where prio: "prio = share rest (min (dist_proposer_share_bps dist) 10000)" by simp
  obtain each where each: "each = (rest - prio) div length pool" by simp
  have "prio \<le> rest" unfolding prio by (rule share_le) simp
  moreover have le: "each * length pool \<le> rest - prio" unfolding each by (rule div_times_less_eq_dividend)
  ultimately have sat: "saturating_mul U128_MAX each (length pool) = each * length pool"
      "saturating_add U128_MAX prio (rest - prio - each * length pool) = rest - each * length pool"
    using assms by (simp_all add: saturating_mul_def saturating_add_def rest)
  have b: "(if 0 < fm_burn_rate_bps (st_fee_market s)
      then saturating_mul U128_MAX fees (fm_burn_rate_bps (st_fee_market s)) div 10000 else 0) = burn"
    by (simp add: burn share_def saturating_mul_def)
  have z: "prio = 0 \<and> each = 0" if "rest = 0" using that by (simp add: prio each)
  have none: "burn = 0 \<and> rest = 0" if "fees = 0" using that by (simp add: burn rest)
  have code: "distribute_block_fees X proposer fees pool dist s =
      (let s1 = pay X (replicate 32 0, burn) s in
       if rest = 0 then s1 else if pool = [] then credit_account X proposer rest s1
       else fold (\<lambda>a. credit_account X a each) pool (credit_account X proposer (rest - each * length pool) s1))"
    unfolding distribute_block_fees_def Let_def b
    unfolding saturating_sub_def rest [symmetric] share_def [symmetric]
    unfolding prio [symmetric] each [symmetric]
    unfolding sat each [symmetric] using none by (simp add: fold_credit_zero)
  show ?thesis
  proof (cases "pool = []")
    case True
    then show ?thesis unfolding code Let_def by (simp add: fee_plan_empty burn [symmetric] rest [symmetric])
  next
    case False
    have "fee_plan (fm_burn_rate_bps (st_fee_market s)) proposer fees pool (dist_proposer_share_bps dist) =
        (replicate 32 0, burn) # (proposer, rest - each * length pool) # map (\<lambda>a. (a, each)) pool"
      unfolding rest by (rule fee_plan_pool [OF False burn]) (simp_all add: prio each rest)
    then show ?thesis using z False by (simp add: code Let_def fold_pay_each fold_credit_zero)
  qed
qed

lemma plan_sum:
  assumes "burn_bps \<le> 10000"
  shows "sum_list (map snd (fee_plan burn_bps proposer fees pool bps)) = fees"
proof (cases "pool = []")
  case True
  then show ?thesis using share_le [OF assms, of fees] by (simp add: fee_plan_empty)
next
  case False
  obtain burn where burn: "burn = share fees burn_bps" by simp
  obtain prio where prio: "prio = share (fees - burn) (min bps 10000)" by simp
  obtain each where each: "each = (fees - burn - prio) div length pool" by simp
  have "sum_list (map (snd \<circ> (\<lambda>a. (a, each))) pool) = each * length pool" by (induction pool) simp_all
  moreover have "each * length pool \<le> fees - burn"
    using div_times_less_eq_dividend [of "fees - burn - prio" "length pool"] unfolding each by linarith
  moreover have "burn \<le> fees" unfolding burn by (rule share_le [OF assms])
  ultimately show ?thesis by (simp add: fee_plan_pool [OF False burn prio each])
qed

lemma pays_supply:
  assumes "total_supply s + sum_list (map snd cs) \<le> U128_MAX"
  shows "total_supply (fold (pay X) cs s) = total_supply s + sum_list (map snd cs)"
  using assms
proof (induction cs arbitrary: s)
  case (Cons c cs)
  have "total_supply (pay X c s) = total_supply s + snd c"
    using Cons.prems by (intro supply_credit_account) simp
  with Cons show ?case by simp
qed simp

lemma keeps_pays: "sound X s \<Longrightarrow> keeps X s (fold (pay X) cs s)"
proof (induction cs arbitrary: s)
  case (Cons c cs)
  have k: "keeps X s (pay X c s)" by (rule keeps_credit_account [OF Cons.prems])
  show ?case using keeps_trans [OF k Cons.IH [OF keeps_sound [OF k]]] by simp
qed (simp add: keeps_refl)

text \<open>
  C32: a block's fees are paid out to the last token.  The distribution is a list of credits, the burn
  first, then the proposer, then equal parts for the pool; the credits add up to the fees collected,
  with every rounding on the proposer's side, and that is what the supply grows by.
\<close>

theorem block_fees_exact:
  assumes "total_supply s + fees \<le> U128_MAX" "fm_burn_rate_bps (st_fee_market s) \<le> 10000"
  shows "\<exists>cs. distribute_block_fees X proposer fees pool dist s = fold (pay X) cs s
    \<and> cs = fee_plan (fm_burn_rate_bps (st_fee_market s)) proposer fees pool (dist_proposer_share_bps dist)
    \<and> sum_list (map snd cs) = fees
    \<and> total_supply (distribute_block_fees X proposer fees pool dist s) = total_supply s + fees"
proof -
  have "fees \<le> U128_MAX" using assms(1) by simp
  from fees_eq_plan [OF this] show ?thesis
    using plan_sum [OF assms(2)] assms(1) by (simp add: pays_supply)
qed

section \<open>A concrete transfer\<close>

text \<open>An account with 1000 tokens sends 30 of them with a fee limit of 500 and a tip of 2.\<close>

abbreviation demo_xof :: xof where
"demo_xof \<equiv> \<lambda>d n. take n d"

definition demo_env :: env where
"demo_env = \<lparr> e_xof = demo_xof, e_cbor_read = \<lambda>b. Ok (CMap [(CInt 1, CBytes (replicate 32 6)), (CInt 2, CInt 30)]),
   e_cbor_write = \<lambda>v. Ok [], e_verify = \<lambda>pk m sg. True \<rparr>"

definition demo_store :: state_store where
"demo_store = insert_account demo_xof sample_account (store_new demo_xof)"

definition demo_tx :: transaction where
"demo_tx = \<lparr> tx_version = 1, tx_chain_id = [], tx_msg_type = TokenTransfer, tx_sender = replicate 32 5,
   tx_nonce = 3, tx_fee = 500, tx_fee_tip = 2, tx_gas_limit = 10, tx_payload = [1], tx_sig_alg_id = MlDsa65,
   tx_sig_key_version = 1, tx_signature = [] \<rparr>"

definition demo_ctx :: execution_context where
"demo_ctx = \<lparr> xc_tx_bytes_len = 1, xc_fee_params = sample_params \<rparr>"

lemma demo_decodes:
  "decode_token_transfer_payload demo_env [1] = Ok \<lparr> tt_recipient = replicate 32 6, tt_amount = 30 \<rparr>"
  by (simp add: decode_token_transfer_payload_def payload_map_def demo_env_def result_simps need_def try_from_int_def
      width_simps)

lemma demo_sound: "sound demo_xof demo_store"
proof -
  have "tomb_inv demo_store" by (simp add: demo_store_def tomb_inv_def store_new_def insert_account_def hget_def)
  moreover have "store_wf demo_xof demo_store"
    unfolding demo_store_def by (rule wf_insert_account [OF store_wf_new])
  ultimately show ?thesis by (simp add: sound_def)
qed

lemma demo_sender: "get_account demo_store (replicate 32 5) = Some sample_account"
  by (simp add: demo_store_def get_account_def insert_account_def map_simps sample_account_def)

lemma demo_supply: "total_supply demo_store = 1000"
  by (simp add: demo_store_def total_supply_def insert_account_def store_new_def hput_def hsum_def sample_account_def)

lemma demo_payload:
  "\<exists>w. apply_payload demo_env demo_store demo_tx = Ok w
     \<and> hget (st_accounts w) (replicate 32 5) = Some (sample_account\<lparr> ac_balance := 970 \<rparr>)"
proof -
  have a: "hget (st_accounts demo_store) x = (if x = replicate 32 5 then Some sample_account else None)" for x
    by (simp add: demo_store_def insert_account_def store_new_def map_simps sample_account_def)
  have ne: "replicate 32 6 \<noteq> (replicate 32 5 :: bytes)" by (simp add: replicate_eq_replicate)
  have "ac_balance sample_account = 1000" by (simp add: sample_account_def)
  with a ne show ?thesis
    by (simp add: apply_payload_def demo_tx_def apply_token_transfer_def demo_decodes get_account_def Let_def
        write_account_eq map_simps insert_account_def implicit_account_def)
qed

lemma demo_applies: "\<exists>t r. apply_tx demo_env demo_store demo_tx demo_ctx = Ok (t, r)"
proof -
  obtain w where w: "apply_payload demo_env demo_store demo_tx = Ok w"
      "hget (st_accounts w) (replicate 32 5) = Some (sample_account\<lparr> ac_balance := 970 \<rparr>)" using demo_payload by blast
  have fee: "fee_total (actual_fee_breakdown demo_tx 1 5 sample_params n) \<le> 200" if "n \<le> 20" for n
    using that
    by (simp add: fee_total_def actual_fee_breakdown_def effective_base_fee_def sigverify_fee_for_alg_def
        demo_tx_def sample_params_def saturating_add_def saturating_mul_def truncate_u64_def width_simps)
  have min: "or_default 0 (store_alg_min_fee demo_store MlDsa65) \<le> 20"
    by (simp add: or_default_def store_alg_min_fee_def get_alg_entry_def demo_store_def insert_account_def
        store_new_def phase1_registry_def alg_entry_row_def hcollect_def map_simps)
  have sel: "tx_sender demo_tx = replicate 32 5" "tx_fee_tip demo_tx = 2" "tx_gas_limit demo_tx = 10"
      "tx_sig_alg_id demo_tx = MlDsa65" "scheduled_gas_for_tx demo_tx = 5"
    by (simp_all add: demo_tx_def scheduled_gas_for_tx_def)
  have "\<exists>t. settle_sender demo_xof demo_tx n w = Ok t" if "n \<le> 200" for n
    using that w(2) by (simp add: settle_sender_Ok sel saturating_add_def width_simps sample_account_def)
  then have "\<exists>t. settle_sender demo_xof demo_tx (fee_total (actual_fee_breakdown demo_tx 1 5 sample_params
      (or_default 0 (store_alg_min_fee demo_store MlDsa65)))) w = Ok t" using fee [OF min] by blast
  then show ?thesis
    using w(1) by (auto simp: apply_tx_def Let_def sel demo_ctx_def demo_env_def [THEN arg_cong [where f = e_xof]])
qed

theorem apply_tx_conserves_supply_witness:
  "\<exists>t r. apply_tx demo_env demo_store demo_tx demo_ctx = Ok (t, r)
     \<and> total_supply t + xr_fee_charged r + 2 = 1000"
proof -
  obtain t r where t: "apply_tx demo_env demo_store demo_tx demo_ctx = Ok (t, r)" using demo_applies by blast
  have "created demo_env demo_store demo_tx = 0" by (simp add: created_def minted_by_def demo_tx_def)
  with apply_tx_conserves_supply [OF t] t show ?thesis
    by (auto simp: demo_supply demo_tx_def width_simps)
qed

theorem apply_tx_nonces_witness:
  "\<exists>t r v. apply_tx demo_env demo_store demo_tx demo_ctx = Ok (t, r)
     \<and> get_account t (replicate 32 5) = Some v \<and> ac_nonce v = 4"
proof -
  obtain t r where t: "apply_tx demo_env demo_store demo_tx demo_ctx = Ok (t, r)" using demo_applies by blast
  have "sound (e_xof demo_env) demo_store" using demo_sound by (simp add: demo_env_def)
  from apply_tx_nonces [OF t this demo_sender] t show ?thesis
    by (auto simp: demo_tx_def sample_account_def)
qed

theorem block_fees_exact_witness:
  "total_supply (distribute_block_fees demo_xof (replicate 32 7) 10 [replicate 32 1, replicate 32 2, replicate 32 3]
      fee_distribution_default demo_store) = 1010"
proof -
  have "fm_burn_rate_bps (st_fee_market demo_store) \<le> 10000"
    by (simp add: demo_store_def insert_account_def store_new_def fee_market_default_def)
  moreover have "total_supply demo_store + 10 \<le> U128_MAX" by (simp add: demo_supply width_simps)
  ultimately show ?thesis
    using block_fees_exact [of demo_store 10 demo_xof "replicate 32 7"
      "[replicate 32 1, replicate 32 2, replicate 32 3]" fee_distribution_default]
    by (auto simp: demo_supply)
qed

end
