(* ===== verification/Mempool.thy ===== *)
theory Mempool
  imports Validate State_Store Fork
begin

text \<open>
  The pending pool of \<open>pqc-mempool\<close>: the two indexes of \<open>pool.rs\<close>, and the admission pipeline
  \<open>try_admit\<close> of \<open>admission.rs\<close> with its replacement policy and the cap on slow signatures.

  The pool reads the chain through the trait \<open>StateView\<close>; the trait is a record here and
  \<open>store_view\<close> is its implementation by the state store.  The main result is that the two
  indexes always describe the same set of entries, so the branch of \<open>try_admit\<close> that repairs
  an inconsistent index is never taken.
\<close>

section \<open>The state as the pool sees it\<close>

record state_view =
  sv_get_account :: "address \<Rightarrow> account option"
  sv_alg_lifecycle :: "alg_id \<Rightarrow> lifecycle option"
  sv_alg_sig_class :: "alg_id \<Rightarrow> sig_class option"
  sv_alg_min_fee :: "alg_id \<Rightarrow> nat option"
  sv_chain_id :: bytes
  sv_current_height :: nat
  sv_base_fee_dynamic :: nat
  sv_fork_digest :: bytes

text \<open>The store overrides all methods but \<open>fork_digest\<close>, which keeps the default of the trait.\<close>

definition store_view :: "xof \<Rightarrow> state_store \<Rightarrow> state_view" where
"store_view X s = \<lparr>
   sv_get_account = (\<lambda>a. hget (st_accounts s) a),
   sv_alg_lifecycle = (\<lambda>a. map_option ae_lifecycle (hget (st_alg_registry s) (alg_as_u16 a))),
   sv_alg_sig_class = (\<lambda>a. Option.bind (hget (st_alg_registry s) (alg_as_u16 a)) ae_sig_class),
   sv_alg_min_fee = (\<lambda>a. map_option ae_min_fee (hget (st_alg_registry s) (alg_as_u16 a))),
   sv_chain_id = st_chain_id s,
   sv_current_height = st_block_height s,
   sv_base_fee_dynamic = base_fee_dynamic s,
   sv_fork_digest = viper_research_1 X \<rparr>"

section \<open>The pool\<close>

record pending_entry =
  pe_tx :: transaction
  pe_raw_bytes :: bytes
  pe_tx_hash :: hash32
  pe_fee :: nat
  pe_fee_tip :: nat

record mempool =
  mp_by_hash :: "(hash32, pending_entry) hmap"
  mp_by_sender_nonce :: "(address \<times> nat, hash32) hmap"
  mp_vc_admitted_count :: nat
  mp_vc_per_block_cap :: nat

definition mempool_new :: mempool where
"mempool_new = \<lparr> mp_by_hash = [], mp_by_sender_nonce = [], mp_vc_admitted_count = 0, mp_vc_per_block_cap = 10 \<rparr>"

definition pool_get :: "mempool \<Rightarrow> hash32 \<Rightarrow> pending_entry option" where
"pool_get p h = hget (mp_by_hash p) h"

definition pending_for_slot :: "mempool \<Rightarrow> address \<Rightarrow> nat \<Rightarrow> hash32 option" where
"pending_for_slot p sender nonce = hget (mp_by_sender_nonce p) (sender, nonce)"

definition slot_of :: "pending_entry \<Rightarrow> address \<times> nat" where
"slot_of e = (tx_sender (pe_tx e), tx_nonce (pe_tx e))"

definition pool_insert :: "pending_entry \<Rightarrow> mempool \<Rightarrow> mempool" where
"pool_insert e p = p\<lparr> mp_by_sender_nonce := hput (slot_of e) (pe_tx_hash e) (mp_by_sender_nonce p),
                      mp_by_hash := hput (pe_tx_hash e) e (mp_by_hash p) \<rparr>"

definition evict :: "hash32 \<Rightarrow> mempool \<Rightarrow> mempool \<times> pending_entry option" where
"evict h p =
   (case hget (mp_by_hash p) h of
      Some e \<Rightarrow> (p\<lparr> mp_by_hash := hdel h (mp_by_hash p),
                    mp_by_sender_nonce := hdel (slot_of e) (mp_by_sender_nonce p) \<rparr>, Some e)
    | None \<Rightarrow> (p, None))"

definition evicted :: "hash32 \<Rightarrow> mempool \<Rightarrow> mempool" where
"evicted h p = fst (evict h p)"

definition evict_stale :: "address \<Rightarrow> nat \<Rightarrow> mempool \<Rightarrow> mempool" where
"evict_stale sender committed_nonce p =
   (let stale_hashes = map pe_tx_hash
          (filter (\<lambda>e. tx_sender (pe_tx e) = sender \<and> tx_nonce (pe_tx e) < committed_nonce) (hvals (mp_by_hash p)))
    in fold evicted stale_hashes p)"

text \<open>
  The counter is a \<open>usize\<close>; the only caller has checked that it is below the cap, so the
  addition does not overflow.
\<close>

definition increment_vc_count :: "mempool \<Rightarrow> mempool" where
"increment_vc_count p = p\<lparr> mp_vc_admitted_count := mp_vc_admitted_count p + 1 \<rparr>"

definition reset_vc_count :: "mempool \<Rightarrow> mempool" where
"reset_vc_count p = p\<lparr> mp_vc_admitted_count := 0 \<rparr>"

definition pending_for_sender :: "mempool \<Rightarrow> address \<Rightarrow> pending_entry list" where
"pending_for_sender p sender =
   sort_key (\<lambda>e. tx_nonce (pe_tx e)) (filter (\<lambda>e. tx_sender (pe_tx e) = sender) (hvals (mp_by_hash p)))"

definition all_pending :: "mempool \<Rightarrow> pending_entry list" where
"all_pending p = hvals (mp_by_hash p)"

section \<open>Admission\<close>

datatype mempool_error =
    ValidationFailed tx_error
  | Duplicate
  | ReplacementUnderpriced nat nat nat
  | AlreadyIncluded
  | RateLimited
  | VcCapReached

definition REPLACEMENT_FEE_BUMP_NUM :: nat where
"REPLACEMENT_FEE_BUMP_NUM = 110"

definition REPLACEMENT_FEE_BUMP_DEN :: nat where
"REPLACEMENT_FEE_BUMP_DEN = 100"

record admission_result =
  ar_tx_hash :: hash32
  ar_replaced :: "hash32 option"

text \<open>Validation against the state, as \<open>try_admit\<close> sets it up.\<close>

definition admission_context :: "state_view \<Rightarrow> fee_params \<Rightarrow> transaction \<Rightarrow> validation_context" where
"admission_context v fee_params tx =
   \<lparr> vc_chain_id = sv_chain_id v, vc_fork_digest = sv_fork_digest v, vc_current_height = sv_current_height v,
     vc_sender_account = sv_get_account v (tx_sender tx),
     vc_fee_params = (if sv_base_fee_dynamic v > 0
                      then fee_params\<lparr> fp_base_fee_dynamic := sv_base_fee_dynamic v \<rparr> else fee_params),
     vc_alg_lifecycle = sv_alg_lifecycle v, vc_alg_min_fee = sv_alg_min_fee v \<rparr>"

definition min_replacement_fee :: "nat \<Rightarrow> nat" where
"min_replacement_fee old = saturating_mul U64_MAX old REPLACEMENT_FEE_BUMP_NUM div REPLACEMENT_FEE_BUMP_DEN"

text \<open>The last step: insert the entry and count a slow signature.\<close>

definition admit_entry :: "state_view \<Rightarrow> pending_entry \<Rightarrow> mempool \<Rightarrow> mempool" where
"admit_entry v e p =
   (let q = pool_insert e p
    in if sv_alg_sig_class v (tx_sig_alg_id (pe_tx e)) = Some SC_Premium then increment_vc_count q else q)"

text \<open>
  The pool is only written after the last check, so an error leaves it as it was and the
  result carries the new pool on success alone.
\<close>

definition try_admit ::
    "env \<Rightarrow> mempool \<Rightarrow> bytes \<Rightarrow> state_view \<Rightarrow> fee_params \<Rightarrow> (mempool \<times> admission_result, mempool_error) result" where
"try_admit E p raw v fee_params =
   bind_r (map_err ValidationFailed (decode_tx E raw)) (\<lambda>tx.
   let h = compute_tx_hash E raw;
       entry = \<lparr> pe_tx = tx, pe_raw_bytes = raw, pe_tx_hash = h, pe_fee = tx_fee tx, pe_fee_tip = tx_fee_tip tx \<rparr>
   in if pool_get p h \<noteq> None then Err Duplicate
   else bind_r (ok_or (sv_alg_lifecycle v (tx_sig_alg_id tx))
                  (ValidationFailed (AlgorithmNotFound (alg_as_u16 (tx_sig_alg_id tx))))) (\<lambda>lifecycle.
   if \<not> admits_transactions lifecycle
   then Err (ValidationFailed (AlgorithmBanned (alg_as_u16 (tx_sig_alg_id tx))))
   else if sv_alg_sig_class v (tx_sig_alg_id tx) = Some SC_Premium
           \<and> mp_vc_admitted_count p \<ge> mp_vc_per_block_cap p
   then Err VcCapReached
   else bind_r (map_err ValidationFailed (validate_tx E tx raw (admission_context v fee_params tx))) (\<lambda>_.
   case pending_for_slot p (tx_sender tx) (tx_nonce tx) of
     None \<Rightarrow> Ok (admit_entry v entry p, \<lparr> ar_tx_hash = h, ar_replaced = None \<rparr>)
   | Some existing_hash \<Rightarrow>
       (case pool_get p existing_hash of
          None \<Rightarrow> Ok (admit_entry v entry (evicted existing_hash p), \<lparr> ar_tx_hash = h, ar_replaced = None \<rparr>)
        | Some existing \<Rightarrow>
            if tx_fee tx < min_replacement_fee (pe_fee existing) \<or> tx_fee_tip tx < pe_fee_tip existing
            then Err (ReplacementUnderpriced (pe_fee existing) (pe_fee_tip existing)
                        (min_replacement_fee (pe_fee existing)))
            else Ok (admit_entry v entry (evicted existing_hash p),
                     \<lparr> ar_tx_hash = h, ar_replaced = Some existing_hash \<rparr>)))))"

section \<open>What the assembler relies on\<close>

text \<open>
  A pool holds a set of entries with at most one entry per hash and per slot, and eviction
  removes exactly the entry with the given hash.
\<close>

locale pending_pool =
  fixes ok :: "'p \<Rightarrow> bool" and pending :: "'p \<Rightarrow> 'e set" and hash_of :: "'e \<Rightarrow> hash32"
    and slot :: "'e \<Rightarrow> address \<times> nat" and drop_hash :: "hash32 \<Rightarrow> 'p \<Rightarrow> 'p"
  assumes one_per_hash: "ok p \<Longrightarrow> e \<in> pending p \<Longrightarrow> f \<in> pending p \<Longrightarrow> hash_of e = hash_of f \<Longrightarrow> e = f"
    and one_per_slot: "ok p \<Longrightarrow> e \<in> pending p \<Longrightarrow> f \<in> pending p \<Longrightarrow> slot e = slot f \<Longrightarrow> e = f"
    and drop_ok: "ok p \<Longrightarrow> ok (drop_hash h p)"
    and drop_pending: "ok p \<Longrightarrow> pending (drop_hash h p) = {e \<in> pending p. hash_of e \<noteq> h}"
begin

lemma drop_all:
  "ok p \<Longrightarrow> ok (fold drop_hash hs p) \<and> pending (fold drop_hash hs p) = {e \<in> pending p. hash_of e \<notin> set hs}"
  by (induction hs arbitrary: p) (auto simp: drop_ok drop_pending)

lemma drop_selected:
  assumes "ok p" "set es = {e \<in> pending p. sel e}"
  shows "pending (fold drop_hash (map hash_of es) p) = {e \<in> pending p. \<not> sel e}"
  using drop_all [OF assms(1)] one_per_hash [OF assms(1)] assms(2) by auto

end

definition entry_ok :: "env \<Rightarrow> hash32 \<Rightarrow> pending_entry \<Rightarrow> bool" where
"entry_ok E h e \<longleftrightarrow> pe_tx_hash e = h \<and> compute_tx_hash E (pe_raw_bytes e) = h
   \<and> decode_tx E (pe_raw_bytes e) = Ok (pe_tx e) \<and> pe_fee e = tx_fee (pe_tx e) \<and> pe_fee_tip e = tx_fee_tip (pe_tx e)"

definition pool_ok :: "env \<Rightarrow> mempool \<Rightarrow> bool" where
"pool_ok E p \<longleftrightarrow> hwf (mp_by_hash p) \<and> hwf (mp_by_sender_nonce p)
   \<and> (\<forall>h e. hget (mp_by_hash p) h = Some e \<longrightarrow> entry_ok E h e \<and> hget (mp_by_sender_nonce p) (slot_of e) = Some h)
   \<and> (\<forall>k h. hget (mp_by_sender_nonce p) k = Some h \<longrightarrow> (\<exists>e. hget (mp_by_hash p) h = Some e \<and> slot_of e = k))"

definition entries :: "mempool \<Rightarrow> pending_entry set" where
"entries p = set (all_pending p)"

lemma pool_okI:
  assumes "hwf (mp_by_hash p)" "hwf (mp_by_sender_nonce p)"
    "\<And>h e. hget (mp_by_hash p) h = Some e \<Longrightarrow> entry_ok E h e \<and> hget (mp_by_sender_nonce p) (slot_of e) = Some h"
    "\<And>k h. hget (mp_by_sender_nonce p) k = Some h \<Longrightarrow> \<exists>e. hget (mp_by_hash p) h = Some e \<and> slot_of e = k"
  shows "pool_ok E p"
  using assms unfolding pool_ok_def by blast

lemma pool_ok_hwf: "pool_ok E p \<Longrightarrow> hwf (mp_by_hash p)" "pool_ok E p \<Longrightarrow> hwf (mp_by_sender_nonce p)"
  unfolding pool_ok_def by blast+

lemma pool_okD:
  assumes "pool_ok E p" "hget (mp_by_hash p) h = Some e"
  shows "entry_ok E h e" "hget (mp_by_sender_nonce p) (slot_of e) = Some h"
  using assms unfolding pool_ok_def by blast+

lemma pool_ok_slot:
  assumes "pool_ok E p" "hget (mp_by_sender_nonce p) k = Some h"
  obtains e where "hget (mp_by_hash p) h = Some e" "slot_of e = k"
  using assms unfolding pool_ok_def by blast

lemma entries_iff: "pool_ok E p \<Longrightarrow> e \<in> entries p \<longleftrightarrow> hget (mp_by_hash p) (pe_tx_hash e) = Some e"
  using pool_okD(1) by (fastforce simp: entries_def all_pending_def hvals_iff pool_ok_hwf entry_ok_def)

lemma pool_ok_new: "pool_ok E mempool_new"
  by (simp add: pool_ok_def mempool_new_def)

lemma pool_ok_counts [simp]:
  "pool_ok E (p\<lparr> mp_vc_admitted_count := n \<rparr>) = pool_ok E p"
  "pool_ok E (p\<lparr> mp_vc_per_block_cap := n \<rparr>) = pool_ok E p"
  by (simp_all add: pool_ok_def)

lemma evict_ok:
  assumes ok: "pool_ok E p"
  shows "pool_ok E (evicted h p)"
proof (cases "hget (mp_by_hash p) h")
  case (Some e)
  define q where "q = p\<lparr> mp_by_hash := hdel h (mp_by_hash p), mp_by_sender_nonce := hdel (slot_of e) (mp_by_sender_nonce p) \<rparr>"
  have bh: "hget (mp_by_hash q) j = (if j = h then None else hget (mp_by_hash p) j)" for j
    by (simp add: q_def map_simps)
  have bs: "hget (mp_by_sender_nonce q) k = (if k = slot_of e then None else hget (mp_by_sender_nonce p) k)" for k
    by (simp add: q_def map_simps)
  have "pool_ok E q"
  proof (rule pool_okI)
    show "hwf (mp_by_hash q)" "hwf (mp_by_sender_nonce q)" using pool_ok_hwf [OF ok] by (simp_all add: q_def)
  next
    fix j f assume "hget (mp_by_hash q) j = Some f"
    then have f: "j \<noteq> h" "hget (mp_by_hash p) j = Some f" by (auto simp: bh split: if_splits)
    have "slot_of f \<noteq> slot_of e" using pool_okD(2) [OF ok f(2)] pool_okD(2) [OF ok Some] f(1) by auto
    then show "entry_ok E j f \<and> hget (mp_by_sender_nonce q) (slot_of f) = Some j"
      using pool_okD [OF ok f(2)] by (simp add: bs)
  next
    fix k j assume "hget (mp_by_sender_nonce q) k = Some j"
    then have k: "k \<noteq> slot_of e" "hget (mp_by_sender_nonce p) k = Some j" by (auto simp: bs split: if_splits)
    from pool_ok_slot [OF ok k(2)] obtain f where f: "hget (mp_by_hash p) j = Some f" "slot_of f = k" by blast
    moreover have "j \<noteq> h" using f Some k(1) by auto
    ultimately show "\<exists>f. hget (mp_by_hash q) j = Some f \<and> slot_of f = k" by (simp add: bh)
  qed
  then show ?thesis by (simp add: evicted_def evict_def Some q_def)
qed (simp add: evicted_def evict_def ok)

lemma evict_entries:
  assumes ok: "pool_ok E p"
  shows "entries (evicted h p) = {e \<in> entries p. pe_tx_hash e \<noteq> h}"
proof (rule set_eqI)
  fix e
  show "e \<in> entries (evicted h p) \<longleftrightarrow> e \<in> {e \<in> entries p. pe_tx_hash e \<noteq> h}"
    unfolding entries_iff [OF evict_ok [OF ok]] mem_Collect_eq entries_iff [OF ok]
    by (auto simp: evicted_def evict_def map_simps split: option.splits if_splits)
qed

lemma entries_unique:
  assumes ok: "pool_ok E p" and e: "e \<in> entries p" and f: "f \<in> entries p"
  shows "pe_tx_hash e = pe_tx_hash f \<Longrightarrow> e = f" "slot_of e = slot_of f \<Longrightarrow> e = f"
proof -
  have h: "hget (mp_by_hash p) (pe_tx_hash e) = Some e" "hget (mp_by_hash p) (pe_tx_hash f) = Some f"
    using e f by (simp_all add: entries_iff [OF ok])
  show same: "e = f" if "pe_tx_hash e = pe_tx_hash f" using h that by (metis option.inject)
  show "e = f" if "slot_of e = slot_of f"
    using same pool_okD(2) [OF ok h(1)] pool_okD(2) [OF ok h(2)] that by (metis option.inject)
qed

interpretation mp: pending_pool "pool_ok E" entries pe_tx_hash slot_of evicted for E
  by (unfold_locales; rule entries_unique evict_ok evict_entries; assumption)

lemma stale_ok:
  assumes ok: "pool_ok E p"
  shows "pool_ok E (evict_stale a n p)"
    "entries (evict_stale a n p) = {e \<in> entries p. \<not> (tx_sender (pe_tx e) = a \<and> tx_nonce (pe_tx e) < n)}"
proof -
  show "pool_ok E (evict_stale a n p)" using mp.drop_all [OF ok] by (simp add: evict_stale_def Let_def)
  show "entries (evict_stale a n p) = {e \<in> entries p. \<not> (tx_sender (pe_tx e) = a \<and> tx_nonce (pe_tx e) < n)}"
    unfolding evict_stale_def Let_def
    by (rule mp.drop_selected [OF ok]) (auto simp: entries_def all_pending_def)
qed

lemma insert_ok:
  assumes ok: "pool_ok E p" and new: "hget (mp_by_hash p) (pe_tx_hash e) = None"
    and free: "hget (mp_by_sender_nonce p) (slot_of e) = None" and e: "entry_ok E (pe_tx_hash e) e"
  shows "pool_ok E (pool_insert e p)" "entries (pool_insert e p) = insert e (entries p)"
proof -
  define q where "q = pool_insert e p"
  have bh: "hget (mp_by_hash q) j = (if j = pe_tx_hash e then Some e else hget (mp_by_hash p) j)" for j
    by (simp add: q_def pool_insert_def map_simps)
  have bs: "hget (mp_by_sender_nonce q) k = (if k = slot_of e then Some (pe_tx_hash e) else hget (mp_by_sender_nonce p) k)" for k
    by (simp add: q_def pool_insert_def map_simps)
  have ok': "pool_ok E q"
  proof (rule pool_okI)
    show "hwf (mp_by_hash q)" "hwf (mp_by_sender_nonce q)"
      using pool_ok_hwf [OF ok] by (simp_all add: q_def pool_insert_def)
  next
    fix j f assume j: "hget (mp_by_hash q) j = Some f"
    show "entry_ok E j f \<and> hget (mp_by_sender_nonce q) (slot_of f) = Some j"
    proof (cases "j = pe_tx_hash e")
      case False
      then have "hget (mp_by_hash p) j = Some f" using j by (simp add: bh)
      from pool_okD [OF ok this] show ?thesis using free by (auto simp: bs)
    qed (use j e in \<open>auto simp: bh bs\<close>)
  next
    fix k j assume k: "hget (mp_by_sender_nonce q) k = Some j"
    show "\<exists>f. hget (mp_by_hash q) j = Some f \<and> slot_of f = k"
    proof (cases "k = slot_of e")
      case False
      then have "hget (mp_by_sender_nonce p) k = Some j" using k by (simp add: bs)
      from pool_ok_slot [OF ok this] obtain f where "hget (mp_by_hash p) j = Some f" "slot_of f = k" by blast
      then show ?thesis using new by (auto simp: bh)
    qed (use k in \<open>auto simp: bh bs\<close>)
  qed
  show "pool_ok E (pool_insert e p)" using ok' by (simp add: q_def)
  show "entries (pool_insert e p) = insert e (entries p)"
  proof (rule set_eqI)
    fix f
    have "f \<in> entries q \<longleftrightarrow> f = e \<or> f \<in> entries p"
      unfolding entries_iff [OF ok'] entries_iff [OF ok] bh using new by (cases "pe_tx_hash f = pe_tx_hash e") auto
    then show "f \<in> entries (pool_insert e p) \<longleftrightarrow> f \<in> insert e (entries p)" by (simp add: q_def)
  qed
qed

section \<open>Admission keeps the indexes in step\<close>

abbreviation raw_entry :: "env \<Rightarrow> bytes \<Rightarrow> transaction \<Rightarrow> pending_entry" where
"raw_entry E raw tx \<equiv> \<lparr> pe_tx = tx, pe_raw_bytes = raw, pe_tx_hash = compute_tx_hash E raw, pe_fee = tx_fee tx,
   pe_fee_tip = tx_fee_tip tx \<rparr>"

definition premium :: "state_view \<Rightarrow> transaction \<Rightarrow> bool" where
"premium v tx \<longleftrightarrow> sv_alg_sig_class v (tx_sig_alg_id tx) = Some SC_Premium"

lemma slot_of_entry [simp]: "slot_of (raw_entry E raw tx) = (tx_sender tx, tx_nonce tx)"
  by (simp add: slot_of_def)

lemma entry_ok_raw: "decode_tx E raw = Ok tx \<Longrightarrow> entry_ok E (compute_tx_hash E raw) (raw_entry E raw tx)"
  by (simp add: entry_ok_def)

lemma evict_counts [simp]:
  "mp_vc_admitted_count (evicted h p) = mp_vc_admitted_count p"
  "mp_vc_per_block_cap (evicted h p) = mp_vc_per_block_cap p"
  by (auto simp: evicted_def evict_def split: option.splits)

lemma stale_counts [simp]:
  "mp_vc_admitted_count (evict_stale a n p) = mp_vc_admitted_count p"
  "mp_vc_per_block_cap (evict_stale a n p) = mp_vc_per_block_cap p"
proof -
  have "mp_vc_admitted_count (fold evicted hs p) = mp_vc_admitted_count p
      \<and> mp_vc_per_block_cap (fold evicted hs p) = mp_vc_per_block_cap p" for hs
    by (induction hs arbitrary: p) simp_all
  then show "mp_vc_admitted_count (evict_stale a n p) = mp_vc_admitted_count p"
    "mp_vc_per_block_cap (evict_stale a n p) = mp_vc_per_block_cap p" by (simp_all add: evict_stale_def Let_def)
qed

lemma admit_entry_ok:
  assumes ok: "pool_ok E p" and "decode_tx E raw = Ok tx" "pool_get p (compute_tx_hash E raw) = None"
    "pending_for_slot p (tx_sender tx) (tx_nonce tx) = None" "q = admit_entry v (raw_entry E raw tx) p"
  shows "pool_ok E q" "entries q = insert (raw_entry E raw tx) (entries p)"
    "mp_vc_admitted_count q = mp_vc_admitted_count p + (if premium v tx then 1 else 0)"
    "mp_vc_per_block_cap q = mp_vc_per_block_cap p"
proof -
  have i: "pool_ok E (pool_insert (raw_entry E raw tx) p)"
    "entries (pool_insert (raw_entry E raw tx) p) = insert (raw_entry E raw tx) (entries p)"
    using insert_ok [OF ok, of "raw_entry E raw tx"] assms(2-4)
    by (simp_all add: entry_ok_raw pool_get_def pending_for_slot_def)
  then show "pool_ok E q" by (simp add: assms(5) admit_entry_def Let_def increment_vc_count_def)
  show "entries q = insert (raw_entry E raw tx) (entries p)"
    using i(2) by (simp add: assms(5) admit_entry_def Let_def increment_vc_count_def entries_def all_pending_def)
  show "mp_vc_admitted_count q = mp_vc_admitted_count p + (if premium v tx then 1 else 0)"
    "mp_vc_per_block_cap q = mp_vc_per_block_cap p"
    by (simp_all add: assms(5) admit_entry_def Let_def increment_vc_count_def pool_insert_def premium_def)
qed

text \<open>The pool with the slot of a new transaction cleared.\<close>

definition cleared :: "mempool \<Rightarrow> transaction \<Rightarrow> mempool" where
"cleared p tx = (case pending_for_slot p (tx_sender tx) (tx_nonce tx) of None \<Rightarrow> p | Some h \<Rightarrow> evicted h p)"

lemma cleared_ok:
  assumes ok: "pool_ok E p"
  shows "pool_ok E (cleared p tx)" "pending_for_slot (cleared p tx) (tx_sender tx) (tx_nonce tx) = None"
    "entries (cleared p tx) = {f \<in> entries p. slot_of f \<noteq> (tx_sender tx, tx_nonce tx)}"
    "pool_get p h = None \<Longrightarrow> pool_get (cleared p tx) h = None"
    "mp_vc_admitted_count (cleared p tx) = mp_vc_admitted_count p"
    "mp_vc_per_block_cap (cleared p tx) = mp_vc_per_block_cap p"
proof -
  let ?k = "(tx_sender tx, tx_nonce tx)"
  have none: "slot_of f \<noteq> ?k" if "pending_for_slot p (tx_sender tx) (tx_nonce tx) = None" "f \<in> entries p" for f
    using that pool_okD(2) [OF ok] by (fastforce simp: entries_iff [OF ok] pending_for_slot_def)
  have some: "slot_of f = ?k \<longleftrightarrow> j = h"
    if h: "hget (mp_by_sender_nonce p) ?k = Some h" and f: "hget (mp_by_hash p) j = Some f" for h j f
  proof -
    from pool_ok_slot [OF ok h] obtain g where "hget (mp_by_hash p) h = Some g" "slot_of g = ?k" by blast
    then show ?thesis using pool_okD(2) [OF ok f] h f by auto
  qed
  show "pool_ok E (cleared p tx)" using ok by (simp add: cleared_def evict_ok split: option.splits)
  show "pending_for_slot (cleared p tx) (tx_sender tx) (tx_nonce tx) = None"
  proof (cases "hget (mp_by_sender_nonce p) ?k")
    case (Some h)
    from pool_ok_slot [OF ok Some] obtain f where "hget (mp_by_hash p) h = Some f" "slot_of f = ?k" by blast
    with Some show ?thesis by (simp add: cleared_def pending_for_slot_def evicted_def evict_def map_simps)
  qed (simp add: cleared_def pending_for_slot_def)
  show "entries (cleared p tx) = {f \<in> entries p. slot_of f \<noteq> ?k}"
  proof (cases "pending_for_slot p (tx_sender tx) (tx_nonce tx)")
    case (Some h)
    then have "slot_of f = ?k \<longleftrightarrow> pe_tx_hash f = h" if "f \<in> entries p" for f
      using some that by (simp add: pending_for_slot_def entries_iff [OF ok])
    with Some show ?thesis by (auto simp: cleared_def evict_entries [OF ok])
  qed (use none in \<open>auto simp: cleared_def\<close>)
  show "pool_get p h = None \<Longrightarrow> pool_get (cleared p tx) h = None"
    by (auto simp: cleared_def pool_get_def evicted_def evict_def map_simps split: option.splits)
qed (auto simp: cleared_def split: option.splits)

lemma admit_Ok:
  assumes ok: "pool_ok E p" and a: "try_admit E p raw v fp = Ok (q, r)"
  obtains tx where "decode_tx E raw = Ok tx" "validate_tx E tx raw (admission_context v fp tx) = Ok ()"
    "pool_get p (compute_tx_hash E raw) = None" "q = admit_entry v (raw_entry E raw tx) (cleared p tx)"
    "premium v tx \<longrightarrow> mp_vc_admitted_count p < mp_vc_per_block_cap p"
    "r = \<lparr> ar_tx_hash = compute_tx_hash E raw, ar_replaced = pending_for_slot p (tx_sender tx) (tx_nonce tx) \<rparr>"
    "\<forall>h f. pending_for_slot p (tx_sender tx) (tx_nonce tx) = Some h \<longrightarrow> pool_get p h = Some f \<longrightarrow>
       min_replacement_fee (pe_fee f) \<le> tx_fee tx \<and> pe_fee_tip f \<le> tx_fee_tip tx"
proof -
  from a obtain tx where tx: "decode_tx E raw = Ok tx" by (auto simp: try_admit_def result_simps)
  have "pool_get p h \<noteq> None" if "pending_for_slot p (tx_sender tx) (tx_nonce tx) = Some h" for h
    using that pool_ok_slot [OF ok, of "(tx_sender tx, tx_nonce tx)" h] unfolding pending_for_slot_def pool_get_def
    by blast
  with a tx that [of tx] show ?thesis
    by (auto simp: try_admit_def Let_def result_simps cleared_def premium_def not_less not_le
        split: if_splits option.splits)
qed

text \<open>All that happens to a pool: admissions, the evictions of the assembler, and its reset.\<close>

inductive pool_step :: "env \<Rightarrow> mempool \<Rightarrow> mempool \<Rightarrow> bool" for E where
step_admit: "try_admit E p raw v fp = Ok (q, r) \<Longrightarrow> pool_step E p q" |
step_evict: "pool_step E p (fst (evict h p))" |
step_stale: "pool_step E p (evict_stale a n p)" |
step_reset: "pool_step E p (reset_vc_count p)"

abbreviation pool_reachable :: "env \<Rightarrow> mempool \<Rightarrow> bool" where
"pool_reachable E \<equiv> reach (\<lambda>p. p = mempool_new) (pool_step E)"

definition pool_inv :: "env \<Rightarrow> mempool \<Rightarrow> bool" where
"pool_inv E p \<longleftrightarrow> pool_ok E p \<and> mp_vc_admitted_count p \<le> mp_vc_per_block_cap p"

lemma pool_inv_step: "pool_step E p q \<Longrightarrow> pool_inv E p \<Longrightarrow> pool_inv E q"
proof (induction rule: pool_step.induct)
  case (step_admit p raw v fp q r)
  then have ok: "pool_ok E p" and le: "mp_vc_admitted_count p \<le> mp_vc_per_block_cap p" by (simp_all add: pool_inv_def)
  show ?case
  proof (rule admit_Ok [OF ok step_admit.hyps])
    fix tx assume t: "decode_tx E raw = Ok tx" "pool_get p (compute_tx_hash E raw) = None"
      "q = admit_entry v (raw_entry E raw tx) (cleared p tx)"
      "premium v tx \<longrightarrow> mp_vc_admitted_count p < mp_vc_per_block_cap p"
    note c = cleared_ok [where tx = tx, OF ok]
    note e = admit_entry_ok [OF c(1) t(1) c(4) [OF t(2)] c(2) t(3)]
    show "pool_inv E q" using e(1) e(3,4) c(5,6) le t(4) by (auto simp: pool_inv_def Suc_le_eq)
  qed
qed (simp_all add: pool_inv_def evict_ok stale_ok reset_vc_count_def evicted_def [symmetric])

lemma pool_inv_reach: "pool_reachable E p \<Longrightarrow> pool_inv E p"
  by (rule reach_invariant [of "\<lambda>p. p = mempool_new" "pool_step E"])
    (auto simp: pool_inv_step, simp add: pool_inv_def pool_ok_new, simp add: mempool_new_def)

section \<open>Properties\<close>

lemma pending_hashes_distinct:
  assumes ok: "pool_ok E p"
  shows "distinct (map pe_tx_hash (hvals (mp_by_hash p)))"
proof -
  have "map pe_tx_hash (hvals (mp_by_hash p)) = map fst (mp_by_hash p)"
    using pool_okD(1) [OF ok] mem_hget [OF pool_ok_hwf(1) [OF ok]] by (force simp: hvals_def entry_ok_def)
  then show ?thesis using pool_ok_hwf(1) [OF ok] by (simp add: hwf_def)
qed

lemma sender_nonces_distinct:
  assumes ok: "pool_ok E p"
  shows "distinct (map (\<lambda>e. tx_nonce (pe_tx e)) (filter (\<lambda>e. tx_sender (pe_tx e) = a) (hvals (mp_by_hash p))))"
proof -
  have "distinct (filter (\<lambda>e. tx_sender (pe_tx e) = a) (hvals (mp_by_hash p)))"
    using pending_hashes_distinct [OF ok] by (intro distinct_filter) (simp add: distinct_map)
  moreover have "e = f" if "e \<in> set (hvals (mp_by_hash p))" "f \<in> set (hvals (mp_by_hash p))"
    "tx_sender (pe_tx e) = a" "tx_sender (pe_tx f) = a" "tx_nonce (pe_tx e) = tx_nonce (pe_tx f)" for e f
    using entries_unique(2) [OF ok, of e f] that by (simp add: entries_def all_pending_def slot_of_def)
  ultimately show ?thesis by (auto simp: distinct_map inj_on_def)
qed

lemma sender_sorted:
  assumes "pool_ok E p"
  shows "sorted_wrt (<) (map (\<lambda>e. tx_nonce (pe_tx e)) (pending_for_sender p a))"
proof -
  let ?xs = "filter (\<lambda>e. tx_sender (pe_tx e) = a) (hvals (mp_by_hash p))" and ?f = "\<lambda>e. tx_nonce (pe_tx e)"
  have "distinct (map ?f (sort_key ?f ?xs))"
    using sender_nonces_distinct [OF assms, of a] by (simp add: distinct_map)
  then show ?thesis by (simp add: pending_for_sender_def strict_sorted_iff)
qed

text \<open>
  C21: the two indexes of the mempool never drift apart.  However admissions, replacements, evictions
  and resets are interleaved, a slot is taken exactly when the entry it names is in the pool and has
  that sender and nonce, so the recovery branch of admission is dead code; every entry is filed
  under the hash of its bytes and is what they decode to; the counter of slow signatures stays
  within the cap; and the entries of a sender come out in strictly ascending nonces.
\<close>

theorem mempool_indexes_agree:
  assumes "pool_reachable E p"
  shows "(pending_for_slot p a n = Some h \<longleftrightarrow>
            (\<exists>e. pool_get p h = Some e \<and> tx_sender (pe_tx e) = a \<and> tx_nonce (pe_tx e) = n))
    \<and> (pool_get p h = Some e \<longrightarrow> h = compute_tx_hash E (pe_raw_bytes e) \<and> decode_tx E (pe_raw_bytes e) = Ok (pe_tx e))
    \<and> mp_vc_admitted_count p \<le> mp_vc_per_block_cap p
    \<and> sorted_wrt (<) (map (\<lambda>e. tx_nonce (pe_tx e)) (pending_for_sender p a))"
proof -
  have ok: "pool_ok E p" and c: "mp_vc_admitted_count p \<le> mp_vc_per_block_cap p"
    using pool_inv_reach [OF assms] by (simp_all add: pool_inv_def)
  have "pending_for_slot p a n = Some h \<longleftrightarrow>
      (\<exists>e. pool_get p h = Some e \<and> tx_sender (pe_tx e) = a \<and> tx_nonce (pe_tx e) = n)"
    using ok unfolding pool_ok_def pool_get_def pending_for_slot_def slot_of_def by blast
  moreover have "pool_get p h = Some e \<longrightarrow>
      h = compute_tx_hash E (pe_raw_bytes e) \<and> decode_tx E (pe_raw_bytes e) = Ok (pe_tx e)"
    using pool_okD(1) [OF ok] by (simp add: pool_get_def entry_ok_def)
  ultimately show ?thesis using c sender_sorted [OF ok] by blast
qed

definition sample_view :: state_view where
"sample_view = \<lparr> sv_get_account = (\<lambda>a. Some sample_account), sv_alg_lifecycle = (\<lambda>_. Some LC_Active),
   sv_alg_sig_class = (\<lambda>_. Some SC_Standard), sv_alg_min_fee = (\<lambda>_. Some 0), sv_chain_id = [118],
   sv_current_height = 20, sv_base_fee_dynamic = 0, sv_fork_digest = [0, 0, 0, 1] \<rparr>"

text \<open>Two encodings of one slot, the second with a fee of 550 in place of 500; a fixed signing preimage.\<close>

definition bump_tx :: transaction where
"bump_tx = sample_tx\<lparr> tx_fee := 550 \<rparr>"

abbreviation pairs_of :: "transaction \<Rightarrow> cbor" where
"pairs_of tx \<equiv> CMap (tx_pairs tx [1, 2, 0, 2, 0, 9, 9])"

definition admit_env :: env where
"admit_env = \<lparr> e_xof = (\<lambda>d n. take n (d @ replicate n 0)),
   e_cbor_read = (\<lambda>bs. if bs = [42] then Ok (pairs_of sample_tx) else if bs = [43] then Ok (pairs_of bump_tx)
                       else Err ''eof''),
   e_cbor_write = (\<lambda>v. if v = pairs_of sample_tx then Ok [42] else if v = pairs_of bump_tx then Ok [43] else Ok []),
   e_verify = (\<lambda>pk msg sig. True) \<rparr>"

lemma admit_decode:
  assumes "tx_wf tx" "tx_sig_alg_id tx = MlDsa65" "tx_signature tx = [9, 9]"
    "e_cbor_write E (pairs_of tx) = Ok raw" "e_cbor_read E raw = Ok (pairs_of tx)"
  shows "decode_tx E raw = Ok tx"
proof (rule decode_tx_perm [OF assms(1) _ tx_assoc_distinct refl])
  show "encode_envelope (tx_sig_alg_id tx) (tx_signature tx) = Ok [1, 2, 0, 2, 0, 9, 9]"
    by (simp add: assms(2,3) encode_envelope_def le_bytes_u16_def U16_MAX_def ENVELOPE_VERSION_def)
qed (use assms(4,5) in \<open>simp_all add: tx_pairs_assoc\<close>)

lemma admit_decodes: "decode_tx admit_env [42] = Ok sample_tx" "decode_tx admit_env [43] = Ok bump_tx"
proof -
  have "pairs_of bump_tx \<noteq> pairs_of sample_tx" by (simp add: bump_tx_def sample_tx_def tx_pairs_def)
  then have "e_cbor_write admit_env (pairs_of sample_tx) = Ok [42]" "e_cbor_read admit_env [42] = Ok (pairs_of sample_tx)"
    "e_cbor_write admit_env (pairs_of bump_tx) = Ok [43]" "e_cbor_read admit_env [43] = Ok (pairs_of bump_tx)"
    by (simp_all add: admit_env_def)
  note io = this
  show "decode_tx admit_env [42] = Ok sample_tx"
    by (rule admit_decode [OF _ _ _ io(1,2)]) (simp_all add: tx_wf_def sample_tx_def width_simps)
  show "decode_tx admit_env [43] = Ok bump_tx"
    by (rule admit_decode [OF _ _ _ io(3,4)]) (simp_all add: tx_wf_def bump_tx_def sample_tx_def width_simps)
qed

lemma admit_preimage: "\<exists>p. build_preimage admit_env d tx = Ok p"
  by (auto simp: build_preimage_def admit_env_def)

lemma admit_validates:
  assumes "tx = sample_tx\<lparr> tx_fee := fee \<rparr>" "fee = 500 \<or> fee = 550" "length raw = 1"
  shows "validate_tx admit_env tx raw (admission_context sample_view sample_params tx) = Ok ()"
proof -
  obtain p where "build_preimage admit_env [0, 0, 0, 1] tx = Ok p" using admit_preimage by blast
  moreover have "e_verify admit_env = (\<lambda>pk msg sig. True)" by (simp add: admit_env_def)
  ultimately show ?thesis using assms
    by (auto simp: validate_tx_def admission_context_def sample_tx_def sample_view_def sample_account_def sample_params_def
      sample_key_def MAX_TX_BYTES_def key_lookup_def required_fee_breakdown_def fee_total_def effective_base_fee_def
      sigverify_fee_for_alg_def saturating_add_def saturating_mul_def truncate_u64_def width_simps ATX_VAULT_def Let_def)
qed

definition one_pool :: mempool where
"one_pool = admit_entry sample_view (raw_entry admit_env [42] sample_tx) mempool_new"

lemma admit_first:
  "try_admit admit_env mempool_new [42] sample_view sample_params =
     Ok (one_pool, \<lparr> ar_tx_hash = compute_tx_hash admit_env [42], ar_replaced = None \<rparr>)"
proof -
  have "validate_tx admit_env sample_tx [42] (admission_context sample_view sample_params sample_tx) = Ok ()"
    by (rule admit_validates [where fee = 500]) (simp_all add: sample_tx_def)
  then show ?thesis
    by (simp add: try_admit_def admit_decodes pool_get_def pending_for_slot_def mempool_new_def one_pool_def Let_def
      sample_view_def)
qed

lemma one_pool_reachable: "pool_reachable admit_env one_pool"
proof -
  have "pool_reachable admit_env mempool_new" by (rule reach_start) simp
  from reach_step [OF this step_admit [OF admit_first]] show ?thesis .
qed

text \<open>The two encodings have different hashes, and the second one finds the slot of the first taken.\<close>

lemma one_pool_get:
  "pool_get one_pool h = (if h = compute_tx_hash admit_env [42] then Some (raw_entry admit_env [42] sample_tx) else None)"
  "pending_for_slot one_pool (replicate 32 5) 3 = Some (compute_tx_hash admit_env [42])"
  by (simp_all add: one_pool_def admit_entry_def Let_def increment_vc_count_def pool_insert_def mempool_new_def pool_get_def
      pending_for_slot_def map_simps slot_of_def sample_tx_def)

lemma admit_hashes: "compute_tx_hash admit_env [43] \<noteq> compute_tx_hash admit_env [42]"
  by (simp add: compute_tx_hash_def shake256_32_def admit_env_def)

lemma admit_second:
  "\<exists>q. try_admit admit_env one_pool [43] sample_view sample_params =
     Ok (q, \<lparr> ar_tx_hash = compute_tx_hash admit_env [43], ar_replaced = Some (compute_tx_hash admit_env [42]) \<rparr>)"
proof -
  have "validate_tx admit_env bump_tx [43] (admission_context sample_view sample_params bump_tx) = Ok ()"
    by (rule admit_validates [where fee = 550]) (simp_all add: bump_tx_def)
  moreover have "tx_sender bump_tx = replicate 32 5" "tx_nonce bump_tx = 3" by (simp_all add: bump_tx_def sample_tx_def)
  ultimately show ?thesis
    by (simp add: try_admit_def admit_decodes admit_hashes one_pool_get Let_def sample_view_def min_replacement_fee_def
      REPLACEMENT_FEE_BUMP_NUM_def REPLACEMENT_FEE_BUMP_DEN_def saturating_mul_def width_simps)
      (simp add: bump_tx_def sample_tx_def)
qed

theorem mempool_indexes_agree_witness:
  "pool_reachable admit_env one_pool
   \<and> (\<exists>h e. pending_for_slot one_pool (replicate 32 5) 3 = Some h \<and> pool_get one_pool h = Some e \<and> tx_nonce (pe_tx e) = 3)"
  using mempool_indexes_agree [OF one_pool_reachable, of "replicate 32 5" 3 "compute_tx_hash admit_env [42]"]
    one_pool_reachable one_pool_get(2) by blast

lemma min_replacement_fee_cases:
  "if 110 * old \<le> U64_MAX then old \<le> min_replacement_fee old \<and> 110 * old < 100 * (min_replacement_fee old + 1)
   else min_replacement_fee old = U64_MAX div 100"
proof -
  have "old * 110 \<le> U64_MAX \<Longrightarrow> min_replacement_fee old = old * 110 div 100"
    by (simp add: min_replacement_fee_def saturating_mul_def REPLACEMENT_FEE_BUMP_NUM_def REPLACEMENT_FEE_BUMP_DEN_def)
  moreover have "\<not> old * 110 \<le> U64_MAX \<Longrightarrow> min_replacement_fee old = U64_MAX div 100"
    by (simp add: min_replacement_fee_def saturating_mul_def REPLACEMENT_FEE_BUMP_NUM_def REPLACEMENT_FEE_BUMP_DEN_def)
  moreover have "old \<le> old * 110 div 100" using div_le_mono [of "old * 100" "old * 110" 100] by simp
  moreover have "110 * old < 100 * (old * 110 div 100 + 1)"
    using dividend_less_times_div [of 100 "old * 110"] by (simp only: distrib_left mult_1_right add.commute mult.commute [of old])
  ultimately show ?thesis by (cases "110 * old \<le> U64_MAX") (simp_all only: mult.commute [of old] if_True if_False simp_thms)
qed

text \<open>
  C22: what an admission does to the pool.  The new transaction decodes, is valid in the present
  state, and takes its slot; the transaction that held the slot, and no other, goes, and only when
  the newcomer offers no smaller tip and at least the replacement fee.  That is the old fee and ten per cent, rounded down, so that below a fee
  of ten an equal fee replaces.  Above a fee of \<open>U64_MAX div 110\<close> the product in the bump saturates and the bar drops to the
  constant \<open>U64_MAX div 100\<close>, which is below the fee it guards: a lower fee then replaces.
\<close>

theorem admission_replaces_slot:
  assumes "pool_reachable E p" "try_admit E p raw v fp = Ok (q, r)"
  shows "\<exists>tx. decode_tx E raw = Ok tx \<and> validate_tx E tx raw (admission_context v fp tx) = Ok ()
    \<and> entries q = insert (raw_entry E raw tx) {f \<in> entries p. slot_of f \<noteq> (tx_sender tx, tx_nonce tx)}
    \<and> ar_replaced r = pending_for_slot p (tx_sender tx) (tx_nonce tx)
    \<and> (\<forall>f \<in> entries p. slot_of f = (tx_sender tx, tx_nonce tx) \<longrightarrow>
         pe_fee_tip f \<le> tx_fee_tip tx \<and> min_replacement_fee (pe_fee f) \<le> tx_fee tx
         \<and> (if 110 * pe_fee f \<le> U64_MAX then pe_fee f \<le> tx_fee tx \<and> 110 * pe_fee f < 100 * (tx_fee tx + 1)
            else min_replacement_fee (pe_fee f) = U64_MAX div 100))"
proof -
  have ok: "pool_ok E p" using pool_inv_reach [OF assms(1)] by (simp add: pool_inv_def)
  obtain tx where t: "decode_tx E raw = Ok tx" "pool_get p (compute_tx_hash E raw) = None"
      "q = admit_entry v (raw_entry E raw tx) (cleared p tx)"
    and rest: "validate_tx E tx raw (admission_context v fp tx) = Ok ()"
      "ar_replaced r = pending_for_slot p (tx_sender tx) (tx_nonce tx)"
    and bar: "\<forall>h f. pending_for_slot p (tx_sender tx) (tx_nonce tx) = Some h \<longrightarrow> pool_get p h = Some f \<longrightarrow>
       min_replacement_fee (pe_fee f) \<le> tx_fee tx \<and> pe_fee_tip f \<le> tx_fee_tip tx"
    by (rule admit_Ok [OF ok assms(2)]) simp
  note c = cleared_ok [where tx = tx, OF ok]
  have entries: "entries q = insert (raw_entry E raw tx) {f \<in> entries p. slot_of f \<noteq> (tx_sender tx, tx_nonce tx)}"
    unfolding admit_entry_ok(2) [OF c(1) t(1) c(4) [OF t(2)] c(2) t(3)] c(3) by (rule refl)
  have old: "pe_fee_tip f \<le> tx_fee_tip tx \<and> min_replacement_fee (pe_fee f) \<le> tx_fee tx"
    if f: "f \<in> entries p" "slot_of f = (tx_sender tx, tx_nonce tx)" for f
  proof -
    have g: "pool_get p (pe_tx_hash f) = Some f" using f(1) by (simp add: pool_get_def entries_iff [OF ok])
    then have "pending_for_slot p (tx_sender tx) (tx_nonce tx) = Some (pe_tx_hash f)"
      using pool_okD(2) [OF ok, of "pe_tx_hash f" f] f(2) by (simp add: pool_get_def pending_for_slot_def)
    with g bar show ?thesis by blast
  qed
  have bump: "if 110 * pe_fee f \<le> U64_MAX then pe_fee f \<le> tx_fee tx \<and> 110 * pe_fee f < 100 * (tx_fee tx + 1)
      else min_replacement_fee (pe_fee f) = U64_MAX div 100" if "min_replacement_fee (pe_fee f) \<le> tx_fee tx" for f
    using min_replacement_fee_cases [of "pe_fee f"] that by (auto split: if_splits)
  show ?thesis using t(1) rest entries old bump by blast
qed

theorem admission_replaces_slot_witness:
  "\<exists>q r tx. try_admit admit_env one_pool [43] sample_view sample_params = Ok (q, r)
     \<and> decode_tx admit_env [43] = Ok tx \<and> ar_replaced r = pending_for_slot one_pool (tx_sender tx) (tx_nonce tx)"
proof -
  obtain q r where a: "try_admit admit_env one_pool [43] sample_view sample_params = Ok (q, r)"
    using admit_second by blast
  from admission_replaces_slot [OF one_pool_reachable this] a show ?thesis by blast
qed

end
