(* ===== verification/Block.thy ===== *)
theory Block
  imports Crypto_Hash Types
begin

text \<open>
  Blocks (\<open>pqc-types/src/block.rs\<close>), their hashes (\<open>compute_tx_root\<close> and \<open>compute_block_hash\<close>
  of \<open>pqc-consensus/src/engine.rs\<close>) and epochs (\<open>epoch.rs\<close>).  The block hash is shown to bind
  the header and the list of transactions, and the epochs to partition the heights.
\<close>

section \<open>Blocks\<close>

definition HEADER_VERSION_V1 :: nat where
"HEADER_VERSION_V1 = 1"

definition empty_extension_root :: "xof \<Rightarrow> hash32" where
"empty_extension_root X = tagged_hash X (bstr ''VIPER-EXT-EMPTY-V1'') []"

record block_header =
  bh_header_version :: nat
  bh_height :: nat
  bh_prev_hash :: hash32
  bh_state_root :: hash32
  bh_tx_root :: hash32
  bh_timestamp :: nat
  bh_proposer :: bytes
  bh_extension_root :: hash32

definition block_header_default :: "xof \<Rightarrow> block_header" where
"block_header_default X = \<lparr> bh_header_version = HEADER_VERSION_V1, bh_height = 0, bh_prev_hash = replicate 32 0,
   bh_state_root = replicate 32 0, bh_tx_root = replicate 32 0, bh_timestamp = 0, bh_proposer = [],
   bh_extension_root = empty_extension_root X \<rparr>"

record commit_sig =
  cs_validator_address :: bytes
  cs_sig_alg_id :: alg_id
  cs_round :: nat
  cs_signature :: bytes

record block =
  bl_header :: block_header
  bl_tx_hashes :: "hash32 list"
  bl_commit_signatures :: "commit_sig list"

section \<open>Block hashes\<close>

definition compute_tx_root :: "xof \<Rightarrow> hash32 list \<Rightarrow> hash32" where
"compute_tx_root X tx_hashes =
   th_finish X (push_chunks tx_hashes (push_u64 (length tx_hashes) (th_new X (bstr ''PQC-TX-ROOT-V1''))))"

definition compute_block_hash :: "xof \<Rightarrow> block \<Rightarrow> hash32" where
"compute_block_hash X b =
   (let h = bl_header b;
        d0 = th_new X (bstr ''VIPER-BLOCK-HASH-V1'');
        d1 = push_u64 (bh_header_version h) d0;
        d2 = push_u64 (bh_height h) d1;
        d3 = push_chunk (bh_prev_hash h) d2;
        d4 = push_chunk (bh_state_root h) d3;
        d5 = push_chunk (bh_tx_root h) d4;
        d6 = push_u64 (bh_timestamp h) d5;
        d7 = push_chunk (bh_proposer h) d6;
        d8 = push_chunk (bh_extension_root h) d7;
        d9 = push_u64 (length (bl_tx_hashes b)) d8
    in th_finish X (push_chunks (bl_tx_hashes b) d9))"

section \<open>Epochs\<close>

definition EPOCH_DURATION_MAINNET :: nat where
"EPOCH_DURATION_MAINNET = 7200"

definition EPOCH_DURATION_TESTNET :: nat where
"EPOCH_DURATION_TESTNET = 43200"

definition EPOCH_DURATION_DEVNET :: nat where
"EPOCH_DURATION_DEVNET = 60"

definition EPOCH_DURATION_MIN :: nat where
"EPOCH_DURATION_MIN = 1800"

record epoch_info =
  ei_epoch_number :: nat
  ei_start_height :: nat
  ei_end_height :: nat
  ei_epoch_duration :: nat

text \<open>Division by zero and the sum for the last height panic.\<close>

definition epoch_info_for_height :: "nat \<Rightarrow> nat \<Rightarrow> (epoch_info, unit) result" where
"epoch_info_for_height height epoch_duration =
   (if epoch_duration = 0 then Panic
    else
      let epoch_number = height div epoch_duration in
      bind_r (or_panic (checked_mul U64_MAX epoch_number epoch_duration)) (\<lambda>start_height.
      bind_r (or_panic (checked_add U64_MAX start_height (saturating_sub epoch_duration 1))) (\<lambda>end_height.
      Ok \<lparr> ei_epoch_number = epoch_number, ei_start_height = start_height, ei_end_height = end_height,
           ei_epoch_duration = epoch_duration \<rparr>)))"

definition is_epoch_boundary :: "nat \<Rightarrow> nat \<Rightarrow> bool" where
"is_epoch_boundary height epoch_duration \<longleftrightarrow> height > 0 \<and> epoch_duration dvd height"

definition epoch_for_height :: "nat \<Rightarrow> nat \<Rightarrow> (nat, unit) result" where
"epoch_for_height height epoch_duration =
   (if epoch_duration = 0 then Panic else Ok (height div epoch_duration))"

section \<open>The block hash binds the block\<close>

text \<open>What is absorbed after the tag: ten framed values and the framed hashes.\<close>

definition block_chunks :: "block \<Rightarrow> bytes list" where
"block_chunks b = (let h = bl_header b in
   [be_bytes 8 (bh_header_version h), be_bytes 8 (bh_height h), bh_prev_hash h, bh_state_root h, bh_tx_root h,
    be_bytes 8 (bh_timestamp h), bh_proposer h, bh_extension_root h, be_bytes 8 (length (bl_tx_hashes b))]
   @ bl_tx_hashes b)"

definition block_input :: "xof \<Rightarrow> block \<Rightarrow> bytes" where
"block_input X b = push_chunks (block_chunks b) (th_new X (bstr ''VIPER-BLOCK-HASH-V1''))"

lemma block_hash_input: "compute_block_hash X b = X (block_input X b) 32"
  by (simp add: compute_block_hash_def block_input_def block_chunks_def th_finish_def push_u64_def Let_def)

text \<open>Values as the fields of a header can hold them.\<close>

definition block_typed :: "block \<Rightarrow> bool" where
"block_typed b \<longleftrightarrow> (let h = bl_header b in
   bh_header_version h \<le> U16_MAX \<and> bh_height h \<le> U64_MAX \<and> bh_timestamp h \<le> U64_MAX
   \<and> length (bh_prev_hash h) = 32 \<and> length (bh_state_root h) = 32 \<and> length (bh_tx_root h) = 32
   \<and> length (bh_proposer h) \<le> U64_MAX \<and> length (bh_extension_root h) = 32
   \<and> length (bl_tx_hashes b) \<le> U64_MAX \<and> (\<forall>t \<in> set (bl_tx_hashes b). length t = 32))"

lemma u64_inj: "be_bytes 8 x = be_bytes 8 y \<Longrightarrow> x \<le> U64_MAX \<Longrightarrow> y \<le> U64_MAX \<Longrightarrow> x = y"
  using be_bytes_inj [of x 8 y] by (simp add: U64_MAX_def del: be_bytes.simps)

lemma block_chunks_inj:
  assumes "block_typed b" "block_typed c" "block_chunks b = block_chunks c"
  shows "bl_header b = bl_header c \<and> bl_tx_hashes b = bl_tx_hashes c"
proof -
  have "U16_MAX \<le> U64_MAX" by (simp add: width_simps)
  with assms show ?thesis
    by (auto simp: block_typed_def block_chunks_def Let_def simp del: be_bytes.simps
        intro!: block_header.equality dest!: u64_inj)
qed

lemma chunks_short: "block_typed b \<Longrightarrow> \<forall>c \<in> set (block_chunks b). length c \<le> U64_MAX"
proof -
  have "32 \<le> U64_MAX" "8 \<le> U64_MAX" by (simp_all add: width_simps)
  then show "block_typed b \<Longrightarrow> \<forall>c \<in> set (block_chunks b). length c \<le> U64_MAX"
    by (auto simp: block_typed_def block_chunks_def Let_def simp del: be_bytes.simps)
qed

text \<open>
  a block hash names one block.  Two blocks with the same hash have the same header and the same
  transactions in the same order, unless SHAKE-256 collides on the two strings hashed for them; only
  the commit signatures stay outside the hash.
\<close>

theorem block_hash_binding:
  assumes "block_typed b" "block_typed c" "compute_block_hash X b = compute_block_hash X c"
    "inj_on (\<lambda>x. X x 32) {block_input X b, block_input X c}"
  shows "bl_header b = bl_header c \<and> bl_tx_hashes b = bl_tx_hashes c"
proof -
  have "block_input X b = block_input X c"
    by (rule inj_onD [OF assms(4)]) (use assms(3) in \<open>simp_all add: block_hash_input\<close>)
  then have "push_chunks (block_chunks b) [] = push_chunks (block_chunks c) []"
    using push_chunks_append [of _ "th_new X (bstr ''VIPER-BLOCK-HASH-V1'')"] by (simp add: block_input_def)
  then have "block_chunks b = block_chunks c"
    by (rule push_chunks_inj_aux [OF chunks_short [OF assms(1)] chunks_short [OF assms(2)]])
  then show ?thesis by (rule block_chunks_inj [OF assms(1,2)])
qed

definition demo_block :: block where
"demo_block = \<lparr> bl_header = \<lparr> bh_header_version = 1, bh_height = 7, bh_prev_hash = replicate 32 1,
   bh_state_root = replicate 32 2, bh_tx_root = replicate 32 3, bh_timestamp = 9, bh_proposer = replicate 32 4,
   bh_extension_root = replicate 32 5 \<rparr>, bl_tx_hashes = [replicate 32 6], bl_commit_signatures = [] \<rparr>"

theorem block_hash_binding_witness:
  "let c = demo_block\<lparr> bl_commit_signatures :=
        [\<lparr> cs_validator_address = [], cs_sig_alg_id = MlDsa65, cs_round = 0, cs_signature = [] \<rparr>] \<rparr>
   in compute_block_hash (\<lambda>d n. take n d) demo_block = compute_block_hash (\<lambda>d n. take n d) c
     \<and> bl_header demo_block = bl_header c"
proof -
  let ?X = "\<lambda>d n. take n d" and ?c = "demo_block\<lparr> bl_commit_signatures :=
        [\<lparr> cs_validator_address = [], cs_sig_alg_id = MlDsa65, cs_round = 0, cs_signature = [] \<rparr>] \<rparr>"
  have t: "block_typed demo_block" "block_typed ?c" by (simp_all add: block_typed_def demo_block_def width_simps)
  have i: "block_input ?X demo_block = block_input ?X ?c" by (simp add: block_input_def block_chunks_def)
  then have h: "compute_block_hash ?X demo_block = compute_block_hash ?X ?c" by (simp add: block_hash_input)
  have "bl_header demo_block = bl_header ?c \<and> bl_tx_hashes demo_block = bl_tx_hashes ?c"
    by (rule block_hash_binding [OF t h]) (simp only: i insert_absorb2 inj_on_def, simp)
  with h show ?thesis by (simp only: Let_def)
qed

text \<open>
  Epochs partition the heights.  Whenever the description of an epoch fits 64 bits, the height
  asked for lies in it, the heights between its bounds are exactly the heights with its number, and a
  boundary is the first height of an epoch, height zero apart.
\<close>

lemma epochs_partition:
  assumes "epoch_info_for_height h d = Ok e"
  shows "ei_start_height e \<le> h \<and> h \<le> ei_end_height e
    \<and> (ei_start_height e \<le> k \<and> k \<le> ei_end_height e \<longleftrightarrow> epoch_for_height k d = Ok (ei_epoch_number e))
    \<and> (is_epoch_boundary h d \<longleftrightarrow> 0 < h \<and> h = ei_start_height e)"
proof -
  have d: "0 < d" and e: "ei_epoch_number e = h div d" "ei_start_height e = h div d * d" "ei_end_height e = h div d * d + (d - 1)"
    using assms by (auto simp: epoch_info_for_height_def Let_def result_simps saturating_sub_def split: if_splits)
  have in_epoch: "n * d \<le> x \<and> x \<le> n * d + (d - 1) \<longleftrightarrow> x div d = n" for n x
  proof
    assume "n * d \<le> x \<and> x \<le> n * d + (d - 1)"
    then have "n * d \<le> x" "x < (n + 1) * d" using d by (auto simp: algebra_simps)
    then show "x div d = n" by (metis Suc_eq_plus1 div_nat_eqI mult.commute)
  next
    assume "x div d = n"
    then show "n * d \<le> x \<and> x \<le> n * d + (d - 1)" using div_mult_mod_eq [of x d] mod_less_divisor [OF d, of x] by auto
  qed
  moreover have "d dvd h \<longleftrightarrow> h = h div d * d" by (metis dvd_div_mult_self dvd_triv_right)
  ultimately show ?thesis using d in_epoch [of "h div d" h] in_epoch [of "h div d" k]
    by (simp add: e epoch_for_height_def is_epoch_boundary_def)
qed

end
