(* ===== verification/Engine.thy ===== *)
theory Engine
  imports Apply Mempool Block "HOL-Library.Multiset"
begin

text \<open>
  Block assembly (\<open>pqc-consensus/src/engine.rs\<close>): the pending entries in their order of priority,
  one attempt to apply each, and the steps that close a block.  An assembly that panics in one of its
  steps has the value \<open>Panic\<close>.

  The results: the order does not depend on the iteration order of the hash map; a block keeps the
  invariants of the store, only lets its records evolve, and neither creates nor destroys tokens.
\<close>

section \<open>Configuration and results\<close>

record epoch_config =
  ec_epoch_duration :: nat
  ec_unbonding_period :: nat
  ec_churn :: churn_config

definition epoch_config_mainnet :: epoch_config where
"epoch_config_mainnet = \<lparr> ec_epoch_duration = EPOCH_DURATION_MAINNET, ec_unbonding_period = 3628800,
   ec_churn = churn_viper_pq_1 \<rparr>"

definition epoch_config_devnet :: epoch_config where
"epoch_config_devnet = \<lparr> ec_epoch_duration = EPOCH_DURATION_DEVNET, ec_unbonding_period = 120,
   ec_churn = churn_viper_pq_1 \<rparr>"

record assembly_context =
  ax_height :: nat
  ax_prev_hash :: hash32
  ax_timestamp :: nat
  ax_proposer :: bytes

record assembly_config =
  ag_max_block_bytes :: nat
  ag_fee_params :: fee_params
  ag_validator_pool :: "address list"
  ag_fee_dist :: fee_distribution_params
  ag_epoch_config :: epoch_config

datatype skip_reason = BlockSizeLimit | ApplyFailed apply_error

record skipped_tx =
  sk_tx_hash :: hash32
  sk_reason :: skip_reason

record block_execution_result =
  br_block :: block
  br_included :: "hash32 list"
  br_included_transactions :: "transaction list"
  br_deferred :: "hash32 list"
  br_new_height :: nat
  br_state_root :: hash32
  br_tx_root :: hash32
  br_bytes_used :: nat
  br_vc_budget_consumed :: nat
  br_skipped :: "skipped_tx list"

datatype assemble_error = InvalidHeight nat nat | InvalidProposer nat

section \<open>The loop over the pending entries\<close>

text \<open>
  The comparison as a sort key: fees and tips descend, then sender, nonce and hash ascend.
\<close>

definition compare_pending_entries :: "pending_entry \<Rightarrow> int \<times> int \<times> bytes \<times> nat \<times> bytes" where
"compare_pending_entries e =
   (- int (pe_fee e), - int (pe_fee_tip e), tx_sender (pe_tx e), tx_nonce (pe_tx e), pe_tx_hash e)"

text \<open>The variables of the loop.\<close>

record assembly =
  am_store :: state_store
  am_pool :: mempool
  am_included_hashes :: "hash32 list"
  am_included_transactions :: "transaction list"
  am_deferred :: "hash32 list"
  am_bytes_used :: nat
  am_skipped :: "skipped_tx list"
  am_fees_collected :: nat
  am_block_gas_used :: nat

definition assembly_start :: "state_store \<Rightarrow> mempool \<Rightarrow> assembly" where
"assembly_start s p = \<lparr> am_store = s, am_pool = p, am_included_hashes = [], am_included_transactions = [],
   am_deferred = [], am_bytes_used = 0, am_skipped = [], am_fees_collected = 0, am_block_gas_used = 0 \<rparr>"

definition assemble_entry :: "env \<Rightarrow> assembly_config \<Rightarrow> pending_entry \<Rightarrow> assembly \<Rightarrow> (assembly, assemble_error) result" where
"assemble_entry E config entry a =
   (let next_size = saturating_add U64_MAX (am_bytes_used a) (length (pe_raw_bytes entry))
    in if next_size > ag_max_block_bytes config
       then Ok (a\<lparr> am_deferred := am_deferred a @ [pe_tx_hash entry] \<rparr>)
       else
         let exec_fee_params = (ag_fee_params config)\<lparr> fp_base_fee_dynamic := base_fee_dynamic (am_store a) \<rparr>
         in case apply_tx E (am_store a) (pe_tx entry)
                   \<lparr> xc_tx_bytes_len = length (pe_raw_bytes entry), xc_fee_params = exec_fee_params \<rparr> of
              Panic \<Rightarrow> Panic
            | Ok (t, execution) \<Rightarrow>
                let p1 = fst (evict (pe_tx_hash entry) (am_pool a));
                    p2 = (if xr_status execution \<in> {Applied, RevertedOutOfGas}
                          then evict_stale (tx_sender (pe_tx entry))
                                 (saturating_add U64_MAX (tx_nonce (pe_tx entry)) 1) p1
                          else p1)
                in Ok (a\<lparr> am_store := t,
                          am_fees_collected := saturating_add U128_MAX
                            (saturating_add U128_MAX (am_fees_collected a) (xr_fee_charged execution))
                            (tx_fee_tip (pe_tx entry)),
                          am_bytes_used := next_size,
                          am_block_gas_used := saturating_add U64_MAX (am_block_gas_used a) (xr_gas_used execution),
                          am_included_hashes := am_included_hashes a @ [pe_tx_hash entry],
                          am_included_transactions := am_included_transactions a @ [pe_tx entry],
                          am_pool := p2 \<rparr>)
            | Err err \<Rightarrow>
                Ok (a\<lparr> am_pool := fst (evict (pe_tx_hash entry) (am_pool a)),
                       am_skipped := am_skipped a @
                         [\<lparr> sk_tx_hash = pe_tx_hash entry, sk_reason = ApplyFailed err \<rparr>] \<rparr>))"

fun assemble_loop :: "env \<Rightarrow> assembly_config \<Rightarrow> pending_entry list \<Rightarrow> assembly \<Rightarrow> (assembly, assemble_error) result" where
"assemble_loop E config [] a = Ok a" |
"assemble_loop E config (entry # pending) a =
   bind_r (assemble_entry E config entry a) (assemble_loop E config pending)"

section \<open>Closing a block\<close>

text \<open>The validators that share the fees: the active set, or the configured list when it is empty.\<close>

definition fee_pool :: "state_store \<Rightarrow> address list \<Rightarrow> address list" where
"fee_pool s configured =
   (let state_pool = map vr_operator (active_validators s) in if state_pool = [] then configured else state_pool)"

text \<open>The bond of a validator whose unbonding has ended goes to its operator's account, if there is one.\<close>

definition return_bond :: "xof \<Rightarrow> address \<times> nat \<Rightarrow> state_store \<Rightarrow> state_store" where
"return_bond X ex s =
   (case ex of (operator, bond) \<Rightarrow>
    commit_account_mutation X operator
      (case get_account s operator of
         Some a \<Rightarrow> account_mut operator (a\<lparr> ac_balance := saturating_add U128_MAX (ac_balance a) bond \<rparr>) s
       | None \<Rightarrow> s))"

text \<open>Governance, the end of unbonding periods, and consensus keys, in this order.\<close>

definition end_of_height :: "xof \<Rightarrow> nat \<Rightarrow> state_store \<Rightarrow> state_store" where
"end_of_height X height s =
   (let s1 = process_governance_tallies X height s;
        (s2, exited) = process_validator_unbonding_expirations X height s1;
        s3 = fold (return_bond X) exited s2;
        (s4, activations) = activate_pending_consensus_key_rotations X height s3
    in s4)"

definition close_block ::
    "xof \<Rightarrow> assembly_config \<Rightarrow> nat \<Rightarrow> address \<Rightarrow> nat \<Rightarrow> nat \<Rightarrow> state_store \<Rightarrow> (state_store, 'e) result" where
"close_block X config height proposer fees_collected block_gas_used s =
   bind_r (or_panic (apply_aimd_update X block_gas_used
     (distribute_block_fees X proposer fees_collected (fee_pool s (ag_validator_pool config))
        (ag_fee_dist config) s))) (\<lambda>s1.
   bind_r (or_panic (advance_height X (end_of_height X height s1))) (\<lambda>s2.
   Ok (if is_epoch_boundary height (ec_epoch_duration (ag_epoch_config config))
       then process_epoch_transitions X (ec_churn (ag_epoch_config config)) s2
       else s2)))"

definition assemble_block ::
    "env \<Rightarrow> state_store \<Rightarrow> mempool \<Rightarrow> assembly_context \<Rightarrow> assembly_config
     \<Rightarrow> (state_store \<times> mempool \<times> block_execution_result, assemble_error) result" where
"assemble_block E s pool ctx config =
   (let X = e_xof E;
        expected_height = saturating_add U64_MAX (st_block_height s) 1
    in if ax_height ctx \<noteq> expected_height then Err (InvalidHeight expected_height (ax_height ctx))
    else if length (ax_proposer ctx) \<noteq> 32 then Err (InvalidProposer (length (ax_proposer ctx)))
    else
    let pending = sort_key compare_pending_entries (all_pending pool);
        vc_budget_consumed = mp_vc_admitted_count pool
    in bind_r (assemble_loop E config pending (assembly_start s pool)) (\<lambda>a.
    bind_r (close_block X config (ax_height ctx) (ax_proposer ctx) (am_fees_collected a) (am_block_gas_used a)
              (am_store a)) (\<lambda>t.
    let included = am_included_hashes a;
        root = state_root X t;
        tx_root = compute_tx_root X included;
        header = \<lparr> bh_header_version = HEADER_VERSION_V1, bh_height = ax_height ctx, bh_prev_hash = ax_prev_hash ctx,
          bh_state_root = root, bh_tx_root = tx_root, bh_timestamp = ax_timestamp ctx,
          bh_proposer = ax_proposer ctx, bh_extension_root = empty_extension_root X \<rparr>
    in Ok (t, reset_vc_count (am_pool a),
           \<lparr> br_block = \<lparr> bl_header = header, bl_tx_hashes = included, bl_commit_signatures = [] \<rparr>,
             br_included = included, br_included_transactions = am_included_transactions a,
             br_deferred = am_deferred a, br_new_height = st_block_height t, br_state_root = root,
             br_tx_root = tx_root, br_bytes_used = am_bytes_used a, br_vc_budget_consumed = vc_budget_consumed,
             br_skipped = am_skipped a \<rparr>))))"

section \<open>Every step keeps the invariants\<close>

text \<open>A step of a block: the store stays sound and its records only evolve.\<close>

definition stage :: "xof \<Rightarrow> state_store \<Rightarrow> state_store \<Rightarrow> bool" where
"stage X s t \<longleftrightarrow> sound X t \<and> evolves s t"

lemma stage_trans: "stage X s t \<Longrightarrow> stage X t u \<Longrightarrow> stage X s u"
  by (auto simp: stage_def intro: evolves_trans)

lemma stage_refl: "sound X s \<Longrightarrow> stage X s s"
  by (simp add: stage_def)

lemma stage_keeps: "keeps X s t \<Longrightarrow> stage X s t"
  by (simp add: stage_def keeps_def sound_def)

lemma stage_apply_tx: "apply_tx E s tx c = Ok (t, r) \<Longrightarrow> sound (e_xof E) s \<Longrightarrow> stage (e_xof E) s t"
  using apply_tx_sound [of E s tx c t r] by (simp add: stage_def)

lemma stage_fees:
  "sound X s \<Longrightarrow> fees \<le> U128_MAX \<Longrightarrow> stage X s (distribute_block_fees X proposer fees pool dist s)"
  by (simp add: fees_eq_plan stage_keeps keeps_pays)

lemma stage_aimd:
  assumes "apply_aimd_update X used s = Some t" "sound X s"
  shows "stage X s t"
proof -
  have "st_validators t = st_validators s"
    using assms(1) by (auto simp: apply_aimd_update_def apply_fee_market_step_def)
  then show ?thesis
    using assms wf_aimd [of X s used] ev_aimd [OF assms(1)] tomb_same [of t s] by (auto simp: stage_def sound_def)
qed

lemma stage_tallies: "sound X s \<Longrightarrow> stage X s (process_governance_tallies X h s)"
  using tallies_rel [of X s h] tomb_same [of "process_governance_tallies X h s" s]
  by (simp add: stage_def sound_def tally_rel_def)

lemma stage_unbonding: "sound X s \<Longrightarrow> stage X s (fst (process_validator_unbonding_expirations X h s))"
  by (simp add: stage_def sound_def wf_unbonding tomb_unbonding ev_unbonding)

lemma return_bond_simps:
  "return_bond X (operator, bond) s = (case hget (st_accounts s) operator of None \<Rightarrow> s
     | Some a \<Rightarrow> commit_account_mutation X operator
         (account_mut operator (a\<lparr> ac_balance := saturating_add U128_MAX (ac_balance a) bond \<rparr>) s))"
  by (auto simp: return_bond_def get_account_def commit_account_mutation_def split: option.split)

lemma keeps_return_bond: "sound X s \<Longrightarrow> keeps X s (return_bond X ex s)"
  by (cases ex) (auto simp: return_bond_simps keeps_refl intro!: keeps_write_account acct_le_same_keys split: option.split)

lemma keeps_return_bonds: "sound X s \<Longrightarrow> keeps X s (fold (return_bond X) exs s)"
proof (induction exs arbitrary: s)
  case (Cons ex exs)
  have k: "keeps X s (return_bond X ex s)" by (rule keeps_return_bond [OF Cons.prems])
  show ?case using keeps_trans [OF k Cons.IH [OF keeps_sound [OF k]]] by simp
qed (simp add: keeps_refl)

lemma stage_rotations: "sound X s \<Longrightarrow> stage X s (fst (activate_pending_consensus_key_rotations X h s))"
  by (simp add: stage_def sound_def wf_activate_rotations tomb_activate_rotations ev_activate_rotations)

lemma stage_advance:
  assumes "advance_height X s = Some t" "sound X s"
  shows "stage X s t" "st_block_height t = st_block_height s + 1"
proof -
  have "st_validators t = st_validators s" and "st_block_height t = st_block_height s + 1"
    using assms(1) by (auto simp: advance_height_def Let_def fold_commit_accounts split: option.splits)
  then show "stage X s t" "st_block_height t = st_block_height s + 1"
    using assms advance_height_wf [of X s t] ev_advance_height [OF assms(1)] tomb_same [of t s]
    by (auto simp: stage_def sound_def)
qed

lemma stage_epoch: "sound X s \<Longrightarrow> stage X s (process_epoch_transitions X churn s)"
  by (simp add: stage_def sound_def wf_epoch_transitions tomb_epoch_transitions ev_epoch_transitions)

lemma epoch_height: "st_block_height (process_epoch_transitions X churn s) = st_block_height s"
proof -
  have "st_block_height (fold (activate_validator X) xs s) = st_block_height s" for xs
    by (induction xs arbitrary: s) (auto simp: activate_validator_def Let_def split: option.split)
  then show ?thesis by (simp add: process_epoch_transitions_def Let_def)
qed

lemma rotations_height:
  "st_block_height (fst (activate_pending_consensus_key_rotations X h s)) = st_block_height s"
proof -
  have "st_block_height (fst (fold (activate_one_rotation X) xs acc)) = st_block_height (fst acc)" for xs acc
    by (induction xs arbitrary: acc)
      (auto simp: activate_one_rotation_def Let_def write_eqs split: prod.split option.split)
  then show ?thesis by (simp add: activate_pending_consensus_key_rotations_def Let_def)
qed

lemma stage_sound: "stage X s t \<Longrightarrow> sound X t"
  by (simp add: stage_def)

lemma stage_end_of_height:
  assumes "sound X s"
  shows "stage X s (end_of_height X h s)" "st_block_height (end_of_height X h s) = st_block_height s"
proof -
  obtain s2 ex where u: "process_validator_unbonding_expirations X h (process_governance_tallies X h s) = (s2, ex)"
    by (cases "process_validator_unbonding_expirations X h (process_governance_tallies X h s)")
  have e: "end_of_height X h s = fst (activate_pending_consensus_key_rotations X h (fold (return_bond X) ex s2))"
    by (simp add: end_of_height_def Let_def u case_prod_beta)
  have 1: "stage X s (process_governance_tallies X h s)" by (rule stage_tallies [OF assms])
  have 2: "stage X (process_governance_tallies X h s) s2" using stage_unbonding [OF stage_sound [OF 1], of h] by (simp add: u)
  have k: "keeps X s2 (fold (return_bond X) ex s2)" by (rule keeps_return_bonds [OF stage_sound [OF 2]])
  note 3 = stage_keeps [OF k]
  have 4: "stage X (fold (return_bond X) ex s2) (end_of_height X h s)" unfolding e by (rule stage_rotations [OF stage_sound [OF 3]])
  show "stage X s (end_of_height X h s)" by (rule stage_trans [OF 1 stage_trans [OF 2 stage_trans [OF 3 4]]])
  have "st_block_height (process_governance_tallies X h s) = st_block_height s"
    using tallies_rel [of X s h] assms by (simp add: sound_def tally_rel_def)
  moreover have "st_block_height s2 = st_block_height (process_governance_tallies X h s)"
    using u by (auto simp: process_validator_unbonding_expirations_def Let_def fold_commit_validators)
  moreover have "st_block_height (fold (return_bond X) ex s2) = st_block_height s2" using k by (simp add: keeps_def)
  ultimately show "st_block_height (end_of_height X h s) = st_block_height s" by (simp add: e rotations_height)
qed

text \<open>The stages of a block that closes.\<close>

lemma close_block_Ok:
  assumes "close_block X config h proposer fees gas s = Ok t"
  obtains s1 s2 where
    "apply_aimd_update X gas (distribute_block_fees X proposer fees (fee_pool s (ag_validator_pool config))
       (ag_fee_dist config) s) = Some s1"
    "advance_height X (end_of_height X h s1) = Some s2"
    "t = (if is_epoch_boundary h (ec_epoch_duration (ag_epoch_config config))
          then process_epoch_transitions X (ec_churn (ag_epoch_config config)) s2 else s2)"
  using assms by (auto simp: close_block_def result_simps)

lemma stage_close_block:
  assumes "close_block X config h proposer fees gas s = Ok t" "sound X s" "fees \<le> U128_MAX"
  shows "stage X s t" "st_block_height t = st_block_height s + 1"
proof -
  from close_block_Ok [OF assms(1)] obtain s1 s2 where
    c: "apply_aimd_update X gas (distribute_block_fees X proposer fees (fee_pool s (ag_validator_pool config))
       (ag_fee_dist config) s) = Some s1" "advance_height X (end_of_height X h s1) = Some s2"
    and t: "t = (if is_epoch_boundary h (ec_epoch_duration (ag_epoch_config config))
          then process_epoch_transitions X (ec_churn (ag_epoch_config config)) s2 else s2)" by blast
  have k: "keeps X s (distribute_block_fees X proposer fees (fee_pool s (ag_validator_pool config)) (ag_fee_dist config) s)"
    using assms(2,3) by (simp add: fees_eq_plan keeps_pays)
  have 1: "stage X (distribute_block_fees X proposer fees (fee_pool s (ag_validator_pool config)) (ag_fee_dist config) s) s1"
    by (rule stage_aimd [OF c(1) keeps_sound [OF k]])
  note 2 = stage_end_of_height [OF stage_sound [OF 1], of h]
  note 3 = stage_advance [OF c(2) stage_sound [OF 2(1)]]
  have "stage X s2 t \<and> st_block_height t = st_block_height s2"
    using stage_epoch [OF stage_sound [OF 3(1)]] stage_refl [OF stage_sound [OF 3(1)]] epoch_height by (simp add: t)
  moreover have "st_block_height s1 = st_block_height s"
    using c(1) k by (auto simp: apply_aimd_update_def apply_fee_market_step_def keeps_def)
  ultimately show "stage X s t" "st_block_height t = st_block_height s + 1"
    using stage_trans [OF stage_keeps [OF k] stage_trans [OF 1 stage_trans [OF 2(1) 3(1)]]] 2(2) 3(2)
    by (auto intro: stage_trans)
qed

section \<open>The loop\<close>

lemma loop_invariant:
  assumes "assemble_loop E config es a = Ok b" "P a"
    "\<And>e a b. e \<in> set es \<Longrightarrow> P a \<Longrightarrow> assemble_entry E config e a = Ok b \<Longrightarrow> P b"
  shows "P b"
  using assms
proof (induction es arbitrary: a)
  case (Cons e es)
  from Cons.prems(1) obtain c where c: "assemble_entry E config e a = Ok c" "assemble_loop E config es c = Ok b"
    by (auto simp: result_simps)
  have "P c" by (rule Cons.prems(3) [OF _ Cons.prems(2) c(1)]) simp
  then show ?case by (rule Cons.IH [OF c(2)]) (rule Cons.prems(3), simp_all)
qed simp

abbreviation exec_context :: "assembly_config \<Rightarrow> assembly \<Rightarrow> pending_entry \<Rightarrow> execution_context" where
"exec_context config a e \<equiv> \<lparr> xc_tx_bytes_len = length (pe_raw_bytes e),
   xc_fee_params = (ag_fee_params config)\<lparr> fp_base_fee_dynamic := base_fee_dynamic (am_store a) \<rparr> \<rparr>"

text \<open>An entry is deferred, included or skipped.\<close>

lemma assemble_entry_cases:
  assumes "assemble_entry E config e a = Ok b"
  obtains (deferred) "ag_max_block_bytes config < saturating_add U64_MAX (am_bytes_used a) (length (pe_raw_bytes e))"
      "b = a\<lparr> am_deferred := am_deferred a @ [pe_tx_hash e] \<rparr>"
  | (included) t r where "apply_tx E (am_store a) (pe_tx e) (exec_context config a e) = Ok (t, r)"
      "am_store b = t" "am_included_hashes b = am_included_hashes a @ [pe_tx_hash e]"
      "am_included_transactions b = am_included_transactions a @ [pe_tx e]"
      "am_deferred b = am_deferred a" "am_skipped b = am_skipped a"
      "am_fees_collected b = saturating_add U128_MAX (saturating_add U128_MAX (am_fees_collected a) (xr_fee_charged r))
         (tx_fee_tip (pe_tx e))"
      "am_bytes_used b = saturating_add U64_MAX (am_bytes_used a) (length (pe_raw_bytes e))"
      "am_bytes_used b \<le> ag_max_block_bytes config"
      "am_block_gas_used b = saturating_add U64_MAX (am_block_gas_used a) (xr_gas_used r)"
      "am_pool b = evict_stale (tx_sender (pe_tx e)) (saturating_add U64_MAX (tx_nonce (pe_tx e)) 1)
         (evicted (pe_tx_hash e) (am_pool a))"
  | (skipped) err where "saturating_add U64_MAX (am_bytes_used a) (length (pe_raw_bytes e)) \<le> ag_max_block_bytes config"
      "apply_tx E (am_store a) (pe_tx e) (exec_context config a e) = Err err"
      "b = a\<lparr> am_pool := evicted (pe_tx_hash e) (am_pool a), am_skipped := am_skipped a @
         [\<lparr> sk_tx_hash = pe_tx_hash e, sk_reason = ApplyFailed err \<rparr>] \<rparr>"
proof (cases "saturating_add U64_MAX (am_bytes_used a) (length (pe_raw_bytes e)) > ag_max_block_bytes config")
  case True
  then show ?thesis using assms deferred by (simp add: assemble_entry_def Let_def)
next
  case False
  have st: "xr_status r \<noteq> Applied \<Longrightarrow> xr_status r = RevertedOutOfGas" for r :: execution_result
    by (cases "xr_status r") simp_all
  show ?thesis
  proof (cases "apply_tx E (am_store a) (pe_tx e) (exec_context config a e)")
    case (Ok tr)
    obtain t r where tr: "tr = (t, r)" by (cases tr)
    show ?thesis
      by (rule included [of t r])
        (use assms False Ok st [of r] in \<open>auto simp: tr assemble_entry_def Let_def evicted_def\<close>)
  next
    case (Err err)
    then show ?thesis using assms False skipped by (simp add: assemble_entry_def Let_def evicted_def)
  next
    case Panic
    then show ?thesis using assms False by (simp add: assemble_entry_def Let_def)
  qed
qed

lemma loop_stage:
  assumes "assemble_loop E config es (assembly_start s p) = Ok b" "sound (e_xof E) s"
  shows "stage (e_xof E) s (am_store b) \<and> am_fees_collected b \<le> U128_MAX
    \<and> st_block_height (am_store b) = st_block_height s \<and> st_fee_market (am_store b) = st_fee_market s"
  using assms(1)
proof (rule loop_invariant)
  fix e a c
  assume a: "stage (e_xof E) s (am_store a) \<and> am_fees_collected a \<le> U128_MAX
    \<and> st_block_height (am_store a) = st_block_height s \<and> st_fee_market (am_store a) = st_fee_market s"
    and "assemble_entry E config e a = Ok c"
  from this(2) show "stage (e_xof E) s (am_store c) \<and> am_fees_collected c \<le> U128_MAX
    \<and> st_block_height (am_store c) = st_block_height s \<and> st_fee_market (am_store c) = st_fee_market s"
  proof (cases rule: assemble_entry_cases)
    case (included t r)
    then show ?thesis
      using a apply_tx_sound [OF included(1)] stage_trans [of "e_xof E" s "am_store a" t] stage_sound
      by (auto simp: saturating_add_le stage_def)
  qed (use a in simp_all)
qed (use assms(2) in \<open>simp add: assembly_start_def stage_refl\<close>)

text \<open>Every pending entry ends up in exactly one of the three lists.\<close>

lemma loop_sorts:
  assumes "assemble_loop E config es a = Ok b"
  shows "mset (am_included_hashes b) + mset (am_deferred b) + mset (map sk_tx_hash (am_skipped b))
    = mset (am_included_hashes a) + mset (am_deferred a) + mset (map sk_tx_hash (am_skipped a)) + mset (map pe_tx_hash es)"
  using assms
proof (induction es arbitrary: a)
  case (Cons e es)
  from Cons.prems obtain c where c: "assemble_entry E config e a = Ok c" "assemble_loop E config es c = Ok b"
    by (auto simp: result_simps)
  from c(1) have "mset (am_included_hashes c) + mset (am_deferred c) + mset (map sk_tx_hash (am_skipped c))
    = mset (am_included_hashes a) + mset (am_deferred a) + mset (map sk_tx_hash (am_skipped a)) + {#pe_tx_hash e#}"
    by (cases rule: assemble_entry_cases) simp_all
  then show ?case using Cons.IH [OF c(2)] by simp
qed simp

text \<open>What a decoded transaction can carry.\<close>

lemma decode_tx_fees:
  assumes "decode_tx E raw = Ok tx"
  shows "tx_fee tx \<le> U64_MAX" "tx_fee_tip tx \<le> U64_MAX"
proof -
  obtain fs where fs: "decode_fields fs = Ok tx" by (rule decode_tx_fields [OF assms])
  show "tx_fee tx \<le> U64_MAX" by (rule get_uint_bound [OF decode_fields_Ok(3) [OF fs]])
  show "tx_fee_tip tx \<le> U64_MAX"
    using decode_fields_Ok(7) [OF fs] get_u64_optional_bound by (auto split: option.splits)
qed

text \<open>What the included transactions create, in the order of the loop: nothing but by evidence against a validator that has exited.\<close>

fun loop_created :: "env \<Rightarrow> assembly_config \<Rightarrow> pending_entry list \<Rightarrow> assembly \<Rightarrow> nat" where
"loop_created E config [] a = 0" |
"loop_created E config (entry # pending) a =
   (case assemble_entry E config entry a of
      Ok b \<Rightarrow> (if am_included_hashes b = am_included_hashes a then 0 else created E (am_store a) (pe_tx entry)) + loop_created E config pending b
    | _ \<Rightarrow> 0)"

lemma loop_created_none: "\<forall>e \<in> set es. tx_msg_type (pe_tx e) \<noteq> SubmitEquivocationEvidence \<Longrightarrow> loop_created E config es a = 0"
  by (induction es arbitrary: a) (auto simp: created_none split: result.splits)

lemma loop_supply:
  assumes "assemble_loop E config es a = Ok b" "total_supply (am_store a) + am_fees_collected a + loop_created E config es a \<le> U128_MAX"
    "\<And>e. e \<in> set es \<Longrightarrow> tx_fee (pe_tx e) \<le> U64_MAX \<and> tx_fee_tip (pe_tx e) \<le> U64_MAX"
  shows "total_supply (am_store b) + am_fees_collected b = total_supply (am_store a) + am_fees_collected a + loop_created E config es a"
  using assms
proof (induction es arbitrary: a)
  case (Cons e es)
  from Cons.prems(1) obtain c where c: "assemble_entry E config e a = Ok c" "assemble_loop E config es c = Ok b"
    by (auto simp: result_simps)
  let ?n = "if am_included_hashes c = am_included_hashes a then 0 else created E (am_store a) (pe_tx e)"
  have n: "loop_created E config (e # es) a = ?n + loop_created E config es c" using c(1) by simp
  have "total_supply (am_store c) + am_fees_collected c = total_supply (am_store a) + am_fees_collected a + ?n"
    using c(1)
  proof (cases rule: assemble_entry_cases)
    case (included t r)
    have m: "?n = created E (am_store a) (pe_tx e)" using included(3) by simp
    have "total_supply t + xr_fee_charged r + tx_fee_tip (pe_tx e) = total_supply (am_store a) + created E (am_store a) (pe_tx e)"
      using apply_tx_supply [OF included(1)] Cons.prems(2,3) unfolding n m by simp
    then show ?thesis using included(2,7) Cons.prems(2) unfolding n m by (simp add: saturating_add_def)
  qed simp_all
  then show ?case using Cons.IH [OF c(2)] Cons.prems(2,3) n by simp
qed simp

text \<open>The included entries are some of the pending ones, in order, and their bytes are counted.\<close>

lemma loop_included:
  assumes "assemble_loop E config es a = Ok b"
  shows "\<exists>inc. mset inc \<subseteq># mset es \<and> am_included_hashes b = am_included_hashes a @ map pe_tx_hash inc
    \<and> am_included_transactions b = am_included_transactions a @ map pe_tx inc
    \<and> (am_bytes_used a \<le> U64_MAX \<longrightarrow> am_bytes_used b = min U64_MAX (am_bytes_used a + (\<Sum>e \<leftarrow> inc. length (pe_raw_bytes e))))"
  using assms
proof (induction es arbitrary: a)
  case (Cons e es)
  from Cons.prems obtain c where c: "assemble_entry E config e a = Ok c" "assemble_loop E config es c = Ok b"
    by (auto simp: result_simps)
  obtain inc where inc: "mset inc \<subseteq># mset es" "am_included_hashes b = am_included_hashes c @ map pe_tx_hash inc"
    "am_included_transactions b = am_included_transactions c @ map pe_tx inc"
    "am_bytes_used c \<le> U64_MAX \<longrightarrow> am_bytes_used b = min U64_MAX (am_bytes_used c + (\<Sum>e \<leftarrow> inc. length (pe_raw_bytes e)))"
    using Cons.IH [OF c(2)] by blast
  from c(1) show ?case
  proof (cases rule: assemble_entry_cases)
    case (included t r)
    have sat: "min U64_MAX (min U64_MAX (x + y) + z) = min U64_MAX (x + (y + z))" for x y z :: nat by (simp add: min_def)
    show ?thesis using inc included(3,4,8) by (intro exI [of _ "e # inc"]) (simp add: saturating_add_def sat)
  qed (use inc in \<open>auto simp: subset_mset.add_increasing intro!: exI [of _ inc] intro: subset_mset.order_trans\<close>)
qed simp

lemma tbl_le_hhas: "tbl_le R m n \<Longrightarrow> hhas m k \<Longrightarrow> hhas n k"
  by (auto simp: tbl_le_def hhas_def)

lemma evolves_has:
  "evolves s t \<Longrightarrow> hhas (st_accounts s) a \<Longrightarrow> hhas (st_accounts t) a"
  "evolves s t \<Longrightarrow> hhas (st_validators s) a \<Longrightarrow> hhas (st_validators t) a"
  unfolding evolves_def by (blast intro: tbl_le_hhas)+

lemma return_bond_supply:
  assumes "hhas (st_accounts s) (fst ex)" "total_supply s + snd ex \<le> U128_MAX"
  shows "total_supply (return_bond X ex s) = total_supply s + snd ex"
proof -
  obtain operator bond where ex: "ex = (operator, bond)" by (cases ex)
  obtain u where u: "hget (st_accounts s) operator = Some u" using assms(1) by (auto simp: ex hhas_def)
  have "saturating_add U128_MAX (ac_balance u) bond = ac_balance u + bond"
    using balance_le_supply [OF u] assms(2) by (intro saturating_add_exact) (simp add: ex)
  then show ?thesis
    using supply_write_account [OF u, of X "u\<lparr> ac_balance := ac_balance u + bond \<rparr>"] by (simp add: ex return_bond_simps u)
qed

lemma return_bond_supply_le: "total_supply (return_bond X ex s) \<le> total_supply s + snd ex"
proof -
  obtain operator bond where ex: "ex = (operator, bond)" by (cases ex)
  show ?thesis
  proof (cases "hget (st_accounts s) operator")
    case (Some u)
    have "saturating_add U128_MAX (ac_balance u) bond \<le> ac_balance u + bond" by (simp add: saturating_add_def)
    then show ?thesis
      using supply_write_account [OF Some, of X "u\<lparr> ac_balance := saturating_add U128_MAX (ac_balance u) bond \<rparr>"]
      by (simp add: ex return_bond_simps Some)
  qed (simp add: ex return_bond_simps)
qed

lemma return_bonds_supply_le: "total_supply (fold (return_bond X) exs s) \<le> total_supply s + sum_list (map snd exs)"
proof (induction exs arbitrary: s)
  case (Cons ex exs)
  show ?case using Cons.IH [of "return_bond X ex s"] return_bond_supply_le [of X ex s] by simp
qed simp

lemma return_bonds_supply:
  assumes "sound X s" "\<forall>ex \<in> set exs. hhas (st_accounts s) (fst ex)" "total_supply s + sum_list (map snd exs) \<le> U128_MAX"
  shows "total_supply (fold (return_bond X) exs s) = total_supply s + sum_list (map snd exs)"
  using assms
proof (induction exs arbitrary: s)
  case (Cons ex exs)
  have k: "keeps X s (return_bond X ex s)" by (rule keeps_return_bond [OF Cons.prems(1)])
  have one: "total_supply (return_bond X ex s) = total_supply s + snd ex"
    by (rule return_bond_supply) (use Cons.prems(2,3) in simp_all)
  have "\<forall>e \<in> set exs. hhas (st_accounts (return_bond X ex s)) (fst e)"
    using Cons.prems(2) k by (auto simp: keeps_def intro: evolves_has(1))
  then show ?case using Cons.IH [OF keeps_sound [OF k]] Cons.prems(3) one by simp
qed simp

lemma exits_are_validators:
  assumes "store_wf X s" "(operator, bond) \<in> set (snd (process_validator_unbonding_expirations X h s))"
  shows "hhas (st_validators s) operator"
proof -
  have k: "keyed vr_operator (st_validators s)" and w: "hwf (st_validators s)"
    using assms(1) by (auto simp: store_wf_def coherent_def coh_def)
  obtain r where "r \<in> set (hvals (st_validators s))" "operator = vr_operator r"
    using assms(2) by (auto simp: process_validator_unbonding_expirations_def Let_def)
  then show ?thesis using keyedD [OF k] by (auto simp: hvals_iff [OF w] hhas_def)
qed

text \<open>Every operator of a validator has an account.\<close>

definition funded :: "state_store \<Rightarrow> bool" where
"funded s \<longleftrightarrow> (\<forall>a. hhas (st_validators s) a \<longrightarrow> hhas (st_accounts s) a)"

lemma end_of_height_supply:
  assumes "sound X s" "total_supply s \<le> U128_MAX"
  shows "total_supply (end_of_height X h s) \<le> total_supply s"
    "funded s \<Longrightarrow> total_supply (end_of_height X h s) = total_supply s"
proof -
  let ?g = "process_governance_tallies X h s"
  obtain s2 ex where u: "process_validator_unbonding_expirations X h ?g = (s2, ex)"
    by (cases "process_validator_unbonding_expirations X h ?g")
  have g: "store_wf X ?g" "st_accounts ?g = st_accounts s" "st_validators ?g = st_validators s"
    using tallies_rel [of X s h] assms(1) by (simp_all add: sound_def tally_rel_def)
  have s2: "sound X s2" "evolves ?g s2"
    using stage_unbonding [OF stage_sound [OF stage_tallies [OF assms(1), of h]], of h] by (simp_all add: u stage_def)
  have split: "total_supply s2 + sum_list (map snd ex) = total_supply s"
    using supply_unbonding [of X h ?g] g by (simp add: u total_supply_def)
  have e: "total_supply (end_of_height X h s) = total_supply (fold (return_bond X) ex s2)"
    by (simp add: end_of_height_def Let_def u case_prod_beta supply_activate_rotations)
  show "total_supply (end_of_height X h s) \<le> total_supply s"
    using return_bonds_supply_le [of X ex s2] by (simp add: e split)
  assume f: "funded s"
  have "\<forall>x \<in> set ex. hhas (st_accounts s2) (fst x)"
  proof
    fix x assume "x \<in> set ex"
    then have "hhas (st_validators s) (fst x)"
      using exits_are_validators [OF g(1), of "fst x" "snd x" h] by (simp add: u g)
    then show "hhas (st_accounts s2) (fst x)" using f evolves_has(1) [OF s2(2)] by (simp add: g funded_def)
  qed
  then show "total_supply (end_of_height X h s) = total_supply s"
    using return_bonds_supply [OF s2(1)] split assms(2) by (simp add: e)
qed

lemma close_block_supply:
  assumes "close_block X config h proposer fees gas s = Ok t" "sound X s" "total_supply s + fees \<le> U128_MAX"
    "fm_burn_rate_bps (st_fee_market s) \<le> 10000"
  shows "total_supply t \<le> total_supply s + fees"
    "(\<And>a. hhas (st_validators t) a \<Longrightarrow> hhas (st_accounts s) a) \<Longrightarrow> total_supply t = total_supply s + fees"
proof -
  let ?d = "distribute_block_fees X proposer fees (fee_pool s (ag_validator_pool config)) (ag_fee_dist config) s"
  from close_block_Ok [OF assms(1)] obtain s1 s2 where c: "apply_aimd_update X gas ?d = Some s1"
      "advance_height X (end_of_height X h s1) = Some s2"
    and t: "t = (if is_epoch_boundary h (ec_epoch_duration (ag_epoch_config config))
          then process_epoch_transitions X (ec_churn (ag_epoch_config config)) s2 else s2)" by blast
  have f: "fees \<le> U128_MAX" using assms(3) by simp
  have d: "total_supply ?d = total_supply s + fees"
    using assms(3) plan_sum [OF assms(4)] by (simp add: fees_eq_plan [OF f] pays_supply)
  have 1: "stage X s ?d" by (rule stage_fees [OF assms(2) f])
  have 2: "stage X ?d s1" by (rule stage_aimd [OF c(1) stage_sound [OF 1]])
  have 3: "stage X s1 (end_of_height X h s1)" by (rule stage_end_of_height [OF stage_sound [OF 2]])
  have 4: "stage X (end_of_height X h s1) s2" by (rule stage_advance [OF c(2) stage_sound [OF 3]])
  have 5: "stage X s2 t" using stage_epoch stage_refl stage_sound [OF 4] by (simp add: t)
  have s1: "total_supply s1 = total_supply s + fees" using d supply_aimd [OF c(1)] by simp
  have "total_supply t = total_supply (end_of_height X h s1)"
    using supply_advance_height [OF c(2)] by (simp add: t supply_epoch_transitions)
  note sup = this end_of_height_supply [OF stage_sound [OF 2], of h]
  show "total_supply t \<le> total_supply s + fees" using sup(1,2) s1 assms(3) by simp
  assume op: "\<And>a. hhas (st_validators t) a \<Longrightarrow> hhas (st_accounts s) a"
  have "stage X s1 t" using 3 4 5 by (blast intro: stage_trans)
  then have "funded s1" unfolding funded_def using op evolves_has 1 2 by (meson stage_def)
  then show "total_supply t = total_supply s + fees" using sup(1,3) s1 assms(3) by simp
qed

text \<open>A successful assembly.\<close>

lemma assemble_block_Ok:
  assumes "assemble_block E s pool ctx config = Ok (t, p, r)"
  obtains a where
    "assemble_loop E config (sort_key compare_pending_entries (all_pending pool)) (assembly_start s pool) = Ok a"
    "close_block (e_xof E) config (ax_height ctx) (ax_proposer ctx) (am_fees_collected a) (am_block_gas_used a)
       (am_store a) = (Ok t :: (state_store, assemble_error) result)"
    "p = reset_vc_count (am_pool a)" "ax_height ctx = saturating_add U64_MAX (st_block_height s) 1"
    "length (ax_proposer ctx) = 32" "br_state_root r = state_root (e_xof E) t" "br_included r = am_included_hashes a"
    "br_included_transactions r = am_included_transactions a" "br_deferred r = am_deferred a"
    "br_skipped r = am_skipped a" "br_tx_root r = compute_tx_root (e_xof E) (am_included_hashes a)"
    "br_new_height r = st_block_height t" "br_bytes_used r = am_bytes_used a"
    "br_block r = \<lparr> bl_header = \<lparr> bh_header_version = HEADER_VERSION_V1, bh_height = ax_height ctx,
       bh_prev_hash = ax_prev_hash ctx, bh_state_root = state_root (e_xof E) t,
       bh_tx_root = compute_tx_root (e_xof E) (am_included_hashes a), bh_timestamp = ax_timestamp ctx,
       bh_proposer = ax_proposer ctx, bh_extension_root = empty_extension_root (e_xof E) \<rparr>,
       bl_tx_hashes = am_included_hashes a, bl_commit_signatures = [] \<rparr>"
  using assms by (auto simp: assemble_block_def Let_def result_simps split: if_splits)

lemma assemble_block_stage:
  assumes "assemble_block E s pool ctx config = Ok (t, p, r)" "sound (e_xof E) s"
  shows "stage (e_xof E) s t" "st_block_height t = st_block_height s + 1"
proof -
  obtain a where a: "assemble_loop E config (sort_key compare_pending_entries (all_pending pool)) (assembly_start s pool) = Ok a"
    "close_block (e_xof E) config (ax_height ctx) (ax_proposer ctx) (am_fees_collected a) (am_block_gas_used a)
       (am_store a) = (Ok t :: (state_store, assemble_error) result)"
    by (rule assemble_block_Ok [OF assms(1)])
  note l = loop_stage [OF a(1) assms(2)]
  have c: "stage (e_xof E) (am_store a) t" "st_block_height t = st_block_height (am_store a) + 1"
    using stage_close_block [OF a(2)] l by (simp_all add: stage_def)
  show "stage (e_xof E) s t" using l c(1) by (blast intro: stage_trans)
  show "st_block_height t = st_block_height s + 1" using l c(2) by simp
qed

section \<open>Properties of a block\<close>

text \<open>
  C6: what a block does to the supply.  The balances and bonds after a block are at most what they were before, burnt fees included, with what the evidence
  in it creates (\<open>loop_created\<close>), and exactly that much when every validator's operator had an account before the block, to receive a returned bond.
  A block from a pool without evidence of equivocation creates nothing.  The fees and tips of the pool fit 64 bits, the burn rate is at most all of the fees, and the supply fits 128 bits.
\<close>

theorem block_conserves_supply:
  assumes "assemble_block E s pool ctx config = Ok (t, p, r)" "sound (e_xof E) s"
    "fm_burn_rate_bps (st_fee_market s) \<le> 10000"
    "\<forall>e \<in> entries pool. tx_fee (pe_tx e) \<le> U64_MAX \<and> tx_fee_tip (pe_tx e) \<le> U64_MAX"
    and minted: "minted = loop_created E config (sort_key compare_pending_entries (all_pending pool)) (assembly_start s pool)"
    and "total_supply s + minted \<le> U128_MAX"
  shows "total_supply t \<le> total_supply s + minted
    \<and> ((\<forall>a. hhas (st_validators t) a \<longrightarrow> hhas (st_accounts s) a) \<longrightarrow> total_supply t = total_supply s + minted)
    \<and> ((\<forall>e \<in> entries pool. tx_msg_type (pe_tx e) \<noteq> SubmitEquivocationEvidence) \<longrightarrow> minted = 0)"
proof -
  obtain a where a: "assemble_loop E config (sort_key compare_pending_entries (all_pending pool)) (assembly_start s pool) = Ok a"
    "close_block (e_xof E) config (ax_height ctx) (ax_proposer ctx) (am_fees_collected a) (am_block_gas_used a)
       (am_store a) = (Ok t :: (state_store, assemble_error) result)"
    by (rule assemble_block_Ok [OF assms(1)])
  note l = loop_stage [OF a(1) assms(2)]
  have s: "total_supply (am_store a) + am_fees_collected a = total_supply s + minted"
    using loop_supply [OF a(1)] assms(4,6) minted by (simp add: assembly_start_def entries_def)
  have st: "stage (e_xof E) s (am_store a)" and le: "total_supply (am_store a) + am_fees_collected a \<le> U128_MAX"
    and burn: "fm_burn_rate_bps (st_fee_market (am_store a)) \<le> 10000" using l s assms(3,6) by simp_all
  note c = close_block_supply [OF a(2) stage_sound [OF st] le burn]
  have "hhas (st_accounts (am_store a)) x" if "hhas (st_accounts s) x" for x
    using evolves_has(1) that st by (auto simp: stage_def)
  moreover have "minted = 0" if "\<forall>e \<in> entries pool. tx_msg_type (pe_tx e) \<noteq> SubmitEquivocationEvidence"
    unfolding minted by (rule loop_created_none) (use that in \<open>simp add: entries_def\<close>)
  ultimately show ?thesis using c s by auto
qed

lemma close_block_total:
  assumes "sound X s" "fees \<le> U128_MAX" "st_block_height s < U64_MAX"
  shows "\<exists>t. close_block X config h proposer fees gas s = Ok t"
proof -
  let ?d = "distribute_block_fees X proposer fees (fee_pool s (ag_validator_pool config)) (ag_fee_dist config) s"
  have k: "keeps X s ?d" using assms(1,2) by (simp add: fees_eq_plan keeps_pays)
  then obtain s1 where s1: "apply_aimd_update X gas ?d = Some s1" using wf_aimd [of X ?d gas] by (auto simp: keeps_def)
  have "st_block_height s1 = st_block_height s"
    using s1 k by (auto simp: apply_aimd_update_def apply_fee_market_step_def keeps_def)
  moreover have "sound X s1" by (rule stage_sound [OF stage_aimd [OF s1 keeps_sound [OF k]]])
  ultimately have "st_block_height (end_of_height X h s1) < U64_MAX"
    using stage_end_of_height(2) assms(3) by simp
  then obtain s2 where "advance_height X (end_of_height X h s1) = Some s2"
    by (auto simp: advance_height_def checked_add_def Let_def)
  then show ?thesis by (simp add: close_block_def s1)
qed

text \<open>
  C10: the chain can always be extended.  From every sound state below the last height, a proposer
  with an empty mempool gets a block: no step that closes a block panics or fails, and the block
  is the next one, without transactions.
\<close>

theorem empty_block_always:
  assumes "sound (e_xof E) s" "st_block_height s < U64_MAX" "ax_height ctx = st_block_height s + 1"
    "length (ax_proposer ctx) = 32" "all_pending pool = []"
  shows "\<exists>t p r. assemble_block E s pool ctx config = Ok (t, p, r) \<and> br_included r = []
    \<and> st_block_height t = st_block_height s + 1 \<and> bh_state_root (bl_header (br_block r)) = state_root (e_xof E) t"
proof -
  obtain t where t: "close_block (e_xof E) config (ax_height ctx) (ax_proposer ctx) 0 0 s = (Ok t :: (state_store, assemble_error) result)"
    using close_block_total [OF assms(1) _ assms(2)] by blast
  have "st_block_height t = st_block_height s + 1" using stage_close_block(2) [OF t assms(1)] by simp
  then show ?thesis
    using t assms(2-5) by (simp add: assemble_block_def Let_def saturating_add_def assembly_start_def)
qed

text \<open>
  C17: the assembler accounts for every pending transaction.  Each of them is included, deferred for
  the size limit or skipped with its error, exactly one of the three.  The block holds the hashes of the included ones under the root that the
  header carries, the result holds their transactions in the same order, the bytes that it reports are those of
  their encodings as received, summed with saturation at 64 bits, and they stay within the limit.
\<close>

theorem assembly_accounts_for_pool:
  assumes "assemble_block E s pool ctx config = Ok (t, p, r)"
  shows "mset (br_included r) + mset (br_deferred r) + mset (map sk_tx_hash (br_skipped r))
      = mset (map pe_tx_hash (all_pending pool))
    \<and> bl_tx_hashes (br_block r) = br_included r
    \<and> bh_tx_root (bl_header (br_block r)) = compute_tx_root (e_xof E) (br_included r)
    \<and> (\<exists>inc. mset inc \<subseteq># mset (all_pending pool) \<and> br_included r = map pe_tx_hash inc \<and> br_included_transactions r = map pe_tx inc
         \<and> br_bytes_used r = min U64_MAX ((\<Sum>e \<leftarrow> inc. length (pe_raw_bytes e))))
    \<and> br_bytes_used r \<le> ag_max_block_bytes config"
proof -
  obtain a where a: "assemble_loop E config (sort_key compare_pending_entries (all_pending pool)) (assembly_start s pool) = Ok a"
    and r: "br_included r = am_included_hashes a" "br_deferred r = am_deferred a" "br_skipped r = am_skipped a"
      "br_bytes_used r = am_bytes_used a" "bl_tx_hashes (br_block r) = am_included_hashes a"
      "bh_tx_root (bl_header (br_block r)) = compute_tx_root (e_xof E) (am_included_hashes a)"
      "br_included_transactions r = am_included_transactions a"
    by (rule assemble_block_Ok [OF assms]) simp
  have "am_bytes_used a \<le> ag_max_block_bytes config"
    using a
  proof (rule loop_invariant)
    fix e b c assume "am_bytes_used b \<le> ag_max_block_bytes config" "assemble_entry E config e b = Ok c"
    from this(2,1) show "am_bytes_used c \<le> ag_max_block_bytes config" by (cases rule: assemble_entry_cases) simp_all
  qed (simp add: assembly_start_def)
  then show ?thesis using loop_sorts [OF a] loop_included [OF a] by (simp add: r assembly_start_def)
qed

section \<open>Determinism\<close>

definition same_entries :: "env \<Rightarrow> mempool \<Rightarrow> mempool \<Rightarrow> bool" where
"same_entries E p q \<longleftrightarrow> pool_ok E p \<and> pool_ok E q \<and> entries p = entries q"

lemma same_entries_evict: "same_entries E p q \<Longrightarrow> same_entries E (evicted h p) (evicted h q)"
  by (auto simp: same_entries_def evict_ok evict_entries [of E])

lemma same_entries_stale: "same_entries E p q \<Longrightarrow> same_entries E (evict_stale a n p) (evict_stale a n q)"
  by (auto simp: same_entries_def stale_ok(1) stale_ok(2) [of E])

lemma compare_distinct:
  assumes "pool_ok E p"
  shows "distinct (map compare_pending_entries (all_pending p))"
proof -
  have "map pe_tx_hash (all_pending p) = map (\<lambda>k. snd (snd (snd (snd k)))) (map compare_pending_entries (all_pending p))"
    by (simp add: compare_pending_entries_def)
  then show ?thesis using pending_hashes_distinct [OF assms] distinct_map unfolding all_pending_def by metis
qed

lemma same_order:
  "same_entries E p q \<Longrightarrow> sort_key compare_pending_entries (all_pending p) = sort_key compare_pending_entries (all_pending q)"
  by (rule sort_key_mset_unique) (simp_all add: same_entries_def compare_distinct [of E] entries_def)

text \<open>The loop reads its pool only to evict from it.\<close>

lemma entry_blind:
  assumes "assemble_entry E config e a = Ok b" "same_entries D (am_pool a) q"
  shows "\<exists>q'. assemble_entry E config e (a\<lparr> am_pool := q \<rparr>) = Ok (b\<lparr> am_pool := q' \<rparr>) \<and> same_entries D (am_pool b) q'"
proof -
  let ?h = "pe_tx_hash e" and ?n = "saturating_add U64_MAX (tx_nonce (pe_tx e)) 1"
  let ?ev = "\<lambda>p. evict_stale (tx_sender (pe_tx e)) ?n (evicted ?h p)"
  from assms(1) show ?thesis
  proof (cases rule: assemble_entry_cases)
    case deferred
    have "assemble_entry E config e (a\<lparr> am_pool := q \<rparr>) = Ok (b\<lparr> am_pool := q \<rparr>)"
      using deferred by (simp add: assemble_entry_def Let_def)
    then show ?thesis using assms(2) by (auto simp: deferred(2))
  next
    case (included t r)
    have "assemble_entry E config e (a\<lparr> am_pool := q \<rparr>) = Ok (b\<lparr> am_pool := ?ev q \<rparr>)"
      using assms(1) included(1,3)
      by (cases "xr_status r") (auto simp: assemble_entry_def Let_def evicted_def split: if_splits)
    then show ?thesis using assms(2) by (auto simp: included(11) intro!: same_entries_evict same_entries_stale)
  next
    case (skipped err)
    have "assemble_entry E config e (a\<lparr> am_pool := q \<rparr>) = Ok (b\<lparr> am_pool := evicted ?h q \<rparr>)"
      using skipped by (simp add: assemble_entry_def Let_def evicted_def)
    then show ?thesis using assms(2) by (auto simp: skipped(3) intro!: same_entries_evict)
  qed
qed

lemma loop_blind:
  assumes "assemble_loop E config es a = Ok b" "same_entries D (am_pool a) q"
  shows "\<exists>q'. assemble_loop E config es (a\<lparr> am_pool := q \<rparr>) = Ok (b\<lparr> am_pool := q' \<rparr>) \<and> same_entries D (am_pool b) q'"
  using assms
proof (induction es arbitrary: a q)
  case (Cons e es)
  from Cons.prems(1) obtain c where c: "assemble_entry E config e a = Ok c" "assemble_loop E config es c = Ok b"
    by (auto simp: result_simps)
  from entry_blind [OF c(1) Cons.prems(2)] obtain q1 where
    q1: "assemble_entry E config e (a\<lparr> am_pool := q \<rparr>) = Ok (c\<lparr> am_pool := q1 \<rparr>)" "same_entries D (am_pool c) q1" by blast
  from Cons.IH [OF c(2) q1(2)] show ?case by (simp add: q1(1))
qed auto

text \<open>
  C8: assembly is deterministic although the pool is a hash map.  Two pools with the same entries,
  in whatever order their maps list them, and the same count of admitted credentials, which the result reports, give the same block,
  the same new state and the same results, and pools with the same entries again.
\<close>

theorem assembly_deterministic:
  assumes "assemble_block E s p ctx config = Ok (t, p', r)" "pool_ok E p" "pool_ok E q" "entries p = entries q"
    "mp_vc_admitted_count p = mp_vc_admitted_count q"
  shows "\<exists>q'. assemble_block E s q ctx config = Ok (t, q', r) \<and> entries q' = entries p'"
proof -
  let ?es = "sort_key compare_pending_entries (all_pending p)"
  have se: "same_entries E p q" using assms(2-4) by (simp add: same_entries_def)
  have o: "sort_key compare_pending_entries (all_pending q) = ?es" using same_order [OF se] by simp
  have st: "assembly_start s q = (assembly_start s p)\<lparr> am_pool := q \<rparr>" by (simp add: assembly_start_def)
  obtain a where a: "assemble_loop E config ?es (assembly_start s p) = Ok a"
    using assemble_block_Ok [OF assms(1)] by metis
  from loop_blind [OF a, of E q] se obtain q1 where
    q1: "assemble_loop E config ?es (assembly_start s q) = Ok (a\<lparr> am_pool := q1 \<rparr>)" "same_entries E (am_pool a) q1"
    unfolding st by (auto simp: assembly_start_def)
  have e: "entries (reset_vc_count x) = entries x" for x by (simp add: entries_def all_pending_def reset_vc_count_def)
  show ?thesis
    using assms(1,5) a q1 e
    by (auto simp: assemble_block_def Let_def o result_simps same_entries_def split: if_splits)
qed

section \<open>Histories of the chain\<close>

text \<open>
  A genesis state has the accounts, the chain id and the validators of the configuration, none of them tombstoned
  (\<open>build_genesis_state\<close>, which fills the algorithm registry with the entries that a new store has).
\<close>

definition genesis :: "xof \<Rightarrow> state_store \<Rightarrow> bool" where
"genesis X s \<longleftrightarrow> (\<exists>accounts chain_id validators. (\<forall>v \<in> set validators. \<not> vr_tombstoned v)
   \<and> s = fold (insert_validator X) validators (set_chain_id chain_id (fold (insert_account X) accounts (store_new X))))"

text \<open>One block on top of a state, from any mempool and for any context and configuration.\<close>

inductive chain_step :: "env \<Rightarrow> state_store \<Rightarrow> state_store \<Rightarrow> bool" for E where
block_step: "assemble_block E s pool ctx config = Ok (t, p, r) \<Longrightarrow> chain_step E s t"

abbreviation chain_state :: "env \<Rightarrow> state_store \<Rightarrow> bool" where
"chain_state E \<equiv> reach (genesis (e_xof E)) (chain_step E)"

abbreviation later :: "env \<Rightarrow> state_store \<Rightarrow> state_store \<Rightarrow> bool" where
"later E s \<equiv> reach (\<lambda>x. x = s) (chain_step E)"

lemma genesis_sound: "genesis X s \<Longrightarrow> sound X s"
proof -
  have n: "sound X (store_new X)" using store_wf_new by (simp add: sound_def tomb_inv_def store_new_def)
  have a: "sound X (fold (insert_account X) as s)" if "sound X s" for as s
    using that by (induction as arbitrary: s) (simp_all add: sound_def wf_insert_account tomb_same [of "insert_account X _ _"])
  have one: "sound X s \<Longrightarrow> \<not> vr_tombstoned v \<Longrightarrow> sound X (insert_validator X v s)" for v s
    by (auto simp: sound_def wf_insert_validator intro!: tomb_insert_validator)
  have "sound X (fold (insert_validator X) vs s)" if "sound X s" "\<forall>v \<in> set vs. \<not> vr_tombstoned v" for vs s
    using that
    by (induction vs arbitrary: s) (simp_all add: one)
  moreover have "sound X (set_chain_id c s)" if "sound X s" for c s
    using that by (simp add: sound_def store_wf_def coherent_def tomb_inv_def set_chain_id_def)
  ultimately show "genesis X s \<Longrightarrow> sound X s" using a n by (auto simp: genesis_def)
qed

lemma chain_step_stage: "chain_step E s t \<Longrightarrow> sound (e_xof E) s \<Longrightarrow> stage (e_xof E) s t"
  by (auto elim!: chain_step.cases dest: assemble_block_stage(1))

lemma chain_sound: "chain_state E s \<Longrightarrow> sound (e_xof E) s"
  by (erule reach_invariant) (auto simp: genesis_sound dest: chain_step_stage stage_sound)

lemma later_stage:
  assumes "later E s t" "sound (e_xof E) s"
  shows "stage (e_xof E) s t"
  using assms(1)
proof (rule reach_invariant)
  fix u v assume "stage (e_xof E) s u" "chain_step E u v"
  then show "stage (e_xof E) s v" using chain_step_stage stage_sound stage_trans by blast
qed (use assms(2) in \<open>simp add: stage_refl\<close>)

text \<open>
  C5: the state root is right after every history.  In each state reached from a genesis by any
  number of blocks, the root computed from the cached leaf hashes is the root computed from scratch
  over all entities: no handler and no step of a block leaves a stale leaf behind.
\<close>

theorem chain_state_root:
  assumes "chain_state E s"
  shows "state_root (e_xof E) s = reference_root (e_xof E) s"
  using chain_sound [OF assms] by (simp add: sound_def store_wf_coherent coherent_root)

text \<open>
  C7: history is append-only.  From a state of the chain to any later one, no account disappears and
  its nonce never goes back; a tombstoned validator stays tombstoned and jailed; an attestation keeps
  all its fields but the revocation; no archival record disappears; and the height never falls.
\<close>

theorem history_append_only:
  assumes "chain_state E s" "later E s t"
  shows "(get_account s a = Some u \<longrightarrow> (\<exists>w. get_account t a = Some w \<and> ac_nonce u \<le> ac_nonce w))
    \<and> (get_validator s a = Some v \<and> vr_tombstoned v \<longrightarrow>
         (\<exists>w. get_validator t a = Some w \<and> vr_tombstoned w \<and> vr_status w = VS_Jailed))
    \<and> (get_attestation s a = Some x \<longrightarrow>
         (\<exists>y. get_attestation t a = Some y
            \<and> y\<lparr> at_status := at_status x, at_revocation := at_revocation x \<rparr> = x
            \<and> (at_status x = AS_Revoked \<longrightarrow> y = x)))
    \<and> (get_archival_record s n \<noteq> None \<longrightarrow> get_archival_record t n \<noteq> None)
    \<and> st_block_height s \<le> st_block_height t"
proof -
  have s: "sound (e_xof E) s" by (rule chain_sound [OF assms(1)])
  then have ev: "evolves s t" using later_stage [OF assms(2)] by (simp add: stage_def)
  note defs = evolves_def tbl_le_def
  have "get_account s a = Some u \<longrightarrow> (\<exists>w. get_account t a = Some w \<and> ac_nonce u \<le> ac_nonce w)"
    using ev by (fastforce simp: defs acct_le_def get_account_def)
  moreover have "get_validator s a = Some v \<and> vr_tombstoned v \<longrightarrow>
      (\<exists>w. get_validator t a = Some w \<and> vr_tombstoned w \<and> vr_status w = VS_Jailed)"
    using ev s by (fastforce simp: defs val_le_def get_validator_def sound_def tomb_inv_def)
  moreover have "get_attestation s a = Some x \<longrightarrow> (\<exists>y. get_attestation t a = Some y
      \<and> y\<lparr> at_status := at_status x, at_revocation := at_revocation x \<rparr> = x \<and> (at_status x = AS_Revoked \<longrightarrow> y = x))"
    using ev by (fastforce simp: defs att_le_def get_attestation_def)
  moreover have "get_archival_record s n \<noteq> None \<longrightarrow> get_archival_record t n \<noteq> None"
    using ev by (fastforce simp: defs get_archival_record_def)
  moreover have "st_block_height s \<le> st_block_height t" using ev by (simp add: evolves_def)
  ultimately show ?thesis by blast
qed

section \<open>Replays\<close>

lemma validated_nonce:
  assumes "validate_tx E tx raw (admission_context (store_view X s) fp tx) = Ok ()"
  obtains u where "get_account s (tx_sender tx) = Some u" "tx_nonce tx = ac_nonce u"
  using assms
  by (auto simp: validate_tx_def admission_context_def store_view_def get_account_def result_simps Let_def split: if_splits)

text \<open>
  C18: a transaction is admitted once.  When a transaction that was valid in a state has been applied
  to it, admission refuses it in every later state of the chain, under whatever encoding and fee
  parameters: its nonce has been spent.
\<close>

theorem no_readmission:
  assumes "validate_tx E tx raw (admission_context (store_view X s) fp tx) = Ok ()"
    "apply_tx E s tx c = Ok (t, r)" "sound (e_xof E) s" "evolves t u"
  shows "validate_tx E tx raw' (admission_context (store_view X u) fp' tx) \<noteq> Ok ()"
proof
  assume "validate_tx E tx raw' (admission_context (store_view X u) fp' tx) = Ok ()"
  then obtain w where w: "get_account u (tx_sender tx) = Some w" "tx_nonce tx = ac_nonce w" by (rule validated_nonce)
  from assms(1) obtain v where v: "get_account s (tx_sender tx) = Some v" "tx_nonce tx = ac_nonce v" by (rule validated_nonce)
  obtain v' where v': "get_account t (tx_sender tx) = Some v'" "ac_nonce v' = ac_nonce v + 1"
    using apply_tx_counts [OF assms(2,3) v(1)] by auto
  have "ac_nonce v' \<le> ac_nonce w"
    using assms(4) v'(1) w(1) by (fastforce simp: evolves_def tbl_le_def acct_le_def get_account_def)
  then show False using v(2) v'(2) w(2) by simp
qed

text \<open>
  C19: execution trusts admission.  Apart from the three messages whose records are named by the hash of
  the transaction, applying a transaction reads neither its nonce nor its signature: one whose nonce
  is spent, or that was never signed, executes like the original.  A pool that keeps an entry after
  another proposer's block has included it therefore executes it a second time.
\<close>

theorem execution_ignores_nonce:
  assumes "tx_msg_type tx \<notin> {AttestationCreate, ProofAnchor, GovernanceProposal}"
  shows "apply_tx E s (tx\<lparr> tx_nonce := n, tx_signature := sg \<rparr>) c = apply_tx E s tx c"
proof -
  define tx' where "tx' = tx\<lparr> tx_nonce := n, tx_signature := sg \<rparr>"
  have sel: "tx_msg_type tx' = tx_msg_type tx" "tx_sender tx' = tx_sender tx" "tx_payload tx' = tx_payload tx"
    "tx_gas_limit tx' = tx_gas_limit tx" "tx_fee tx' = tx_fee tx" "tx_fee_tip tx' = tx_fee_tip tx"
    "tx_sig_alg_id tx' = tx_sig_alg_id tx" "tx_sig_key_version tx' = tx_sig_key_version tx" by (simp_all add: tx'_def)
  have p: "apply_payload E s tx' = apply_payload E s tx"
    unfolding apply_payload_def apply_vault_create_def apply_vault_policy_update_def apply_token_transfer_def
        apply_attestation_revoke_def apply_key_add_def apply_key_rotate_def apply_key_revoke_def
        apply_consensus_key_rotate_def apply_governance_proposal_def apply_governance_vote_def
        apply_validator_register_def apply_validator_exit_def apply_validator_unjail_def
        apply_validator_rotate_peer_id_def apply_submit_equivocation_evidence_def
        apply_validator_register_archival_key_def apply_archival_record_submit_def
        apply_archival_record_add_anchor_def apply_archival_record_renew_def sel
    using assms by (cases "tx_msg_type tx") simp_all
  have st: "settle_sender X tx' fee w = settle_sender X tx fee w" for X fee w unfolding settle_sender_def sel ..
  have fee: "actual_fee_breakdown tx' len gas fp m = actual_fee_breakdown tx len gas fp m" for len gas fp m
    unfolding actual_fee_breakdown_def sel ..
  show ?thesis unfolding tx'_def [symmetric] apply_tx_def scheduled_gas_for_tx_def sel p st fee ..
qed

section \<open>Concrete blocks\<close>

definition demo_config :: assembly_config where
"demo_config = \<lparr> ag_max_block_bytes = 100, ag_fee_params = sample_params, ag_validator_pool = [],
   ag_fee_dist = fee_distribution_default, ag_epoch_config = epoch_config_devnet \<rparr>"

definition demo_context :: assembly_context where
"demo_context = \<lparr> ax_height = 1, ax_prev_hash = replicate 32 0, ax_timestamp = 9, ax_proposer = replicate 32 7 \<rparr>"

text \<open>A transfer without gas: it is included, pays its fee and does nothing else.\<close>

definition gasless_entry :: pending_entry where
"gasless_entry = raw_entry demo_env [42] (demo_tx\<lparr> tx_gas_limit := 0 \<rparr>)"

definition demo_pool :: mempool where
"demo_pool = pool_insert gasless_entry mempool_new"

lemma demo_pending: "all_pending demo_pool = [gasless_entry]"
  by (simp add: demo_pool_def pool_insert_def mempool_new_def all_pending_def hvals_def hput_def)

lemma demo_settles: "\<exists>t. settle_sender demo_xof (demo_tx\<lparr> tx_gas_limit := 0 \<rparr>) 500 demo_store = Ok t"
  using demo_sender
  by (simp add: settle_sender_Ok get_account_def demo_tx_def saturating_add_def width_simps sample_account_def)

lemma demo_height: "st_block_height demo_store = 0"
  by (simp add: demo_store_def insert_account_def store_new_def)

lemma demo_env_xof [simp]: "e_xof demo_env = demo_xof"
  by (simp add: demo_env_def)

lemma demo_loop:
  "\<exists>a. assemble_loop demo_env demo_config [gasless_entry] (assembly_start demo_store demo_pool) = Ok a
     \<and> am_included_hashes a = [pe_tx_hash gasless_entry]"
proof -
  obtain t where t: "settle_sender demo_xof (demo_tx\<lparr> tx_gas_limit := 0 \<rparr>) 500 demo_store = Ok t" using demo_settles by blast
  have "apply_tx demo_env demo_store (demo_tx\<lparr> tx_gas_limit := 0 \<rparr>) c =
      Ok (t, \<lparr> xr_status = RevertedOutOfGas, xr_gas_used = 0, xr_fee_charged = 500, xr_fee_refund = 0 \<rparr>)" for c
    using t by (simp add: apply_tx_def Let_def scheduled_gas_for_tx_def demo_tx_def)
  then show ?thesis
    by (simp add: assemble_entry_def gasless_entry_def assembly_start_def demo_config_def saturating_add_def Let_def width_simps)
qed

lemma demo_assembles:
  "\<exists>t p r. assemble_block demo_env demo_store demo_pool demo_context demo_config = Ok (t, p, r)
     \<and> br_included r = [pe_tx_hash gasless_entry]"
proof -
  obtain a where a: "assemble_loop demo_env demo_config [gasless_entry] (assembly_start demo_store demo_pool) = Ok a"
    "am_included_hashes a = [pe_tx_hash gasless_entry]" using demo_loop by blast
  have s: "sound (e_xof demo_env) demo_store" using demo_sound by simp
  note l = loop_stage [OF a(1) s]
  have "\<exists>t. close_block demo_xof demo_config 1 (replicate 32 7) (am_fees_collected a) (am_block_gas_used a) (am_store a)
      = (Ok t :: (state_store, assemble_error) result)"
    by (rule close_block_total) (use l demo_height in \<open>auto simp: stage_def width_simps\<close>)
  then obtain t where "close_block demo_xof demo_config 1 (replicate 32 7) (am_fees_collected a) (am_block_gas_used a)
      (am_store a) = (Ok t :: (state_store, assemble_error) result)" by blast
  then show ?thesis
    using a by (simp add: assemble_block_def demo_pending demo_context_def demo_height saturating_add_def Let_def width_simps)
qed

lemma demo_entries: "entries demo_pool = {gasless_entry}"
  by (simp add: entries_def demo_pending)

lemma demo_burn: "fm_burn_rate_bps (st_fee_market demo_store) \<le> 10000"
  by (simp add: demo_store_def insert_account_def store_new_def fee_market_default_def)

theorem block_conserves_supply_witness:
  "\<exists>t p r. assemble_block demo_env demo_store demo_pool demo_context demo_config = Ok (t, p, r)
     \<and> br_included r \<noteq> [] \<and> total_supply t \<le> 1000"
proof -
  obtain t p r where r: "assemble_block demo_env demo_store demo_pool demo_context demo_config = Ok (t, p, r)"
    "br_included r = [pe_tx_hash gasless_entry]" using demo_assembles by blast
  have none: "loop_created demo_env demo_config (sort_key compare_pending_entries (all_pending demo_pool)) (assembly_start demo_store demo_pool) = 0"
    by (rule loop_created_none) (simp add: demo_pending gasless_entry_def demo_tx_def)
  have "total_supply t \<le> 1000"
    using block_conserves_supply [OF r(1) _ demo_burn _ none [symmetric]]
    by (simp add: demo_sound demo_supply demo_entries gasless_entry_def demo_tx_def width_simps)
  with r show ?thesis by auto
qed

theorem empty_block_always_witness:
  "\<exists>t p r. assemble_block demo_env demo_store mempool_new demo_context demo_config = Ok (t, p, r) \<and> st_block_height t = 1"
  using empty_block_always [of demo_env demo_store demo_context mempool_new demo_config]
  by (auto simp: demo_sound demo_height demo_context_def mempool_new_def all_pending_def hvals_def width_simps)

theorem assembly_accounts_for_pool_witness:
  "\<exists>t p r. assemble_block demo_env demo_store demo_pool demo_context demo_config = Ok (t, p, r)
     \<and> mset (br_included r) + mset (br_deferred r) + mset (map sk_tx_hash (br_skipped r)) = {#pe_tx_hash gasless_entry#}"
proof -
  obtain t p r where r: "assemble_block demo_env demo_store demo_pool demo_context demo_config = Ok (t, p, r)"
    using demo_assembles by blast
  with assembly_accounts_for_pool [OF r] show ?thesis by (auto simp: demo_pending)
qed

lemma demo_genesis: "genesis demo_xof demo_store"
  unfolding genesis_def by (rule exI [of _ "[sample_account]"], rule exI [of _ "[]"], rule exI [of _ "[]"])
    (simp add: demo_store_def set_chain_id_def insert_account_def store_new_def)

lemma demo_chain: "chain_state demo_env demo_store"
  by (rule reach_start) (simp add: demo_genesis)

lemma demo_later: "\<exists>t. later demo_env demo_store t \<and> chain_state demo_env t \<and> st_block_height t = 1"
proof -
  obtain t p r where r: "assemble_block demo_env demo_store demo_pool demo_context demo_config = Ok (t, p, r)"
    using demo_assembles by blast
  have "later demo_env demo_store demo_store" by (rule reach_start) simp
  then have "later demo_env demo_store t" by (rule reach_step) (rule block_step [OF r])
  moreover have "chain_state demo_env t" by (rule reach_step [OF demo_chain]) (rule block_step [OF r])
  moreover have "st_block_height t = 1" using assemble_block_stage(2) [OF r] by (simp add: demo_sound demo_height)
  ultimately show ?thesis by blast
qed

theorem chain_state_root_witness:
  "\<exists>t. chain_state demo_env t \<and> st_block_height t = 1 \<and> state_root demo_xof t = reference_root demo_xof t"
  using demo_later chain_state_root [of demo_env] by auto

theorem history_append_only_witness:
  "\<exists>t w. later demo_env demo_store t \<and> get_account t (replicate 32 5) = Some w \<and> 3 \<le> ac_nonce w"
proof -
  obtain t where t: "later demo_env demo_store t" using demo_later by blast
  from history_append_only [OF demo_chain t, of "replicate 32 5" sample_account] t show ?thesis
    by (auto simp: demo_sender sample_account_def)
qed

theorem execution_ignores_nonce_witness:
  "apply_tx demo_env demo_store (demo_tx\<lparr> tx_nonce := 0, tx_signature := [] \<rparr>) demo_ctx = apply_tx demo_env demo_store demo_tx demo_ctx
   \<and> (\<exists>t r. apply_tx demo_env demo_store demo_tx demo_ctx = Ok (t, r))"
  using execution_ignores_nonce [where tx = demo_tx and E = demo_env and s = demo_store and n = 0 and sg = "[]" and c = demo_ctx] demo_applies
  by (simp add: demo_tx_def del: One_nat_def)

text \<open>The same store at a height where the key of its account is in force.\<close>

definition late_store :: state_store where
"late_store = demo_store\<lparr> st_block_height := 20 \<rparr>"

abbreviation gasless_tx :: transaction where
"gasless_tx \<equiv> demo_tx\<lparr> tx_gas_limit := 0 \<rparr>"

lemma late_sound: "sound demo_xof late_store"
  using demo_sound by (simp add: sound_def store_wf_def coherent_def tomb_inv_def late_store_def)

lemma late_applies: "\<exists>t r. apply_tx demo_env late_store gasless_tx demo_ctx = Ok (t, r)"
proof -
  have "\<exists>t. settle_sender demo_xof gasless_tx 500 late_store = Ok t"
    using demo_settles by (auto simp: settle_sender_Ok late_store_def)
  then show ?thesis by (auto simp: apply_tx_def Let_def scheduled_gas_for_tx_def demo_tx_def)
qed

lemma late_view:
  "hget (st_accounts late_store) (replicate 32 5) = Some sample_account" "st_chain_id late_store = []"
  "base_fee_dynamic late_store = 0" "st_block_height late_store = 20"
  "hget (st_alg_registry late_store) 2 = Some (alg_entry_row MlDsa65 ''FIPS 204'' 1952 3309 (Some SC_Standard) 55000)"
  using demo_sender
  by (simp_all add: late_store_def get_account_def demo_store_def insert_account_def store_new_def base_fee_dynamic_def
      fee_market_default_def compute_default_def phase1_registry_def alg_entry_row_def hcollect_def map_simps)

lemma demo_preimage: "\<exists>p. build_preimage demo_env d tx = Ok p"
  by (auto simp: build_preimage_def demo_env_def)

lemma late_validates:
  "validate_tx demo_env gasless_tx [42] (admission_context (store_view demo_xof late_store) sample_params gasless_tx) = Ok ()"
proof -
  obtain p where "build_preimage demo_env (viper_research_1 demo_xof) gasless_tx = Ok p" using demo_preimage by blast
  moreover have "e_verify demo_env = (\<lambda>pk msg sig. True)" by (simp add: demo_env_def)
  moreover have "tx_version gasless_tx = 1" "tx_chain_id gasless_tx = []" "tx_msg_type gasless_tx = TokenTransfer"
     "tx_sender gasless_tx = replicate 32 5" "tx_nonce gasless_tx = 3" "tx_fee gasless_tx = 500" "tx_fee_tip gasless_tx = 2"
     "tx_gas_limit gasless_tx = 0" "tx_sig_alg_id gasless_tx = MlDsa65" "tx_sig_key_version gasless_tx = 1"
    by (simp_all add: demo_tx_def)
  ultimately show ?thesis
    using late_view
    by (simp add: validate_tx_def admission_context_def store_view_def alg_entry_row_def sample_account_def
        sample_params_def sample_key_def MAX_TX_BYTES_def key_lookup_def required_fee_breakdown_def fee_total_def
        effective_base_fee_def sigverify_fee_for_alg_def saturating_add_def saturating_mul_def truncate_u64_def
        width_simps ATX_VAULT_def Let_def)
qed

theorem no_readmission_witness:
  "\<exists>t r. apply_tx demo_env late_store gasless_tx demo_ctx = Ok (t, r)
     \<and> validate_tx demo_env gasless_tx [42] (admission_context (store_view demo_xof t) sample_params gasless_tx) \<noteq> Ok ()"
proof -
  obtain t r where t: "apply_tx demo_env late_store gasless_tx demo_ctx = Ok (t, r)" using late_applies by blast
  have "sound (e_xof demo_env) late_store" using late_sound by simp
  from no_readmission [OF late_validates t this evolves_refl] t show ?thesis by blast
qed

text \<open>A transfer whose payload does not decode is skipped.\<close>

lemma admit_fails: "\<exists>err. apply_tx admit_env s sample_tx c = Err err"
  by (auto simp: apply_tx_def Let_def scheduled_gas_for_tx_def sample_tx_def apply_payload_def apply_token_transfer_def
      decode_token_transfer_payload_def payload_map_def admit_env_def)

definition admit_store :: state_store where
"admit_store = insert_account (e_xof admit_env) sample_account (store_new (e_xof admit_env))"

lemma admit_sound: "sound (e_xof admit_env) admit_store"
  by (rule genesis_sound, unfold genesis_def, rule exI [of _ "[sample_account]"], rule exI [of _ "[]"], rule exI [of _ "[]"])
    (simp add: admit_store_def set_chain_id_def insert_account_def store_new_def)

lemma admit_assembles:
  "\<exists>t p r. assemble_block admit_env admit_store one_pool demo_context demo_config = Ok (t, p, r)"
proof -
  have pend: "all_pending one_pool = [raw_entry admit_env [42] sample_tx]"
    by (simp add: one_pool_def admit_entry_def pool_insert_def mempool_new_def all_pending_def hvals_def hput_def
        increment_vc_count_def Let_def)
  have h: "st_block_height admit_store = 0" by (simp add: admit_store_def insert_account_def store_new_def)
  have "\<exists>a. assemble_loop admit_env demo_config [raw_entry admit_env [42] sample_tx] (assembly_start admit_store one_pool) = Ok a"
    using admit_fails [of admit_store "\<lparr> xc_tx_bytes_len = 1,
      xc_fee_params = sample_params\<lparr> fp_base_fee_dynamic := base_fee_dynamic admit_store \<rparr> \<rparr>"]
    by (auto simp: assemble_entry_def assembly_start_def demo_config_def saturating_add_def Let_def width_simps)
  then obtain a where a: "assemble_loop admit_env demo_config [raw_entry admit_env [42] sample_tx]
      (assembly_start admit_store one_pool) = Ok a" by blast
  note l = loop_stage [OF a admit_sound]
  have "\<exists>t. close_block (e_xof admit_env) demo_config 1 (replicate 32 7) (am_fees_collected a) (am_block_gas_used a)
      (am_store a) = (Ok t :: (state_store, assemble_error) result)"
    by (rule close_block_total) (use l h in \<open>auto simp: stage_def width_simps\<close>)
  then show ?thesis
    using a by (auto simp: assemble_block_def pend demo_context_def h saturating_add_def Let_def width_simps)
qed

theorem assembly_deterministic_witness:
  "\<exists>t p q r. assemble_block admit_env admit_store one_pool demo_context demo_config = Ok (t, p, r)
     \<and> assemble_block admit_env admit_store (one_pool\<lparr> mp_vc_per_block_cap := 3 \<rparr>) demo_context demo_config = Ok (t, q, r)
     \<and> entries q = entries p"
proof -
  obtain t p r where r: "assemble_block admit_env admit_store one_pool demo_context demo_config = Ok (t, p, r)"
    using admit_assembles by blast
  have ok: "pool_ok admit_env one_pool" using pool_inv_reach [OF one_pool_reachable] by (simp add: pool_inv_def)
  have "entries one_pool = entries (one_pool\<lparr> mp_vc_per_block_cap := 3 \<rparr>)" by (simp add: entries_def all_pending_def)
  from assembly_deterministic [OF r ok _ this] ok r show ?thesis by auto
qed

end
