(* ===== verification/Commit.thy ===== *)
theory Commit
  imports Bft Engine
begin

text \<open>
  The ML-DSA verifier (\<open>pqc-crypto/src/verify.rs\<close>) and the commit signatures of a block
  (\<open>pqc-consensus/src/commit.rs\<close>): the policy, the signed preimages and the check of a quorum.

  ML-DSA comes from the crate \<open>ml-dsa\<close> and is a parameter: whether a key or a signature decodes, and whether
  a signature verifies.  The result: the check accepts exactly the blocks with enough distinct
  authorised signatures, and two blocks it accepts share a correct signer.
\<close>

section \<open>Signature verifiers\<close>

record signature_backend =
  sg_key_decodes :: "alg_id \<Rightarrow> bytes \<Rightarrow> bool"
  sg_signature_decodes :: "alg_id \<Rightarrow> bytes \<Rightarrow> bool"
  sg_verifies :: "alg_id \<Rightarrow> bytes \<Rightarrow> bytes \<Rightarrow> bytes \<Rightarrow> bool"

text \<open>The body that the functions \<open>verify_ml_dsa_44\<close>, \<open>verify_ml_dsa_65\<close> and \<open>verify_ml_dsa_87\<close> share.\<close>

definition backend_verify :: "signature_backend \<Rightarrow> alg_id \<Rightarrow> bytes \<Rightarrow> bytes \<Rightarrow> bytes \<Rightarrow> (unit, crypto_error) result" where
"backend_verify D alg pk_bytes preimage sig_bytes =
   (if \<not> sg_key_decodes D alg pk_bytes then Err InvalidKeySize
    else if \<not> sg_signature_decodes D alg sig_bytes then Err InvalidSignatureSize
    else if \<not> sg_verifies D alg pk_bytes preimage sig_bytes then Err VerificationFailed
    else Ok ())"

definition ml_dsa_verify ::
    "signature_backend \<Rightarrow> alg_id \<times> bytes \<Rightarrow> bytes \<Rightarrow> alg_id \<times> bytes \<Rightarrow> (unit, crypto_error) result" where
"ml_dsa_verify D public_key preimage signature =
   (if fst public_key \<noteq> fst signature then Err (NotASigningAlgorithm (fst signature))
    else if fst signature \<in> {MlDsa44, MlDsa65, MlDsa87}
    then backend_verify D (fst signature) (snd public_key) preimage (snd signature)
    else Err (NotASigningAlgorithm (fst signature)))"

section \<open>The policy\<close>

record commit_validator =
  cm_node_id :: string
  cm_address :: bytes
  cm_sig_alg_id :: alg_id
  cm_public_key :: bytes

datatype commit_preimage_mode = Legacy | Distributed nat

record commit_quorum_policy =
  cq_validators :: "commit_validator list"
  cq_quorum_threshold :: nat
  cq_preimage_mode :: commit_preimage_mode
  cq_fork_digest :: bytes

text \<open>The detail of an invalid signature is the error itself; the code renders it as text.\<close>

datatype commit_validation_error =
    EmptyValidatorSet
  | InvalidQuorumThreshold nat nat
  | DuplicateValidatorConfig string
  | MissingCommitSignatures
  | UnauthorizedSigner string
  | DuplicateSigner string
  | InvalidSignature string crypto_error
  | InsufficientQuorum nat nat

definition hex_digit :: "nat \<Rightarrow> char" where
"hex_digit n = ''0123456789abcdef'' ! n"

definition hex_encode :: "bytes \<Rightarrow> string" where
"hex_encode bs = concat (map (\<lambda>b. [hex_digit (unat b div 16), hex_digit (unat b mod 16)]) bs)"

fun check_duplicates :: "string list \<Rightarrow> commit_validator list \<Rightarrow> (unit, commit_validation_error) result" where
"check_duplicates seen [] = Ok ()" |
"check_duplicates seen (v # vs) =
   (let key = hex_encode (cm_address v) in
    if key \<in> set seen then Err (DuplicateValidatorConfig key) else check_duplicates (key # seen) vs)"

definition policy_new ::
    "xof \<Rightarrow> commit_validator list \<Rightarrow> nat option \<Rightarrow> (commit_quorum_policy, commit_validation_error) result" where
"policy_new X validators quorum_threshold =
   (if validators = [] then Err EmptyValidatorSet
    else bind_r (check_duplicates [] validators) (\<lambda>_.
    let validator_count = length validators;
        threshold = (case quorum_threshold of Some t \<Rightarrow> t | None \<Rightarrow> quorum_size validator_count)
    in if threshold = 0 \<or> threshold > validator_count then Err (InvalidQuorumThreshold threshold validator_count)
       else Ok \<lparr> cq_validators = validators, cq_quorum_threshold = threshold, cq_preimage_mode = Legacy,
                 cq_fork_digest = viper_research_1 X \<rparr>))"

definition with_fork_digest :: "bytes \<Rightarrow> commit_quorum_policy \<Rightarrow> commit_quorum_policy" where
"with_fork_digest fork_digest p = p\<lparr> cq_fork_digest := fork_digest \<rparr>"

definition with_distributed_preimage :: "nat \<Rightarrow> commit_quorum_policy \<Rightarrow> commit_quorum_policy" where
"with_distributed_preimage round p = p\<lparr> cq_preimage_mode := Distributed round \<rparr>"

definition validator_by_address :: "commit_quorum_policy \<Rightarrow> bytes \<Rightarrow> commit_validator option" where
"validator_by_address p address = List.find (\<lambda>v. cm_address v = address) (cq_validators p)"

definition policy_from_state_store ::
    "xof \<Rightarrow> state_store \<Rightarrow> nat option \<Rightarrow> (commit_quorum_policy option, commit_validation_error) result" where
"policy_from_state_store X store quorum_threshold =
   (let active = active_validators store in
    if active = [] then Ok None
    else bind_r (policy_new X (map (\<lambda>r. \<lparr> cm_node_id = vr_node_id r, cm_address = vr_operator r,
           cm_sig_alg_id = vr_consensus_alg_id r, cm_public_key = vr_consensus_pk r \<rparr>) active) quorum_threshold)
         (\<lambda>p. Ok (Some p)))"

section \<open>Preimages and the quorum check\<close>

definition LEGACY_COMMIT_DOMAIN_TAG :: bytes where
"LEGACY_COMMIT_DOMAIN_TAG = bstr ''PQC-COMMIT-V1''"

definition commit_preimage :: "xof \<Rightarrow> bytes \<Rightarrow> nat \<Rightarrow> hash32 \<Rightarrow> bytes" where
"commit_preimage X fork_digest height block_hash =
   tagged_hash X LEGACY_COMMIT_DOMAIN_TAG (fork_digest @ be_bytes 8 height @ block_hash)"

definition commit_preimage_for_mode :: "xof \<Rightarrow> bytes \<Rightarrow> commit_preimage_mode \<Rightarrow> nat \<Rightarrow> hash32 \<Rightarrow> bytes" where
"commit_preimage_for_mode X fork_digest mode height block_hash =
   (case mode of
      Legacy \<Rightarrow> commit_preimage X fork_digest height block_hash
    | Distributed round \<Rightarrow> vote_preimage X fork_digest height round Step_Precommit block_hash)"

fun check_commits ::
    "signature_backend \<Rightarrow> commit_quorum_policy \<Rightarrow> (commit_sig \<Rightarrow> bytes) \<Rightarrow> commit_sig list \<Rightarrow> string list \<Rightarrow> nat
     \<Rightarrow> (nat, commit_validation_error) result" where
"check_commits D p preimage [] unique_signers valid_commits = Ok valid_commits" |
"check_commits D p preimage (commit # rest) unique_signers valid_commits =
   (let signer_hex = hex_encode (cs_validator_address commit) in
    if signer_hex \<in> set unique_signers then Err (DuplicateSigner signer_hex)
    else case validator_by_address p (cs_validator_address commit) of
      None \<Rightarrow> Err (UnauthorizedSigner signer_hex)
    | Some validator \<Rightarrow>
        bind_r (map_err (InvalidSignature signer_hex)
          (ml_dsa_verify D (cm_sig_alg_id validator, cm_public_key validator) (preimage commit)
             (cs_sig_alg_id commit, cs_signature commit))) (\<lambda>_.
        check_commits D p preimage rest (signer_hex # unique_signers) (valid_commits + 1)))"

definition validate_block_commit_quorum ::
    "xof \<Rightarrow> signature_backend \<Rightarrow> block \<Rightarrow> commit_quorum_policy \<Rightarrow> (unit, commit_validation_error) result" where
"validate_block_commit_quorum X D b p =
   (if bl_commit_signatures b = [] then Err MissingCommitSignatures
    else
    let block_hash = compute_block_hash X b;
        height = bh_height (bl_header b);
        preimage = (\<lambda>commit. case cq_preimage_mode p of
            Legacy \<Rightarrow> commit_preimage X (cq_fork_digest p) height block_hash
          | Distributed round \<Rightarrow> vote_preimage X (cq_fork_digest p) height (cs_round commit) Step_Precommit block_hash)
    in bind_r (check_commits D p preimage (bl_commit_signatures b) [] 0) (\<lambda>valid_commits.
    if valid_commits < cq_quorum_threshold p then Err (InsufficientQuorum (cq_quorum_threshold p) valid_commits)
    else Ok ()))"

section \<open>What the check accepts\<close>

lemma hex_digit_inj: "m < 16 \<Longrightarrow> n < 16 \<Longrightarrow> hex_digit m = hex_digit n \<longleftrightarrow> m = n"
  unfolding hex_digit_def by (subst nth_eq_iff_index_eq) simp_all

lemma hex_encode_inj [simp]: "hex_encode a = hex_encode b \<longleftrightarrow> a = b"
proof (induction a arbitrary: b)
  case Nil
  show ?case by (cases b) (simp_all add: hex_encode_def)
next
  case (Cons x xs)
  show ?case
  proof (cases b)
    case (Cons y ys)
    have "unat w < 256" for w :: byte using unsigned_less [of w, where ?'a = nat] by simp
    then have digits: "unat x div 16 < 16" "unat y div 16 < 16" by (simp_all add: less_mult_imp_div_less)
    have "x = y" if "unat x div 16 = unat y div 16" "unat x mod 16 = unat y mod 16"
      using that by (metis div_mult_mod_eq unsigned_word_eqI)
    then show ?thesis
      using Cons.IH [of ys] digits by (auto simp: Cons hex_encode_def hex_digit_inj)
  qed (simp add: hex_encode_def)
qed

definition signer_ok :: "signature_backend \<Rightarrow> commit_quorum_policy \<Rightarrow> (commit_sig \<Rightarrow> bytes) \<Rightarrow> commit_sig \<Rightarrow> bool" where
"signer_ok D p preimage c \<longleftrightarrow> (\<exists>v \<in> set (cq_validators p). cm_address v = cs_validator_address c
   \<and> validator_by_address p (cs_validator_address c) = Some v
   \<and> ml_dsa_verify D (cm_sig_alg_id v, cm_public_key v) (preimage c) (cs_sig_alg_id c, cs_signature c) = Ok ())"

lemma validator_by_address_Some:
  "validator_by_address p a = Some v \<Longrightarrow> v \<in> set (cq_validators p) \<and> cm_address v = a"
  by (auto simp: validator_by_address_def find_Some_iff)

lemma check_commits_Ok:
  "check_commits D p preimage cs seen n = Ok m \<longleftrightarrow>
     m = n + length cs \<and> distinct (map cs_validator_address cs)
     \<and> (\<forall>c \<in> set cs. hex_encode (cs_validator_address c) \<notin> set seen \<and> signer_ok D p preimage c)"
proof (induction cs arbitrary: seen n)
  case (Cons c cs)
  have ok: "signer_ok D p preimage c \<longleftrightarrow> (\<exists>v. validator_by_address p (cs_validator_address c) = Some v
      \<and> ml_dsa_verify D (cm_sig_alg_id v, cm_public_key v) (preimage c) (cs_sig_alg_id c, cs_signature c) = Ok ())"
    using validator_by_address_Some [of p "cs_validator_address c"] unfolding signer_ok_def by blast
  show ?case
    by (auto simp: Cons.IH Let_def result_simps ok image_iff split: option.split)
qed auto

abbreviation signed_preimage :: "xof \<Rightarrow> commit_quorum_policy \<Rightarrow> block \<Rightarrow> commit_sig \<Rightarrow> bytes" where
"signed_preimage X p b c \<equiv> (case cq_preimage_mode p of
     Legacy \<Rightarrow> commit_preimage X (cq_fork_digest p) (bh_height (bl_header b)) (compute_block_hash X b)
   | Distributed round \<Rightarrow> vote_preimage X (cq_fork_digest p) (bh_height (bl_header b)) (cs_round c) Step_Precommit (compute_block_hash X b))"

lemma validate_commit_iff:
  "validate_block_commit_quorum X D b p = Ok () \<longleftrightarrow>
     bl_commit_signatures b \<noteq> [] \<and> cq_quorum_threshold p \<le> length (bl_commit_signatures b)
     \<and> distinct (map cs_validator_address (bl_commit_signatures b))
     \<and> (\<forall>c \<in> set (bl_commit_signatures b). signer_ok D p (signed_preimage X p b) c)"
  by (auto simp: validate_block_commit_quorum_def Let_def result_simps check_commits_Ok)

lemma check_duplicates_Ok:
  "check_duplicates seen vs = Ok () \<longleftrightarrow> distinct (map cm_address vs) \<and> (\<forall>v \<in> set vs. hex_encode (cm_address v) \<notin> set seen)"
  by (induction vs arbitrary: seen) (auto simp: Let_def image_iff)

lemma policy_new_Ok:
  "policy_new X vs t = Ok p \<Longrightarrow> vs \<noteq> [] \<and> distinct (map cm_address vs) \<and> cq_validators p = vs
     \<and> cq_quorum_threshold p = (case t of Some q \<Rightarrow> q | None \<Rightarrow> quorum_size (length vs))
     \<and> 0 < cq_quorum_threshold p \<and> cq_quorum_threshold p \<le> length vs"
  by (auto simp: policy_new_def result_simps check_duplicates_Ok Let_def split: if_splits option.splits)

section \<open>The property\<close>

lemma commit_signers:
  assumes "validate_block_commit_quorum X D b p = Ok ()"
  shows "cs_validator_address ` set (bl_commit_signatures b) \<subseteq> cm_address ` set (cq_validators p)"
    "cq_quorum_threshold p \<le> card (cs_validator_address ` set (bl_commit_signatures b))"
proof -
  note v = assms [unfolded validate_commit_iff]
  show "cs_validator_address ` set (bl_commit_signatures b) \<subseteq> cm_address ` set (cq_validators p)"
  proof (rule image_subsetI)
    fix c assume "c \<in> set (bl_commit_signatures b)"
    then have "signer_ok D p (signed_preimage X p b) c" using v by blast
    then show "cs_validator_address c \<in> cm_address ` set (cq_validators p)" unfolding signer_ok_def by force
  qed
  show "cq_quorum_threshold p \<le> card (cs_validator_address ` set (bl_commit_signatures b))"
    using v distinct_card [of "map cs_validator_address (bl_commit_signatures b)"] by simp
qed

definition attests :: "xof \<Rightarrow> signature_backend \<Rightarrow> commit_quorum_policy \<Rightarrow> block \<Rightarrow> commit_validator \<Rightarrow> bool" where
"attests X D p b v \<longleftrightarrow> (\<exists>c \<in> set (bl_commit_signatures b). cs_validator_address c = cm_address v
   \<and> ml_dsa_verify D (cm_sig_alg_id v, cm_public_key v) (signed_preimage X p b c) (cs_sig_alg_id c, cs_signature c) = Ok ())"

lemma signer_attests:
  assumes "validate_block_commit_quorum X D b p = Ok ()" "distinct (map cm_address (cq_validators p))"
    "v \<in> set (cq_validators p)" "cm_address v \<in> cs_validator_address ` set (bl_commit_signatures b)"
  shows "attests X D p b v"
proof -
  obtain c where c: "c \<in> set (bl_commit_signatures b)" "cs_validator_address c = cm_address v" using assms(4) by auto
  then obtain w where w: "w \<in> set (cq_validators p)" "cm_address w = cm_address v"
    "ml_dsa_verify D (cm_sig_alg_id w, cm_public_key w) (signed_preimage X p b c) (cs_sig_alg_id c, cs_signature c) = Ok ()"
    using assms(1) by (auto simp: validate_commit_iff signer_ok_def)
  then have "w = v" using assms(2,3) by (auto simp: distinct_map dest: inj_onD)
  then show ?thesis using c w(3) by (auto simp: attests_def)
qed

text \<open>
  C29: Accepted commits share a correct signer.  Take a policy with the default threshold, in either
  preimage mode.  When the quorum check accepts two blocks and fewer than a third of the validators
  are faulty, some validator that is not faulty has a signature in both, valid under its configured
  key for the preimage of each block.  So two conflicting blocks are never both accepted unless a
  correct validator signed both.
\<close>

theorem accepted_commits_intersect:
  assumes "policy_new X vs None = Ok p"
    "q = with_fork_digest digest (if distributed then with_distributed_preimage round p else p)"
    "validate_block_commit_quorum X D b q = Ok ()" "validate_block_commit_quorum X D c q = Ok ()"
    "F \<subseteq> cm_address ` set vs" "3 * card F < length vs"
  shows "\<exists>v \<in> set vs. cm_address v \<notin> F \<and> attests X D q b v \<and> attests X D q c v"
proof -
  note p = policy_new_Ok [OF assms(1)]
  have q: "cq_validators q = vs" "cq_quorum_threshold q = quorum_size (length vs)"
    using p by (simp_all add: assms(2) with_fork_digest_def with_distributed_preimage_def)
  let ?U = "cm_address ` set vs"
  have U: "card ?U = length vs" using p distinct_card [of "map cm_address vs"] by simp
  have "\<exists>x. x \<in> cs_validator_address ` set (bl_commit_signatures b)
      \<and> x \<in> cs_validator_address ` set (bl_commit_signatures c) \<and> x \<notin> F"
    by (rule qs.quorums_share_correct [of ?U])
      (use assms(5,6) U q commit_signers [OF assms(3)] commit_signers [OF assms(4)] in auto)
  then obtain x where x: "x \<in> cs_validator_address ` set (bl_commit_signatures b)"
    "x \<in> cs_validator_address ` set (bl_commit_signatures c)" "x \<notin> F" by blast
  then obtain v where v: "v \<in> set vs" "cm_address v = x" using commit_signers(1) [OF assms(3)] q(1) by auto
  then show ?thesis
    using x signer_attests [OF assms(3), of v] signer_attests [OF assms(4), of v] p q(1) by auto
qed

definition sample_backend :: signature_backend where
"sample_backend = \<lparr> sg_key_decodes = \<lambda>a k. True, sg_signature_decodes = \<lambda>a s. True,
   sg_verifies = \<lambda>a k m s. s = k \<rparr>"

definition sample_committee :: "commit_validator list" where
"sample_committee = map (\<lambda>n. \<lparr> cm_node_id = ''n'', cm_address = [n], cm_sig_alg_id = MlDsa65, cm_public_key = [n] \<rparr>) [1, 2, 3, 4]"

definition signed_by :: "byte list \<Rightarrow> block" where
"signed_by ns = demo_block\<lparr> bl_commit_signatures :=
   map (\<lambda>n. \<lparr> cs_validator_address = [n], cs_sig_alg_id = MlDsa65, cs_round = 0, cs_signature = [n] \<rparr>) ns \<rparr>"

lemma sample_policy: "\<exists>p. policy_new demo_xof sample_committee None = Ok p"
  by (simp add: policy_new_def sample_committee_def Let_def quorum_size_def)

lemma sample_commit_ok:
  assumes "policy_new demo_xof sample_committee None = Ok p" "set ns \<subseteq> {1, 2, 3, 4}" "distinct ns" "length ns = 3"
  shows "validate_block_commit_quorum demo_xof sample_backend (signed_by ns) (with_fork_digest d p) = Ok ()"
proof -
  have p: "cq_validators p = sample_committee" "cq_quorum_threshold p = 3"
    using policy_new_Ok [OF assms(1)] by (simp_all add: sample_committee_def quorum_size_def)
  have "signer_ok sample_backend (with_fork_digest d p) pre
      \<lparr> cs_validator_address = [n], cs_sig_alg_id = MlDsa65, cs_round = 0, cs_signature = [n] \<rparr>" if "n \<in> set ns" for n pre
    using that assms(2) p(1)
    by (auto simp: signer_ok_def validator_by_address_def with_fork_digest_def sample_committee_def ml_dsa_verify_def
        backend_verify_def sample_backend_def)
  then show ?thesis
    using assms(3,4) p(2)
    by (auto simp: validate_commit_iff signed_by_def with_fork_digest_def distinct_map inj_on_def o_def)
qed

theorem accepted_commits_intersect_witness:
  "\<exists>p. \<exists>v \<in> set sample_committee. cm_address v \<notin> {[3]}
     \<and> attests demo_xof sample_backend p (signed_by [1, 2, 3]) v \<and> attests demo_xof sample_backend p (signed_by [2, 3, 4]) v"
proof -
  obtain p where p: "policy_new demo_xof sample_committee None = Ok p" using sample_policy by blast
  let ?q = "with_fork_digest [] (if False then with_distributed_preimage 0 p else p)"
  have ok: "validate_block_commit_quorum demo_xof sample_backend (signed_by [1, 2, 3]) ?q = Ok ()"
    "validate_block_commit_quorum demo_xof sample_backend (signed_by [2, 3, 4]) ?q = Ok ()"
    using sample_commit_ok [OF p, of "[1, 2, 3]" "[]"] sample_commit_ok [OF p, of "[2, 3, 4]" "[]"] by simp_all
  have "{[3]} \<subseteq> cm_address ` set sample_committee" "3 * card {[3 :: byte]} < length sample_committee"
    by (simp_all add: sample_committee_def)
  then show ?thesis using accepted_commits_intersect [OF p refl ok] by blast
qed

end
