(* ===== verification/Slh_Dsa.thy ===== *)
theory Slh_Dsa
  imports Slh_Encoding Commit
begin

text \<open>
  SLH-DSA keys, signing and verification (\<open>vendor/slh-dsa/src/signing_key.rs\<close>, \<open>verifying_key.rs\<close>, and
  \<open>split_digest\<close> of \<open>util.rs\<close>), and the functions of \<open>pqc-crypto\<close> that the chain calls (\<open>sign.rs\<close>,
  \<open>verify.rs\<close>).  Every signature verifies under its own key, also after it went through its byte
  encoding, and verification of arbitrary bytes never panics.
\<close>

unbundle bit_operations_syntax

section \<open>The digest of a message\<close>

text \<open>The FORS message, the tree index and the leaf index; the last two are read big-endian and masked.\<close>

definition split_digest :: "parameter_set \<Rightarrow> bytes \<Rightarrow> (bytes \<times> nat \<times> nat, slh_error) result" where
"split_digest P digest =
   (let md = ps_md P;
        idx_tree_size = (ps_h P - ps_hprime P + 7) div 8;
        idx_leaf_size = (ps_hprime P + 7) div 8 in
    if length digest < md + idx_tree_size + idx_leaf_size \<or> idx_tree_size > 8 \<or> idx_leaf_size > 4 then Panic
    else let idx_tree_bytes = replicate (8 - idx_tree_size) 0 @ take idx_tree_size (drop md digest);
             idx_leaf_bytes = replicate (4 - idx_leaf_size) 0 @ take idx_leaf_size (drop (md + idx_tree_size) digest);
             shl = (if ps_h P - ps_hprime P < 64 then 2 ^ (ps_h P - ps_hprime P) else 0);
             mask = (if shl = 0 then U64_MAX else shl - 1)
         in Ok (take md digest, from_be_bytes idx_tree_bytes AND mask,
                from_be_bytes idx_leaf_bytes AND (2 ^ ps_hprime P - 1)))"

section \<open>Keys\<close>

record verifying_key =
  vk_pk_seed :: bytes
  vk_pk_root :: bytes

record signing_key =
  sy_sk_seed :: bytes
  sy_sk_prf :: bytes
  sy_verifying_key :: verifying_key

definition vk_to_bytes :: "verifying_key \<Rightarrow> bytes" where
"vk_to_bytes vk = vk_pk_seed vk @ vk_pk_root vk"

definition vk_try_from :: "parameter_set \<Rightarrow> bytes \<Rightarrow> (verifying_key, slh_error) result" where
"vk_try_from P bs =
   (if length bs \<noteq> hs_n P * 2 then Err SlhError
    else Ok \<lparr> vk_pk_seed = take (hs_n P) bs, vk_pk_root = drop (hs_n P) bs \<rparr>)"

definition sk_to_bytes :: "signing_key \<Rightarrow> bytes" where
"sk_to_bytes sk = sy_sk_seed sk @ sy_sk_prf sk @ vk_to_bytes (sy_verifying_key sk)"

definition sk_try_from :: "parameter_set \<Rightarrow> bytes \<Rightarrow> (signing_key, slh_error) result" where
"sk_try_from P bs =
   (if length bs \<noteq> ps_sk_len P then Err SlhError
    else let rest = drop (hs_n P) bs in
    bind_r (vk_try_from P (drop (hs_n P) rest)) (\<lambda>verifying_key.
    Ok \<lparr> sy_sk_seed = take (hs_n P) bs, sy_sk_prf = take (hs_n P) rest, sy_verifying_key = verifying_key \<rparr>))"

definition from_seed :: "parameter_set \<Rightarrow> bytes \<Rightarrow> bytes \<Rightarrow> bytes \<Rightarrow> signing_key" where
"from_seed P sk_seed sk_prf pk_seed =
   (let adrs = wots_hash_default\<lparr> wh_layer_adrs := ps_d P - 1 \<rparr>;
        pk_root = xmss_node P sk_seed 0 (ps_hprime P) pk_seed adrs
    in \<lparr> sy_sk_seed = sk_seed, sy_sk_prf = sk_prf,
         sy_verifying_key = \<lparr> vk_pk_seed = pk_seed, vk_pk_root = pk_root \<rparr> \<rparr>)"

text \<open>The generator \<open>rng\<close> gives the bytes of its successive \<open>fill_bytes\<close> calls.\<close>

definition signing_key_new :: "parameter_set \<Rightarrow> (nat \<Rightarrow> bytes) \<Rightarrow> signing_key" where
"signing_key_new P rng = from_seed P (fit (hs_n P) (rng 0)) (fit (hs_n P) (rng 1)) (fit (hs_n P) (rng 2))"

definition slh_keygen_internal :: "parameter_set \<Rightarrow> bytes \<Rightarrow> bytes \<Rightarrow> bytes \<Rightarrow> (signing_key, slh_error) result" where
"slh_keygen_internal P sk_seed sk_prf pk_seed =
   (if length sk_seed \<noteq> hs_n P \<or> length sk_prf \<noteq> hs_n P \<or> length pk_seed \<noteq> hs_n P then Panic
    else Ok (from_seed P sk_seed sk_prf pk_seed))"

section \<open>Signing and verifying\<close>

definition slh_sign_internal :: "parameter_set \<Rightarrow> signing_key \<Rightarrow> bytes \<Rightarrow> bytes option \<Rightarrow> (slh_signature, slh_error) result" where
"slh_sign_internal P sk msg opt_rand =
   (let pk_seed = vk_pk_seed (sy_verifying_key sk);
        rand = (case opt_rand of Some r \<Rightarrow> r | None \<Rightarrow> pk_seed) in
    if length rand \<noteq> hs_n P then Panic
    else let randomizer = hs_prf_msg P (sy_sk_prf sk) rand msg;
             digest = hs_h_msg P randomizer pk_seed (vk_pk_root (sy_verifying_key sk)) msg in
    bind_r (split_digest P digest) (\<lambda>(md, idx_tree, idx_leaf).
    let adrs = fors_tree_new idx_tree idx_leaf in
    bind_r (fors_sign P md (sy_sk_seed sk) pk_seed adrs) (\<lambda>fors_sig.
    bind_r (fors_pk_from_sig P fors_sig md pk_seed adrs) (\<lambda>fors_pk.
    bind_r (ht_sign P fors_pk (sy_sk_seed sk) pk_seed idx_tree idx_leaf) (\<lambda>ht_sig.
    Ok \<lparr> sg_randomizer = randomizer, sg_fors_sig = fors_sig, sg_ht_sig = ht_sig \<rparr>)))))"

text \<open>The message with its context string in front; the length of the context is one byte.\<close>

definition ctx_msg :: "bytes \<Rightarrow> bytes \<Rightarrow> (bytes, slh_error) result" where
"ctx_msg msg ctx =
   (if length ctx > U8_MAX then Err SlhError else Ok ([0] @ be_bytes 1 (length ctx) @ ctx @ msg))"

definition try_sign_with_context ::
    "parameter_set \<Rightarrow> signing_key \<Rightarrow> bytes \<Rightarrow> bytes \<Rightarrow> bytes option \<Rightarrow> (slh_signature, slh_error) result" where
"try_sign_with_context P sk msg ctx opt_rand =
   bind_r (ctx_msg msg ctx) (\<lambda>m. slh_sign_internal P sk m opt_rand)"

definition slh_verify_internal :: "parameter_set \<Rightarrow> verifying_key \<Rightarrow> bytes \<Rightarrow> slh_signature \<Rightarrow> (unit, slh_error) result" where
"slh_verify_internal P vk msg sig =
   (let pk_seed = vk_pk_seed vk;
        digest = hs_h_msg P (sg_randomizer sig) pk_seed (vk_pk_root vk) msg in
    bind_r (split_digest P digest) (\<lambda>(md, idx_tree, idx_leaf).
    let adrs = fors_tree_new idx_tree idx_leaf in
    bind_r (fors_pk_from_sig P (sg_fors_sig sig) md pk_seed adrs) (\<lambda>fors_pk.
    bind_r (ht_verify P fors_pk (sg_ht_sig sig) pk_seed idx_tree idx_leaf (vk_pk_root vk)) (\<lambda>valid.
    ok_or (if valid then Some () else None) SlhError))))"

definition try_verify_with_context ::
    "parameter_set \<Rightarrow> verifying_key \<Rightarrow> bytes \<Rightarrow> bytes \<Rightarrow> slh_signature \<Rightarrow> (unit, slh_error) result" where
"try_verify_with_context P vk msg ctx sig =
   bind_r (ctx_msg msg ctx) (\<lambda>m. slh_verify_internal P vk m sig)"

definition slh_verify :: "parameter_set \<Rightarrow> verifying_key \<Rightarrow> bytes \<Rightarrow> slh_signature \<Rightarrow> (unit, slh_error) result" where
"slh_verify P vk msg sig = try_verify_with_context P vk msg [] sig"

section \<open>The functions the chain calls\<close>

text \<open>The parameter set behind an algorithm identifier.\<close>

fun slh_alg_set :: "alg_id \<Rightarrow> slh_set option" where
"slh_alg_set SlhDsaSha2128s = Some Sha2_128s" |
"slh_alg_set SlhDsaShake128s = Some Shake128s" |
"slh_alg_set SlhDsaShake192s = Some Shake192s" |
"slh_alg_set SlhDsaShake256s = Some Shake256s" |
"slh_alg_set _ = None"

text \<open>
  The bodies that \<open>slh_dsa_sha2_128s_generate\<close> to \<open>slh_dsa_shake_256s_generate\<close>, the four signing and
  the four verifying functions share.  The text of a signing error comes from an external crate.
\<close>

definition slh_dsa_generate :: "digests \<Rightarrow> slh_set \<Rightarrow> (nat \<Rightarrow> bytes) \<Rightarrow> bytes \<times> bytes" where
"slh_dsa_generate H s rng =
   (let sk = signing_key_new (slh_set_params H s) rng in (vk_to_bytes (sy_verifying_key sk), sk_to_bytes sk))"

definition slh_dsa_sign ::
    "digests \<Rightarrow> (slh_error \<Rightarrow> string) \<Rightarrow> slh_set \<Rightarrow> bytes \<Rightarrow> bytes \<Rightarrow> (bytes, crypto_error) result" where
"slh_dsa_sign H error_text s sk_bytes preimage =
   (let P = slh_set_params H s in
    bind_r (map_err (\<lambda>_. InvalidKeySize) (sk_try_from P sk_bytes)) (\<lambda>sk.
    bind_r (map_err (\<lambda>e. Backend (error_text e)) (try_sign_with_context P sk preimage [] None)) (\<lambda>sig.
    Ok (signature_to_vec sig))))"

definition verify_slh_dsa :: "digests \<Rightarrow> slh_set \<Rightarrow> bytes \<Rightarrow> bytes \<Rightarrow> bytes \<Rightarrow> (unit, crypto_error) result" where
"verify_slh_dsa H s pk_bytes preimage sig_bytes =
   (let P = slh_set_params H s in
    bind_r (map_err (\<lambda>_. InvalidKeySize) (vk_try_from P pk_bytes)) (\<lambda>vk.
    bind_r (map_err (\<lambda>_. InvalidSignatureSize) (signature_try_from P sig_bytes)) (\<lambda>sig.
    map_err (\<lambda>_. VerificationFailed) (slh_verify P vk preimage sig))))"

definition pq_verify ::
    "digests \<Rightarrow> signature_backend \<Rightarrow> alg_id \<times> bytes \<Rightarrow> bytes \<Rightarrow> alg_id \<times> bytes \<Rightarrow> (unit, crypto_error) result" where
"pq_verify H D public_key preimage signature =
   (if fst public_key \<noteq> fst signature then Err (NotASigningAlgorithm (fst signature))
    else if fst signature \<in> {MlDsa44, MlDsa65, MlDsa87} then ml_dsa_verify D public_key preimage signature
    else case slh_alg_set (fst signature) of
      Some s \<Rightarrow> verify_slh_dsa H s (snd public_key) preimage (snd signature)
    | None \<Rightarrow> Err (NotASigningAlgorithm (fst signature)))"

section \<open>Verification is total\<close>

context slh_params
begin

lemma split_digest_Ok:
  assumes "length digest = hs_m P"
  obtains md t l where "split_digest P digest = Ok (md, t, l)" "length md = ps_md P"
    "t < 2 ^ (ps_h P - ps_hprime P)" "l < 2 ^ ps_hprime P"
proof -
  define b where "b = ps_h P - ps_hprime P"
  define x where "x = from_be_bytes (replicate (8 - (b + 7) div 8) 0 @ take ((b + 7) div 8) (drop (ps_md P) digest))"
  define shl where "shl = (if b < 64 then 2 ^ b else (0 :: nat))"
  define l where "l = from_be_bytes (replicate (4 - (ps_hprime P + 7) div 8) 0
    @ take ((ps_hprime P + 7) div 8) (drop (ps_md P + (b + 7) div 8) digest)) AND (2 ^ ps_hprime P - 1)"
  have b: "b \<le> 64" using tree_bits by (simp add: b_def)
  have sizes: "\<not> (length digest < ps_md P + (b + 7) div 8 + (ps_hprime P + 7) div 8
      \<or> (b + 7) div 8 > 8 \<or> (ps_hprime P + 7) div 8 > 4)"
    using digest_len assms b hprime_less by (auto simp: b_def)
  have mask: "x AND (if shl = 0 then U64_MAX else shl - 1) = x mod 2 ^ b"
  proof (cases "b < 64")
    case True
    then show ?thesis using nat_and_mask [of x b] by (simp add: shl_def)
  next
    case False
    then have "b = 64" using b by simp
    moreover have "U64_MAX = 2 ^ 64 - 1" by (simp add: U64_MAX_def)
    ultimately show ?thesis using nat_and_mask [of x 64] by (simp add: shl_def)
  qed
  have "split_digest P digest = Ok (take (ps_md P) digest, x mod 2 ^ b, l)"
    unfolding split_digest_def Let_def b_def [symmetric] x_def [symmetric] l_def [symmetric] shl_def [symmetric] mask
    using sizes by (simp only: if_False)
  moreover have "length (take (ps_md P) digest) = ps_md P" using sizes by simp
  moreover have "l < 2 ^ ps_hprime P" unfolding l_def nat_and_mask by simp
  moreover have "x mod 2 ^ b < 2 ^ b" by simp
  ultimately show ?thesis using that unfolding b_def by blast
qed

lemma wots_pk_from_sig_total:
  assumes "length m = hs_n P" "wots_sig_ok P s"
  shows "\<exists>k. wots_pk_from_sig P s m pk_seed adrs = Ok k \<and> length k = hs_n P"
  using assms by (simp add: wots_pk_from_sig_def wots_msg_csum_Ok length_wots_digits wots_sig_ok_def Let_def t_length)

lemma length_xmss_climb: "length node = hs_n P \<Longrightarrow> length (xmss_climb P pk_seed adrs j idx node auth) = hs_n P"
  by (induction auth arbitrary: adrs j idx node) (simp_all add: Let_def h_length)

lemma xmss_pk_from_sig_total:
  assumes "length m = hs_n P" "xmss_sig_ok P s"
  shows "\<exists>k. xmss_pk_from_sig P idx s m pk_seed adrs = Ok k \<and> length k = hs_n P"
proof -
  obtain k where "wots_pk_from_sig P (xs_sig s) m pk_seed (adrs\<lparr> wh_key_pair_adrs := idx \<rparr>) = Ok k" "length k = hs_n P"
    using wots_pk_from_sig_total [OF assms(1), of "xs_sig s"] assms(2) unfolding xmss_sig_ok_def by blast
  then show ?thesis using assms(2) by (simp add: xmss_pk_from_sig_def Let_def xmss_sig_ok_def length_xmss_climb)
qed

lemma ht_verify_loop_total:
  assumes "length root = hs_n P" "\<forall>s \<in> set sigs. xmss_sig_ok P s"
  shows "\<exists>k. ht_verify_loop P pk_seed j sigs root t adrs = Ok k"
  using assms
proof (induction sigs arbitrary: root j t adrs)
  case (Cons s sigs)
  let ?adrs = "adrs\<lparr> wh_layer_adrs := j, wh_tree_adrs_low := drop_bit (ps_hprime P) t \<rparr>"
  obtain k where k: "xmss_pk_from_sig P (t mod 2 ^ ps_hprime P) s root pk_seed ?adrs = Ok k" "length k = hs_n P"
    using xmss_pk_from_sig_total [OF Cons.prems(1), of s] Cons.prems(2) unfolding list.set by blast
  then show ?case using Cons.IH [OF k(2)] Cons.prems(2) by (simp add: ht_next_Ok Let_def)
qed simp

lemma ht_verify_total:
  assumes "length m = hs_n P" "ht_sig_ok P s"
  shows "\<exists>v. ht_verify P m s pk_seed t l root = Ok v"
proof -
  obtain x xs where s: "s = x # xs" "xmss_sig_ok P x" "\<forall>y \<in> set xs. xmss_sig_ok P y" "length xs = ps_d P - 1"
    using assms(2) d_pos by (cases s) (auto simp: ht_sig_ok_def)
  let ?adrs = "wots_hash_default\<lparr> wh_tree_adrs_low := t \<rparr>"
  obtain k where k: "xmss_pk_from_sig P l x m pk_seed ?adrs = Ok k" "length k = hs_n P"
    using xmss_pk_from_sig_total [OF assms(1) s(2)] by blast
  obtain r where "ht_verify_loop P pk_seed 1 xs k t ?adrs = Ok r" using ht_verify_loop_total [OF k(2) s(3)] by blast
  then show ?thesis using k(1) s d_pos by (simp add: ht_verify_def Let_def)
qed

lemma fors_pk_from_sig_total:
  assumes "length md = ps_md P" "fors_sig_ok P s"
  shows "\<exists>k. fors_pk_from_sig P s md pk_seed adrs = Ok k \<and> length k = hs_n P"
proof -
  obtain ds where "base_2b (ps_a P) (ps_k P) md = Ok ds"
    using base_2b_Ok [of "ps_a P" "ps_k P" md] assms(1) md_bits a_le by (auto simp: mult.commute)
  then show ?thesis using assms(2) by (auto simp: fors_pk_from_sig_def fors_sig_ok_def fors_mt_sig_ok_def Let_def t_length)
qed

lemma slh_verify_internal_total:
  assumes "signature_ok P sig"
  shows "slh_verify_internal P vk msg sig \<in> {Ok (), Err SlhError}"
proof -
  let ?digest = "hs_h_msg P (sg_randomizer sig) (vk_pk_seed vk) (vk_pk_root vk) msg"
  obtain md t l where d: "split_digest P ?digest = Ok (md, t, l)" "length md = ps_md P"
    using split_digest_Ok [OF h_msg_length] by metis
  obtain k where k: "fors_pk_from_sig P (sg_fors_sig sig) md (vk_pk_seed vk) (fors_tree_new t l) = Ok k" "length k = hs_n P"
    using fors_pk_from_sig_total [OF d(2)] assms unfolding signature_ok_def by blast
  obtain v where "ht_verify P k (sg_ht_sig sig) (vk_pk_seed vk) t l (vk_pk_root vk) = Ok v"
    using ht_verify_total [OF k(2)] assms unfolding signature_ok_def by blast
  then show ?thesis using d(1) k(1) by (cases v) (simp_all add: slh_verify_internal_def Let_def)
qed

section \<open>Signatures verify\<close>

lemma from_seed_root:
  "vk_pk_root (sy_verifying_key (from_seed P sk_seed sk_prf pk_seed))
   = xmss_node P sk_seed 0 (ps_hprime P) pk_seed (ht_adrs (ps_d P - 1) 0)"
  by (simp add: from_seed_def Let_def ht_adrs_def wots_hash_default_def)

lemma slh_sign_internal_Ok:
  assumes key: "sk = from_seed P sk_seed sk_prf pk_seed"
    and rand: "case opt_rand of Some r \<Rightarrow> length r = hs_n P | None \<Rightarrow> length pk_seed = hs_n P"
  obtains sig where "slh_sign_internal P sk msg opt_rand = Ok sig" "signature_ok P sig"
    "slh_verify_internal P (sy_verifying_key sk) msg sig = Ok ()"
proof -
  let ?vk = "sy_verifying_key sk"
  have sel: "sy_sk_seed sk = sk_seed" "sy_sk_prf sk = sk_prf" "vk_pk_seed ?vk = pk_seed"
    using key by (simp_all add: from_seed_def Let_def)
  define rand where "rand = (case opt_rand of Some r \<Rightarrow> r | None \<Rightarrow> pk_seed)"
  have len: "length rand = hs_n P" using assms(2) by (simp add: rand_def split: option.splits)
  define r where "r = hs_prf_msg P sk_prf rand msg"
  obtain md t l where d: "split_digest P (hs_h_msg P r pk_seed (vk_pk_root ?vk) msg) = Ok (md, t, l)"
    "length md = ps_md P" "t < 2 ^ (ps_h P - ps_hprime P)" "l < 2 ^ ps_hprime P"
    using split_digest_Ok [OF h_msg_length] by metis
  obtain f where f: "fors_sign P md sk_seed pk_seed (fors_tree_new t l) = Ok f" "fors_sig_ok P f"
    using fors_sign_Ok [OF d(2)] by metis
  obtain k where k: "fors_pk_from_sig P f md pk_seed (fors_tree_new t l) = Ok k" "length k = hs_n P"
    using fors_pk_from_sig_total [OF d(2) f(2)] by blast
  obtain h where h: "ht_sign P k sk_seed pk_seed t l = Ok h" "ht_sig_ok P h"
    "ht_verify P k h pk_seed t l (vk_pk_root ?vk) = Ok True"
    using ht_sign_Ok [OF k(2) d(4,3)] unfolding key from_seed_root by metis
  let ?sig = "\<lparr> sg_randomizer = r, sg_fors_sig = f, sg_ht_sig = h \<rparr>"
  have "slh_sign_internal P sk msg opt_rand = Ok ?sig"
    using d f k h len by (simp add: slh_sign_internal_def Let_def sel rand_def [symmetric] r_def [symmetric])
  moreover have "signature_ok P ?sig" using f h by (simp add: signature_ok_def r_def prf_msg_length)
  moreover have "slh_verify_internal P ?vk msg ?sig = Ok ()"
    using d k h by (simp add: slh_verify_internal_def Let_def sel)
  ultimately show ?thesis using that by blast
qed

lemma sk_bytes_roundtrip:
  assumes "length sk_seed = hs_n P" "length sk_prf = hs_n P" "length pk_seed = hs_n P"
  shows "sk_try_from P (sk_to_bytes (from_seed P sk_seed sk_prf pk_seed)) = Ok (from_seed P sk_seed sk_prf pk_seed)"
    and "vk_try_from P (vk_to_bytes (sy_verifying_key (from_seed P sk_seed sk_prf pk_seed)))
       = Ok (sy_verifying_key (from_seed P sk_seed sk_prf pk_seed))"
  using assms
  by (simp_all add: sk_try_from_def sk_to_bytes_def vk_try_from_def vk_to_bytes_def from_seed_def Let_def
      length_xmss_node sk_len)

end

lemma slh_registry_row:
  assumes "slh_alg_set alg = Some s"
  shows "\<exists>row \<in> set phase1_registry. ae_alg_id row = alg \<and> ae_pk_size row = hs_n (slh_set_params H s) * 2
    \<and> ae_sig_size row = ps_sig_len (slh_set_params H s)"
  using assms
  by (cases alg; simp; hypsubst) (simp add: phase1_registry_def alg_entry_row_def slh_set_params_def suite_defs Let_def)+

section \<open>Results\<close>

text \<open>A concrete instance of the external code, for the witnesses.\<close>

definition demo_digests :: digests where
"demo_digests = \<lparr> dg_shake256 = \<lambda>x n. take n (x @ replicate n 7), dg_sha256 = \<lambda>x. replicate 32 1,
   dg_sha512 = \<lambda>x. replicate 64 2, dg_hmac_sha256 = \<lambda>k x. replicate 32 3, dg_hmac_sha512 = \<lambda>k x. replicate 64 4 \<rparr>"

definition demo_backend :: signature_backend where
"demo_backend = \<lparr> sg_key_decodes = \<lambda>a k. True, sg_signature_decodes = \<lambda>a x. True, sg_verifies = \<lambda>a k m x. m = x \<rparr>"

text \<open>
  Signing with any of the twelve parameter sets succeeds for every key the crate generates, every
  message, every context of at most 255 bytes and every randomizer of the right length.  The encoded
  signature has the length the set declares, decodes to the same signature, and verifies under the
  matching key with the same message and context.  A longer context is refused by both sides.
\<close>

theorem slh_sign_verifies:
  assumes "P = slh_set_params H s" "sk = signing_key_new P rng"
    and "case opt_rand of Some r \<Rightarrow> length r = hs_n P | None \<Rightarrow> True"
  shows "if length ctx \<le> 255
         then \<exists>sig. try_sign_with_context P sk msg ctx opt_rand = Ok sig
           \<and> length (signature_to_vec sig) = ps_sig_len P
           \<and> signature_try_from P (signature_to_vec sig) = Ok sig
           \<and> try_verify_with_context P (sy_verifying_key sk) msg ctx sig = Ok ()
         else try_sign_with_context P sk msg ctx opt_rand = Err SlhError
           \<and> (\<forall>vk sig. try_verify_with_context P vk msg ctx sig = Err SlhError)"
proof (cases "length ctx \<le> 255")
  case True
  let ?m = "[0] @ be_bytes 1 (length ctx) @ ctx @ msg"
  have ctx: "ctx_msg msg ctx = Ok ?m" using True by (simp add: ctx_msg_def U8_MAX_def)
  have "case opt_rand of Some r \<Rightarrow> length r = hs_n P | None \<Rightarrow> length (fit (hs_n P) (rng 2)) = hs_n P"
    using assms(3) by (simp split: option.splits)
  then obtain sig where sig: "slh_sign_internal P sk ?m opt_rand = Ok sig" "signature_ok P sig"
    "slh_verify_internal P (sy_verifying_key sk) ?m sig = Ok ()"
    using slh_set.slh_sign_internal_Ok [of sk H s "fit (hs_n P) (rng 0)" "fit (hs_n P) (rng 1)" "fit (hs_n P) (rng 2)" opt_rand]
    unfolding assms(1,2) signing_key_new_def by blast
  then show ?thesis
    using True ctx slh_codec.enc_length [of H s sig] slh_codec.dec_enc [of H s sig]
    by (simp add: try_sign_with_context_def try_verify_with_context_def assms(1))
qed (simp add: try_sign_with_context_def try_verify_with_context_def ctx_msg_def U8_MAX_def)

theorem slh_sign_verifies_witness:
  "let P = slh_set_params demo_digests Shake192s; sk = signing_key_new P (\<lambda>i. replicate 24 (word_of_nat i))
   in \<exists>sig. try_sign_with_context P sk [1, 2, 3] [9] (Some (replicate 24 5)) = Ok sig
        \<and> length (signature_to_vec sig) = 16224
        \<and> try_verify_with_context P (sy_verifying_key sk) [1, 2, 3] [9] sig = Ok ()"
proof -
  have len: "hs_n (slh_set_params demo_digests Shake192s) = 24" "ps_sig_len (slh_set_params demo_digests Shake192s) = 16224"
    by (simp_all add: slh_set_params_def suite_defs)
  show ?thesis
    unfolding Let_def
    using slh_sign_verifies [OF refl refl, where H = demo_digests and s = Shake192s
        and opt_rand = "Some (replicate 24 5)" and ctx = "[9]" and msg = "[1, 2, 3]"]
    by (auto simp: len)
qed

text \<open>
  C11: A key pair, a signature and the verifier fit together for each SLH-DSA algorithm of the registry:
  the generated public key and the signature have exactly the sizes the registry declares, and the
  node's verifier accepts the signature of the preimage.
\<close>

theorem slh_dsa_accepted:
  assumes "slh_alg_set alg = Some s" "slh_dsa_generate H s rng = (pk, sk)"
  shows "\<exists>sig row. slh_dsa_sign H error_text s sk preimage = Ok sig
    \<and> row \<in> set phase1_registry \<and> ae_alg_id row = alg \<and> ae_pk_size row = length pk \<and> ae_sig_size row = length sig
    \<and> pq_verify H D (alg, pk) preimage (alg, sig) = Ok ()"
proof -
  let ?P = "slh_set_params H s"
  define k where "k = signing_key_new ?P rng"
  have pk: "pk = vk_to_bytes (sy_verifying_key k)" "sk = sk_to_bytes k"
    using assms(2) by (simp_all add: slh_dsa_generate_def Let_def k_def)
  have dec: "sk_try_from ?P sk = Ok k" "vk_try_from ?P pk = Ok (sy_verifying_key k)"
    using slh_set.sk_bytes_roundtrip [of "fit (hs_n ?P) (rng 0)" H s "fit (hs_n ?P) (rng 1)" "fit (hs_n ?P) (rng 2)"]
    by (simp_all add: pk k_def signing_key_new_def)
  let ?m = "[0] @ be_bytes 1 0 @ [] @ preimage"
  obtain sig where sig: "slh_sign_internal ?P k ?m None = Ok sig" "signature_ok ?P sig"
    "slh_verify_internal ?P (sy_verifying_key k) ?m sig = Ok ()"
    using slh_set.slh_sign_internal_Ok [of k H s "fit (hs_n ?P) (rng 0)" "fit (hs_n ?P) (rng 1)" "fit (hs_n ?P) (rng 2)" None ?m]
    by (auto simp: k_def signing_key_new_def)
  have ctx: "ctx_msg preimage [] = Ok ?m" by (simp add: ctx_msg_def)
  have sign: "slh_dsa_sign H error_text s sk preimage = Ok (signature_to_vec sig)"
    using dec(1) sig(1) ctx by (simp add: slh_dsa_sign_def Let_def try_sign_with_context_def)
  have verify: "verify_slh_dsa H s pk preimage (signature_to_vec sig) = Ok ()"
    using dec(2) sig(3) ctx slh_codec.dec_enc [OF sig(2)]
    by (simp add: verify_slh_dsa_def Let_def slh_verify_def try_verify_with_context_def)
  have len: "length (signature_to_vec sig) = ps_sig_len ?P" "length pk = hs_n ?P * 2"
    using slh_codec.enc_length [OF sig(2)] dec(2) by (auto simp: vk_try_from_def split: if_splits)
  obtain row where "row \<in> set phase1_registry" "ae_alg_id row = alg" "ae_pk_size row = hs_n ?P * 2" "ae_sig_size row = ps_sig_len ?P"
    using slh_registry_row [OF assms(1), of H] by blast
  moreover have "pq_verify H D (alg, pk) preimage (alg, signature_to_vec sig) = Ok ()"
    using assms(1) verify by (cases alg) (auto simp: pq_verify_def)
  ultimately show ?thesis using sign len by metis
qed

theorem slh_dsa_accepted_witness:
  "\<exists>pk sk sig. slh_dsa_generate demo_digests Shake256s (\<lambda>i. replicate 32 (word_of_nat i)) = (pk, sk)
    \<and> slh_dsa_sign demo_digests (\<lambda>e. ''signature error'') Shake256s sk [1, 2] = Ok sig \<and> length sig = 29792
    \<and> pq_verify demo_digests demo_backend (SlhDsaShake256s, pk) [1, 2] (SlhDsaShake256s, sig) = Ok ()"
proof -
  obtain pk sk where key: "slh_dsa_generate demo_digests Shake256s (\<lambda>i. replicate 32 (word_of_nat i)) = (pk, sk)"
    by (cases "slh_dsa_generate demo_digests Shake256s (\<lambda>i. replicate 32 (word_of_nat i))")
  have alg: "slh_alg_set SlhDsaShake256s = Some Shake256s" by simp
  obtain sig row where sig: "slh_dsa_sign demo_digests (\<lambda>e. ''signature error'') Shake256s sk [1, 2] = Ok sig"
    "pq_verify demo_digests demo_backend (SlhDsaShake256s, pk) [1, 2] (SlhDsaShake256s, sig) = Ok ()"
    "ae_sig_size row = length sig" and row: "row \<in> set phase1_registry" "ae_alg_id row = SlhDsaShake256s"
    using slh_dsa_accepted [OF alg key, of "\<lambda>e. ''signature error''" "[1, 2]" demo_backend] by blast
  have "ae_sig_size row = 29792" using row by (auto simp: phase1_registry_def alg_entry_row_def)
  then show ?thesis using key sig by auto
qed

text \<open>
  C33: The verifier answers on arbitrary bytes.  Whatever key, preimage and signature of an SLH-DSA
  algorithm arrive, the result is one of the four outcomes of the code and never a panic: a key of the
  wrong size is refused first, then a signature of the wrong size, and only a pair of the right sizes
  reaches the check itself.
\<close>

theorem slh_verify_total:
  assumes "slh_alg_set alg = Some s" "P = slh_set_params H s"
  shows "pq_verify H D (alg, pk) preimage (alg, sig) =
    (if length pk \<noteq> 2 * hs_n P then Err InvalidKeySize
     else if length sig \<noteq> ps_sig_len P then Err InvalidSignatureSize
     else if \<exists>x. signature_to_vec x = sig \<and> signature_ok P x
            \<and> slh_verify P \<lparr> vk_pk_seed = take (hs_n P) pk, vk_pk_root = drop (hs_n P) pk \<rparr> preimage x = Ok ()
     then Ok () else Err VerificationFailed)"
proof -
  have pq: "pq_verify H D (alg, pk) preimage (alg, sig) = verify_slh_dsa H s pk preimage sig"
    using assms(1) by (cases alg) (auto simp: pq_verify_def)
  let ?P = "slh_set_params H s"
  let ?vk = "\<lparr> vk_pk_seed = take (hs_n ?P) pk, vk_pk_root = drop (hs_n ?P) pk \<rparr>"
  show ?thesis
  proof (cases "length pk = hs_n ?P * 2 \<and> length sig = ps_sig_len ?P")
    case True
    obtain x where x: "signature_try_from ?P sig = Ok x" "signature_ok ?P x" "signature_to_vec x = sig"
      using slh_codec.dec_exact [of sig H s] True by blast
    have same: "(\<exists>y. signature_to_vec y = sig \<and> signature_ok ?P y \<and> slh_verify ?P ?vk preimage y = Ok ())
      \<longleftrightarrow> slh_verify ?P ?vk preimage x = Ok ()"
      using x slh_codec.dec_iff [of H s sig] by (metis result.inject(1))
    have "slh_verify ?P ?vk preimage x \<in> {Ok (), Err SlhError}"
      using slh_set.slh_verify_internal_total [OF x(2)]
      by (simp add: slh_verify_def try_verify_with_context_def ctx_msg_def)
    moreover have "verify_slh_dsa H s pk preimage sig = map_err (\<lambda>_. VerificationFailed) (slh_verify ?P ?vk preimage x)"
      using True x(1) by (simp add: verify_slh_dsa_def Let_def vk_try_from_def)
    ultimately show ?thesis using True unfolding pq assms(2) same by auto
  next
    case False
    then show ?thesis
      using slh_codec.dec_other [of sig H s] unfolding pq verify_slh_dsa_def Let_def assms(2)
      by (auto simp: vk_try_from_def)
  qed
qed

theorem slh_verify_total_witness:
  "pq_verify demo_digests demo_backend (SlhDsaShake128s, replicate 31 0) [] (SlhDsaShake128s, []) = Err InvalidKeySize
   \<and> pq_verify demo_digests demo_backend (SlhDsaShake128s, replicate 32 0) [] (SlhDsaShake128s, replicate 7857 0)
     = Err InvalidSignatureSize"
proof -
  have sizes: "hs_n (slh_set_params demo_digests Shake128s) = 16" "ps_sig_len (slh_set_params demo_digests Shake128s) = 7856"
    by (simp_all add: slh_set_params_def suite_defs)
  have alg: "slh_alg_set SlhDsaShake128s = Some Shake128s" by simp
  show ?thesis
    using slh_verify_total [OF alg refl, of demo_digests demo_backend "replicate 31 0" "[]" "[]"]
      slh_verify_total [OF alg refl, of demo_digests demo_backend "replicate 32 0" "[]" "replicate 7857 0"]
    by (simp only: sizes length_replicate) simp
qed

text \<open>
  Signature bytes are not malleable.  A byte string decodes to a signature exactly when it is the
  encoding of that signature; it decodes if and only if it has the length of the parameter set; and
  decoding never panics.
\<close>

theorem slh_signature_encoding:
  "(signature_try_from (slh_set_params H s) bs = Ok x \<longleftrightarrow> signature_ok (slh_set_params H s) x \<and> signature_to_vec x = bs)
   \<and> (is_ok (signature_try_from (slh_set_params H s) bs) \<longleftrightarrow> length bs = ps_sig_len (slh_set_params H s))
   \<and> signature_try_from (slh_set_params H s) bs \<noteq> Panic"
proof -
  have "is_ok (signature_try_from (slh_set_params H s) bs) \<longleftrightarrow> length bs = ps_sig_len (slh_set_params H s)"
    using slh_codec.dec_exact [of bs H s] slh_codec.dec_other [of bs H s]
    by (cases "length bs = ps_sig_len (slh_set_params H s)") auto
  moreover have "signature_try_from (slh_set_params H s) bs \<noteq> Panic"
    using slh_codec.dec_exact [of bs H s] slh_codec.dec_other [of bs H s]
    by (cases "length bs = ps_sig_len (slh_set_params H s)") auto
  ultimately show ?thesis using slh_codec.dec_iff by blast
qed

text \<open>
  C36: The checksum of WOTS+ does its work.  For two different messages of the same set, signing
  reveals in some chain of the first an earlier value than in the second, and the other way round, so
  the values of one signature never suffice for the other.
\<close>

theorem wots_checksum_incomparable:
  assumes "P = slh_set_params H s" "length m = hs_n P" "length m' = hs_n P" "m \<noteq> m'"
  shows "\<exists>d d'. wots_msg_csum P m = Ok d \<and> wots_msg_csum P m' = Ok d'
    \<and> length d = ps_wots_sig_len P \<and> length d' = ps_wots_sig_len P
    \<and> (\<exists>i < ps_wots_sig_len P. d ! i < d' ! i) \<and> (\<exists>i < ps_wots_sig_len P. d' ! i < d ! i)"
proof -
  have "wots_msg_csum P m = Ok (wots_digits m)" "wots_msg_csum P m' = Ok (wots_digits m')"
    "length (wots_digits m) = ps_wots_sig_len P" "length (wots_digits m') = ps_wots_sig_len P"
    using assms(2,3) unfolding assms(1) by (simp_all add: slh_set.wots_msg_csum_Ok slh_set.length_wots_digits)
  then show ?thesis
    using wots_digits_antichain [of m m'] wots_digits_antichain [of m' m] assms(2-4) by auto
qed

theorem wots_checksum_incomparable_witness:
  "\<exists>d d'. wots_msg_csum (slh_set_params demo_digests Sha2_128s) (replicate 16 0) = Ok d
    \<and> wots_msg_csum (slh_set_params demo_digests Sha2_128s) (replicate 16 255) = Ok d'
    \<and> (\<exists>i < 35. d ! i < d' ! i) \<and> (\<exists>i < 35. d' ! i < d ! i)"
proof -
  have sizes: "hs_n (slh_set_params demo_digests Sha2_128s) = 16" "ps_wots_sig_len (slh_set_params demo_digests Sha2_128s) = 35"
    by (simp_all add: slh_set_params_def suite_defs Let_def)
  have neq: "(replicate 16 0 :: bytes) \<noteq> replicate 16 255" by (simp add: replicate_eq_replicate)
  have len: "length (replicate 16 0 :: bytes) = hs_n (slh_set_params demo_digests Sha2_128s)"
    "length (replicate 16 255 :: bytes) = hs_n (slh_set_params demo_digests Sha2_128s)" by (simp_all add: sizes)
  show ?thesis using wots_checksum_incomparable [OF refl len neq] unfolding sizes by blast
qed

text \<open>
  A FORS signature opens one leaf in each of its trees, and the key recovered from it is the hash
  of the roots of all trees.  It does not depend on the digest that was signed, so the hypertree
  always signs the same key for one tree and leaf index.
\<close>

theorem fors_key_is_root_hash:
  assumes "P = slh_set_params H s" "length md = ps_md P"
  shows "\<exists>sig. fors_sign P md sk_seed pk_seed adrs = Ok sig
    \<and> fors_pk_from_sig P sig md pk_seed adrs = Ok (hs_t P pk_seed (ForsRoots (ft_fors_roots adrs))
        (map (\<lambda>i. fors_node P sk_seed i (ps_a P) pk_seed adrs) [0..<ps_k P]))"
  using slh_set.fors_sign_Ok [of md H s] assms by metis

theorem fors_key_is_root_hash_witness:
  "\<exists>sig. fors_sign (slh_set_params demo_digests Shake128f) (replicate 25 77) [1] [2] (fors_tree_new 3 5) = Ok sig
    \<and> is_ok (fors_pk_from_sig (slh_set_params demo_digests Shake128f) sig (replicate 25 77) [2] (fors_tree_new 3 5))"
proof -
  have len: "length (replicate 25 77 :: bytes) = ps_md (slh_set_params demo_digests Shake128f)"
    by (simp add: slh_set_params_def suite_defs)
  show ?thesis using fors_key_is_root_hash [OF refl len, of "[1]" "[2]" "fors_tree_new 3 5"] by auto
qed

end
