(* ===== verification/Light_Client.thy ===== *)
theory Light_Client
  imports State_Leaf Codec
begin

text \<open>
  The light-client protocol (\<open>pqc-light-client/src/lib.rs\<close>): compact headers and their preimages, the
  choice of the sync committee, and the attestation envelope.  Texts of decoding errors are the
  strings of the code.

  The reduction of a 256-bit number by a 128-bit modulus, done bit by bit in 128-bit arithmetic, is the
  mathematical remainder for every modulus.  The sampler draws distinct validators with positive
  stake, each with a share of the selectors that is exactly its stake, and never panics.
\<close>

unbundle bit_operations_syntax

definition SYNC_COMMITTEE_SIZE :: nat where
"SYNC_COMMITTEE_SIZE = 16"

definition SYNC_COMMITTEE_QUORUM :: nat where
"SYNC_COMMITTEE_QUORUM = 11"

definition COMPACT_HEADER_DOMAIN :: bytes where
"COMPACT_HEADER_DOMAIN = bstr ''VIPER-LIGHT-HEADER-V1''"

section \<open>Compact headers\<close>

record compact_header =
  cr_header_version :: nat
  cr_height :: nat
  cr_prev_hash :: hash32
  cr_state_root :: hash32
  cr_tx_root :: hash32
  cr_extension_root :: hash32
  cr_epoch :: nat

text \<open>Writing into memory cannot fail; an error of the writer would be a failed \<open>expect\<close>.\<close>

definition cbor_to_vec :: "env \<Rightarrow> cbor \<Rightarrow> (bytes, string) result" where
"cbor_to_vec E v = (case e_cbor_write E v of Ok b \<Rightarrow> Ok b | _ \<Rightarrow> Panic)"

definition compact_header_cbor :: "compact_header \<Rightarrow> cbor" where
"compact_header_cbor h = CMap
   [(cint 1, cint (cr_header_version h)),
    (cint 2, cint (cr_height h)),
    (cint 3, CBytes (cr_prev_hash h)),
    (cint 4, CBytes (cr_state_root h)),
    (cint 5, CBytes (cr_tx_root h)),
    (cint 6, CBytes (cr_extension_root h)),
    (cint 7, cint (cr_epoch h))]"

definition header_preimage :: "env \<Rightarrow> compact_header \<Rightarrow> bytes \<Rightarrow> (bytes, string) result" where
"header_preimage E h fork_digest =
   bind_r (cbor_to_vec E (compact_header_cbor h)) (\<lambda>body. Ok (COMPACT_HEADER_DOMAIN @ fork_digest @ body))"

definition header_root :: "env \<Rightarrow> compact_header \<Rightarrow> bytes \<Rightarrow> (hash32, string) result" where
"header_root E h fork_digest =
   bind_r (header_preimage E h fork_digest) (\<lambda>p. Ok (tagged_hash (e_xof E) (bstr ''VIPER-LIGHT-HEADER-ROOT-V1'') p))"

section \<open>A 256-bit number modulo a 128-bit one\<close>

definition byte_bits :: "byte \<Rightarrow> nat list" where
"byte_bits b = map (\<lambda>shift. drop_bit shift (unat b) AND 1) (rev [0..<8])"

text \<open>The addition in the carry branch is checked; every other operation wraps or reduces.\<close>

definition reduce_bit :: "nat \<Rightarrow> nat \<Rightarrow> nat \<Rightarrow> nat \<Rightarrow> (nat, string) result" where
"reduce_bit m pow128_mod_m acc b =
   (let high_carry = drop_bit 127 acc; shifted = acc * 2 mod 2 ^ 128 + b in
    if high_carry = 1
    then bind_r (or_panic (checked_add U128_MAX (shifted mod m) pow128_mod_m)) (\<lambda>s. Ok (s mod m))
    else Ok (shifted mod m))"

fun reduce_bits :: "nat \<Rightarrow> nat \<Rightarrow> nat \<Rightarrow> nat list \<Rightarrow> (nat, string) result" where
"reduce_bits m p acc [] = Ok acc" |
"reduce_bits m p acc (b # bs) = bind_r (reduce_bit m p acc b) (\<lambda>acc. reduce_bits m p acc bs)"

definition reduce_u256_be_mod_u128 :: "bytes \<Rightarrow> nat \<Rightarrow> (nat, string) result" where
"reduce_u256_be_mod_u128 chunk m =
   (if m = 0 then Panic
    else reduce_bits m ((U128_MAX mod m + 1) mod 2 ^ 128 mod m) 0 (concat (map byte_bits chunk)))"

section \<open>The sync committee\<close>

type_synonym weighted = "(address \<times> nat) list"

definition stake_of :: "weighted \<Rightarrow> nat \<Rightarrow> nat" where
"stake_of validators i = (if i < length validators then snd (validators ! i) else 0)"

fun checked_sum :: "nat list \<Rightarrow> nat \<Rightarrow> (nat, string) result" where
"checked_sum [] acc = Ok acc" |
"checked_sum (x # xs) acc = bind_r (or_panic (checked_add U128_MAX acc x)) (checked_sum xs)"

text \<open>The walk over the remaining validators; the last position is the default.\<close>

fun pick_from :: "(nat \<Rightarrow> nat) \<Rightarrow> nat \<Rightarrow> nat \<Rightarrow> nat \<Rightarrow> nat list \<Rightarrow> nat \<Rightarrow> nat" where
"pick_from stake selector j cumulative [] fallback = fallback" |
"pick_from stake selector j cumulative (i # rest) fallback =
   (let cumulative = saturating_add U128_MAX cumulative (stake i) in
    if cumulative > selector then j else pick_from stake selector (j + 1) cumulative rest fallback)"

definition weighted_pick :: "(nat \<Rightarrow> nat) \<Rightarrow> nat \<Rightarrow> nat list \<Rightarrow> nat" where
"weighted_pick stake selector remaining = pick_from stake selector 0 0 remaining (length remaining - 1)"

text \<open>The loop; \<open>n\<close> counts the iterations that are left and \<open>i\<close> the ones done.\<close>

fun sample_loop ::
    "xof \<Rightarrow> (nat \<Rightarrow> nat) \<Rightarrow> hash32 \<Rightarrow> nat \<Rightarrow> nat \<Rightarrow> nat \<Rightarrow> nat list \<Rightarrow> (nat list, string) result" where
"sample_loop X stake seed i 0 total_stake remaining = Ok []" |
"sample_loop X stake seed i (Suc n) total_stake remaining =
   (if remaining = [] \<or> total_stake = 0 then Ok []
    else bind_r (reduce_u256_be_mod_u128 (shake256_n X 32 [seed, be_bytes 8 i]) total_stake) (\<lambda>selector.
    let k = weighted_pick stake selector remaining; picked = remaining ! k in
    bind_r (sample_loop X stake seed (i + 1) n (saturating_sub total_stake (stake picked))
              (take k remaining @ drop (k + 1) remaining)) (\<lambda>rest.
    Ok (picked # rest))))"

definition select_committee :: "xof \<Rightarrow> hash32 \<Rightarrow> nat \<Rightarrow> weighted \<Rightarrow> (nat list, string) result" where
"select_committee X state_root epoch validators =
   (if validators = [] then Ok []
    else if length validators \<le> SYNC_COMMITTEE_SIZE
    then Ok (sort_key (\<lambda>i. (- int (snd (validators ! i)), fst (validators ! i))) [0..<length validators])
    else let seed = tagged_hash X (bstr ''VIPER-SYNC-COMMITTEE-V1'') (be_bytes 8 epoch @ state_root) in
      bind_r (checked_sum (map snd validators) 0) (\<lambda>total_stake.
      sample_loop X (stake_of validators) seed 0 SYNC_COMMITTEE_SIZE total_stake [0..<length validators]))"

section \<open>Attestations\<close>

record light_client_attestation =
  la_epoch :: nat
  la_header_root :: hash32
  la_sigs :: "(nat \<times> bytes) list"
  la_agg_proof :: "bytes option"

definition attestation_cbor :: "light_client_attestation \<Rightarrow> cbor" where
"attestation_cbor a = CMap
   [(cint 1, cint (la_epoch a)),
    (cint 2, CBytes (la_header_root a)),
    (cint 3, CArray (map (\<lambda>(idx, sig). CArray [cint idx, CBytes sig]) (la_sigs a))),
    (cint 4, (case la_agg_proof a of None \<Rightarrow> CNull | Some b \<Rightarrow> CBytes b))]"

definition attestation_encode :: "env \<Rightarrow> light_client_attestation \<Rightarrow> (bytes, string) result" where
"attestation_encode E a = cbor_to_vec E (attestation_cbor a)"

fun decode_committee_sig :: "cbor \<Rightarrow> (nat \<times> bytes, string) result" where
"decode_committee_sig (CArray [idx_val, sig_val]) =
   bind_r (case idx_val of CInt i \<Rightarrow> ok_or (try_from_int U64_MAX i) ''idx out of u64''
           | _ \<Rightarrow> Err ''committee_index is not uint'') (\<lambda>idx.
   if idx > U8_MAX then Err ''committee_index > 255''
   else if idx \<ge> SYNC_COMMITTEE_SIZE then Err ''committee_index out of [0, 16)''
   else case sig_val of
     CBytes b \<Rightarrow> if b = [] then Err ''signature is empty'' else Ok (idx, b)
   | _ \<Rightarrow> Err ''signature is not bstr'')" |
"decode_committee_sig _ = Err ''sig pair is not 2-array''"

fun decode_committee_sigs :: "cbor list \<Rightarrow> ((nat \<times> bytes) list, string) result" where
"decode_committee_sigs [] = Ok []" |
"decode_committee_sigs (v # vs) =
   bind_r (decode_committee_sig v) (\<lambda>s. bind_r (decode_committee_sigs vs) (\<lambda>ss. Ok (s # ss)))"

record attestation_fields =
  lf_epoch :: "nat option"
  lf_header_root :: "hash32 option"
  lf_sigs :: "(nat \<times> bytes) list option"
  lf_agg_proof :: "bytes option option"

fun decode_attestation_fields ::
    "(cbor \<times> cbor) list \<Rightarrow> attestation_fields \<Rightarrow> (attestation_fields, string) result" where
"decode_attestation_fields [] f = Ok f" |
"decode_attestation_fields ((k, v) # rest) f =
   bind_r (case k of CInt i \<Rightarrow> ok_or (try_from_int U64_MAX i) ''key out of range'' | _ \<Rightarrow> Err ''non-integer key'') (\<lambda>key.
   bind_r
     (if key = 1 then (case v of
         CInt i \<Rightarrow> bind_r (ok_or (try_from_int U64_MAX i) ''epoch out of u64 range'') (\<lambda>n. Ok (f\<lparr> lf_epoch := Some n \<rparr>))
       | _ \<Rightarrow> Err ''epoch is not uint'')
      else if key = 2 then (case v of
         CBytes b \<Rightarrow> if length b \<noteq> 32 then Err ''header_root is not 32 bytes'' else Ok (f\<lparr> lf_header_root := Some b \<rparr>)
       | _ \<Rightarrow> Err ''header_root is not bstr'')
      else if key = 3 then (case v of
         CArray a \<Rightarrow> bind_r (decode_committee_sigs a) (\<lambda>s. Ok (f\<lparr> lf_sigs := Some s \<rparr>))
       | _ \<Rightarrow> Err ''sigs is not array'')
      else if key = 4 then (case v of
         CNull \<Rightarrow> Ok (f\<lparr> lf_agg_proof := Some None \<rparr>)
       | CBytes b \<Rightarrow> Ok (f\<lparr> lf_agg_proof := Some (Some b) \<rparr>)
       | _ \<Rightarrow> Err ''agg_proof is not null or bstr'')
      else Err ''unknown key'')
   (decode_attestation_fields rest))"

definition attestation_decode :: "env \<Rightarrow> bytes \<Rightarrow> (light_client_attestation, string) result" where
"attestation_decode E bs =
   bind_r (map_err (\<lambda>_. ''cbor decode failed'') (e_cbor_read E bs)) (\<lambda>value.
   case value of
     CMap m \<Rightarrow>
       bind_r (decode_attestation_fields m \<lparr> lf_epoch = None, lf_header_root = None, lf_sigs = None, lf_agg_proof = None \<rparr>) (\<lambda>f.
       bind_r (ok_or (lf_epoch f) ''missing key 1 (epoch)'') (\<lambda>epoch.
       bind_r (ok_or (lf_header_root f) ''missing key 2 (header_root)'') (\<lambda>root.
       bind_r (ok_or (lf_sigs f) ''missing key 3 (sigs)'') (\<lambda>sigs.
       bind_r (ok_or (lf_agg_proof f) ''missing key 4 (agg_proof)'') (\<lambda>agg.
       Ok \<lparr> la_epoch = epoch, la_header_root = root, la_sigs = sigs, la_agg_proof = agg \<rparr>)))))
   | _ \<Rightarrow> Err ''envelope must be a CBOR map'')"

section \<open>The reduction is the remainder\<close>

lemma U128_Suc: "Suc U128_MAX = 2 ^ 128"
  by (simp add: U128_MAX_def)

lemma pow128_mod:
  assumes "0 < m" "m \<le> U128_MAX"
  shows "(U128_MAX mod m + 1) mod 2 ^ 128 mod m = 2 ^ 128 mod m"
proof -
  have "U128_MAX mod m < m" using assms(1) by simp
  then have "U128_MAX mod m + 1 < 2 ^ 128" using assms(2) U128_Suc by linarith
  moreover have "(U128_MAX mod m + 1) mod m = 2 ^ 128 mod m" using mod_Suc_eq [of U128_MAX m] U128_Suc by simp
  ultimately show ?thesis by (metis mod_less)
qed

lemma reduce_bit_Ok:
  assumes m: "0 < m" "m \<le> U128_MAX" and acc: "acc < m" and b: "b \<le> 1"
  shows "reduce_bit m (2 ^ 128 mod m) acc b = Ok ((2 * acc + b) mod m)"
proof (cases "acc < 2 ^ 127")
  case True
  then have "drop_bit 127 acc = 0" "acc * 2 mod 2 ^ 128 = 2 * acc" by (simp_all add: drop_bit_eq_div)
  then show ?thesis unfolding reduce_bit_def Let_def by simp
next
  case False
  define M :: nat where "M = 2 ^ 127"
  have M: "(2 :: nat) ^ 128 = 2 * M" "Suc U128_MAX = 2 * M" "M \<le> acc" "0 < M"
    using False by (simp_all add: M_def U128_MAX_def)
  have pow: "2 * M mod m = 2 * M - m"
    using M m acc by (simp add: le_mod_geq)
  have carry: "drop_bit 127 acc = 1"
  proof -
    have "acc div M = 1" using M m acc by (intro div_nat_eqI) simp_all
    then show ?thesis by (simp add: drop_bit_eq_div M_def)
  qed
  have low: "acc * 2 mod (2 * M) = 2 * acc - 2 * M"
    using M m acc by (simp add: le_mod_geq)
  have shifted: "(2 * acc - 2 * M + b) mod m = 2 * acc - 2 * M + b" using M m acc b by simp
  have sum: "2 * acc - 2 * M + b + (2 * M - m) = 2 * acc + b - m" "2 * acc + b - m \<le> U128_MAX" "m \<le> 2 * acc + b"
    using M m acc b by linarith+
  have "(2 * acc + b - m) mod m = (2 * acc + b) mod m" using sum(3) by (simp add: le_mod_geq)
  then show ?thesis
    unfolding reduce_bit_def Let_def M(1) carry low shifted pow
    using sum by (simp add: checked_add_def)
qed

definition bits_value :: "nat \<Rightarrow> nat list \<Rightarrow> nat" where
"bits_value a bs = foldl (\<lambda>x b. 2 * x + b) a bs"

lemma bits_value_mod: "bits_value (a mod m) bs mod m = bits_value a bs mod m"
proof (induction bs arbitrary: a)
  case (Cons b bs)
  have "bits_value (2 * (a mod m) + b) bs mod m = bits_value ((2 * (a mod m) + b) mod m) bs mod m"
    by (rule Cons [symmetric])
  also have "(2 * (a mod m) + b) mod m = (2 * a + b) mod m" by (metis mod_add_left_eq mod_mult_right_eq)
  also have "bits_value ((2 * a + b) mod m) bs mod m = bits_value (2 * a + b) bs mod m" by (rule Cons)
  finally show ?case by (simp add: bits_value_def)
qed (simp add: bits_value_def)

lemma reduce_bits_Ok:
  assumes "0 < m" "m \<le> U128_MAX" "acc < m" "\<forall>b \<in> set bs. b \<le> 1"
  shows "reduce_bits m (2 ^ 128 mod m) acc bs = Ok (bits_value acc bs mod m)"
  using assms(3,4)
proof (induction bs arbitrary: acc)
  case (Cons b bs)
  have "reduce_bits m (2 ^ 128 mod m) ((2 * acc + b) mod m) bs = Ok (bits_value ((2 * acc + b) mod m) bs mod m)"
    using Cons assms(1) by simp
  then show ?case
    using reduce_bit_Ok [OF assms(1,2) Cons.prems(1), of b] Cons.prems(2)
    by (simp add: bits_value_mod) (simp add: bits_value_def)
qed (simp add: bits_value_def)

lemma bits_value_digits:
  "bits_value a (map (\<lambda>k. drop_bit k x AND 1) (rev [0..<n])) = a * 2 ^ n + x mod 2 ^ n"
proof (induction n arbitrary: a)
  case (Suc n)
  have "rev [0..<Suc n] = n # rev [0..<n]" by simp
  moreover have "x mod 2 ^ Suc n = 2 ^ n * (x div 2 ^ n mod 2) + x mod 2 ^ n"
    using mod_mult2_eq [of x "2 ^ n" 2] by (simp add: mult.commute)
  ultimately show ?case
    using Suc [of "2 * a + x div 2 ^ n mod 2"]
    by (simp add: bits_value_def drop_bit_eq_div and_one_eq algebra_simps)
qed (simp add: bits_value_def)

lemma bits_value_bytes: "bits_value a (concat (map byte_bits bs)) = foldl (\<lambda>a b. a * 256 + unat b) a bs"
proof (induction bs arbitrary: a)
  case (Cons b bs)
  have "unat b mod 2 ^ 8 = unat b" using unsigned_less [of b, where ?'a = nat] by simp
  then have "bits_value a (byte_bits b) = a * 256 + unat b"
    using bits_value_digits [of a "unat b" 8] by (simp add: byte_bits_def)
  then show ?case using Cons [of "a * 256 + unat b"] by (simp add: bits_value_def)
qed (simp add: bits_value_def)

lemma reduce_remainder:
  assumes "0 < m" "m \<le> U128_MAX"
  shows "reduce_u256_be_mod_u128 chunk m = Ok (from_be_bytes chunk mod m)"
proof -
  have "\<forall>b \<in> set (concat (map byte_bits chunk)). b \<le> 1" by (auto simp: byte_bits_def and_one_eq)
  then have "reduce_bits m (2 ^ 128 mod m) 0 (concat (map byte_bits chunk)) = Ok (bits_value 0 (concat (map byte_bits chunk)) mod m)"
    using assms by (intro reduce_bits_Ok) auto
  then show ?thesis
    using assms(1) unfolding reduce_u256_be_mod_u128_def pow128_mod [OF assms] by (simp add: bits_value_bytes)
qed

section \<open>The sampler\<close>

abbreviation weight :: "(nat \<Rightarrow> nat) \<Rightarrow> nat list \<Rightarrow> nat" where
"weight stake xs \<equiv> sum_list (map stake xs)"

lemma pick_from_spec:
  assumes "c \<le> sel" "sel < c + weight stake xs" "c + weight stake xs \<le> U128_MAX"
  shows "\<exists>k < length xs. pick_from stake sel j c xs f = j + k
    \<and> c + weight stake (take k xs) \<le> sel \<and> sel < c + weight stake (take (Suc k) xs)"
  using assms
proof (induction xs arbitrary: j c)
  case (Cons x xs)
  have sat: "saturating_add U128_MAX c (stake x) = c + stake x"
    using Cons.prems(3) by (intro saturating_add_exact) simp
  show ?case
  proof (cases "c + stake x > sel")
    case True
    then show ?thesis using Cons.prems(1) sat by (intro exI [of _ 0]) simp
  next
    case False
    then obtain k where "k < length xs" "pick_from stake sel (j + 1) (c + stake x) xs f = j + 1 + k"
      "c + stake x + weight stake (take k xs) \<le> sel" "sel < c + stake x + weight stake (take (Suc k) xs)"
      using Cons.IH [of "c + stake x" "j + 1"] Cons.prems by (auto simp: add.assoc)
    then show ?thesis using False sat by (intro exI [of _ "Suc k"]) (simp add: add.assoc)
  qed
qed simp

lemma weighted_pick_spec:
  assumes "sel < weight stake xs" "weight stake xs \<le> U128_MAX" "weighted_pick stake sel xs = k"
  shows "k < length xs" "weight stake (take k xs) \<le> sel" "sel < weight stake (take (Suc k) xs)"
  using pick_from_spec [of 0 sel stake xs 0 "length xs - 1"] assms by (auto simp: weighted_pick_def)

lemma weight_take_mono: "i \<le> j \<Longrightarrow> weight stake (take i xs) \<le> weight stake (take j xs)"
proof -
  assume "i \<le> j"
  then have "take j xs = take i xs @ take (j - i) (drop i xs)" using take_add [of i "j - i" xs] by simp
  then show ?thesis by simp
qed

lemma weight_take_Suc: "k < length xs \<Longrightarrow> weight stake (take (Suc k) xs) = weight stake (take k xs) + stake (xs ! k)"
  by (simp add: take_Suc_conv_app_nth)

text \<open>The selectors that lead to one position form an interval as long as its stake.\<close>

lemma weighted_pick_interval:
  assumes "k < length xs" "weight stake xs \<le> U128_MAX"
  shows "{sel. sel < weight stake xs \<and> weighted_pick stake sel xs = k}
    = {weight stake (take k xs) ..< weight stake (take (Suc k) xs)}"
proof (intro equalityI subsetI)
  fix sel assume "sel \<in> {weight stake (take k xs) ..< weight stake (take (Suc k) xs)}"
  then have sel: "weight stake (take k xs) \<le> sel" "sel < weight stake (take (Suc k) xs)" by auto
  have lt: "sel < weight stake xs" using sel(2) weight_take_mono [of "Suc k" "length xs" stake xs] assms(1) by simp
  let ?i = "weighted_pick stake sel xs"
  note i = weighted_pick_spec [OF lt assms(2) refl]
  have "\<not> ?i < k" using i(3) sel(1) weight_take_mono [of "Suc ?i" k stake xs] by linarith
  moreover have "\<not> k < ?i" using i(2) sel(2) weight_take_mono [of "Suc k" ?i stake xs] by linarith
  ultimately show "sel \<in> {sel. sel < weight stake xs \<and> weighted_pick stake sel xs = k}" using lt by simp
qed (use weighted_pick_spec [OF _ assms(2)] in auto)

lemma sample_loop_Ok:
  assumes "distinct xs" "weight stake xs \<le> U128_MAX"
  shows "\<exists>cs. sample_loop X stake seed i n (weight stake xs) xs = Ok cs \<and> distinct cs
    \<and> set cs \<subseteq> {x \<in> set xs. 0 < stake x} \<and> length cs = min n (card {x \<in> set xs. 0 < stake x})"
  using assms
proof (induction n arbitrary: i xs)
  case (Suc n)
  show ?case
  proof (cases "xs = [] \<or> weight stake xs = 0")
    case True
    then have none: "{x \<in> set xs. 0 < stake x} = {}" by auto
    show ?thesis unfolding none using True by simp
  next
    case False
    then have pos: "0 < weight stake xs" by (metis gr0I)
    let ?chunk = "shake256_n X 32 [seed, be_bytes 8 i]"
    define sel where "sel = from_be_bytes ?chunk mod weight stake xs"
    have red: "reduce_u256_be_mod_u128 ?chunk (weight stake xs) = Ok sel"
      using reduce_remainder [OF pos Suc.prems(2)] by (simp add: sel_def)
    have lt: "sel < weight stake xs" using pos by (simp add: sel_def)
    define k where "k = weighted_pick stake sel xs"
    define x where "x = xs ! k"
    define ys where "ys = take k xs @ drop (Suc k) xs"
    note k = weighted_pick_spec [OF lt Suc.prems(2) k_def [symmetric]]
    have xs: "xs = take k xs @ x # drop (Suc k) xs" using k(1) by (simp add: x_def id_take_nth_drop [symmetric])
    have x: "0 < stake x" using k weight_take_Suc [OF k(1), of stake] by (simp add: x_def)
    have w: "weight stake xs = weight stake ys + stake x"
      using arg_cong [OF xs, of "weight stake"] by (simp add: ys_def)
    have "distinct (take k xs @ x # drop (Suc k) xs)" unfolding xs [symmetric] by (rule Suc.prems(1))
    then have parts: "x \<notin> set ys" "distinct ys" by (auto simp: ys_def)
    have set: "set xs = insert x (set ys)" using arg_cong [OF xs, of set] by (auto simp: ys_def)
    obtain cs where cs: "sample_loop X stake seed (i + 1) n (weight stake ys) ys = Ok cs" "distinct cs"
      "set cs \<subseteq> {x \<in> set ys. 0 < stake x}" "length cs = min n (card {x \<in> set ys. 0 < stake x})"
      using Suc.IH [OF parts(2), of "i + 1"] Suc.prems(2) w by auto
    have "{z \<in> set xs. 0 < stake z} = insert x {z \<in> set ys. 0 < stake z}" using set x by auto
    then have card: "card {z \<in> set xs. 0 < stake z} = Suc (card {z \<in> set ys. 0 < stake z})" using parts(1) by simp
    have loop: "sample_loop X stake seed i (Suc n) (weight stake xs) xs = Ok (x # cs)"
      using False red cs(1) w
      by (simp add: Let_def k_def [symmetric] x_def [symmetric] ys_def [symmetric] saturating_sub_def)
    have "distinct (x # cs)" "set (x # cs) \<subseteq> {z \<in> set xs. 0 < stake z}" using cs(2,3) parts(1) set x by auto
    then show ?thesis using loop cs(4) card by (intro exI [of _ "x # cs"]) (simp only: length_Cons min_Suc_Suc)
  qed
qed simp

lemma checked_sum_eq:
  "acc \<le> U128_MAX \<Longrightarrow> checked_sum xs acc = (if acc + sum_list xs \<le> U128_MAX then Ok (acc + sum_list xs) else Panic)"
proof (induction xs arbitrary: acc)
  case (Cons x xs)
  show ?case
  proof (cases "acc + x \<le> U128_MAX")
    case True
    then show ?thesis using Cons.IH [OF True] by (simp add: checked_add_def add.assoc)
  next
    case False
    then show ?thesis by (simp add: checked_add_def)
  qed
qed simp

section \<open>Attestation envelopes\<close>

definition committee_sig_ok :: "nat \<times> bytes \<Rightarrow> bool" where
"committee_sig_ok s = (fst s < SYNC_COMMITTEE_SIZE \<and> snd s \<noteq> [])"

definition attestation_ok :: "light_client_attestation \<Rightarrow> bool" where
"attestation_ok a = (la_epoch a \<le> U64_MAX \<and> length (la_header_root a) = 32 \<and> list_all committee_sig_ok (la_sigs a))"

lemma decode_committee_sig_Ok:
  "decode_committee_sig v = Ok s \<longleftrightarrow> v = CArray [cint (fst s), CBytes (snd s)] \<and> committee_sig_ok s"
proof
  assume d: "decode_committee_sig v = Ok s"
  then obtain x y where v: "v = CArray [x, y]" by (cases v rule: decode_committee_sig.cases) auto
  obtain k where k: "x = CInt k" using d v by (cases x) auto
  obtain i where i: "try_from_int U64_MAX k = Some i" using d v k by (auto simp: result_simps)
  have range: "\<not> i > U8_MAX" "\<not> i \<ge> SYNC_COMMITTEE_SIZE" using d v k i by (auto split: if_splits)
  obtain c where c: "y = CBytes c" using d v k i range by (cases y) auto
  show "v = CArray [cint (fst s), CBytes (snd s)] \<and> committee_sig_ok s"
    using d v k c i range by (auto simp: try_from_int_def committee_sig_ok_def split: if_splits)
next
  assume "v = CArray [cint (fst s), CBytes (snd s)] \<and> committee_sig_ok s"
  then show "decode_committee_sig v = Ok s"
    by (auto simp: try_from_int_def committee_sig_ok_def SYNC_COMMITTEE_SIZE_def width_simps)
qed

lemma decode_committee_sigs_Ok:
  "decode_committee_sigs vs = Ok ss
   \<longleftrightarrow> vs = map (\<lambda>s. CArray [cint (fst s), CBytes (snd s)]) ss \<and> list_all committee_sig_ok ss"
proof (induction vs arbitrary: ss)
  case (Cons v vs)
  show ?case by (cases ss) (auto simp: result_simps decode_committee_sig_Ok Cons.IH)
qed auto

lemma attestation_decode_Ok:
  assumes "attestation_ok a" "e_cbor_read E bs = Ok (attestation_cbor a)"
  shows "attestation_decode E bs = Ok a"
proof -
  have sigs: "decode_committee_sigs (map (\<lambda>(idx, sig). CArray [cint idx, CBytes sig]) (la_sigs a)) = Ok (la_sigs a)"
    using assms(1) by (simp add: decode_committee_sigs_Ok attestation_ok_def case_prod_beta)
  show ?thesis
    using assms sigs
    by (simp add: attestation_decode_def attestation_cbor_def attestation_ok_def try_from_int_def width_simps split: option.splits)
qed

lemma decode_attestation_fields_inv:
  assumes "decode_attestation_fields m f = Ok g"
    and "\<forall>n. lf_epoch f = Some n \<longrightarrow> n \<le> U64_MAX" "\<forall>r. lf_header_root f = Some r \<longrightarrow> length r = 32"
    and "\<forall>ss. lf_sigs f = Some ss \<longrightarrow> list_all committee_sig_ok ss"
  shows "(\<forall>n. lf_epoch g = Some n \<longrightarrow> n \<le> U64_MAX) \<and> (\<forall>r. lf_header_root g = Some r \<longrightarrow> length r = 32)
    \<and> (\<forall>ss. lf_sigs g = Some ss \<longrightarrow> list_all committee_sig_ok ss)"
  using assms
proof (induction m arbitrary: f)
  case (Cons p m)
  obtain k v where p: "p = (k, v)" by fastforce
  obtain f' where f': "decode_attestation_fields m f' = Ok g"
    and step: "\<forall>n. lf_epoch f' = Some n \<longrightarrow> n \<le> U64_MAX" "\<forall>r. lf_header_root f' = Some r \<longrightarrow> length r = 32"
      "\<forall>ss. lf_sigs f' = Some ss \<longrightarrow> list_all committee_sig_ok ss"
    using Cons.prems unfolding p
    by (auto simp: result_simps try_from_int_def decode_committee_sigs_Ok split: cbor.splits if_splits)
  show ?case using Cons.IH [OF f' step] .
qed auto

lemma attestation_decode_valid:
  assumes "attestation_decode E bs = Ok a"
  shows "attestation_ok a"
proof -
  obtain v where v: "e_cbor_read E bs = Ok v" using assms by (auto simp: attestation_decode_def result_simps)
  then obtain m where m: "v = CMap m" using assms by (cases v) (auto simp: attestation_decode_def result_simps)
  obtain f where f: "decode_attestation_fields m \<lparr> lf_epoch = None, lf_header_root = None, lf_sigs = None, lf_agg_proof = None \<rparr> = Ok f"
    using assms v m by (auto simp: attestation_decode_def result_simps)
  then have a: "lf_epoch f = Some (la_epoch a)" "lf_header_root f = Some (la_header_root a)" "lf_sigs f = Some (la_sigs a)"
    using assms v m by (auto simp: attestation_decode_def result_simps ok_or_def split: option.splits if_splits)
  show ?thesis
    using decode_attestation_fields_inv [OF f] a by (auto simp: attestation_ok_def)
qed

section \<open>Properties\<close>

text \<open>By descending stake; equal stakes by ascending address.\<close>

definition stake_sorted :: "weighted \<Rightarrow> nat list \<Rightarrow> bool" where
"stake_sorted vs =
   sorted_wrt (\<lambda>i j. snd (vs ! i) > snd (vs ! j) \<or> snd (vs ! i) = snd (vs ! j) \<and> fst (vs ! i) \<le> fst (vs ! j))"

lemma select_small:
  assumes "length vs \<le> SYNC_COMMITTEE_SIZE"
  shows "\<exists>cs. select_committee X root epoch vs = Ok cs \<and> distinct cs \<and> set cs = {..<length vs}
    \<and> stake_sorted vs cs"
proof -
  let ?key = "\<lambda>i. (- int (snd (vs ! i)), fst (vs ! i))"
  let ?cs = "sort_key ?key [0..<length vs]"
  have "sorted_wrt (\<lambda>i j. ?key i \<le> ?key j) ?cs" using sorted_sort_key [of ?key "[0..<length vs]"] by (simp add: sorted_map)
  then have "stake_sorted vs ?cs"
    unfolding stake_sorted_def by (rule sorted_wrt_mono_rel [rotated]) (auto simp: less_eq_prod_def less_prod_def)
  then show ?thesis using assms by (auto simp: select_committee_def atLeast0LessThan)
qed

text \<open>
  C31: A draw of the sampler is proportional to stake.  The bit-by-bit reduction of a big-endian
  number by a total stake below \<open>2 ^ 128\<close> returns the mathematical remainder; no addition of it
  overflows, although the accumulator loses its top bit at each doubling above \<open>2 ^ 127\<close>.  Of the
  remainders below the total stake, exactly as many lead to a validator as it has stake.
\<close>

theorem stake_proportional_draw:
  assumes "0 < weight stake xs" "weight stake xs \<le> U128_MAX"
  shows "reduce_u256_be_mod_u128 chunk (weight stake xs) = Ok (from_be_bytes chunk mod weight stake xs)
    \<and> (\<forall>k < length xs. card {sel. sel < weight stake xs \<and> weighted_pick stake sel xs = k} = stake (xs ! k))"
  using assms reduce_remainder weighted_pick_interval [OF _ assms(2)] weight_take_Suc by simp

theorem stake_proportional_draw_witness:
  "reduce_u256_be_mod_u128 (replicate 32 255) (2 ^ 128 - 159) = Ok (from_be_bytes (replicate 32 255) mod (2 ^ 128 - 159))
   \<and> card {sel. sel < 2 ^ 128 - 159 \<and> weighted_pick ((!) [3, 0, 2 ^ 128 - 162]) sel [0, 1, 2] = 0} = 3"
  using stake_proportional_draw [of "(!) [3, 0, 2 ^ 128 - 162]" "[0, 1, 2]" "replicate 32 255"]
  by (simp add: U128_MAX_def del: replicate.simps)

lemma select_large:
  assumes "SYNC_COMMITTEE_SIZE < length vs" "sum_list (map snd vs) \<le> U128_MAX"
  shows "\<exists>cs. select_committee X root epoch vs = Ok cs \<and> distinct cs
    \<and> set cs \<subseteq> {i. i < length vs \<and> 0 < snd (vs ! i)}
    \<and> length cs = min SYNC_COMMITTEE_SIZE (card {i. i < length vs \<and> 0 < snd (vs ! i)})"
proof -
  have stakes: "map (stake_of vs) [0..<length vs] = map snd vs"
    by (rule nth_equalityI) (simp_all add: stake_of_def)
  have pos: "{x \<in> set [0..<length vs]. 0 < stake_of vs x} = {i. i < length vs \<and> 0 < snd (vs ! i)}"
    by (auto simp: stake_of_def)
  let ?seed = "tagged_hash X (bstr ''VIPER-SYNC-COMMITTEE-V1'') (be_bytes 8 epoch @ root)"
  obtain cs where cs: "sample_loop X (stake_of vs) ?seed 0 SYNC_COMMITTEE_SIZE (sum_list (map snd vs)) [0..<length vs] = Ok cs"
      "distinct cs" "set cs \<subseteq> {i. i < length vs \<and> 0 < snd (vs ! i)}"
      "length cs = min SYNC_COMMITTEE_SIZE (card {i. i < length vs \<and> 0 < snd (vs ! i)})"
    using sample_loop_Ok [of "[0..<length vs]" "stake_of vs" X ?seed 0 SYNC_COMMITTEE_SIZE] assms(2)
    unfolding stakes pos by auto
  have "vs \<noteq> []" using assms(1) by auto
  then have "select_committee X root epoch vs = Ok cs"
    using assms cs(1) checked_sum_eq [of 0 "map snd vs"] by (simp add: select_committee_def Let_def)
  then show ?thesis using cs by auto
qed


definition demo_validators :: weighted where
"demo_validators = map (\<lambda>i. ([i], if i = 0 then 0 else 5)) [0, 1, 2, 3, 4, 5, 6, 7, 8, 9, 10, 11, 12, 13, 14, 15, 16]"


text \<open>
  The attestation envelope.  Under the law of the CBOR library that reading gives back the value
  that was written, decoding an encoded attestation returns it, for every attestation whose fields
  are in range; and whatever the decoder accepts has its fields in range: a 64-bit epoch, a 32-byte
  root, committee indices below sixteen and no empty signature.
\<close>

theorem attestation_round_trip:
  assumes "\<And>v b. e_cbor_write E v = Ok b \<Longrightarrow> e_cbor_read E b = Ok v"
  shows "(attestation_ok a \<and> attestation_encode E a = Ok b \<longrightarrow> attestation_decode E b = Ok a)
    \<and> (attestation_decode E b = Ok a' \<longrightarrow> attestation_ok a')"
proof (intro conjI impI)
  assume a: "attestation_ok a \<and> attestation_encode E a = Ok b"
  then have "e_cbor_write E (attestation_cbor a) = Ok b"
    by (auto simp: attestation_encode_def cbor_to_vec_def split: result.splits)
  then show "attestation_decode E b = Ok a" using attestation_decode_Ok assms a by blast
qed (rule attestation_decode_valid)

definition demo_attestation :: light_client_attestation where
"demo_attestation = \<lparr> la_epoch = 3, la_header_root = replicate 32 9, la_sigs = [(15, [7, 8])], la_agg_proof = None \<rparr>"

theorem attestation_round_trip_witness:
  "\<exists>E b. attestation_encode E demo_attestation = Ok b \<and> attestation_decode E b = Ok demo_attestation"
proof -
  define E :: env where "E = \<lparr> e_xof = \<lambda>d n. take n d, e_cbor_read = \<lambda>b. Ok (attestation_cbor demo_attestation),
    e_cbor_write = \<lambda>v. if v = attestation_cbor demo_attestation then Ok [1] else Err ''io'', e_verify = \<lambda>pk m sg. True \<rparr>"
  have enc: "attestation_encode E demo_attestation = Ok [1]"
    by (simp add: attestation_encode_def cbor_to_vec_def E_def)
  have "attestation_ok demo_attestation"
    by (simp add: attestation_ok_def demo_attestation_def committee_sig_ok_def SYNC_COMMITTEE_SIZE_def U64_MAX_def)
  moreover have law: "\<And>v b. e_cbor_write E v = Ok b \<Longrightarrow> e_cbor_read E b = Ok v"
    by (simp add: E_def split: if_splits)
  ultimately have "attestation_decode E [1] = Ok demo_attestation"
    using attestation_round_trip [OF law, of demo_attestation "[1]"] enc by blast
  then show ?thesis using enc by blast
qed

end
