(* ===== verification/Chain.thy ===== *)
theory Chain
  imports Engine
begin

text \<open>
  The chain store (\<open>pqc-consensus/src/chain.rs\<close>), the structural check of stored blocks
  (\<open>recovery.rs\<close>) and the classifier of received blocks (\<open>reception.rs\<close>).

  The store has two maps, a tip and an anchor.  It is shown to refine a list of hash-linked
  blocks: appending, replacing the tip and compacting to a checkpoint are the obvious operations on
  that list, and the list always passes the structural check that recovery runs.
\<close>

section \<open>Stored blocks\<close>

record block_metadata =
  bm_block_hash :: hash32
  bm_height :: nat
  bm_prev_hash :: hash32
  bm_state_root :: hash32
  bm_tx_root :: hash32
  bm_timestamp :: nat
  bm_bytes_used :: nat
  bm_included_count :: nat
  bm_deferred_count :: nat
  bm_skipped_count :: nat
  bm_vc_budget_consumed :: nat

record stored_block =
  sb_block :: block
  sb_metadata :: block_metadata
  sb_included_transactions :: "transaction list"

datatype chain_error =
    DuplicateBlockHash
  | DuplicateBlockHeight nat
  | InvalidBlockHeight nat nat
  | ParentHashMismatch hash32 hash32
  | ExecutionHeightMismatch nat nat
  | ExecutionRootMismatch
  | StoredBlockHashMismatch
  | StoredBlockMetadataMismatch string
  | StoredBlockBodyCountMismatch
  | ReplaceNotAtTip nat nat
  | ReplaceEmptyChain
  | SiblingStateDivergence nat string
  | SiblingHashCollision

section \<open>The chain store\<close>

record chain_store =
  ch_anchor_prev_hash :: hash32
  ch_by_hash :: "(hash32, stored_block) hmap"
  ch_by_height :: "(nat, hash32) hmap"
  ch_tip_hash :: "hash32 option"
  ch_base_height :: nat

definition chain_new :: "hash32 \<Rightarrow> chain_store" where
"chain_new anchor = \<lparr> ch_anchor_prev_hash = anchor, ch_by_hash = [], ch_by_height = [], ch_tip_hash = None,
   ch_base_height = 0 \<rparr>"

definition chain_new_with_base :: "hash32 \<Rightarrow> nat \<Rightarrow> chain_store" where
"chain_new_with_base anchor base = \<lparr> ch_anchor_prev_hash = anchor, ch_by_hash = [], ch_by_height = [],
   ch_tip_hash = None, ch_base_height = base \<rparr>"

definition chain_tip :: "chain_store \<Rightarrow> stored_block option" where
"chain_tip c = Option.bind (ch_tip_hash c) (hget (ch_by_hash c))"

definition chain_height :: "chain_store \<Rightarrow> nat" where
"chain_height c = (case chain_tip c of Some stored \<Rightarrow> bm_height (sb_metadata stored) | None \<Rightarrow> ch_base_height c)"

definition get_stored_block_by_height :: "chain_store \<Rightarrow> nat \<Rightarrow> stored_block option" where
"get_stored_block_by_height c h = Option.bind (hget (ch_by_height c) h) (hget (ch_by_hash c))"

definition get_block_by_height :: "chain_store \<Rightarrow> nat \<Rightarrow> block option" where
"get_block_by_height c h = map_option sb_block (Option.bind (hget (ch_by_height c) h) (hget (ch_by_hash c)))"

definition get_block_by_hash :: "chain_store \<Rightarrow> hash32 \<Rightarrow> block option" where
"get_block_by_hash c bh = map_option sb_block (hget (ch_by_hash c) bh)"

definition get_metadata_by_height :: "chain_store \<Rightarrow> nat \<Rightarrow> block_metadata option" where
"get_metadata_by_height c h = map_option sb_metadata (Option.bind (hget (ch_by_height c) h) (hget (ch_by_hash c)))"

definition get_metadata_by_hash :: "chain_store \<Rightarrow> hash32 \<Rightarrow> block_metadata option" where
"get_metadata_by_hash c bh = map_option sb_metadata (hget (ch_by_hash c) bh)"

text \<open>The values of a \<open>BTreeMap\<close> come in the order of its keys.\<close>

definition blocks_in_order :: "chain_store \<Rightarrow> stored_block list" where
"blocks_in_order c = List.map_filter (\<lambda>(h, bh). hget (ch_by_hash c) bh) (sort_key fst (ch_by_height c))"

definition metadata_in_order :: "chain_store \<Rightarrow> block_metadata list" where
"metadata_in_order c = map sb_metadata (blocks_in_order c)"

definition or_anchor :: "chain_store \<Rightarrow> hash32" where
"or_anchor c = (case ch_tip_hash c of Some h \<Rightarrow> h | None \<Rightarrow> ch_anchor_prev_hash c)"

section \<open>Appending\<close>

definition validate_execution :: "xof \<Rightarrow> chain_store \<Rightarrow> block_execution_result \<Rightarrow> (unit, chain_error) result" where
"validate_execution X c execution =
   (let h = bl_header (br_block execution);
        block_hash = compute_block_hash X (br_block execution);
        height = bh_height h;
        expected_height = saturating_add U64_MAX (chain_height c) 1;
        expected_prev_hash = or_anchor c
    in if height \<noteq> br_new_height execution then Err (ExecutionHeightMismatch height (br_new_height execution))
       else if bh_state_root h \<noteq> br_state_root execution \<or> bh_tx_root h \<noteq> br_tx_root execution
       then Err ExecutionRootMismatch
       else if hhas (ch_by_hash c) block_hash then Err DuplicateBlockHash
       else if hhas (ch_by_height c) height then Err (DuplicateBlockHeight height)
       else if height \<noteq> expected_height then Err (InvalidBlockHeight expected_height height)
       else if bh_prev_hash h \<noteq> expected_prev_hash then Err (ParentHashMismatch expected_prev_hash (bh_prev_hash h))
       else Ok ())"

definition validate_stored_block :: "xof \<Rightarrow> chain_store \<Rightarrow> stored_block \<Rightarrow> (unit, chain_error) result" where
"validate_stored_block X c stored =
   (let m = sb_metadata stored;
        b = sb_block stored;
        h = bl_header b;
        block_hash = compute_block_hash X b;
        height = bh_height h;
        expected_height = saturating_add U64_MAX (chain_height c) 1;
        expected_prev_hash = or_anchor c
    in if bm_height m \<noteq> bh_height h
       then Err (StoredBlockMetadataMismatch ''metadata height does not match block header'')
       else if bm_prev_hash m \<noteq> bh_prev_hash h
       then Err (StoredBlockMetadataMismatch ''metadata prev_hash does not match block header'')
       else if bm_state_root m \<noteq> bh_state_root h
       then Err (StoredBlockMetadataMismatch ''metadata state_root does not match block header'')
       else if bm_tx_root m \<noteq> bh_tx_root h
       then Err (StoredBlockMetadataMismatch ''metadata tx_root does not match block header'')
       else if bm_included_count m \<noteq> length (bl_tx_hashes b)
       then Err (StoredBlockMetadataMismatch ''metadata included_count does not match tx_hash count'')
       else if length (bl_tx_hashes b) \<noteq> length (sb_included_transactions stored) then Err StoredBlockBodyCountMismatch
       else if bm_block_hash m \<noteq> block_hash then Err StoredBlockHashMismatch
       else if hhas (ch_by_hash c) block_hash then Err DuplicateBlockHash
       else if hhas (ch_by_height c) height then Err (DuplicateBlockHeight height)
       else if height \<noteq> expected_height then Err (InvalidBlockHeight expected_height height)
       else if bh_prev_hash h \<noteq> expected_prev_hash then Err (ParentHashMismatch expected_prev_hash (bh_prev_hash h))
       else Ok ())"

definition append_stored_block ::
    "xof \<Rightarrow> stored_block \<Rightarrow> chain_store \<Rightarrow> (chain_store \<times> block_metadata, chain_error) result" where
"append_stored_block X stored c =
   bind_r (validate_stored_block X c stored) (\<lambda>_.
   let metadata = sb_metadata stored;
       block_hash = bm_block_hash metadata
   in Ok (c\<lparr> ch_by_height := hput (bm_height metadata) block_hash (ch_by_height c),
             ch_by_hash := hput block_hash stored (ch_by_hash c),
             ch_tip_hash := Some block_hash \<rparr>, metadata))"

definition stored_of_execution :: "xof \<Rightarrow> block_execution_result \<Rightarrow> stored_block" where
"stored_of_execution X execution =
   (let b = br_block execution; h = bl_header b
    in \<lparr> sb_block = b,
         sb_metadata = \<lparr> bm_block_hash = compute_block_hash X b, bm_height = bh_height h,
           bm_prev_hash = bh_prev_hash h, bm_state_root = br_state_root execution, bm_tx_root = br_tx_root execution,
           bm_timestamp = bh_timestamp h, bm_bytes_used = br_bytes_used execution,
           bm_included_count = length (br_included execution), bm_deferred_count = length (br_deferred execution),
           bm_skipped_count = length (br_skipped execution),
           bm_vc_budget_consumed = br_vc_budget_consumed execution \<rparr>,
         sb_included_transactions = br_included_transactions execution \<rparr>)"

definition append_block ::
    "xof \<Rightarrow> block_execution_result \<Rightarrow> chain_store \<Rightarrow> (chain_store \<times> block_metadata, chain_error) result" where
"append_block X execution c =
   bind_r (validate_execution X c execution) (\<lambda>_.
   append_stored_block X (stored_of_execution X execution) c)"

section \<open>Compaction and replacement of the tip\<close>

definition drop_height :: "nat \<Rightarrow> chain_store \<Rightarrow> chain_store" where
"drop_height h c =
   (case hget (ch_by_height c) h of
      None \<Rightarrow> c
    | Some bh \<Rightarrow> c\<lparr> ch_by_height := hdel h (ch_by_height c), ch_by_hash := hdel bh (ch_by_hash c) \<rparr>)"

definition compact_to_checkpoint :: "nat \<Rightarrow> hash32 \<Rightarrow> chain_store \<Rightarrow> chain_store" where
"compact_to_checkpoint checkpoint_height checkpoint_tip_hash c =
   (let evict_heights = sort (filter (\<lambda>h. h \<le> checkpoint_height) (map fst (ch_by_height c)));
        c1 = fold drop_height evict_heights c
    in c1\<lparr> ch_anchor_prev_hash := checkpoint_tip_hash, ch_base_height := checkpoint_height \<rparr>)"

definition replace_tip_block ::
    "xof \<Rightarrow> stored_block \<Rightarrow> chain_store \<Rightarrow> (chain_store \<times> stored_block, chain_error) result" where
"replace_tip_block X canonical c =
   bind_r (ok_or (ch_tip_hash c) ReplaceEmptyChain) (\<lambda>tip_hash.
   bind_r (or_panic (hget (ch_by_hash c) tip_hash)) (\<lambda>tip.
   let t = sb_metadata tip;
       m = sb_metadata canonical;
       h = bl_header (sb_block canonical)
   in if bm_height t \<noteq> bm_height m then Err (ReplaceNotAtTip (bm_height m) (bm_height t))
      else if bm_block_hash t = bm_block_hash m then Err SiblingHashCollision
      else if bm_prev_hash t \<noteq> bm_prev_hash m then Err (SiblingStateDivergence (bm_height t) ''prev_hash'')
      else if bm_state_root t \<noteq> bm_state_root m then Err (SiblingStateDivergence (bm_height t) ''state_root'')
      else if bm_tx_root t \<noteq> bm_tx_root m then Err (SiblingStateDivergence (bm_height t) ''tx_root'')
      else if bm_block_hash m \<noteq> compute_block_hash X (sb_block canonical) then Err StoredBlockHashMismatch
      else if bm_height m \<noteq> bh_height h \<or> bm_prev_hash m \<noteq> bh_prev_hash h \<or> bm_state_root m \<noteq> bh_state_root h
              \<or> bm_tx_root m \<noteq> bh_tx_root h
      then Err (StoredBlockMetadataMismatch ''candidate metadata does not match its block header'')
      else if length (bl_tx_hashes (sb_block canonical)) \<noteq> length (sb_included_transactions canonical)
      then Err StoredBlockBodyCountMismatch
      else Ok (c\<lparr> ch_by_height := hput (bm_height m) (bm_block_hash m) (ch_by_height c),
                  ch_by_hash := hput (bm_block_hash m) canonical (hdel tip_hash (ch_by_hash c)),
                  ch_tip_hash := Some (bm_block_hash m) \<rparr>, tip)))"

section \<open>The structural check of recovery\<close>

datatype replay_error =
    HeightGap nat nat
  | Replay_ParentHashMismatch nat hash32 hash32
  | TipHashMismatch hash32 hash32
  | BlockHashMismatch nat hash32 hash32
  | BodyCountMismatch nat nat nat
  | TxHashMismatch nat nat hash32 hash32
  | TxEncodingFailed nat nat tx_error
  | Replay_ApplyFailed nat nat apply_error
  | TxRootMismatch nat hash32 hash32
  | StateRootMismatch nat hash32 hash32
  | MetadataMismatch nat string

text \<open>
  The heights expected come from the open range \<open>expected_start_height..\<close>, whose \<open>next\<close> computes
  the successor first and panics at the top of the 64-bit range, also after the last block.
\<close>

fun verify_stored_blocks_structure ::
    "xof \<Rightarrow> nat \<Rightarrow> hash32 \<Rightarrow> stored_block list \<Rightarrow> (unit, replay_error) result" where
"verify_stored_blocks_structure X expected_height expected_prev_hash blocks =
   (if expected_height \<ge> U64_MAX then Panic
    else case blocks of
      [] \<Rightarrow> Ok ()
    | stored # rest \<Rightarrow>
        let m = sb_metadata stored;
            b = sb_block stored;
            h = bl_header b;
            height = bh_height h
        in if height \<noteq> expected_height then Err (HeightGap expected_height height)
           else if bh_prev_hash h \<noteq> expected_prev_hash
           then Err (Replay_ParentHashMismatch height expected_prev_hash (bh_prev_hash h))
           else if length (bl_tx_hashes b) \<noteq> length (sb_included_transactions stored)
           then Err (BodyCountMismatch height (length (sb_included_transactions stored)) (length (bl_tx_hashes b)))
           else if bm_height m \<noteq> bh_height h
           then Err (MetadataMismatch height ''metadata height does not match block header'')
           else if bm_prev_hash m \<noteq> bh_prev_hash h
           then Err (MetadataMismatch height ''metadata prev_hash does not match block header'')
           else if bm_state_root m \<noteq> bh_state_root h
           then Err (MetadataMismatch height ''metadata state_root does not match block header'')
           else if bm_tx_root m \<noteq> bh_tx_root h
           then Err (MetadataMismatch height ''metadata tx_root does not match block header'')
           else if bm_included_count m \<noteq> length (bl_tx_hashes b)
           then Err (MetadataMismatch height ''metadata included_count does not match block tx hashes'')
           else if bm_block_hash m \<noteq> compute_block_hash X b
           then Err (BlockHashMismatch height (bm_block_hash m) (compute_block_hash X b))
           else verify_stored_blocks_structure X (expected_height + 1) (bm_block_hash m) rest)"

declare verify_stored_blocks_structure.simps [simp del]

definition verify_chain_consistency :: "xof \<Rightarrow> chain_store \<Rightarrow> (unit, replay_error) result" where
"verify_chain_consistency X c =
   (let blocks = blocks_in_order c in
    bind_r (verify_stored_blocks_structure X 1 (ch_anchor_prev_hash c) blocks) (\<lambda>_.
    let expected_tip = (if blocks = [] then ch_anchor_prev_hash c else bm_block_hash (sb_metadata (last blocks)));
        actual_tip = or_anchor c
    in if actual_tip \<noteq> expected_tip then Err (TipHashMismatch expected_tip actual_tip) else Ok ()))"

section \<open>Received blocks\<close>

datatype block_reception_class =
    LinkAtTip | Reception_Duplicate | SiblingAtTip block_metadata | OrphanFutureChild | BelowFinalized

datatype block_reception_error = HeightInconsistent nat nat | HashInconsistent

definition classify_incoming_block ::
    "xof \<Rightarrow> stored_block \<Rightarrow> nat \<Rightarrow> block_metadata option \<Rightarrow> (nat \<Rightarrow> block_metadata option)
     \<Rightarrow> (block_reception_class, block_reception_error) result" where
"classify_incoming_block X candidate local_height local_tip lookup_canonical_at_height =
   (let m = sb_metadata candidate; h = bm_height m in
    if bm_height m \<noteq> bh_height (bl_header (sb_block candidate))
    then Err (HeightInconsistent (bm_height m) (bh_height (bl_header (sb_block candidate))))
    else if bm_block_hash m \<noteq> compute_block_hash X (sb_block candidate) then Err HashInconsistent
    else if map_option bm_block_hash (lookup_canonical_at_height h) = Some (bm_block_hash m)
    then Ok Reception_Duplicate
    else if h < local_height then Ok BelowFinalized
    else if h = local_height then
      (case local_tip of
         Some tip_meta \<Rightarrow> if bm_block_hash tip_meta \<noteq> bm_block_hash m then Ok (SiblingAtTip tip_meta) else Ok OrphanFutureChild
       | None \<Rightarrow> Ok OrphanFutureChild)
    else bind_r (or_panic (checked_add U64_MAX local_height 1)) (\<lambda>next_height.
      if h = next_height then
        (case local_tip of
           None \<Rightarrow> Ok LinkAtTip
         | Some tip_meta \<Rightarrow> if bm_prev_hash m = bm_block_hash tip_meta then Ok LinkAtTip else Ok OrphanFutureChild)
      else Ok OrphanFutureChild))"

section \<open>The list a chain store stands for\<close>

abbreviation hash_of :: "stored_block \<Rightarrow> hash32" where
"hash_of b \<equiv> bm_block_hash (sb_metadata b)"

text \<open>
  \<open>holds base c bs\<close>: the two maps of \<open>c\<close> hold exactly the blocks \<open>bs\<close>, at the heights above \<open>base\<close>.
  \<open>represents X c bs\<close>: moreover \<open>bs\<close> is a well-formed chain on the anchor, and the tip is its last block.
\<close>

definition holds :: "nat \<Rightarrow> chain_store \<Rightarrow> stored_block list \<Rightarrow> bool" where
"holds base c bs \<longleftrightarrow>
   hwf (ch_by_height c) \<and> hwf (ch_by_hash c)
   \<and> hget (ch_by_height c) = map_of (enumerate (Suc base) (map hash_of bs))
   \<and> hget (ch_by_hash c) = map_of (map (\<lambda>b. (hash_of b, b)) bs)
   \<and> distinct (map hash_of bs)"

definition represents :: "xof \<Rightarrow> chain_store \<Rightarrow> stored_block list \<Rightarrow> bool" where
"represents X c bs \<longleftrightarrow>
   holds (ch_base_height c) c bs
   \<and> verify_stored_blocks_structure X (Suc (ch_base_height c)) (ch_anchor_prev_hash c) bs = Ok ()
   \<and> (if bs = [] then ch_tip_hash c \<in> {None, Some (ch_anchor_prev_hash c)} else ch_tip_hash c = Some (hash_of (last bs)))"

text \<open>One block of the structural check.\<close>

definition block_fits :: "xof \<Rightarrow> nat \<Rightarrow> hash32 \<Rightarrow> stored_block \<Rightarrow> bool" where
"block_fits X height prev stored \<longleftrightarrow>
   (let m = sb_metadata stored; b = sb_block stored; h = bl_header b
    in bh_height h = height \<and> bh_prev_hash h = prev \<and> length (bl_tx_hashes b) = length (sb_included_transactions stored)
       \<and> bm_height m = bh_height h \<and> bm_prev_hash m = bh_prev_hash h \<and> bm_state_root m = bh_state_root h
       \<and> bm_tx_root m = bh_tx_root h \<and> bm_included_count m = length (bl_tx_hashes b)
       \<and> bm_block_hash m = compute_block_hash X b)"

lemma verify_Nil: "verify_stored_blocks_structure X h p [] = Ok () \<longleftrightarrow> h < U64_MAX"
  by (simp add: verify_stored_blocks_structure.simps)

lemma verify_Cons:
  "verify_stored_blocks_structure X h p (b # bs) = Ok ()
   \<longleftrightarrow> h < U64_MAX \<and> block_fits X h p b \<and> verify_stored_blocks_structure X (Suc h) (hash_of b) bs = Ok ()"
  by (subst verify_stored_blocks_structure.simps) (auto simp: block_fits_def Let_def)

lemma verify_bound: "verify_stored_blocks_structure X h p bs = Ok () \<Longrightarrow> h + length bs < U64_MAX"
  by (induction bs arbitrary: h p) (force simp: verify_Nil verify_Cons)+

lemma verify_append:
  "verify_stored_blocks_structure X h p (as @ bs) = Ok ()
   \<longleftrightarrow> verify_stored_blocks_structure X h p as = Ok ()
     \<and> verify_stored_blocks_structure X (h + length as) (if as = [] then p else hash_of (last as)) bs = Ok ()"
proof (induction as arbitrary: h p)
  case Nil
  show ?case using verify_bound [of X h p bs] by (auto simp: verify_Nil)
next
  case (Cons a as)
  show ?case by (auto simp: verify_Cons Cons.IH)
qed

lemma validate_stored_block_Ok:
  "validate_stored_block X c b = Ok ()
   \<longleftrightarrow> block_fits X (saturating_add U64_MAX (chain_height c) 1) (or_anchor c) b
     \<and> \<not> hhas (ch_by_hash c) (hash_of b) \<and> \<not> hhas (ch_by_height c) (bm_height (sb_metadata b))"
  by (auto simp: validate_stored_block_def block_fits_def Let_def)

lemma sorted_entries_unique:
  fixes m :: "('k::linorder, 'v) hmap"
  assumes "hwf m" and "hget m = map_of ys" and "sorted (map fst ys)" and "distinct (map fst ys)"
  shows "sort_key fst m = ys"
proof (rule map_sorted_distinct_set_unique [where f = fst])
  have "set m = set ys"
    using assms mem_hget [OF assms(1)] by (auto simp: map_of_eq_Some_iff)
  then show "set (sort_key fst m) = set ys" by simp
  show "inj_on fst (set (sort_key fst m) \<union> set ys)"
    using \<open>set m = set ys\<close> assms(4) by (simp add: distinct_map)
  show "distinct (map fst (sort_key fst m))"
    using assms(1) by (simp add: hwf_def distinct_map)
qed (use assms in simp_all)

lemma represents_lookup: "represents X c bs \<Longrightarrow> b \<in> set bs \<Longrightarrow> hget (ch_by_hash c) (hash_of b) = Some b"
  by (simp add: represents_def holds_def o_def)

lemma represents_order:
  assumes "represents X c bs"
  shows "blocks_in_order c = bs"
proof -
  let ?hs = "enumerate (Suc (ch_base_height c)) (map hash_of bs)"
  have "sort_key fst (ch_by_height c) = ?hs"
    using assms by (intro sorted_entries_unique) (auto simp: represents_def holds_def enumerate_eq_zip simp del: upt_Suc)
  moreover have "List.map_filter (\<lambda>(h, k). hget (ch_by_hash c) k) (enumerate n (map hash_of ys)) = ys"
    if "set ys \<subseteq> set bs" for n ys
    using that represents_lookup [OF assms] by (induction ys arbitrary: n) (auto simp: List.map_filter_def)
  ultimately show ?thesis by (simp add: blocks_in_order_def)
qed

lemma represents_height:
  assumes "represents X c bs"
  shows "chain_height c = ch_base_height c + length bs"
proof (cases bs rule: rev_cases)
  case Nil
  then show ?thesis using assms by (auto simp: represents_def holds_def chain_height_def chain_tip_def)
next
  case (snoc as b)
  then have "chain_tip c = Some b"
    using assms represents_lookup [OF assms, of b] by (simp add: represents_def chain_tip_def)
  then show ?thesis using assms snoc
    by (simp add: represents_def chain_height_def verify_append verify_Cons block_fits_def Let_def)
qed

lemma represents_prev:
  "represents X c bs \<Longrightarrow> or_anchor c = (if bs = [] then ch_anchor_prev_hash c else hash_of (last bs))"
  by (auto simp: represents_def or_anchor_def)

lemma chain_new_represents: "Suc base < U64_MAX \<Longrightarrow> represents X (chain_new_with_base anchor base) []"
  by (simp add: represents_def holds_def chain_new_with_base_def verify_Nil fun_eq_iff)

section \<open>The operations on the list\<close>

lemma hget_hput_fun: "hget (hput k v m) = (hget m)(k \<mapsto> v)"
  by (simp add: fun_eq_iff hget_hput)

lemma hget_hdel_fun: "hget (hdel k m) = (hget m)(k := None)"
  by (simp add: fun_eq_iff hget_hdel)

lemma dom_enumerate: "dom (map_of (enumerate n xs)) = {n..<n + length xs}"
  by (simp add: dom_map_of_conv_image_fst enumerate_eq_zip flip: set_map)

lemma map_of_snoc: "k \<notin> fst ` set m \<Longrightarrow> map_of (m @ [(k, v)]) = (map_of m)(k \<mapsto> v)"
  by (simp add: map_add_upd_left dom_map_of_conv_image_fst)

lemma map_of_enumerate_snoc:
  "map_of (enumerate n (xs @ [x])) = (map_of (enumerate n xs))(n + length xs \<mapsto> x)"
  using dom_enumerate [of n xs]
  by (simp add: enumerate_append_eq map_add_upd_left)

lemma map_of_enumerate_below: "m < n \<Longrightarrow> map_of (enumerate n xs) m = None"
  by (metis dom_enumerate domIff atLeastLessThan_iff not_le)

lemma map_of_enumerate_nth: "i < length xs \<Longrightarrow> map_of (enumerate n xs) (n + i) = Some (xs ! i)"
  by (induction xs arbitrary: n i) (auto simp: less_Suc_eq_0_disj simp flip: add_Suc)

lemma holds_snoc:
  assumes "holds base c bs" and "hash_of b \<notin> set (map hash_of bs)"
  shows "holds base (c\<lparr> ch_by_height := hput (Suc base + length bs) (hash_of b) (ch_by_height c),
                        ch_by_hash := hput (hash_of b) b (ch_by_hash c), ch_tip_hash := t \<rparr>) (bs @ [b])"
  using assms map_of_snoc [of "hash_of b" "map (\<lambda>b. (hash_of b, b)) bs" b]
  by (simp add: holds_def hget_hput_fun map_of_enumerate_snoc image_image del: map_of_append)

lemma holds_drop_height:
  assumes "holds base c (b # bs)"
  shows "holds (Suc base) (drop_height (Suc base) c) bs"
proof -
  have "map_of (map (\<lambda>b. (hash_of b, b)) bs) (hash_of b) = None"
    using assms by (auto simp: holds_def map_of_eq_None_iff)
  then show ?thesis
    using assms map_of_enumerate_below [of "Suc base" "Suc (Suc base)" "map hash_of bs"]
    by (auto simp: holds_def drop_height_def hget_hdel_fun)
qed

lemma holds_drop_heights:
  "holds base c bs \<Longrightarrow> k \<le> length bs \<Longrightarrow> holds (base + k) (fold drop_height [Suc base..<Suc base + k] c) (drop k bs)"
proof (induction k arbitrary: base c bs)
  case (Suc k)
  then obtain b bs' where "bs = b # bs'" by (cases bs) auto
  with Suc.IH [of "Suc base" "drop_height (Suc base) c" bs'] Suc.prems holds_drop_height [of base c b bs']
  show ?case by (simp add: upt_conv_Cons del: upt_Suc)
qed simp

lemma represents_append:
  assumes c: "represents X c bs" and ok: "append_stored_block X b c = Ok (c', m)" and room: "chain_height c + 2 < U64_MAX"
  shows "represents X c' (bs @ [b])"
proof -
  have sat: "saturating_add U64_MAX (chain_height c) (Suc 0) = Suc (ch_base_height c + length bs)"
    using room by (simp add: represents_height [OF c] saturating_add_def)
  have v: "validate_stored_block X c b = Ok ()"
    and c': "c' = c\<lparr> ch_by_height := hput (bm_height (sb_metadata b)) (hash_of b) (ch_by_height c),
                     ch_by_hash := hput (hash_of b) b (ch_by_hash c), ch_tip_hash := Some (hash_of b) \<rparr>"
    using ok by (auto simp: append_stored_block_def result_simps Let_def)
  have fits: "block_fits X (Suc (ch_base_height c + length bs)) (or_anchor c) b"
    and new: "hash_of b \<notin> set (map hash_of bs)"
    using v represents_lookup [OF c] by (auto simp: validate_stored_block_Ok sat hhas_def)
  then have "bm_height (sb_metadata b) = Suc (ch_base_height c) + length bs" by (simp add: block_fits_def Let_def)
  then have "holds (ch_base_height c) c' (bs @ [b])"
    using holds_snoc [OF _ new, of "ch_base_height c" c] c c' by (simp add: represents_def)
  then show ?thesis
    using c c' fits room represents_height [OF c]
    by (simp add: represents_def verify_append verify_Cons verify_Nil represents_prev [OF c])
qed

lemma replace_tip_block_Ok:
  assumes "replace_tip_block X b c = Ok (c', old)"
  obtains tip_hash where "ch_tip_hash c = Some tip_hash" "hget (ch_by_hash c) tip_hash = Some old"
    "bm_height (sb_metadata old) = bm_height (sb_metadata b)" "bm_prev_hash (sb_metadata old) = bm_prev_hash (sb_metadata b)"
    "bm_included_count (sb_metadata b) = length (bl_tx_hashes (sb_block b))
     \<Longrightarrow> block_fits X (bm_height (sb_metadata b)) (bm_prev_hash (sb_metadata b)) b"
    "c' = c\<lparr> ch_by_height := hput (bm_height (sb_metadata b)) (hash_of b) (ch_by_height c),
            ch_by_hash := hput (hash_of b) b (hdel tip_hash (ch_by_hash c)), ch_tip_hash := Some (hash_of b) \<rparr>"
  using assms
  by (auto simp: replace_tip_block_def Let_def result_simps block_fits_def split: if_splits option.splits)

lemma holds_replace:
  assumes h: "holds base c (bs @ [old])" and new: "hash_of b \<notin> set (map hash_of bs)"
  shows "holds base (c\<lparr> ch_by_height := hput (Suc base + length bs) (hash_of b) (ch_by_height c),
                        ch_by_hash := hput (hash_of b) b (hdel (hash_of old) (ch_by_hash c)), ch_tip_hash := t \<rparr>) (bs @ [b])"
proof -
  let ?m = "map (\<lambda>b. (hash_of b, b)) bs"
  have "map_of ?m (hash_of old) = None" using h by (auto simp: holds_def map_of_eq_None_iff)
  then have "(map_of ?m)(hash_of old := None) = map_of ?m" by auto
  then show ?thesis
    using h new map_of_snoc [of "hash_of b" ?m b] map_of_snoc [of "hash_of old" ?m old]
    by (simp add: holds_def hget_hput_fun hget_hdel_fun map_of_enumerate_snoc image_image del: map_of_append)
qed

lemma represents_replace:
  assumes c: "represents X c bs" and ok: "replace_tip_block X b c = Ok (c', old)"
    and new: "\<not> hhas (ch_by_hash c) (hash_of b)"
    and count: "bm_included_count (sb_metadata b) = length (bl_tx_hashes (sb_block b))"
  shows "bs \<noteq> [] \<and> old = last bs \<and> represents X c' (butlast bs @ [b])"
proof -
  obtain tip_hash where r: "ch_tip_hash c = Some tip_hash" "hget (ch_by_hash c) tip_hash = Some old"
    "bm_height (sb_metadata old) = bm_height (sb_metadata b)" "bm_prev_hash (sb_metadata old) = bm_prev_hash (sb_metadata b)"
    "block_fits X (bm_height (sb_metadata b)) (bm_prev_hash (sb_metadata b)) b"
    and c': "c' = c\<lparr> ch_by_height := hput (bm_height (sb_metadata b)) (hash_of b) (ch_by_height c),
            ch_by_hash := hput (hash_of b) b (hdel tip_hash (ch_by_hash c)), ch_tip_hash := Some (hash_of b) \<rparr>"
    using replace_tip_block_Ok [OF ok] count by blast
  have "bs \<noteq> []" using c r(2) by (auto simp: represents_def holds_def)
  then obtain as l where bs: "bs = as @ [l]" by (cases bs rule: rev_cases) auto
  then have tip: "tip_hash = hash_of l" using c r(1) by (simp add: represents_def)
  then have "old = l" using represents_lookup [OF c, of l] bs r(2) by simp
  moreover have l: "block_fits X (Suc (ch_base_height c + length as)) (if as = [] then ch_anchor_prev_hash c else hash_of (last as)) l"
    using c by (simp add: represents_def bs verify_append verify_Cons split: if_splits)
  have hb: "bm_height (sb_metadata b) = Suc (ch_base_height c) + length as"
    and pb: "bm_prev_hash (sb_metadata b) = (if as = [] then ch_anchor_prev_hash c else hash_of (last as))"
    using l \<open>old = l\<close> unfolding r(3,4) [symmetric] by (simp_all add: block_fits_def Let_def)
  moreover note r(5) [unfolded hb pb]
  moreover have "hash_of b \<notin> set (map hash_of as)"
    using new represents_lookup [OF c] by (auto simp: hhas_def bs)
  ultimately show ?thesis
    using c c' holds_replace [of "ch_base_height c" c as l b "Some (hash_of b)"] tip
    by (simp add: represents_def bs verify_append verify_Cons verify_Nil del: add_Suc split: if_splits)
qed

lemma compact_tip: "ch_tip_hash (compact_to_checkpoint h tip c) = ch_tip_hash c"
proof -
  have "ch_tip_hash (fold drop_height hs c) = ch_tip_hash c" for hs
    by (induction hs arbitrary: c) (auto simp: drop_height_def split: option.splits)
  then show ?thesis by (simp add: compact_to_checkpoint_def)
qed

lemma represents_compact:
  assumes c: "represents X c bs" and k: "k \<le> length bs"
    and tip: "tip = (if k = 0 then ch_anchor_prev_hash c else hash_of (bs ! (k - 1)))"
  shows "represents X (compact_to_checkpoint (ch_base_height c + k) tip c) (drop k bs)"
proof -
  let ?b = "ch_base_height c" and ?hs = "filter (\<lambda>h. h \<le> ch_base_height c + k) (map fst (ch_by_height c))"
  have "set (map fst (ch_by_height c)) = dom (hget (ch_by_height c))"
    using dom_map_of_conv_image_fst [of "ch_by_height c"] by (simp add: hget_def [abs_def])
  also have "\<dots> = {Suc ?b..<Suc ?b + length bs}"
    using c dom_enumerate [of "Suc ?b" "map hash_of bs"] by (simp add: represents_def holds_def)
  finally have "set (sort ?hs) = set [Suc ?b..<Suc ?b + k]" using k by auto
  moreover have "distinct (sort ?hs)" using c by (simp add: represents_def holds_def hwf_def)
  ultimately have hs: "sort ?hs = [Suc ?b..<Suc ?b + k]"
    by (intro sorted_distinct_set_unique) (auto simp del: upt_Suc)
  have tip': "tip = (if take k bs = [] then ch_anchor_prev_hash c else hash_of (last (take k bs)))"
    using tip k by (cases "k = 0") (auto simp: last_conv_nth min_def)
  have v: "verify_stored_blocks_structure X (Suc (?b + k)) tip (drop k bs) = Ok ()"
    using c k verify_append [of X "Suc ?b" "ch_anchor_prev_hash c" "take k bs" "drop k bs"]
    unfolding tip' represents_def by (simp add: min.absorb2 [OF k] split del: if_split)
  have "ch_tip_hash c \<in> {None, Some tip}" if "drop k bs = []"
    using c that k unfolding tip' represents_def by (auto split: if_splits)
  moreover have "ch_tip_hash c = Some (hash_of (last (drop k bs)))" if "drop k bs \<noteq> []"
    using c that by (auto simp: represents_def last_drop split: if_splits)
  ultimately show ?thesis
    using v k c holds_drop_heights [of ?b c bs k] compact_tip [of "?b + k" tip c]
    by (simp add: represents_def holds_def compact_to_checkpoint_def hs Let_def del: upt_Suc)
qed

lemma replace_tip_panics:
  assumes c: "represents X c bs"
  shows "replace_tip_block X b c = Panic \<longleftrightarrow> bs = [] \<and> ch_tip_hash c \<noteq> None"
proof (cases bs rule: rev_cases)
  case Nil
  then show ?thesis
    using c by (auto simp: represents_def holds_def replace_tip_block_def result_simps split: option.splits)
next
  case (snoc as l)
  then have "ch_tip_hash c = Some (hash_of l)" using c by (simp add: represents_def)
  then show ?thesis
    using represents_lookup [OF c, of l] snoc by (simp add: replace_tip_block_def result_simps Let_def)
qed

lemma represents_get:
  assumes "represents X c bs" and "i < length bs"
  shows "get_stored_block_by_height c (Suc (ch_base_height c) + i) = Some (bs ! i)"
proof -
  have "hget (ch_by_height c) (Suc (ch_base_height c) + i) = Some (hash_of (bs ! i))"
    using assms map_of_enumerate_nth [of i "map hash_of bs" "Suc (ch_base_height c)"]
    by (simp add: represents_def holds_def)
  then show ?thesis
    using represents_lookup [OF assms(1)] assms(2) by (simp add: get_stored_block_by_height_def)
qed

lemma consistency_iff_genesis_base:
  assumes c: "represents X c bs"
  shows "verify_chain_consistency X c = Ok () \<longleftrightarrow> ch_base_height c = 0 \<or> bs = []"
proof -
  have tip: "or_anchor c = (if bs = [] then ch_anchor_prev_hash c else hash_of (last bs))"
    by (rule represents_prev [OF c])
  have "verify_stored_blocks_structure X 1 (ch_anchor_prev_hash c) bs = Ok () \<longleftrightarrow> ch_base_height c = 0 \<or> bs = []"
  proof (cases bs)
    case Nil
    then show ?thesis by (simp add: verify_Nil U64_MAX_def)
  next
    case (Cons b rest)
    then show ?thesis using c by (auto simp: represents_def verify_Cons block_fits_def Let_def)
  qed
  then show ?thesis
    unfolding verify_chain_consistency_def represents_order [OF c] tip by (auto simp: result_simps Let_def)
qed

section \<open>The property\<close>

definition anchor_at :: "chain_store \<Rightarrow> stored_block list \<Rightarrow> nat \<Rightarrow> hash32" where
"anchor_at c bs k = (if k = 0 then ch_anchor_prev_hash c else hash_of (bs ! (k - 1)))"

text \<open>
  C9: The chain store refines a list of hash-linked blocks.  A store that stands for the list
  \<open>bs\<close> (a fresh store stands for the empty list) enumerates \<open>bs\<close> and looks up block \<open>i\<close> at height
  base + 1 + \<open>i\<close>.  Appending gives \<open>bs @ [b]\<close>.  Replacing the tip returns the old last block and
  gives \<open>butlast bs @ [b]\<close>, provided the replacement carries the count of its transactions and its
  hash is not that of another stored block.  Compacting to the hash of block \<open>k\<close> drops the first
  \<open>k\<close> blocks and nothing else.  The consistency check of recovery accepts the chain exactly when it
  starts at height zero or is empty: a chain with a base height, from a snapshot or a compaction,
  is refused, because the check always starts at height one.  Replacing the tip panics exactly when
  every block was compacted away while the tip hash was kept.
\<close>

theorem chain_store_refines_list:
  assumes "represents X c bs"
  shows "blocks_in_order c = bs
    \<and> chain_height c = ch_base_height c + length bs
    \<and> (\<forall>i < length bs. get_stored_block_by_height c (Suc (ch_base_height c) + i) = Some (bs ! i))
    \<and> (\<forall>b c' m. append_stored_block X b c = Ok (c', m) \<longrightarrow> chain_height c + 2 < U64_MAX \<longrightarrow> represents X c' (bs @ [b]))
    \<and> (\<forall>b c' old. replace_tip_block X b c = Ok (c', old)
         \<longrightarrow> bm_included_count (sb_metadata b) = length (bl_tx_hashes (sb_block b))
         \<longrightarrow> \<not> hhas (ch_by_hash c) (hash_of b)
         \<longrightarrow> bs \<noteq> [] \<and> old = last bs \<and> represents X c' (butlast bs @ [b]))
    \<and> (\<forall>b. replace_tip_block X b c = Panic \<longleftrightarrow> bs = [] \<and> ch_tip_hash c \<noteq> None)
    \<and> (\<forall>k \<le> length bs. represents X (compact_to_checkpoint (ch_base_height c + k) (anchor_at c bs k) c) (drop k bs))
    \<and> (verify_chain_consistency X c = Ok () \<longleftrightarrow> ch_base_height c = 0 \<or> bs = [])"
proof (intro conjI)
  show "\<forall>b c' m. append_stored_block X b c = Ok (c', m) \<longrightarrow> chain_height c + 2 < U64_MAX \<longrightarrow> represents X c' (bs @ [b])"
    using represents_append [OF assms] by blast
  show "\<forall>b c' old. replace_tip_block X b c = Ok (c', old)
         \<longrightarrow> bm_included_count (sb_metadata b) = length (bl_tx_hashes (sb_block b))
         \<longrightarrow> \<not> hhas (ch_by_hash c) (hash_of b)
         \<longrightarrow> bs \<noteq> [] \<and> old = last bs \<and> represents X c' (butlast bs @ [b])"
    using represents_replace [OF assms] by blast
  show "\<forall>k \<le> length bs. represents X (compact_to_checkpoint (ch_base_height c + k) (anchor_at c bs k) c) (drop k bs)"
    by (simp add: anchor_at_def represents_compact [OF assms])
  show "\<forall>b. replace_tip_block X b c = Panic \<longleftrightarrow> bs = [] \<and> ch_tip_hash c \<noteq> None"
    using replace_tip_panics [OF assms] by blast
qed (use represents_order [OF assms] represents_height [OF assms] represents_get [OF assms]
       consistency_iff_genesis_base [OF assms] in simp_all)

definition snapshot_chain :: chain_store where
"snapshot_chain = chain_new_with_base (replicate 32 7) 5"

definition sixth_block :: stored_block where
"sixth_block =
   (let b = \<lparr> bl_header = (block_header_default demo_xof)\<lparr> bh_height := 6, bh_prev_hash := replicate 32 7 \<rparr>,
              bl_tx_hashes = [], bl_commit_signatures = [] \<rparr>
    in \<lparr> sb_block = b,
         sb_metadata = \<lparr> bm_block_hash = compute_block_hash demo_xof b, bm_height = 6, bm_prev_hash = replicate 32 7,
           bm_state_root = replicate 32 0, bm_tx_root = replicate 32 0, bm_timestamp = 0, bm_bytes_used = 0,
           bm_included_count = 0, bm_deferred_count = 0, bm_skipped_count = 0, bm_vc_budget_consumed = 0 \<rparr>,
         sb_included_transactions = [] \<rparr>)"

theorem chain_store_refines_list_witness:
  "\<exists>c m. append_stored_block demo_xof sixth_block snapshot_chain = Ok (c, m) \<and> represents demo_xof c [sixth_block]
     \<and> verify_chain_consistency demo_xof c \<noteq> Ok ()
     \<and> replace_tip_block demo_xof sixth_block (compact_to_checkpoint 6 (hash_of sixth_block) c) = Panic"
proof -
  have e: "represents demo_xof snapshot_chain []"
    by (simp add: snapshot_chain_def chain_new_represents U64_MAX_def)
  have fits: "block_fits demo_xof 6 (replicate 32 7) sixth_block"
    by (simp add: block_fits_def sixth_block_def Let_def block_header_default_def del: replicate.simps)
  have "validate_stored_block demo_xof snapshot_chain sixth_block = Ok ()"
    using fits
    by (simp add: validate_stored_block_Ok snapshot_chain_def chain_new_with_base_def chain_height_def chain_tip_def
        or_anchor_def saturating_add_def U64_MAX_def hhas_def)
  then obtain c m where c: "append_stored_block demo_xof sixth_block snapshot_chain = Ok (c, m)"
      "ch_base_height c = 5" "ch_tip_hash c \<noteq> None"
    by (auto simp: append_stored_block_def result_simps Let_def snapshot_chain_def chain_new_with_base_def)
  have r: "represents demo_xof c [sixth_block]"
    using chain_store_refines_list [OF e] c(1) by (simp add: snapshot_chain_def chain_new_with_base_def U64_MAX_def)
  let ?c = "compact_to_checkpoint 6 (hash_of sixth_block) c"
  have "represents demo_xof ?c []" "ch_tip_hash ?c \<noteq> None"
    using chain_store_refines_list [OF r] c
    by (auto simp: compact_tip anchor_at_def dest!: spec [where x = "Suc 0"])
  then show ?thesis
    using c r chain_store_refines_list [OF r] chain_store_refines_list [of demo_xof ?c "[]"] by auto
qed

end
