(* ===== verification/Proposer.thy ===== *)
theory Proposer
  imports Engine
begin

text \<open>
  The local proposer (\<open>pqc-consensus/src/proposer.rs\<close>): it builds the next block on copies of the state
  and the pool, and commits the prepared result in one step that checks height and tip again.
\<close>

record local_proposer_config =
  lc_assembly :: assembly_config
  lc_initial_prev_hash :: hash32

record proposed_block =
  pb_execution :: block_execution_result
  pb_block_hash :: hash32
  pb_next_state :: state_store
  pb_next_pool :: mempool

datatype proposer_error =
    Assemble assemble_error
  | StaleProposalHeight nat nat
  | StaleProposalPrevHash

record local_proposer =
  lp_proposer :: bytes
  lp_config :: local_proposer_config
  lp_tip_hash :: hash32
  lp_committed_blocks :: "block list"

definition proposer_new :: "bytes \<Rightarrow> local_proposer_config \<Rightarrow> local_proposer" where
"proposer_new proposer config = \<lparr> lp_proposer = proposer, lp_config = config,
   lp_tip_hash = lc_initial_prev_hash config, lp_committed_blocks = [] \<rparr>"

definition build_next_block ::
    "env \<Rightarrow> local_proposer \<Rightarrow> state_store \<Rightarrow> mempool \<Rightarrow> nat \<Rightarrow> (proposed_block, proposer_error) result" where
"build_next_block E lp store pool timestamp =
   bind_r (map_err Assemble (assemble_block E store pool
     \<lparr> ax_height = saturating_add U64_MAX (st_block_height store) 1, ax_prev_hash = lp_tip_hash lp,
       ax_timestamp = timestamp, ax_proposer = lp_proposer lp \<rparr> (lc_assembly (lp_config lp))))
     (\<lambda>(next_state, next_pool, execution).
   Ok \<lparr> pb_execution = execution, pb_block_hash = compute_block_hash (e_xof E) (br_block execution),
        pb_next_state = next_state, pb_next_pool = next_pool \<rparr>)"

text \<open>The checks both commits make, and the proposer after a commit.\<close>

definition check_fresh :: "local_proposer \<Rightarrow> state_store \<Rightarrow> proposed_block \<Rightarrow> (unit, proposer_error) result" where
"check_fresh lp store proposal =
   (let expected_height = saturating_add U64_MAX (st_block_height store) 1;
        h = bl_header (br_block (pb_execution proposal))
    in if bh_height h \<noteq> expected_height then Err (StaleProposalHeight expected_height (bh_height h))
       else if bh_prev_hash h \<noteq> lp_tip_hash lp then Err StaleProposalPrevHash
       else Ok ())"

definition committed :: "proposed_block \<Rightarrow> local_proposer \<Rightarrow> local_proposer" where
"committed proposal lp = lp\<lparr> lp_tip_hash := pb_block_hash proposal,
   lp_committed_blocks := lp_committed_blocks lp @ [br_block (pb_execution proposal)] \<rparr>"

definition commit_block ::
    "proposed_block \<Rightarrow> local_proposer \<Rightarrow> state_store \<Rightarrow> mempool
     \<Rightarrow> (local_proposer \<times> state_store \<times> mempool \<times> block_execution_result, proposer_error) result" where
"commit_block proposal lp store pool =
   bind_r (check_fresh lp store proposal) (\<lambda>_.
   Ok (committed proposal lp, pb_next_state proposal, pb_next_pool proposal, pb_execution proposal))"

definition commit_block_preserve_pool ::
    "proposed_block \<Rightarrow> local_proposer \<Rightarrow> state_store
     \<Rightarrow> (local_proposer \<times> state_store \<times> block_execution_result, proposer_error) result" where
"commit_block_preserve_pool proposal lp store =
   bind_r (check_fresh lp store proposal) (\<lambda>_.
   Ok (committed proposal lp, pb_next_state proposal, pb_execution proposal))"

definition run_once ::
    "env \<Rightarrow> nat \<Rightarrow> local_proposer \<Rightarrow> state_store \<Rightarrow> mempool
     \<Rightarrow> (local_proposer \<times> state_store \<times> mempool \<times> block_execution_result, proposer_error) result" where
"run_once E timestamp lp store pool =
   bind_r (build_next_block E lp store pool timestamp) (\<lambda>proposal. commit_block proposal lp store pool)"

definition set_proposer :: "bytes \<Rightarrow> local_proposer \<Rightarrow> local_proposer" where
"set_proposer address lp = lp\<lparr> lp_proposer := address \<rparr>"

definition advance_tip :: "hash32 \<Rightarrow> local_proposer \<Rightarrow> local_proposer" where
"advance_tip new_tip lp = lp\<lparr> lp_tip_hash := new_tip \<rparr>"

abbreviation next_context :: "local_proposer \<Rightarrow> state_store \<Rightarrow> nat \<Rightarrow> assembly_context" where
"next_context lp store timestamp \<equiv> \<lparr> ax_height = saturating_add U64_MAX (st_block_height store) 1,
   ax_prev_hash = lp_tip_hash lp, ax_timestamp = timestamp, ax_proposer = lp_proposer lp \<rparr>"

text \<open>A block built on the current store and tip is always fresh, so one round is assembly and a commit.\<close>

lemma run_once_Ok:
  "run_once E timestamp lp s pool = Ok (lp', t, pool', r)
   \<longleftrightarrow> assemble_block E s pool (next_context lp s timestamp) (lc_assembly (lp_config lp)) = Ok (t, pool', r)
     \<and> lp' = lp\<lparr> lp_tip_hash := compute_block_hash (e_xof E) (br_block r),
                 lp_committed_blocks := lp_committed_blocks lp @ [br_block r] \<rparr>" (is "?l \<longleftrightarrow> ?r")
proof -
  have fresh: "bh_height (bl_header (br_block r)) = saturating_add U64_MAX (st_block_height s) 1
      \<and> bh_prev_hash (bl_header (br_block r)) = lp_tip_hash lp"
    if "assemble_block E s pool (next_context lp s timestamp) (lc_assembly (lp_config lp)) = Ok (t, pool', r)" for t pool' r
    by (rule assemble_block_Ok [OF that]) simp
  show ?thesis
  proof
    assume ?l
    then show ?r
      by (auto simp: run_once_def build_next_block_def commit_block_def committed_def result_simps)
  next
    assume ?r
    then show ?l
      using fresh [of t pool' r]
      by (auto simp: run_once_def build_next_block_def commit_block_def committed_def check_fresh_def Let_def)
  qed
qed

end
