(* ===== verification/Recovery.thy ===== *)
theory Recovery
  imports Chain Proposer
begin

text \<open>
  Replaying stored blocks (\<open>pqc-consensus/src/recovery.rs\<close>), which a node runs when it restarts and
  when it imports the blocks of others, against the local proposer that produces them.

  The results: replay reproduces what the proposer computed, block after block, for canonical
  encodings and away from epoch boundaries; at a boundary it leaves out the epoch transitions, so
  that a block that activates a candidate is refused.
\<close>

section \<open>Replay\<close>

record replay_result =
  rr_state :: state_store
  rr_tip_hash :: hash32
  rr_height :: nat
  rr_state_root :: hash32

text \<open>The transactions of a block, with the fees and the gas collected so far.\<close>

fun replay_txs ::
    "env \<Rightarrow> nat \<Rightarrow> fee_params \<Rightarrow> nat \<Rightarrow> (transaction \<times> hash32) list \<Rightarrow> state_store \<times> nat \<times> nat
     \<Rightarrow> (state_store \<times> nat \<times> nat, replay_error) result" where
"replay_txs E height block_fee_params tx_index [] acc = Ok acc" |
"replay_txs E height block_fee_params tx_index ((tx, expected_hash) # rest) (s, fees_collected, block_gas_used) =
   bind_r (map_err (TxEncodingFailed height tx_index) (encode_tx E tx)) (\<lambda>raw.
   let actual_hash = compute_tx_hash E raw in
   if actual_hash \<noteq> expected_hash then Err (TxHashMismatch height tx_index expected_hash actual_hash)
   else bind_r (map_err (Replay_ApplyFailed height tx_index)
          (apply_tx E s tx \<lparr> xc_tx_bytes_len = length raw, xc_fee_params = block_fee_params \<rparr>)) (\<lambda>(t, execution).
   replay_txs E height block_fee_params (Suc tx_index) rest
     (t, saturating_add U128_MAX (saturating_add U128_MAX fees_collected (xr_fee_charged execution)) (tx_fee_tip tx),
      saturating_add U64_MAX block_gas_used (xr_gas_used execution))))"

text \<open>The steps that close a block on replay.\<close>

definition replay_close ::
    "xof \<Rightarrow> fee_distribution_params \<Rightarrow> address list \<Rightarrow> block_header \<Rightarrow> nat \<Rightarrow> nat \<Rightarrow> state_store \<Rightarrow> (state_store, 'e) result" where
"replay_close X fee_dist validator_pool header fees_collected block_gas_used s =
   (let s1 = (if length (bh_proposer header) = 32
              then distribute_block_fees X (bh_proposer header) fees_collected (fee_pool s validator_pool) fee_dist s
              else s)
    in bind_r (or_panic (apply_aimd_update X block_gas_used s1)) (\<lambda>s2.
       or_panic (advance_height X (end_of_height X (bh_height header) s2))))"

definition replay_block ::
    "env \<Rightarrow> fee_params \<Rightarrow> fee_distribution_params \<Rightarrow> address list \<Rightarrow> stored_block \<Rightarrow> state_store
     \<Rightarrow> (state_store, replay_error) result" where
"replay_block E fee_params fee_dist validator_pool stored s =
   (let X = e_xof E;
        b = sb_block stored;
        h = bl_header b;
        height = bm_height (sb_metadata stored);
        block_fee_params = fee_params\<lparr> fp_base_fee_dynamic := base_fee_dynamic s \<rparr>
    in bind_r (replay_txs E height block_fee_params 0 (zip (sb_included_transactions stored) (bl_tx_hashes b)) (s, 0, 0))
         (\<lambda>(t, fees_collected, block_gas_used).
       bind_r (replay_close X fee_dist validator_pool h fees_collected block_gas_used t) (\<lambda>u.
       if compute_tx_root X (bl_tx_hashes b) \<noteq> bh_tx_root h
       then Err (TxRootMismatch height (bh_tx_root h) (compute_tx_root X (bl_tx_hashes b)))
       else if state_root X u \<noteq> bh_state_root h
       then Err (StateRootMismatch height (bh_state_root h) (state_root X u))
       else if compute_block_hash X b \<noteq> bm_block_hash (sb_metadata stored)
       then Err (BlockHashMismatch height (bm_block_hash (sb_metadata stored)) (compute_block_hash X b))
       else Ok u)))"

fun replay_loop ::
    "env \<Rightarrow> fee_params \<Rightarrow> fee_distribution_params \<Rightarrow> address list \<Rightarrow> stored_block list
     \<Rightarrow> state_store \<times> hash32 \<times> hash32 \<Rightarrow> (state_store \<times> hash32 \<times> hash32, replay_error) result" where
"replay_loop E fee_params fee_dist validator_pool [] acc = Ok acc" |
"replay_loop E fee_params fee_dist validator_pool (stored # blocks) (s, tip_hash, root) =
   bind_r (replay_block E fee_params fee_dist validator_pool stored s) (\<lambda>u.
   replay_loop E fee_params fee_dist validator_pool blocks
     (u, bm_block_hash (sb_metadata stored), state_root (e_xof E) u))"

definition replay_blocks_from_state ::
    "env \<Rightarrow> state_store \<Rightarrow> hash32 \<Rightarrow> stored_block list \<Rightarrow> fee_params \<Rightarrow> fee_distribution_params \<Rightarrow> address list
     \<Rightarrow> (replay_result, replay_error) result" where
"replay_blocks_from_state E base_state anchor_prev_hash blocks fee_params fee_dist validator_pool =
   bind_r (verify_stored_blocks_structure (e_xof E) (saturating_add U64_MAX (st_block_height base_state) 1)
             anchor_prev_hash blocks) (\<lambda>_.
   bind_r (replay_loop E fee_params fee_dist validator_pool blocks
             (base_state, anchor_prev_hash, state_root (e_xof E) base_state)) (\<lambda>(s, tip_hash, root).
   Ok \<lparr> rr_state = s, rr_tip_hash = tip_hash, rr_height = st_block_height s, rr_state_root = root \<rparr>))"

definition replay_blocks_from_genesis ::
    "env \<Rightarrow> state_store \<Rightarrow> hash32 \<Rightarrow> stored_block list \<Rightarrow> fee_params \<Rightarrow> fee_distribution_params \<Rightarrow> address list
     \<Rightarrow> (replay_result, replay_error) result" where
"replay_blocks_from_genesis = replay_blocks_from_state"

definition recover_tip ::
    "env \<Rightarrow> chain_store \<Rightarrow> state_store \<Rightarrow> fee_params \<Rightarrow> fee_distribution_params \<Rightarrow> address list
     \<Rightarrow> (replay_result, replay_error) result" where
"recover_tip E c genesis_state fee_params fee_dist validator_pool =
   bind_r (verify_chain_consistency (e_xof E) c) (\<lambda>_.
   replay_blocks_from_state E genesis_state (ch_anchor_prev_hash c) (blocks_in_order c) fee_params fee_dist validator_pool)"

section \<open>Replay mirrors assembly\<close>

text \<open>An entry whose transaction encodes to the very bytes it was received in.\<close>

definition canonical_entry :: "env \<Rightarrow> pending_entry \<Rightarrow> bool" where
"canonical_entry E e \<longleftrightarrow> encode_tx E (pe_tx e) = Ok (pe_raw_bytes e) \<and> pe_tx_hash e = compute_tx_hash E (pe_raw_bytes e)"

lemma replay_mirrors_loop:
  assumes "assemble_loop E config es a = Ok b" "sound (e_xof E) (am_store a)" "\<forall>e \<in> set es. canonical_entry E e"
  shows "\<exists>ths. am_included_hashes b = am_included_hashes a @ map snd ths
    \<and> am_included_transactions b = am_included_transactions a @ map fst ths
    \<and> replay_txs E h ((ag_fee_params config)\<lparr> fp_base_fee_dynamic := base_fee_dynamic (am_store a) \<rparr>) i ths
        (am_store a, am_fees_collected a, am_block_gas_used a) = Ok (am_store b, am_fees_collected b, am_block_gas_used b)"
  using assms
proof (induction es arbitrary: a i)
  case (Cons e es)
  from Cons.prems(1) obtain c where c: "assemble_entry E config e a = Ok c" "assemble_loop E config es c = Ok b"
    by (auto simp: result_simps)
  from c(1) show ?case
  proof (cases rule: assemble_entry_cases)
    case (included t r)
    have t: "sound (e_xof E) t" "base_fee_dynamic t = base_fee_dynamic (am_store a)"
      using apply_tx_sound [OF included(1) Cons.prems(2)] by (simp_all add: base_fee_dynamic_def)
    from Cons.IH [OF c(2), of "Suc i"] t(1) Cons.prems(3) included(2)
    obtain ths where ths: "am_included_hashes b = am_included_hashes c @ map snd ths"
      "am_included_transactions b = am_included_transactions c @ map fst ths"
      "replay_txs E h ((ag_fee_params config)\<lparr> fp_base_fee_dynamic := base_fee_dynamic (am_store c) \<rparr>) (Suc i) ths
        (am_store c, am_fees_collected c, am_block_gas_used c) = Ok (am_store b, am_fees_collected b, am_block_gas_used b)"
      by auto
    have "canonical_entry E e" using Cons.prems(3) by simp
    then show ?thesis
      using ths included t(2)
      by (intro exI [of _ "(pe_tx e, pe_tx_hash e) # ths"]) (simp add: canonical_entry_def result_simps)
  qed (use Cons.IH [OF c(2), of i] Cons.prems in auto)
qed (auto intro: exI [of _ "[]"])

abbreviation boundary :: "assembly_config \<Rightarrow> nat \<Rightarrow> bool" where
"boundary config h \<equiv> is_epoch_boundary h (ec_epoch_duration (ag_epoch_config config))"

definition canonical_pool :: "env \<Rightarrow> mempool \<Rightarrow> bool" where
"canonical_pool E pool \<longleftrightarrow> (\<forall>e \<in> entries pool. canonical_entry E e)"

text \<open>The replayed block is the assembled one without the epoch transitions.\<close>

lemma sound_before_transitions:
  assumes "apply_aimd_update X gas (distribute_block_fees X proposer fees pool dist s) = Some s1"
    "advance_height X (end_of_height X h s1) = Some u" "sound X s" "fees \<le> U128_MAX"
  shows "sound X u"
  using stage_sound [OF stage_fees [OF assms(3,4)]] stage_aimd [OF assms(1)] stage_end_of_height(1) [of X s1 h]
    stage_advance(1) [OF assms(2)] by (blast dest: stage_sound)

lemma replay_assembled_block:
  assumes asm: "assemble_block E s pool ctx config = Ok (t, p, r)" and "sound (e_xof E) s" and "canonical_pool E pool"
  shows "length (br_included r) = length (br_included_transactions r)
    \<and> (\<exists>u. t = (if boundary config (ax_height ctx) then process_epoch_transitions (e_xof E) (ec_churn (ag_epoch_config config)) u else u)
      \<and> sound (e_xof E) u
      \<and> replay_block E (ag_fee_params config) (ag_fee_dist config) (ag_validator_pool config) (stored_of_execution (e_xof E) r) s
        = (if state_root (e_xof E) u = state_root (e_xof E) t then Ok u
           else Err (StateRootMismatch (ax_height ctx) (state_root (e_xof E) t) (state_root (e_xof E) u))))"
proof -
  let ?X = "e_xof E"
  obtain a where a: "assemble_loop E config (sort_key compare_pending_entries (all_pending pool)) (assembly_start s pool) = Ok a"
    "close_block ?X config (ax_height ctx) (ax_proposer ctx) (am_fees_collected a) (am_block_gas_used a)
       (am_store a) = (Ok t :: (state_store, assemble_error) result)" "length (ax_proposer ctx) = 32"
    and r: "br_included r = am_included_hashes a" "br_included_transactions r = am_included_transactions a"
    and b: "br_block r = \<lparr> bl_header = \<lparr> bh_header_version = HEADER_VERSION_V1, bh_height = ax_height ctx,
       bh_prev_hash = ax_prev_hash ctx, bh_state_root = state_root ?X t,
       bh_tx_root = compute_tx_root ?X (am_included_hashes a), bh_timestamp = ax_timestamp ctx,
       bh_proposer = ax_proposer ctx, bh_extension_root = empty_extension_root ?X \<rparr>,
       bl_tx_hashes = am_included_hashes a, bl_commit_signatures = [] \<rparr>"
    by (rule assemble_block_Ok [OF asm])
  obtain ths where ths: "am_included_hashes a = map snd ths" "am_included_transactions a = map fst ths"
    "replay_txs E (ax_height ctx) ((ag_fee_params config)\<lparr> fp_base_fee_dynamic := base_fee_dynamic s \<rparr>) 0 ths (s, 0, 0)
     = Ok (am_store a, am_fees_collected a, am_block_gas_used a)"
    using replay_mirrors_loop [OF a(1), of "ax_height ctx" 0] assms(2,3)
    by (auto simp: assembly_start_def canonical_pool_def entries_def)
  from close_block_Ok [OF a(2)] obtain s1 u where
    c: "apply_aimd_update ?X (am_block_gas_used a) (distribute_block_fees ?X (ax_proposer ctx) (am_fees_collected a)
          (fee_pool (am_store a) (ag_validator_pool config)) (ag_fee_dist config) (am_store a)) = Some s1"
      "advance_height ?X (end_of_height ?X (ax_height ctx) s1) = Some u"
    and t: "t = (if boundary config (ax_height ctx) then process_epoch_transitions ?X (ec_churn (ag_epoch_config config)) u else u)"
    by blast
  have "replay_block E (ag_fee_params config) (ag_fee_dist config) (ag_validator_pool config) (stored_of_execution ?X r) s
        = (if state_root ?X u = state_root ?X t then Ok u
           else Err (StateRootMismatch (ax_height ctx) (state_root ?X t) (state_root ?X u)))"
    using a(3) ths c
    by (simp add: replay_block_def replay_close_def stored_of_execution_def b r Let_def zip_map_fst_snd result_simps)
  moreover have "sound ?X u" using sound_before_transitions [OF c] loop_stage [OF a(1) assms(2)] stage_sound by blast
  ultimately show ?thesis using t ths by (auto simp: r)
qed

lemma assembled_fits:
  assumes asm: "assemble_block E s pool ctx config = Ok (t, p, r)" and "sound (e_xof E) s" and "canonical_pool E pool"
    and "st_block_height s < U64_MAX"
  shows "block_fits (e_xof E) (Suc (st_block_height s)) (ax_prev_hash ctx) (stored_of_execution (e_xof E) r)"
  using replay_assembled_block [OF assms(1-3), THEN conjunct1] assms(4)
  by (auto intro: assemble_block_Ok [OF asm] simp: block_fits_def stored_of_execution_def Let_def saturating_add_def)

lemma replay_loop_append:
  "replay_loop E fp fd vp (as @ bs) acc = bind_r (replay_loop E fp fd vp as acc) (replay_loop E fp fd vp bs)"
proof (induction E fp fd vp as acc rule: replay_loop.induct)
  case (2 E fp fd vp stored blocks s tip root)
  then show ?case by (cases "replay_block E fp fd vp stored s") simp_all
qed simp

text \<open>
  \<open>produced E config s p bs t q\<close>: from state \<open>s\<close> with tip \<open>p\<close>, proposers with one configuration and
  pools of canonical entries produce and commit the blocks \<open>bs\<close>, away from epoch boundaries, and end
  in state \<open>t\<close> with tip \<open>q\<close>.  The proposers, pools and timestamps may differ from block to block.
\<close>

inductive produced ::
    "env \<Rightarrow> assembly_config \<Rightarrow> state_store \<Rightarrow> hash32 \<Rightarrow> stored_block list \<Rightarrow> state_store \<Rightarrow> hash32 \<Rightarrow> bool"
  for E config s p where
produced_none: "produced E config s p [] s p" |
produced_block: "produced E config s p bs t q \<Longrightarrow> run_once E timestamp lp t pool = Ok (lp', u, pool', r)
   \<Longrightarrow> lp_tip_hash lp = q \<Longrightarrow> lc_assembly (lp_config lp) = config \<Longrightarrow> canonical_pool E pool
   \<Longrightarrow> \<not> boundary config (bh_height (bl_header (br_block r)))
   \<Longrightarrow> produced E config s p (bs @ [stored_of_execution (e_xof E) r]) u (lp_tip_hash lp')"

lemma hash_of_stored: "hash_of (stored_of_execution X r) = compute_block_hash X (br_block r)"
  by (simp add: stored_of_execution_def Let_def)

lemma produced_replays:
  assumes "produced E config s p bs t q" "sound (e_xof E) s"
  shows "sound (e_xof E) t \<and> st_block_height t = st_block_height s + length bs \<and> q = (if bs = [] then p else hash_of (last bs))
    \<and> (Suc (st_block_height t) < U64_MAX \<longrightarrow> verify_stored_blocks_structure (e_xof E) (Suc (st_block_height s)) p bs = Ok ())
    \<and> replay_loop E (ag_fee_params config) (ag_fee_dist config) (ag_validator_pool config) bs (s, p, state_root (e_xof E) s)
      = Ok (t, q, state_root (e_xof E) t)"
  using assms
proof (induction rule: produced.induct)
  case produced_none
  then show ?case by (simp add: verify_Nil)
next
  case (produced_block bs t q timestamp lp pool lp' u pool' r)
  then have t: "sound (e_xof E) t" "st_block_height t = st_block_height s + length bs"
      "q = (if bs = [] then p else hash_of (last bs))"
      "Suc (st_block_height t) < U64_MAX \<longrightarrow> verify_stored_blocks_structure (e_xof E) (Suc (st_block_height s)) p bs = Ok ()"
      "replay_loop E (ag_fee_params config) (ag_fee_dist config) (ag_validator_pool config) bs (s, p, state_root (e_xof E) s)
        = Ok (t, q, state_root (e_xof E) t)"
    by blast+
  let ?ctx = "next_context lp t timestamp"
  have a: "assemble_block E t pool ?ctx config = Ok (u, pool', r)"
    and q: "lp_tip_hash lp' = compute_block_hash (e_xof E) (br_block r)"
    using produced_block.hyps(2,4) by (simp_all add: run_once_Ok)
  have "\<not> boundary config (ax_height ?ctx)"
    using produced_block.hyps(6) by (auto intro: assemble_block_Ok [OF a])
  then have "replay_block E (ag_fee_params config) (ag_fee_dist config) (ag_validator_pool config)
      (stored_of_execution (e_xof E) r) t = Ok u"
    using replay_assembled_block [OF a t(1) produced_block.hyps(5)] by auto
  moreover have "block_fits (e_xof E) (Suc (st_block_height t)) q (stored_of_execution (e_xof E) r)" if "st_block_height t < U64_MAX"
    using assembled_fits [OF a t(1) produced_block.hyps(5) that] produced_block.hyps(3) by simp
  ultimately show ?case
    using t assemble_block_stage [OF a t(1)] stage_sound q
    by (auto simp: replay_loop_append result_simps hash_of_stored verify_append verify_Cons verify_Nil)
qed

section \<open>Epoch transitions change a store with candidates\<close>

lemma select_candidates_prefix: "\<exists>more. select_candidates s limit ops cs acc = cs @ more"
proof (induction s limit ops cs acc rule: select_candidates.induct)
  case (2 s limit operator ordered candidates accumulated)
  show ?case
  proof (cases "hget (st_validators s) operator")
    case None
    then show ?thesis using 2(1) by simp
  next
    case (Some r)
    then show ?thesis using 2(2) [OF Some refl] by (auto simp: Let_def)
  qed
qed simp

lemma activated_stays:
  assumes "hget (st_validators s) a = Some r" "vr_status r \<noteq> VS_Candidate"
  shows "hget (st_validators (fold (activate_validator X) ops s)) a = Some r"
  using assms
proof (induction ops arbitrary: s)
  case (Cons o1 ops)
  have "hget (st_validators (activate_validator X o1 s)) a = Some r"
    using Cons.prems by (auto simp: activate_validator_def Let_def hget_hput split: option.splits)
  then show ?case using Cons.IH Cons.prems(2) by simp
qed simp

lemma transitions_change:
  assumes "sound X s" "validator_candidates_ordered s \<noteq> []"
  shows "process_epoch_transitions X churn s \<noteq> s"
proof -
  let ?cs = "filter (\<lambda>v. vr_status v = VS_Candidate) (hvals (st_validators s))"
  obtain v vs where vs: "sort_key (\<lambda>v. (vr_registered_height v, vr_operator v)) ?cs = v # vs"
    using assms(2) by (cases "sort_key (\<lambda>v. (vr_registered_height v, vr_operator v)) ?cs")
      (simp_all add: validator_candidates_ordered_def)
  have "v \<in> set (sort_key (\<lambda>v. (vr_registered_height v, vr_operator v)) ?cs)" unfolding vs by simp
  then have v: "v \<in> set (hvals (st_validators s))" "vr_status v = VS_Candidate" by auto
  have g: "hget (st_validators s) (vr_operator v) = Some v"
    using v(1) assms(1) keyedD [of vr_operator "st_validators s"] hvals_iff [of "st_validators s" v]
    by (auto simp: sound_def store_wf_def coherent_def coh_def)
  obtain more where more: "select_candidates s (stake_weighted_activation_limit (active_self_bond_total s) churn)
      (validator_candidates_ordered s) [] 0 = vr_operator v # more"
    using select_candidates_prefix [of s _ "map vr_operator vs" "[vr_operator v]"]
    by (auto simp: validator_candidates_ordered_def vs g Let_def)
  have "hget (st_validators (activate_validator X (vr_operator v) s)) (vr_operator v) = Some (v\<lparr> vr_status := VS_Active \<rparr>)"
    by (simp add: activate_validator_def g v(2) Let_def)
  then have "hget (st_validators (process_epoch_transitions X churn s)) (vr_operator v) = Some (v\<lparr> vr_status := VS_Active \<rparr>)"
    unfolding process_epoch_transitions_def Let_def more by (simp add: activated_stays)
  moreover have "v \<noteq> v\<lparr> vr_status := VS_Active \<rparr>" using v(2) by (cases v) simp
  ultimately show ?thesis using g by auto
qed

section \<open>The properties\<close>

text \<open>
  C4: Replay reproduces assembly.  Blocks that local proposers with one configuration build and commit
  one after the other, from pools of canonically encoded transactions and away from epoch boundaries,
  are accepted by replay from the same state and anchor, and replay ends in the same state, tip,
  height and state root.  So a
  node that stored these blocks on its genesis anchor recovers its state after a restart.
\<close>

theorem replay_reproduces_assembly:
  assumes "produced E config s p bs t q" "sound (e_xof E) s" "Suc (st_block_height t) < U64_MAX"
  shows "replay_blocks_from_state E s p bs (ag_fee_params config) (ag_fee_dist config) (ag_validator_pool config)
      = Ok \<lparr> rr_state = t, rr_tip_hash = q, rr_height = st_block_height t, rr_state_root = state_root (e_xof E) t \<rparr>
    \<and> (represents (e_xof E) c bs \<and> ch_base_height c = 0 \<and> ch_anchor_prev_hash c = p
       \<longrightarrow> recover_tip E c s (ag_fee_params config) (ag_fee_dist config) (ag_validator_pool config)
         = Ok \<lparr> rr_state = t, rr_tip_hash = q, rr_height = st_block_height t, rr_state_root = state_root (e_xof E) t \<rparr>)"
proof -
  note r = produced_replays [OF assms(1,2)]
  have "saturating_add U64_MAX (st_block_height s) 1 = Suc (st_block_height s)"
    using r assms(3) by (simp add: saturating_add_def)
  then have *: "replay_blocks_from_state E s p bs (ag_fee_params config) (ag_fee_dist config) (ag_validator_pool config)
      = Ok \<lparr> rr_state = t, rr_tip_hash = q, rr_height = st_block_height t, rr_state_root = state_root (e_xof E) t \<rparr>"
    using r assms(3) by (simp add: replay_blocks_from_state_def)
  then show ?thesis
    using consistency_iff_genesis_base [of "e_xof E" c bs] represents_order [of "e_xof E" c bs]
    by (auto simp: recover_tip_def)
qed

text \<open>
  C20: Replay leaves out the epoch transitions.  A block assembled at an epoch boundary ends in the
  epoch transitions of some state \<open>u\<close>; replay stops at \<open>u\<close> and accepts the block only if the two state
  roots agree, although \<open>u\<close> differs from the assembled state whenever a candidate was waiting.
\<close>

theorem replay_omits_epoch_transitions:
  assumes "assemble_block E s pool ctx config = Ok (t, pool', r)" "sound (e_xof E) s" "canonical_pool E pool"
    "boundary config (ax_height ctx)" "st_block_height s + 2 < U64_MAX"
  shows "\<exists>u. t = process_epoch_transitions (e_xof E) (ec_churn (ag_epoch_config config)) u
    \<and> (validator_candidates_ordered u \<noteq> [] \<longrightarrow> t \<noteq> u)
    \<and> replay_blocks_from_state E s (ax_prev_hash ctx) [stored_of_execution (e_xof E) r]
        (ag_fee_params config) (ag_fee_dist config) (ag_validator_pool config)
      = (if state_root (e_xof E) u = state_root (e_xof E) t
         then Ok \<lparr> rr_state = u, rr_tip_hash = compute_block_hash (e_xof E) (br_block r),
                   rr_height = st_block_height u, rr_state_root = state_root (e_xof E) u \<rparr>
         else Err (StateRootMismatch (ax_height ctx) (state_root (e_xof E) t) (state_root (e_xof E) u)))"
proof -
  obtain u where u: "t = process_epoch_transitions (e_xof E) (ec_churn (ag_epoch_config config)) u" "sound (e_xof E) u"
    "replay_block E (ag_fee_params config) (ag_fee_dist config) (ag_validator_pool config) (stored_of_execution (e_xof E) r) s
     = (if state_root (e_xof E) u = state_root (e_xof E) t then Ok u
        else Err (StateRootMismatch (ax_height ctx) (state_root (e_xof E) t) (state_root (e_xof E) u)))"
    using replay_assembled_block [OF assms(1-3)] assms(4) by auto
  have "verify_stored_blocks_structure (e_xof E) (Suc (st_block_height s)) (ax_prev_hash ctx) [stored_of_execution (e_xof E) r] = Ok ()"
    using assembled_fits [OF assms(1-3)] assms(5) by (simp add: verify_Cons verify_Nil)
  moreover have "saturating_add U64_MAX (st_block_height s) 1 = Suc (st_block_height s)"
    using assms(5) by (simp add: saturating_add_def)
  ultimately show ?thesis
    using u transitions_change [of "e_xof E" u]
    by (intro exI [of _ u]) (auto simp: replay_blocks_from_state_def hash_of_stored)
qed

section \<open>Concrete replays\<close>

text \<open>The writer of the sample environment maps every value to the empty string, so this entry is canonical.\<close>

definition canonical_sample :: pending_entry where
"canonical_sample = raw_entry demo_env [] gasless_tx"

definition canonical_sample_pool :: mempool where
"canonical_sample_pool = pool_insert canonical_sample mempool_new"

lemma sample_pending: "all_pending canonical_sample_pool = [canonical_sample]"
  by (simp add: canonical_sample_pool_def pool_insert_def mempool_new_def all_pending_def hvals_def hput_def)

lemma sample_canonical: "canonical_pool demo_env canonical_sample_pool"
  by (simp add: canonical_pool_def canonical_entry_def entries_def sample_pending canonical_sample_def
      encode_tx_def encode_envelope_def demo_env_def demo_tx_def)

lemma sample_loop:
  "\<exists>a. assemble_loop demo_env demo_config [canonical_sample] (assembly_start demo_store canonical_sample_pool) = Ok a
     \<and> am_included_hashes a = [pe_tx_hash canonical_sample]"
proof -
  obtain t where t: "settle_sender demo_xof gasless_tx 500 demo_store = Ok t" using demo_settles by blast
  have "apply_tx demo_env demo_store gasless_tx c =
      Ok (t, \<lparr> xr_status = RevertedOutOfGas, xr_gas_used = 0, xr_fee_charged = 500, xr_fee_refund = 0 \<rparr>)" for c
    using t by (simp add: apply_tx_def Let_def scheduled_gas_for_tx_def demo_tx_def)
  then show ?thesis
    by (simp add: assemble_entry_def canonical_sample_def assembly_start_def demo_config_def saturating_add_def
        Let_def width_simps)
qed

lemma sample_assembles:
  "\<exists>t p r. assemble_block demo_env demo_store canonical_sample_pool demo_context demo_config = Ok (t, p, r)
     \<and> br_included r = [pe_tx_hash canonical_sample]"
proof -
  obtain a where a: "assemble_loop demo_env demo_config [canonical_sample] (assembly_start demo_store canonical_sample_pool) = Ok a"
    "am_included_hashes a = [pe_tx_hash canonical_sample]" using sample_loop by blast
  have s: "sound (e_xof demo_env) demo_store" using demo_sound by simp
  note l = loop_stage [OF a(1) s]
  have "\<exists>t. close_block demo_xof demo_config 1 (replicate 32 7) (am_fees_collected a) (am_block_gas_used a) (am_store a)
      = (Ok t :: (state_store, assemble_error) result)"
    by (rule close_block_total) (use l demo_height in \<open>auto simp: stage_def width_simps\<close>)
  then obtain t where "close_block demo_xof demo_config 1 (replicate 32 7) (am_fees_collected a) (am_block_gas_used a)
      (am_store a) = (Ok t :: (state_store, assemble_error) result)" by blast
  then show ?thesis
    using a by (simp add: assemble_block_def sample_pending demo_context_def demo_height saturating_add_def Let_def width_simps)
qed

theorem replay_reproduces_assembly_witness:
  "\<exists>b t q. replay_blocks_from_state demo_env demo_store (replicate 32 0) [b] sample_params fee_distribution_default []
     = Ok \<lparr> rr_state = t, rr_tip_hash = q, rr_height = 1, rr_state_root = state_root demo_xof t \<rparr>
     \<and> bl_tx_hashes (sb_block b) = [pe_tx_hash canonical_sample]"
proof -
  obtain t p r where r: "assemble_block demo_env demo_store canonical_sample_pool demo_context demo_config = Ok (t, p, r)"
    "br_included r = [pe_tx_hash canonical_sample]" using sample_assembles by blast
  let ?b = "stored_of_execution demo_xof r"
  let ?lp = "proposer_new (replicate 32 7) \<lparr> lc_assembly = demo_config, lc_initial_prev_hash = replicate 32 0 \<rparr>"
  have "next_context ?lp demo_store 9 = demo_context"
    by (simp add: proposer_new_def demo_context_def demo_height saturating_add_def width_simps)
  then have "\<exists>lp'. run_once demo_env 9 ?lp demo_store canonical_sample_pool = Ok (lp', t, p, r)"
    using r(1) by (simp add: run_once_Ok proposer_new_def)
  then obtain lp' where lp: "run_once demo_env 9 ?lp demo_store canonical_sample_pool = Ok (lp', t, p, r)" by blast
  have "bh_height (bl_header (br_block r)) = 1" by (auto intro: assemble_block_Ok [OF r(1)] simp: demo_context_def)
  then have "produced demo_env demo_config demo_store (replicate 32 0) ([] @ [stored_of_execution (e_xof demo_env) r]) t (lp_tip_hash lp')"
    by (intro produced_block [OF produced_none lp _ _ sample_canonical])
      (simp_all add: proposer_new_def demo_config_def epoch_config_devnet_def is_epoch_boundary_def EPOCH_DURATION_DEVNET_def)
  then have p: "produced demo_env demo_config demo_store (replicate 32 0) [?b] t (lp_tip_hash lp')" by simp
  have h: "st_block_height t = 1" using assemble_block_stage(2) [OF r(1)] by (simp add: demo_sound demo_height)
  have "bl_tx_hashes (sb_block ?b) = [pe_tx_hash canonical_sample]"
    using r(2) by (auto intro: assemble_block_Ok [OF r(1)] simp: stored_of_execution_def Let_def)
  then show ?thesis
    using replay_reproduces_assembly [OF p] h by (auto simp: demo_sound demo_config_def width_simps)
qed

text \<open>The last height of the first epoch.\<close>

definition eve_store :: state_store where
"eve_store = demo_store\<lparr> st_block_height := 59 \<rparr>"

definition boundary_context :: assembly_context where
"boundary_context = demo_context\<lparr> ax_height := 60 \<rparr>"

lemma eve_sound: "sound demo_xof eve_store"
  using demo_sound by (simp add: sound_def store_wf_def coherent_def tomb_inv_def eve_store_def)

lemma boundary_assembles:
  "\<exists>t p r. assemble_block demo_env eve_store mempool_new boundary_context demo_config = Ok (t, p, r)"
proof -
  have "\<exists>t. close_block demo_xof demo_config 60 (replicate 32 7) 0 0 eve_store = (Ok t :: (state_store, assemble_error) result)"
    by (rule close_block_total) (simp_all add: eve_sound, simp_all add: eve_store_def width_simps)
  then show ?thesis
    by (auto simp: assemble_block_def boundary_context_def demo_context_def eve_store_def saturating_add_def Let_def
        width_simps mempool_new_def all_pending_def hvals_def assembly_start_def)
qed

theorem replay_omits_epoch_transitions_witness:
  "\<exists>t p r u. assemble_block demo_env eve_store mempool_new boundary_context demo_config = Ok (t, p, r)
     \<and> t = process_epoch_transitions demo_xof churn_viper_pq_1 u
     \<and> replay_blocks_from_state demo_env eve_store (replicate 32 0) [stored_of_execution demo_xof r] sample_params fee_distribution_default []
       \<in> {Ok \<lparr> rr_state = u, rr_tip_hash = compute_block_hash demo_xof (br_block r), rr_height = st_block_height u,
               rr_state_root = state_root demo_xof u \<rparr>,
          Err (StateRootMismatch 60 (state_root demo_xof t) (state_root demo_xof u))}"
proof -
  obtain t p r where r: "assemble_block demo_env eve_store mempool_new boundary_context demo_config = Ok (t, p, r)"
    using boundary_assembles by blast
  have c: "ec_churn (ag_epoch_config demo_config) = churn_viper_pq_1" "boundary demo_config (ax_height boundary_context)"
    "ax_height boundary_context = 60" "ax_prev_hash boundary_context = replicate 32 0" "st_block_height eve_store + 2 < U64_MAX"
    "ag_fee_params demo_config = sample_params" "ag_fee_dist demo_config = fee_distribution_default" "ag_validator_pool demo_config = []"
    by (simp_all add: demo_config_def epoch_config_devnet_def is_epoch_boundary_def EPOCH_DURATION_DEVNET_def
        boundary_context_def demo_context_def eve_store_def width_simps)
  have p: "canonical_pool demo_env mempool_new"
    by (simp add: canonical_pool_def entries_def mempool_new_def all_pending_def hvals_def)
  from replay_omits_epoch_transitions [OF r _ p c(2) c(5)] obtain u where
    "t = process_epoch_transitions demo_xof churn_viper_pq_1 u"
    "replay_blocks_from_state demo_env eve_store (replicate 32 0) [stored_of_execution demo_xof r] sample_params fee_distribution_default []
      = (if state_root demo_xof u = state_root demo_xof t
         then Ok \<lparr> rr_state = u, rr_tip_hash = compute_block_hash demo_xof (br_block r),
                   rr_height = st_block_height u, rr_state_root = state_root demo_xof u \<rparr>
         else Err (StateRootMismatch 60 (state_root demo_xof t) (state_root demo_xof u)))"
    unfolding demo_env_xof c by (auto simp: eve_sound)
  then show ?thesis using r by auto
qed

end
