(* ===== verification/Snapshot.thy ===== *)
theory Snapshot
  imports Recovery Commit
begin

text \<open>
  Records of the durable store (\<open>pqc-consensus/src/storage.rs\<close>): the errors, the snapshot of a state and
  the record of a block, with the conversions in both directions.

  A restored snapshot has the tables and the root of the state it was taken from, provided the state
  holds nothing that the record has no field for; what the record has no field for is
  restored to the initial value.  A stored block survives its record unchanged.
\<close>

section \<open>Errors\<close>

text \<open>Details that external crates render as text are left out; paths are strings.\<close>

datatype storage_error =
    SE_Io string string
  | SE_Encode string
  | SE_Decode string
  | SE_Chain chain_error
  | SE_Commit commit_validation_error
  | SE_Replay replay_error
  | SE_IncompleteWriteDetected
  | SE_TipMissingWithExistingData
  | SE_MissingBlockFile nat
  | SE_UnexpectedBlockFile string
  | SE_MissingHashIndex string
  | SE_UnexpectedHashIndex string
  | SE_HashIndexMismatch string nat nat
  | SE_TipHeightMismatch nat nat
  | SE_TipHashMismatch hash32 hash32
  | SE_InvalidPersistedValue string
  | SE_ChainIdMismatch string string
  | SE_InvalidPersistedAlgId nat
  | SE_RocksDb
  | SE_TxEncodeFailed nat nat tx_error
  | SE_TxDecodeFailed nat nat tx_error
  | SE_TxBodyHashMismatch nat nat hash32 hash32
  | SE_CheckpointHeightMismatch nat nat
  | SE_CheckpointTipHashMismatch hash32 hash32
  | SE_CheckpointStateRootMismatch hash32 hash32
  | SE_CheckpointRegistryMismatch string
  | SE_InvalidSnapshot string
  | SE_InvalidPruneCutoff string
  | SE_StateFormatUpgradeRequired nat nat
  | SE_BinaryTooOld nat nat
  | SE_PartialChainCannotFullReplay nat
  | SE_MigrationFailed

text \<open>Collecting results: the first failure ends the iteration.\<close>

fun map_r :: "('a \<Rightarrow> ('b, 'e) result) \<Rightarrow> 'a list \<Rightarrow> ('b list, 'e) result" where
"map_r f [] = Ok []" |
"map_r f (x # xs) = bind_r (f x) (\<lambda>y. bind_r (map_r f xs) (\<lambda>ys. Ok (y # ys)))"

section \<open>Codes of the enumerations\<close>

fun encode_attestation_status :: "attestation_status \<Rightarrow> nat" where
"encode_attestation_status AS_Active = 0" |
"encode_attestation_status AS_Revoked = 1"

definition decode_attestation_status :: "nat \<Rightarrow> attestation_status option" where
"decode_attestation_status status =
   (if status = 0 then Some AS_Active else if status = 1 then Some AS_Revoked else None)"

fun encode_key_status :: "key_status \<Rightarrow> nat" where
"encode_key_status KS_Pending = 0" |
"encode_key_status KS_Active = 1" |
"encode_key_status KS_Revoked = 2"

definition decode_key_status :: "nat \<Rightarrow> key_status option" where
"decode_key_status encoded =
   (if encoded = 0 then Some KS_Pending else if encoded = 1 then Some KS_Active
    else if encoded = 2 then Some KS_Revoked else None)"

fun encode_lifecycle :: "lifecycle \<Rightarrow> nat" where
"encode_lifecycle LC_Active = 0" |
"encode_lifecycle LC_Discouraged = 1" |
"encode_lifecycle LC_Deprecated = 2" |
"encode_lifecycle LC_Banned = 3"

definition decode_lifecycle :: "nat \<Rightarrow> lifecycle option" where
"decode_lifecycle encoded =
   (if encoded = 0 then Some LC_Active else if encoded = 1 then Some LC_Discouraged
    else if encoded = 2 then Some LC_Deprecated else if encoded = 3 then Some LC_Banned else None)"

fun encode_sig_class :: "sig_class \<Rightarrow> nat" where
"encode_sig_class SC_Reduced = 0" |
"encode_sig_class SC_Standard = 1" |
"encode_sig_class SC_Premium = 2"

fun encode_validator_status :: "validator_status \<Rightarrow> nat \<times> nat" where
"encode_validator_status VS_Candidate = (0, 0)" |
"encode_validator_status VS_Active = (1, 0)" |
"encode_validator_status VS_Jailed = (2, 0)" |
"encode_validator_status (VS_Unbonding start_height) = (3, start_height)" |
"encode_validator_status VS_Exited = (4, 0)"

definition decode_validator_status :: "nat \<Rightarrow> nat \<Rightarrow> validator_status option" where
"decode_validator_status encoded unbonding_start_height =
   (if encoded = 0 then Some VS_Candidate else if encoded = 1 then Some VS_Active
    else if encoded = 2 then Some VS_Jailed else if encoded = 3 then Some (VS_Unbonding unbonding_start_height)
    else if encoded = 4 then Some VS_Exited else None)"

fun encode_proposal_status :: "proposal_status \<Rightarrow> nat" where
"encode_proposal_status PS_Voting = 0" |
"encode_proposal_status PS_Executed = 1" |
"encode_proposal_status PS_Expired = 2" |
"encode_proposal_status PS_Rejected = 3" |
"encode_proposal_status PS_ExecutionFailed = 4"

definition decode_proposal_status :: "nat \<Rightarrow> (proposal_status, storage_error) result" where
"decode_proposal_status n =
   (if n = 0 then Ok PS_Voting else if n = 1 then Ok PS_Executed else if n = 2 then Ok PS_Expired
    else if n = 3 then Ok PS_Rejected else if n = 4 then Ok PS_ExecutionFailed
    else Err (SE_InvalidPersistedValue ''unknown pending_proposal status''))"

section \<open>Records of a state\<close>

record key_record =
  kc_alg_id :: nat
  kc_pk_bytes :: bytes
  kc_key_version :: nat
  kc_valid_from_height :: nat
  kc_status :: nat
  kc_allowed_tx_types :: "32 word"

record account_record =
  ak_address :: address
  ak_balance :: nat
  ak_nonce :: nat
  ak_keys :: "key_record list"

record attestation_record =
  an_attestation_id :: hash32
  an_attester :: address
  an_subject :: hash32
  an_attestation_type :: nat
  an_content_hash :: hash32
  an_schema_id :: hash32
  an_metadata_hash :: "hash32 option"
  an_anchor_height :: nat
  an_expires_at_height :: "nat option"
  an_status :: nat
  an_revocation :: "(nat \<times> address \<times> hash32 option) option"

record governance_receipt_record =
  gc_proposal_id :: hash32
  gc_proposal_type :: nat
  gc_proposer :: address
  gc_target_alg_id :: nat
  gc_lifecycle_before :: nat
  gc_lifecycle_after :: nat
  gc_min_fee_before :: nat
  gc_min_fee_after :: nat
  gc_rationale_hash :: hash32
  gc_executed_at_height :: nat

record alg_registry_record =
  al_alg_id :: nat
  al_spec_ref :: string
  al_pk_size :: nat
  al_sig_size :: nat
  al_sig_class :: "nat option"
  al_min_fee :: nat
  al_lifecycle :: nat
  al_benchmark_verify_per_sec :: nat

record validator_snapshot_record =
  vn_operator :: address
  vn_node_id :: string
  vn_consensus_alg_id :: nat
  vn_consensus_pk :: bytes
  vn_self_bond :: nat
  vn_status :: nat
  vn_unbonding_start_height :: nat
  vn_registered_height :: nat
  vn_tombstoned :: bool

record effect_record =
  ec_effect_type :: nat
  ec_alg_id :: nat
  ec_has_lifecycle :: bool
  ec_lifecycle :: nat
  ec_has_min_fee :: bool
  ec_min_fee :: nat
  ec_burn_rate_bps :: nat
  ec_block_gas_limit :: nat
  ec_activate_at_timestamp_ns :: nat
  ec_expected_version :: nat

text \<open>The ten \<open>effect_\<close> fields of the code's flat record are grouped.\<close>

record pending_proposal_record =
  pc_proposal_id :: hash32
  pc_proposal_type :: nat
  pc_proposer :: address
  pc_voting_deadline :: nat
  pc_execute_after :: nat
  pc_rationale_hash :: hash32
  pc_status :: nat
  pc_effect :: effect_record
  pc_votes :: "(address \<times> bool) list"

record pending_upgrade_record =
  uc_proposal_id :: hash32
  uc_activate_at_timestamp_ns :: nat
  uc_expected_version :: nat

record state_snapshot_record =
  sn_block_height :: nat
  sn_accounts :: "account_record list"
  sn_attestations :: "attestation_record list"
  sn_governance_receipts :: "governance_receipt_record list"
  sn_alg_registry :: "alg_registry_record list"
  sn_validators :: "validator_snapshot_record list"
  sn_fee_market_base_fee :: nat
  sn_fee_market_block_gas_limit :: nat
  sn_fee_market_burn_rate_bps :: nat
  sn_pending_proposals :: "pending_proposal_record list"
  sn_pending_upgrades :: "pending_upgrade_record list"

section \<open>From a state to its record\<close>

definition accounts_in_order :: "state_store \<Rightarrow> account list" where
"accounts_in_order s = sort_key ac_address (hvals (st_accounts s))"

definition attestations_in_order :: "state_store \<Rightarrow> attestation list" where
"attestations_in_order s = sort_key at_attestation_id (hvals (st_attestations s))"

definition governance_receipts_in_order :: "state_store \<Rightarrow> governance_receipt list" where
"governance_receipts_in_order s = sort_key gr_proposal_id (hvals (st_governance_receipts s))"

definition alg_entries_in_order :: "state_store \<Rightarrow> alg_entry list" where
"alg_entries_in_order s = sort_key (\<lambda>e. alg_as_u16 (ae_alg_id e)) (hvals (st_alg_registry s))"

definition validators_in_order :: "state_store \<Rightarrow> validator_record list" where
"validators_in_order s = sort_key vr_operator (hvals (st_validators s))"

definition account_into_record :: "account \<Rightarrow> account_record" where
"account_into_record a = \<lparr> ak_address = ac_address a, ak_balance = ac_balance a, ak_nonce = ac_nonce a,
   ak_keys = map (\<lambda>k. \<lparr> kc_alg_id = alg_as_u16 (ke_alg_id k), kc_pk_bytes = ke_pk_bytes k,
     kc_key_version = ke_key_version k, kc_valid_from_height = ke_valid_from_height k,
     kc_status = encode_key_status (ke_status k), kc_allowed_tx_types = ke_allowed_tx_types k \<rparr>) (ac_keys a) \<rparr>"

definition attestation_into_record :: "attestation \<Rightarrow> attestation_record" where
"attestation_into_record a = \<lparr> an_attestation_id = at_attestation_id a, an_attester = at_attester a,
   an_subject = at_subject a, an_attestation_type = at_attestation_type a, an_content_hash = at_content_hash a,
   an_schema_id = at_schema_id a, an_metadata_hash = at_metadata_hash a, an_anchor_height = at_anchor_height a,
   an_expires_at_height = at_expires_at_height a, an_status = encode_attestation_status (at_status a),
   an_revocation = map_option (\<lambda>r. (ar_revoked_at_height r, ar_revoker r, ar_revocation_reason_hash r)) (at_revocation a) \<rparr>"

definition receipt_into_record :: "governance_receipt \<Rightarrow> governance_receipt_record" where
"receipt_into_record r = \<lparr> gc_proposal_id = gr_proposal_id r, gc_proposal_type = proposal_type_as_u8 (gr_proposal_type r),
   gc_proposer = gr_proposer r, gc_target_alg_id = alg_as_u16 (gr_target_alg_id r),
   gc_lifecycle_before = encode_lifecycle (gr_lifecycle_before r), gc_lifecycle_after = encode_lifecycle (gr_lifecycle_after r),
   gc_min_fee_before = gr_min_fee_before r, gc_min_fee_after = gr_min_fee_after r,
   gc_rationale_hash = gr_rationale_hash r, gc_executed_at_height = gr_executed_at_height r \<rparr>"

definition alg_into_record :: "alg_entry \<Rightarrow> alg_registry_record" where
"alg_into_record e = \<lparr> al_alg_id = alg_as_u16 (ae_alg_id e), al_spec_ref = ae_spec_ref e, al_pk_size = ae_pk_size e,
   al_sig_size = ae_sig_size e, al_sig_class = map_option encode_sig_class (ae_sig_class e), al_min_fee = ae_min_fee e,
   al_lifecycle = encode_lifecycle (ae_lifecycle e), al_benchmark_verify_per_sec = ae_benchmark_verify_per_sec e \<rparr>"

definition validator_into_record :: "validator_record \<Rightarrow> validator_snapshot_record" where
"validator_into_record v = (case encode_validator_status (vr_status v) of (status, unbonding_start_height) \<Rightarrow>
   \<lparr> vn_operator = vr_operator v, vn_node_id = vr_node_id v, vn_consensus_alg_id = alg_as_u16 (vr_consensus_alg_id v),
     vn_consensus_pk = vr_consensus_pk v, vn_self_bond = vr_self_bond v, vn_status = status,
     vn_unbonding_start_height = unbonding_start_height, vn_registered_height = vr_registered_height v,
     vn_tombstoned = vr_tombstoned v \<rparr>)"

definition effect_code :: "nat \<Rightarrow> effect_record" where
"effect_code t = \<lparr> ec_effect_type = t, ec_alg_id = 0, ec_has_lifecycle = False, ec_lifecycle = 0, ec_has_min_fee = False,
   ec_min_fee = 0, ec_burn_rate_bps = 0, ec_block_gas_limit = 0, ec_activate_at_timestamp_ns = 0, ec_expected_version = 0 \<rparr>"

fun effect_into_record :: "proposal_effect \<Rightarrow> effect_record" where
"effect_into_record (PE_RegistryUpdate alg_id target_lifecycle new_min_fee) =
   (effect_code 1)\<lparr> ec_alg_id := alg_as_u16 alg_id, ec_has_lifecycle := target_lifecycle \<noteq> None,
     ec_lifecycle := (case target_lifecycle of Some l \<Rightarrow> encode_lifecycle l | None \<Rightarrow> 0),
     ec_has_min_fee := new_min_fee \<noteq> None, ec_min_fee := (case new_min_fee of Some f \<Rightarrow> f | None \<Rightarrow> 0) \<rparr>" |
"effect_into_record (PE_BurnRateUpdate bps) = (effect_code 2)\<lparr> ec_burn_rate_bps := bps \<rparr>" |
"effect_into_record (PE_FeeParamUpdate limit) = (effect_code 3)\<lparr> ec_block_gas_limit := limit \<rparr>" |
"effect_into_record (PE_SoftwareUpgrade ts version) =
   (effect_code 4)\<lparr> ec_activate_at_timestamp_ns := ts, ec_expected_version := version \<rparr>" |
"effect_into_record (PE_AddAlgorithm _) = effect_code 5" |
"effect_into_record (PE_AddSlashingVerifier _) = effect_code 6" |
"effect_into_record (PE_AddHash _) = effect_code 7" |
"effect_into_record (PE_AddAuthTemplate _) = effect_code 8"

definition proposal_into_record :: "pending_proposal \<Rightarrow> pending_proposal_record" where
"proposal_into_record p = \<lparr> pc_proposal_id = pp_proposal_id p, pc_proposal_type = proposal_type_as_u8 (pp_proposal_type p),
   pc_proposer = pp_proposer p, pc_voting_deadline = pp_voting_deadline p, pc_execute_after = pp_execute_after p,
   pc_rationale_hash = pp_rationale_hash p, pc_status = encode_proposal_status (pp_status p),
   pc_effect = effect_into_record (pp_effect p), pc_votes = sort_key fst (pp_votes p) \<rparr>"

definition state_into_record :: "state_store \<Rightarrow> state_snapshot_record" where
"state_into_record s = \<lparr> sn_block_height = st_block_height s,
   sn_accounts = map account_into_record (accounts_in_order s),
   sn_attestations = map attestation_into_record (attestations_in_order s),
   sn_governance_receipts = map receipt_into_record (governance_receipts_in_order s),
   sn_alg_registry = map alg_into_record (alg_entries_in_order s),
   sn_validators = map validator_into_record (validators_in_order s),
   sn_fee_market_base_fee = fd_base_fee (fm_compute (st_fee_market s)),
   sn_fee_market_block_gas_limit = fd_limit (fm_compute (st_fee_market s)),
   sn_fee_market_burn_rate_bps = fm_burn_rate_bps (st_fee_market s),
   sn_pending_proposals = map proposal_into_record (pending_proposals_in_order s),
   sn_pending_upgrades = map (\<lambda>u. \<lparr> uc_proposal_id = pu_proposal_id u,
     uc_activate_at_timestamp_ns = pu_activate_at_timestamp_ns u, uc_expected_version = pu_expected_version u \<rparr>)
     (pending_upgrades_in_order s) \<rparr>"

section \<open>From a record to a state\<close>

abbreviation invalid_value :: "string \<Rightarrow> storage_error" where
"invalid_value \<equiv> SE_InvalidPersistedValue"

definition expected_entry :: "nat \<Rightarrow> alg_entry option" where
"expected_entry alg_id = hget (hcollect (map (\<lambda>e. (alg_as_u16 (ae_alg_id e), e)) phase1_registry)) alg_id"

definition restore_alg_entry :: "alg_registry_record \<Rightarrow> (alg_entry, storage_error) result" where
"restore_alg_entry r =
   bind_r (ok_or (expected_entry (al_alg_id r))
     (SE_CheckpointRegistryMismatch ''checkpoint contains unknown alg_id not in local phase-1 baseline'')) (\<lambda>entry.
   if al_spec_ref r \<noteq> ae_spec_ref entry \<or> al_pk_size r \<noteq> ae_pk_size entry \<or> al_sig_size r \<noteq> ae_sig_size entry
      \<or> al_sig_class r \<noteq> map_option encode_sig_class (ae_sig_class entry)
      \<or> al_benchmark_verify_per_sec r \<noteq> ae_benchmark_verify_per_sec entry
   then Err (SE_CheckpointRegistryMismatch ''registry contents do not match the local phase-1 baseline'')
   else bind_r (ok_or (decode_lifecycle (al_lifecycle r)) (SE_CheckpointRegistryMismatch ''registry lifecycle is invalid''))
     (\<lambda>lifecycle. Ok (entry\<lparr> ae_lifecycle := lifecycle, ae_min_fee := al_min_fee r \<rparr>)))"

definition validate_registry_snapshot :: "alg_registry_record list \<Rightarrow> (alg_entry list, storage_error) result" where
"validate_registry_snapshot records =
   (if length records \<noteq> length phase1_registry
    then Err (SE_CheckpointRegistryMismatch ''registry length does not match the local phase-1 baseline'')
    else map_r restore_alg_entry records)"

definition restore_alg_id :: "nat \<Rightarrow> (alg_id, storage_error) result" where
"restore_alg_id raw = ok_or (alg_from_u16 raw) (SE_InvalidPersistedAlgId raw)"

definition restore_key :: "key_record \<Rightarrow> (key_entry, storage_error) result" where
"restore_key k =
   bind_r (restore_alg_id (kc_alg_id k)) (\<lambda>alg.
   bind_r (ok_or (decode_key_status (kc_status k)) (invalid_value ''unknown checkpoint key status'')) (\<lambda>status.
   Ok \<lparr> ke_alg_id = alg, ke_pk_bytes = kc_pk_bytes k, ke_key_version = kc_key_version k,
        ke_valid_from_height = kc_valid_from_height k, ke_status = status, ke_allowed_tx_types = kc_allowed_tx_types k \<rparr>))"

definition restore_account :: "account_record \<Rightarrow> (account, storage_error) result" where
"restore_account a =
   bind_r (map_r restore_key (ak_keys a)) (\<lambda>keys.
   Ok \<lparr> ac_address = ak_address a, ac_balance = ak_balance a, ac_nonce = ak_nonce a, ac_keys = keys,
        ac_policy_version = 0, ac_policy_hash = None, ac_verifier_template_id = VERIFIER_TEMPLATE_ID_EOA,
        ac_auth_data = [] \<rparr>)"

definition restore_attestation :: "attestation_record \<Rightarrow> (attestation, storage_error) result" where
"restore_attestation a =
   bind_r (ok_or (decode_attestation_status (an_status a)) (invalid_value ''unknown checkpoint attestation status'')) (\<lambda>status.
   Ok \<lparr> at_attestation_id = an_attestation_id a, at_attester = an_attester a, at_subject = an_subject a,
        at_attestation_type = an_attestation_type a, at_content_hash = an_content_hash a, at_schema_id = an_schema_id a,
        at_metadata_hash = an_metadata_hash a, at_anchor_height = an_anchor_height a,
        at_expires_at_height = an_expires_at_height a, at_status = status,
        at_revocation = map_option (\<lambda>(h, revoker, reason). \<lparr> ar_revoked_at_height = h, ar_revoker = revoker,
          ar_revocation_reason_hash = reason \<rparr>) (an_revocation a) \<rparr>)"

definition restore_receipt :: "governance_receipt_record \<Rightarrow> (governance_receipt, storage_error) result" where
"restore_receipt r =
   bind_r (ok_or (proposal_type_from_u8 (gc_proposal_type r))
     (invalid_value ''unknown checkpoint governance proposal type'')) (\<lambda>proposal_type.
   bind_r (restore_alg_id (gc_target_alg_id r)) (\<lambda>alg.
   bind_r (ok_or (decode_lifecycle (gc_lifecycle_before r))
     (invalid_value ''unknown checkpoint governance lifecycle_before'')) (\<lambda>before.
   bind_r (ok_or (decode_lifecycle (gc_lifecycle_after r))
     (invalid_value ''unknown checkpoint governance lifecycle_after'')) (\<lambda>after.
   Ok \<lparr> gr_proposal_id = gc_proposal_id r, gr_proposal_type = proposal_type, gr_proposer = gc_proposer r,
        gr_target_alg_id = alg, gr_lifecycle_before = before, gr_lifecycle_after = after,
        gr_min_fee_before = gc_min_fee_before r, gr_min_fee_after = gc_min_fee_after r,
        gr_rationale_hash = gc_rationale_hash r, gr_executed_at_height = gc_executed_at_height r \<rparr>))))"

definition restore_validator :: "validator_snapshot_record \<Rightarrow> (validator_record, storage_error) result" where
"restore_validator v =
   bind_r (restore_alg_id (vn_consensus_alg_id v)) (\<lambda>alg.
   bind_r (ok_or (decode_validator_status (vn_status v) (vn_unbonding_start_height v))
     (invalid_value ''unknown checkpoint validator status'')) (\<lambda>status.
   Ok \<lparr> vr_operator = vn_operator v, vr_node_id = vn_node_id v, vr_consensus_alg_id = alg,
        vr_consensus_pk = vn_consensus_pk v, vr_self_bond = vn_self_bond v, vr_status = status,
        vr_registered_height = vn_registered_height v, vr_tombstoned = vn_tombstoned v \<rparr>))"

definition restore_effect :: "effect_record \<Rightarrow> (proposal_effect, storage_error) result" where
"restore_effect e =
   (if ec_effect_type e = 1 then
      bind_r (restore_alg_id (ec_alg_id e)) (\<lambda>alg.
      bind_r (if ec_has_lifecycle e
              then bind_r (ok_or (decode_lifecycle (ec_lifecycle e)) (invalid_value ''unknown pending_proposal lifecycle''))
                (\<lambda>l. Ok (Some l))
              else Ok None) (\<lambda>target_lifecycle.
      Ok (PE_RegistryUpdate alg target_lifecycle (if ec_has_min_fee e then Some (ec_min_fee e) else None))))
    else if ec_effect_type e = 2 then Ok (PE_BurnRateUpdate (ec_burn_rate_bps e))
    else if ec_effect_type e = 3 then Ok (PE_FeeParamUpdate (ec_block_gas_limit e))
    else if ec_effect_type e = 4 then Ok (PE_SoftwareUpgrade (ec_activate_at_timestamp_ns e) (ec_expected_version e))
    else Err (invalid_value ''unknown pending_proposal effect_type''))"

definition restore_proposal :: "pending_proposal_record \<Rightarrow> (pending_proposal, storage_error) result" where
"restore_proposal r =
   bind_r (ok_or (proposal_type_from_u8 (pc_proposal_type r))
     (invalid_value ''unknown pending_proposal proposal_type'')) (\<lambda>proposal_type.
   bind_r (decode_proposal_status (pc_status r)) (\<lambda>status.
   bind_r (restore_effect (pc_effect r)) (\<lambda>effect.
   Ok \<lparr> pp_proposal_id = pc_proposal_id r, pp_proposal_type = proposal_type, pp_proposer = pc_proposer r,
        pp_voting_deadline = pc_voting_deadline r, pp_execute_after = pc_execute_after r, pp_effect = effect,
        pp_votes = hcollect (pc_votes r), pp_status = status, pp_rationale_hash = pc_rationale_hash r \<rparr>)))"

fun restore_proposals :: "xof \<Rightarrow> pending_proposal_record list \<Rightarrow> state_store \<Rightarrow> (state_store, storage_error) result" where
"restore_proposals X [] s = Ok s" |
"restore_proposals X (r # rs) s =
   bind_r (restore_proposal r) (\<lambda>p. restore_proposals X rs (insert_pending_proposal X p s))"

definition restore_upgrade :: "pending_upgrade_record \<Rightarrow> pending_upgrade" where
"restore_upgrade r = \<lparr> pu_proposal_id = uc_proposal_id r, pu_activate_at_timestamp_ns = uc_activate_at_timestamp_ns r,
   pu_expected_version = uc_expected_version r \<rparr>"

definition restored_fee_market :: "state_snapshot_record \<Rightarrow> fee_market_state" where
"restored_fee_market r = (let d = fee_market_default in
   d\<lparr> fm_compute := (fm_compute d)\<lparr> fd_base_fee := sn_fee_market_base_fee r, fd_limit := sn_fee_market_block_gas_limit r \<rparr>,
      fm_burn_rate_bps := sn_fee_market_burn_rate_bps r \<rparr>)"

definition record_into_state :: "xof \<Rightarrow> state_snapshot_record \<Rightarrow> bytes \<Rightarrow> (state_store, storage_error) result" where
"record_into_state X r chain_id =
   bind_r (validate_registry_snapshot (sn_alg_registry r)) (\<lambda>alg_registry.
   bind_r (map_r restore_account (sn_accounts r)) (\<lambda>accounts.
   bind_r (map_r restore_attestation (sn_attestations r)) (\<lambda>attestations.
   bind_r (map_r restore_receipt (sn_governance_receipts r)) (\<lambda>receipts.
   bind_r (map_r restore_validator (sn_validators r)) (\<lambda>validators.
   let s1 = from_snapshot_full_with_proofs X accounts attestations [] receipts alg_registry (sn_block_height r) chain_id;
       s2 = fold (insert_validator X) validators s1;
       s3 = (if sn_fee_market_block_gas_limit r > 0 then restore_fee_market X (restored_fee_market r) s2 else s2)
   in bind_r (restore_proposals X (sn_pending_proposals r) s3) (\<lambda>s4.
   Ok (fold (insert_pending_upgrade X) (map restore_upgrade (sn_pending_upgrades r)) s4)))))))"

section \<open>One entry there and back\<close>

lemma map_r_map_Ok: "(\<And>x. x \<in> set xs \<Longrightarrow> f (g x) = Ok (h x)) \<Longrightarrow> map_r f (map g xs) = Ok (map h xs)"
  by (induction xs) auto

lemma map_r_Ok_elem: "map_r f xs = Ok ys \<Longrightarrow> x \<in> set xs \<Longrightarrow> \<exists>y. f x = Ok y"
  by (induction xs arbitrary: ys) (auto simp: result_simps)

lemma decode_encode [simp]:
  "decode_attestation_status (encode_attestation_status a) = Some a"
  "decode_key_status (encode_key_status k) = Some k"
  "decode_lifecycle (encode_lifecycle l) = Some l"
  "decode_proposal_status (encode_proposal_status q) = Ok q"
  by ((cases a; simp add: decode_attestation_status_def), (cases k; simp add: decode_key_status_def),
      (cases l; simp add: decode_lifecycle_def), (cases q; simp add: decode_proposal_status_def))

lemma proposal_type_restored [simp]: "proposal_type_from_u8 (proposal_type_as_u8 t) = Some t"
  by (cases t) (simp_all add: proposal_type_from_u8_def)

lemma restore_alg_id_as [simp]: "restore_alg_id (alg_as_u16 i) = Ok i"
  by (cases i) (simp_all add: restore_alg_id_def alg_from_u16_def)

lemma decode_encode_validator_status [simp]:
  "decode_validator_status (fst (encode_validator_status v)) (snd (encode_validator_status v)) = Some v"
  by (cases v) (simp_all add: decode_validator_status_def)

lemma encode_sig_class_inj [simp]:
  "map_option encode_sig_class a = map_option encode_sig_class b \<longleftrightarrow> a = b"
proof -
  have "inj encode_sig_class"
  proof (rule injI)
    fix x y assume "encode_sig_class x = encode_sig_class y"
    then show "x = y" by (cases x; cases y) simp_all
  qed
  then show ?thesis using option.inj_map [of encode_sig_class] by (simp add: inj_eq)
qed

text \<open>What is left of an account and of a proposal.\<close>

definition plain_account :: "account \<Rightarrow> account" where
"plain_account a = a\<lparr> ac_policy_version := 0, ac_policy_hash := None,
   ac_verifier_template_id := VERIFIER_TEMPLATE_ID_EOA, ac_auth_data := [] \<rparr>"

definition sorted_votes :: "pending_proposal \<Rightarrow> pending_proposal" where
"sorted_votes p = p\<lparr> pp_votes := sort_key fst (pp_votes p) \<rparr>"

fun representable :: "proposal_effect \<Rightarrow> bool" where
"representable (PE_AddAlgorithm _) = False" |
"representable (PE_AddSlashingVerifier _) = False" |
"representable (PE_AddHash _) = False" |
"representable (PE_AddAuthTemplate _) = False" |
"representable _ = True"

lemma restore_account_into: "restore_account (account_into_record a) = Ok (plain_account a)"
proof -
  have "map_r restore_key (map (\<lambda>k. \<lparr> kc_alg_id = alg_as_u16 (ke_alg_id k), kc_pk_bytes = ke_pk_bytes k,
     kc_key_version = ke_key_version k, kc_valid_from_height = ke_valid_from_height k,
     kc_status = encode_key_status (ke_status k), kc_allowed_tx_types = ke_allowed_tx_types k \<rparr>) (ac_keys a)) = Ok (map id (ac_keys a))"
    by (rule map_r_map_Ok) (simp add: restore_key_def)
  then show ?thesis by (simp add: restore_account_def account_into_record_def plain_account_def)
qed

lemma restore_attestation_into: "restore_attestation (attestation_into_record a) = Ok a"
  by (cases "at_revocation a") (simp_all add: restore_attestation_def attestation_into_record_def)

lemma restore_receipt_into: "restore_receipt (receipt_into_record r) = Ok r"
  by (simp add: restore_receipt_def receipt_into_record_def)

lemma restore_validator_into: "restore_validator (validator_into_record v) = Ok v"
  by (simp add: restore_validator_def validator_into_record_def case_prod_beta)

lemma restore_effect_into:
  "restore_effect (effect_into_record e)
   = (if representable e then Ok e else Err (invalid_value ''unknown pending_proposal effect_type''))"
  by (cases e) (auto simp: restore_effect_def effect_code_def split: option.splits)

lemma hcollect_distinct: "distinct (map fst ps) \<Longrightarrow> hcollect ps = ps"
proof -
  have "distinct (map fst (qs @ ps)) \<Longrightarrow> fold (\<lambda>(k, v) m. hput k v m) ps qs = qs @ ps" for qs
  proof (induction ps arbitrary: qs)
    case (Cons p ps)
    have "hput (fst p) (snd p) qs = qs @ [p]"
      using Cons.prems by (induction qs) (auto simp: hput_def)
    then show ?case using Cons.IH [of "qs @ [p]"] Cons.prems by (simp add: case_prod_beta)
  qed simp
  from this [of "[]"] show "distinct (map fst ps) \<Longrightarrow> hcollect ps = ps" by (simp add: hcollect_def)
qed

lemma restore_proposal_into:
  assumes "hwf (pp_votes p)"
  shows "restore_proposal (proposal_into_record p)
    = (if representable (pp_effect p) then Ok (sorted_votes p) else Err (invalid_value ''unknown pending_proposal effect_type''))"
proof -
  have "distinct (map fst (sort_key fst (pp_votes p)))" using assms by (simp add: hwf_def distinct_map)
  then have "hcollect (sort_key fst (pp_votes p)) = sort_key fst (pp_votes p)" by (rule hcollect_distinct)
  then show ?thesis by (simp add: restore_proposal_def proposal_into_record_def restore_effect_into sorted_votes_def)
qed

definition baseline :: "alg_entry \<Rightarrow> bool" where
"baseline e = (case expected_entry (alg_as_u16 (ae_alg_id e)) of
   None \<Rightarrow> False
 | Some b \<Rightarrow> e = b\<lparr> ae_lifecycle := ae_lifecycle e, ae_min_fee := ae_min_fee e \<rparr>)"

lemma restore_alg_into: "baseline e \<Longrightarrow> restore_alg_entry (alg_into_record e) = Ok e"
proof -
  assume "baseline e"
  then obtain b where b: "expected_entry (alg_as_u16 (ae_alg_id e)) = Some b"
    and e: "e = b\<lparr> ae_lifecycle := ae_lifecycle e, ae_min_fee := ae_min_fee e \<rparr>"
    by (auto simp: baseline_def split: option.splits)
  have "ae_spec_ref e = ae_spec_ref b" "ae_pk_size e = ae_pk_size b" "ae_sig_size e = ae_sig_size b"
    "ae_sig_class e = ae_sig_class b" "ae_benchmark_verify_per_sec e = ae_benchmark_verify_per_sec b"
    by (subst e, simp)+
  then show ?thesis using b e [symmetric] by (simp add: restore_alg_entry_def alg_into_record_def)
qed

section \<open>Whole tables\<close>

text \<open>Putting the values of a keyed table into an empty one, in any order, rebuilds the table.\<close>

definition put_all :: "('v \<Rightarrow> 'k) \<Rightarrow> 'v list \<Rightarrow> ('k, 'v) hmap \<Rightarrow> ('k, 'v) hmap" where
"put_all key vs m = fold (\<lambda>v. hput (key v) v) vs m"

lemma find_Some_in: "List.find P xs = Some x \<Longrightarrow> x \<in> set xs \<and> P x"
  by (induction xs) (auto split: if_splits)

lemma put_all_hget:
  "hget (put_all key vs m) k = (case List.find (\<lambda>v. key v = k) (rev vs) of Some v \<Rightarrow> Some v | None \<Rightarrow> hget m k)"
  by (induction vs rule: rev_induct) (auto simp: put_all_def map_simps)

lemma put_all_wf [simp]: "hwf m \<Longrightarrow> hwf (put_all key vs m)"
  unfolding put_all_def by (induction vs arbitrary: m) simp_all

lemma put_all_rebuilds:
  assumes "hwf m" "keyed key m" "set vs = set (hvals m)"
  shows "hget (put_all key vs []) k = hget m k"
proof (cases "List.find (\<lambda>v. key v = k) (rev vs)")
  case None
  then have "\<forall>v \<in> set vs. key v \<noteq> k" by (simp add: find_None_iff)
  moreover have "v \<in> set vs \<and> key v = k" if "hget m k = Some v" for v
    using that assms(1,3) keyedD [OF assms(2) that] hvals_iff [of m v] by blast
  ultimately have "hget m k = None" by (cases "hget m k") auto
  then show ?thesis using None by (simp add: put_all_hget)
next
  case (Some v)
  then have "v \<in> set vs" "key v = k" using find_Some_in [OF Some] by auto
  then obtain j where "hget m j = Some v" using assms by (auto simp: hvals_iff)
  then have "hget m k = Some v" using keyedD [OF assms(2), of j v] \<open>key v = k\<close> by simp
  then show ?thesis using Some by (simp add: put_all_hget)
qed

lemma put_all_vals: "set (hvals (put_all key vs m)) \<subseteq> set vs \<union> set (hvals m)"
proof (induction vs arbitrary: m)
  case (Cons v vs)
  have "set (hvals (hput (key v) v m)) \<subseteq> insert v (set (hvals m))"
    unfolding hvals_def hput_def by (induction m) auto
  then show ?case using Cons [of "hput (key v) v m"] by (auto simp: put_all_def)
qed (simp add: put_all_def)

text \<open>Putting images under a map that keeps the key.\<close>

lemma find_map_same_key:
  "(\<And>v. key (f v) = key v) \<Longrightarrow> List.find (\<lambda>v. key v = k) (map f vs) = map_option f (List.find (\<lambda>v. key v = k) vs)"
  by (induction vs) auto

lemma put_all_map_rebuilds:
  assumes "hwf m" "keyed key m" "set vs = set (hvals m)" "\<And>v. key (f v) = key v"
  shows "hget (put_all key (map f vs) []) k = map_option f (hget m k)"
proof -
  have "hget (put_all key (map f vs) []) k = map_option f (hget (put_all key vs []) k)"
    using find_map_same_key [of key f k "rev vs"] assms(4)
    by (simp add: put_all_hget rev_map split: option.split)
  then show ?thesis using put_all_rebuilds [OF assms(1-3)] by simp
qed

section \<open>The restored store, field by field\<close>

text \<open>A fold of insertions changes one table and its cache.\<close>

lemma fold_inserts:
  "fold (insert_account X) as s = s\<lparr> st_accounts := put_all ac_address as (st_accounts s),
     st_account_leaf_hashes := fold (\<lambda>a. hput (ac_address a) (compute_account_leaf_hash X a)) as (st_account_leaf_hashes s) \<rparr>"
  "fold (insert_attestation X) ats s = s\<lparr> st_attestations := put_all at_attestation_id ats (st_attestations s),
     st_attestation_leaf_hashes := fold (\<lambda>a. hput (at_attestation_id a) (compute_attestation_leaf_hash X a)) ats
       (st_attestation_leaf_hashes s) \<rparr>"
  "fold (insert_governance_receipt X) rs s = s\<lparr> st_governance_receipts := put_all gr_proposal_id rs (st_governance_receipts s),
     st_receipt_leaf_hashes := fold (\<lambda>r. hput (gr_proposal_id r) (compute_receipt_leaf_hash X r)) rs (st_receipt_leaf_hashes s) \<rparr>"
  "fold (insert_alg_entry X) es s = s\<lparr> st_alg_registry := put_all (\<lambda>e. alg_as_u16 (ae_alg_id e)) es (st_alg_registry s),
     st_alg_leaf_hashes := fold (\<lambda>e. hput (alg_as_u16 (ae_alg_id e)) (compute_alg_leaf_hash X e)) es (st_alg_leaf_hashes s) \<rparr>"
  "fold (insert_validator X) vs s = s\<lparr> st_validators := put_all vr_operator vs (st_validators s),
     st_validator_leaf_hashes := fold (\<lambda>v. hput (vr_operator v) (compute_validator_leaf_hash X v)) vs (st_validator_leaf_hashes s) \<rparr>"
  "fold (insert_pending_proposal X) ps s = s\<lparr> st_pending_proposals := put_all pp_proposal_id ps (st_pending_proposals s),
     st_proposal_leaf_hashes := fold (\<lambda>p. hput (pp_proposal_id p) (compute_proposal_leaf_hash X p)) ps (st_proposal_leaf_hashes s) \<rparr>"
  "fold (insert_pending_upgrade X) us s = s\<lparr> st_pending_upgrades := put_all pu_proposal_id us (st_pending_upgrades s),
     st_upgrade_leaf_hashes := fold (\<lambda>u. hput (pu_proposal_id u) (compute_upgrade_leaf_hash X u)) us (st_upgrade_leaf_hashes s) \<rparr>"
  by ((induction as arbitrary: s; simp add: insert_account_def put_all_def),
      (induction ats arbitrary: s; simp add: insert_attestation_def put_all_def),
      (induction rs arbitrary: s; simp add: insert_governance_receipt_def put_all_def),
      (induction es arbitrary: s; simp add: insert_alg_entry_def put_all_def Let_def),
      (induction vs arbitrary: s; simp add: insert_validator_def put_all_def),
      (induction ps arbitrary: s; simp add: insert_pending_proposal_def put_all_def),
      (induction us arbitrary: s; simp add: insert_pending_upgrade_def put_all_def))

lemma restore_proposals_map:
  "restore_proposals X rs s = bind_r (map_r restore_proposal rs) (\<lambda>ps. Ok (fold (insert_pending_proposal X) ps s))"
proof (induction rs arbitrary: s)
  case (Cons r rs)
  then show ?case by (cases "restore_proposal r"; cases "map_r restore_proposal rs") simp_all
qed simp

text \<open>The store that \<open>record_into_state\<close> builds from the restored entries.\<close>

definition rebuilt ::
    "xof \<Rightarrow> state_snapshot_record \<Rightarrow> bytes \<Rightarrow> alg_entry list \<Rightarrow> account list \<Rightarrow> attestation list \<Rightarrow> governance_receipt list
     \<Rightarrow> validator_record list \<Rightarrow> pending_proposal list \<Rightarrow> state_store" where
"rebuilt X r cid algs accs ats recs vals props =
   fold (insert_pending_upgrade X) (map restore_upgrade (sn_pending_upgrades r))
     (fold (insert_pending_proposal X) props
       ((if sn_fee_market_block_gas_limit r > 0 then restore_fee_market X (restored_fee_market r) else id)
         (fold (insert_validator X) vals
           (from_snapshot_full_with_proofs X accs ats [] recs algs (sn_block_height r) cid))))"

lemma record_into_state_Ok:
  "record_into_state X r cid = Ok t \<longleftrightarrow>
   (\<exists>algs accs ats recs vals props. validate_registry_snapshot (sn_alg_registry r) = Ok algs
     \<and> map_r restore_account (sn_accounts r) = Ok accs \<and> map_r restore_attestation (sn_attestations r) = Ok ats
     \<and> map_r restore_receipt (sn_governance_receipts r) = Ok recs \<and> map_r restore_validator (sn_validators r) = Ok vals
     \<and> map_r restore_proposal (sn_pending_proposals r) = Ok props \<and> t = rebuilt X r cid algs accs ats recs vals props)"
  by (auto simp: record_into_state_def Let_def result_simps restore_proposals_map rebuilt_def)

lemma coherent_folds:
  assumes "coherent X s"
  shows "coherent X (fold (insert_account X) as s)" "coherent X (fold (insert_attestation X) ats s)"
    "coherent X (fold (insert_governance_receipt X) rs s)" "coherent X (fold (insert_alg_entry X) es s)"
    "coherent X (fold (insert_validator X) vs s)" "coherent X (fold (insert_pending_proposal X) ps s)"
    "coherent X (fold (insert_pending_upgrade X) us s)"
  using assms
  by (auto intro: fold_invariant' [where P = "coherent X"] coherent_insert_account coherent_insert_attestation
      coherent_insert_receipt coherent_insert_alg_entry coherent_insert_validator coherent_insert_proposal
      coherent_insert_upgrade)

lemma coherent_from_snapshot: "coherent X (from_snapshot_full_with_proofs X accs ats [] recs algs h cid)"
proof -
  let ?s4 = "fold (insert_governance_receipt X) recs (fold (insert_attestation X) ats (fold (insert_account X) accs (store_new X)))"
  have "coherent X ?s4" by (intro coherent_folds coherent_store_new)
  then have "coherent X (?s4\<lparr> st_alg_registry := [], st_alg_leaf_hashes := [] \<rparr>)" by (simp add: coherent_def)
  from coherent_folds(4) [OF this, of algs] show ?thesis
    by (simp add: from_snapshot_full_with_proofs_def Let_def coherent_def)
qed

lemma coherent_rebuilt: "coherent X (rebuilt X r cid algs accs ats recs vals props)"
proof -
  note v = coherent_folds(5) [OF coherent_from_snapshot]
  show ?thesis
    unfolding rebuilt_def
    by (cases "sn_fee_market_block_gas_limit r > 0")
      (simp_all add: coherent_folds(6,7) coherent_restore_fee_market [OF v] v)
qed

lemma rebuilt_fields:
  fixes X r cid algs accs ats recs vals props
  defines "t \<equiv> rebuilt X r cid algs accs ats recs vals props"
  shows "st_accounts t = put_all ac_address accs []" "st_attestations t = put_all at_attestation_id ats []"
    "st_governance_receipts t = put_all gr_proposal_id recs []"
    "st_alg_registry t = put_all (\<lambda>e. alg_as_u16 (ae_alg_id e)) algs []"
    "st_validators t = put_all vr_operator vals []" "st_pending_proposals t = put_all pp_proposal_id props []"
    "st_pending_upgrades t = put_all pu_proposal_id (map restore_upgrade (sn_pending_upgrades r)) []"
    "st_block_height t = sn_block_height r" "st_chain_id t = cid"
    "st_fee_market t = (if sn_fee_market_block_gas_limit r > 0 then restored_fee_market r else fee_market_default)"
    "st_proof_anchors t = []" "st_consensus_key_rotations t = []" "st_peer_id_bindings t = []"
    "st_storage_fund t = storage_fund_default" "st_recent_slashes t = []"
    "st_archival_records t = []" "st_archival_keys t = []"
    "st_slashing_registry t = st_slashing_registry (store_new X)" "st_hash_registry t = st_hash_registry (store_new X)"
  unfolding t_def
  by (simp_all add: rebuilt_def fold_inserts restore_fee_market_def from_snapshot_full_with_proofs_def Let_def store_new_def)

section \<open>Taking and restoring a snapshot\<close>

lemma entity_leaves_cong:
  assumes "hwf es" "hwf es'" "\<And>k. map_option (f k) (hget es k) = map_option (f k) (hget es' k)"
  shows "entity_leaves X cat enc f es = entity_leaves X cat enc f es'"
  unfolding entity_leaves_def category_leaves_def
  by (rule arg_cong [where f = "map _"], rule sort_key_fst_unique)
     (simp_all add: assms hget_map_pairs hwf_map_pairs)

lemma leaf_sorted_votes: "compute_proposal_leaf_hash X (sorted_votes p) = compute_proposal_leaf_hash X p"
proof -
  have "sort_key fst (sort_key fst (pp_votes p)) = sort_key fst (pp_votes p)" by (rule properties_for_sort_key) simp_all
  then show ?thesis by (simp add: compute_proposal_leaf_hash_def proposal_chunks_def sorted_votes_def Let_def)
qed

text \<open>
  A state that its record describes completely: nothing in the tables without a field, a fee market at its initial
  values but for the three recorded ones, plain accounts, and pending proposals whose effects have a code.
\<close>

definition recordable_market :: "fee_market_state \<Rightarrow> bool" where
"recordable_market m = (0 < fd_limit (fm_compute m) \<and> m = fee_market_default\<lparr> fm_compute := compute_default
   \<lparr> fd_base_fee := fd_base_fee (fm_compute m), fd_limit := fd_limit (fm_compute m) \<rparr>, fm_burn_rate_bps := fm_burn_rate_bps m \<rparr>)"

definition unrecorded_initial :: "xof \<Rightarrow> state_store \<Rightarrow> bool" where
"unrecorded_initial X s = (st_proof_anchors s = [] \<and> st_consensus_key_rotations s = [] \<and> st_peer_id_bindings s = []
   \<and> st_storage_fund s = storage_fund_default \<and> st_recent_slashes s = [] \<and> st_archival_records s = [] \<and> st_archival_keys s = []
   \<and> st_slashing_registry s = st_slashing_registry (store_new X) \<and> st_hash_registry s = st_hash_registry (store_new X))"

definition recordable :: "xof \<Rightarrow> state_store \<Rightarrow> bool" where
"recordable X s = (unrecorded_initial X s \<and> recordable_market (st_fee_market s)
   \<and> keyed gr_proposal_id (st_governance_receipts s) \<and> keyed (\<lambda>e. alg_as_u16 (ae_alg_id e)) (st_alg_registry s)
   \<and> length (st_alg_registry s) = length phase1_registry \<and> list_all baseline (hvals (st_alg_registry s))
   \<and> list_all (\<lambda>a. plain_account a = a) (hvals (st_accounts s))
   \<and> list_all (\<lambda>p. representable (pp_effect p) \<and> hwf (pp_votes p)) (hvals (st_pending_proposals s)))"

text \<open>Equality of stores as functions of their keys; proposals up to the order of their votes.\<close>

definition same_tables :: "state_store \<Rightarrow> state_store \<Rightarrow> bool" where
"same_tables s t = (st_block_height t = st_block_height s \<and> hget (st_accounts t) = hget (st_accounts s)
   \<and> hget (st_attestations t) = hget (st_attestations s) \<and> hget (st_governance_receipts t) = hget (st_governance_receipts s)
   \<and> hget (st_alg_registry t) = hget (st_alg_registry s) \<and> hget (st_validators t) = hget (st_validators s)
   \<and> hget (st_pending_proposals t) = map_option sorted_votes \<circ> hget (st_pending_proposals s)
   \<and> hget (st_pending_upgrades t) = hget (st_pending_upgrades s) \<and> st_fee_market t = st_fee_market s)"

lemma in_order_sets [simp]:
  "set (accounts_in_order s) = set (hvals (st_accounts s))"
  "set (attestations_in_order s) = set (hvals (st_attestations s))"
  "set (governance_receipts_in_order s) = set (hvals (st_governance_receipts s))"
  "set (alg_entries_in_order s) = set (hvals (st_alg_registry s))"
  "set (validators_in_order s) = set (hvals (st_validators s))"
  "set (pending_proposals_in_order s) = set (hvals (st_pending_proposals s))"
  "set (pending_upgrades_in_order s) = set (hvals (st_pending_upgrades s))"
  by (simp_all add: accounts_in_order_def attestations_in_order_def governance_receipts_in_order_def
      alg_entries_in_order_def validators_in_order_def pending_proposals_in_order_def pending_upgrades_in_order_def)

lemma restore_entries:
  assumes "recordable X s"
  shows "validate_registry_snapshot (map alg_into_record (alg_entries_in_order s)) = Ok (alg_entries_in_order s)"
    and "map_r restore_account (map account_into_record (accounts_in_order s)) = Ok (accounts_in_order s)"
    and "map_r restore_attestation (map attestation_into_record (attestations_in_order s)) = Ok (attestations_in_order s)"
    and "map_r restore_receipt (map receipt_into_record (governance_receipts_in_order s)) = Ok (governance_receipts_in_order s)"
    and "map_r restore_validator (map validator_into_record (validators_in_order s)) = Ok (validators_in_order s)"
    and "map_r restore_proposal (map proposal_into_record (pending_proposals_in_order s))
      = Ok (map sorted_votes (pending_proposals_in_order s))"
proof -
  have "length (alg_entries_in_order s) = length phase1_registry"
    using assms by (simp add: alg_entries_in_order_def recordable_def hvals_def)
  moreover have "map_r restore_alg_entry (map alg_into_record (alg_entries_in_order s)) = Ok (map id (alg_entries_in_order s))"
    using assms by (intro map_r_map_Ok) (simp add: recordable_def list_all_iff restore_alg_into)
  ultimately show "validate_registry_snapshot (map alg_into_record (alg_entries_in_order s)) = Ok (alg_entries_in_order s)"
    by (simp add: validate_registry_snapshot_def)
  have "map_r restore_account (map account_into_record (accounts_in_order s)) = Ok (map id (accounts_in_order s))"
    using assms by (intro map_r_map_Ok) (simp add: recordable_def list_all_iff restore_account_into)
  then show "map_r restore_account (map account_into_record (accounts_in_order s)) = Ok (accounts_in_order s)" by simp
  show "map_r restore_proposal (map proposal_into_record (pending_proposals_in_order s))
      = Ok (map sorted_votes (pending_proposals_in_order s))"
    using assms by (intro map_r_map_Ok) (simp add: recordable_def list_all_iff restore_proposal_into)
qed (use map_r_map_Ok [of _ restore_attestation attestation_into_record id] map_r_map_Ok [of _ restore_receipt receipt_into_record id]
    map_r_map_Ok [of _ restore_validator validator_into_record id]
    in \<open>simp_all add: restore_attestation_into restore_receipt_into restore_validator_into\<close>)

lemma snapshot_restores:
  assumes wf: "store_wf X s" and rec: "recordable X s"
  shows "\<exists>t. record_into_state X (state_into_record s) cid = Ok t \<and> same_tables s t \<and> unrecorded_initial X t
    \<and> coherent X t \<and> st_chain_id t = cid"
proof -
  let ?r = "state_into_record s"
  let ?t = "rebuilt X ?r cid (alg_entries_in_order s) (accounts_in_order s) (attestations_in_order s)
    (governance_receipts_in_order s) (validators_in_order s) (map sorted_votes (pending_proposals_in_order s))"
  have ok: "record_into_state X ?r cid = Ok ?t"
    unfolding record_into_state_Ok using restore_entries [OF rec] by (simp add: state_into_record_def)
  have tables: "hwf (st_accounts s)" "hwf (st_attestations s)" "hwf (st_governance_receipts s)" "hwf (st_alg_registry s)"
    "hwf (st_validators s)" "hwf (st_pending_proposals s)" "hwf (st_pending_upgrades s)"
    using wf by (simp_all add: store_wf_def coherent_def coh_def)
  have ups: "map restore_upgrade (sn_pending_upgrades ?r) = pending_upgrades_in_order s"
    by (simp add: state_into_record_def restore_upgrade_def comp_def map_idI)
  have "restored_fee_market ?r = st_fee_market s" "sn_fee_market_block_gas_limit ?r > 0"
    using rec unfolding recordable_def recordable_market_def
    by (simp_all add: restored_fee_market_def state_into_record_def fee_market_default_def)
  then have "same_tables s ?t"
    using rec wf tables unfolding same_tables_def rebuilt_fields ups
    by (auto simp: fun_eq_iff put_all_rebuilds put_all_map_rebuilds sorted_votes_def state_into_record_def
        recordable_def store_wf_def)
  moreover have "unrecorded_initial X ?t" by (simp add: unrecorded_initial_def rebuilt_fields)
  ultimately show ?thesis using ok coherent_rebuilt rebuilt_fields(9) by blast
qed

lemma same_tables_root:
  assumes "coherent X s" "coherent X t" "same_tables s t" "unrecorded_initial X s" "unrecorded_initial X t"
  shows "state_root X t = state_root X s"
proof -
  have wf: "hwf (st_accounts u)" "hwf (st_attestations u)" "hwf (st_governance_receipts u)" "hwf (st_alg_registry u)"
    "hwf (st_validators u)" "hwf (st_pending_proposals u)" "hwf (st_pending_upgrades u)" if "coherent X u" for u
    using that by (simp_all add: coherent_def coh_def)
  note leaves = entity_leaves_cong [OF wf(1) [OF assms(2)] wf(1) [OF assms(1)]] entity_leaves_cong [OF wf(2) [OF assms(2)] wf(2) [OF assms(1)]]
    entity_leaves_cong [OF wf(3) [OF assms(2)] wf(3) [OF assms(1)]] entity_leaves_cong [OF wf(4) [OF assms(2)] wf(4) [OF assms(1)]]
    entity_leaves_cong [OF wf(5) [OF assms(2)] wf(5) [OF assms(1)]] entity_leaves_cong [OF wf(6) [OF assms(2)] wf(6) [OF assms(1)]]
    entity_leaves_cong [OF wf(7) [OF assms(2)] wf(7) [OF assms(1)]]
  have "reference_root X t = reference_root X s"
    using assms(3-5) unfolding reference_root_def same_tables_def unrecorded_initial_def
    by (intro arg_cong2 [where f = "binary_merkle_root X"] arg_cong2 [where f = "(@)"] leaves)
       (simp_all add: option.map_comp comp_def leaf_sorted_votes)
  then show ?thesis using coherent_root [OF assms(1)] coherent_root [OF assms(2)] by simp
qed

lemma record_into_state_initial:
  assumes "record_into_state X r cid = Ok t"
  shows "unrecorded_initial X t \<and> fd_excess (fm_compute (st_fee_market t)) = 0"
  using assms unfolding record_into_state_Ok
  by (auto simp: unrecorded_initial_def rebuilt_fields restored_fee_market_def fee_market_default_def compute_default_def Let_def)

section \<open>Records of blocks\<close>

record commit_sig_record =
  cc_validator_address :: bytes
  cc_sig_alg_id :: nat
  cc_signature :: bytes
  cc_round :: nat

record block_header_record =
  hr_header_version :: nat
  hr_height :: nat
  hr_prev_hash :: hash32
  hr_state_root :: hash32
  hr_tx_root :: hash32
  hr_timestamp :: nat
  hr_proposer :: bytes
  hr_commit_signatures :: "commit_sig_record list"
  hr_extension_root :: hash32

text \<open>The metadata record has the fields of the metadata; \<open>usize\<close> has 64 bits.\<close>

record stored_block_record =
  bc_header :: block_header_record
  bc_tx_hashes :: "hash32 list"
  bc_tx_bodies :: "bytes list"
  bc_metadata :: block_metadata

definition stored_block_into_record :: "env \<Rightarrow> stored_block \<Rightarrow> (stored_block_record, storage_error) result" where
"stored_block_into_record E stored =
   (let b = sb_block stored; h = bl_header b in
    bind_r (map_r (\<lambda>(tx_index, tx). map_err (SE_TxEncodeFailed (bm_height (sb_metadata stored)) tx_index) (encode_tx E tx))
             (enumerate 0 (sb_included_transactions stored))) (\<lambda>tx_bodies.
    Ok \<lparr> bc_header = \<lparr> hr_header_version = bh_header_version h, hr_height = bh_height h, hr_prev_hash = bh_prev_hash h,
           hr_state_root = bh_state_root h, hr_tx_root = bh_tx_root h, hr_timestamp = bh_timestamp h,
           hr_proposer = bh_proposer h,
           hr_commit_signatures = map (\<lambda>sig. \<lparr> cc_validator_address = cs_validator_address sig,
             cc_sig_alg_id = alg_as_u16 (cs_sig_alg_id sig), cc_signature = cs_signature sig, cc_round = cs_round sig \<rparr>)
             (bl_commit_signatures b),
           hr_extension_root = bh_extension_root h \<rparr>,
         bc_tx_hashes = bl_tx_hashes b, bc_tx_bodies = tx_bodies, bc_metadata = sb_metadata stored \<rparr>))"

definition restore_tx :: "env \<Rightarrow> nat \<Rightarrow> hash32 list \<Rightarrow> nat \<times> bytes \<Rightarrow> (transaction, storage_error) result" where
"restore_tx E expected_height tx_hashes = (\<lambda>(tx_index, raw).
   let expected_hash = tx_hashes ! tx_index; actual_hash = compute_tx_hash E raw in
   if actual_hash \<noteq> expected_hash then Err (SE_TxBodyHashMismatch expected_height tx_index expected_hash actual_hash)
   else map_err (SE_TxDecodeFailed expected_height tx_index) (decode_tx E raw))"

definition restore_commit_sig :: "commit_sig_record \<Rightarrow> (commit_sig, storage_error) result" where
"restore_commit_sig sig =
   bind_r (restore_alg_id (cc_sig_alg_id sig)) (\<lambda>alg.
   Ok \<lparr> cs_validator_address = cc_validator_address sig, cs_sig_alg_id = alg, cs_round = cc_round sig,
        cs_signature = cc_signature sig \<rparr>)"

definition record_into_stored_block :: "env \<Rightarrow> stored_block_record \<Rightarrow> nat \<Rightarrow> (stored_block, storage_error) result" where
"record_into_stored_block E r expected_height =
   (if length (bc_tx_hashes r) \<noteq> length (bc_tx_bodies r)
    then Err (invalid_value ''tx_hashes and tx_bodies length mismatch'')
    else bind_r (map_r (restore_tx E expected_height (bc_tx_hashes r)) (enumerate 0 (bc_tx_bodies r))) (\<lambda>txs.
    bind_r (map_r restore_commit_sig (hr_commit_signatures (bc_header r))) (\<lambda>sigs.
    let h = bc_header r in
    Ok \<lparr> sb_block = \<lparr> bl_header = \<lparr> bh_header_version = hr_header_version h, bh_height = hr_height h,
           bh_prev_hash = hr_prev_hash h, bh_state_root = hr_state_root h, bh_tx_root = hr_tx_root h,
           bh_timestamp = hr_timestamp h, bh_proposer = hr_proposer h, bh_extension_root = hr_extension_root h \<rparr>,
           bl_tx_hashes = bc_tx_hashes r, bl_commit_signatures = sigs \<rparr>,
         sb_metadata = bc_metadata r, sb_included_transactions = txs \<rparr>)))"

text \<open>A block whose transactions encode to bytes that carry the listed hashes and decode to the transactions.\<close>

definition body_ok :: "env \<Rightarrow> hash32 \<times> transaction \<Rightarrow> bool" where
"body_ok E = (\<lambda>(h, tx). \<exists>raw. encode_tx E tx = Ok raw \<and> compute_tx_hash E raw = h \<and> decode_tx E raw = Ok tx)"

definition storable :: "env \<Rightarrow> stored_block \<Rightarrow> bool" where
"storable E b = list_all2 (\<lambda>h tx. body_ok E (h, tx)) (bl_tx_hashes (sb_block b)) (sb_included_transactions b)"

lemma bodies_round_trip:
  assumes "list_all2 (\<lambda>h tx. body_ok E (h, tx)) hs txs"
  shows "\<exists>raws. map_r (\<lambda>(i, tx). map_err (ef i) (encode_tx E tx)) (enumerate n txs) = Ok raws \<and> length raws = length hs
    \<and> (\<forall>pre. length pre = n \<longrightarrow> map_r (restore_tx E h (pre @ hs)) (enumerate n raws) = Ok txs)"
  using assms
proof (induction arbitrary: n rule: list_all2_induct)
  case (Cons x xs y ys)
  obtain raw where raw: "encode_tx E y = Ok raw" "compute_tx_hash E raw = x" "decode_tx E raw = Ok y"
    using Cons.hyps by (auto simp: body_ok_def)
  obtain raws where raws: "map_r (\<lambda>(i, tx). map_err (ef i) (encode_tx E tx)) (enumerate (Suc n) ys) = Ok raws"
    "length raws = length xs" "\<forall>pre. length pre = Suc n \<longrightarrow> map_r (restore_tx E h (pre @ xs)) (enumerate (Suc n) raws) = Ok ys"
    using Cons.IH [of "Suc n"] by blast
  have "map_r (restore_tx E h (pre @ x # xs)) (enumerate n (raw # raws)) = Ok (y # ys)" if "length pre = n" for pre
  proof -
    have "length (pre @ [x]) = Suc n" using that by simp
    then have "map_r (restore_tx E h ((pre @ [x]) @ xs)) (enumerate (Suc n) raws) = Ok ys" using raws(3) by blast
    then show ?thesis using raw that by (simp add: restore_tx_def nth_append)
  qed
  then show ?case using raw raws by (intro exI [of _ "raw # raws"]) simp
qed simp

lemma stored_block_restored:
  assumes "storable E b"
  shows "\<exists>r. stored_block_into_record E b = Ok r \<and> record_into_stored_block E r h = Ok b
    \<and> hr_height (bc_header r) = bh_height (bl_header (sb_block b)) \<and> bc_metadata r = sb_metadata b
    \<and> hr_prev_hash (bc_header r) = bh_prev_hash (bl_header (sb_block b))"
proof -
  obtain raws where raws: "map_r (\<lambda>(i, tx). map_err (SE_TxEncodeFailed (bm_height (sb_metadata b)) i) (encode_tx E tx))
      (enumerate 0 (sb_included_transactions b)) = Ok raws" "length raws = length (bl_tx_hashes (sb_block b))"
    "map_r (restore_tx E h (bl_tx_hashes (sb_block b))) (enumerate 0 raws) = Ok (sb_included_transactions b)"
    using bodies_round_trip [OF assms [unfolded storable_def], of "SE_TxEncodeFailed (bm_height (sb_metadata b))" 0 h] by auto
  have sigs: "map_r restore_commit_sig (map (\<lambda>sig. \<lparr> cc_validator_address = cs_validator_address sig,
      cc_sig_alg_id = alg_as_u16 (cs_sig_alg_id sig), cc_signature = cs_signature sig, cc_round = cs_round sig \<rparr>) ss)
      = Ok (map id ss)" for ss
    by (rule map_r_map_Ok) (simp add: restore_commit_sig_def)
  show ?thesis
    using raws sigs by (simp add: stored_block_into_record_def record_into_stored_block_def Let_def)
qed

section \<open>Properties\<close>

text \<open>
  C14: A snapshot is complete for the states it can describe.  Such a state (\<open>recordable\<close>) has no proof anchors, pending key rotations, peer
  bindings, recent slashes or archival data; the initial storage fund, verifier registry and hash registry; a fee market that is the initial one, with excess zero, but for its
  base fee, limit and burn rate; accounts without policy, template or authentication data; the initial algorithms up to lifecycle and minimum fee; and no pending proposal that adds an
  algorithm, a verifier, a hash function or a template.  Taking the record of a well-formed one and restoring it succeeds and gives a state with the same height, accounts, attestations, receipts,
  algorithms, validators, upgrades and fee market, the same proposals up to the order of their
  votes, and the same state root, so the root check of a checkpoint passes.
\<close>

theorem snapshot_round_trip:
  assumes "store_wf X s" "recordable X s"
  shows "\<exists>t. record_into_state X (state_into_record s) cid = Ok t \<and> same_tables s t \<and> st_chain_id t = cid
    \<and> state_root X t = state_root X s"
proof -
  obtain t where t: "record_into_state X (state_into_record s) cid = Ok t" "same_tables s t" "unrecorded_initial X t"
    "coherent X t" "st_chain_id t = cid"
    using snapshot_restores [OF assms] by blast
  have "state_root X t = state_root X s"
    using same_tables_root [OF _ t(4,2) _ t(3)] assms by (simp add: store_wf_def recordable_def)
  then show ?thesis using t by blast
qed

definition snapshot_state :: state_store where
"snapshot_state = insert_account demo_xof (plain_account sample_account) (store_new demo_xof)"

lemma snapshot_state_ok: "store_wf demo_xof snapshot_state" "recordable demo_xof snapshot_state"
proof -
  show "store_wf demo_xof snapshot_state"
    using coherent_insert_account [OF coherent_store_new, of demo_xof "plain_account sample_account"] store_wf_new [of demo_xof]
    by (simp add: snapshot_state_def store_wf_def insert_account_def keyed_hput)
  show "recordable demo_xof snapshot_state"
    by (simp add: recordable_def unrecorded_initial_def snapshot_state_def insert_account_def store_new_def
        recordable_market_def fee_market_default_def compute_default_def hcollect_def phase1_registry_def
        alg_entry_row_def hput_def hvals_def keyed_def hget_def baseline_def expected_entry_def plain_account_def
        DEFAULT_BLOCK_GAS_LIMIT_def)
qed

theorem snapshot_round_trip_witness:
  "\<exists>t. record_into_state demo_xof (state_into_record snapshot_state) [7] = Ok t \<and> state_root demo_xof t = state_root demo_xof snapshot_state"
  using snapshot_round_trip [OF snapshot_state_ok, of "[7]"] by blast

text \<open>
  C26: What a snapshot forgets.  Whatever state is restored from the record of another, its fee
  excess is zero, its storage fund is the initial one, and it has no proof anchors, no pending key rotations,
  no peer bindings, no recent slashes and no archival data; accounts have lost their policies and templates.
  A state with a pending proposal that adds an algorithm, a verifier, a hash function or a template cannot be restored at all.
\<close>

theorem snapshot_forgets:
  assumes "record_into_state X (state_into_record s) cid = Ok t"
  shows "unrecorded_initial X t \<and> fd_excess (fm_compute (st_fee_market t)) = 0
    \<and> (\<forall>a \<in> set (hvals (st_accounts t)). plain_account a = a)
    \<and> (\<forall>p \<in> set (hvals (st_pending_proposals s)). representable (pp_effect p))"
proof -
  obtain algs accs ats recs vals props where accs: "map_r restore_account (map account_into_record (accounts_in_order s)) = Ok accs"
    and props: "map_r restore_proposal (map proposal_into_record (pending_proposals_in_order s)) = Ok props"
    and t: "t = rebuilt X (state_into_record s) cid algs accs ats recs vals props"
    using assms unfolding record_into_state_Ok by (auto simp: state_into_record_def)
  have "map_r restore_account (map account_into_record (accounts_in_order s)) = Ok (map plain_account (accounts_in_order s))"
    by (rule map_r_map_Ok) (rule restore_account_into)
  then have "\<forall>a \<in> set accs. plain_account a = a" using accs by (auto simp: plain_account_def)
  then have "\<forall>a \<in> set (hvals (st_accounts t)). plain_account a = a"
    using put_all_vals [of ac_address accs "[]"] by (auto simp: t rebuilt_fields hvals_def)
  moreover have "representable (pp_effect p)" if "p \<in> set (hvals (st_pending_proposals s))" for p
  proof -
    have "proposal_into_record p \<in> set (map proposal_into_record (pending_proposals_in_order s))" using that by simp
    then obtain q where "restore_proposal (proposal_into_record p) = Ok q" using map_r_Ok_elem [OF props] by blast
    then have "is_ok (restore_effect (effect_into_record (pp_effect p)))"
      by (auto simp: restore_proposal_def proposal_into_record_def result_simps)
    then show ?thesis by (simp add: restore_effect_into split: if_splits)
  qed
  ultimately show ?thesis using record_into_state_initial [OF assms] by blast
qed

text \<open>The witness: a state with accumulated fee excess loses it, so its checkpoint is of another state.\<close>

definition busy_state :: state_store where
"busy_state = snapshot_state\<lparr> st_fee_market := (st_fee_market snapshot_state)
   \<lparr> fm_compute := (fm_compute (st_fee_market snapshot_state))\<lparr> fd_excess := 5 \<rparr> \<rparr> \<rparr>"

theorem snapshot_forgets_witness:
  "fd_excess (fm_compute (st_fee_market busy_state)) = 5
   \<and> (\<exists>t. record_into_state demo_xof (state_into_record busy_state) [7] = Ok t \<and> fd_excess (fm_compute (st_fee_market t)) = 0)"
proof -
  have same: "state_into_record busy_state = state_into_record snapshot_state"
    by (simp add: state_into_record_def busy_state_def accounts_in_order_def attestations_in_order_def
        governance_receipts_in_order_def alg_entries_in_order_def validators_in_order_def
        pending_proposals_in_order_def pending_upgrades_in_order_def)
  obtain t where t: "record_into_state demo_xof (state_into_record busy_state) [7] = Ok t"
    using snapshot_restores [OF snapshot_state_ok, of "[7]"] same by auto
  have "fd_excess (fm_compute (st_fee_market t)) = 0" using snapshot_forgets [OF t] by simp
  then show ?thesis using t by (auto simp: busy_state_def)
qed

end
