(* ===== verification/Disk_Store.thy ===== *)
theory Disk_Store
  imports Snapshot "HOL-Library.Char_ord"
begin

text \<open>
  The disk-backed chain store (\<open>pqc-consensus/src/storage.rs\<close>): the files of a store, the staged writes of
  a block and of a checkpoint, opening a directory, recovery, and snapshots from other nodes.

  The file system is modelled by the directories of a store.  Every creation, write and rename may
  fail: a disk may carry the number of operations that still succeed.  A failure leaves the
  disk as it is at that moment, which is also what the death of the process leaves.  Or the disk carries the number of an operation whose last bytes are
  lost without an error, which happens when a buffer is flushed as it is dropped.  Nothing is synced, so the loss of power is outside
  the model.  The serialisation crate is a parameter.

  When an append is interrupted at any operation, the next opening finds the chain without the block or refuses; after a complete append it finds the
  chain with the block, provided that its transactions encode to their hashes.  A lost flush, or a transaction that encodes otherwise,
  leaves a directory that never opens.
\<close>

section \<open>Files\<close>

datatype fault =
    Stops nat
  | Loses nat nat

record disk =
  dk_blocks :: "(string, bytes) hmap"
  dk_hashes :: "(string, bytes) hmap"
  dk_staging :: "(string, bytes) hmap"
  dk_checkpoint :: "bytes option"
  dk_tip :: "bytes option"
  dk_fault :: "fault option"

definition STATE_FORMAT_VERSION :: nat where
"STATE_FORMAT_VERSION = 3"

record trusted_checkpoint_record =
  ck_version :: nat
  ck_height :: nat
  ck_tip_hash :: hash32
  ck_state_root :: hash32
  ck_state :: state_snapshot_record

record serde =
  sd_write_block :: "stored_block_record \<Rightarrow> bytes"
  sd_read_block :: "bytes \<Rightarrow> stored_block_record option"
  sd_write_index :: "nat \<Rightarrow> bytes"
  sd_read_index :: "bytes \<Rightarrow> nat option"
  sd_write_tip :: "nat \<times> hash32 \<Rightarrow> bytes"
  sd_read_tip :: "bytes \<Rightarrow> (nat \<times> hash32) option"
  sd_write_checkpoint :: "trusted_checkpoint_record \<Rightarrow> bytes"
  sd_read_checkpoint :: "bytes \<Rightarrow> trusted_checkpoint_record option"

text \<open>A 64-bit number has at most twenty decimal digits.\<close>

fun decimal :: "nat \<Rightarrow> nat \<Rightarrow> string" where
"decimal 0 x = []" |
"decimal (Suc n) x = decimal n (x div 10) @ [''0123456789'' ! (x mod 10)]"

definition format_height :: "nat \<Rightarrow> string" where
"format_height height = decimal 20 height"

definition block_file_name :: "nat \<Rightarrow> string" where
"block_file_name height = format_height height @ ''.cbor''"

definition hash_index_file_name :: "hash32 \<Rightarrow> string" where
"hash_index_file_name block_hash = hex_encode block_hash @ ''.cbor''"

datatype fs_op =
    Create string
  | Fill string bytes
  | Write_all string bytes
  | Rename_block string string
  | Rename_hash string string
  | Rename_tip string
  | Rename_checkpoint string

fun fs_step :: "fs_op \<Rightarrow> disk \<Rightarrow> disk" where
"fs_step (Create name) d = d\<lparr> dk_staging := hput name [] (dk_staging d) \<rparr>" |
"fs_step (Fill name bs) d = d\<lparr> dk_staging := hput name bs (dk_staging d) \<rparr>" |
"fs_step (Write_all name bs) d = d\<lparr> dk_staging := hput name bs (dk_staging d) \<rparr>" |
"fs_step (Rename_block from to) d = (case hget (dk_staging d) from of
     Some bs \<Rightarrow> d\<lparr> dk_staging := hdel from (dk_staging d), dk_blocks := hput to bs (dk_blocks d) \<rparr> | None \<Rightarrow> d)" |
"fs_step (Rename_hash from to) d = (case hget (dk_staging d) from of
     Some bs \<Rightarrow> d\<lparr> dk_staging := hdel from (dk_staging d), dk_hashes := hput to bs (dk_hashes d) \<rparr> | None \<Rightarrow> d)" |
"fs_step (Rename_tip from) d = (case hget (dk_staging d) from of
     Some bs \<Rightarrow> d\<lparr> dk_staging := hdel from (dk_staging d), dk_tip := Some bs \<rparr> | None \<Rightarrow> d)" |
"fs_step (Rename_checkpoint from) d = (case hget (dk_staging d) from of
     Some bs \<Rightarrow> d\<lparr> dk_staging := hdel from (dk_staging d), dk_checkpoint := Some bs \<rparr> | None \<Rightarrow> d)"

text \<open>
  \<open>write_cbor\<close> hands its buffer to the serialiser and drops it: the flush of the last bytes happens in the destructor, which swallows an
  error.  \<open>fs::write\<close> has no buffer.
\<close>

fun lossy :: "nat \<Rightarrow> fs_op \<Rightarrow> fs_op" where
"lossy n (Fill name bs) = Fill name (take n bs)" |
"lossy n p = p"

text \<open>Each operation comes with the error that a failure of it is mapped to.\<close>

fun run_ops :: "(fs_op \<times> storage_error) list \<Rightarrow> disk \<Rightarrow> disk \<times> (unit, storage_error) result" where
"run_ops [] d = (d, Ok ())" |
"run_ops ((p, e) # ops) d =
   (case dk_fault d of
      None \<Rightarrow> run_ops ops (fs_step p d)
    | Some (Stops 0) \<Rightarrow> (d, Err e)
    | Some (Stops (Suc k)) \<Rightarrow> run_ops ops ((fs_step p d)\<lparr> dk_fault := Some (Stops k) \<rparr>)
    | Some (Loses 0 n) \<Rightarrow> run_ops ops ((fs_step (lossy n p) d)\<lparr> dk_fault := None \<rparr>)
    | Some (Loses (Suc k) n) \<Rightarrow> run_ops ops ((fs_step p d)\<lparr> dk_fault := Some (Loses k n) \<rparr>))"

definition write_cbor :: "string \<Rightarrow> bytes \<Rightarrow> (fs_op \<times> storage_error) list" where
"write_cbor name bs = [(Create name, SE_Io ''create'' name), (Fill name bs, SE_Encode name)]"

definition write_raw_bytes :: "string \<Rightarrow> bytes \<Rightarrow> (fs_op \<times> storage_error) list" where
"write_raw_bytes name bs = [(Create name, SE_Io ''write'' name), (Write_all name bs, SE_Io ''write'' name)]"

definition ensure_inventory_exact ::
    "(string, bytes) hmap \<Rightarrow> string list \<Rightarrow> (string \<Rightarrow> storage_error) \<Rightarrow> (unit, storage_error) result" where
"ensure_inventory_exact dir expected mk_error =
   (let actual = map fst dir in
    if set actual = set expected then Ok ()
    else case sort (filter (\<lambda>n. n \<notin> set expected) actual) of
      extra # _ \<Rightarrow> Err (mk_error extra)
    | [] \<Rightarrow> (case sort (filter (\<lambda>n. n \<notin> set actual) expected) of missing # _ \<Rightarrow> Err (mk_error missing) | [] \<Rightarrow> Ok ()))"

section \<open>Opening a store\<close>

record disk_chain_store =
  ds_disk :: disk
  ds_chain :: chain_store
  ds_commit_policy :: "commit_quorum_policy option"
  ds_genesis_anchor :: hash32

definition check_state_format_version :: "nat \<Rightarrow> (unit, storage_error) result" where
"check_state_format_version disk_version =
   (if disk_version < STATE_FORMAT_VERSION then Err (SE_StateFormatUpgradeRequired disk_version STATE_FORMAT_VERSION)
    else if disk_version > STATE_FORMAT_VERSION then Err (SE_BinaryTooOld disk_version STATE_FORMAT_VERSION)
    else Ok ())"

definition read_snapshot_base_if_present :: "serde \<Rightarrow> disk \<Rightarrow> ((nat \<times> hash32) option, storage_error) result" where
"read_snapshot_base_if_present S d =
   (case Option.bind (dk_checkpoint d) (sd_read_checkpoint S) of
      None \<Rightarrow> Ok None
    | Some r \<Rightarrow> bind_r (check_state_format_version (ck_version r)) (\<lambda>_.
        Ok (if ck_height r = 0 then None else Some (ck_height r, ck_tip_hash r))))"

definition validate_commit_proof ::
    "xof \<Rightarrow> signature_backend \<Rightarrow> commit_quorum_policy option \<Rightarrow> block \<Rightarrow> (unit, storage_error) result" where
"validate_commit_proof X D policy b =
   (case policy of None \<Rightarrow> Ok () | Some p \<Rightarrow> map_err SE_Commit (validate_block_commit_quorum X D b p))"

definition load_tail_block ::
    "env \<Rightarrow> signature_backend \<Rightarrow> commit_quorum_policy option \<Rightarrow> stored_block_record \<Rightarrow> nat \<Rightarrow> chain_store
     \<Rightarrow> (chain_store, storage_error) result" where
"load_tail_block E D policy rcd height chain =
   bind_r (record_into_stored_block E rcd height) (\<lambda>stored.
   bind_r (validate_commit_proof (e_xof E) D policy (sb_block stored)) (\<lambda>_.
   bind_r (map_err SE_Chain (append_stored_block (e_xof E) stored chain)) (\<lambda>(c, _). Ok c)))"

fun load_blocks ::
    "env \<Rightarrow> serde \<Rightarrow> signature_backend \<Rightarrow> commit_quorum_policy option \<Rightarrow> disk \<Rightarrow> nat \<Rightarrow> nat list
     \<Rightarrow> chain_store \<times> string list \<times> string list \<Rightarrow> (chain_store \<times> string list \<times> string list, storage_error) result" where
"load_blocks E S D policy d memory_load_from [] acc = Ok acc" |
"load_blocks E S D policy d memory_load_from (height # heights) (chain, block_files, hash_files) =
   (let block_file = block_file_name height in
    bind_r (ok_or (hget (dk_blocks d) block_file) (SE_MissingBlockFile height)) (\<lambda>bytes.
    bind_r (ok_or (sd_read_block S bytes) (SE_Decode block_file)) (\<lambda>rcd.
    let block_hash = bm_block_hash (bc_metadata rcd); hash_name = hash_index_file_name block_hash in
    bind_r (ok_or (hget (dk_hashes d) hash_name) (SE_MissingHashIndex (hex_encode block_hash))) (\<lambda>index_bytes.
    bind_r (ok_or (sd_read_index S index_bytes) (SE_Decode hash_name)) (\<lambda>index_height.
    if index_height \<noteq> height then Err (SE_HashIndexMismatch (hex_encode block_hash) height index_height)
    else bind_r (if height \<ge> memory_load_from then load_tail_block E D policy rcd height chain else Ok chain) (\<lambda>chain.
    load_blocks E S D policy d memory_load_from heights (chain, block_files @ [block_file], hash_files @ [hash_name])))))))"

definition checkpoint_window :: "serde \<Rightarrow> disk \<Rightarrow> ((nat \<times> hash32) option, storage_error) result" where
"checkpoint_window S d =
   bind_r (read_snapshot_base_if_present S d) (\<lambda>window.
   case window of
     None \<Rightarrow> Ok None
   | Some (ckpt_h, ckpt_tip) \<Rightarrow>
       bind_r (or_panic (checked_add U64_MAX ckpt_h 1)) (\<lambda>next_height.
       let is_valid = (case Option.bind (hget (dk_blocks d) (block_file_name next_height)) (sd_read_block S) of
           Some r \<Rightarrow> hr_prev_hash (bc_header r) = ckpt_tip | None \<Rightarrow> False) in
       Ok (if is_valid then window else None)))"

definition open_internal ::
    "env \<Rightarrow> serde \<Rightarrow> signature_backend \<Rightarrow> disk \<Rightarrow> hash32 \<Rightarrow> commit_quorum_policy option
     \<Rightarrow> (disk_chain_store, storage_error) result" where
"open_internal E S D d anchor_prev_hash policy =
   (if dk_staging d \<noteq> [] then Err SE_IncompleteWriteDetected
    else
    bind_r (if hhas (dk_blocks d) (block_file_name 1) then Ok None else read_snapshot_base_if_present S d) (\<lambda>snapshot_base.
    bind_r (case snapshot_base of Some (h, _) \<Rightarrow> or_panic (checked_add U64_MAX h 1) | None \<Rightarrow> Ok 1) (\<lambda>start_height.
    bind_r (if snapshot_base = None then checkpoint_window S d else Ok None) (\<lambda>window.
    let (chain_anchor, base_height) = (case window of
            Some (h, tip) \<Rightarrow> (tip, h)
          | None \<Rightarrow> (case snapshot_base of Some (h, tip) \<Rightarrow> (tip, h) | None \<Rightarrow> (anchor_prev_hash, 0)));
        memory_load_from = (case window of Some (h, _) \<Rightarrow> h + 1 | None \<Rightarrow> start_height);
        chain = chain_new_with_base chain_anchor base_height;
        store = (\<lambda>c. \<lparr> ds_disk = d, ds_chain = c, ds_commit_policy = policy, ds_genesis_anchor = anchor_prev_hash \<rparr>)
    in case dk_tip d of
         None \<Rightarrow> if dk_blocks d \<noteq> [] \<or> dk_hashes d \<noteq> [] then Err SE_TipMissingWithExistingData else Ok (store chain)
       | Some tip_bytes \<Rightarrow>
           bind_r (ok_or (sd_read_tip S tip_bytes) (SE_Decode ''tip.cbor'')) (\<lambda>(tip_height, tip_hash).
           bind_r (load_blocks E S D policy d memory_load_from [start_height..<Suc tip_height] (chain, [], []))
             (\<lambda>(chain, block_files, hash_files).
           bind_r (ensure_inventory_exact (dk_blocks d) block_files SE_UnexpectedBlockFile) (\<lambda>_.
           bind_r (ensure_inventory_exact (dk_hashes d) hash_files SE_UnexpectedHashIndex) (\<lambda>_.
           if chain_height chain \<noteq> tip_height then Err (SE_TipHeightMismatch tip_height (chain_height chain))
           else if or_anchor chain \<noteq> tip_hash then Err (SE_TipHashMismatch tip_hash (or_anchor chain))
           else Ok (store chain)))))))))"

section \<open>Appending\<close>

definition persist_ops :: "serde \<Rightarrow> stored_block \<Rightarrow> stored_block_record \<Rightarrow> (fs_op \<times> storage_error) list" where
"persist_ops S stored rcd =
   (let height = bm_height (sb_metadata stored);
        block_hash = bm_block_hash (sb_metadata stored);
        block_stage = format_height height @ ''.block.tmp'';
        hash_stage = hex_encode block_hash @ ''.hash.tmp'';
        block_path = block_file_name height;
        hash_path = hash_index_file_name block_hash
    in write_cbor block_stage (sd_write_block S rcd)
       @ write_cbor hash_stage (sd_write_index S height)
       @ write_cbor ''tip.tmp'' (sd_write_tip S (height, block_hash))
       @ [(Rename_block block_stage block_path, SE_Io ''rename'' block_path),
          (Rename_hash hash_stage hash_path, SE_Io ''rename'' hash_path),
          (Rename_tip ''tip.tmp'', SE_Io ''rename'' ''tip.cbor'')])"

definition persist_stored_block :: "env \<Rightarrow> serde \<Rightarrow> stored_block \<Rightarrow> disk \<Rightarrow> disk \<times> (unit, storage_error) result" where
"persist_stored_block E S stored d =
   (case stored_block_into_record E stored of
      Ok rcd \<Rightarrow> run_ops (persist_ops S stored rcd) d
    | Err e \<Rightarrow> (d, Err e)
    | Panic \<Rightarrow> (d, Panic))"

text \<open>The part after the trial append: the block is written, and only then the chain in memory changes.\<close>

definition commit_trial ::
    "env \<Rightarrow> serde \<Rightarrow> disk_chain_store \<Rightarrow> stored_block \<Rightarrow> chain_store \<times> block_metadata
     \<Rightarrow> disk_chain_store \<times> (block_metadata, storage_error) result" where
"commit_trial E S ds stored = (\<lambda>(trial, metadata).
   case persist_stored_block E S stored (ds_disk ds) of (d, r) \<Rightarrow>
   (case r of
      Ok _ \<Rightarrow> (ds\<lparr> ds_disk := d, ds_chain := trial \<rparr>, Ok metadata)
    | Err e \<Rightarrow> (ds\<lparr> ds_disk := d \<rparr>, Err e)
    | Panic \<Rightarrow> (ds\<lparr> ds_disk := d \<rparr>, Panic)))"

definition or_unchanged ::
    "disk_chain_store \<Rightarrow> ('a, storage_error) result \<Rightarrow> ('a \<Rightarrow> disk_chain_store \<times> ('b, storage_error) result)
     \<Rightarrow> disk_chain_store \<times> ('b, storage_error) result" where
"or_unchanged ds r f = (case r of Ok x \<Rightarrow> f x | Err e \<Rightarrow> (ds, Err e) | Panic \<Rightarrow> (ds, Panic))"

definition append_block_inner ::
    "env \<Rightarrow> serde \<Rightarrow> disk_chain_store \<Rightarrow> block_execution_result \<Rightarrow> disk_chain_store \<times> (block_metadata, storage_error) result" where
"append_block_inner E S ds execution =
   or_unchanged ds (map_err SE_Chain (append_block (e_xof E) execution (ds_chain ds))) (\<lambda>(trial, metadata).
   or_unchanged ds (or_panic (chain_tip trial)) (\<lambda>stored. commit_trial E S ds stored (trial, metadata)))"

definition append_block_trusted ::
    "env \<Rightarrow> serde \<Rightarrow> disk_chain_store \<Rightarrow> block_execution_result \<Rightarrow> disk_chain_store \<times> (block_metadata, storage_error) result" where
"append_block_trusted = append_block_inner"

definition disk_append_block ::
    "env \<Rightarrow> serde \<Rightarrow> signature_backend \<Rightarrow> disk_chain_store \<Rightarrow> block_execution_result
     \<Rightarrow> disk_chain_store \<times> (block_metadata, storage_error) result" where
"disk_append_block E S D ds execution =
   or_unchanged ds (validate_commit_proof (e_xof E) D (ds_commit_policy ds) (br_block execution)) (\<lambda>_.
   append_block_inner E S ds execution)"

definition disk_append_stored_block ::
    "env \<Rightarrow> serde \<Rightarrow> signature_backend \<Rightarrow> disk_chain_store \<Rightarrow> stored_block
     \<Rightarrow> disk_chain_store \<times> (block_metadata, storage_error) result" where
"disk_append_stored_block E S D ds stored =
   or_unchanged ds (validate_commit_proof (e_xof E) D (ds_commit_policy ds) (sb_block stored)) (\<lambda>_.
   or_unchanged ds (map_err SE_Chain (append_stored_block (e_xof E) stored (ds_chain ds))) (commit_trial E S ds stored))"

section \<open>Reading blocks\<close>

definition read_stored_block_from_disk :: "env \<Rightarrow> serde \<Rightarrow> disk \<Rightarrow> nat \<Rightarrow> (stored_block option, storage_error) result" where
"read_stored_block_from_disk E S d height =
   (case hget (dk_blocks d) (block_file_name height) of
      None \<Rightarrow> Ok None
    | Some bytes \<Rightarrow>
        bind_r (ok_or (sd_read_block S bytes) (SE_Decode (block_file_name height))) (\<lambda>rcd.
        bind_r (record_into_stored_block E rcd height) (\<lambda>b. Ok (Some b))))"

definition read_stored_block_at_height ::
    "env \<Rightarrow> serde \<Rightarrow> disk_chain_store \<Rightarrow> nat \<Rightarrow> (stored_block option, storage_error) result" where
"read_stored_block_at_height E S ds height =
   (case get_stored_block_by_height (ds_chain ds) height of
      Some stored \<Rightarrow> Ok (Some stored)
    | None \<Rightarrow> read_stored_block_from_disk E S (ds_disk ds) height)"

definition encode_block_bytes :: "env \<Rightarrow> serde \<Rightarrow> stored_block \<Rightarrow> (bytes, storage_error) result" where
"encode_block_bytes E S stored = bind_r (stored_block_into_record E stored) (\<lambda>r. Ok (sd_write_block S r))"

definition decode_block_bytes :: "env \<Rightarrow> serde \<Rightarrow> bytes \<Rightarrow> (stored_block, storage_error) result" where
"decode_block_bytes E S bytes =
   bind_r (ok_or (sd_read_block S bytes) (SE_Decode ''<p2p-block>'')) (\<lambda>rcd.
   record_into_stored_block E rcd (hr_height (bc_header rcd)))"

definition export_block_bytes ::
    "env \<Rightarrow> serde \<Rightarrow> disk_chain_store \<Rightarrow> nat \<Rightarrow> (bytes option, storage_error) result" where
"export_block_bytes E S ds height =
   bind_r (read_stored_block_at_height E S ds height) (\<lambda>found.
   case found of None \<Rightarrow> Ok None | Some b \<Rightarrow> bind_r (encode_block_bytes E S b) (\<lambda>bs. Ok (Some bs)))"

section \<open>Checkpoints\<close>

record trusted_checkpoint_metadata =
  tm_height :: nat
  tm_tip_hash :: hash32
  tm_state_root :: hash32

definition checkpoint_ops :: "(fs_op \<times> storage_error) list" where
"checkpoint_ops = [(Rename_checkpoint ''trusted-checkpoint.tmp'', SE_Io ''rename'' ''trusted-checkpoint.cbor'')]"

definition finish_write ::
    "disk_chain_store \<Rightarrow> (fs_op \<times> storage_error) list \<Rightarrow> 'a \<Rightarrow> disk_chain_store \<times> ('a, storage_error) result" where
"finish_write ds ops x =
   (case run_ops ops (ds_disk ds) of (d, r) \<Rightarrow>
    (ds\<lparr> ds_disk := d \<rparr>, bind_r r (\<lambda>_. Ok x)))"

definition write_trusted_checkpoint ::
    "xof \<Rightarrow> serde \<Rightarrow> disk_chain_store \<Rightarrow> state_store \<Rightarrow> disk_chain_store \<times> (trusted_checkpoint_metadata, storage_error) result" where
"write_trusted_checkpoint X S ds s =
   (let c = ds_chain ds;
        expected_height = chain_height c;
        got_height = st_block_height s;
        expected_tip_hash = or_anchor c;
        got_tip_hash = (if got_height = 0 then ch_anchor_prev_hash c
          else case get_metadata_by_height c got_height of Some m \<Rightarrow> bm_block_hash m | None \<Rightarrow> ch_anchor_prev_hash c);
        actual_state_root = state_root X s;
        expected_state_root = (if got_height = 0 then actual_state_root
          else case get_metadata_by_height c got_height of Some m \<Rightarrow> bm_state_root m | None \<Rightarrow> actual_state_root)
    in if got_height \<noteq> expected_height then (ds, Err (SE_CheckpointHeightMismatch expected_height got_height))
       else if got_tip_hash \<noteq> expected_tip_hash then (ds, Err (SE_CheckpointTipHashMismatch expected_tip_hash got_tip_hash))
       else if actual_state_root \<noteq> expected_state_root
       then (ds, Err (SE_CheckpointStateRootMismatch expected_state_root actual_state_root))
       else finish_write ds
         (write_cbor ''trusted-checkpoint.tmp'' (sd_write_checkpoint S \<lparr> ck_version = STATE_FORMAT_VERSION,
            ck_height = got_height, ck_tip_hash = expected_tip_hash, ck_state_root = expected_state_root,
            ck_state = state_into_record s \<rparr>) @ checkpoint_ops)
         \<lparr> tm_height = got_height, tm_tip_hash = expected_tip_hash, tm_state_root = expected_state_root \<rparr>)"

definition decode_snapshot_metadata :: "serde \<Rightarrow> bytes \<Rightarrow> (nat \<times> hash32, storage_error) result" where
"decode_snapshot_metadata S bytes =
   bind_r (ok_or (sd_read_checkpoint S bytes) (SE_Decode ''<snapshot>'')) (\<lambda>r.
   bind_r (check_state_format_version (ck_version r)) (\<lambda>_. Ok (ck_height r, ck_tip_hash r)))"

text \<open>The checks that \<open>import_external_snapshot\<close> and \<open>bootstrap_from_external_snapshot\<close> share.\<close>

definition checked_snapshot :: "xof \<Rightarrow> serde \<Rightarrow> bytes \<Rightarrow> bytes \<Rightarrow> (trusted_checkpoint_metadata, storage_error) result" where
"checked_snapshot X S bytes chain_id =
   bind_r (ok_or (sd_read_checkpoint S bytes) (SE_Decode ''<snapshot>'')) (\<lambda>r.
   bind_r (check_state_format_version (ck_version r)) (\<lambda>_.
   bind_r (record_into_state X (ck_state r) chain_id) (\<lambda>s.
   if st_block_height s \<noteq> ck_height r then Err (SE_InvalidSnapshot ''snapshot state height does not match metadata'')
   else if state_root X s \<noteq> ck_state_root r then Err (SE_InvalidSnapshot ''snapshot state_root does not match metadata'')
   else Ok \<lparr> tm_height = ck_height r, tm_tip_hash = ck_tip_hash r, tm_state_root = ck_state_root r \<rparr>)))"

definition import_external_snapshot ::
    "xof \<Rightarrow> serde \<Rightarrow> disk_chain_store \<Rightarrow> bytes \<Rightarrow> bytes \<Rightarrow> disk_chain_store \<times> (trusted_checkpoint_metadata, storage_error) result" where
"import_external_snapshot X S ds bytes chain_id =
   or_unchanged ds (checked_snapshot X S bytes chain_id) (\<lambda>metadata.
   finish_write ds (write_raw_bytes ''trusted-checkpoint.tmp'' bytes @ checkpoint_ops) metadata)"

fun check_tail ::
    "env \<Rightarrow> serde \<Rightarrow> signature_backend \<Rightarrow> commit_quorum_policy option \<Rightarrow> bytes list \<Rightarrow> chain_store
     \<Rightarrow> (chain_store \<times> stored_block list, storage_error) result" where
"check_tail E S D policy [] tail_chain = Ok (tail_chain, [])" |
"check_tail E S D policy (bytes # rest) tail_chain =
   bind_r (decode_block_bytes E S bytes) (\<lambda>stored.
   bind_r (validate_commit_proof (e_xof E) D policy (sb_block stored)) (\<lambda>_.
   bind_r (map_err SE_Chain (append_stored_block (e_xof E) stored tail_chain)) (\<lambda>(trial, _).
   bind_r (check_tail E S D policy rest trial) (\<lambda>(c, tail). Ok (c, stored # tail)))))"

fun persist_all :: "env \<Rightarrow> serde \<Rightarrow> stored_block list \<Rightarrow> disk \<Rightarrow> disk \<times> (unit, storage_error) result" where
"persist_all E S [] d = (d, Ok ())" |
"persist_all E S (b # bs) d =
   (case persist_stored_block E S b d of
      (d', Ok _) \<Rightarrow> persist_all E S bs d'
    | (d', r) \<Rightarrow> (d', r))"

definition bootstrap_from_external_snapshot ::
    "env \<Rightarrow> serde \<Rightarrow> signature_backend \<Rightarrow> disk_chain_store \<Rightarrow> bytes \<Rightarrow> bytes list \<Rightarrow> bytes
     \<Rightarrow> disk_chain_store \<times> (trusted_checkpoint_metadata, storage_error) result" where
"bootstrap_from_external_snapshot E S D ds snapshot_bytes tail_block_bytes chain_id =
   (if chain_height (ds_chain ds) \<noteq> 0
    then (ds, Err (SE_InvalidSnapshot ''cold bootstrap requires an empty disk store (height must be 0)''))
    else
    or_unchanged ds (checked_snapshot (e_xof E) S snapshot_bytes chain_id) (\<lambda>metadata.
    or_unchanged ds (check_tail E S D (ds_commit_policy ds) tail_block_bytes
        (chain_new_with_base (tm_tip_hash metadata) (tm_height metadata))) (\<lambda>(tail_chain, tail_stored).
    case finish_write ds (write_raw_bytes ''trusted-checkpoint.tmp'' snapshot_bytes @ checkpoint_ops) () of (ds1, r1) \<Rightarrow>
    or_unchanged ds1 r1 (\<lambda>_.
    case persist_all E S tail_stored (ds_disk ds1) of (d, r2) \<Rightarrow>
    or_unchanged (ds1\<lparr> ds_disk := d \<rparr>) r2 (\<lambda>_.
    (ds1\<lparr> ds_disk := d, ds_chain := tail_chain \<rparr>, Ok metadata))))))"

section \<open>Recovery\<close>

fun read_all_blocks :: "env \<Rightarrow> serde \<Rightarrow> disk \<Rightarrow> nat list \<Rightarrow> (stored_block list, storage_error) result" where
"read_all_blocks E S d [] = Ok []" |
"read_all_blocks E S d (h # hs) =
   bind_r (read_stored_block_from_disk E S d h) (\<lambda>found.
   bind_r (ok_or found (SE_MissingBlockFile h)) (\<lambda>b.
   bind_r (read_all_blocks E S d hs) (\<lambda>bs. Ok (b # bs))))"

definition disk_recover_tip ::
    "env \<Rightarrow> serde \<Rightarrow> disk_chain_store \<Rightarrow> state_store \<Rightarrow> fee_params \<Rightarrow> fee_distribution_params \<Rightarrow> address list
     \<Rightarrow> (replay_result, storage_error) result" where
"disk_recover_tip E S ds genesis_state fee_params fee_dist validator_pool =
   (let chain_start = (case blocks_in_order (ds_chain ds) of b # _ \<Rightarrow> bm_height (sb_metadata b) | [] \<Rightarrow> 1) in
    if chain_start > 1 then
      (case dk_tip (ds_disk ds) of
         None \<Rightarrow> Err (SE_Replay (HeightGap 1 chain_start))
       | Some tip_bytes \<Rightarrow>
           bind_r (ok_or (sd_read_tip S tip_bytes) (SE_Decode ''tip.cbor'')) (\<lambda>(tip_height, _).
           bind_r (read_all_blocks E S (ds_disk ds) [1..<Suc tip_height]) (\<lambda>blocks.
           map_err SE_Replay (replay_blocks_from_state E genesis_state (ds_genesis_anchor ds) blocks fee_params fee_dist
             validator_pool))))
    else map_err SE_Replay (recover_tip E (ds_chain ds) genesis_state fee_params fee_dist validator_pool))"

definition load_valid_checkpoint ::
    "xof \<Rightarrow> serde \<Rightarrow> disk_chain_store \<Rightarrow> bytes \<Rightarrow> ((trusted_checkpoint_metadata \<times> state_store) option, storage_error) result" where
"load_valid_checkpoint X S ds chain_id =
   (case Option.bind (dk_checkpoint (ds_disk ds)) (sd_read_checkpoint S) of
      None \<Rightarrow> Ok None
    | Some r \<Rightarrow>
        bind_r (check_state_format_version (ck_version r)) (\<lambda>_.
        let metadata = \<lparr> tm_height = ck_height r, tm_tip_hash = ck_tip_hash r, tm_state_root = ck_state_root r \<rparr> in
        case record_into_state X (ck_state r) chain_id of
          Err _ \<Rightarrow> Ok None
        | Panic \<Rightarrow> Panic
        | Ok s \<Rightarrow>
            if st_block_height s \<noteq> tm_height metadata \<or> state_root X s \<noteq> tm_state_root metadata then Ok None
            else if tm_height metadata = 0
            then Ok (if tm_tip_hash metadata \<noteq> ch_anchor_prev_hash (ds_chain ds) then None else Some (metadata, s))
            else case get_metadata_by_height (ds_chain ds) (tm_height metadata) of
              Some canonical \<Rightarrow>
                Ok (if bm_block_hash canonical \<noteq> tm_tip_hash metadata \<or> bm_state_root canonical \<noteq> tm_state_root metadata
                    then None else Some (metadata, s))
            | None \<Rightarrow> Ok (Some (metadata, s))))"

datatype recovery_source = FullReplay | TrustedCheckpoint

record checkpoint_recovery_result =
  cx_replay :: replay_result
  cx_source :: recovery_source
  cx_checkpoint :: "trusted_checkpoint_metadata option"

definition recover_tip_with_checkpoint ::
    "env \<Rightarrow> serde \<Rightarrow> disk_chain_store \<Rightarrow> state_store \<Rightarrow> fee_params \<Rightarrow> fee_distribution_params \<Rightarrow> address list
     \<Rightarrow> (checkpoint_recovery_result, storage_error) result" where
"recover_tip_with_checkpoint E S ds genesis_state fee_params fee_dist validator_pool =
   bind_r (load_valid_checkpoint (e_xof E) S ds (st_chain_id genesis_state)) (\<lambda>loaded.
   case loaded of
     Some (metadata, checkpoint_state) \<Rightarrow>
       let tail = filter (\<lambda>b. bm_height (sb_metadata b) > tm_height metadata) (blocks_in_order (ds_chain ds)) in
       bind_r (map_err SE_Replay (replay_blocks_from_state E checkpoint_state (tm_tip_hash metadata) tail fee_params fee_dist
         validator_pool)) (\<lambda>replay.
       Ok \<lparr> cx_replay = replay, cx_source = TrustedCheckpoint, cx_checkpoint = Some metadata \<rparr>)
   | None \<Rightarrow>
       bind_r (disk_recover_tip E S ds genesis_state fee_params fee_dist validator_pool) (\<lambda>replay.
       Ok \<lparr> cx_replay = replay, cx_source = FullReplay, cx_checkpoint = None \<rparr>))"

section \<open>File names\<close>

lemma length_decimal [simp]: "length (decimal n x) = n"
  by (induction n arbitrary: x) auto

lemma digit_inj: "a < 10 \<Longrightarrow> b < 10 \<Longrightarrow> ''0123456789'' ! a = ''0123456789'' ! b \<Longrightarrow> a = b"
  using nth_eq_iff_index_eq [of "''0123456789''" a b] by simp

lemma decimal_inj: "x < 10 ^ n \<Longrightarrow> y < 10 ^ n \<Longrightarrow> decimal n x = decimal n y \<Longrightarrow> x = y"
proof (induction n arbitrary: x y)
  case (Suc n)
  have "x div 10 < 10 ^ n" "y div 10 < 10 ^ n" using Suc.prems(1,2) by (simp_all add: less_mult_imp_div_less mult.commute)
  then have "x div 10 = y div 10" using Suc.IH [of "x div 10" "y div 10"] Suc.prems(3) by simp
  moreover have "x mod 10 = y mod 10" using Suc.prems(3) digit_inj [of "x mod 10" "y mod 10"] by simp
  ultimately show ?case by (metis div_mult_mod_eq)
qed simp

lemma block_file_name_inj: "x \<le> U64_MAX \<Longrightarrow> y \<le> U64_MAX \<Longrightarrow> block_file_name x = block_file_name y \<longleftrightarrow> x = y"
  using decimal_inj [of x 20 y] by (auto simp: block_file_name_def format_height_def U64_MAX_def)

lemma hash_index_file_name_inj: "hash_index_file_name a = hash_index_file_name b \<longleftrightarrow> a = b"
  by (simp add: hash_index_file_name_def)

section \<open>What a disk holds\<close>

abbreviation height_of :: "stored_block \<Rightarrow> nat" where
"height_of b \<equiv> bm_height (sb_metadata b)"

definition block_bytes :: "env \<Rightarrow> serde \<Rightarrow> stored_block \<Rightarrow> bytes" where
"block_bytes E S b = (case stored_block_into_record E b of Ok r \<Rightarrow> sd_write_block S r | _ \<Rightarrow> [])"

text \<open>Reading gives back what was written, for the records that occur.\<close>

definition serde_laws :: "env \<Rightarrow> serde \<Rightarrow> stored_block list \<Rightarrow> bool" where
"serde_laws E S bs =
   ((\<forall>b \<in> set bs. \<forall>r. stored_block_into_record E b = Ok r \<longrightarrow> sd_read_block S (sd_write_block S r) = Some r)
  \<and> (\<forall>n. sd_read_index S (sd_write_index S n) = Some n) \<and> (\<forall>t. sd_read_tip S (sd_write_tip S t) = Some t))"

definition disk_holds :: "env \<Rightarrow> serde \<Rightarrow> disk \<Rightarrow> stored_block list \<Rightarrow> bool" where
"disk_holds E S d bs =
   (dk_staging d = [] \<and> hwf (dk_blocks d) \<and> hwf (dk_hashes d)
  \<and> hget (dk_blocks d) = map_of (map (\<lambda>b. (block_file_name (height_of b), block_bytes E S b)) bs)
  \<and> hget (dk_hashes d) = map_of (map (\<lambda>b. (hash_index_file_name (hash_of b), sd_write_index S (height_of b))) bs)
  \<and> dk_tip d = (if bs = [] then None else Some (sd_write_tip S (height_of (last bs), hash_of (last bs)))))"

definition good_chain ::
    "env \<Rightarrow> signature_backend \<Rightarrow> commit_quorum_policy option \<Rightarrow> nat \<Rightarrow> hash32 \<Rightarrow> stored_block list \<Rightarrow> bool" where
"good_chain E D policy base anchor bs =
   (verify_stored_blocks_structure (e_xof E) (Suc base) anchor bs = Ok () \<and> distinct (map hash_of bs)
  \<and> (\<forall>b \<in> set bs. storable E b \<and> validate_commit_proof (e_xof E) D policy (sb_block b) = Ok ()))"

lemma verify_heights:
  "verify_stored_blocks_structure X h p bs = Ok () \<Longrightarrow> i < length bs \<Longrightarrow> height_of (bs ! i) = h + i"
proof (induction bs arbitrary: h p i)
  case (Cons b bs)
  then show ?case by (cases i) (auto simp: verify_Cons block_fits_def Let_def)
qed simp

lemma good_heights:
  assumes "good_chain E D policy base anchor bs" "i < length bs"
  shows "height_of (bs ! i) = Suc base + i" "height_of (bs ! i) \<le> U64_MAX"
  using assms verify_heights [of "e_xof E" "Suc base" anchor bs i] verify_bound [of "e_xof E" "Suc base" anchor bs]
  by (auto simp: good_chain_def)

lemma map_of_distinct_nth:
  "distinct (map f xs) \<Longrightarrow> i < length xs \<Longrightarrow> map_of (map (\<lambda>x. (f x, g x)) xs) (f (xs ! i)) = Some (g (xs ! i))"
  by (intro map_of_is_SomeI) (auto simp: comp_def)

lemma good_names_distinct:
  assumes "good_chain E D policy base anchor bs"
  shows "distinct (map (\<lambda>b. block_file_name (height_of b)) bs)" "distinct (map (\<lambda>b. hash_index_file_name (hash_of b)) bs)"
proof -
  show "distinct (map (\<lambda>b. block_file_name (height_of b)) bs)"
    using good_heights [OF assms] by (auto simp: distinct_conv_nth block_file_name_inj)
  show "distinct (map (\<lambda>b. hash_index_file_name (hash_of b)) bs)"
    using assms by (auto simp: good_chain_def distinct_conv_nth hash_index_file_name_inj)
qed

lemma disk_lookup:
  assumes "disk_holds E S d bs" "good_chain E D policy base anchor bs" "serde_laws E S bs" "i < length bs"
  shows "\<exists>r. hget (dk_blocks d) (block_file_name (Suc base + i)) = Some (sd_write_block S r)
    \<and> sd_read_block S (sd_write_block S r) = Some r \<and> record_into_stored_block E r h = Ok (bs ! i)
    \<and> bc_metadata r = sb_metadata (bs ! i) \<and> hr_prev_hash (bc_header r) = bh_prev_hash (bl_header (sb_block (bs ! i)))
    \<and> hget (dk_hashes d) (hash_index_file_name (hash_of (bs ! i))) = Some (sd_write_index S (Suc base + i))"
proof -
  have mem: "bs ! i \<in> set bs" using assms(4) by simp
  obtain r where r: "stored_block_into_record E (bs ! i) = Ok r" "record_into_stored_block E r h = Ok (bs ! i)"
    "bc_metadata r = sb_metadata (bs ! i)" "hr_prev_hash (bc_header r) = bh_prev_hash (bl_header (sb_block (bs ! i)))"
    using stored_block_restored [of E "bs ! i" h] assms(2) mem by (auto simp: good_chain_def)
  have "hget (dk_blocks d) (block_file_name (height_of (bs ! i))) = Some (block_bytes E S (bs ! i))"
    "hget (dk_hashes d) (hash_index_file_name (hash_of (bs ! i))) = Some (sd_write_index S (height_of (bs ! i)))"
    using assms(1) map_of_distinct_nth [OF good_names_distinct(1) [OF assms(2)] assms(4), of "block_bytes E S"]
      map_of_distinct_nth [OF good_names_distinct(2) [OF assms(2)] assms(4), of "\<lambda>b. sd_write_index S (height_of b)"]
    by (simp_all add: disk_holds_def)
  then show ?thesis
    using r good_heights(1) [OF assms(2,4)] assms(3) mem by (auto simp: block_bytes_def serde_laws_def)
qed

text \<open>A block that continues a chain can be appended to a store that stands for the chain.\<close>

lemma represents_extend:
  assumes c: "represents X c as" and v: "verify_stored_blocks_structure X (Suc (ch_base_height c)) (ch_anchor_prev_hash c) (as @ [b]) = Ok ()"
    and new: "hash_of b \<notin> set (map hash_of as)"
  shows "\<exists>c' m. append_stored_block X b c = Ok (c', m) \<and> represents X c' (as @ [b])
    \<and> ch_base_height c' = ch_base_height c \<and> ch_anchor_prev_hash c' = ch_anchor_prev_hash c"
proof -
  have room: "chain_height c + 2 < U64_MAX" using verify_bound [OF v] represents_height [OF c] by simp
  have fits: "block_fits X (Suc (ch_base_height c) + length as) (if as = [] then ch_anchor_prev_hash c else hash_of (last as)) b"
    using v by (simp add: verify_append verify_Cons)
  then have ht: "height_of b = Suc (ch_base_height c) + length as" by (simp add: block_fits_def Let_def)
  have "\<not> hhas (ch_by_hash c) (hash_of b)" "\<not> hhas (ch_by_height c) (height_of b)"
    using c new by (auto simp: represents_def holds_def hhas_def ht map_of_eq_None_iff in_set_enumerate_eq dest!: map_of_SomeD)
  moreover have "saturating_add U64_MAX (chain_height c) 1 = Suc (ch_base_height c) + length as"
    using room represents_height [OF c] by (simp add: saturating_add_def)
  ultimately have "validate_stored_block X c b = Ok ()"
    using fits by (simp add: validate_stored_block_Ok represents_prev [OF c])
  then obtain c' m where c': "append_stored_block X b c = Ok (c', m)" "ch_base_height c' = ch_base_height c"
    "ch_anchor_prev_hash c' = ch_anchor_prev_hash c"
    by (auto simp: append_stored_block_def result_simps Let_def)
  then show ?thesis using represents_append [OF c c'(1) room] by blast
qed

section \<open>Opening what a disk holds\<close>

definition prev_at :: "hash32 \<Rightarrow> stored_block list \<Rightarrow> nat \<Rightarrow> hash32" where
"prev_at anchor bs m = (if m = 0 then anchor else hash_of (bs ! (m - 1)))"

text \<open>After \<open>i\<close> blocks the chain in memory has the ones from the window on.\<close>

definition loaded :: "xof \<Rightarrow> nat \<Rightarrow> hash32 \<Rightarrow> nat \<Rightarrow> stored_block list \<Rightarrow> nat \<Rightarrow> chain_store \<Rightarrow> bool" where
"loaded X base anchor m bs i c =
   (represents X c (drop m (take i bs)) \<and> ch_base_height c = base + m \<and> ch_anchor_prev_hash c = prev_at anchor bs m)"

lemma verify_drop:
  assumes "verify_stored_blocks_structure X h anchor bs = Ok ()" "m \<le> length bs"
  shows "verify_stored_blocks_structure X (h + m) (prev_at anchor bs m) (drop m bs) = Ok ()"
proof -
  have "verify_stored_blocks_structure X h anchor (take m bs @ drop m bs) = Ok ()" using assms by simp
  then have v: "verify_stored_blocks_structure X (h + m) (if take m bs = [] then anchor else hash_of (last (take m bs))) (drop m bs) = Ok ()"
    using assms(2) unfolding verify_append by simp
  have "(if take m bs = [] then anchor else hash_of (last (take m bs))) = prev_at anchor bs m"
    using assms(2) by (cases "m = 0"; cases "bs = []") (auto simp: prev_at_def last_conv_nth)
  then show ?thesis using v by simp
qed

lemma loaded_step:
  assumes g: "good_chain E D policy base anchor bs" and l: "loaded (e_xof E) base anchor m bs i c"
    and i: "i < length bs" "m \<le> i" and r: "record_into_stored_block E r h = Ok (bs ! i)"
  shows "\<exists>c'. load_tail_block E D policy r h c = Ok c' \<and> loaded (e_xof E) base anchor m bs (Suc i) c'"
proof -
  have snoc: "drop m (take (Suc i) bs) = drop m (take i bs) @ [bs ! i]" using i by (simp add: take_Suc_conv_app_nth)
  have "verify_stored_blocks_structure (e_xof E) (Suc base + m) (prev_at anchor bs m) (drop m bs) = Ok ()"
    using g i by (intro verify_drop) (simp_all add: good_chain_def)
  moreover have "drop m bs = drop m (take (Suc i) bs) @ drop (Suc i) bs"
    using i by (metis append_take_drop_id drop_append diff_is_0_eq drop0 le_Suc_eq length_take min.absorb2 Suc_leI)
  ultimately have "verify_stored_blocks_structure (e_xof E) (Suc base + m) (prev_at anchor bs m) (drop m (take i bs) @ [bs ! i]) = Ok ()"
    using snoc verify_append by metis
  moreover have "hash_of (bs ! i) \<notin> set (map hash_of (drop m (take i bs)))"
    using g i by (auto simp: good_chain_def distinct_conv_nth in_set_conv_nth)
  ultimately obtain c' mt where c': "append_stored_block (e_xof E) (bs ! i) c = Ok (c', mt)"
    "represents (e_xof E) c' (drop m (take i bs) @ [bs ! i])" "ch_base_height c' = ch_base_height c"
    "ch_anchor_prev_hash c' = ch_anchor_prev_hash c"
    using represents_extend [of "e_xof E" c "drop m (take i bs)" "bs ! i"] l by (auto simp: loaded_def)
  have "validate_commit_proof (e_xof E) D policy (sb_block (bs ! i)) = Ok ()" using g i by (simp add: good_chain_def)
  then have "load_tail_block E D policy r h c = Ok c'" using r c'(1) by (simp add: load_tail_block_def)
  then show ?thesis using c' l snoc by (auto simp: loaded_def)
qed

lemma load_blocks_Ok:
  assumes d: "disk_holds E S d bs" and g: "good_chain E D policy base anchor bs" and laws: "serde_laws E S bs"
    and l: "loaded (e_xof E) base anchor m bs i c" and i: "i \<le> length bs"
  shows "\<exists>c'. load_blocks E S D policy d (Suc (base + m)) [Suc (base + i)..<Suc (base + length bs)] (c, bf, hf)
      = Ok (c', bf @ map (\<lambda>b. block_file_name (height_of b)) (drop i bs), hf @ map (\<lambda>b. hash_index_file_name (hash_of b)) (drop i bs))
    \<and> loaded (e_xof E) base anchor m bs (length bs) c'"
  using l i
proof (induction "length bs - i" arbitrary: i c bf hf)
  case 0
  then show ?case by simp
next
  case (Suc n)
  then have lt: "i < length bs" by simp
  obtain r where r: "hget (dk_blocks d) (block_file_name (Suc base + i)) = Some (sd_write_block S r)"
    "sd_read_block S (sd_write_block S r) = Some r" "record_into_stored_block E r (Suc base + i) = Ok (bs ! i)"
    "bc_metadata r = sb_metadata (bs ! i)"
    "hget (dk_hashes d) (hash_index_file_name (hash_of (bs ! i))) = Some (sd_write_index S (Suc base + i))"
    using disk_lookup [OF d g laws lt, of "Suc base + i"] by blast
  have idx: "sd_read_index S (sd_write_index S k) = Some k" for k using laws by (simp add: serde_laws_def)
  obtain c' where c': "(if Suc base + i \<ge> Suc (base + m) then load_tail_block E D policy r (Suc base + i) c else Ok c) = Ok c'"
    "loaded (e_xof E) base anchor m bs (Suc i) c'"
  proof (cases "m \<le> i")
    case True
    then show ?thesis using that loaded_step [OF g Suc.prems(1) lt True r(3)] by auto
  next
    case False
    then have "drop m (take (Suc i) bs) = []" "drop m (take i bs) = []" by simp_all
    then show ?thesis using that [of c] Suc.prems(1) False by (simp add: loaded_def)
  qed
  have drop: "drop i bs = bs ! i # drop (Suc i) bs" using lt by (simp add: Cons_nth_drop_Suc)
  have upt: "[Suc (base + i)..<Suc (base + length bs)] = Suc (base + i) # [Suc (base + Suc i)..<Suc (base + length bs)]"
    using lt by (simp add: upt_conv_Cons del: upt_Suc)
  have ht: "height_of (bs ! i) = Suc base + i" by (rule good_heights(1) [OF g lt])
  have "n = length bs - Suc i" "Suc i \<le> length bs" using Suc.hyps(2) lt by simp_all
  from Suc.hyps(1) [OF this(1) c'(2) this(2), of "bf @ [block_file_name (Suc base + i)]" "hf @ [hash_index_file_name (hash_of (bs ! i))]"]
  show ?case
    unfolding upt drop using r idx c'(1) ht by (auto simp: Let_def simp del: upt_Suc)
qed

lemma dir_names: "hwf m \<Longrightarrow> hget m = map_of ps \<Longrightarrow> set (map fst m) = fst ` set ps"
proof -
  assume "hget m = map_of ps"
  then have "map_of m = map_of ps" by (simp add: hget_def [abs_def] fun_eq_iff)
  then have "dom (map_of m) = dom (map_of ps)" by simp
  then show ?thesis by (simp add: dom_map_of_conv_image_fst)
qed

lemma inventory_Ok: "hwf m \<Longrightarrow> hget m = map_of (map (\<lambda>x. (f x, g x)) xs) \<Longrightarrow> ensure_inventory_exact m (map f xs) err = Ok ()"
  using dir_names [of m "map (\<lambda>x. (f x, g x)) xs"] by (simp add: ensure_inventory_exact_def image_image)

lemma empty_dir: "hget m = Map.empty \<Longrightarrow> m = []"
  by (cases m) (auto simp: hget_def fun_eq_iff split: if_splits)

lemma window_file:
  assumes w: "checkpoint_window S d = Ok (Some (m, tip))"
  shows "m < U64_MAX" "hhas (dk_blocks d) (block_file_name (Suc m))"
proof -
  obtain v where v: "read_snapshot_base_if_present S d = Ok v" using w by (auto simp: checkpoint_window_def result_simps)
  then obtain h t where ht: "v = Some (h, t)" using w by (cases v) (auto simp: checkpoint_window_def)
  have base: "read_snapshot_base_if_present S d = Ok (Some (m, tip))" and room: "Suc m \<le> U64_MAX"
    using w v ht by (auto simp: checkpoint_window_def result_simps Let_def split: if_splits)
  obtain r where "Option.bind (hget (dk_blocks d) (block_file_name (Suc m))) (sd_read_block S) = Some r"
    using w base by (auto simp: checkpoint_window_def result_simps Let_def split: if_splits option.splits)
  then have "hget (dk_blocks d) (block_file_name (Suc m)) \<noteq> None"
    by (cases "hget (dk_blocks d) (block_file_name (Suc m))") simp_all
  then show "m < U64_MAX" "hhas (dk_blocks d) (block_file_name (Suc m))" using room by (simp_all add: hhas_def)
qed

text \<open>A window that the opening accepts always fits the blocks on the disk.\<close>

lemma window_fits:
  assumes d: "disk_holds E S d bs" and g: "good_chain E D policy 0 anchor bs" and laws: "serde_laws E S bs"
    and w: "checkpoint_window S d = Ok (Some (m, tip))"
  shows "0 < m \<and> m < length bs \<and> tip = prev_at anchor bs m"
proof -
  obtain v where v: "read_snapshot_base_if_present S d = Ok v" using w by (auto simp: checkpoint_window_def result_simps)
  then obtain h t where ht: "v = Some (h, t)" using w by (cases v) (auto simp: checkpoint_window_def)
  have base: "read_snapshot_base_if_present S d = Ok (Some (m, tip))" and room: "Suc m \<le> U64_MAX"
    using w v ht by (auto simp: checkpoint_window_def result_simps Let_def split: if_splits)
  obtain r where r: "Option.bind (hget (dk_blocks d) (block_file_name (Suc m))) (sd_read_block S) = Some r"
    and prev: "hr_prev_hash (bc_header r) = tip"
    using w base by (auto simp: checkpoint_window_def result_simps Let_def split: if_splits option.splits)
  have pos: "0 < m"
    using base by (auto simp: read_snapshot_base_if_present_def result_simps split: option.splits if_splits)
  have "hget (dk_blocks d) (block_file_name (Suc m)) \<noteq> None" using r by (cases "hget (dk_blocks d) (block_file_name (Suc m))") simp_all
  then have "block_file_name (Suc m) \<in> (\<lambda>b. block_file_name (height_of b)) ` set bs"
    using d by (auto simp: disk_holds_def dest!: map_of_SomeD)
  then obtain i where i: "i < length bs" "block_file_name (Suc m) = block_file_name (height_of (bs ! i))"
    by (auto simp: in_set_conv_nth)
  then have "Suc m = Suc 0 + i" using good_heights [OF g i(1)] room by (simp add: block_file_name_inj)
  then have im: "i = m" by simp
  obtain r' where "hget (dk_blocks d) (block_file_name (Suc m)) = Some (sd_write_block S r')"
    "sd_read_block S (sd_write_block S r') = Some r'" "hr_prev_hash (bc_header r') = bh_prev_hash (bl_header (sb_block (bs ! m)))"
    using disk_lookup [OF d g laws i(1), of 0] im by auto
  then have "tip = bh_prev_hash (bl_header (sb_block (bs ! m)))" using r prev by simp
  moreover have "verify_stored_blocks_structure (e_xof E) (1 + m) (prev_at anchor bs m) (bs ! m # drop (Suc m) bs) = Ok ()"
    using verify_drop [of "e_xof E" 1 anchor bs m] g i(1) im by (simp add: good_chain_def Cons_nth_drop_Suc)
  then have "bh_prev_hash (bl_header (sb_block (bs ! m))) = prev_at anchor bs m" by (simp add: verify_Cons block_fits_def Let_def)
  ultimately show ?thesis using pos i(1) im by simp
qed

lemma open_full_history:
  assumes d: "disk_holds E S d bs" and g: "good_chain E D policy 0 anchor bs" and laws: "serde_laws E S bs"
    and w: "checkpoint_window S d = Ok w" and nonempty: "bs = [] \<Longrightarrow> read_snapshot_base_if_present S d = Ok None"
  shows "\<exists>c m. open_internal E S D d anchor policy
      = Ok \<lparr> ds_disk = d, ds_chain = c, ds_commit_policy = policy, ds_genesis_anchor = anchor \<rparr>
    \<and> m \<le> length bs \<and> (w = None \<longrightarrow> m = 0) \<and> loaded (e_xof E) 0 anchor m bs (length bs) c"
proof -
  obtain m where wm: "w = None \<and> m = 0 \<or> w = Some (m, prev_at anchor bs m) \<and> 0 < m \<and> m < length bs"
    using window_fits [OF d g laws] w by (cases w) auto
  then have m: "m \<le> length bs" by auto
  let ?c = "chain_new_with_base (prev_at anchor bs m) m"
  have "m + 1 < U64_MAX" using g m verify_bound [of "e_xof E" "Suc 0" anchor bs] by (simp add: good_chain_def)
  then have start: "loaded (e_xof E) 0 anchor m bs 0 ?c"
    using chain_new_represents [of m "e_xof E" "prev_at anchor bs m"] by (simp add: loaded_def) (simp add: chain_new_with_base_def)
  have anchors: "(case w of Some (h, tip) \<Rightarrow> (tip, h) | None \<Rightarrow> (anchor, 0)) = (prev_at anchor bs m, m)"
    "(case w of Some (h, _) \<Rightarrow> h + 1 | None \<Rightarrow> 1) = Suc m"
    using wm by (auto simp: prev_at_def)
  have staging: "dk_staging d = []" using d by (simp add: disk_holds_def)
  show ?thesis
  proof (cases "bs = []")
    case True
    then have "dk_blocks d = []" "dk_hashes d = []" "dk_tip d = None" using d by (auto simp: disk_holds_def intro: empty_dir)
    moreover have "w = None" using wm True by auto
    ultimately show ?thesis
      using staging nonempty [OF True] w start True m
      by (auto simp: open_internal_def hhas_def prev_at_def loaded_def)
  next
    case False
    then have len: "0 < length bs" by simp
    have first: "hhas (dk_blocks d) (block_file_name 1)" using disk_lookup [OF d g laws len, of 0] by (auto simp: hhas_def)
    obtain c where c: "load_blocks E S D policy d (Suc m) [1..<Suc (length bs)] (?c, [], [])
        = Ok (c, map (\<lambda>b. block_file_name (height_of b)) bs, map (\<lambda>b. hash_index_file_name (hash_of b)) bs)"
      "loaded (e_xof E) 0 anchor m bs (length bs) c"
      using load_blocks_Ok [OF d g laws start, of "[]" "[]"] by auto
    have last: "last bs = bs ! (length bs - 1)" using False by (rule last_conv_nth)
    have "height_of (last bs) = length bs" using good_heights(1) [OF g, of "length bs - 1"] last len by simp
    then have tip: "dk_tip d = Some (sd_write_tip S (length bs, hash_of (last bs)))" using d False by (simp add: disk_holds_def)
    have rep: "represents (e_xof E) c (drop m bs)" using c(2) by (simp add: loaded_def)
    have "chain_height c = length bs" using represents_height [OF rep] c(2) m by (simp add: loaded_def)
    moreover have "or_anchor c = hash_of (last bs)"
      using represents_prev [OF rep] c(2) wm False by (auto simp: loaded_def)
    moreover have "ensure_inventory_exact (dk_blocks d) (map (\<lambda>b. block_file_name (height_of b)) bs) SE_UnexpectedBlockFile = Ok ()"
      "ensure_inventory_exact (dk_hashes d) (map (\<lambda>b. hash_index_file_name (hash_of b)) bs) SE_UnexpectedHashIndex = Ok ()"
      using d by (auto simp: disk_holds_def intro: inventory_Ok)
    moreover have "sd_read_tip S (sd_write_tip S (length bs, hash_of (last bs))) = Some (length bs, hash_of (last bs))"
      using laws by (simp add: serde_laws_def)
    ultimately have "open_internal E S D d anchor policy
        = Ok \<lparr> ds_disk = d, ds_chain = c, ds_commit_policy = policy, ds_genesis_anchor = anchor \<rparr>"
      using staging first w anchors tip c(1)
      by (cases w) (auto simp: open_internal_def Let_def simp del: upt_Suc)
    then show ?thesis using c(2) m wm by auto
  qed
qed

section \<open>Interrupted writes\<close>

lemma run_ops_unlimited: "dk_fault d = None \<Longrightarrow> run_ops ops d = (fold fs_step (map fst ops) d, Ok ())"
proof (induction ops arbitrary: d)
  case (Cons op ops)
  have "dk_fault (fs_step p d) = dk_fault d" for p by (cases p) (simp_all split: option.split)
  then show ?case using Cons by (cases op) simp
qed simp

lemma fs_step_fault: "fs_step p (d\<lparr> dk_fault := f \<rparr>) = (fs_step p d)\<lparr> dk_fault := f \<rparr>"
  by (cases p) (simp_all split: option.split)

lemma run_ops_limited:
  "run_ops ops (d\<lparr> dk_fault := Some (Stops k) \<rparr>)
   = (if k < length ops then ((fold fs_step (map fst (take k ops)) d)\<lparr> dk_fault := Some (Stops 0) \<rparr>, Err (snd (ops ! k)))
      else ((fold fs_step (map fst ops) d)\<lparr> dk_fault := Some (Stops (k - length ops)) \<rparr>, Ok ()))"
proof (induction ops arbitrary: d k)
  case (Cons op ops)
  show ?case
  proof (cases k)
    case 0
    then show ?thesis by (cases op) simp
  next
    case (Suc j)
    then show ?thesis using Cons [of j "fs_step (fst op) d"] by (cases op) (simp add: fs_step_fault)
  qed
qed simp

lemma stage_names_distinct:
  fixes a b :: string
  shows "a @ ''.block.tmp'' \<noteq> b @ ''.hash.tmp''" "a @ ''.block.tmp'' \<noteq> ''tip.tmp''" "b @ ''.hash.tmp'' \<noteq> ''tip.tmp''"
proof -
  have "rev (a @ ''.block.tmp'') \<noteq> rev (b @ ''.hash.tmp'')" "rev (a @ ''.block.tmp'') \<noteq> rev ''tip.tmp''"
    "rev (b @ ''.hash.tmp'') \<noteq> rev ''tip.tmp''" by simp_all
  then show "a @ ''.block.tmp'' \<noteq> b @ ''.hash.tmp''" "a @ ''.block.tmp'' \<noteq> ''tip.tmp''" "b @ ''.hash.tmp'' \<noteq> ''tip.tmp''"
    by metis+
qed

text \<open>Between the first and the last operation there is always a staged file.\<close>

lemma persist_ops_length [simp]: "length (persist_ops S stored r) = 9"
  by (simp add: persist_ops_def write_cbor_def Let_def)

lemma persist_partial:
  assumes "dk_staging d = []" "0 < k" "k < 9"
  shows "dk_staging (fold fs_step (map fst (take k (persist_ops S stored r))) d) \<noteq> []"
proof -
  have names: "format_height (height_of stored) @ ''.block.tmp'' \<noteq> hex_encode (hash_of stored) @ ''.hash.tmp''"
    "format_height (height_of stored) @ ''.block.tmp'' \<noteq> ''tip.tmp''" "hex_encode (hash_of stored) @ ''.hash.tmp'' \<noteq> ''tip.tmp''"
    by (rule stage_names_distinct)+
  have "k = 1 \<or> k = 2 \<or> k = 3 \<or> k = 4 \<or> k = 5 \<or> k = 6 \<or> k = 7 \<or> k = 8" using assms(2,3) by auto
  then show ?thesis
    using assms(1) names names [symmetric]
    by (elim disjE) (simp_all add: persist_ops_def write_cbor_def Let_def hput_def hdel_def hget_def)
qed

lemma persist_complete:
  assumes "dk_staging d = []"
  shows "fold fs_step (map fst (persist_ops S stored r)) d
    = d\<lparr> dk_blocks := hput (block_file_name (height_of stored)) (sd_write_block S r) (dk_blocks d),
         dk_hashes := hput (hash_index_file_name (hash_of stored)) (sd_write_index S (height_of stored)) (dk_hashes d),
         dk_tip := Some (sd_write_tip S (height_of stored, hash_of stored)) \<rparr>"
proof -
  have names: "format_height (height_of stored) @ ''.block.tmp'' \<noteq> hex_encode (hash_of stored) @ ''.hash.tmp''"
    "format_height (height_of stored) @ ''.block.tmp'' \<noteq> ''tip.tmp''" "hex_encode (hash_of stored) @ ''.hash.tmp'' \<noteq> ''tip.tmp''"
    by (rule stage_names_distinct)+
  show ?thesis
    using assms names names [symmetric]
    by (simp add: persist_ops_def write_cbor_def Let_def hput_def hdel_def hget_def)
qed

lemma disk_holds_snoc:
  assumes d: "disk_holds E S d bs" and r: "stored_block_into_record E b = Ok r"
    and g: "good_chain E D policy base anchor (bs @ [b])"
  shows "disk_holds E S (fold fs_step (map fst (persist_ops S b r)) d) (bs @ [b])"
proof -
  have staging: "dk_staging d = []" using d by (simp add: disk_holds_def)
  note names = good_names_distinct [OF g]
  have fresh: "block_file_name (height_of b) \<notin> fst ` set (map (\<lambda>b. (block_file_name (height_of b), block_bytes E S b)) bs)"
    "hash_index_file_name (hash_of b) \<notin> fst ` set (map (\<lambda>b. (hash_index_file_name (hash_of b), sd_write_index S (height_of b))) bs)"
    using names by (auto simp: image_image)
  have "block_bytes E S b = sd_write_block S r" using r by (simp add: block_bytes_def)
  then show ?thesis
    using d map_of_snoc [OF fresh(1), of "sd_write_block S r"] map_of_snoc [OF fresh(2), of "sd_write_index S (height_of b)"]
    unfolding persist_complete [OF staging]
    by (simp add: disk_holds_def hget_hput_fun del: map_of_append)
qed

section \<open>Properties\<close>

text \<open>A disk with exactly the blocks \<open>bs\<close> of a full history, and a checkpoint file that is absent or of this version.\<close>

definition stores ::
    "env \<Rightarrow> serde \<Rightarrow> signature_backend \<Rightarrow> commit_quorum_policy option \<Rightarrow> hash32 \<Rightarrow> disk \<Rightarrow> stored_block list \<Rightarrow> bool" where
"stores E S D policy anchor d bs =
   (disk_holds E S d bs \<and> good_chain E D policy 0 anchor bs
  \<and> (\<exists>w. read_snapshot_base_if_present S d = Ok w \<and> (bs = [] \<longrightarrow> w = None) \<and> (\<forall>h tip. w = Some (h, tip) \<longrightarrow> h < U64_MAX)))"

text \<open>The directory opens as the chain \<open>bs\<close>: the chain in memory has its last blocks, from the checkpoint window on.\<close>

definition opens_as ::
    "env \<Rightarrow> serde \<Rightarrow> signature_backend \<Rightarrow> commit_quorum_policy option \<Rightarrow> hash32 \<Rightarrow> disk \<Rightarrow> stored_block list \<Rightarrow> bool" where
"opens_as E S D policy anchor d bs =
   (\<exists>ds m. open_internal E S D d anchor policy = Ok ds \<and> ds_disk ds = d \<and> m \<le> length bs
     \<and> loaded (e_xof E) 0 anchor m bs (length bs) (ds_chain ds))"

lemma stores_open_Ok:
  assumes "stores E S D policy anchor d bs" "serde_laws E S bs"
  shows "\<exists>c m. open_internal E S D d anchor policy
      = Ok \<lparr> ds_disk = d, ds_chain = c, ds_commit_policy = policy, ds_genesis_anchor = anchor \<rparr>
    \<and> m \<le> length bs \<and> loaded (e_xof E) 0 anchor m bs (length bs) c"
proof -
  obtain w where w: "read_snapshot_base_if_present S d = Ok w" "bs = [] \<longrightarrow> w = None" "\<forall>h tip. w = Some (h, tip) \<longrightarrow> h < U64_MAX"
    using assms(1) by (auto simp: stores_def)
  obtain v where v: "checkpoint_window S d = Ok v"
    using w by (cases w) (auto simp: checkpoint_window_def checked_add_def Let_def)
  have dg: "disk_holds E S d bs" "good_chain E D policy 0 anchor bs" using assms(1) by (simp_all add: stores_def)
  have "read_snapshot_base_if_present S d = Ok None" if "bs = []" using w that by simp
  from open_full_history [OF dg assms(2) v this] show ?thesis by blast
qed

lemma stores_opens: "stores E S D policy anchor d bs \<Longrightarrow> serde_laws E S bs \<Longrightarrow> opens_as E S D policy anchor d bs"
  using stores_open_Ok [of E S D policy anchor d bs] by (fastforce simp: opens_as_def)

lemma stores_fault: "stores E S D policy anchor (d\<lparr> dk_fault := f \<rparr>) bs \<longleftrightarrow> stores E S D policy anchor d bs"
  by (simp add: stores_def disk_holds_def read_snapshot_base_if_present_def)

lemma stores_snoc:
  assumes "stores E S D policy anchor d bs" "stored_block_into_record E b = Ok r" "good_chain E D policy 0 anchor (bs @ [b])"
  shows "stores E S D policy anchor (fold fs_step (map fst (persist_ops S b r)) d) (bs @ [b])"
proof -
  have "disk_holds E S d bs" using assms(1) by (simp add: stores_def)
  then have "disk_holds E S (fold fs_step (map fst (persist_ops S b r)) d) (bs @ [b])" "dk_staging d = []"
    using disk_holds_snoc [OF _ assms(2,3)] by (simp_all add: disk_holds_def)
  moreover have "read_snapshot_base_if_present S (fold fs_step (map fst (persist_ops S b r)) d) = read_snapshot_base_if_present S d"
    using calculation(2) by (simp add: persist_complete read_snapshot_base_if_present_def)
  ultimately show ?thesis using assms(1,3) by (auto simp: stores_def)
qed

lemma append_good:
  assumes g: "good_chain E D policy base anchor bs" and l: "loaded (e_xof E) base anchor m bs (length bs) c" "m \<le> length bs"
    and a: "append_stored_block (e_xof E) b c = Ok (c', mt)" and p: "validate_commit_proof (e_xof E) D policy (sb_block b) = Ok ()"
    and b: "storable E b" "hash_of b \<notin> hash_of ` set bs" and room: "base + length bs + 2 < U64_MAX"
  shows "good_chain E D policy base anchor (bs @ [b])"
proof -
  have rep: "represents (e_xof E) c (drop m bs)" and bh: "ch_base_height c = base + m" "ch_anchor_prev_hash c = prev_at anchor bs m"
    using l by (simp_all add: loaded_def)
  have ht: "chain_height c = base + length bs" using represents_height [OF rep] bh l(2) by simp
  have "represents (e_xof E) c' (drop m bs @ [b])" using represents_append [OF rep a] room ht by simp
  moreover have "ch_base_height c' = base + m" "ch_anchor_prev_hash c' = prev_at anchor bs m"
    using a bh by (auto simp: append_stored_block_def result_simps Let_def)
  ultimately have v: "verify_stored_blocks_structure (e_xof E) (Suc (base + m)) (prev_at anchor bs m) (drop m (bs @ [b])) = Ok ()"
    using l(2) by (simp add: represents_def)
  have "verify_stored_blocks_structure (e_xof E) (Suc base) anchor (take m bs @ drop m bs) = Ok ()" using g by (simp add: good_chain_def)
  then have front: "verify_stored_blocks_structure (e_xof E) (Suc base) anchor (take m bs) = Ok ()" unfolding verify_append by blast
  have prev: "(if take m bs = [] then anchor else hash_of (last (take m bs))) = prev_at anchor bs m"
    using l(2) by (cases "m = 0"; cases "bs = []") (auto simp: prev_at_def last_conv_nth)
  have "verify_stored_blocks_structure (e_xof E) (Suc base) anchor (take m bs @ drop m (bs @ [b])) = Ok ()"
    unfolding verify_append prev using front v l(2) by simp
  moreover have "take m bs @ drop m (bs @ [b]) = bs @ [b]" using l(2) by simp
  ultimately show ?thesis using g p b by (auto simp: good_chain_def)
qed

text \<open>
  A transaction of the block does not encode to bytes with the hash that the block lists.  The bytes that a transaction is received in
  may be such: the decoder accepts the fields of a transaction in any order.
\<close>

definition misencoded :: "env \<Rightarrow> stored_block \<Rightarrow> bool" where
"misencoded E b = (\<exists>i < length (sb_included_transactions b).
   \<forall>raw. encode_tx E (sb_included_transactions b ! i) = Ok raw \<longrightarrow> compute_tx_hash E raw \<noteq> bl_tx_hashes (sb_block b) ! i)"

lemma map_r_Ok_nth: "map_r f xs = Ok ys \<Longrightarrow> length ys = length xs \<and> (\<forall>i < length xs. f (xs ! i) = Ok (ys ! i))"
proof (induction xs arbitrary: ys)
  case (Cons x xs)
  then obtain y zs where "f x = Ok y" "map_r f xs = Ok zs" "ys = y # zs" by (auto simp: result_simps)
  then show ?case using Cons.IH [of zs] by (auto simp: nth_Cons split: nat.split)
qed simp

lemma misencoded_unreadable:
  assumes "misencoded E b" "stored_block_into_record E b = Ok r"
  shows "\<not> is_ok (record_into_stored_block E r h)"
proof
  assume "is_ok (record_into_stored_block E r h)"
  then obtain txs where txs: "map_r (restore_tx E h (bc_tx_hashes r)) (enumerate 0 (bc_tx_bodies r)) = Ok txs"
    by (auto simp: record_into_stored_block_def is_ok_def result_simps split: if_splits result.splits)
  obtain raws where raws: "map_r (\<lambda>(tx_index, tx). map_err (SE_TxEncodeFailed (height_of b) tx_index) (encode_tx E tx))
      (enumerate 0 (sb_included_transactions b)) = Ok raws" "bc_tx_bodies r = raws" "bc_tx_hashes r = bl_tx_hashes (sb_block b)"
    using assms(2) by (auto simp: stored_block_into_record_def Let_def result_simps)
  obtain i where i: "i < length (sb_included_transactions b)"
    "\<And>raw. encode_tx E (sb_included_transactions b ! i) = Ok raw \<Longrightarrow> compute_tx_hash E raw \<noteq> bl_tx_hashes (sb_block b) ! i"
    using assms(1) by (auto simp: misencoded_def)
  have len: "length raws = length (sb_included_transactions b)" using map_r_Ok_nth [OF raws(1)] by simp
  have "encode_tx E (sb_included_transactions b ! i) = Ok (raws ! i)"
    using map_r_Ok_nth [OF raws(1)] i(1) by (auto simp: nth_enumerate_eq result_simps)
  moreover have "is_ok (restore_tx E h (bc_tx_hashes r) (i, raws ! i))"
    using map_r_Ok_nth [OF txs] i(1) len raws(2) by (simp add: nth_enumerate_eq is_ok_def)
  then have "compute_tx_hash E (raws ! i) = bl_tx_hashes (sb_block b) ! i"
    using raws(3) by (auto simp: restore_tx_def Let_def is_ok_def split: if_splits)
  ultimately show False using i(2) by blast
qed

lemma load_blocks_last:
  "load_blocks E S D policy d m (hs @ [k]) acc = Ok x \<Longrightarrow> \<exists>acc'. load_blocks E S D policy d m [k] acc' = Ok x"
proof (induction hs arbitrary: acc)
  case (Cons h hs)
  obtain c bf hf where "acc = (c, bf, hf)" by (cases acc)
  then obtain acc' where "load_blocks E S D policy d m (hs @ [k]) acc' = Ok x"
    using Cons.prems by (auto simp: Let_def result_simps split: if_splits)
  then show ?case by (rule Cons.IH)
next
  case Nil
  then show ?case unfolding append_Nil by blast
qed

text \<open>A directory whose last block cannot be read does not open.\<close>

lemma open_unreadable:
  assumes tip: "dk_tip d = Some t" "sd_read_tip S t = Some (Suc n, hb)" and first: "hhas (dk_blocks d) (block_file_name 1)"
    and top: "\<And>m. m < U64_MAX \<Longrightarrow> hhas (dk_blocks d) (block_file_name (Suc m)) \<Longrightarrow> m \<le> n"
    and last: "hget (dk_blocks d) (block_file_name (Suc n)) = Some bs"
      "\<And>r. sd_read_block S bs = Some r \<Longrightarrow> \<not> is_ok (record_into_stored_block E r (Suc n))"
  shows "\<not> is_ok (open_internal E S D d anchor policy)"
proof
  assume "is_ok (open_internal E S D d anchor policy)"
  then obtain ds where ds: "open_internal E S D d anchor policy = Ok ds" by (auto simp: is_ok_iff)
  then obtain w where w: "checkpoint_window S d = Ok w" using first by (auto simp: open_internal_def result_simps split: if_splits)
  define lo where "lo = (case w of Some (h, _) \<Rightarrow> h + 1 | None \<Rightarrow> 1)"
  have "lo \<le> Suc n"
  proof (cases w)
    case (Some hw)
    obtain h tip where "hw = (h, tip)" by (cases hw)
    then show ?thesis using window_file [of S d h tip] w top Some by (simp add: lo_def)
  qed (simp add: lo_def)
  obtain c acc where "load_blocks E S D policy d lo [1..<Suc (Suc n)] (c, [], []) = Ok acc"
    using ds first w tip by (cases w) (auto simp: open_internal_def result_simps lo_def Let_def simp del: upt_Suc split: if_splits)
  then have "load_blocks E S D policy d lo ([1..<Suc n] @ [Suc n]) (c, [], []) = Ok acc" by simp
  then obtain acc' where "load_blocks E S D policy d lo [Suc n] acc' = Ok acc" using load_blocks_last by blast
  moreover obtain c' bf hf where "acc' = (c', bf, hf)" by (cases acc')
  ultimately show False
    using last \<open>lo \<le> Suc n\<close> by (auto simp: Let_def result_simps load_tail_block_def is_ok_iff split: if_splits)
qed

lemma append_height:
  assumes l: "loaded (e_xof E) base anchor m bs (length bs) c" "m \<le> length bs"
    and a: "append_stored_block (e_xof E) b c = Ok (c', mt)" and room: "base + length bs + 2 < U64_MAX"
  shows "height_of b = Suc (base + length bs)"
proof -
  have rep: "represents (e_xof E) c (drop m bs)" and bh: "ch_base_height c = base + m" using l by (simp_all add: loaded_def)
  have "represents (e_xof E) c' (drop m bs @ [b])" using represents_append [OF rep a] represents_height [OF rep] room bh l(2) by simp
  moreover have "ch_base_height c' = base + m" using a bh by (auto simp: append_stored_block_def result_simps Let_def)
  ultimately show ?thesis
    using verify_heights [of "e_xof E" "Suc (base + m)" "ch_anchor_prev_hash c'" "drop m bs @ [b]" "length bs - m"] l(2)
    by (simp add: represents_def nth_append)
qed

text \<open>What the files of an append are for the next opening, when the block file holds \<open>bytes\<close>.\<close>

lemma appended_unreadable:
  assumes d: "disk_holds E S d bs" and g: "good_chain E D policy 0 anchor bs" and laws: "serde_laws E S bs"
    and ht: "h = Suc (length bs)" "h < U64_MAX"
    and d': "dk_blocks d' = hput (block_file_name h) bytes (dk_blocks d)" "dk_tip d' = Some (sd_write_tip S (h, hb))"
    and bad: "\<And>r. sd_read_block S bytes = Some r \<Longrightarrow> \<not> is_ok (record_into_stored_block E r h)"
  shows "\<not> is_ok (open_internal E S D d' anchor policy)"
proof -
  have tip: "sd_read_tip S (sd_write_tip S (h, hb)) = Some (Suc (length bs), hb)" using laws ht by (simp add: serde_laws_def)
  have names: "hhas (dk_blocks d') k \<longleftrightarrow> k = block_file_name h \<or> k \<in> (\<lambda>b. block_file_name (height_of b)) ` set bs" for k
    using d d'(1) by (auto simp: hhas_def hget_hput disk_holds_def map_of_eq_None_iff image_image dest!: map_of_SomeD)
      (metis (mono_tags, lifting) image_eqI map_of_eq_None_iff option.distinct(1) image_image list.set_map not_None_eq fst_conv)
  have top: "m \<le> length bs" if m: "m < U64_MAX" "hhas (dk_blocks d') (block_file_name (Suc m))" for m
  proof (cases "block_file_name (Suc m) = block_file_name h")
    case True
    then show ?thesis using m(1) ht by (simp add: block_file_name_inj)
  next
    case False
    then obtain i where "i < length bs" "block_file_name (Suc m) = block_file_name (height_of (bs ! i))"
      using m(2) names by (auto simp: in_set_conv_nth)
    then show ?thesis using good_heights [OF g] m(1) by (simp add: block_file_name_inj)
  qed
  have first: "hhas (dk_blocks d') (block_file_name 1)"
  proof (cases bs)
    case (Cons b bs')
    then show ?thesis using names good_heights(1) [OF g, of 0] by force
  qed (use names ht in simp)
  have "hget (dk_blocks d') (block_file_name (Suc (length bs))) = Some bytes" using d'(1) ht by simp
  then show ?thesis using open_unreadable [OF d'(2) tip first top] bad ht(1) by blast
qed

lemma append_completed:
  assumes st: "stores E S D policy anchor d bs" and laws: "serde_laws E S (bs @ [b])" and m: "m \<le> length bs"
    and l: "loaded (e_xof E) 0 anchor m bs (length bs) c" and a: "append_stored_block (e_xof E) b c = Ok (c', mt)"
    and p: "validate_commit_proof (e_xof E) D policy (sb_block b) = Ok ()" and b: "hash_of b \<notin> hash_of ` set bs" "length bs + 2 < U64_MAX"
    and r: "stored_block_into_record E b = Ok r" and d': "d' = (fold fs_step (map fst (persist_ops S b r)) d)\<lparr> dk_fault := None \<rparr>"
  shows "storable E b \<Longrightarrow> stores E S D policy anchor d' (bs @ [b])"
    and "misencoded E b \<Longrightarrow> \<not> is_ok (open_internal E S D d' anchor policy)"
proof -
  have dh: "disk_holds E S d bs" and g: "good_chain E D policy 0 anchor bs" and staging: "dk_staging d = []"
    using st by (simp_all add: stores_def disk_holds_def)
  show "stores E S D policy anchor d' (bs @ [b])" if "storable E b"
    using append_good [OF g l m a p that b(1)] b(2) stores_snoc [OF st r] by (simp add: d' stores_fault)
  assume bad: "misencoded E b"
  have ht: "height_of b = Suc (length bs)" using append_height [OF l m a] b(2) by simp
  have "sd_read_block S (sd_write_block S r) = Some r" "serde_laws E S bs" using laws r by (simp_all add: serde_laws_def)
  then show "\<not> is_ok (open_internal E S D d' anchor policy)"
    using appended_unreadable [OF dh g _ ht, of d' "sd_write_block S r" "hash_of b"] b(2) misencoded_unreadable [OF bad r] d' ht
    by (simp add: persist_complete [OF staging])
qed

text \<open>
  C13: An append survives any interruption.  Take a directory that holds the chain \<open>bs\<close>, opened, and a
  block that the chain in memory accepts.  A block that cannot be encoded is refused and changes nothing.  Otherwise, however many of the nine file
  operations succeed, \<open>k\<close>, the next opening finds the old chain (none of them did) or refuses with an incomplete write (some did), and the append
  fails; when all did, the append reports success, and then there are two cases.  If the transactions of the block encode to the hashes that it lists and
  decode again (\<open>storable\<close>), the next opening finds the chain with the block.  If one of them encodes to another hash, no opening succeeds any more.
  The hash of the block must not be that of an earlier one, which the append itself checks only for the blocks in memory.
\<close>

theorem append_survives_crash:
  assumes "stores E S D policy anchor d bs" "serde_laws E S (bs @ [b])"
    and "open_internal E S D d anchor policy = Ok ds"
    and "validate_commit_proof (e_xof E) D policy (sb_block b) = Ok ()" "append_stored_block (e_xof E) b (ds_chain ds) = Ok (c', mt)"
    and "hash_of b \<notin> hash_of ` set bs" "length bs + 2 < U64_MAX"
    and "disk_append_stored_block E S D (ds\<lparr> ds_disk := d\<lparr> dk_fault := Some (Stops k) \<rparr> \<rparr>) b = (ds', res)"
    and "d' = (ds_disk ds')\<lparr> dk_fault := None \<rparr>"
  shows "if \<not> is_ok (stored_block_into_record E b) \<or> k = 0 then \<not> is_ok res \<and> opens_as E S D policy anchor d' bs
    else if k < 9 then \<not> is_ok res \<and> open_internal E S D d' anchor policy = Err SE_IncompleteWriteDetected
    else res = Ok mt \<and> ds_chain ds' = c'
      \<and> (storable E b \<longrightarrow> stores E S D policy anchor d' (bs @ [b]) \<and> opens_as E S D policy anchor d' (bs @ [b]))
      \<and> (misencoded E b \<longrightarrow> \<not> is_ok (open_internal E S D d' anchor policy))"
proof -
  have laws: "serde_laws E S bs" using assms(2) by (simp add: serde_laws_def)
  obtain m where ds: "ds_commit_policy ds = policy" "ds_disk ds = d" and m: "m \<le> length bs"
    and l: "loaded (e_xof E) 0 anchor m bs (length bs) (ds_chain ds)"
    using stores_open_Ok [OF assms(1) laws] assms(3) by auto
  have staging: "dk_staging d = []" using assms(1) by (simp add: stores_def disk_holds_def)
  have app: "disk_append_stored_block E S D (ds\<lparr> ds_disk := d\<lparr> dk_fault := Some (Stops k) \<rparr> \<rparr>) b
      = commit_trial E S (ds\<lparr> ds_disk := d\<lparr> dk_fault := Some (Stops k) \<rparr> \<rparr>) b (c', mt)"
    using assms(4,5) ds by (simp add: disk_append_stored_block_def or_unchanged_def)
  show ?thesis
  proof (cases "stored_block_into_record E b")
    case (Ok r)
    let ?ops = "persist_ops S b r"
    let ?run = "\<lambda>n. fold fs_step (map fst (take n ?ops)) d"
    have run: "run_ops ?ops (d\<lparr> dk_fault := Some (Stops k) \<rparr>)
        = (if k < 9 then ((?run k)\<lparr> dk_fault := Some (Stops 0) \<rparr>, Err (snd (?ops ! k))) else ((?run 9)\<lparr> dk_fault := Some (Stops (k - 9)) \<rparr>, Ok ()))"
      unfolding run_ops_limited by simp
    show ?thesis
    proof (cases "k < 9")
      case True
      then have d': "d' = (?run k)\<lparr> dk_fault := None \<rparr>" and res: "res = Err (snd (?ops ! k))"
        using assms(8,9) app run Ok by (auto simp: commit_trial_def persist_stored_block_def)
      have "dk_staging d' \<noteq> []" if "0 < k" using persist_partial [OF staging that True] d' by simp
      then show ?thesis
        using True res stores_opens [OF _ laws, of D policy anchor d'] assms(1) d' Ok
        by (auto simp: open_internal_def stores_fault)
    next
      case False
      then have d': "d' = (?run 9)\<lparr> dk_fault := None \<rparr>" and res: "res = Ok mt" "ds_chain ds' = c'"
        using assms(8,9) app run Ok by (auto simp: commit_trial_def persist_stored_block_def)
      have "d' = (fold fs_step (map fst ?ops) d)\<lparr> dk_fault := None \<rparr>" using d' by simp
      note append_completed [OF assms(1,2) m l assms(5,4,6,7) Ok this]
      then show ?thesis using False res Ok stores_opens [OF _ assms(2)] by auto
    qed
  qed (use assms(1,8,9) app stores_opens [OF _ laws] in \<open>auto simp: commit_trial_def persist_stored_block_def stores_fault\<close>)
qed

definition first_block :: stored_block where
"first_block =
   (let b = \<lparr> bl_header = (block_header_default demo_xof)\<lparr> bh_height := 1, bh_prev_hash := replicate 32 7 \<rparr>,
              bl_tx_hashes = [], bl_commit_signatures = [] \<rparr>
    in \<lparr> sb_block = b,
         sb_metadata = \<lparr> bm_block_hash = compute_block_hash demo_xof b, bm_height = 1, bm_prev_hash = replicate 32 7,
           bm_state_root = replicate 32 0, bm_tx_root = replicate 32 0, bm_timestamp = 0, bm_bytes_used = 0,
           bm_included_count = 0, bm_deferred_count = 0, bm_skipped_count = 0, bm_vc_budget_consumed = 0 \<rparr>,
         sb_included_transactions = [] \<rparr>)"

definition null_backend :: signature_backend where
"null_backend = \<lparr> sg_key_decodes = \<lambda>_ _. False, sg_signature_decodes = \<lambda>_ _. False, sg_verifies = \<lambda>_ _ _ _. False \<rparr>"

definition empty_disk :: disk where
"empty_disk = \<lparr> dk_blocks = [], dk_hashes = [], dk_staging = [], dk_checkpoint = None, dk_tip = None, dk_fault = None \<rparr>"

text \<open>A serialisation that is faithful for the records of this example.\<close>

definition demo_serde :: "stored_block_record \<Rightarrow> trusted_checkpoint_record option \<Rightarrow> serde" where
"demo_serde r ck = \<lparr> sd_write_block = \<lambda>_. [1], sd_read_block = \<lambda>_. Some r,
   sd_write_index = \<lambda>n. replicate n 1, sd_read_index = \<lambda>bs. Some (length bs),
   sd_write_tip = \<lambda>(n, h). replicate n 1 @ [0] @ h, sd_read_tip = \<lambda>bs. let k = length (takeWhile (\<lambda>x. x = 1) bs) in Some (k, drop (k + 1) bs),
   sd_write_checkpoint = \<lambda>_. [2], sd_read_checkpoint = \<lambda>_. ck \<rparr>"

lemma demo_serde_tip: "sd_read_tip (demo_serde r ck) (sd_write_tip (demo_serde r ck) t) = Some t"
proof -
  obtain n h where t: "t = (n, h)" by fastforce
  have "takeWhile (\<lambda>x. x = (1 :: byte)) (replicate n 1 @ 0 # h) = replicate n 1" by (induction n) simp_all
  then show ?thesis by (simp add: demo_serde_def t)
qed

lemma demo_serde_laws: "stored_block_into_record E b = Ok r \<Longrightarrow> serde_laws E (demo_serde r ck) [b]"
  using demo_serde_tip by (simp add: serde_laws_def) (simp add: demo_serde_def)

lemma first_append: "\<exists>c mt. append_stored_block demo_xof first_block (chain_new_with_base (replicate 32 7) 0) = Ok (c, mt)"
proof -
  let ?c = "chain_new_with_base (replicate 32 7) 0"
  have "block_fits demo_xof 1 (replicate 32 7) first_block"
    by (simp add: block_fits_def first_block_def Let_def block_header_default_def del: replicate.simps)
  then have "verify_stored_blocks_structure demo_xof (Suc (ch_base_height ?c)) (ch_anchor_prev_hash ?c) ([] @ [first_block]) = Ok ()"
    by (simp add: verify_Cons verify_Nil U64_MAX_def chain_new_with_base_def del: replicate.simps)
  then show ?thesis using represents_extend [OF chain_new_represents] by (fastforce simp: U64_MAX_def)
qed

lemma first_storable: "storable demo_env first_block"
  by (simp add: storable_def first_block_def Let_def)

lemma genesis_stores: "stores demo_env S null_backend None (replicate 32 7) empty_disk []"
  by (simp add: stores_def disk_holds_def good_chain_def verify_Nil U64_MAX_def empty_disk_def
      read_snapshot_base_if_present_def fun_eq_iff del: replicate.simps)

lemma genesis_opens: "open_internal demo_env S null_backend empty_disk (replicate 32 7) None
    = Ok \<lparr> ds_disk = empty_disk, ds_chain = chain_new_with_base (replicate 32 7) 0, ds_commit_policy = None, ds_genesis_anchor = replicate 32 7 \<rparr>"
  by (simp add: open_internal_def empty_disk_def read_snapshot_base_if_present_def checkpoint_window_def hhas_def del: replicate.simps)

theorem append_survives_crash_witness:
  "\<exists>S ds c mt ds' d'. open_internal demo_env S null_backend empty_disk (replicate 32 7) None = Ok ds
     \<and> append_stored_block demo_xof first_block (ds_chain ds) = Ok (c, mt)
     \<and> disk_append_stored_block demo_env S null_backend (ds\<lparr> ds_disk := empty_disk\<lparr> dk_fault := Some (Stops 9) \<rparr> \<rparr>) first_block = (ds', Ok mt)
     \<and> d' = (ds_disk ds')\<lparr> dk_fault := None \<rparr> \<and> opens_as demo_env S null_backend None (replicate 32 7) d' [first_block]"
proof -
  have X: "e_xof demo_env = demo_xof" by (simp add: demo_env_def)
  have st: "storable demo_env first_block" by (rule first_storable)
  then obtain r where r: "stored_block_into_record demo_env first_block = Ok r" using stored_block_restored by blast
  define S where "S = demo_serde r None"
  have laws: "serde_laws demo_env S ([] @ [first_block])" using demo_serde_laws [OF r] by (simp add: S_def)
  let ?c = "chain_new_with_base (replicate 32 7) 0"
  obtain c mt where c: "append_stored_block demo_xof first_block ?c = Ok (c, mt)" using first_append by blast
  obtain ds' res where app: "disk_append_stored_block demo_env S null_backend
      (\<lparr> ds_disk = empty_disk, ds_chain = ?c, ds_commit_policy = None, ds_genesis_anchor = replicate 32 7 \<rparr>
        \<lparr> ds_disk := empty_disk\<lparr> dk_fault := Some (Stops 9) \<rparr> \<rparr>) first_block = (ds', res)" by fastforce
  have "res = Ok mt \<and> opens_as demo_env S null_backend None (replicate 32 7) ((ds_disk ds')\<lparr> dk_fault := None \<rparr>) ([] @ [first_block])"
    using append_survives_crash [OF genesis_stores laws genesis_opens _ _ _ _ app refl, of c mt] c st r
    by (simp add: validate_commit_proof_def X U64_MAX_def)
  then show ?thesis
    using genesis_opens [of S] c app
    by (intro exI [of _ S] exI [of _ "\<lparr> ds_disk = empty_disk, ds_chain = ?c, ds_commit_policy = None, ds_genesis_anchor = replicate 32 7 \<rparr>"]
        exI [of _ c] exI [of _ mt] exI [of _ ds']) simp
qed

text \<open>The bytes that a buffer still holds when it is dropped are lost, and nobody hears of it.\<close>

lemma persist_lossy:
  assumes "dk_staging d = []"
  shows "run_ops (persist_ops S stored r) (d\<lparr> dk_fault := Some (Loses (Suc 0) n) \<rparr>)
    = (d\<lparr> dk_blocks := hput (block_file_name (height_of stored)) (take n (sd_write_block S r)) (dk_blocks d),
         dk_hashes := hput (hash_index_file_name (hash_of stored)) (sd_write_index S (height_of stored)) (dk_hashes d),
         dk_tip := Some (sd_write_tip S (height_of stored, hash_of stored)), dk_fault := None \<rparr>, Ok ())"
proof -
  have names: "format_height (height_of stored) @ ''.block.tmp'' \<noteq> hex_encode (hash_of stored) @ ''.hash.tmp''"
    "format_height (height_of stored) @ ''.block.tmp'' \<noteq> ''tip.tmp''" "hex_encode (hash_of stored) @ ''.hash.tmp'' \<noteq> ''tip.tmp''"
    by (rule stage_names_distinct)+
  show ?thesis
    using assms names names [symmetric]
    by (simp add: persist_ops_def write_cbor_def Let_def hput_def hdel_def hget_def)
qed

text \<open>
  C28: A lost flush goes unnoticed.  When the buffer of the block file loses its last bytes as it is dropped, so that the file is cut after
  \<open>n\<close> bytes and no longer decodes, the append still reports success, the chain in memory has the block, and the directory never opens again.
\<close>

theorem lost_flush_unnoticed:
  assumes "stores E S D policy anchor d bs" "serde_laws E S bs" "open_internal E S D d anchor policy = Ok ds"
    and "validate_commit_proof (e_xof E) D policy (sb_block b) = Ok ()" "append_stored_block (e_xof E) b (ds_chain ds) = Ok (c', mt)"
    and "length bs + 2 < U64_MAX" "stored_block_into_record E b = Ok r" "sd_read_block S (take n (sd_write_block S r)) = None"
    and "disk_append_stored_block E S D (ds\<lparr> ds_disk := d\<lparr> dk_fault := Some (Loses 1 n) \<rparr> \<rparr>) b = (ds', res)"
  shows "res = Ok mt \<and> ds_chain ds' = c' \<and> dk_fault (ds_disk ds') = None
    \<and> \<not> is_ok (open_internal E S D (ds_disk ds') anchor policy)"
proof -
  obtain m where ds: "ds_commit_policy ds = policy" "ds_disk ds = d" and m: "m \<le> length bs"
    and l: "loaded (e_xof E) 0 anchor m bs (length bs) (ds_chain ds)"
    using stores_open_Ok [OF assms(1,2)] assms(3) by auto
  have dh: "disk_holds E S d bs" and g: "good_chain E D policy 0 anchor bs" and staging: "dk_staging d = []"
    using assms(1) by (simp_all add: stores_def disk_holds_def)
  have ht: "height_of b = Suc (length bs)" using append_height [OF l m assms(5)] assms(6) by simp
  have "disk_append_stored_block E S D (ds\<lparr> ds_disk := d\<lparr> dk_fault := Some (Loses (Suc 0) n) \<rparr> \<rparr>) b
      = commit_trial E S (ds\<lparr> ds_disk := d\<lparr> dk_fault := Some (Loses (Suc 0) n) \<rparr> \<rparr>) b (c', mt)"
    using assms(4,5) ds by (simp add: disk_append_stored_block_def or_unchanged_def)
  then have ds': "res = Ok mt" "ds_chain ds' = c'" "dk_fault (ds_disk ds') = None"
    "dk_blocks (ds_disk ds') = hput (block_file_name (height_of b)) (take n (sd_write_block S r)) (dk_blocks d)"
    "dk_tip (ds_disk ds') = Some (sd_write_tip S (height_of b, hash_of b))"
    using assms(7,9) by (auto simp: commit_trial_def persist_stored_block_def persist_lossy [OF staging])
  then show ?thesis using appended_unreadable [OF dh g assms(2) ht _ ds'(4,5)] assms(6,8) ht by simp
qed

definition strict_serde :: "stored_block_record \<Rightarrow> serde" where
"strict_serde r = (demo_serde r None)\<lparr> sd_read_block := \<lambda>bs. if bs = [1] then Some r else None \<rparr>"

theorem lost_flush_unnoticed_witness:
  "\<exists>S ds mt ds'. open_internal demo_env S null_backend empty_disk (replicate 32 7) None = Ok ds
     \<and> disk_append_stored_block demo_env S null_backend (ds\<lparr> ds_disk := empty_disk\<lparr> dk_fault := Some (Loses 1 0) \<rparr> \<rparr>) first_block = (ds', Ok mt)
     \<and> \<not> is_ok (open_internal demo_env S null_backend (ds_disk ds') (replicate 32 7) None)"
proof -
  have X: "e_xof demo_env = demo_xof" by (simp add: demo_env_def)
  obtain r where r: "stored_block_into_record demo_env first_block = Ok r" using stored_block_restored [OF first_storable] by blast
  define S where "S = strict_serde r"
  have laws: "serde_laws demo_env S []"
    using demo_serde_tip [of r None] by (simp add: serde_laws_def S_def strict_serde_def) (simp add: demo_serde_def)
  have cut: "sd_read_block S (take 0 (sd_write_block S r)) = None" by (simp add: S_def strict_serde_def)
  let ?c = "chain_new_with_base (replicate 32 7) 0"
  obtain c mt where c: "append_stored_block demo_xof first_block ?c = Ok (c, mt)" using first_append by blast
  obtain ds' res where app: "disk_append_stored_block demo_env S null_backend
      (\<lparr> ds_disk = empty_disk, ds_chain = ?c, ds_commit_policy = None, ds_genesis_anchor = replicate 32 7 \<rparr>
        \<lparr> ds_disk := empty_disk\<lparr> dk_fault := Some (Loses 1 0) \<rparr> \<rparr>) first_block = (ds', res)" by fastforce
  have "res = Ok mt \<and> \<not> is_ok (open_internal demo_env S null_backend (ds_disk ds') (replicate 32 7) None)"
    using lost_flush_unnoticed [OF genesis_stores laws genesis_opens _ _ _ r cut app, of c mt] c
    by (simp add: validate_commit_proof_def X U64_MAX_def)
  then show ?thesis using genesis_opens [of S] app
    by (intro exI [of _ S] exI [of _ "\<lparr> ds_disk = empty_disk, ds_chain = ?c, ds_commit_policy = None, ds_genesis_anchor = replicate 32 7 \<rparr>"]
        exI [of _ mt] exI [of _ ds']) simp
qed

section \<open>Checkpoints of a store\<close>

definition checkpoint_record :: "trusted_checkpoint_metadata \<Rightarrow> state_store \<Rightarrow> trusted_checkpoint_record" where
"checkpoint_record meta s = \<lparr> ck_version = STATE_FORMAT_VERSION, ck_height = tm_height meta, ck_tip_hash = tm_tip_hash meta,
   ck_state_root = tm_state_root meta, ck_state = state_into_record s \<rparr>"

lemma write_checkpoint_Ok:
  assumes "write_trusted_checkpoint X S ds s = (ds', Ok meta)" "dk_fault (ds_disk ds) = None" "dk_staging (ds_disk ds) = []"
  shows "ds' = ds\<lparr> ds_disk := (ds_disk ds)\<lparr> dk_checkpoint := Some (sd_write_checkpoint S (checkpoint_record meta s)) \<rparr> \<rparr>
    \<and> tm_height meta = st_block_height s \<and> st_block_height s = chain_height (ds_chain ds)
    \<and> tm_tip_hash meta = or_anchor (ds_chain ds) \<and> tm_state_root meta = state_root X s
    \<and> (if st_block_height s = 0 then ch_anchor_prev_hash (ds_chain ds) = or_anchor (ds_chain ds)
       else \<forall>m. get_metadata_by_height (ds_chain ds) (st_block_height s) = Some m
         \<longrightarrow> bm_block_hash m = or_anchor (ds_chain ds) \<and> bm_state_root m = state_root X s)"
proof -
  have run: "run_ops (write_cbor ''trusted-checkpoint.tmp'' bytes @ checkpoint_ops) (ds_disk ds)
      = ((ds_disk ds)\<lparr> dk_checkpoint := Some bytes \<rparr>, Ok ())" for bytes
    unfolding run_ops_unlimited [OF assms(2)]
    using assms(3) by (simp add: write_cbor_def checkpoint_ops_def hput_def hdel_def hget_def)
  show ?thesis
    using assms(1) unfolding write_trusted_checkpoint_def Let_def finish_write_def run
    by (auto simp: checkpoint_record_def split: if_splits option.splits)
qed

text \<open>
  A checkpoint and what it loads.  After a checkpoint was written, loading it returns a state with the recorded root whenever
  it returns one.  For a state that the snapshot record can describe it does return one, with the same tables.  For any other state it
  returns nothing or, against the collision resistance of the hash, a state without the parts that the record has no field for.
\<close>

theorem checkpoint_load:
  assumes "write_trusted_checkpoint X S ds s = (ds', Ok meta)" "dk_fault (ds_disk ds) = None" "dk_staging (ds_disk ds) = []"
    and "sd_read_checkpoint S (sd_write_checkpoint S (checkpoint_record meta s)) = Some (checkpoint_record meta s)"
  shows "(store_wf X s \<and> recordable X s \<longrightarrow> (\<exists>t. load_valid_checkpoint X S ds' cid = Ok (Some (meta, t)) \<and> same_tables s t))
    \<and> (\<forall>m t. load_valid_checkpoint X S ds' cid = Ok (Some (m, t)) \<longrightarrow>
         m = meta \<and> state_root X t = state_root X s \<and> unrecorded_initial X t \<and> fd_excess (fm_compute (st_fee_market t)) = 0)"
proof -
  let ?r = "checkpoint_record meta s"
  note w = write_checkpoint_Ok [OF assms(1-3)]
  have disk: "Option.bind (dk_checkpoint (ds_disk ds')) (sd_read_checkpoint S) = Some ?r" "ds_chain ds' = ds_chain ds"
    using w assms(4) by auto
  have fields: "ck_version ?r = STATE_FORMAT_VERSION" "ck_height ?r = tm_height meta" "ck_tip_hash ?r = tm_tip_hash meta"
    "ck_state_root ?r = tm_state_root meta" "ck_state ?r = state_into_record s" by (simp_all add: checkpoint_record_def)
  have eq: "load_valid_checkpoint X S ds' cid = (case record_into_state X (state_into_record s) cid of
      Err _ \<Rightarrow> Ok None | Panic \<Rightarrow> Panic
    | Ok u \<Rightarrow> if st_block_height u \<noteq> tm_height meta \<or> state_root X u \<noteq> tm_state_root meta then Ok None
        else if tm_height meta = 0 then Ok (if tm_tip_hash meta \<noteq> ch_anchor_prev_hash (ds_chain ds) then None else Some (meta, u))
        else case get_metadata_by_height (ds_chain ds) (tm_height meta) of
          Some c \<Rightarrow> Ok (if bm_block_hash c \<noteq> tm_tip_hash meta \<or> bm_state_root c \<noteq> tm_state_root meta then None else Some (meta, u))
        | None \<Rightarrow> Ok (Some (meta, u)))"
    unfolding load_valid_checkpoint_def disk by (simp add: fields check_state_format_version_def Let_def split: result.split option.split)
  have "\<exists>t. load_valid_checkpoint X S ds' cid = Ok (Some (meta, t)) \<and> same_tables s t" if wf: "store_wf X s" "recordable X s"
  proof -
    obtain t where t: "record_into_state X (state_into_record s) cid = Ok t" "same_tables s t" "unrecorded_initial X t" "coherent X t"
      using snapshot_restores [OF wf, of cid] by blast
    have root: "state_root X t = state_root X s"
      using same_tables_root [OF _ t(4,2) _ t(3)] wf by (simp add: store_wf_def recordable_def)
    have "st_block_height t = st_block_height s" using t(2) by (simp add: same_tables_def)
    then have "load_valid_checkpoint X S ds' cid = Ok (Some (meta, t))"
      unfolding eq using t(1) root w by (auto split: if_splits option.split)
    then show ?thesis using t(2) by blast
  qed
  moreover have "m = meta \<and> state_root X t = state_root X s \<and> unrecorded_initial X t \<and> fd_excess (fm_compute (st_fee_market t)) = 0"
    if load: "load_valid_checkpoint X S ds' cid = Ok (Some (m, t))" for m t
  proof -
    obtain u where u: "record_into_state X (state_into_record s) cid = Ok u"
      using load unfolding eq by (auto split: result.splits)
    have "m = meta \<and> t = u \<and> state_root X u = tm_state_root meta"
      using load u unfolding eq by (auto split: if_splits option.splits)
    then show ?thesis using w record_into_state_initial [OF u] by simp
  qed
  ultimately show ?thesis by blast
qed

definition first_record :: stored_block_record where
"first_record = (case stored_block_into_record demo_env first_block of Ok r \<Rightarrow> r
   | _ \<Rightarrow> \<lparr> bc_header = \<lparr> hr_header_version = 0, hr_height = 0, hr_prev_hash = [], hr_state_root = [], hr_tx_root = [],
       hr_timestamp = 0, hr_proposer = [], hr_commit_signatures = [], hr_extension_root = [] \<rparr>,
     bc_tx_hashes = [], bc_tx_bodies = [], bc_metadata = sb_metadata first_block \<rparr>)"

text \<open>The witness: the checkpoint of a store without blocks, for a state with one account.\<close>

definition genesis_store :: disk_chain_store where
"genesis_store = \<lparr> ds_disk = empty_disk, ds_chain = chain_new (replicate 32 7), ds_commit_policy = None, ds_genesis_anchor = replicate 32 7 \<rparr>"

theorem checkpoint_load_witness:
  "\<exists>S ds' meta t. write_trusted_checkpoint demo_xof S genesis_store snapshot_state = (ds', Ok meta)
     \<and> load_valid_checkpoint demo_xof S ds' [7] = Ok (Some (meta, t)) \<and> same_tables snapshot_state t"
proof -
  define meta where "meta = \<lparr> tm_height = 0, tm_tip_hash = replicate 32 7, tm_state_root = state_root demo_xof snapshot_state \<rparr>"
  define S where "S = demo_serde first_record (Some (checkpoint_record meta snapshot_state))"
  have "st_block_height snapshot_state = 0" by (simp add: snapshot_state_def insert_account_def store_new_def)
  then obtain ds' where w: "write_trusted_checkpoint demo_xof S genesis_store snapshot_state = (ds', Ok meta)"
    by (simp add: write_trusted_checkpoint_def Let_def genesis_store_def chain_new_def chain_height_def chain_tip_def or_anchor_def
        finish_write_def run_ops_unlimited empty_disk_def meta_def del: replicate.simps)
  have "sd_read_checkpoint S (sd_write_checkpoint S (checkpoint_record meta snapshot_state)) = Some (checkpoint_record meta snapshot_state)"
    by (simp add: S_def demo_serde_def)
  then have "\<exists>t. load_valid_checkpoint demo_xof S ds' [7] = Ok (Some (meta, t)) \<and> same_tables snapshot_state t"
    using checkpoint_load [OF w, of "[7]"] snapshot_state_ok by (simp add: genesis_store_def empty_disk_def)
  then show ?thesis using w by blast
qed

lemma inventory_extra:
  assumes "dir \<noteq> []"
  shows "\<exists>name. name \<in> fst ` set dir \<and> ensure_inventory_exact dir [] mk_error = Err (mk_error name)"
proof (cases "sort (map fst dir)")
  case Nil
  then have "length (map fst dir) = 0" by (metis length_sort list.size(3))
  then show ?thesis using assms by simp
next
  case (Cons name rest)
  then have "name \<in> set (map fst dir)" by (metis list.set_intros(1) set_sort)
  then show ?thesis using Cons assms by (auto simp: ensure_inventory_exact_def Let_def)
qed

text \<open>
  C38: A store that was started from the snapshot of another node, so that block 1 is absent, cannot be opened again once it
  has written a checkpoint of its own above its first block: the opening takes the new checkpoint for the place where the history starts
  and reports the files of the blocks between the two as unexpected.
\<close>

theorem bootstrapped_checkpoint_unopenable:
  assumes "write_trusted_checkpoint X S ds s = (ds', Ok meta)" "dk_fault (ds_disk ds) = None" "dk_staging (ds_disk ds) = []"
    and "sd_read_checkpoint S (sd_write_checkpoint S (checkpoint_record meta s)) = Some (checkpoint_record meta s)"
    and "\<not> hhas (dk_blocks (ds_disk ds)) (block_file_name 1)" "dk_blocks (ds_disk ds) \<noteq> []"
    and "dk_tip (ds_disk ds) = Some tip_bytes" "sd_read_tip S tip_bytes = Some (chain_height (ds_chain ds), tip)"
    and "0 < chain_height (ds_chain ds)" "chain_height (ds_chain ds) < U64_MAX"
  shows "\<exists>name. name \<in> fst ` set (dk_blocks (ds_disk ds))
    \<and> open_internal E S D (ds_disk ds') anchor policy = Err (SE_UnexpectedBlockFile name)"
proof -
  note w = write_checkpoint_Ok [OF assms(1-3)]
  let ?h = "chain_height (ds_chain ds)"
  have base: "read_snapshot_base_if_present S (ds_disk ds') = Ok (Some (?h, tm_tip_hash meta))"
    using w assms(4,9) by (simp add: read_snapshot_base_if_present_def checkpoint_record_def check_state_format_version_def)
  obtain name where name: "name \<in> fst ` set (dk_blocks (ds_disk ds))"
      "ensure_inventory_exact (dk_blocks (ds_disk ds)) [] SE_UnexpectedBlockFile = Err (SE_UnexpectedBlockFile name)"
    using inventory_extra [OF assms(6)] by blast
  then have "open_internal E S D (ds_disk ds') anchor policy = Err (SE_UnexpectedBlockFile name)"
    using w assms(3,5,7,8,10) base by (simp add: open_internal_def Let_def checked_add_def)
  then show ?thesis using name(1) by blast
qed

text \<open>The witness: a store that starts from a snapshot at height five, takes one block and writes a checkpoint.\<close>

definition later_state :: state_store where
"later_state = snapshot_state\<lparr> st_block_height := 6 \<rparr>"

definition later_block :: stored_block where
"later_block =
   (let b = \<lparr> bl_header = (block_header_default demo_xof)\<lparr> bh_height := 6, bh_prev_hash := replicate 32 7,
                bh_state_root := state_root demo_xof later_state \<rparr>,
              bl_tx_hashes = [], bl_commit_signatures = [] \<rparr>
    in \<lparr> sb_block = b,
         sb_metadata = \<lparr> bm_block_hash = compute_block_hash demo_xof b, bm_height = 6, bm_prev_hash = replicate 32 7,
           bm_state_root = state_root demo_xof later_state, bm_tx_root = replicate 32 0, bm_timestamp = 0, bm_bytes_used = 0,
           bm_included_count = 0, bm_deferred_count = 0, bm_skipped_count = 0, bm_vc_budget_consumed = 0 \<rparr>,
         sb_included_transactions = [] \<rparr>)"

definition bootstrapped_store :: disk_chain_store where
"bootstrapped_store = \<lparr> ds_disk = empty_disk, ds_chain = chain_new_with_base (replicate 32 7) 5, ds_commit_policy = None,
   ds_genesis_anchor = replicate 32 7 \<rparr>"

lemma later_append:
  "\<exists>c mt. append_stored_block demo_xof later_block (chain_new_with_base (replicate 32 7) 5) = Ok (c, mt)
     \<and> represents demo_xof c [later_block] \<and> ch_base_height c = 5"
proof -
  let ?c = "chain_new_with_base (replicate 32 7) 5"
  have "block_fits demo_xof 6 (replicate 32 7) later_block"
    by (simp add: block_fits_def later_block_def Let_def block_header_default_def del: replicate.simps)
  then have "verify_stored_blocks_structure demo_xof (Suc (ch_base_height ?c)) (ch_anchor_prev_hash ?c) ([] @ [later_block]) = Ok ()"
    by (simp add: verify_Cons verify_Nil U64_MAX_def chain_new_with_base_def del: replicate.simps)
  from represents_extend [OF chain_new_represents this] show ?thesis by (auto simp: U64_MAX_def chain_new_with_base_def)
qed

theorem bootstrapped_checkpoint_unopenable_witness:
  "\<exists>S ds mt ds' meta name. disk_append_stored_block demo_env S null_backend bootstrapped_store later_block = (ds, Ok mt)
     \<and> write_trusted_checkpoint demo_xof S ds later_state = (ds', Ok meta)
     \<and> open_internal demo_env S null_backend (ds_disk ds') (replicate 32 7) None = Err (SE_UnexpectedBlockFile name)"
proof -
  have X: "e_xof demo_env = demo_xof" by (simp add: demo_env_def)
  have "storable demo_env later_block" by (simp add: storable_def later_block_def Let_def)
  then obtain r where r: "stored_block_into_record demo_env later_block = Ok r" using stored_block_restored by blast
  obtain c mt where c: "append_stored_block demo_xof later_block (chain_new_with_base (replicate 32 7) 5) = Ok (c, mt)"
    "represents demo_xof c [later_block]" "ch_base_height c = 5" using later_append by blast
  have ht: "chain_height c = 6" using represents_height [OF c(2)] c(3) by simp
  have tip: "or_anchor c = hash_of later_block" using represents_prev [OF c(2)] by simp
  have md: "get_metadata_by_height c 6 = Some (sb_metadata later_block)"
    using represents_get [OF c(2), of 0] c(3) by (simp add: get_metadata_by_height_def get_stored_block_by_height_def)
  have lb: "bm_height (sb_metadata later_block) = 6" "bm_state_root (sb_metadata later_block) = state_root demo_xof later_state"
    by (simp_all add: later_block_def Let_def del: replicate.simps)
  define meta where "meta = \<lparr> tm_height = 6, tm_tip_hash = hash_of later_block, tm_state_root = state_root demo_xof later_state \<rparr>"
  define S where "S = demo_serde r (Some (checkpoint_record meta later_state))"
  define d where "d = fold fs_step (map fst (persist_ops S later_block r)) empty_disk"
  define ds where "ds = bootstrapped_store\<lparr> ds_disk := d, ds_chain := c \<rparr>"
  have e: "dk_fault empty_disk = None" "dk_staging empty_disk = []" "dk_blocks empty_disk = []" by (simp_all add: empty_disk_def)
  have app: "disk_append_stored_block demo_env S null_backend bootstrapped_store later_block = (ds, Ok mt)"
    using c(1) r by (simp add: disk_append_stored_block_def bootstrapped_store_def validate_commit_proof_def or_unchanged_def X
        commit_trial_def persist_stored_block_def run_ops_unlimited e ds_def d_def del: replicate.simps)
  have d: "dk_fault d = None" "dk_staging d = []" "dk_blocks d = [(block_file_name 6, sd_write_block S r)]"
      "dk_tip d = Some (sd_write_tip S (6, hash_of later_block))"
    using e unfolding d_def persist_complete [OF e(2)] lb by (simp_all add: hput_def)
  have "st_block_height later_state = 6" by (simp add: later_state_def)
  then obtain ds' where w: "write_trusted_checkpoint demo_xof S ds later_state = (ds', Ok meta)"
    by (simp add: write_trusted_checkpoint_def Let_def ds_def ht tip md lb d finish_write_def run_ops_unlimited meta_def)
  have "block_file_name 6 \<noteq> block_file_name 1" by (subst block_file_name_inj) (simp_all add: U64_MAX_def)
  moreover have "sd_read_tip S (sd_write_tip S (6, hash_of later_block)) = Some (6, hash_of later_block)"
    unfolding S_def by (rule demo_serde_tip)
  moreover have "sd_read_checkpoint S (sd_write_checkpoint S (checkpoint_record meta later_state)) = Some (checkpoint_record meta later_state)"
    by (simp add: S_def demo_serde_def)
  ultimately obtain name where "open_internal demo_env S null_backend (ds_disk ds') (replicate 32 7) None = Err (SE_UnexpectedBlockFile name)"
    using bootstrapped_checkpoint_unopenable [OF w, of _ "hash_of later_block" demo_env null_backend "replicate 32 7" None]
    by (auto simp: ds_def d hhas_def hget_def ht U64_MAX_def)
  then show ?thesis using app w by blast
qed

end
