(* ===== verification/Upgrade.thy ===== *)
theory Upgrade
  imports Apply_Error State_Store
begin

text \<open>
  State migrations (\<open>pqc-state/src/upgrade.rs\<close>): the handlers that were compiled in and the walk along their versions.

  The walk follows the target versions that the handlers name, so it may run forever for handlers that do not increase the version;
  not returning is the value \<open>None\<close>.  It returns for every registry whose handlers increase the version, and for the
  compiled-in registry it brings a state of version one or two to version three unchanged.
\<close>

record upgrade_handler =
  uh_name :: string
  uh_source_version :: nat
  uh_to_version :: nat
  uh_migrate :: "state_store \<Rightarrow> (state_store, apply_error) result"

type_synonym upgrade_registry = "upgrade_handler list"

definition registry_register :: "upgrade_handler \<Rightarrow> upgrade_registry \<Rightarrow> upgrade_registry" where
"registry_register h hs = sort_key uh_source_version (hs @ [h])"

partial_function (option) migration_walk ::
    "upgrade_registry \<Rightarrow> nat \<Rightarrow> nat \<Rightarrow> state_store \<Rightarrow> (state_store, apply_error) result option" where
"migration_walk hs to_version current s =
   (if current < to_version then
      (case List.find (\<lambda>h. uh_source_version h = current) hs of
         None \<Rightarrow> Some (Err (AE_MigrationNoHandler current to_version))
       | Some h \<Rightarrow>
           (case uh_migrate h s of
              Ok t \<Rightarrow> migration_walk hs to_version (uh_to_version h) t
            | Err e \<Rightarrow> Some (Err e)
            | Panic \<Rightarrow> Some Panic))
    else Some (Ok s))"

definition run_migrations ::
    "upgrade_registry \<Rightarrow> state_store \<Rightarrow> nat \<Rightarrow> nat \<Rightarrow> (state_store, apply_error) result option" where
"run_migrations hs s from_version to_version =
   (if from_version = to_version then Some (Ok s) else migration_walk hs to_version from_version s)"

definition V1ToV2Handler :: upgrade_handler where
"V1ToV2Handler = \<lparr> uh_name = ''v1-to-v2-pending-upgrades'', uh_source_version = 1, uh_to_version = 2, uh_migrate = Ok \<rparr>"

definition V2ToV3Handler :: upgrade_handler where
"V2ToV3Handler = \<lparr> uh_name = ''v2-to-v3-tombstoned-validator-leaf'', uh_source_version = 2, uh_to_version = 3, uh_migrate = Ok \<rparr>"

definition global_registry :: upgrade_registry where
"global_registry = registry_register V2ToV3Handler (registry_register V1ToV2Handler [])"

lemma global_registry_eq: "global_registry = [V1ToV2Handler, V2ToV3Handler]"
  by (simp add: global_registry_def registry_register_def V1ToV2Handler_def V2ToV3Handler_def)

section \<open>The walk returns\<close>

definition increasing :: "upgrade_registry \<Rightarrow> bool" where
"increasing hs = (\<forall>h \<in> set hs. uh_source_version h < uh_to_version h)"

lemma migration_walk_returns:
  assumes "increasing hs"
  shows "\<exists>r. migration_walk hs to_version current s = Some r"
proof (induction "to_version - current" arbitrary: current s rule: less_induct)
  case less
  show ?case
  proof (cases "current < to_version")
    case True
    show ?thesis
    proof (cases "List.find (\<lambda>h. uh_source_version h = current) hs")
      case None
      then show ?thesis using True by (subst migration_walk.simps) simp
    next
      case (Some h)
      then have "h \<in> set hs" "uh_source_version h = current" by (auto simp: find_Some_iff)
      then have up: "to_version - uh_to_version h < to_version - current" using assms True by (auto simp: increasing_def)
      show ?thesis using True Some less [OF up] by (subst migration_walk.simps) (auto split: result.split)
    qed
  qed (subst migration_walk.simps, simp)
qed

lemma run_migrations_returns: "increasing hs \<Longrightarrow> \<exists>r. run_migrations hs s from_version to_version = Some r"
  by (simp add: run_migrations_def migration_walk_returns)

lemma global_registry_increasing: "increasing global_registry"
  by (simp add: increasing_def global_registry_eq V1ToV2Handler_def V2ToV3Handler_def)

lemma run_global_migrations:
  "run_migrations global_registry s v 3 = Some (if v = 0 then Err (AE_MigrationNoHandler 0 3) else Ok s)"
proof -
  have "migration_walk global_registry 3 v s = Some (if v = 0 then Err (AE_MigrationNoHandler 0 3) else Ok s)"
  proof -
    have "v = 0 \<or> v = 1 \<or> v = 2 \<or> 3 \<le> v" by arith
    moreover have "migration_walk global_registry 3 w s = Some (Ok s)" if "3 \<le> w" for w
      using that by (subst migration_walk.simps) simp
    moreover have "migration_walk global_registry 3 2 s = Some (Ok s)"
      using calculation(2) [of 3] by (subst migration_walk.simps) (simp add: global_registry_eq V1ToV2Handler_def V2ToV3Handler_def)
    moreover have "migration_walk global_registry 3 1 s = Some (Ok s)"
      using calculation(3) by (subst migration_walk.simps) (simp add: global_registry_eq V1ToV2Handler_def V2ToV3Handler_def)
    moreover have "migration_walk global_registry 3 0 s = Some (Err (AE_MigrationNoHandler 0 3))"
      by (subst migration_walk.simps) (simp add: global_registry_eq V1ToV2Handler_def V2ToV3Handler_def)
    ultimately show ?thesis by auto
  qed
  then show ?thesis by (simp add: run_migrations_def)
qed

end
