(* ===== verification/Rocks_Store.thy ===== *)
theory Rocks_Store
  imports Disk_Store Upgrade
begin

text \<open>
  The chain store of a node on RocksDB (\<open>pqc-consensus/src/storage_rocksdb.rs\<close>): atomic appends and tip swaps, checkpoints,
  pruning, snapshots from other nodes, migration and recovery.

  The database engine is a parameter: a record of the operations that the code calls, on an engine state of any type.  What the code
  relies on (reads after writes, all-or-nothing batches, iteration in key order) is stated in \<open>Rocks_Durable\<close>, with the properties.
  Compaction of the files has no effect that the other calls observe and is left out, and so are the texts of errors that the
  engine and the serialisation report.
\<close>

section \<open>The engine\<close>

datatype cf = CF_BLOCKS | CF_HASH_INDEX | CF_TX_INDEX | CF_CHECKPOINTS | CF_META | CF_SIBLINGS

datatype batch_op =
    Put_cf cf bytes bytes
  | Delete_cf cf bytes
  | Delete_range_cf cf bytes bytes

text \<open>An entry of an iteration is \<open>None\<close> when the engine reports an error there; so is a read.  The Boolean of a write switches
  the write-ahead log off, the one in its result says whether it succeeded.\<close>

record 'db rocksdb =
  db_get :: "'db \<Rightarrow> cf \<Rightarrow> bytes \<Rightarrow> bytes option option"
  db_iter_start :: "'db \<Rightarrow> cf \<Rightarrow> (bytes \<times> bytes) option list"
  db_iter_end :: "'db \<Rightarrow> cf \<Rightarrow> (bytes \<times> bytes) option list"
  db_prefix :: "'db \<Rightarrow> cf \<Rightarrow> bytes \<Rightarrow> (bytes \<times> bytes) option list"
  db_write :: "bool \<Rightarrow> batch_op list \<Rightarrow> 'db \<Rightarrow> 'db \<times> bool"

definition META_TIP_HEIGHT :: bytes where "META_TIP_HEIGHT = bstr ''tip_height''"
definition META_GENESIS_ANCHOR :: bytes where "META_GENESIS_ANCHOR = bstr ''genesis_anchor''"
definition META_SNAPSHOT_BASE_HEIGHT :: bytes where "META_SNAPSHOT_BASE_HEIGHT = bstr ''snapshot_base_height''"
definition META_SNAPSHOT_BASE_HASH :: bytes where "META_SNAPSHOT_BASE_HASH = bstr ''snapshot_base_hash''"
definition META_CHAIN_ID :: bytes where "META_CHAIN_ID = bstr ''chain_id''"

definition get_cf :: "'db rocksdb \<Rightarrow> 'db \<Rightarrow> cf \<Rightarrow> bytes \<Rightarrow> (bytes option, storage_error) result" where
"get_cf R db f k = ok_or (db_get R db f k) SE_RocksDb"

definition write_batch :: "'db rocksdb \<Rightarrow> bool \<Rightarrow> batch_op list \<Rightarrow> 'db \<Rightarrow> 'db \<times> (unit, storage_error) result" where
"write_batch R disable_wal batch db =
   (case db_write R disable_wal batch db of (db', ok) \<Rightarrow> (db', if ok then Ok () else Err SE_RocksDb))"

definition put_cf :: "'db rocksdb \<Rightarrow> cf \<Rightarrow> bytes \<Rightarrow> bytes \<Rightarrow> 'db \<Rightarrow> 'db \<times> (unit, storage_error) result" where
"put_cf R f k v db = write_batch R False [Put_cf f k v] db"

section \<open>Keys and metadata\<close>

definition height_to_key :: "nat \<Rightarrow> bytes" where
"height_to_key height = be_bytes 8 height"

definition key_to_height :: "bytes \<Rightarrow> (nat, storage_error) result" where
"key_to_height bytes =
   (if length bytes \<noteq> 8 then Err (SE_InvalidPersistedValue ''height key must be 8 bytes'') else Ok (from_be_bytes bytes))"

definition read_meta_u64_by_name :: "'db rocksdb \<Rightarrow> 'db \<Rightarrow> bytes \<Rightarrow> (nat option, storage_error) result" where
"read_meta_u64_by_name R db key =
   bind_r (get_cf R db CF_META key) (\<lambda>found.
   case found of None \<Rightarrow> Ok None | Some bytes \<Rightarrow> bind_r (key_to_height bytes) (\<lambda>h. Ok (Some h)))"

definition read_meta_hash_by_name :: "'db rocksdb \<Rightarrow> 'db \<Rightarrow> bytes \<Rightarrow> (hash32 option, storage_error) result" where
"read_meta_hash_by_name R db key =
   bind_r (get_cf R db CF_META key) (\<lambda>found.
   case found of
     None \<Rightarrow> Ok None
   | Some bytes \<Rightarrow> if length bytes \<noteq> 32 then Err (SE_InvalidPersistedValue ''meta hash must be 32 bytes'') else Ok (Some bytes))"

definition write_meta_raw :: "'db rocksdb \<Rightarrow> bytes \<Rightarrow> bytes \<Rightarrow> 'db \<Rightarrow> 'db \<times> (unit, storage_error) result" where
"write_meta_raw R key v db = put_cf R CF_META key v db"

section \<open>Blocks\<close>

definition read_stored_block_from_db :: "'db rocksdb \<Rightarrow> env \<Rightarrow> serde \<Rightarrow> 'db \<Rightarrow> nat \<Rightarrow> (stored_block option, storage_error) result" where
"read_stored_block_from_db R E S db height =
   bind_r (get_cf R db CF_BLOCKS (height_to_key height)) (\<lambda>found.
   case found of
     None \<Rightarrow> Ok None
   | Some bytes \<Rightarrow>
       bind_r (ok_or (sd_read_block S bytes) (SE_Decode ''<block-db>'')) (\<lambda>rcd.
       bind_r (record_into_stored_block E rcd height) (\<lambda>stored. Ok (Some stored))))"

definition append_block_to_batch :: "env \<Rightarrow> serde \<Rightarrow> stored_block \<Rightarrow> batch_op list \<Rightarrow> (batch_op list, storage_error) result" where
"append_block_to_batch E S stored batch =
   (let height_key = height_to_key (bm_height (sb_metadata stored)) in
    bind_r (encode_block_bytes E S stored) (\<lambda>block_cbor.
    Ok (batch @ [Put_cf CF_BLOCKS height_key block_cbor,
                 Put_cf CF_HASH_INDEX (bm_block_hash (sb_metadata stored)) height_key]
        @ map (\<lambda>tx_hash. Put_cf CF_TX_INDEX tx_hash height_key) (bl_tx_hashes (sb_block stored)))))"

definition persist_to_db ::
    "'db rocksdb \<Rightarrow> env \<Rightarrow> serde \<Rightarrow> bool \<Rightarrow> stored_block \<Rightarrow> 'db \<Rightarrow> 'db \<times> (unit, storage_error) result" where
"persist_to_db R E S disable_wal stored db =
   (case append_block_to_batch E S stored [] of
      Ok batch \<Rightarrow> write_batch R disable_wal
        (batch @ [Put_cf CF_META META_TIP_HEIGHT (height_to_key (bm_height (sb_metadata stored)))]) db
    | Err e \<Rightarrow> (db, Err e)
    | Panic \<Rightarrow> (db, Panic))"

definition sibling_key :: "hash32 \<Rightarrow> nat \<Rightarrow> bytes" where
"sibling_key block_hash height = block_hash @ height_to_key height"

definition persist_replace_canonical ::
    "'db rocksdb \<Rightarrow> env \<Rightarrow> serde \<Rightarrow> bool \<Rightarrow> stored_block \<Rightarrow> stored_block \<Rightarrow> 'db \<Rightarrow> 'db \<times> (unit, storage_error) result" where
"persist_replace_canonical R E S disable_wal displaced canonical db =
   (let height = bm_height (sb_metadata canonical);
        height_key = height_to_key height;
        old_hash = bm_block_hash (sb_metadata displaced)
    in case bind_r (encode_block_bytes E S displaced) (\<lambda>d. bind_r (encode_block_bytes E S canonical) (\<lambda>c. Ok (d, c))) of
         Ok (displaced_cbor, canonical_cbor) \<Rightarrow>
           write_batch R disable_wal
             [Put_cf CF_SIBLINGS (sibling_key old_hash height) displaced_cbor,
              Delete_cf CF_HASH_INDEX old_hash,
              Put_cf CF_BLOCKS height_key canonical_cbor,
              Put_cf CF_HASH_INDEX (bm_block_hash (sb_metadata canonical)) height_key,
              Put_cf CF_META META_TIP_HEIGHT height_key] db
       | Err e \<Rightarrow> (db, Err e)
       | Panic \<Rightarrow> (db, Panic))"

section \<open>Checkpoints, newest first\<close>

fun scan_checkpoint_pairs :: "serde \<Rightarrow> (bytes \<times> bytes) option list \<Rightarrow> ((nat \<times> hash32) option, storage_error) result" where
"scan_checkpoint_pairs S [] = Ok None" |
"scan_checkpoint_pairs S (None # _) = Err SE_RocksDb" |
"scan_checkpoint_pairs S (Some (_, v) # rest) =
   (case sd_read_checkpoint S v of
      None \<Rightarrow> scan_checkpoint_pairs S rest
    | Some r \<Rightarrow>
        if ck_version r > STATE_FORMAT_VERSION then Err (SE_BinaryTooOld (ck_version r) STATE_FORMAT_VERSION)
        else if ck_height r = 0 then scan_checkpoint_pairs S rest
        else Ok (Some (ck_height r, ck_tip_hash r)))"

definition find_latest_checkpoint_pair :: "'db rocksdb \<Rightarrow> serde \<Rightarrow> 'db \<Rightarrow> ((nat \<times> hash32) option, storage_error) result" where
"find_latest_checkpoint_pair R S db = scan_checkpoint_pairs S (db_iter_end R db CF_CHECKPOINTS)"

fun scan_checkpoint_states ::
    "xof \<Rightarrow> serde \<Rightarrow> bytes \<Rightarrow> (bytes \<times> bytes) option list
     \<Rightarrow> ((trusted_checkpoint_metadata \<times> state_store) option, storage_error) result" where
"scan_checkpoint_states X S chain_id [] = Ok None" |
"scan_checkpoint_states X S chain_id (None # _) = Err SE_RocksDb" |
"scan_checkpoint_states X S chain_id (Some (_, v) # rest) =
   (case sd_read_checkpoint S v of
      None \<Rightarrow> scan_checkpoint_states X S chain_id rest
    | Some r \<Rightarrow>
        bind_r (check_state_format_version (ck_version r)) (\<lambda>_.
        let metadata = \<lparr> tm_height = ck_height r, tm_tip_hash = ck_tip_hash r, tm_state_root = ck_state_root r \<rparr> in
        if tm_height metadata = 0 then Ok None
        else case record_into_state X (ck_state r) chain_id of
          Err _ \<Rightarrow> scan_checkpoint_states X S chain_id rest
        | Panic \<Rightarrow> Panic
        | Ok s \<Rightarrow>
            if st_block_height s \<noteq> tm_height metadata then scan_checkpoint_states X S chain_id rest
            else if state_root X s \<noteq> tm_state_root metadata then scan_checkpoint_states X S chain_id rest
            else Ok (Some (metadata, s))))"

definition find_latest_checkpoint_with_state ::
    "'db rocksdb \<Rightarrow> xof \<Rightarrow> serde \<Rightarrow> 'db \<Rightarrow> bytes \<Rightarrow> ((trusted_checkpoint_metadata \<times> state_store) option, storage_error) result" where
"find_latest_checkpoint_with_state R X S db chain_id = scan_checkpoint_states X S chain_id (db_iter_end R db CF_CHECKPOINTS)"

section \<open>Opening\<close>

record 'db rocks_store =
  rs_db :: 'db
  rs_chain :: chain_store
  rs_genesis_anchor :: hash32
  rs_disable_wal :: bool

fun load_tail ::
    "'db rocksdb \<Rightarrow> env \<Rightarrow> serde \<Rightarrow> 'db \<Rightarrow> nat list \<Rightarrow> chain_store \<Rightarrow> (chain_store, storage_error) result" where
"load_tail R E S db [] chain = Ok chain" |
"load_tail R E S db (height # heights) chain =
   bind_r (read_stored_block_from_db R E S db height) (\<lambda>found.
   bind_r (ok_or found (SE_MissingBlockFile height)) (\<lambda>stored.
   bind_r (map_err SE_Chain (append_stored_block (e_xof E) stored chain)) (\<lambda>(chain, _).
   load_tail R E S db heights chain)))"

definition ensure_genesis_anchor :: "'db rocksdb \<Rightarrow> 'db \<Rightarrow> hash32 \<Rightarrow> 'db \<times> (hash32, storage_error) result" where
"ensure_genesis_anchor R db anchor_prev_hash =
   (case read_meta_hash_by_name R db META_GENESIS_ANCHOR of
      Ok (Some h) \<Rightarrow> (db, Ok h)
    | Ok None \<Rightarrow>
        (case write_meta_raw R META_GENESIS_ANCHOR anchor_prev_hash db of (db', r) \<Rightarrow> (db', bind_r r (\<lambda>_. Ok anchor_prev_hash)))
    | Err e \<Rightarrow> (db, Err e)
    | Panic \<Rightarrow> (db, Panic))"

definition read_snapshot_base :: "'db rocksdb \<Rightarrow> 'db \<Rightarrow> ((nat \<times> hash32) option, storage_error) result" where
"read_snapshot_base R db =
   bind_r (read_meta_u64_by_name R db META_SNAPSHOT_BASE_HEIGHT) (\<lambda>h.
   bind_r (read_meta_hash_by_name R db META_SNAPSHOT_BASE_HASH) (\<lambda>tip.
   Ok (case (h, tip) of (Some h, Some tip) \<Rightarrow> if h > 0 then Some (h, tip) else None | _ \<Rightarrow> None)))"

text \<open>Everything after the genesis anchor reads only.\<close>

definition open_chain :: "'db rocksdb \<Rightarrow> env \<Rightarrow> serde \<Rightarrow> 'db \<Rightarrow> hash32 \<Rightarrow> (chain_store, storage_error) result" where
"open_chain R E S db genesis_anchor =
   bind_r (read_meta_u64_by_name R db META_TIP_HEIGHT) (\<lambda>stored_tip.
   let tip_height = (case stored_tip of Some h \<Rightarrow> h | None \<Rightarrow> 0) in
   bind_r (read_snapshot_base R db) (\<lambda>snapshot_base.
   bind_r (case snapshot_base of Some (h, _) \<Rightarrow> or_panic (checked_add U64_MAX h 1) | None \<Rightarrow> Ok 1) (\<lambda>start_height.
   let (base_anchor, base) = (case snapshot_base of Some (h, tip) \<Rightarrow> (tip, h) | None \<Rightarrow> (genesis_anchor, 0)) in
   if tip_height = 0 then Ok (chain_new_with_base base_anchor base)
   else
   bind_r (find_latest_checkpoint_pair R S db) (\<lambda>window.
   bind_r (case window of Some (h, _) \<Rightarrow> or_panic (checked_add U64_MAX h 1) | None \<Rightarrow> Ok start_height) (\<lambda>memory_load_from.
   let (chain_anchor, base_height) = (case window of Some (h, tip) \<Rightarrow> (tip, h) | None \<Rightarrow> (base_anchor, base)) in
   bind_r (load_tail R E S db [memory_load_from..<Suc tip_height] (chain_new_with_base chain_anchor base_height)) (\<lambda>chain.
   if chain_height chain \<noteq> tip_height then Err (SE_TipHeightMismatch tip_height (chain_height chain)) else Ok chain))))))"

definition rocks_open_internal ::
    "'db rocksdb \<Rightarrow> env \<Rightarrow> serde \<Rightarrow> 'db \<Rightarrow> hash32 \<Rightarrow> bool \<Rightarrow> 'db \<times> ('db rocks_store, storage_error) result" where
"rocks_open_internal R E S db anchor_prev_hash disable_wal =
   (case ensure_genesis_anchor R db anchor_prev_hash of (db', r) \<Rightarrow>
    (db', bind_r r (\<lambda>genesis_anchor.
          bind_r (open_chain R E S db' genesis_anchor) (\<lambda>chain.
          Ok \<lparr> rs_db = db', rs_chain = chain, rs_genesis_anchor = genesis_anchor, rs_disable_wal = disable_wal \<rparr>))))"

definition enforce_chain_id :: "'db rocksdb \<Rightarrow> bytes \<Rightarrow> 'db \<Rightarrow> 'db \<times> (unit, storage_error) result" where
"enforce_chain_id R chain_id db =
   (case get_cf R db CF_META META_CHAIN_ID of
      Ok None \<Rightarrow> write_meta_raw R META_CHAIN_ID chain_id db
    | Ok (Some stored) \<Rightarrow> (db, if stored = chain_id then Ok () else Err (SE_ChainIdMismatch (hex_encode chain_id) (hex_encode stored)))
    | Err e \<Rightarrow> (db, Err e)
    | Panic \<Rightarrow> (db, Panic))"

text \<open>\<open>open_with_chain_id\<close>, and without the write-ahead log \<open>open_no_wal_with_chain_id\<close>.\<close>

definition open_with_chain_id ::
    "'db rocksdb \<Rightarrow> env \<Rightarrow> serde \<Rightarrow> 'db \<Rightarrow> hash32 \<Rightarrow> bytes \<Rightarrow> bool \<Rightarrow> 'db \<times> ('db rocks_store, storage_error) result" where
"open_with_chain_id R E S db anchor_prev_hash chain_id disable_wal =
   (case rocks_open_internal R E S db anchor_prev_hash disable_wal of (db1, r) \<Rightarrow>
    (case r of
       Ok store \<Rightarrow>
         (case enforce_chain_id R chain_id (rs_db store) of (db2, r2) \<Rightarrow> (db2, bind_r r2 (\<lambda>_. Ok (store\<lparr> rs_db := db2 \<rparr>))))
     | Err e \<Rightarrow> (db1, Err e)
     | Panic \<Rightarrow> (db1, Panic)))"

section \<open>Appending and swapping the tip\<close>

definition or_same :: "'s \<Rightarrow> ('a, storage_error) result \<Rightarrow> ('a \<Rightarrow> 's \<times> ('b, storage_error) result) \<Rightarrow> 's \<times> ('b, storage_error) result" where
"or_same s r f = (case r of Ok x \<Rightarrow> f x | Err e \<Rightarrow> (s, Err e) | Panic \<Rightarrow> (s, Panic))"

text \<open>After the batch: the chain in memory changes only when the engine took it.\<close>

definition commit_memory ::
    "'db rocks_store \<Rightarrow> chain_store \<Rightarrow> 'a \<Rightarrow> 'db \<times> (unit, storage_error) result \<Rightarrow> 'db rocks_store \<times> ('a, storage_error) result" where
"commit_memory store trial x = (\<lambda>(db, r). or_same (store\<lparr> rs_db := db \<rparr>) r (\<lambda>_. (store\<lparr> rs_db := db, rs_chain := trial \<rparr>, Ok x)))"

definition rocks_append_block_inner ::
    "'db rocksdb \<Rightarrow> env \<Rightarrow> serde \<Rightarrow> 'db rocks_store \<Rightarrow> block_execution_result
     \<Rightarrow> 'db rocks_store \<times> (block_metadata, storage_error) result" where
"rocks_append_block_inner R E S store execution =
   or_same store (map_err SE_Chain (append_block (e_xof E) execution (rs_chain store))) (\<lambda>(trial, metadata).
   or_same store (or_panic (chain_tip trial)) (\<lambda>stored.
   commit_memory store trial metadata (persist_to_db R E S (rs_disable_wal store) stored (rs_db store))))"

definition rocks_append_block_trusted ::
    "'db rocksdb \<Rightarrow> env \<Rightarrow> serde \<Rightarrow> 'db rocks_store \<Rightarrow> block_execution_result
     \<Rightarrow> 'db rocks_store \<times> (block_metadata, storage_error) result" where
"rocks_append_block_trusted = rocks_append_block_inner"

definition rocks_append_block ::
    "'db rocksdb \<Rightarrow> env \<Rightarrow> serde \<Rightarrow> signature_backend \<Rightarrow> 'db rocks_store \<Rightarrow> block_execution_result \<Rightarrow> commit_quorum_policy option
     \<Rightarrow> 'db rocks_store \<times> (block_metadata, storage_error) result" where
"rocks_append_block R E S D store execution policy =
   or_same store (validate_commit_proof (e_xof E) D policy (br_block execution)) (\<lambda>_. rocks_append_block_inner R E S store execution)"

definition rocks_append_stored_block ::
    "'db rocksdb \<Rightarrow> env \<Rightarrow> serde \<Rightarrow> signature_backend \<Rightarrow> 'db rocks_store \<Rightarrow> stored_block \<Rightarrow> commit_quorum_policy option
     \<Rightarrow> 'db rocks_store \<times> (block_metadata, storage_error) result" where
"rocks_append_stored_block R E S D store stored policy =
   or_same store (validate_commit_proof (e_xof E) D policy (sb_block stored)) (\<lambda>_.
   or_same store (map_err SE_Chain (append_stored_block (e_xof E) stored (rs_chain store))) (\<lambda>(trial, metadata).
   commit_memory store trial metadata (persist_to_db R E S (rs_disable_wal store) stored (rs_db store))))"

definition replace_canonical_at_height ::
    "'db rocksdb \<Rightarrow> env \<Rightarrow> serde \<Rightarrow> signature_backend \<Rightarrow> 'db rocks_store \<Rightarrow> stored_block \<Rightarrow> commit_quorum_policy option
     \<Rightarrow> 'db rocks_store \<times> (stored_block, storage_error) result" where
"replace_canonical_at_height R E S D store canonical policy =
   or_same store (validate_commit_proof (e_xof E) D policy (sb_block canonical)) (\<lambda>_.
   or_same store (map_err SE_Chain (replace_tip_block (e_xof E) canonical (rs_chain store))) (\<lambda>(trial, displaced).
   commit_memory store trial displaced
     (persist_replace_canonical R E S (rs_disable_wal store) displaced canonical (rs_db store))))"

definition verify_quick_finality_invariants :: "'db rocks_store \<Rightarrow> (unit, storage_error) result" where
"verify_quick_finality_invariants store =
   (if \<exists>stored \<in> set (blocks_in_order (rs_chain store)). bl_commit_signatures (sb_block stored) = []
    then Err (SE_InvalidPersistedValue ''ADR-054: post-checkpoint tail contains a block with no commit signatures'')
    else Ok ())"

section \<open>Reading\<close>

definition read_sibling_by_hash :: "'db rocksdb \<Rightarrow> env \<Rightarrow> serde \<Rightarrow> 'db rocks_store \<Rightarrow> hash32 \<Rightarrow> (stored_block option, storage_error) result" where
"read_sibling_by_hash R E S store hash =
   (case db_prefix R (rs_db store) CF_SIBLINGS hash of
      [] \<Rightarrow> Ok None
    | None # _ \<Rightarrow> Err SE_RocksDb
    | Some (k, v) # _ \<Rightarrow>
        if length k \<noteq> 40 \<or> take 32 k \<noteq> hash then Ok None
        else bind_r (ok_or (sd_read_block S v) (SE_Decode ''<siblings>'')) (\<lambda>rcd.
             bind_r (record_into_stored_block E rcd (from_be_bytes (drop 32 k))) (\<lambda>stored. Ok (Some stored))))"

definition rocks_read_stored_block_at_height ::
    "'db rocksdb \<Rightarrow> env \<Rightarrow> serde \<Rightarrow> 'db rocks_store \<Rightarrow> nat \<Rightarrow> (stored_block option, storage_error) result" where
"rocks_read_stored_block_at_height R E S store height =
   (case get_stored_block_by_height (rs_chain store) height of
      Some stored \<Rightarrow> Ok (Some stored)
    | None \<Rightarrow> read_stored_block_from_db R E S (rs_db store) height)"

definition rocks_export_block_bytes :: "'db rocksdb \<Rightarrow> env \<Rightarrow> serde \<Rightarrow> 'db rocks_store \<Rightarrow> nat \<Rightarrow> (bytes option, storage_error) result" where
"rocks_export_block_bytes R E S store height =
   (case get_stored_block_by_height (rs_chain store) height of
      Some stored \<Rightarrow> bind_r (encode_block_bytes E S stored) (\<lambda>bs. Ok (Some bs))
    | None \<Rightarrow> get_cf R (rs_db store) CF_BLOCKS (height_to_key height))"

text \<open>Unlike the store on files, the height is the one of the metadata.\<close>

definition rocks_decode_block_bytes :: "env \<Rightarrow> serde \<Rightarrow> bytes \<Rightarrow> (stored_block, storage_error) result" where
"rocks_decode_block_bytes E S bytes =
   bind_r (ok_or (sd_read_block S bytes) (SE_Decode ''<block-bytes>'')) (\<lambda>rcd.
   record_into_stored_block E rcd (bm_height (bc_metadata rcd)))"

definition get_tx_block_height :: "'db rocksdb \<Rightarrow> 'db rocks_store \<Rightarrow> hash32 \<Rightarrow> (nat option, storage_error) result" where
"get_tx_block_height R store tx_hash =
   bind_r (get_cf R (rs_db store) CF_TX_INDEX tx_hash) (\<lambda>found.
   case found of None \<Rightarrow> Ok None | Some bytes \<Rightarrow> bind_r (key_to_height bytes) (\<lambda>h. Ok (Some h)))"

fun read_range :: "'db rocksdb \<Rightarrow> env \<Rightarrow> serde \<Rightarrow> 'db rocks_store \<Rightarrow> nat list \<Rightarrow> (stored_block list, storage_error) result" where
"read_range R E S store [] = Ok []" |
"read_range R E S store (height # heights) =
   bind_r (rocks_read_stored_block_at_height R E S store height) (\<lambda>found.
   case found of
     None \<Rightarrow> Ok []
   | Some b \<Rightarrow> bind_r (read_range R E S store heights) (\<lambda>bs. Ok (b # bs)))"

text \<open>The capacity \<open>to - from + 1\<close> overflows for the full range of heights.\<close>

definition blocks_in_height_range ::
    "'db rocksdb \<Rightarrow> env \<Rightarrow> serde \<Rightarrow> 'db rocks_store \<Rightarrow> nat \<Rightarrow> nat \<Rightarrow> (stored_block list, storage_error) result" where
"blocks_in_height_range R E S store lo hi =
   (if lo > hi then Ok []
    else bind_r (or_panic (checked_add U64_MAX (hi - lo) 1)) (\<lambda>_. read_range R E S store [lo..<Suc hi]))"

section \<open>Writing checkpoints and pruning\<close>

definition rocks_write_trusted_checkpoint ::
    "'db rocksdb \<Rightarrow> xof \<Rightarrow> serde \<Rightarrow> 'db rocks_store \<Rightarrow> state_store
     \<Rightarrow> 'db rocks_store \<times> (trusted_checkpoint_metadata, storage_error) result" where
"rocks_write_trusted_checkpoint R X S store s =
   (let c = rs_chain store;
        expected_height = chain_height c;
        got_height = st_block_height s;
        expected_tip_hash = or_anchor c;
        got_tip_hash = (if got_height = 0 then ch_anchor_prev_hash c
          else case get_metadata_by_height c got_height of Some m \<Rightarrow> bm_block_hash m | None \<Rightarrow> ch_anchor_prev_hash c);
        actual_state_root = state_root X s;
        expected_state_root = (if got_height = 0 then actual_state_root
          else case get_metadata_by_height c got_height of Some m \<Rightarrow> bm_state_root m | None \<Rightarrow> actual_state_root)
    in if got_height \<noteq> expected_height then (store, Err (SE_CheckpointHeightMismatch expected_height got_height))
       else if got_tip_hash \<noteq> expected_tip_hash then (store, Err (SE_CheckpointTipHashMismatch expected_tip_hash got_tip_hash))
       else if actual_state_root \<noteq> expected_state_root
       then (store, Err (SE_CheckpointStateRootMismatch expected_state_root actual_state_root))
       else case put_cf R CF_CHECKPOINTS (height_to_key got_height) (sd_write_checkpoint S \<lparr> ck_version = STATE_FORMAT_VERSION,
            ck_height = got_height, ck_tip_hash = expected_tip_hash, ck_state_root = expected_state_root,
            ck_state = state_into_record s \<rparr>) (rs_db store) of (db, r) \<Rightarrow>
         (store\<lparr> rs_db := db \<rparr>,
          bind_r r (\<lambda>_. Ok \<lparr> tm_height = got_height, tm_tip_hash = expected_tip_hash, tm_state_root = expected_state_root \<rparr>)))"

definition compact_chain_to_checkpoint :: "nat \<Rightarrow> hash32 \<Rightarrow> 'db rocks_store \<Rightarrow> 'db rocks_store" where
"compact_chain_to_checkpoint checkpoint_height checkpoint_tip_hash store =
   store\<lparr> rs_chain := compact_to_checkpoint checkpoint_height checkpoint_tip_hash (rs_chain store) \<rparr>"

record prune_stats =
  ps_blocks_deleted :: nat
  ps_hash_index_deleted :: nat
  ps_tx_index_deleted :: nat
  ps_siblings_deleted :: nat
  ps_checkpoints_deleted :: nat
  ps_checkpoints_kept :: nat

text \<open>The checkpoint test skips entries that the engine cannot read and takes a malformed key for height zero.\<close>

definition has_late_checkpoint :: "nat \<Rightarrow> (bytes \<times> bytes) option list \<Rightarrow> bool" where
"has_late_checkpoint cutoff kvs =
   list_ex (\<lambda>e. case e of None \<Rightarrow> False
      | Some (k, _) \<Rightarrow> (case key_to_height k of Ok h \<Rightarrow> h | _ \<Rightarrow> 0) \<ge> cutoff) kvs"

fun count_blocks_below :: "nat \<Rightarrow> (bytes \<times> bytes) option list \<Rightarrow> (nat, storage_error) result" where
"count_blocks_below cutoff [] = Ok 0" |
"count_blocks_below cutoff (None # _) = Err SE_RocksDb" |
"count_blocks_below cutoff (Some (k, _) # rest) =
   bind_r (key_to_height k) (\<lambda>h.
   if h \<ge> cutoff then Ok 0 else bind_r (count_blocks_below cutoff rest) (\<lambda>n. Ok (Suc n)))"

text \<open>The hash index and the transaction index, whose values are heights.\<close>

fun index_deletes :: "cf \<Rightarrow> nat \<Rightarrow> (bytes \<times> bytes) option list \<Rightarrow> (batch_op list, storage_error) result" where
"index_deletes f cutoff [] = Ok []" |
"index_deletes f cutoff (None # _) = Err SE_RocksDb" |
"index_deletes f cutoff (Some (k, v) # rest) =
   bind_r (key_to_height v) (\<lambda>h.
   bind_r (index_deletes f cutoff rest) (\<lambda>ds. Ok (if h < cutoff then Delete_cf f k # ds else ds)))"

fun sibling_deletes :: "nat \<Rightarrow> (bytes \<times> bytes) option list \<Rightarrow> (batch_op list, storage_error) result" where
"sibling_deletes cutoff [] = Ok []" |
"sibling_deletes cutoff (None # _) = Err SE_RocksDb" |
"sibling_deletes cutoff (Some (k, _) # rest) =
   bind_r (sibling_deletes cutoff rest) (\<lambda>ds.
   Ok (if length k = 40 \<and> from_be_bytes (drop 32 k) < cutoff then Delete_cf CF_SIBLINGS k # ds else ds))"

fun checkpoint_heights :: "(bytes \<times> bytes) option list \<Rightarrow> (nat list, storage_error) result" where
"checkpoint_heights [] = Ok []" |
"checkpoint_heights (None # _) = Err SE_RocksDb" |
"checkpoint_heights (Some (k, _) # rest) =
   bind_r (key_to_height k) (\<lambda>h. bind_r (checkpoint_heights rest) (\<lambda>hs. Ok (h # hs)))"

definition checkpoint_deletes :: "nat list \<Rightarrow> batch_op list" where
"checkpoint_deletes all_checkpoints =
   map (\<lambda>h. Delete_cf CF_CHECKPOINTS (height_to_key h)) (filter (\<lambda>h. h \<noteq> Max (set all_checkpoints)) all_checkpoints)"

definition prune_batch :: "'db rocksdb \<Rightarrow> 'db \<Rightarrow> nat \<Rightarrow> (batch_op list \<times> prune_stats, storage_error) result" where
"prune_batch R db cutoff =
   bind_r (count_blocks_below cutoff (db_iter_start R db CF_BLOCKS)) (\<lambda>blocks.
   bind_r (index_deletes CF_HASH_INDEX cutoff (db_iter_start R db CF_HASH_INDEX)) (\<lambda>hashes.
   bind_r (index_deletes CF_TX_INDEX cutoff (db_iter_start R db CF_TX_INDEX)) (\<lambda>txs.
   bind_r (sibling_deletes cutoff (db_iter_start R db CF_SIBLINGS)) (\<lambda>siblings.
   bind_r (checkpoint_heights (db_iter_start R db CF_CHECKPOINTS)) (\<lambda>all_checkpoints.
   Ok (Delete_range_cf CF_BLOCKS (height_to_key 0) (height_to_key cutoff)
         # hashes @ txs @ siblings @ checkpoint_deletes all_checkpoints,
       \<lparr> ps_blocks_deleted = blocks, ps_hash_index_deleted = length hashes, ps_tx_index_deleted = length txs,
         ps_siblings_deleted = length siblings, ps_checkpoints_deleted = length (checkpoint_deletes all_checkpoints),
         ps_checkpoints_kept = (if all_checkpoints = [] then 0 else 1) \<rparr>))))))"

definition prune_blocks_below ::
    "'db rocksdb \<Rightarrow> 'db rocks_store \<Rightarrow> nat \<Rightarrow> 'db rocks_store \<times> (prune_stats, storage_error) result" where
"prune_blocks_below R store cutoff =
   (if cutoff = 0 then (store, Err (SE_InvalidPruneCutoff ''cutoff of 0 would delete the genesis block''))
    else if cutoff > chain_height (rs_chain store) then (store, Err (SE_InvalidPruneCutoff ''cutoff exceeds current tip height''))
    else if \<not> has_late_checkpoint cutoff (db_iter_end R (rs_db store) CF_CHECKPOINTS)
    then (store, Err (SE_InvalidPruneCutoff
      ''no trusted checkpoint at or above the cutoff height; pruning would render the node unable to bootstrap on next start''))
    else or_same store (prune_batch R (rs_db store) cutoff) (\<lambda>(batch, stats).
         case write_batch R False batch (rs_db store) of (db, r) \<Rightarrow> (store\<lparr> rs_db := db \<rparr>, bind_r r (\<lambda>_. Ok stats))))"

section \<open>Snapshots from other nodes\<close>

definition export_checkpoint_bytes :: "'db rocksdb \<Rightarrow> 'db rocks_store \<Rightarrow> (bytes option, storage_error) result" where
"export_checkpoint_bytes R store =
   (case db_iter_end R (rs_db store) CF_CHECKPOINTS of
      [] \<Rightarrow> Ok None | Some (_, v) # _ \<Rightarrow> Ok (Some v) | None # _ \<Rightarrow> Err SE_RocksDb)"

definition has_checkpoint :: "'db rocksdb \<Rightarrow> 'db rocks_store \<Rightarrow> bool" where
"has_checkpoint R store = (db_iter_end R (rs_db store) CF_CHECKPOINTS \<noteq> [])"

definition rocks_import_external_snapshot ::
    "'db rocksdb \<Rightarrow> xof \<Rightarrow> serde \<Rightarrow> 'db rocks_store \<Rightarrow> bytes \<Rightarrow> bytes
     \<Rightarrow> 'db rocks_store \<times> (trusted_checkpoint_metadata, storage_error) result" where
"rocks_import_external_snapshot R X S store bytes chain_id =
   or_same store (checked_snapshot X S bytes chain_id) (\<lambda>metadata.
   case put_cf R CF_CHECKPOINTS (height_to_key (tm_height metadata)) bytes (rs_db store) of (db, r) \<Rightarrow>
   (store\<lparr> rs_db := db \<rparr>, bind_r r (\<lambda>_. Ok metadata)))"

definition import_checkpoint_for_migration ::
    "'db rocksdb \<Rightarrow> serde \<Rightarrow> 'db rocks_store \<Rightarrow> bytes \<Rightarrow> 'db rocks_store \<times> (unit, storage_error) result" where
"import_checkpoint_for_migration R S store bytes =
   or_same store (ok_or (sd_read_checkpoint S bytes) (SE_Decode ''<migration>'')) (\<lambda>rcd.
   or_same store (check_state_format_version (ck_version rcd)) (\<lambda>_.
   case put_cf R CF_CHECKPOINTS (height_to_key (ck_height rcd)) bytes (rs_db store) of (db, r) \<Rightarrow> (store\<lparr> rs_db := db \<rparr>, r)))"

text \<open>The commit quorum of the tail is that of the validators in the snapshot.\<close>

definition snapshot_policy :: "xof \<Rightarrow> serde \<Rightarrow> bytes \<Rightarrow> bytes \<Rightarrow> (commit_quorum_policy option, storage_error) result" where
"snapshot_policy X S bytes chain_id =
   bind_r (ok_or (sd_read_checkpoint S bytes) (SE_Decode ''<snapshot>'')) (\<lambda>rcd.
   bind_r (record_into_state X (ck_state rcd) chain_id) (\<lambda>s.
   case policy_from_state_store X s None of Ok p \<Rightarrow> Ok p | _ \<Rightarrow> Panic))"

fun rocks_check_tail ::
    "env \<Rightarrow> serde \<Rightarrow> signature_backend \<Rightarrow> commit_quorum_policy option \<Rightarrow> bytes list \<Rightarrow> chain_store
     \<Rightarrow> (chain_store \<times> stored_block list, storage_error) result" where
"rocks_check_tail E S D policy [] tail_chain = Ok (tail_chain, [])" |
"rocks_check_tail E S D policy (bytes # rest) tail_chain =
   bind_r (rocks_decode_block_bytes E S bytes) (\<lambda>stored.
   bind_r (validate_commit_proof (e_xof E) D policy (sb_block stored)) (\<lambda>_.
   bind_r (map_err SE_Chain (append_stored_block (e_xof E) stored tail_chain)) (\<lambda>(trial, _).
   bind_r (rocks_check_tail E S D policy rest trial) (\<lambda>(c, tail). Ok (c, stored # tail)))))"

fun append_blocks_to_batch :: "env \<Rightarrow> serde \<Rightarrow> stored_block list \<Rightarrow> batch_op list \<Rightarrow> (batch_op list, storage_error) result" where
"append_blocks_to_batch E S [] batch = Ok batch" |
"append_blocks_to_batch E S (b # bs) batch = bind_r (append_block_to_batch E S b batch) (append_blocks_to_batch E S bs)"

definition rocks_bootstrap_from_external_snapshot ::
    "'db rocksdb \<Rightarrow> env \<Rightarrow> serde \<Rightarrow> signature_backend \<Rightarrow> 'db rocks_store \<Rightarrow> bytes \<Rightarrow> bytes list \<Rightarrow> bytes
     \<Rightarrow> 'db rocks_store \<times> (trusted_checkpoint_metadata, storage_error) result" where
"rocks_bootstrap_from_external_snapshot R E S D store snapshot_bytes tail_block_bytes chain_id =
   (if chain_height (rs_chain store) \<noteq> 0
    then (store, Err (SE_InvalidSnapshot ''cold bootstrap requires an empty store (height must be 0)''))
    else
    or_same store (checked_snapshot (e_xof E) S snapshot_bytes chain_id) (\<lambda>metadata.
    or_same store (snapshot_policy (e_xof E) S snapshot_bytes chain_id) (\<lambda>policy.
    or_same store (rocks_check_tail E S D policy tail_block_bytes
        (chain_new_with_base (tm_tip_hash metadata) (tm_height metadata))) (\<lambda>(tail_chain, tail_stored).
    let final_height = (if tail_stored = [] then tm_height metadata else chain_height tail_chain) in
    or_same store (append_blocks_to_batch E S tail_stored
        [Put_cf CF_CHECKPOINTS (height_to_key (tm_height metadata)) snapshot_bytes,
         Put_cf CF_META META_SNAPSHOT_BASE_HEIGHT (height_to_key (tm_height metadata)),
         Put_cf CF_META META_SNAPSHOT_BASE_HASH (tm_tip_hash metadata)]) (\<lambda>batch.
    commit_memory store tail_chain metadata
      (write_batch R (rs_disable_wal store) (batch @ [Put_cf CF_META META_TIP_HEIGHT (height_to_key final_height)]) (rs_db store)))))))"

section \<open>Recovery and migration\<close>

fun read_blocks_from_db :: "'db rocksdb \<Rightarrow> env \<Rightarrow> serde \<Rightarrow> 'db \<Rightarrow> nat list \<Rightarrow> (stored_block list, storage_error) result" where
"read_blocks_from_db R E S db [] = Ok []" |
"read_blocks_from_db R E S db (h # hs) =
   bind_r (read_stored_block_from_db R E S db h) (\<lambda>found.
   bind_r (ok_or found (SE_MissingBlockFile h)) (\<lambda>b.
   bind_r (read_blocks_from_db R E S db hs) (\<lambda>bs. Ok (b # bs))))"

definition rocks_recover_tip ::
    "'db rocksdb \<Rightarrow> env \<Rightarrow> serde \<Rightarrow> 'db rocks_store \<Rightarrow> state_store \<Rightarrow> fee_params \<Rightarrow> fee_distribution_params \<Rightarrow> address list
     \<Rightarrow> (replay_result, storage_error) result" where
"rocks_recover_tip R E S store genesis_state fee_params fee_dist validator_pool =
   (let tip_height = chain_height (rs_chain store);
        from_chain = map_err SE_Replay (recover_tip E (rs_chain store) genesis_state fee_params fee_dist validator_pool)
    in if tip_height = 0 then from_chain
       else
       bind_r (read_meta_u64_by_name R (rs_db store) META_SNAPSHOT_BASE_HEIGHT) (\<lambda>stored_base.
       let snapshot_base_height = (case stored_base of Some h \<Rightarrow> h | None \<Rightarrow> 0) in
       bind_r (if snapshot_base_height > 0 then or_panic (checked_add U64_MAX snapshot_base_height 1) else Ok 1) (\<lambda>start_h.
       let chain_start = (case blocks_in_order (rs_chain store) of b # _ \<Rightarrow> bm_height (sb_metadata b) | [] \<Rightarrow> start_h) in
       if chain_start > start_h then
         bind_r (or_panic (checked_sub tip_height start_h)) (\<lambda>_.
         bind_r (read_blocks_from_db R E S (rs_db store) [start_h..<Suc tip_height]) (\<lambda>blocks.
         map_err SE_Replay (replay_blocks_from_state E genesis_state (rs_genesis_anchor store) blocks fee_params fee_dist validator_pool)))
       else from_chain)))"

definition rocks_recover_tip_with_checkpoint ::
    "'db rocksdb \<Rightarrow> env \<Rightarrow> serde \<Rightarrow> 'db rocks_store \<Rightarrow> state_store \<Rightarrow> fee_params \<Rightarrow> fee_distribution_params \<Rightarrow> address list
     \<Rightarrow> (checkpoint_recovery_result, storage_error) result" where
"rocks_recover_tip_with_checkpoint R E S store genesis_state fee_params fee_dist validator_pool =
   bind_r (find_latest_checkpoint_with_state R (e_xof E) S (rs_db store) (st_chain_id genesis_state)) (\<lambda>found.
   case found of
     Some (metadata, checkpoint_state) \<Rightarrow>
       let tail = filter (\<lambda>b. bm_height (sb_metadata b) > tm_height metadata) (blocks_in_order (rs_chain store)) in
       bind_r (map_err SE_Replay (replay_blocks_from_state E checkpoint_state (tm_tip_hash metadata) tail fee_params fee_dist
         validator_pool)) (\<lambda>replay.
       Ok \<lparr> cx_replay = replay, cx_source = TrustedCheckpoint, cx_checkpoint = Some metadata \<rparr>)
   | None \<Rightarrow>
       bind_r (rocks_recover_tip R E S store genesis_state fee_params fee_dist validator_pool) (\<lambda>replay.
       Ok \<lparr> cx_replay = replay, cx_source = FullReplay, cx_checkpoint = None \<rparr>))"

fun newest_decodable :: "serde \<Rightarrow> (bytes \<times> bytes) option list \<Rightarrow> ((bytes \<times> trusted_checkpoint_record) option, storage_error) result" where
"newest_decodable S [] = Ok None" |
"newest_decodable S (None # _) = Err SE_RocksDb" |
"newest_decodable S (Some (k, v) # rest) =
   (case sd_read_checkpoint S v of
      None \<Rightarrow> newest_decodable S rest
    | Some r \<Rightarrow> if ck_height r = 0 then newest_decodable S rest else Ok (Some (k, r)))"

text \<open>The outer option: the handlers may run forever.\<close>

definition apply_upgrade_chain ::
    "'db rocksdb \<Rightarrow> xof \<Rightarrow> serde \<Rightarrow> upgrade_registry \<Rightarrow> 'db rocks_store \<Rightarrow> ('db rocks_store \<times> (unit, storage_error) result) option" where
"apply_upgrade_chain R X S registry store =
   (case newest_decodable S (db_iter_end R (rs_db store) CF_CHECKPOINTS) of
      Err e \<Rightarrow> Some (store, Err e)
    | Panic \<Rightarrow> Some (store, Panic)
    | Ok None \<Rightarrow> Some (store, Ok ())
    | Ok (Some (raw_key, rcd)) \<Rightarrow>
        if ck_version rcd = STATE_FORMAT_VERSION then Some (store, Ok ())
        else if ck_version rcd > STATE_FORMAT_VERSION then Some (store, Err (SE_BinaryTooOld (ck_version rcd) STATE_FORMAT_VERSION))
        else (case record_into_state X (ck_state rcd) [] of
            Err e \<Rightarrow> Some (store, Err e)
          | Panic \<Rightarrow> Some (store, Panic)
          | Ok s \<Rightarrow>
              map_option (\<lambda>migrated.
                or_same store (map_err (\<lambda>_. SE_MigrationFailed) migrated) (\<lambda>t.
                case put_cf R CF_CHECKPOINTS raw_key (sd_write_checkpoint S \<lparr> ck_version = STATE_FORMAT_VERSION,
                    ck_height = ck_height rcd, ck_tip_hash = ck_tip_hash rcd, ck_state_root = state_root X t,
                    ck_state = state_into_record t \<rparr>) (rs_db store) of (db, r) \<Rightarrow> (store\<lparr> rs_db := db \<rparr>, r)))
              (run_migrations registry s (ck_version rcd) STATE_FORMAT_VERSION)))"

end
