(* ===== verification/Rocks_Durable.thy ===== *)
theory Rocks_Durable
  imports Rocks_Store
begin

text \<open>
  What the store on RocksDB guarantees, for every engine with the laws below: a kept database opens as the chain it holds;
  appending, swapping the tip, writing a checkpoint and pruning keep it so or, when the engine refuses the batch, change nothing.
  A block whose transactions encode to other hashes than it lists is taken too, and the database then does not open.
\<close>

section \<open>The laws of the engine\<close>

type_synonym view = "cf \<Rightarrow> bytes \<Rightarrow> bytes option"

fun batch_step :: "batch_op \<Rightarrow> view \<Rightarrow> view" where
"batch_step (Put_cf f k v) m = m(f := (m f)(k \<mapsto> v))" |
"batch_step (Delete_cf f k) m = m(f := (m f)(k := None))" |
"batch_step (Delete_range_cf f lo hi) m = m(f := (\<lambda>k. if lo \<le> k \<and> k < hi then None else m f k))"

text \<open>
  The documented behaviour: reads return the last value written, a batch is applied in order and completely or not at all, iteration is in
  ascending key order (from the end: descending), and a prefix iteration starts at the first key that is not below the prefix.
\<close>

definition rocksdb_laws :: "'db rocksdb \<Rightarrow> ('db \<Rightarrow> view) \<Rightarrow> bool" where
"rocksdb_laws R look =
   ((\<forall>db f k. db_get R db f k = Some (look db f k))
  \<and> (\<forall>db f. \<exists>kvs. db_iter_start R db f = map Some kvs \<and> sorted_wrt (<) (map fst kvs) \<and> map_of kvs = look db f)
  \<and> (\<forall>db f. db_iter_end R db f = rev (db_iter_start R db f))
  \<and> (\<forall>db f p. db_prefix R db f p = dropWhile (\<lambda>e. case e of Some (k, _) \<Rightarrow> k < p | None \<Rightarrow> False) (db_iter_start R db f))
  \<and> (\<forall>w batch db db' ok. db_write R w batch db = (db', ok) \<longrightarrow> look db' = (if ok then fold batch_step batch (look db) else look db)))"

lemma laws_get: "rocksdb_laws R look \<Longrightarrow> get_cf R db f k = Ok (look db f k)"
  by (simp add: rocksdb_laws_def get_cf_def)

lemma laws_iter:
  assumes "rocksdb_laws R look"
  obtains kvs where "db_iter_start R db f = map Some kvs" "db_iter_end R db f = map Some (rev kvs)" "sorted_wrt (<) (map fst kvs)"
    "map_of kvs = look db f"
proof -
  from assms have "\<exists>kvs. db_iter_start R db f = map Some kvs \<and> sorted_wrt (<) (map fst kvs) \<and> map_of kvs = look db f"
    "db_iter_end R db f = rev (db_iter_start R db f)" unfolding rocksdb_laws_def by blast+
  then show ?thesis using that by (auto simp: rev_map)
qed

lemma laws_write:
  assumes "rocksdb_laws R look"
  obtains (taken) db' where "write_batch R w batch db = (db', Ok ())" "look db' = fold batch_step batch (look db)"
  | (refused) db' where "write_batch R w batch db = (db', Err SE_RocksDb)" "look db' = look db"
proof (cases "db_write R w batch db")
  case (Pair db' ok)
  then have "look db' = (if ok then fold batch_step batch (look db) else look db)" using assms by (auto simp: rocksdb_laws_def)
  then show ?thesis using that Pair by (cases ok) (auto simp: write_batch_def)
qed

text \<open>
  What the next opening finds.  After an orderly close it is the database as it was: the engine flushes what it holds in memory.  After the death of
  the process it is \<open>crash db\<close>.  The write-ahead log makes a batch outlive the process when the batches before it do; a store
  without the log, which the code keeps for tests, has no such law.
\<close>

definition durable :: "('db \<Rightarrow> view) \<Rightarrow> ('db \<Rightarrow> 'db) \<Rightarrow> 'db \<Rightarrow> bool" where
"durable look crash db \<longleftrightarrow> look (crash db) = look db"

definition wal_law :: "'db rocksdb \<Rightarrow> ('db \<Rightarrow> view) \<Rightarrow> ('db \<Rightarrow> 'db) \<Rightarrow> bool" where
"wal_law R look crash = (\<forall>batch db. durable look crash db \<longrightarrow> durable look crash (fst (db_write R False batch db)))"

definition found :: "('db \<Rightarrow> view) \<Rightarrow> ('db \<Rightarrow> 'db) \<Rightarrow> 'db rocks_store \<Rightarrow> 'db \<Rightarrow> 'db \<Rightarrow> bool" where
"found look crash store db db' \<longleftrightarrow> db' = db \<or> \<not> rs_disable_wal store \<and> durable look crash (rs_db store) \<and> db' = crash db"

text \<open>An operation leaves the database alone or writes one batch, with the log unless the store is without it.\<close>

definition written :: "'db rocksdb \<Rightarrow> 'db rocks_store \<Rightarrow> 'db \<Rightarrow> bool" where
"written R store db \<longleftrightarrow> db = rs_db store \<or> (\<exists>w batch. (w \<longrightarrow> rs_disable_wal store) \<and> db = fst (db_write R w batch (rs_db store)))"

lemma written_same [simp]: "written R store (rs_db store)"
  by (simp add: written_def)

lemma written_batch: "write_batch R w batch (rs_db store) = (db, q) \<Longrightarrow> w \<longrightarrow> rs_disable_wal store \<Longrightarrow> written R store db"
  by (auto simp: written_def write_batch_def split: prod.splits intro!: exI [of _ w] exI [of _ batch])

lemma found_look: "wal_law R look crash \<Longrightarrow> written R store db \<Longrightarrow> found look crash store db db' \<Longrightarrow> look db' = look db"
  by (auto simp: wal_law_def written_def found_def durable_def)

section \<open>Keys\<close>

declare from_be_bytes.simps [simp del]

lemma append_less: "length a = length b \<Longrightarrow> a < b \<Longrightarrow> a @ x < b @ (y :: 'a :: linorder list)"
  by (simp add: list_less_def lexord_sufI)

lemma key_less: "x < y \<Longrightarrow> y < 256 ^ n \<Longrightarrow> be_bytes n x < be_bytes n y"
proof (induction n arbitrary: x y)
  case (Suc n)
  have lt: "y div 256 < 256 ^ n" using Suc.prems(2) by (simp add: less_mult_imp_div_less mult.commute)
  show ?case
  proof (cases "x div 256 = y div 256")
    case True
    then have "x mod 256 < y mod 256" using Suc.prems(1) by (metis add_less_cancel_left div_mult_mod_eq)
    then have "word_of_nat (x mod 256) < (word_of_nat (y mod 256) :: 8 word)" by (simp add: word_less_nat_alt unat_of_nat)
    then show ?thesis using True by (simp add: list_less_def lexord_append_leftI lexord_irreflexive)
  next
    case False
    then have "x div 256 < y div 256" using Suc.prems(1) by (simp add: div_le_mono order_less_le)
    then show ?thesis using Suc.IH [OF _ lt] by (simp add: append_less)
  qed
qed simp

lemma key_less_iff: "x \<le> U64_MAX \<Longrightarrow> y \<le> U64_MAX \<Longrightarrow> height_to_key x < height_to_key y \<longleftrightarrow> x < y"
  using key_less [of x y 8] key_less [of y x 8] unfolding height_to_key_def
  by (cases x y rule: linorder_cases) (auto simp: U64_MAX_def)

lemma key_inj [simp]: "x \<le> U64_MAX \<Longrightarrow> y \<le> U64_MAX \<Longrightarrow> height_to_key x = height_to_key y \<longleftrightarrow> x = y"
  using key_less_iff by (metis less_irrefl linorder_neqE_nat)

lemma key_length [simp]: "length (height_to_key h) = 8"
  by (simp add: height_to_key_def)

lemma key_back [simp]: "h \<le> U64_MAX \<Longrightarrow> key_to_height (height_to_key h) = Ok h"
  by (simp add: key_to_height_def height_to_key_def from_be_bytes_be_bytes U64_MAX_def)

lemma from_key [simp]: "h \<le> U64_MAX \<Longrightarrow> from_be_bytes (height_to_key h) = h"
  using key_back [of h] by (simp add: key_to_height_def del: key_back)

lemma meta_keys_distinct [simp]:
  "META_TIP_HEIGHT \<noteq> META_GENESIS_ANCHOR" "META_TIP_HEIGHT \<noteq> META_SNAPSHOT_BASE_HEIGHT" "META_TIP_HEIGHT \<noteq> META_SNAPSHOT_BASE_HASH"
  "META_TIP_HEIGHT \<noteq> META_CHAIN_ID" "META_CHAIN_ID \<noteq> META_GENESIS_ANCHOR" "META_CHAIN_ID \<noteq> META_SNAPSHOT_BASE_HEIGHT"
  "META_CHAIN_ID \<noteq> META_SNAPSHOT_BASE_HASH" "META_GENESIS_ANCHOR \<noteq> META_SNAPSHOT_BASE_HEIGHT"
  "META_GENESIS_ANCHOR \<noteq> META_SNAPSHOT_BASE_HASH" "META_SNAPSHOT_BASE_HEIGHT \<noteq> META_SNAPSHOT_BASE_HASH"
  by (simp_all add: META_TIP_HEIGHT_def META_GENESIS_ANCHOR_def META_SNAPSHOT_BASE_HEIGHT_def META_SNAPSHOT_BASE_HASH_def
      META_CHAIN_ID_def bstr_def)

lemmas meta_keys_distinct' [simp] = meta_keys_distinct [symmetric]

section \<open>A kept database\<close>

text \<open>
  A database of the chain \<open>bs\<close> on the block \<open>anchor\<close> at height \<open>base\<close> (zero, or that of the snapshot the store was started from),
  whose records below the height \<open>low\<close> may be pruned.
\<close>

definition meta_ok :: "view \<Rightarrow> hash32 \<Rightarrow> nat \<Rightarrow> hash32 \<Rightarrow> stored_block list \<Rightarrow> bool" where
"meta_ok m g base anchor bs =
   (length g = 32 \<and> length anchor = 32 \<and> m CF_META META_GENESIS_ANCHOR = Some g
  \<and> (if base = 0 then anchor = g \<and> m CF_META META_SNAPSHOT_BASE_HEIGHT = None \<and> m CF_META META_SNAPSHOT_BASE_HASH = None
     else m CF_META META_SNAPSHOT_BASE_HEIGHT = Some (height_to_key base) \<and> m CF_META META_SNAPSHOT_BASE_HASH = Some anchor)
  \<and> m CF_META META_TIP_HEIGHT = (if base + length bs = 0 then None else Some (height_to_key (base + length bs))))"

definition blocks_ok :: "env \<Rightarrow> serde \<Rightarrow> view \<Rightarrow> nat \<Rightarrow> nat \<Rightarrow> stored_block list \<Rightarrow> bool" where
"blocks_ok E S m base low bs =
   ((\<forall>i < length bs. low \<le> Suc base + i \<longrightarrow> m CF_BLOCKS (height_to_key (Suc base + i)) = Some (block_bytes E S (bs ! i)))
  \<and> (\<forall>k \<in> dom (m CF_BLOCKS). length k = 8))"

text \<open>The indices; a transaction that is in several blocks is found in the last one.\<close>

definition last_with :: "stored_block list \<Rightarrow> hash32 \<Rightarrow> nat \<Rightarrow> bool" where
"last_with bs tx i = (i < length bs \<and> tx \<in> set (bl_tx_hashes (sb_block (bs ! i)))
   \<and> (\<forall>j < length bs. i < j \<longrightarrow> tx \<notin> set (bl_tx_hashes (sb_block (bs ! j)))))"

definition indices_ok :: "view \<Rightarrow> nat \<Rightarrow> nat \<Rightarrow> stored_block list \<Rightarrow> bool" where
"indices_ok m base low bs =
   ((\<forall>i < length bs. low \<le> Suc base + i \<longrightarrow> m CF_HASH_INDEX (hash_of (bs ! i)) = Some (height_to_key (Suc base + i)))
  \<and> (\<forall>tx i. last_with bs tx i \<longrightarrow> low \<le> Suc base + i \<longrightarrow> m CF_TX_INDEX tx = Some (height_to_key (Suc base + i)))
  \<and> (\<forall>v \<in> ran (m CF_HASH_INDEX) \<union> ran (m CF_TX_INDEX). length v = 8))"

definition checkpoint_fits :: "serde \<Rightarrow> nat \<Rightarrow> hash32 \<Rightarrow> stored_block list \<Rightarrow> bytes \<Rightarrow> bytes \<Rightarrow> bool" where
"checkpoint_fits S base anchor bs k v =
   (\<exists>r. sd_read_checkpoint S v = Some r \<and> k = height_to_key (ck_height r) \<and> base \<le> ck_height r \<and> ck_height r \<le> base + length bs
      \<and> ck_version r \<le> STATE_FORMAT_VERSION \<and> ck_tip_hash r = prev_at anchor bs (ck_height r - base))"

definition checkpoints_ok :: "serde \<Rightarrow> view \<Rightarrow> nat \<Rightarrow> hash32 \<Rightarrow> nat \<Rightarrow> stored_block list \<Rightarrow> bool" where
"checkpoints_ok S m base anchor low bs =
   ((\<forall>k v. m CF_CHECKPOINTS k = Some v \<longrightarrow> checkpoint_fits S base anchor bs k v)
  \<and> (low \<le> Suc base \<or> (\<exists>h > 0. h \<le> U64_MAX \<and> low \<le> Suc h \<and> height_to_key h \<in> dom (m CF_CHECKPOINTS))))"

definition kept :: "env \<Rightarrow> serde \<Rightarrow> view \<Rightarrow> hash32 \<Rightarrow> nat \<Rightarrow> hash32 \<Rightarrow> nat \<Rightarrow> stored_block list \<Rightarrow> bool" where
"kept E S m g base anchor low bs =
   (good_chain E null_backend None base anchor bs \<and> meta_ok m g base anchor bs \<and> blocks_ok E S m base low bs
  \<and> indices_ok m base low bs \<and> checkpoints_ok S m base anchor low bs)"

text \<open>A store on such a database: the chain in memory has the last blocks of \<open>bs\<close>.\<close>

definition store_ok ::
    "env \<Rightarrow> serde \<Rightarrow> ('db \<Rightarrow> view) \<Rightarrow> hash32 \<Rightarrow> nat \<Rightarrow> hash32 \<Rightarrow> nat \<Rightarrow> stored_block list \<Rightarrow> 'db rocks_store \<Rightarrow> bool" where
"store_ok E S look g base anchor low bs store =
   (kept E S (look (rs_db store)) g base anchor low bs \<and> rs_genesis_anchor store = g
  \<and> (\<exists>m \<le> length bs. loaded (e_xof E) base anchor m bs (length bs) (rs_chain store)))"

text \<open>The law of the serialisation that reading blocks relies on.\<close>

definition block_law :: "env \<Rightarrow> serde \<Rightarrow> stored_block list \<Rightarrow> bool" where
"block_law E S bs = (\<forall>b \<in> set bs. \<forall>r. stored_block_into_record E b = Ok r \<longrightarrow> sd_read_block S (sd_write_block S r) = Some r)"

lemma kept_room: "kept E S m g base anchor low bs \<Longrightarrow> Suc base + length bs < U64_MAX"
  using verify_bound [of "e_xof E" "Suc base" anchor bs] by (auto simp: kept_def good_chain_def)

section \<open>Opening\<close>

lemma read_block_Ok:
  assumes "rocksdb_laws R look" "block_law E S bs" "b \<in> set bs" "storable E b"
    and "look db CF_BLOCKS (height_to_key h) = Some (block_bytes E S b)"
  shows "read_stored_block_from_db R E S db h = Ok (Some b)"
proof -
  obtain r where "stored_block_into_record E b = Ok r" "record_into_stored_block E r h = Ok b"
    using stored_block_restored [OF assms(4), of h] by blast
  then show ?thesis
    using assms by (simp add: read_stored_block_from_db_def laws_get block_bytes_def block_law_def)
qed

lemma loaded_append:
  assumes g: "good_chain E null_backend None base anchor bs" and l: "loaded (e_xof E) base anchor m bs i c" "i < length bs" "m \<le> i"
  shows "\<exists>c' mt. append_stored_block (e_xof E) (bs ! i) c = Ok (c', mt) \<and> loaded (e_xof E) base anchor m bs (Suc i) c'"
proof -
  have "storable E (bs ! i)" using g l(2) by (simp add: good_chain_def)
  then obtain r where r: "record_into_stored_block E r 0 = Ok (bs ! i)" using stored_block_restored by blast
  then obtain c' where c': "load_tail_block E null_backend None r 0 c = Ok c'" "loaded (e_xof E) base anchor m bs (Suc i) c'"
    using loaded_step [OF g l r] by blast
  then show ?thesis
    using r by (auto simp: load_tail_block_def validate_commit_proof_def result_simps)
qed

lemma load_tail_Ok:
  assumes laws: "rocksdb_laws R look" "block_law E S bs" and g: "good_chain E null_backend None base anchor bs"
    and b: "blocks_ok E S (look db) base low bs" "low \<le> Suc (base + m)"
    and l: "loaded (e_xof E) base anchor m bs i c" "m \<le> i" "i \<le> length bs"
  shows "\<exists>c'. load_tail R E S db [Suc (base + i)..<Suc (base + length bs)] c = Ok c' \<and> loaded (e_xof E) base anchor m bs (length bs) c'"
  using l
proof (induction "length bs - i" arbitrary: i c)
  case 0
  then show ?case by simp
next
  case (Suc n)
  then have lt: "i < length bs" by simp
  obtain c' mt where c': "append_stored_block (e_xof E) (bs ! i) c = Ok (c', mt)" "loaded (e_xof E) base anchor m bs (Suc i) c'"
    using loaded_append [OF g Suc.prems(1) lt Suc.prems(2)] by blast
  have "storable E (bs ! i)" using g lt by (simp add: good_chain_def)
  moreover have "look db CF_BLOCKS (height_to_key (Suc (base + i))) = Some (block_bytes E S (bs ! i))"
    using b lt Suc.prems(2) by (simp add: blocks_ok_def)
  ultimately have rd: "read_stored_block_from_db R E S db (Suc (base + i)) = Ok (Some (bs ! i))"
    using read_block_Ok [OF laws] lt by simp
  have upt: "[Suc (base + i)..<Suc (base + length bs)] = Suc (base + i) # [Suc (base + Suc i)..<Suc (base + length bs)]"
    using lt by (simp add: upt_conv_Cons del: upt_Suc)
  have "n = length bs - Suc i" "m \<le> Suc i" "Suc i \<le> length bs" using Suc lt by simp_all
  from Suc.hyps(1) [OF this(1) c'(2) this(2,3)] show ?case
    unfolding upt using rd c'(1) by (simp del: upt_Suc)
qed

text \<open>The newest checkpoint of a kept database.\<close>

lemma newest_checkpoint:
  assumes laws: "rocksdb_laws R look" and k: "checkpoints_ok S (look db) base anchor low bs" and room: "Suc base + length bs < U64_MAX"
  shows "find_latest_checkpoint_pair R S db = Ok None \<and> low \<le> Suc base
    \<or> (\<exists>h. 0 < h \<and> base \<le> h \<and> h \<le> base + length bs \<and> low \<le> Suc h
         \<and> find_latest_checkpoint_pair R S db = Ok (Some (h, prev_at anchor bs (h - base))))"
proof -
  obtain kvs where kvs: "db_iter_end R db CF_CHECKPOINTS = map Some (rev kvs)" "sorted_wrt (<) (map fst kvs)" "map_of kvs = look db CF_CHECKPOINTS"
    using laws_iter [OF laws] by metis
  have "distinct (map fst kvs)" using kvs(2) by (simp add: strict_sorted_iff)
  then have fits: "checkpoint_fits S base anchor bs k v" if "(k, v) \<in> set kvs" for k v
    using that k kvs(3) by (auto simp: checkpoints_ok_def dest: map_of_is_SomeI)
  show ?thesis
  proof (cases kvs rule: rev_cases)
    case Nil
    then have "look db CF_CHECKPOINTS = Map.empty" using kvs(3) by simp
    then show ?thesis using Nil k kvs(1) by (simp add: find_latest_checkpoint_pair_def checkpoints_ok_def)
  next
    case (snoc front e)
    obtain k v where e: "e = (k, v)" by fastforce
    obtain r where r: "sd_read_checkpoint S v = Some r" "k = height_to_key (ck_height r)" "base \<le> ck_height r"
      "ck_height r \<le> base + length bs" "ck_version r \<le> STATE_FORMAT_VERSION" "ck_tip_hash r = prev_at anchor bs (ck_height r - base)"
      using fits [of k v] snoc e by (auto simp: checkpoint_fits_def)
    have top: "h \<le> ck_height r" if "height_to_key h \<in> dom (look db CF_CHECKPOINTS)" "h \<le> U64_MAX" for h
    proof -
      have "height_to_key h \<in> fst ` set kvs" using that(1) kvs(3) dom_map_of_conv_image_fst by metis
      then have "height_to_key h \<le> height_to_key (ck_height r)" using kvs(2) snoc e r(2) by (auto simp: sorted_wrt_append)
      then show ?thesis using key_less_iff [of "ck_height r" h] that(2) r(4) room by (simp add: leD leI)
    qed
    have low: "low \<le> Suc (ck_height r)" using k top r(3) by (fastforce simp: checkpoints_ok_def)
    show ?thesis
    proof (cases "ck_height r = 0")
      case True
      have "front = []"
      proof (cases front)
        case (Cons a as)
        then have "checkpoint_fits S base anchor bs (fst a) (snd a)" using fits [of "fst a" "snd a"] snoc by simp
        then obtain r' :: trusted_checkpoint_record where r': "fst a = height_to_key (ck_height r')" "ck_height r' \<le> base + length bs"
          unfolding checkpoint_fits_def by blast
        have "fst a < height_to_key 0" using kvs(2) snoc e r(2) True Cons by (auto simp: sorted_wrt_append)
        then show ?thesis using r' key_less_iff [of "ck_height r'" 0] room by simp
      qed
      then show ?thesis using True r snoc e kvs(1) low by (simp add: find_latest_checkpoint_pair_def)
    next
      case False
      then show ?thesis using r snoc e kvs(1) low by (simp add: find_latest_checkpoint_pair_def)
    qed
  qed
qed

lemma open_chain_Ok:
  assumes laws: "rocksdb_laws R look" "block_law E S bs" and k: "kept E S (look db) g base anchor low bs"
  shows "\<exists>c m. open_chain R E S db g = Ok c \<and> m \<le> length bs \<and> loaded (e_xof E) base anchor m bs (length bs) c"
proof -
  have room: "Suc base + length bs < U64_MAX" by (rule kept_room [OF k])
  have g: "good_chain E null_backend None base anchor bs" and bl: "blocks_ok E S (look db) base low bs"
    and meta: "meta_ok (look db) g base anchor bs" and ck: "checkpoints_ok S (look db) base anchor low bs"
    using k by (simp_all add: kept_def)
  have tip: "read_meta_u64_by_name R db META_TIP_HEIGHT = Ok (if base + length bs = 0 then None else Some (base + length bs))"
    using meta room by (simp add: read_meta_u64_by_name_def laws_get [OF laws(1)] meta_ok_def)
  have sb: "read_snapshot_base R db = Ok (if base = 0 then None else Some (base, anchor))"
    using meta room by (simp add: read_snapshot_base_def read_meta_u64_by_name_def read_meta_hash_by_name_def
        laws_get [OF laws(1)] meta_ok_def split: if_splits)
  have fresh: "loaded (e_xof E) base anchor m bs m (chain_new_with_base (prev_at anchor bs m) (base + m))" if "m \<le> length bs" for m
    using chain_new_represents [of "base + m" "e_xof E" "prev_at anchor bs m"] that room
    by (simp add: loaded_def) (simp add: chain_new_with_base_def)
  have tail: "\<exists>c. load_tail R E S db [Suc (base + m)..<Suc (base + length bs)] (chain_new_with_base (prev_at anchor bs m) (base + m)) = Ok c
      \<and> loaded (e_xof E) base anchor m bs (length bs) c \<and> chain_height c = base + length bs" if m: "m \<le> length bs" "low \<le> Suc (base + m)" for m
  proof -
    obtain c where c: "load_tail R E S db [Suc (base + m)..<Suc (base + length bs)] (chain_new_with_base (prev_at anchor bs m) (base + m)) = Ok c"
      "loaded (e_xof E) base anchor m bs (length bs) c"
      using load_tail_Ok [OF laws g bl m(2) fresh [OF m(1)] _ m(1)] by auto
    then have "chain_height c = base + length bs"
      using represents_height [of "e_xof E" c "drop m bs"] m(1) by (simp add: loaded_def)
    then show ?thesis using c by blast
  qed
  show ?thesis
  proof (cases "base + length bs = 0")
    case True
    then have "open_chain R E S db g = Ok (chain_new_with_base g 0)" using tip sb by (simp add: open_chain_def)
    then show ?thesis using fresh [of 0] True meta by (auto simp: meta_ok_def prev_at_def)
  next
    case False
    from newest_checkpoint [OF laws(1) ck room] show ?thesis
    proof (elim disjE exE conjE)
      assume w: "find_latest_checkpoint_pair R S db = Ok None" "low \<le> Suc base"
      obtain c where c: "load_tail R E S db [Suc base..<Suc (base + length bs)] (chain_new_with_base anchor base) = Ok c"
        "loaded (e_xof E) base anchor 0 bs (length bs) c" "chain_height c = base + length bs"
        using tail [of 0] w(2) by (auto simp: prev_at_def)
      have "anchor = g" if "base = 0" using that meta by (simp add: meta_ok_def)
      then have "open_chain R E S db g = Ok c"
        using tip sb w(1) c(1,3) False room by (auto simp: open_chain_def checked_add_def simp del: upt_Suc)
      then show ?thesis using c(2) by blast
    next
      fix h
      assume h: "0 < h" "base \<le> h" "h \<le> base + length bs" "low \<le> Suc h"
        and w: "find_latest_checkpoint_pair R S db = Ok (Some (h, prev_at anchor bs (h - base)))"
      have hb: "h - base \<le> length bs" "base + (h - base) = h" using h by simp_all
      obtain c where c: "load_tail R E S db [Suc h..<Suc (base + length bs)] (chain_new_with_base (prev_at anchor bs (h - base)) h) = Ok c"
        "loaded (e_xof E) base anchor (h - base) bs (length bs) c" "chain_height c = base + length bs"
        using tail [OF hb(1)] h(4) unfolding hb(2) by blast
      have "open_chain R E S db g = Ok c"
        using tip sb w c(1,3) False room h by (auto simp: open_chain_def checked_add_def simp del: upt_Suc)
      then show ?thesis using c(2) h(3) by (intro exI [of _ c] exI [of _ "h - base"]) auto
    qed
  qed
qed

lemma open_kept:
  assumes laws: "rocksdb_laws R look" "block_law E S bs" and k: "kept E S (look db) g base anchor low bs"
  shows "\<exists>store. rocks_open_internal R E S db anchor_arg wal = (db, Ok store) \<and> rs_db store = db \<and> store_ok E S look g base anchor low bs store"
proof -
  obtain c m where c: "open_chain R E S db g = Ok c" "m \<le> length bs" "loaded (e_xof E) base anchor m bs (length bs) c"
    using open_chain_Ok [OF laws k] by blast
  have "ensure_genesis_anchor R db anchor_arg = (db, Ok g)"
    using k by (simp add: ensure_genesis_anchor_def read_meta_hash_by_name_def laws_get [OF laws(1)] kept_def meta_ok_def)
  then show ?thesis using c k by (auto simp: rocks_open_internal_def store_ok_def)
qed

section \<open>Appending\<close>

definition with_block :: "env \<Rightarrow> serde \<Rightarrow> stored_block \<Rightarrow> view \<Rightarrow> view" where
"with_block E S b m =
   (let key = height_to_key (height_of b) in
    m(CF_BLOCKS := (m CF_BLOCKS)(key \<mapsto> block_bytes E S b),
      CF_HASH_INDEX := (m CF_HASH_INDEX)(hash_of b \<mapsto> key),
      CF_TX_INDEX := (\<lambda>tx. if tx \<in> set (bl_tx_hashes (sb_block b)) then Some key else m CF_TX_INDEX tx)))"

definition with_tip :: "nat \<Rightarrow> view \<Rightarrow> view" where
"with_tip h m = m(CF_META := (m CF_META)(META_TIP_HEIGHT \<mapsto> height_to_key h))"

lemma tx_puts:
  "fold batch_step (map (\<lambda>tx. Put_cf CF_TX_INDEX tx key) txs) m
   = m(CF_TX_INDEX := (\<lambda>tx. if tx \<in> set txs then Some key else m CF_TX_INDEX tx))"
  by (induction txs arbitrary: m) (auto simp: fun_eq_iff)

lemma block_batch_of_record:
  assumes "stored_block_into_record E b = Ok r"
  shows "\<exists>batch. append_block_to_batch E S b pre = Ok (pre @ batch) \<and> fold batch_step batch m = with_block E S b m"
  using assms by (simp add: append_block_to_batch_def encode_block_bytes_def Let_def tx_puts with_block_def block_bytes_def fun_eq_iff)

lemma block_batch:
  assumes "storable E b"
  shows "\<exists>batch. append_block_to_batch E S b pre = Ok (pre @ batch) \<and> fold batch_step batch m = with_block E S b m"
  using stored_block_restored [OF assms] block_batch_of_record by blast

lemma good_snoc_height: "good_chain E D p base anchor (bs @ [b]) \<Longrightarrow> height_of b = Suc base + length bs"
  using good_heights(1) [of E D p base anchor "bs @ [b]" "length bs"] by simp

lemma good_snoc_room: "good_chain E D p base anchor (bs @ [b]) \<Longrightarrow> Suc (Suc (base + length bs)) < U64_MAX"
  using verify_bound [of "e_xof E" "Suc base" anchor "bs @ [b]"] by (simp add: good_chain_def)

lemma fits_snoc: "checkpoint_fits S base anchor bs k v \<Longrightarrow> checkpoint_fits S base anchor (bs @ [b]) k v"
  by (force simp: checkpoint_fits_def prev_at_def nth_append)

lemma kept_snoc:
  assumes k: "kept E S m g base anchor low bs" and good: "good_chain E null_backend None base anchor (bs @ [b])"
  shows "kept E S (with_tip (height_of b) (with_block E S b m)) g base anchor low (bs @ [b])"
proof -
  let ?m = "with_tip (height_of b) (with_block E S b m)"
  note ht = good_snoc_height [OF good] and room = good_snoc_room [OF good]
  have parts: "meta_ok m g base anchor bs" "blocks_ok E S m base low bs" "indices_ok m base low bs" "checkpoints_ok S m base anchor low bs"
    using k by (simp_all add: kept_def)
  have "meta_ok ?m g base anchor (bs @ [b])" using parts(1) ht by (auto simp: meta_ok_def with_tip_def with_block_def Let_def)
  moreover have "blocks_ok E S ?m base low (bs @ [b])"
    using parts(2) ht room by (auto simp: blocks_ok_def with_tip_def with_block_def Let_def nth_append less_Suc_eq)
  moreover have "indices_ok ?m base low (bs @ [b])"
  proof -
    have new: "hash_of (bs ! i) \<noteq> hash_of b" if "i < length bs" for i
      using good imageI [OF nth_mem [OF that], of hash_of] by (auto simp: good_chain_def simp del: image_eqI)
    have "last_with bs tx i \<and> tx \<notin> set (bl_tx_hashes (sb_block b)) \<or> i = length bs \<and> tx \<in> set (bl_tx_hashes (sb_block b))"
      if "last_with (bs @ [b]) tx i" for tx i
      using that by (auto simp: last_with_def nth_append less_Suc_eq split: if_splits)
    then show ?thesis
      using parts(3) new ht by (fastforce simp: indices_ok_def with_tip_def with_block_def Let_def nth_append less_Suc_eq ran_def split: if_splits)
  qed
  moreover have "checkpoints_ok S ?m base anchor low (bs @ [b])"
    using parts(4) fits_snoc by (auto simp: checkpoints_ok_def with_tip_def with_block_def Let_def)
  ultimately show ?thesis using good by (simp add: kept_def)
qed

lemma loaded_snoc:
  assumes l: "loaded (e_xof E) base anchor m bs (length bs) c" "m \<le> length bs"
    and a: "append_stored_block (e_xof E) b c = Ok (c', mt)" and room: "base + length bs + 2 < U64_MAX"
  shows "loaded (e_xof E) base anchor m (bs @ [b]) (length (bs @ [b])) c'"
proof -
  have rep: "represents (e_xof E) c (drop m bs)" and bh: "ch_base_height c = base + m" "ch_anchor_prev_hash c = prev_at anchor bs m"
    using l by (simp_all add: loaded_def)
  have "represents (e_xof E) c' (drop m bs @ [b])" using represents_append [OF rep a] represents_height [OF rep] room bh l(2) by simp
  moreover have "ch_base_height c' = base + m" "ch_anchor_prev_hash c' = prev_at anchor bs m"
    using a bh by (auto simp: append_stored_block_def result_simps Let_def)
  moreover have "prev_at anchor (bs @ [b]) m = prev_at anchor bs m" using l(2) by (auto simp: prev_at_def nth_append)
  ultimately show ?thesis using l(2) by (simp add: loaded_def)
qed

lemma persist_Ok:
  assumes laws: "rocksdb_laws R look" and b: "stored_block_into_record E b = Ok r"
  obtains (taken) db' where "persist_to_db R E S w b db = (db', Ok ())" "look db' = with_tip (height_of b) (with_block E S b (look db))"
  | (refused) db' where "persist_to_db R E S w b db = (db', Err SE_RocksDb)" "look db' = look db"
proof -
  obtain batch where batch: "append_block_to_batch E S b [] = Ok batch" "fold batch_step batch (look db) = with_block E S b (look db)"
    using block_batch_of_record [OF b, of S "[]" "look db"] by auto
  show ?thesis
  proof (cases rule: laws_write [OF laws, of w "batch @ [Put_cf CF_META META_TIP_HEIGHT (height_to_key (height_of b))]" db])
    case (1 db')
    then show ?thesis using that(1) [of db'] batch by (simp add: persist_to_db_def with_tip_def)
  next
    case (2 db')
    then show ?thesis using that(2) [of db'] batch by (simp add: persist_to_db_def)
  qed
qed

text \<open>An append takes the block or changes nothing.\<close>

lemma append_cases:
  assumes laws: "rocksdb_laws R look" and r: "rocks_append_stored_block R E S D store b policy = (store', res)"
  obtains (taken) c mt q where "append_stored_block (e_xof E) b (rs_chain store) = Ok (c, mt)" "stored_block_into_record E b = Ok q"
      "res = Ok mt" "rs_chain store' = c" "rs_genesis_anchor store' = rs_genesis_anchor store"
      "look (rs_db store') = with_tip (height_of b) (with_block E S b (look (rs_db store)))"
  | (refused) "\<not> is_ok res" "look (rs_db store') = look (rs_db store)" "rs_chain store' = rs_chain store"
proof (cases "validate_commit_proof (e_xof E) D policy (sb_block b) = Ok ()
    \<and> (\<exists>c mt. append_stored_block (e_xof E) b (rs_chain store) = Ok (c, mt))")
  case False
  then show ?thesis
    using r that(2) by (auto simp: rocks_append_stored_block_def or_same_def result_simps split: result.splits)
next
  case True
  then obtain c mt where c: "append_stored_block (e_xof E) b (rs_chain store) = Ok (c, mt)" by blast
  have r': "commit_memory store c mt (persist_to_db R E S (rs_disable_wal store) b (rs_db store)) = (store', res)"
    using r True c by (simp add: rocks_append_stored_block_def or_same_def result_simps)
  show ?thesis
  proof (cases "stored_block_into_record E b")
    case (Ok q)
    show ?thesis
    proof (cases rule: persist_Ok [OF laws Ok, of S "rs_disable_wal store" "rs_db store"])
      case (1 db')
      then show ?thesis using that(1) [OF c Ok] r' by (auto simp: commit_memory_def or_same_def)
    next
      case (2 db')
      then show ?thesis using that(2) r' by (auto simp: commit_memory_def or_same_def)
    qed
  qed (use that(2) r' in \<open>auto simp: commit_memory_def or_same_def persist_to_db_def append_block_to_batch_def encode_block_bytes_def Let_def\<close>)
qed

lemma append_keeps:
  assumes laws: "rocksdb_laws R look" and ok: "store_ok E S look g base anchor low bs store"
    and b: "storable E b" "hash_of b \<notin> hash_of ` set bs" "base + length bs + 2 < U64_MAX"
    and r: "rocks_append_stored_block R E S D store b policy = (store', res)"
  shows "if is_ok res then store_ok E S look g base anchor low (bs @ [b]) store'
    else look (rs_db store') = look (rs_db store) \<and> rs_chain store' = rs_chain store"
proof -
  obtain m where m: "m \<le> length bs" "loaded (e_xof E) base anchor m bs (length bs) (rs_chain store)" and k: "kept E S (look (rs_db store)) g base anchor low bs"
    and g: "rs_genesis_anchor store = g"
    using ok by (auto simp: store_ok_def)
  show ?thesis
  proof (cases rule: append_cases [OF laws r])
    case (1 c mt q)
    have good: "good_chain E null_backend None base anchor (bs @ [b])"
      using append_good [OF _ m(2,1) 1(1) _ b] k by (simp add: kept_def validate_commit_proof_def)
    then show ?thesis
      using kept_snoc [OF k good] loaded_snoc [OF m(2,1) 1(1) b(3)] 1 g m(1)
      by (auto simp: store_ok_def intro!: exI [of _ m])
  qed simp
qed

lemma append_written: "rocks_append_stored_block R E S D store b policy = (store', res) \<Longrightarrow> written R store (rs_db store')"
  by (auto simp: rocks_append_stored_block_def or_same_def commit_memory_def persist_to_db_def
      split: result.splits prod.splits intro: written_batch)

text \<open>The two appends of an executed block are the append of what it is stored as, after further checks.\<close>

lemma append_executed:
  assumes "rocks_append_block R E S D store ex policy = (store', res) \<or> rocks_append_block_trusted R E S store ex = (store', res)"
  shows "(\<exists>D policy. rocks_append_stored_block R E S D store (stored_of_execution (e_xof E) ex) policy = (store', res))
    \<or> \<not> is_ok res \<and> store' = store"
proof -
  let ?b = "stored_of_execution (e_xof E) ex"
  have tip: "chain_tip c = Some ?b" if "append_stored_block (e_xof E) ?b (rs_chain store) = Ok (c, mt)" for c mt
    using that by (auto simp: append_stored_block_def result_simps Let_def chain_tip_def)
  have inner: "rocks_append_block_inner R E S store ex = rocks_append_stored_block R E S null_backend store ?b None
      \<or> (\<exists>q. \<not> is_ok q \<and> rocks_append_block_inner R E S store ex = (store, q))"
    using tip by (cases "validate_execution (e_xof E) (rs_chain store) ex"; cases "append_stored_block (e_xof E) ?b (rs_chain store)")
      (auto simp: rocks_append_block_inner_def rocks_append_stored_block_def append_block_def validate_commit_proof_def or_same_def)
  have "rocks_append_block R E S D store ex policy = rocks_append_block_inner R E S store ex
      \<or> (\<exists>q. \<not> is_ok q \<and> rocks_append_block R E S D store ex policy = (store, q))"
    by (cases "validate_commit_proof (e_xof E) D policy (br_block ex)") (auto simp: rocks_append_block_def or_same_def)
  then show ?thesis using assms inner unfolding rocks_append_block_trusted_def by (metis prod.inject)
qed

text \<open>A database whose last block cannot be read does not open.\<close>

lemma load_tail_last: "load_tail R E S db (hs @ [k]) c = Ok x \<Longrightarrow> \<exists>b. read_stored_block_from_db R E S db k = Ok (Some b)"
proof (induction hs arbitrary: c)
  case (Cons h hs)
  then show ?case by (auto simp: result_simps)
next
  case Nil
  then show ?case by (auto simp: result_simps)
qed

lemma open_unreadable_tip:
  assumes laws: "rocksdb_laws R look" and k: "kept E S (look db) g base anchor low bs" and room: "base + length bs + 2 < U64_MAX"
    and v: "look db' = with_tip (Suc (base + length bs)) m" "m CF_META = look db CF_META" "m CF_CHECKPOINTS = look db CF_CHECKPOINTS"
    and bad: "\<And>b. read_stored_block_from_db R E S db' (Suc (base + length bs)) \<noteq> Ok (Some b)"
  shows "\<not> is_ok (snd (rocks_open_internal R E S db' a w))"
proof -
  let ?t = "Suc (base + length bs)"
  have meta: "meta_ok (look db) g base anchor bs" and ck: "checkpoints_ok S (look db') base anchor low bs"
    using k v(1,3) by (simp_all add: kept_def checkpoints_ok_def with_tip_def)
  have tip: "read_meta_u64_by_name R db' META_TIP_HEIGHT = Ok (Some ?t)"
    using room by (simp add: read_meta_u64_by_name_def laws_get [OF laws] v(1) with_tip_def)
  have sb: "read_snapshot_base R db' = Ok (if base = 0 then None else Some (base, anchor))"
    using meta v(1,2) room by (simp add: read_snapshot_base_def read_meta_u64_by_name_def read_meta_hash_by_name_def
        laws_get [OF laws] meta_ok_def with_tip_def split: if_splits)
  have no: "load_tail R E S db' [lo..<Suc ?t] c \<noteq> Ok x" if "lo \<le> ?t" for lo c x
    using load_tail_last [of R E S db' "[lo..<?t]" ?t] bad that by (metis upt_Suc_append)
  have "Suc base + length bs < U64_MAX" using room by simp
  from newest_checkpoint [OF laws ck this]
  have "open_chain R E S db' g' \<noteq> Ok c" for g' c
    using tip sb no room by (elim disjE exE conjE) (auto simp: open_chain_def checked_add_def result_simps simp del: upt_Suc)
  moreover have "ensure_genesis_anchor R db' a = (db', Ok g)"
    using meta v(1,2) by (simp add: ensure_genesis_anchor_def read_meta_hash_by_name_def laws_get [OF laws] meta_ok_def with_tip_def)
  ultimately show ?thesis
    by (auto simp: rocks_open_internal_def is_ok_iff result_simps)
qed

section \<open>Swapping the tip\<close>

definition swapped :: "env \<Rightarrow> serde \<Rightarrow> stored_block \<Rightarrow> stored_block \<Rightarrow> view \<Rightarrow> view" where
"swapped E S old b m =
   (let key = height_to_key (height_of b) in
    m(CF_SIBLINGS := (m CF_SIBLINGS)(sibling_key (hash_of old) (height_of b) \<mapsto> block_bytes E S old),
      CF_HASH_INDEX := ((m CF_HASH_INDEX)(hash_of old := None))(hash_of b \<mapsto> key),
      CF_BLOCKS := (m CF_BLOCKS)(key \<mapsto> block_bytes E S b),
      CF_META := (m CF_META)(META_TIP_HEIGHT \<mapsto> key)))"

lemma swap_persist:
  assumes laws: "rocksdb_laws R look" and b: "storable E b" "storable E old"
  obtains (taken) db' where "persist_replace_canonical R E S w old b db = (db', Ok ())" "look db' = swapped E S old b (look db)"
  | (refused) db' where "persist_replace_canonical R E S w old b db = (db', Err SE_RocksDb)" "look db' = look db"
proof -
  obtain r q where rq: "stored_block_into_record E b = Ok r" "stored_block_into_record E old = Ok q"
    using stored_block_restored [OF b(1)] stored_block_restored [OF b(2)] by blast
  let ?key = "height_to_key (height_of b)"
  let ?ops = "[Put_cf CF_SIBLINGS (sibling_key (hash_of old) (height_of b)) (sd_write_block S q), Delete_cf CF_HASH_INDEX (hash_of old),
      Put_cf CF_BLOCKS ?key (sd_write_block S r), Put_cf CF_HASH_INDEX (hash_of b) ?key, Put_cf CF_META META_TIP_HEIGHT ?key]"
  have eq: "persist_replace_canonical R E S w old b db = write_batch R w ?ops db"
    using rq by (simp add: persist_replace_canonical_def encode_block_bytes_def Let_def)
  show ?thesis
  proof (cases rule: laws_write [OF laws, of w ?ops db])
    case (1 db')
    then show ?thesis using that(1) [of db'] rq unfolding eq by (simp add: swapped_def block_bytes_def Let_def fun_eq_iff)
  next
    case (2 db')
    then show ?thesis using that(2) [of db'] unfolding eq by simp
  qed
qed

lemma verify_glue:
  assumes "verify_stored_blocks_structure X (Suc base) anchor (take m bs) = Ok ()" "m \<le> length bs"
    and "verify_stored_blocks_structure X (Suc (base + m)) (prev_at anchor bs m) (drop m bs) = Ok ()"
  shows "verify_stored_blocks_structure X (Suc base) anchor bs = Ok ()"
proof -
  have prev: "(if take m bs = [] then anchor else hash_of (last (take m bs))) = prev_at anchor bs m"
    using assms(2) by (cases "m = 0"; cases "bs = []") (auto simp: prev_at_def last_conv_nth)
  have "verify_stored_blocks_structure X (Suc base) anchor (take m bs @ drop m bs) = Ok ()"
    unfolding verify_append prev using assms by simp
  then show ?thesis by simp
qed

lemma kept_swap:
  assumes k: "kept E S m g base anchor low (front @ [old])" and good: "good_chain E null_backend None base anchor (front @ [b])"
    and txs: "bl_tx_hashes (sb_block b) = bl_tx_hashes (sb_block old)" and new: "hash_of b \<notin> hash_of ` set (front @ [old])"
    and no: "height_to_key (height_of b) \<notin> dom (m CF_CHECKPOINTS)"
  shows "kept E S (swapped E S old b m) g base anchor low (front @ [b])"
proof -
  let ?m = "swapped E S old b m"
  note ht = good_snoc_height [OF good] and room = good_snoc_room [OF good]
  have parts: "meta_ok m g base anchor (front @ [old])" "blocks_ok E S m base low (front @ [old])"
    "indices_ok m base low (front @ [old])" "checkpoints_ok S m base anchor low (front @ [old])"
    and old: "good_chain E null_backend None base anchor (front @ [old])" using k by (simp_all add: kept_def)
  have diff: "hash_of (front ! i) \<noteq> hash_of old" "hash_of (front ! i) \<noteq> hash_of b" if "i < length front" for i
    using old new imageI [OF nth_mem [OF that], of hash_of] by (auto simp: good_chain_def simp del: image_eqI)
  have "meta_ok ?m g base anchor (front @ [b])" using parts(1) ht by (auto simp: meta_ok_def swapped_def Let_def)
  moreover have "blocks_ok E S ?m base low (front @ [b])"
    using parts(2) ht room by (auto simp: blocks_ok_def swapped_def Let_def nth_append less_Suc_eq)
  moreover have "indices_ok ?m base low (front @ [b])"
  proof -
    have "last_with (front @ [old]) tx i \<longleftrightarrow> last_with (front @ [b]) tx i" for tx i
      using txs by (auto simp: last_with_def nth_append)
    then show ?thesis
      using parts(3) ht diff by (fastforce simp: indices_ok_def swapped_def Let_def nth_append less_Suc_eq ran_def split: if_splits)
  qed
  moreover have "checkpoints_ok S ?m base anchor low (front @ [b])"
  proof -
    have "checkpoint_fits S base anchor (front @ [b]) k v" if "m CF_CHECKPOINTS k = Some v" for k v
    proof -
      have "checkpoint_fits S base anchor (front @ [old]) k v" using parts(4) that unfolding checkpoints_ok_def by blast
      then obtain r where r: "sd_read_checkpoint S v = Some r" "k = height_to_key (ck_height r)" "base \<le> ck_height r"
        "ck_height r \<le> base + length (front @ [old])" "ck_version r \<le> STATE_FORMAT_VERSION"
        "ck_tip_hash r = prev_at anchor (front @ [old]) (ck_height r - base)"
        unfolding checkpoint_fits_def by blast
      have "ck_height r \<noteq> height_of b" using no that r(2) by auto
      then have "ck_height r \<le> base + length front" using r(4) ht by simp
      then show ?thesis using r by (force simp: checkpoint_fits_def prev_at_def nth_append)
    qed
    then show ?thesis using parts(4) by (auto simp: checkpoints_ok_def swapped_def Let_def)
  qed
  ultimately show ?thesis using good by (simp add: kept_def)
qed

lemma replaced:
  assumes k: "good_chain E null_backend None base anchor bs" and l: "loaded (e_xof E) base anchor m bs (length bs) c" "m \<le> length bs"
    and ok: "replace_tip_block (e_xof E) b c = Ok (c', old)" and b: "storable E b" "hash_of b \<notin> hash_of ` set bs"
    and count: "bm_included_count (sb_metadata b) = length (bl_tx_hashes (sb_block b))"
  shows "bs = butlast bs @ [old] \<and> good_chain E null_backend None base anchor (butlast bs @ [b])
    \<and> m < length bs \<and> loaded (e_xof E) base anchor m (butlast bs @ [b]) (length bs) c'"
proof -
  have rep: "represents (e_xof E) c (drop m bs)" and bh: "ch_base_height c = base + m" "ch_anchor_prev_hash c = prev_at anchor bs m"
    using l by (simp_all add: loaded_def)
  have "hget (ch_by_hash c) = map_of (map (\<lambda>b. (hash_of b, b)) (drop m bs))" using rep by (simp add: represents_def holds_def)
  then have "\<not> hhas (ch_by_hash c) (hash_of b)"
    using b(2) by (auto simp: hhas_def map_of_eq_None_iff dest!: map_of_SomeD in_set_dropD)
  from represents_replace [OF rep ok this count]
  have new: "drop m bs \<noteq> []" "old = last (drop m bs)" "represents (e_xof E) c' (butlast (drop m bs) @ [b])" by simp_all
  have lt: "m < length bs" using new(1) by simp
  then have split: "bs = butlast bs @ [old]" using new(2) by (cases bs rule: rev_cases) (auto simp: last_drop)
  have drop: "drop m (butlast bs @ [b]) = butlast (drop m bs) @ [b]" using lt by (simp add: butlast_drop)
  have prev: "prev_at anchor (butlast bs @ [b]) m = prev_at anchor bs m" using lt by (auto simp: prev_at_def nth_append nth_butlast)
  have c': "ch_base_height c' = base + m" "ch_anchor_prev_hash c' = prev_at anchor bs m"
    using ok bh by (auto simp: replace_tip_block_def result_simps Let_def split: if_splits)
  have "take m (butlast bs @ [b]) = take m bs" using lt by (cases bs rule: rev_cases) auto
  moreover have "verify_stored_blocks_structure (e_xof E) (Suc base) anchor (take m bs @ drop m bs) = Ok ()" using k by (simp add: good_chain_def)
  ultimately have front: "verify_stored_blocks_structure (e_xof E) (Suc base) anchor (take m (butlast bs @ [b])) = Ok ()"
    unfolding verify_append by simp
  have "verify_stored_blocks_structure (e_xof E) (Suc base) anchor (butlast bs @ [b]) = Ok ()"
    using verify_glue [OF front] new(3) c' lt unfolding drop prev by (simp add: represents_def)
  moreover have "set (butlast bs) \<subseteq> set bs" "distinct (map hash_of (butlast bs))"
    using k by (auto simp: good_chain_def map_butlast distinct_butlast dest: in_set_butlastD)
  ultimately have "good_chain E null_backend None base anchor (butlast bs @ [b])"
    using k b by (auto simp: good_chain_def validate_commit_proof_def)
  moreover have "loaded (e_xof E) base anchor m (butlast bs @ [b]) (length bs) c'"
    using new(3) c' lt prev drop by (simp add: loaded_def)
  ultimately show ?thesis using split lt by blast
qed

lemma between_prefix: "(p :: 'a :: linorder list) \<le> k \<Longrightarrow> k \<le> p @ x \<Longrightarrow> take (length p) k = p"
proof (induction p arbitrary: k)
  case (Cons a p)
  then show ?case by (cases k) (auto simp: less_le_not_le)
qed simp

lemma prefix_lookup:
  assumes laws: "rocksdb_laws R look" and here: "look db f (p @ x) = Some v"
    and only: "\<forall>k \<in> dom (look db f). take (length p) k = p \<longrightarrow> k = p @ x"
  shows "\<exists>rest. db_prefix R db f p = Some (p @ x, v) # rest"
proof -
  obtain kvs where kvs: "db_iter_start R db f = map Some kvs" "sorted_wrt (<) (map fst kvs)" "map_of kvs = look db f"
    using laws_iter [OF laws] by metis
  have d: "distinct (map fst kvs)" using kvs(2) by (simp add: strict_sorted_iff)
  have pre: "db_prefix R db f p = map Some (dropWhile (\<lambda>(k, _). k < p) kvs)"
    using laws kvs(1) by (simp add: rocksdb_laws_def dropWhile_map o_def case_prod_unfold)
  have "(p @ x, v) \<in> set kvs" using here kvs(3) map_of_SomeD by metis
  moreover have "\<not> p @ x < p" by (induction p) simp_all
  ultimately have mem: "(p @ x, v) \<in> set (dropWhile (\<lambda>(k, _). k < p) kvs)"
    by (metis (no_types, lifting) case_prod_conv set_takeWhileD takeWhile_dropWhile_id Un_iff set_append)
  then obtain k w rest where dw: "dropWhile (\<lambda>(k, _). k < p) kvs = (k, w) # rest" by (cases "dropWhile (\<lambda>(k, _). k < p) kvs") auto
  have kp: "p \<le> k" using dw by (metis (no_types, lifting) case_prod_conv dropWhile_eq_Cons_conv leI)
  have in_kvs: "(k, w) \<in> set kvs" using dw by (metis list.set_intros(1) set_dropWhileD)
  have "sorted_wrt (<) (map fst ((k, w) # rest))" using kvs(2) dw by (metis map_append sorted_wrt_append takeWhile_dropWhile_id)
  then have "k \<le> p @ x" using mem dw by (auto simp: image_iff dest: less_imp_le)
  then have "k = p @ x" using only between_prefix [OF kp] in_kvs kvs(3) d by (metis domI map_of_is_SomeI)
  moreover have "w = v" using calculation in_kvs here kvs(3) d by (metis map_of_is_SomeI option.inject)
  ultimately show ?thesis using pre dw by simp
qed

lemma swap_keeps:
  assumes laws: "rocksdb_laws R look" and ok: "store_ok E S look g base anchor low bs store"
    and b: "storable E b" "hash_of b \<notin> hash_of ` set bs" "bm_included_count (sb_metadata b) = length (bl_tx_hashes (sb_block b))"
    and same: "bs \<noteq> [] \<longrightarrow> bl_tx_hashes (sb_block b) = bl_tx_hashes (sb_block (last bs))"
    and no: "height_to_key (base + length bs) \<notin> dom (look (rs_db store) CF_CHECKPOINTS)"
    and r: "replace_canonical_at_height R E S D store b policy = (store', res)"
  shows "case res of
      Ok old \<Rightarrow> bs \<noteq> [] \<and> old = last bs \<and> store_ok E S look g base anchor low (butlast bs @ [b]) store'
        \<and> look (rs_db store') = swapped E S old b (look (rs_db store))
    | _ \<Rightarrow> look (rs_db store') = look (rs_db store) \<and> rs_chain store' = rs_chain store"
proof (cases "validate_commit_proof (e_xof E) D policy (sb_block b) = Ok ()
    \<and> (\<exists>c old. replace_tip_block (e_xof E) b (rs_chain store) = Ok (c, old))")
  case False
  then show ?thesis
    using r by (auto simp: replace_canonical_at_height_def or_same_def result_simps split: result.splits)
next
  case True
  then obtain c old where c: "replace_tip_block (e_xof E) b (rs_chain store) = Ok (c, old)" by blast
  obtain m where m: "m \<le> length bs" "loaded (e_xof E) base anchor m bs (length bs) (rs_chain store)"
    and k: "kept E S (look (rs_db store)) g base anchor low bs" and g: "rs_genesis_anchor store = g"
    using ok by (auto simp: store_ok_def)
  have gd: "good_chain E null_backend None base anchor bs" using k by (simp add: kept_def)
  have rp: "bs = butlast bs @ [old]" "good_chain E null_backend None base anchor (butlast bs @ [b])" "m < length bs"
    "loaded (e_xof E) base anchor m (butlast bs @ [b]) (length bs) c"
    using replaced [OF gd m(2,1) c b] by blast+
  have old: "old = last bs" "storable E old" using rp(1) gd by (metis last_snoc, metis good_chain_def in_set_conv_decomp)
  have len: "base + length bs = height_of b" using good_snoc_height [OF rp(2)] rp(3) by simp
  have kept': "kept E S (swapped E S old b (look (rs_db store))) g base anchor low (butlast bs @ [b])"
  proof (rule kept_swap [OF _ rp(2)])
    show "kept E S (look (rs_db store)) g base anchor low (butlast bs @ [old])" "hash_of b \<notin> hash_of ` set (butlast bs @ [old])"
      unfolding rp(1) [symmetric] by (fact k, fact b(2))
    show "height_to_key (height_of b) \<notin> dom (look (rs_db store) CF_CHECKPOINTS)" using no len by simp
    show "bl_tx_hashes (sb_block b) = bl_tx_hashes (sb_block old)" using same old(1) rp(3) by auto
  qed
  have r': "commit_memory store c old (persist_replace_canonical R E S (rs_disable_wal store) old b (rs_db store)) = (store', res)"
    using r True c by (simp add: replace_canonical_at_height_def or_same_def)
  show ?thesis
  proof (cases rule: swap_persist [OF laws b(1) old(2), of S "rs_disable_wal store" "rs_db store"])
    case (1 db')
    then have "store' = store\<lparr> rs_db := db', rs_chain := c \<rparr>" "res = Ok old" using r' by (auto simp: commit_memory_def or_same_def)
    moreover have "Suc (length bs - Suc 0) = length bs" using rp(3) by simp
    ultimately show ?thesis
      using kept' rp(3,4) old(1) 1(2) g m(1) by (auto simp: store_ok_def intro!: exI [of _ m])
  next
    case (2 db')
    then show ?thesis using r' by (auto simp: commit_memory_def or_same_def)
  qed
qed

section \<open>Checkpoints\<close>

lemma checkpoint_keeps:
  assumes laws: "rocksdb_laws R look" and ok: "store_ok E S look g base anchor low bs store"
    and law: "\<And>meta. res = Ok meta
      \<Longrightarrow> sd_read_checkpoint S (sd_write_checkpoint S (checkpoint_record meta s)) = Some (checkpoint_record meta s)"
    and r: "rocks_write_trusted_checkpoint R X S store s = (store', res)"
  shows "case res of
      Ok meta \<Rightarrow> tm_height meta = base + length bs \<and> tm_tip_hash meta = prev_at anchor bs (length bs)
        \<and> store_ok E S look g base anchor low bs store'
        \<and> store_ok E S look g base anchor low bs (compact_chain_to_checkpoint (tm_height meta) (tm_tip_hash meta) store')
    | _ \<Rightarrow> look (rs_db store') = look (rs_db store) \<and> rs_chain store' = rs_chain store"
proof -
  obtain m where m: "m \<le> length bs" "loaded (e_xof E) base anchor m bs (length bs) (rs_chain store)"
    and k: "kept E S (look (rs_db store)) g base anchor low bs" and g: "rs_genesis_anchor store = g"
    using ok by (auto simp: store_ok_def)
  have rep: "represents (e_xof E) (rs_chain store) (drop m bs)" and bh: "ch_base_height (rs_chain store) = base + m"
    "ch_anchor_prev_hash (rs_chain store) = prev_at anchor bs m" using m(2) by (simp_all add: loaded_def)
  have ht: "chain_height (rs_chain store) = base + length bs" using represents_height [OF rep] bh m(1) by simp
  have tip: "or_anchor (rs_chain store) = prev_at anchor bs (length bs)"
    using represents_prev [OF rep] bh m(1) by (auto simp: prev_at_def last_drop last_conv_nth)
  let ?meta = "\<lambda>root. \<lparr> tm_height = base + length bs, tm_tip_hash = prev_at anchor bs (length bs), tm_state_root = root \<rparr>"
  have cases: "(\<exists>e. rocks_write_trusted_checkpoint R X S store s = (store, Err e))
    \<or> (\<exists>root. rocks_write_trusted_checkpoint R X S store s
        = (case put_cf R CF_CHECKPOINTS (height_to_key (base + length bs)) (sd_write_checkpoint S (checkpoint_record (?meta root) s)) (rs_db store)
           of (db, q) \<Rightarrow> (store\<lparr> rs_db := db \<rparr>, bind_r q (\<lambda>_. Ok (?meta root)))))"
    unfolding rocks_write_trusted_checkpoint_def Let_def ht tip checkpoint_record_def by (auto split: if_splits)
  show ?thesis
    using cases
  proof (elim disjE exE)
    fix root
    let ?v = "sd_write_checkpoint S (checkpoint_record (?meta root) s)"
    assume eq: "rocks_write_trusted_checkpoint R X S store s
        = (case put_cf R CF_CHECKPOINTS (height_to_key (base + length bs)) ?v (rs_db store)
           of (db, q) \<Rightarrow> (store\<lparr> rs_db := db \<rparr>, bind_r q (\<lambda>_. Ok (?meta root))))"
    show ?thesis
    proof (cases rule: laws_write [OF laws, of False "[Put_cf CF_CHECKPOINTS (height_to_key (base + length bs)) ?v]" "rs_db store"])
      case (1 db')
      then have st: "store' = store\<lparr> rs_db := db' \<rparr>" "res = Ok (?meta root)" using r eq by (auto simp: put_cf_def)
      have "checkpoint_fits S base anchor bs (height_to_key (base + length bs)) ?v"
        unfolding checkpoint_fits_def using law [OF st(2)] by (auto simp: checkpoint_record_def)
      then have kept': "kept E S (look db') g base anchor low bs"
        using k 1(2) by (auto simp: kept_def meta_ok_def blocks_ok_def indices_ok_def checkpoints_ok_def)
      have "loaded (e_xof E) base anchor (length bs) bs (length bs)
          (compact_to_checkpoint (base + length bs) (prev_at anchor bs (length bs)) (rs_chain store))"
      proof -
        have tip': "prev_at anchor bs (length bs)
            = (if length bs - m = 0 then ch_anchor_prev_hash (rs_chain store) else hash_of (drop m bs ! (length bs - m - 1)))"
          using bh m(1) by (auto simp: prev_at_def)
        show ?thesis
          using represents_compact [OF rep _ tip'] bh m(1) by (simp add: loaded_def) (simp add: compact_to_checkpoint_def)
      qed
      then show ?thesis
        using st kept' m g by (auto simp: store_ok_def compact_chain_to_checkpoint_def)
    next
      case (2 db')
      then show ?thesis using r eq by (auto simp: put_cf_def)
    qed
  qed (use r in auto)
qed

section \<open>Pruning\<close>

lemma checkpoint_key:
  assumes "checkpoints_ok S m base anchor low bs" "k \<in> dom (m CF_CHECKPOINTS)" "Suc base + length bs < U64_MAX"
  shows "\<exists>h. k = height_to_key h \<and> base \<le> h \<and> h \<le> base + length bs \<and> h \<le> U64_MAX \<and> from_be_bytes k = h"
proof -
  obtain v where "m CF_CHECKPOINTS k = Some v" using assms(2) by blast
  then have "checkpoint_fits S base anchor bs k v" using assms(1) unfolding checkpoints_ok_def by blast
  then obtain h where h: "k = height_to_key h" "base \<le> h" "h \<le> base + length bs" unfolding checkpoint_fits_def by blast
  then have "h \<le> U64_MAX" using assms(3) by simp
  then show ?thesis using h by simp
qed

lemma deletes: "fold batch_step (map (Delete_cf f) ks) m = m(f := (\<lambda>k. if k \<in> set ks then None else m f k))"
  by (induction ks arbitrary: m) (auto simp: fun_eq_iff)

lemma count_blocks_Ok:
  "\<forall>(k, v) \<in> set kvs. length k = 8 \<Longrightarrow> \<exists>n. count_blocks_below cutoff (map Some kvs) = Ok n"
proof (induction kvs)
  case (Cons e kvs)
  then show ?case by (cases e) (auto simp: key_to_height_def)
qed simp

lemma index_deletes_eq:
  "\<forall>(k, v) \<in> set kvs. length v = 8 \<Longrightarrow>
   index_deletes f cutoff (map Some kvs) = Ok (map (Delete_cf f) (map fst (filter (\<lambda>(k, v). from_be_bytes v < cutoff) kvs)))"
proof (induction kvs)
  case (Cons e kvs)
  then show ?case by (cases e) (auto simp: key_to_height_def)
qed simp

lemma sibling_deletes_eq:
  "sibling_deletes cutoff (map Some kvs)
   = Ok (map (Delete_cf CF_SIBLINGS) (map fst (filter (\<lambda>(k, v). length k = 40 \<and> from_be_bytes (drop 32 k) < cutoff) kvs)))"
proof (induction kvs)
  case (Cons e kvs)
  then show ?case by (cases e) auto
qed simp

lemma checkpoint_heights_eq:
  "\<forall>(k, v) \<in> set kvs. length k = 8 \<Longrightarrow> checkpoint_heights (map Some kvs) = Ok (map (from_be_bytes \<circ> fst) kvs)"
proof (induction kvs)
  case (Cons e kvs)
  then show ?case by (cases e) (auto simp: key_to_height_def)
qed simp

definition newest_height :: "view \<Rightarrow> nat" where
"newest_height m = Max (from_be_bytes ` dom (m CF_CHECKPOINTS))"

text \<open>What remains after pruning.\<close>

definition pruned :: "nat \<Rightarrow> view \<Rightarrow> view" where
"pruned cutoff m = (\<lambda>f k. if (case f of
     CF_BLOCKS \<Rightarrow> height_to_key 0 \<le> k \<and> k < height_to_key cutoff
   | CF_HASH_INDEX \<Rightarrow> \<exists>v. m f k = Some v \<and> from_be_bytes v < cutoff
   | CF_TX_INDEX \<Rightarrow> \<exists>v. m f k = Some v \<and> from_be_bytes v < cutoff
   | CF_SIBLINGS \<Rightarrow> length k = 40 \<and> from_be_bytes (drop 32 k) < cutoff
   | CF_CHECKPOINTS \<Rightarrow> \<exists>h. k = height_to_key h \<and> height_to_key h \<in> dom (m f) \<and> h \<le> U64_MAX \<and> h \<noteq> newest_height m
   | CF_META \<Rightarrow> False) then None else m f k)"

lemma mem_map_filter: "k \<in> set (map f (filter P xs)) \<longleftrightarrow> (\<exists>q. q \<in> set xs \<and> P q \<and> k = f q)"
  by auto

lemma sorted_lookup:
  fixes kvs :: "(bytes \<times> bytes) list"
  assumes "map_of kvs = m" "sorted_wrt (<) (map fst kvs)"
  shows "(k, v) \<in> set kvs \<longleftrightarrow> m k = Some v"
proof -
  have "distinct (map fst kvs)" using assms(2) by (simp add: strict_sorted_iff)
  then show ?thesis using assms(1) by (auto intro: map_of_is_SomeI dest: map_of_SomeD)
qed

lemma prune_batch_Ok:
  assumes laws: "rocksdb_laws R look" and room: "Suc base + length bs < U64_MAX"
    and b: "blocks_ok E S (look db) base low bs" and i: "indices_ok (look db) base low bs" and c: "checkpoints_ok S (look db) base anchor low bs"
  shows "\<exists>batch stats. prune_batch R db cutoff = Ok (batch, stats) \<and> fold batch_step batch (look db) = pruned cutoff (look db)"
proof -
  obtain bk where bk: "db_iter_start R db CF_BLOCKS = map Some bk" "map_of bk = look db CF_BLOCKS" "sorted_wrt (<) (map fst bk)"
    using laws_iter [OF laws] by metis
  obtain hk where hk: "db_iter_start R db CF_HASH_INDEX = map Some hk" "map_of hk = look db CF_HASH_INDEX" "sorted_wrt (<) (map fst hk)"
    using laws_iter [OF laws] by metis
  obtain tk where tk: "db_iter_start R db CF_TX_INDEX = map Some tk" "map_of tk = look db CF_TX_INDEX" "sorted_wrt (<) (map fst tk)"
    using laws_iter [OF laws] by metis
  obtain sk where sk: "db_iter_start R db CF_SIBLINGS = map Some sk" "map_of sk = look db CF_SIBLINGS" "sorted_wrt (<) (map fst sk)"
    using laws_iter [OF laws] by metis
  obtain ck where ck: "db_iter_start R db CF_CHECKPOINTS = map Some ck" "map_of ck = look db CF_CHECKPOINTS" "sorted_wrt (<) (map fst ck)"
    using laws_iter [OF laws] by metis
  note mem = sorted_lookup
  have dm: "fst ` set kvs = dom m" if "map_of kvs = m" for kvs :: "(bytes \<times> bytes) list" and m
    using that dom_map_of_conv_image_fst by metis
  have "\<forall>(k, v) \<in> set bk. length k = 8" using b mem [OF bk(2,3)] by (fastforce simp: blocks_ok_def)
  then obtain n where n: "count_blocks_below cutoff (db_iter_start R db CF_BLOCKS) = Ok n"
    using count_blocks_Ok [of bk cutoff] bk(1) by auto
  have i8: "length v = 8" if "look db CF_HASH_INDEX k = Some v \<or> look db CF_TX_INDEX k = Some v" for k v
    using i that ranI [of "look db CF_HASH_INDEX" k v] ranI [of "look db CF_TX_INDEX" k v] unfolding indices_ok_def by blast
  have h: "index_deletes CF_HASH_INDEX cutoff (db_iter_start R db CF_HASH_INDEX)
      = Ok (map (Delete_cf CF_HASH_INDEX) (map fst (filter (\<lambda>(k, v). from_be_bytes v < cutoff) hk)))"
    unfolding hk(1) using i8 mem [OF hk(2,3)] by (intro index_deletes_eq) auto
  have t: "index_deletes CF_TX_INDEX cutoff (db_iter_start R db CF_TX_INDEX)
      = Ok (map (Delete_cf CF_TX_INDEX) (map fst (filter (\<lambda>(k, v). from_be_bytes v < cutoff) tk)))"
    unfolding tk(1) using i8 mem [OF tk(2,3)] by (intro index_deletes_eq) auto
  have keys: "\<exists>q. k = height_to_key q \<and> q \<le> U64_MAX \<and> from_be_bytes k = q" if "k \<in> dom (look db CF_CHECKPOINTS)" for k
    using checkpoint_key [OF c that room] by blast
  let ?hs = "map (from_be_bytes \<circ> fst) ck"
  have "length k = 8" if "(k, v) \<in> set ck" for k v
  proof -
    have "k \<in> dom (look db CF_CHECKPOINTS)" using that mem [OF ck(2,3)] by blast
    then obtain q where "k = height_to_key q" using keys by blast
    then show ?thesis by simp
  qed
  then have p: "checkpoint_heights (db_iter_start R db CF_CHECKPOINTS) = Ok ?hs"
    unfolding ck(1) by (intro checkpoint_heights_eq) blast
  have hs: "set ?hs = from_be_bytes ` dom (look db CF_CHECKPOINTS)" unfolding dm [OF ck(2), symmetric] by (simp add: image_comp)
  then have newest: "Max (set ?hs) = newest_height (look db)" by (simp add: newest_height_def)
  have hs_iff: "q \<in> set ?hs \<longleftrightarrow> height_to_key q \<in> dom (look db CF_CHECKPOINTS) \<and> q \<le> U64_MAX" for q
  proof
    assume "q \<in> set ?hs"
    then obtain k where k: "k \<in> dom (look db CF_CHECKPOINTS)" "q = from_be_bytes k" unfolding hs by blast
    obtain p where "k = height_to_key p" "p \<le> U64_MAX" "from_be_bytes k = p" using keys [OF k(1)] by blast
    then show "height_to_key q \<in> dom (look db CF_CHECKPOINTS) \<and> q \<le> U64_MAX" using k by simp
  next
    assume "height_to_key q \<in> dom (look db CF_CHECKPOINTS) \<and> q \<le> U64_MAX"
    then have "from_be_bytes (height_to_key q) \<in> set ?hs" "from_be_bytes (height_to_key q) = q" unfolding hs by (blast, simp)
    then show "q \<in> set ?hs" by simp
  qed
  have gone: "k \<in> set (map height_to_key (filter (\<lambda>q. q \<noteq> Max (set ?hs)) ?hs))
      \<longleftrightarrow> (\<exists>q. k = height_to_key q \<and> height_to_key q \<in> dom (look db CF_CHECKPOINTS) \<and> q \<le> U64_MAX \<and> q \<noteq> newest_height (look db))" for k
    unfolding mem_map_filter newest hs_iff by blast
  have cps: "checkpoint_deletes ?hs = map (Delete_cf CF_CHECKPOINTS) (map height_to_key (filter (\<lambda>q. q \<noteq> Max (set ?hs)) ?hs))"
    by (simp add: checkpoint_deletes_def)
  let ?batch = "Delete_range_cf CF_BLOCKS (height_to_key 0) (height_to_key cutoff)
    # map (Delete_cf CF_HASH_INDEX) (map fst (filter (\<lambda>(k, v). from_be_bytes v < cutoff) hk))
    @ map (Delete_cf CF_TX_INDEX) (map fst (filter (\<lambda>(k, v). from_be_bytes v < cutoff) tk))
    @ map (Delete_cf CF_SIBLINGS) (map fst (filter (\<lambda>(k, v). length k = 40 \<and> from_be_bytes (drop 32 k) < cutoff) sk)) @ checkpoint_deletes ?hs"
  have dropped: "k \<in> set (map fst (filter P kvs)) \<longleftrightarrow> (\<exists>v. m k = Some v \<and> P (k, v))"
    if "map_of kvs = m" "sorted_wrt (<) (map fst kvs)" for kvs :: "(bytes \<times> bytes) list" and m k P
    using mem [OF that] by (force simp: image_iff)
  have "fold batch_step ?batch (look db) f k = pruned cutoff (look db) f k" for f k
    unfolding cps fold_append fold_Cons comp_apply deletes gone dropped [OF hk(2,3)] dropped [OF tk(2,3)] dropped [OF sk(2,3)]
    by (cases f) (auto simp: pruned_def)
  then have "fold batch_step ?batch (look db) = pruned cutoff (look db)" by blast
  moreover have "\<exists>stats. prune_batch R db cutoff = Ok (?batch, stats)"
    unfolding prune_batch_def n h t p sk(1) sibling_deletes_eq by (simp)
  ultimately show ?thesis by blast
qed

lemma late_checkpoint:
  assumes laws: "rocksdb_laws R look" and c: "checkpoints_ok S (look db) base anchor low bs" and room: "Suc base + length bs < U64_MAX"
    and pos: "0 < cutoff"
  shows "has_late_checkpoint cutoff (db_iter_end R db CF_CHECKPOINTS)
    \<longleftrightarrow> (\<exists>h \<le> U64_MAX. cutoff \<le> h \<and> height_to_key h \<in> dom (look db CF_CHECKPOINTS))"
proof -
  obtain kvs where kvs: "db_iter_end R db CF_CHECKPOINTS = map Some (rev kvs)" "map_of kvs = look db CF_CHECKPOINTS" "sorted_wrt (<) (map fst kvs)"
    using laws_iter [OF laws] by metis
  have "has_late_checkpoint cutoff (map Some (rev kvs))
      \<longleftrightarrow> (\<exists>k v. (k, v) \<in> set kvs \<and> cutoff \<le> (case key_to_height k of Ok h \<Rightarrow> h | _ \<Rightarrow> 0))"
    by (auto simp: has_late_checkpoint_def list_ex_iff)
  also have "\<dots> \<longleftrightarrow> (\<exists>k \<in> dom (look db CF_CHECKPOINTS). cutoff \<le> (case key_to_height k of Ok h \<Rightarrow> h | _ \<Rightarrow> 0))"
    using sorted_lookup [OF kvs(2,3)] by blast
  also have "\<dots> \<longleftrightarrow> (\<exists>h \<le> U64_MAX. cutoff \<le> h \<and> height_to_key h \<in> dom (look db CF_CHECKPOINTS))"
  proof
    assume "\<exists>k \<in> dom (look db CF_CHECKPOINTS). cutoff \<le> (case key_to_height k of Ok h \<Rightarrow> h | _ \<Rightarrow> 0)"
    then obtain k where k: "k \<in> dom (look db CF_CHECKPOINTS)" "cutoff \<le> (case key_to_height k of Ok h \<Rightarrow> h | _ \<Rightarrow> 0)" by blast
    obtain h where "k = height_to_key h" "h \<le> U64_MAX" using checkpoint_key [OF c k(1) room] by blast
    then show "\<exists>h \<le> U64_MAX. cutoff \<le> h \<and> height_to_key h \<in> dom (look db CF_CHECKPOINTS)" using k by auto
  next
    assume "\<exists>h \<le> U64_MAX. cutoff \<le> h \<and> height_to_key h \<in> dom (look db CF_CHECKPOINTS)"
    then obtain h where h: "h \<le> U64_MAX" "cutoff \<le> h" "height_to_key h \<in> dom (look db CF_CHECKPOINTS)" by blast
    then have "cutoff \<le> (case key_to_height (height_to_key h) of Ok h \<Rightarrow> h | _ \<Rightarrow> 0)" by simp
    then show "\<exists>k \<in> dom (look db CF_CHECKPOINTS). cutoff \<le> (case key_to_height k of Ok h \<Rightarrow> h | _ \<Rightarrow> 0)" using h(3) by blast
  qed
  finally show ?thesis unfolding kvs(1) .
qed

lemma newest_kept:
  assumes c: "checkpoints_ok S m base anchor low bs" and room: "Suc base + length bs < U64_MAX"
    and h: "height_to_key h \<in> dom (m CF_CHECKPOINTS)" "h \<le> U64_MAX"
  shows "h \<le> newest_height m \<and> newest_height m \<le> base + length bs \<and> base \<le> newest_height m
    \<and> height_to_key (newest_height m) \<in> dom (m CF_CHECKPOINTS)"
proof -
  let ?D = "from_be_bytes ` dom (m CF_CHECKPOINTS)"
  have keys: "\<exists>q. k = height_to_key q \<and> base \<le> q \<and> q \<le> base + length bs \<and> from_be_bytes k = q" if "k \<in> dom (m CF_CHECKPOINTS)" for k
    using checkpoint_key [OF c that room] by blast
  have "?D \<subseteq> {..base + length bs}" using keys by auto
  then have fin: "finite ?D" using finite_subset by blast
  have mem: "h \<in> ?D" using h from_key [of h] by (metis imageI)
  then have "Max ?D \<in> ?D" using fin by (intro Max_in) auto
  then obtain k where k: "k \<in> dom (m CF_CHECKPOINTS)" "newest_height m = from_be_bytes k" unfolding newest_height_def by blast
  have "h \<le> newest_height m" unfolding newest_height_def using fin mem by simp
  then show ?thesis using k keys by metis
qed

lemma kept_pruned:
  assumes k: "kept E S m g base anchor low bs" and cutoff: "0 < cutoff" "cutoff \<le> base + length bs"
    and h: "cutoff \<le> h" "h \<le> U64_MAX" "height_to_key h \<in> dom (m CF_CHECKPOINTS)"
  shows "kept E S (pruned cutoff m) g base anchor (max low cutoff) bs"
proof -
  note room = kept_room [OF k]
  have parts: "meta_ok m g base anchor bs" "blocks_ok E S m base low bs" "indices_ok m base low bs" "checkpoints_ok S m base anchor low bs"
    and good: "good_chain E null_backend None base anchor bs" using k by (simp_all add: kept_def)
  have "meta_ok (pruned cutoff m) g base anchor bs" using parts(1) by (simp add: meta_ok_def pruned_def)
  moreover have "blocks_ok E S (pruned cutoff m) base (max low cutoff) bs"
  proof -
    have "\<not> height_to_key (Suc base + i) < height_to_key cutoff" if "i < length bs" "cutoff \<le> Suc base + i" for i
      using key_less_iff [of "Suc base + i" cutoff] that room by simp
    then show ?thesis using parts(2) by (auto simp: blocks_ok_def pruned_def domIff split: if_splits)
  qed
  moreover have "indices_ok (pruned cutoff m) base (max low cutoff) bs"
  proof -
    have "from_be_bytes (height_to_key (Suc base + i)) = Suc base + i" if "i < length bs" for i using that room by (intro from_key) simp
    moreover have "i < length bs" if "last_with bs tx i" for tx i using that by (simp add: last_with_def)
    moreover have "ran (pruned cutoff m CF_HASH_INDEX) \<subseteq> ran (m CF_HASH_INDEX)" "ran (pruned cutoff m CF_TX_INDEX) \<subseteq> ran (m CF_TX_INDEX)"
      by (auto simp: ran_def pruned_def split: if_splits)
    ultimately show ?thesis
      using parts(3) unfolding indices_ok_def by (auto simp: pruned_def)
  qed
  moreover have "checkpoints_ok S (pruned cutoff m) base anchor (max low cutoff) bs"
  proof -
    have new: "h \<le> newest_height m" "newest_height m \<le> base + length bs" "base \<le> newest_height m"
      "height_to_key (newest_height m) \<in> dom (m CF_CHECKPOINTS)" using newest_kept [OF parts(4) room h(3,2)] by blast+
    have low: "low \<le> Suc (newest_height m)"
      using parts(4) newest_kept [OF parts(4) room] new(3) unfolding checkpoints_ok_def by (meson Suc_le_mono le_trans)
    have u: "newest_height m \<le> U64_MAX" using new(2) room by simp
    then have "height_to_key (newest_height m) \<in> dom (pruned cutoff m CF_CHECKPOINTS)" using new(4) by (auto simp: pruned_def domIff)
    moreover have "m CF_CHECKPOINTS k = Some v" if "pruned cutoff m CF_CHECKPOINTS k = Some v" for k v
      using that by (simp add: pruned_def split: if_splits)
    ultimately show ?thesis
      using parts(4) low u new(1) h(1) cutoff(1) unfolding checkpoints_ok_def
      by (intro conjI disjI2 exI [of _ "newest_height m"]) auto
  qed
  ultimately show ?thesis using good by (simp add: kept_def)
qed

lemma prune_keeps:
  assumes laws: "rocksdb_laws R look" and ok: "store_ok E S look g base anchor low bs store"
    and r: "prune_blocks_below R store cutoff = (store', res)"
  shows "if 0 < cutoff \<and> cutoff \<le> base + length bs
      \<and> (\<exists>h \<le> U64_MAX. cutoff \<le> h \<and> height_to_key h \<in> dom (look (rs_db store) CF_CHECKPOINTS))
    then case res of
        Ok stats \<Rightarrow> store_ok E S look g base anchor (max low cutoff) bs store' \<and> look (rs_db store') = pruned cutoff (look (rs_db store))
      | _ \<Rightarrow> res = Err SE_RocksDb \<and> look (rs_db store') = look (rs_db store) \<and> rs_chain store' = rs_chain store
    else store' = store \<and> (\<exists>msg. res = Err (SE_InvalidPruneCutoff msg))"
proof -
  obtain m where m: "m \<le> length bs" "loaded (e_xof E) base anchor m bs (length bs) (rs_chain store)"
    and k: "kept E S (look (rs_db store)) g base anchor low bs" and g: "rs_genesis_anchor store = g"
    using ok by (auto simp: store_ok_def)
  have rep: "represents (e_xof E) (rs_chain store) (drop m bs)" and bh: "ch_base_height (rs_chain store) = base + m"
    using m(2) by (simp_all add: loaded_def)
  have ht: "chain_height (rs_chain store) = base + length bs" using represents_height [OF rep] bh m(1) by simp
  note room = kept_room [OF k]
  have parts: "blocks_ok E S (look (rs_db store)) base low bs" "indices_ok (look (rs_db store)) base low bs"
    "checkpoints_ok S (look (rs_db store)) base anchor low bs" using k by (simp_all add: kept_def)
  show ?thesis
  proof (cases "0 < cutoff \<and> cutoff \<le> base + length bs \<and> (\<exists>h \<le> U64_MAX. cutoff \<le> h \<and> height_to_key h \<in> dom (look (rs_db store) CF_CHECKPOINTS))")
    case False
    then show ?thesis
      using r late_checkpoint [OF laws parts(3) room, of cutoff] unfolding prune_blocks_below_def ht by (auto split: if_splits)
  next
    case True
    then obtain h where h: "cutoff \<le> h" "h \<le> U64_MAX" "height_to_key h \<in> dom (look (rs_db store) CF_CHECKPOINTS)" by blast
    obtain batch stats where b: "prune_batch R (rs_db store) cutoff = Ok (batch, stats)"
      "fold batch_step batch (look (rs_db store)) = pruned cutoff (look (rs_db store))"
      using prune_batch_Ok [OF laws room parts] by blast
    have late: "has_late_checkpoint cutoff (db_iter_end R (rs_db store) CF_CHECKPOINTS)"
      using late_checkpoint [OF laws parts(3) room, of cutoff] True by blast
    have r': "(case write_batch R False batch (rs_db store) of (db, q) \<Rightarrow> (store\<lparr> rs_db := db \<rparr>, bind_r q (\<lambda>_. Ok stats))) = (store', res)"
      using r True late b(1) unfolding prune_blocks_below_def ht by (simp add: or_same_def)
    show ?thesis
    proof (cases rule: laws_write [OF laws, of False batch "rs_db store"])
      case (1 db')
      then have "store' = store\<lparr> rs_db := db' \<rparr>" "res = Ok stats" using r' by auto
      then show ?thesis
        using True 1(2) b(2) kept_pruned [OF k _ _ h] m g by (auto simp: store_ok_def)
    next
      case (2 db')
      then show ?thesis using r' True by auto
    qed
  qed
qed

section \<open>Properties\<close>

text \<open>The directory of the store opens as the chain \<open>bs\<close>, whatever anchor the caller gives.\<close>

definition reopens ::
    "'db rocksdb \<Rightarrow> ('db \<Rightarrow> view) \<Rightarrow> env \<Rightarrow> serde \<Rightarrow> hash32 \<Rightarrow> nat \<Rightarrow> hash32 \<Rightarrow> nat \<Rightarrow> stored_block list \<Rightarrow> 'db \<Rightarrow> bool" where
"reopens R look E S g base anchor low bs db =
   (\<forall>a wal. \<exists>store. rocks_open_internal R E S db a wal = (db, Ok store) \<and> rs_db store = db
      \<and> store_ok E S look g base anchor low bs store)"

lemma store_reopens:
  "rocksdb_laws R look \<Longrightarrow> block_law E S bs \<Longrightarrow> store_ok E S look g base anchor low bs store \<Longrightarrow> reopens R look E S g base anchor low bs (rs_db store)"
  using open_kept [of R look E S bs "rs_db store"] by (auto simp: reopens_def store_ok_def)

lemma unchanged_reopens:
  "rocksdb_laws R look \<Longrightarrow> block_law E S bs \<Longrightarrow> store_ok E S look g base anchor low bs store \<Longrightarrow> look db = look (rs_db store)
   \<Longrightarrow> reopens R look E S g base anchor low bs db"
  using open_kept [of R look E S bs db] by (auto simp: reopens_def store_ok_def)

lemma appended_indexed:
  assumes laws: "rocksdb_laws R look" and ok: "store_ok E S look g base anchor low (bs @ [b]) store" and low: "low \<le> base + length bs"
    and tx: "tx \<in> set (bl_tx_hashes (sb_block b))"
  shows "get_tx_block_height R store tx = Ok (Some (height_of b))"
proof -
  have i: "indices_ok (look (rs_db store)) base low (bs @ [b])" and good: "good_chain E null_backend None base anchor (bs @ [b])"
    using ok by (simp_all add: store_ok_def kept_def)
  have "last_with (bs @ [b]) tx (length bs)" using tx by (simp add: last_with_def)
  then have "look (rs_db store) CF_TX_INDEX tx = Some (height_to_key (Suc base + length bs))"
    using i low by (simp add: indices_ok_def)
  then show ?thesis
    using good_snoc_height [OF good] good_snoc_room [OF good] by (simp add: get_tx_block_height_def laws_get [OF laws])
qed

lemma append_unreadable:
  assumes laws: "rocksdb_laws R look" and ok: "store_ok E S look g base anchor low bs store" and law: "block_law E S [b]"
    and room: "base + length bs + 2 < U64_MAX" and bad: "misencoded E b"
    and r: "rocks_append_stored_block R E S D store b policy = (store', res)" "is_ok res" and db: "look db' = look (rs_db store')"
  shows "\<not> is_ok (snd (rocks_open_internal R E S db' a w))"
proof -
  obtain m where m: "m \<le> length bs" "loaded (e_xof E) base anchor m bs (length bs) (rs_chain store)"
    and k: "kept E S (look (rs_db store)) g base anchor low bs"
    using ok by (auto simp: store_ok_def)
  obtain c mt q where c: "append_stored_block (e_xof E) b (rs_chain store) = Ok (c, mt)" "stored_block_into_record E b = Ok q"
    "look (rs_db store') = with_tip (height_of b) (with_block E S b (look (rs_db store)))"
    using r(2) by (cases rule: append_cases [OF laws r(1)]) auto
  have ht: "height_of b = Suc (base + length bs)" using append_height [OF m(2,1) c(1)] room by simp
  have "look db' CF_BLOCKS (height_to_key (height_of b)) = Some (sd_write_block S q)"
    using c(2,3) db by (simp add: with_tip_def with_block_def block_bytes_def Let_def)
  moreover have "sd_read_block S (sd_write_block S q) = Some q" using law c(2) by (simp add: block_law_def)
  ultimately have "read_stored_block_from_db R E S db' (height_of b) \<noteq> Ok (Some b')" for b'
    using misencoded_unreadable [OF bad c(2), of "height_of b"]
    by (auto simp: read_stored_block_from_db_def laws_get [OF laws] is_ok_iff result_simps)
  then show ?thesis
    using open_unreadable_tip [OF laws k room, of db' "with_block E S b (look (rs_db store))"] c(3) db ht
    by (simp add: with_block_def Let_def)
qed

text \<open>The three ways to append a block: one that was received, and one that was executed here, with its commit checked and without.\<close>

definition append_call ::
    "'db rocksdb \<Rightarrow> env \<Rightarrow> serde \<Rightarrow> 'db rocks_store \<Rightarrow> stored_block \<Rightarrow> 'db rocks_store \<Rightarrow> (block_metadata, storage_error) result \<Rightarrow> bool" where
"append_call R E S store b store' res \<longleftrightarrow>
   (\<exists>D policy. rocks_append_stored_block R E S D store b policy = (store', res))
 \<or> (\<exists>D policy ex. b = stored_of_execution (e_xof E) ex \<and> rocks_append_block R E S D store ex policy = (store', res))
 \<or> (\<exists>ex. b = stored_of_execution (e_xof E) ex \<and> rocks_append_block_trusted R E S store ex = (store', res))"

lemma append_call_cases:
  assumes "append_call R E S store b store' res"
  shows "(\<exists>D policy. rocks_append_stored_block R E S D store b policy = (store', res)) \<or> \<not> is_ok res \<and> store' = store"
  using assms append_executed [of R E S] unfolding append_call_def by blast

text \<open>
  C12: An append to the store of a node, by any of its three operations, is all or nothing.  Take a store that holds the chain \<open>bs\<close>, possibly pruned and
  possibly started from a snapshot, and \<open>db'\<close>, what the next opening finds: the database after an orderly close, or after the death of the process
  when the write-ahead log is on.  When the append reports success and the transactions of the block encode to the hashes that it lists
  and decode again (\<open>storable\<close>), the chain \<open>bs @ [b]\<close> is in memory and in the database, \<open>db'\<close> opens as that chain, and the index finds each
  transaction of \<open>b\<close> at the new height.  When it reports success and some transaction encodes to another hash (\<open>misencoded\<close>), the database
  does not open any more.  After any other outcome, a failing engine included, the chain in memory is what it was and \<open>db'\<close> opens as \<open>bs\<close>.
  The hash of the block must not be that of an earlier one, which the append itself checks only for the blocks in memory.
\<close>

theorem rocks_append_durable:
  assumes "rocksdb_laws R look" "wal_law R look crash" "block_law E S (bs @ [b])" "store_ok E S look g base anchor low bs store"
    and "hash_of b \<notin> hash_of ` set bs" "base + length bs + 2 < U64_MAX" "low \<le> base + length bs"
    and "append_call R E S store b store' res" "found look crash store (rs_db store') db'"
  shows "if is_ok res
    then (storable E b \<longrightarrow> store_ok E S look g base anchor low (bs @ [b]) store' \<and> reopens R look E S g base anchor low (bs @ [b]) db'
        \<and> (\<forall>tx \<in> set (bl_tx_hashes (sb_block b)). get_tx_block_height R store' tx = Ok (Some (height_of b))))
      \<and> (misencoded E b \<longrightarrow> (\<forall>a w. \<not> is_ok (snd (rocks_open_internal R E S db' a w))))
    else rs_chain store' = rs_chain store \<and> reopens R look E S g base anchor low bs db'"
proof -
  have w: "written R store (rs_db store')" using append_call_cases [OF assms(8)] append_written by auto
  then have look: "look db' = look (rs_db store')" using found_look [OF assms(2) _ assms(9)] by blast
  have law: "block_law E S bs" "block_law E S [b]" using assms(3) by (simp_all add: block_law_def)
  show ?thesis
  proof (cases "is_ok res")
    case True
    then obtain D policy where r: "rocks_append_stored_block R E S D store b policy = (store', res)"
      using append_call_cases [OF assms(8)] by blast
    have bad: "\<not> is_ok (snd (rocks_open_internal R E S db' a w))" if "misencoded E b" for a w
      using append_unreadable [OF assms(1,4) law(2) assms(6) that r True look] .
    have ok: "store_ok E S look g base anchor low (bs @ [b]) store'" if "storable E b"
      using append_keeps [OF assms(1,4) that assms(5,6) r] True by simp
    have "get_tx_block_height R store' tx = Ok (Some (height_of b))" if "storable E b" "tx \<in> set (bl_tx_hashes (sb_block b))" for tx
      using appended_indexed [OF assms(1) ok [OF that(1)] assms(7) that(2)] .
    then show ?thesis using True bad ok unchanged_reopens [OF assms(1,3) ok look] by simp
  next
    case False
    then have "look (rs_db store') = look (rs_db store) \<and> rs_chain store' = rs_chain store"
      using append_call_cases [OF assms(8)] append_cases [OF assms(1)] by (metis is_ok_iff)
    then show ?thesis using False look unchanged_reopens [OF assms(1) law(1) assms(4)] by simp
  qed
qed

lemma sibling_found:
  assumes laws: "rocksdb_laws R look" and v: "look (rs_db store) = swapped E S old b m" and st: "storable E old"
    and law: "block_law E S [old]" and len: "length (hash_of old) = 32" and no: "\<forall>k \<in> dom (m CF_SIBLINGS). take 32 k \<noteq> hash_of old"
  shows "read_sibling_by_hash R E S store (hash_of old) = Ok (Some old)"
proof -
  let ?x = "height_to_key (height_of b)"
  have "look (rs_db store) CF_SIBLINGS (hash_of old @ ?x) = Some (block_bytes E S old)" by (simp add: v swapped_def sibling_key_def Let_def)
  moreover have "\<forall>k \<in> dom (look (rs_db store) CF_SIBLINGS). take (length (hash_of old)) k = hash_of old \<longrightarrow> k = hash_of old @ ?x"
    using no len by (auto simp: v swapped_def sibling_key_def Let_def)
  ultimately obtain rest where "db_prefix R (rs_db store) CF_SIBLINGS (hash_of old) = Some (hash_of old @ ?x, block_bytes E S old) # rest"
    using prefix_lookup [OF laws] by blast
  moreover obtain r where "stored_block_into_record E old = Ok r"
      "record_into_stored_block E r (from_be_bytes (drop 32 (hash_of old @ ?x))) = Ok old"
    using stored_block_restored [OF st] by blast
  ultimately show ?thesis using law len by (simp add: read_sibling_by_hash_def block_bytes_def block_law_def)
qed

lemma swap_written: "replace_canonical_at_height R E S D store b policy = (store', res) \<Longrightarrow> written R store (rs_db store')"
  by (auto simp: replace_canonical_at_height_def or_same_def commit_memory_def persist_replace_canonical_def Let_def
      split: result.splits prod.splits intro: written_batch)

text \<open>
  C16: The swap of the tip for an equivalent block is all or nothing and forgets nothing, under conditions that the code does not all
  check: the new block is \<open>storable\<close>, has a new hash, lists the transactions of the tip and counts them right, the hash of the tip has 32 bytes,
  no block with that hash is archived yet, and there is no checkpoint at the height of the tip, whose tip hash would name the block
  that is no longer in the chain.  When the swap then reports success, the old last block comes back, the chain in memory and in the database ends in the
  new block, the next opening, after an orderly close or after the death of the process with the write-ahead log on, finds that chain, and the old
  block is found in the archive by its hash.  After any other outcome the chain in memory is what it was and the next opening finds it.
\<close>

theorem rocks_swap_durable:
  assumes "rocksdb_laws R look" "wal_law R look crash" "block_law E S (b # bs)" "store_ok E S look g base anchor low bs store"
    and "storable E b" "hash_of b \<notin> hash_of ` set bs" "bm_included_count (sb_metadata b) = length (bl_tx_hashes (sb_block b))"
    and "bs \<noteq> [] \<longrightarrow> bl_tx_hashes (sb_block b) = bl_tx_hashes (sb_block (last bs)) \<and> length (hash_of (last bs)) = 32"
    and "height_to_key (base + length bs) \<notin> dom (look (rs_db store) CF_CHECKPOINTS)"
    and "\<forall>k \<in> dom (look (rs_db store) CF_SIBLINGS). take 32 k \<noteq> hash_of (last bs)"
    and "replace_canonical_at_height R E S D store b policy = (store', res)" "found look crash store (rs_db store') db'"
  shows "case res of
      Ok old \<Rightarrow> bs \<noteq> [] \<and> old = last bs \<and> store_ok E S look g base anchor low (butlast bs @ [b]) store'
        \<and> reopens R look E S g base anchor low (butlast bs @ [b]) db'
        \<and> read_sibling_by_hash R E S store' (hash_of old) = Ok (Some old)
    | _ \<Rightarrow> rs_chain store' = rs_chain store \<and> reopens R look E S g base anchor low bs db'"
proof -
  have "bs \<noteq> [] \<longrightarrow> bl_tx_hashes (sb_block b) = bl_tx_hashes (sb_block (last bs))" using assms(8) by blast
  note swap = swap_keeps [OF assms(1,4,5,6,7) this assms(9,11)]
  note look = found_look [OF assms(2) swap_written [OF assms(11)] assms(12)]
  have law: "block_law E S bs" "block_law E S (butlast bs @ [b])" using assms(3) by (auto simp: block_law_def dest: in_set_butlastD)
  show ?thesis
  proof (cases res)
    case (Ok old)
    then have new: "bs \<noteq> []" "old = last bs" "store_ok E S look g base anchor low (butlast bs @ [b]) store'"
      "look (rs_db store') = swapped E S old b (look (rs_db store))" using swap by simp_all
    then have mem: "old \<in> set bs" by simp
    have st: "storable E old" using assms(4) mem by (auto simp: store_ok_def kept_def good_chain_def)
    have "block_law E S [old]" using law(1) mem by (simp add: block_law_def)
    then have "read_sibling_by_hash R E S store' (hash_of old) = Ok (Some old)"
      using sibling_found [OF assms(1) new(4) st] assms(8,10) new(1,2) by simp
    then show ?thesis using Ok new unchanged_reopens [OF assms(1) law(2) new(3) look] by simp
  next
    case (Err e)
    then show ?thesis using swap look unchanged_reopens [OF assms(1) law(1) assms(4)] by simp
  next
    case Panic
    then show ?thesis using swap look unchanged_reopens [OF assms(1) law(1) assms(4)] by simp
  qed
qed

lemma prune_written: "prune_blocks_below R store cutoff = (store', res) \<Longrightarrow> written R store (rs_db store')"
  by (auto simp: prune_blocks_below_def or_same_def split: result.splits prod.splits if_splits intro: written_batch)

lemma prune_chain: "prune_blocks_below R store cutoff = (store', res) \<Longrightarrow> rs_chain store' = rs_chain store"
  by (auto simp: prune_blocks_below_def or_same_def split: result.splits prod.splits if_splits)

lemma pruned_checkpoints:
  assumes k: "kept E S m g base anchor low bs"
  shows "pruned cutoff m CF_CHECKPOINTS k
    = (if \<exists>k' \<in> dom (m CF_CHECKPOINTS). from_be_bytes k < from_be_bytes k' then None else m CF_CHECKPOINTS k)"
proof (cases "k \<in> dom (m CF_CHECKPOINTS)")
  case True
  note room = kept_room [OF k]
  have ck: "checkpoints_ok S m base anchor low bs" using k by (simp add: kept_def)
  obtain h where h: "k = height_to_key h" "h \<le> U64_MAX" "from_be_bytes k = h" using checkpoint_key [OF ck True room] by blast
  have new: "h \<le> newest_height m" "height_to_key (newest_height m) \<in> dom (m CF_CHECKPOINTS)" "newest_height m \<le> U64_MAX"
    using newest_kept [OF ck room _ h(2)] True h(1) room by auto
  have below: "from_be_bytes k' \<le> newest_height m" if "k' \<in> dom (m CF_CHECKPOINTS)" for k'
    using checkpoint_key [OF ck that room] newest_kept [OF ck room] that by metis
  have "(\<exists>k' \<in> dom (m CF_CHECKPOINTS). from_be_bytes k < from_be_bytes k') \<longleftrightarrow> h \<noteq> newest_height m"
    using below new h(3) from_key [OF new(3)] by (metis le_antisym le_neq_implies_less not_less)
  moreover have "pruned cutoff m CF_CHECKPOINTS k = (if h \<noteq> newest_height m then None else m CF_CHECKPOINTS k)"
  proof -
    have "q = h" if "k = height_to_key q" "q \<le> U64_MAX" for q using that h from_key by metis
    then show ?thesis using h True by (auto simp: pruned_def)
  qed
  ultimately show ?thesis by simp
qed (auto simp: pruned_def)

text \<open>
  C15: Pruning below a height.  It is refused, with nothing changed, at height zero, above the tip, and when there is no checkpoint at or
  above the height.  Otherwise, unless the engine fails, the database is as it was but for what follows.  Of the blocks, those below the height are
  gone; of the two indices, the entries that point below the height; of the archive, the entries of forty bytes whose height is
  below it; of the checkpoints, all but the newest, also those at or above the height.  The next opening, after an orderly close
  or after the death of the process with the write-ahead log on, finds the same chain, complete from the height on.
\<close>

theorem rocks_prune_reopens:
  assumes "rocksdb_laws R look" "wal_law R look crash" "block_law E S bs" "store_ok E S look g base anchor low bs store"
    and "prune_blocks_below R store cutoff = (store', res)" "found look crash store (rs_db store') db'"
  shows "if 0 < cutoff \<and> cutoff \<le> base + length bs
      \<and> (\<exists>h \<le> U64_MAX. cutoff \<le> h \<and> height_to_key h \<in> dom (look (rs_db store) CF_CHECKPOINTS))
    then case res of
        Ok stats \<Rightarrow> reopens R look E S g base anchor (max low cutoff) bs db' \<and> rs_chain store' = rs_chain store
          \<and> look db' CF_META = look (rs_db store) CF_META
          \<and> (\<forall>h \<le> U64_MAX. look db' CF_BLOCKS (height_to_key h) = (if h < cutoff then None else look (rs_db store) CF_BLOCKS (height_to_key h)))
          \<and> (\<forall>f \<in> {CF_HASH_INDEX, CF_TX_INDEX}. \<forall>k.
              look db' f k = Option.bind (look (rs_db store) f k) (\<lambda>v. if from_be_bytes v < cutoff then None else Some v))
          \<and> (\<forall>k. look db' CF_SIBLINGS k
              = (if length k = 40 \<and> from_be_bytes (drop 32 k) < cutoff then None else look (rs_db store) CF_SIBLINGS k))
          \<and> (\<forall>k. look db' CF_CHECKPOINTS k
              = (if \<exists>k' \<in> dom (look (rs_db store) CF_CHECKPOINTS). from_be_bytes k < from_be_bytes k' then None
                 else look (rs_db store) CF_CHECKPOINTS k))
      | _ \<Rightarrow> res = Err SE_RocksDb \<and> rs_chain store' = rs_chain store \<and> reopens R look E S g base anchor low bs db'
    else store' = store \<and> (\<exists>msg. res = Err (SE_InvalidPruneCutoff msg))"
proof (cases "0 < cutoff \<and> cutoff \<le> base + length bs
    \<and> (\<exists>h \<le> U64_MAX. cutoff \<le> h \<and> height_to_key h \<in> dom (look (rs_db store) CF_CHECKPOINTS))")
  case False
  then show ?thesis using prune_keeps [OF assms(1,4,5)] by (simp split del: if_split) (auto split: if_splits)
next
  case True
  note p = prune_keeps [OF assms(1,4,5), unfolded if_P [OF True]] and db = found_look [OF assms(2) prune_written [OF assms(5)] assms(6)]
  have kept: "kept E S (look (rs_db store)) g base anchor low bs" using assms(4) by (simp add: store_ok_def)
  note room = kept_room [OF kept]
  show ?thesis
  proof (cases res)
    case (Ok stats)
    then have ok: "store_ok E S look g base anchor (max low cutoff) bs store'" and v: "look db' = pruned cutoff (look (rs_db store))"
      using p db by simp_all
    have "look db' CF_BLOCKS (height_to_key h) = (if h < cutoff then None else look (rs_db store) CF_BLOCKS (height_to_key h))" if "h \<le> U64_MAX" for h
    proof -
      have "height_to_key h < height_to_key cutoff \<longleftrightarrow> h < cutoff" using key_less_iff [of h cutoff] that True room by simp
      moreover have "height_to_key 0 \<le> height_to_key h" using key_less_iff [of h 0] that by (simp add: leI)
      ultimately show ?thesis by (simp add: v pruned_def)
    qed
    moreover have "look db' f k = Option.bind (look (rs_db store) f k) (\<lambda>v. if from_be_bytes v < cutoff then None else Some v)"
      if "f \<in> {CF_HASH_INDEX, CF_TX_INDEX}" for f k
      using that by (cases "look (rs_db store) f k") (auto simp: v pruned_def)
    moreover have "look db' CF_META = look (rs_db store) CF_META" by (simp add: v pruned_def fun_eq_iff)
    moreover have "look db' CF_SIBLINGS k = (if length k = 40 \<and> from_be_bytes (drop 32 k) < cutoff then None else look (rs_db store) CF_SIBLINGS k)" for k
      by (simp add: v pruned_def)
    moreover have "rs_chain store' = rs_chain store" using assms(5) by (rule prune_chain)
    ultimately show ?thesis
      unfolding if_P [OF True] Ok result.case using unchanged_reopens [OF assms(1,3) ok db] pruned_checkpoints [OF kept, of cutoff]
      by (intro conjI ballI) (simp_all only: v, simp_all)
  next
    case (Err e)
    then show ?thesis using True p db unchanged_reopens [OF assms(1,3,4)] by simp
  next
    case Panic
    then show ?thesis using p by simp
  qed
qed

text \<open>
  C24: A checkpoint leaves the store openable.  When writing it reports success, it is for the last block, the database opens
  again as the same chain, also for a store that was started from a snapshot, and compacting the chain in memory to it keeps that so.
  Otherwise nothing has changed.
\<close>

theorem rocks_checkpoint_reopens:
  assumes "rocksdb_laws R look" "block_law E S bs" "store_ok E S look g base anchor low bs store"
    and "\<forall>meta. res = Ok meta
      \<longrightarrow> sd_read_checkpoint S (sd_write_checkpoint S (checkpoint_record meta s)) = Some (checkpoint_record meta s)"
    and "rocks_write_trusted_checkpoint R X S store s = (store', res)"
  shows "case res of
      Ok meta \<Rightarrow> tm_height meta = base + length bs \<and> tm_tip_hash meta = prev_at anchor bs (length bs)
        \<and> reopens R look E S g base anchor low bs (rs_db store')
        \<and> store_ok E S look g base anchor low bs (compact_chain_to_checkpoint (tm_height meta) (tm_tip_hash meta) store')
    | _ \<Rightarrow> rs_chain store' = rs_chain store \<and> reopens R look E S g base anchor low bs (rs_db store')"
proof -
  have law: "sd_read_checkpoint S (sd_write_checkpoint S (checkpoint_record meta s)) = Some (checkpoint_record meta s)" if "res = Ok meta" for meta
    using assms(4) that by blast
  note c = checkpoint_keeps [OF assms(1,3) law assms(5)]
  show ?thesis
  proof (cases res)
    case (Ok meta)
    then show ?thesis using c store_reopens [OF assms(1,2), of g base anchor low store'] by auto
  qed (use c unchanged_reopens [OF assms(1,2,3)] in simp_all)
qed

section \<open>An engine with the laws\<close>

text \<open>The witnesses run on association lists, one for each column family.\<close>

type_synonym demo_db = "cf \<Rightarrow> (bytes, bytes) hmap"

definition demo_look :: "demo_db \<Rightarrow> view" where
"demo_look db = (\<lambda>f k. hget (db f) k)"

fun demo_step :: "batch_op \<Rightarrow> demo_db \<Rightarrow> demo_db" where
"demo_step (Put_cf f k v) db = db(f := hput k v (db f))" |
"demo_step (Delete_cf f k) db = db(f := hdel k (db f))" |
"demo_step (Delete_range_cf f lo hi) db = db(f := filter (\<lambda>(k, v). \<not> (lo \<le> k \<and> k < hi)) (db f))"

definition demo_items :: "demo_db \<Rightarrow> cf \<Rightarrow> (bytes \<times> bytes) list" where
"demo_items db f = map (\<lambda>k. (k, the (hget (db f) k))) (sorted_list_of_set (fst ` set (db f)))"

definition demo_engine :: "demo_db rocksdb" where
"demo_engine = \<lparr> db_get = \<lambda>db f k. Some (hget (db f) k),
   db_iter_start = \<lambda>db f. map Some (demo_items db f), db_iter_end = \<lambda>db f. rev (map Some (demo_items db f)),
   db_prefix = \<lambda>db f p. dropWhile (\<lambda>e. case e of Some (k, _) \<Rightarrow> k < p | None \<Rightarrow> False) (map Some (demo_items db f)),
   db_write = \<lambda>_ batch db. (fold demo_step batch db, True) \<rparr>"

lemma demo_step_look: "demo_look (demo_step p db) = batch_step p (demo_look db)"
proof (cases p)
  case (Delete_range_cf f lo hi)
  have "map_of (filter (\<lambda>(k, v). \<not> (lo \<le> k \<and> k < hi)) m) k = (if lo \<le> k \<and> k < hi then None else map_of m k)"
    for m :: "(bytes \<times> bytes) list" and k
    by (induction m) auto
  then show ?thesis using Delete_range_cf by (simp add: demo_look_def hget_def fun_eq_iff)
qed (simp_all add: demo_look_def hget_hput hget_hdel fun_eq_iff)

lemma demo_batch_look: "demo_look (fold demo_step batch db) = fold batch_step batch (demo_look db)"
  by (induction batch arbitrary: db) (simp_all add: demo_step_look)

lemma demo_laws: "rocksdb_laws demo_engine demo_look"
proof -
  have "map_of (demo_items db f) = demo_look db f" for db f
  proof
    fix k
    have "map_of (map (\<lambda>k. (k, the (hget (db f) k))) ks) k = (if k \<in> set ks then Some (the (hget (db f) k)) else None)" for ks
      by (induction ks) auto
    moreover have "k \<in> fst ` set (db f) \<longleftrightarrow> hget (db f) k \<noteq> None" by (simp add: hget_def map_of_eq_None_iff)
    ultimately show "map_of (demo_items db f) k = demo_look db f k" by (auto simp: demo_items_def demo_look_def)
  qed
  moreover have "sorted_wrt (<) (map fst (demo_items db f))" for db f
    by (simp add: demo_items_def o_def strict_sorted_list_of_set)
  ultimately show ?thesis
    by (auto simp: rocksdb_laws_def demo_engine_def demo_batch_look) (simp add: demo_look_def)
qed

lemma demo_write: "write_batch demo_engine w batch db = (fold demo_step batch db, Ok ())"
  by (simp add: write_batch_def demo_engine_def)

text \<open>A new database, and the store on it.\<close>

definition new_db :: demo_db where
"new_db = (\<lambda>_. [])(CF_META := [(META_GENESIS_ANCHOR, replicate 32 7)])"

definition new_store :: "demo_db rocks_store" where
"new_store = \<lparr> rs_db = new_db, rs_chain = chain_new_with_base (replicate 32 7) 0, rs_genesis_anchor = replicate 32 7, rs_disable_wal = False \<rparr>"

lemma new_store_ok: "store_ok E S demo_look (replicate 32 7) 0 (replicate 32 7) 0 [] new_store"
proof -
  have v: "demo_look new_db = (\<lambda>_ _. None)(CF_META := [META_GENESIS_ANCHOR \<mapsto> replicate 32 7])"
    by (auto simp: demo_look_def new_db_def hget_def fun_eq_iff)
  have "kept E S (demo_look new_db) (replicate 32 7) 0 (replicate 32 7) 0 []"
    unfolding v by (simp add: kept_def good_chain_def verify_Nil U64_MAX_def meta_ok_def blocks_ok_def indices_ok_def checkpoints_ok_def
        last_with_def del: replicate.simps)
  moreover have "loaded (e_xof E) 0 (replicate 32 7) 0 [] 0 (chain_new_with_base (replicate 32 7) 0)"
    using chain_new_represents [of 0 "e_xof E" "replicate 32 7"] by (simp add: loaded_def U64_MAX_def prev_at_def del: replicate.simps) (simp add: chain_new_with_base_def)
  ultimately show ?thesis by (simp add: store_ok_def new_store_def)
qed

lemma demo_append:
  assumes "stored_block_into_record E b = Ok r" "append_stored_block (e_xof E) b (rs_chain store) = Ok (c, mt)"
  shows "\<exists>db. rocks_append_stored_block demo_engine E S D store b None = (store\<lparr> rs_db := db, rs_chain := c \<rparr>, Ok mt)
    \<and> demo_look db = with_tip (height_of b) (with_block E S b (demo_look (rs_db store)))"
proof -
  obtain batch where batch: "append_block_to_batch E S b [] = Ok batch" "fold batch_step batch (demo_look (rs_db store)) = with_block E S b (demo_look (rs_db store))"
    using block_batch_of_record [OF assms(1), of S "[]"] by auto
  let ?db = "fold demo_step (batch @ [Put_cf CF_META META_TIP_HEIGHT (height_to_key (height_of b))]) (rs_db store)"
  have "rocks_append_stored_block demo_engine E S D store b None = (store\<lparr> rs_db := ?db, rs_chain := c \<rparr>, Ok mt)"
    using assms(2) batch(1)
    by (simp add: rocks_append_stored_block_def validate_commit_proof_def or_same_def commit_memory_def persist_to_db_def demo_write)
  moreover have "demo_look ?db = with_tip (height_of b) (with_block E S b (demo_look (rs_db store)))"
    unfolding demo_batch_look using batch(2) by (simp add: with_tip_def)
  ultimately show ?thesis by blast
qed

lemma demo_block_law: "stored_block_into_record E b = Ok r \<Longrightarrow> block_law E (demo_serde r ck) [b]"
  by (simp add: block_law_def demo_serde_def)

lemma demo_wal: "wal_law demo_engine demo_look id"
  by (simp add: wal_law_def durable_def)

lemma found_same: "found look crash store db db"
  by (simp add: found_def)

lemma new_store_found: "found demo_look id new_store db (id db)"
  by (simp add: found_def durable_def)

text \<open>A block that lists, for its one transaction, a hash that is not that of the encoding.\<close>

definition twisted_block :: stored_block where
"twisted_block =
   (let b = \<lparr> bl_header = (block_header_default demo_xof)\<lparr> bh_height := 1, bh_prev_hash := replicate 32 7 \<rparr>,
              bl_tx_hashes = [replicate 32 9], bl_commit_signatures = [] \<rparr>
    in first_block\<lparr> sb_block := b, sb_metadata := (sb_metadata first_block)\<lparr> bm_block_hash := compute_block_hash demo_xof b, bm_included_count := 1 \<rparr>,
         sb_included_transactions := [demo_tx] \<rparr>)"

lemma twisted_append: "\<exists>c mt. append_stored_block demo_xof twisted_block (chain_new_with_base (replicate 32 7) 0) = Ok (c, mt)"
proof -
  let ?c = "chain_new_with_base (replicate 32 7) 0"
  have "block_fits demo_xof 1 (replicate 32 7) twisted_block"
    by (simp add: block_fits_def first_block_def twisted_block_def Let_def block_header_default_def del: replicate.simps)
  then have "verify_stored_blocks_structure demo_xof (Suc (ch_base_height ?c)) (ch_anchor_prev_hash ?c) ([] @ [twisted_block]) = Ok ()"
    by (simp add: verify_Cons verify_Nil U64_MAX_def chain_new_with_base_def del: replicate.simps)
  then show ?thesis using represents_extend [OF chain_new_represents] by (fastforce simp: U64_MAX_def)
qed

lemma twisted_misencoded: "misencoded demo_env twisted_block" "\<exists>r. stored_block_into_record demo_env twisted_block = Ok r"
  by (simp_all add: misencoded_def twisted_block_def Let_def compute_tx_hash_def shake256_32_def encode_tx_def demo_env_def
      stored_block_into_record_def demo_tx_def encode_envelope_def)

lemma demo_append_call:
  assumes "stored_block_into_record demo_env b = Ok r" "append_stored_block demo_xof b (chain_new_with_base (replicate 32 7) 0) = Ok (c, mt)"
  shows "\<exists>store. rocks_append_stored_block demo_engine demo_env S D new_store b None = (store, Ok mt)"
proof -
  have "append_stored_block (e_xof demo_env) b (rs_chain new_store) = Ok (c, mt)" using assms(2) by (simp add: demo_env_def new_store_def)
  then show ?thesis using demo_append [OF assms(1)] by fast
qed

theorem rocks_append_durable_witness:
  "\<exists>S store mt S' store' mt'. rocks_append_stored_block demo_engine demo_env S null_backend new_store first_block None = (store, Ok mt)
     \<and> reopens demo_engine demo_look demo_env S (replicate 32 7) 0 (replicate 32 7) 0 [first_block] (rs_db store)
     \<and> rocks_append_stored_block demo_engine demo_env S' null_backend new_store twisted_block None = (store', Ok mt')
     \<and> (\<forall>a w. \<not> is_ok (snd (rocks_open_internal demo_engine demo_env S' (rs_db store') a w)))"
proof -
  obtain r where r: "stored_block_into_record demo_env first_block = Ok r" using stored_block_restored [OF first_storable] by blast
  obtain q where q: "stored_block_into_record demo_env twisted_block = Ok q" using twisted_misencoded(2) by blast
  obtain store mt where a: "rocks_append_stored_block demo_engine demo_env (demo_serde r None) null_backend new_store first_block None = (store, Ok mt)"
    using first_append demo_append_call [OF r] by metis
  obtain store' mt' where a': "rocks_append_stored_block demo_engine demo_env (demo_serde q None) null_backend new_store twisted_block None = (store', Ok mt')"
    using twisted_append demo_append_call [OF q] by metis
  have call: "append_call demo_engine demo_env (demo_serde r None) new_store first_block store (Ok mt)"
    "append_call demo_engine demo_env (demo_serde q None) new_store twisted_block store' (Ok mt')"
    unfolding append_call_def using a a' by blast+
  have room: "0 + length ([] :: stored_block list) + 2 < U64_MAX" by (simp add: U64_MAX_def)
  have "reopens demo_engine demo_look demo_env (demo_serde r None) (replicate 32 7) 0 (replicate 32 7) 0 ([] @ [first_block]) (id (rs_db store))"
    using rocks_append_durable [OF demo_laws demo_wal _ new_store_ok _ room _ call(1) new_store_found] demo_block_law [OF r] first_storable
    by (simp del: replicate.simps)
  moreover have "\<not> is_ok (snd (rocks_open_internal demo_engine demo_env (demo_serde q None) (id (rs_db store')) b w))" for b w
    using rocks_append_durable [OF demo_laws demo_wal _ new_store_ok _ room _ call(2) new_store_found] demo_block_law [OF q] twisted_misencoded(1)
    by (simp del: replicate.simps)
  ultimately show ?thesis using a a' unfolding id_apply append_Nil by blast
qed

theorem rocks_checkpoint_reopens_witness:
  "\<exists>S store meta. rocks_write_trusted_checkpoint demo_engine demo_xof S new_store snapshot_state = (store, Ok meta)
     \<and> reopens demo_engine demo_look demo_env S (replicate 32 7) 0 (replicate 32 7) 0 [] (rs_db store)"
proof -
  define meta where "meta = \<lparr> tm_height = 0, tm_tip_hash = replicate 32 7, tm_state_root = state_root demo_xof snapshot_state \<rparr>"
  define S where "S = demo_serde first_record (Some (checkpoint_record meta snapshot_state))"
  have "st_block_height snapshot_state = 0" by (simp add: snapshot_state_def insert_account_def store_new_def)
  then obtain store where w: "rocks_write_trusted_checkpoint demo_engine demo_xof S new_store snapshot_state = (store, Ok meta)"
    by (simp add: rocks_write_trusted_checkpoint_def Let_def new_store_def chain_new_with_base_def chain_height_def chain_tip_def or_anchor_def
        put_cf_def demo_write meta_def del: replicate.simps)
  have "reopens demo_engine demo_look demo_env S (replicate 32 7) 0 (replicate 32 7) 0 [] (rs_db store)"
    using rocks_checkpoint_reopens [OF demo_laws _ new_store_ok _ w, where E = demo_env]
    by (simp add: block_law_def S_def demo_serde_def del: replicate.simps)
  then show ?thesis using w by blast
qed

text \<open>A store that was started from a snapshot at height five, with an old block below.\<close>

definition snap_db :: demo_db where
"snap_db = (\<lambda>_. [])(
   CF_META := [(META_GENESIS_ANCHOR, replicate 32 7), (META_SNAPSHOT_BASE_HEIGHT, height_to_key 5),
     (META_SNAPSHOT_BASE_HASH, replicate 32 7), (META_TIP_HEIGHT, height_to_key 5)],
   CF_BLOCKS := [(height_to_key 1, [1])], CF_HASH_INDEX := [([9], height_to_key 1)], CF_CHECKPOINTS := [(height_to_key 5, [2])])"

definition snap_store :: "demo_db rocks_store" where
"snap_store = \<lparr> rs_db = snap_db, rs_chain = chain_new_with_base (replicate 32 7) 5, rs_genesis_anchor = replicate 32 7, rs_disable_wal = False \<rparr>"

definition snap_meta :: trusted_checkpoint_metadata where
"snap_meta = \<lparr> tm_height = 5, tm_tip_hash = replicate 32 7, tm_state_root = [] \<rparr>"

lemma snap_store_ok:
  "store_ok E (demo_serde r (Some (checkpoint_record snap_meta s))) demo_look (replicate 32 7) 5 (replicate 32 7) 0 [] snap_store"
proof -
  have v: "demo_look snap_db = (\<lambda>_ _. None)(
      CF_META := [META_GENESIS_ANCHOR \<mapsto> replicate 32 7, META_SNAPSHOT_BASE_HEIGHT \<mapsto> height_to_key 5,
        META_SNAPSHOT_BASE_HASH \<mapsto> replicate 32 7, META_TIP_HEIGHT \<mapsto> height_to_key 5],
      CF_BLOCKS := [height_to_key 1 \<mapsto> [1]], CF_HASH_INDEX := [[9] \<mapsto> height_to_key 1], CF_CHECKPOINTS := [height_to_key 5 \<mapsto> [2]])"
    by (auto simp: demo_look_def snap_db_def hget_def fun_eq_iff)
  have "kept E (demo_serde r (Some (checkpoint_record snap_meta s))) (demo_look snap_db) (replicate 32 7) 5 (replicate 32 7) 0 []"
    unfolding v by (simp add: kept_def good_chain_def verify_Nil U64_MAX_def meta_ok_def blocks_ok_def indices_ok_def checkpoints_ok_def
        last_with_def checkpoint_fits_def demo_serde_def checkpoint_record_def snap_meta_def prev_at_def del: replicate.simps)
  moreover have "loaded (e_xof E) 5 (replicate 32 7) 0 [] 0 (chain_new_with_base (replicate 32 7) 5)"
    using chain_new_represents [of 5 "e_xof E" "replicate 32 7"] by (simp add: loaded_def U64_MAX_def prev_at_def del: replicate.simps) (simp add: chain_new_with_base_def)
  ultimately show ?thesis by (simp add: store_ok_def snap_store_def)
qed

theorem rocks_prune_reopens_witness:
  "\<exists>S store stats. prune_blocks_below demo_engine snap_store 5 = (store, Ok stats)
     \<and> reopens demo_engine demo_look demo_env S (replicate 32 7) 5 (replicate 32 7) 5 [] (rs_db store)
     \<and> demo_look (rs_db store) CF_BLOCKS (height_to_key 1) = None"
proof -
  let ?S = "demo_serde first_record (Some (checkpoint_record snap_meta snapshot_state))"
  have ok: "store_ok demo_env ?S demo_look (replicate 32 7) 5 (replicate 32 7) 0 [] snap_store" by (rule snap_store_ok)
  have late: "\<exists>h \<le> U64_MAX. 5 \<le> h \<and> height_to_key h \<in> dom (demo_look (rs_db snap_store) CF_CHECKPOINTS)"
    by (intro exI [of _ 5]) (simp add: U64_MAX_def demo_look_def snap_store_def snap_db_def hget_def)
  obtain store res where p: "prune_blocks_below demo_engine snap_store 5 = (store, res)" by fastforce
  have "kept demo_env ?S (demo_look (rs_db snap_store)) (replicate 32 7) 5 (replicate 32 7) 0 []" using ok by (simp add: store_ok_def)
  then obtain batch stats where "prune_batch demo_engine (rs_db snap_store) 5 = Ok (batch, stats)"
    using prune_batch_Ok [OF demo_laws] kept_room unfolding kept_def by metis
  then have "res \<noteq> Err SE_RocksDb"
    using p by (auto simp: prune_blocks_below_def or_same_def demo_write split: if_splits)
  then obtain stats where "res = Ok stats" "reopens demo_engine demo_look demo_env ?S (replicate 32 7) 5 (replicate 32 7) 5 [] (rs_db store)"
      "demo_look (rs_db store) CF_BLOCKS (height_to_key 1) = None"
    using rocks_prune_reopens [OF demo_laws demo_wal _ ok p found_same] late by (auto simp: block_law_def simp del: replicate.simps split: result.splits)
  then show ?thesis using p by blast
qed

section \<open>A swap\<close>

text \<open>A hash function that tells the two blocks apart.\<close>

abbreviation rev_xof :: xof where
"rev_xof \<equiv> \<lambda>d n. take n (rev d)"

definition rev_env :: env where
"rev_env = demo_env\<lparr> e_xof := rev_xof \<rparr>"

definition tip_block :: "byte \<Rightarrow> stored_block" where
"tip_block x =
   (let b = \<lparr> bl_header = (block_header_default rev_xof)\<lparr> bh_height := 1, bh_prev_hash := replicate 32 7, bh_extension_root := replicate 32 x \<rparr>,
              bl_tx_hashes = [], bl_commit_signatures = [] \<rparr>
    in \<lparr> sb_block = b,
         sb_metadata = \<lparr> bm_block_hash = compute_block_hash rev_xof b, bm_height = 1, bm_prev_hash = replicate 32 7,
           bm_state_root = replicate 32 0, bm_tx_root = replicate 32 0, bm_timestamp = 0, bm_bytes_used = 0,
           bm_included_count = 0, bm_deferred_count = 0, bm_skipped_count = 0, bm_vc_budget_consumed = 0 \<rparr>,
         sb_included_transactions = [] \<rparr>)"

lemma tip_hash: "hash_of (tip_block x) = rev (be_bytes 8 8 @ be_bytes 8 0) @ replicate 16 x"
proof -
  have "take 32 (rev (d @ be_bytes 8 a @ replicate 32 x @ be_bytes 8 8 @ be_bytes 8 0)) = rev (be_bytes 8 8 @ be_bytes 8 0) @ replicate 16 x" for d a
    by (simp add: take_append rev_replicate del: replicate.simps be_bytes.simps)
  then show ?thesis
    by (simp add: tip_block_def compute_block_hash_def Let_def th_finish_def push_u64_def push_chunk_def U64_MAX_def
        del: replicate.simps be_bytes.simps)
qed

lemma tip_hashes: "hash_of (tip_block 1) \<noteq> hash_of (tip_block 2)" "length (hash_of (tip_block x)) = 32"
  by (simp_all add: tip_hash del: be_bytes.simps)

definition swap_serde :: "stored_block_record \<Rightarrow> stored_block_record \<Rightarrow> serde" where
"swap_serde r q = (demo_serde r None)\<lparr> sd_write_block := \<lambda>x. if x = r then [1] else [3],
   sd_read_block := \<lambda>bytes. Some (if bytes = [1] then r else q) \<rparr>"

lemma tip_fits: "block_fits rev_xof 1 (replicate 32 7) (tip_block x)"
  by (simp add: block_fits_def tip_block_def Let_def block_header_default_def del: replicate.simps)

lemma tip_storable: "storable rev_env (tip_block x)"
  by (simp add: storable_def tip_block_def Let_def)

lemma tip_append:
  "\<exists>c mt. append_stored_block rev_xof (tip_block x) (chain_new_with_base (replicate 32 7) 0) = Ok (c, mt) \<and> represents rev_xof c [tip_block x]"
proof -
  let ?c = "chain_new_with_base (replicate 32 7) 0"
  have "verify_stored_blocks_structure rev_xof (Suc (ch_base_height ?c)) (ch_anchor_prev_hash ?c) ([] @ [tip_block x]) = Ok ()"
    using tip_fits [of x] by (simp add: verify_Cons verify_Nil U64_MAX_def chain_new_with_base_def del: replicate.simps)
  from represents_extend [OF chain_new_represents this] show ?thesis by (auto simp: U64_MAX_def)
qed

lemma tip_replace:
  assumes "represents rev_xof c [tip_block 1]"
  shows "\<exists>c'. replace_tip_block rev_xof (tip_block 2) c = Ok (c', tip_block 1)"
proof -
  have "ch_tip_hash c = Some (hash_of (tip_block 1))" "hget (ch_by_hash c) (hash_of (tip_block 1)) = Some (tip_block 1)"
    using assms represents_lookup [OF assms] by (simp_all add: represents_def)
  moreover have "hash_of (tip_block 2) = compute_block_hash rev_xof (sb_block (tip_block 2))" by (simp add: tip_block_def Let_def)
  moreover have "bm_height (sb_metadata (tip_block x)) = 1" "bm_prev_hash (sb_metadata (tip_block x)) = replicate 32 7"
    "bm_state_root (sb_metadata (tip_block x)) = replicate 32 0" "bm_tx_root (sb_metadata (tip_block x)) = replicate 32 0"
    "bh_height (bl_header (sb_block (tip_block x))) = 1" "bh_prev_hash (bl_header (sb_block (tip_block x))) = replicate 32 7"
    "bh_state_root (bl_header (sb_block (tip_block x))) = replicate 32 0" "bh_tx_root (bl_header (sb_block (tip_block x))) = replicate 32 0"
    "bl_tx_hashes (sb_block (tip_block x)) = []" "sb_included_transactions (tip_block x) = []" for x
    by (simp_all add: tip_block_def Let_def block_header_default_def del: replicate.simps)
  ultimately show ?thesis
    using tip_hashes(1) by (simp add: replace_tip_block_def result_simps Let_def del: replicate.simps)
qed

theorem rocks_swap_durable_witness:
  "\<exists>S store mt store'. rocks_append_stored_block demo_engine rev_env S null_backend new_store (tip_block 1) None = (store, Ok mt)
     \<and> replace_canonical_at_height demo_engine rev_env S null_backend store (tip_block 2) None = (store', Ok (tip_block 1))
     \<and> reopens demo_engine demo_look rev_env S (replicate 32 7) 0 (replicate 32 7) 0 [tip_block 2] (rs_db store')
     \<and> read_sibling_by_hash demo_engine rev_env S store' (hash_of (tip_block 1)) = Ok (Some (tip_block 1))"
proof -
  have X: "e_xof rev_env = rev_xof" by (simp add: rev_env_def)
  obtain r q where rq: "stored_block_into_record rev_env (tip_block 1) = Ok r" "stored_block_into_record rev_env (tip_block 2) = Ok q"
    using stored_block_restored [OF tip_storable] by blast
  let ?S = "swap_serde r q"
  have law: "block_law rev_env ?S [tip_block 2, tip_block 1]" using rq by (simp add: block_law_def swap_serde_def)
  obtain c mt where c: "append_stored_block rev_xof (tip_block 1) (rs_chain new_store) = Ok (c, mt)" "represents rev_xof c [tip_block 1]"
    using tip_append [of 1] by (auto simp: new_store_def)
  obtain db where a: "rocks_append_stored_block demo_engine rev_env ?S null_backend new_store (tip_block 1) None
      = (new_store\<lparr> rs_db := db, rs_chain := c \<rparr>, Ok mt)"
    "demo_look db = with_tip (height_of (tip_block 1)) (with_block rev_env ?S (tip_block 1) (demo_look new_db))"
    using demo_append [OF rq(1), of new_store c mt ?S null_backend] c(1) X by (auto simp: new_store_def)
  let ?store = "new_store\<lparr> rs_db := db, rs_chain := c \<rparr>"
  have ok: "store_ok rev_env ?S demo_look (replicate 32 7) 0 (replicate 32 7) 0 [tip_block 1] ?store"
    using append_keeps [OF demo_laws new_store_ok tip_storable _ _ a(1)] by (simp add: U64_MAX_def del: replicate.simps)
  obtain c' where c': "replace_tip_block rev_xof (tip_block 2) c = Ok (c', tip_block 1)" using tip_replace [OF c(2)] by blast
  then obtain store' where w: "replace_canonical_at_height demo_engine rev_env ?S null_backend ?store (tip_block 2) None = (store', Ok (tip_block 1))"
    using rq X by (auto simp: replace_canonical_at_height_def validate_commit_proof_def or_same_def commit_memory_def
        persist_replace_canonical_def encode_block_bytes_def Let_def demo_write)
  have "demo_look db CF_CHECKPOINTS = Map.empty" "demo_look db CF_SIBLINGS = Map.empty"
    unfolding a(2) by (auto simp: with_tip_def with_block_def Let_def demo_look_def new_db_def hget_def)
  moreover have "bm_included_count (sb_metadata (tip_block 2)) = 0" "bl_tx_hashes (sb_block (tip_block x)) = []" for x
    by (simp_all add: tip_block_def Let_def)
  ultimately show ?thesis
    using rocks_swap_durable [OF demo_laws demo_wal law ok tip_storable _ _ _ _ _ w found_same] tip_hashes a(1) w
    by (auto simp del: replicate.simps)
qed

end
