(* ===== verification/Rocks_Recovery.thy ===== *)
theory Rocks_Recovery
  imports Rocks_Durable
begin

text \<open>
  Recovery from a store on RocksDB, the chain-id guard and the migration of checkpoints.

  Recovery takes the newest checkpoint whose state passes every check, but opening keeps in memory only the blocks above the newest
  checkpoint that can be decoded.  When the two differ, recovery either fails or returns a state below the tip.
\<close>

section \<open>Recovery from an older checkpoint\<close>

lemma scan_states_sound:
  "scan_checkpoint_states X S cid kvs = Ok (Some (meta, s)) \<Longrightarrow> st_block_height s = tm_height meta \<and> state_root X s = tm_state_root meta"
proof (induction kvs)
  case (Cons e kvs)
  show ?case
  proof (cases e)
    case (Some kv)
    obtain k v where e: "e = Some (k, v)" using Some by (cases kv) simp
    show ?thesis
    proof (cases "sd_read_checkpoint S v")
      case None
      then show ?thesis using Cons e by simp
    next
      case (Some r)
      then have "check_state_format_version (ck_version r) = Ok () \<and> ck_height r \<noteq> 0"
        using Cons.prems e by (cases "check_state_format_version (ck_version r)") (simp_all add: Let_def split: if_splits)
      then show ?thesis
        using Cons e Some by (cases "record_into_state X (ck_state r) cid") (auto simp: Let_def split: if_splits)
    qed
  qed (use Cons.prems in simp)
qed simp

lemma load_tail_grows:
  assumes "represents (e_xof E) c bs" "t + 2 < U64_MAX" "load_tail R E S db [Suc (chain_height c)..<Suc t] c = Ok c'"
  shows "\<exists>bs'. represents (e_xof E) c' bs' \<and> ch_base_height c' = ch_base_height c"
  using assms
proof (induction "t - chain_height c" arbitrary: c bs)
  case 0
  then have "[Suc (chain_height c)..<Suc t] = []" by simp
  then show ?case using 0 by (auto simp del: upt_Suc)
next
  case (Suc n)
  then have lt: "chain_height c < t" by simp
  have upt: "[Suc (chain_height c)..<Suc t] = Suc (chain_height c) # [Suc (Suc (chain_height c))..<Suc t]"
    using lt by (simp add: upt_conv_Cons del: upt_Suc)
  obtain b d mt where d: "append_stored_block (e_xof E) b c = Ok (d, mt)" "load_tail R E S db [Suc (Suc (chain_height c))..<Suc t] d = Ok c'"
    using Suc.prems(3) unfolding upt by (auto simp: result_simps simp del: upt_Suc)
  have rep: "represents (e_xof E) d (bs @ [b])" using represents_append [OF Suc.prems(1) d(1)] lt Suc.prems(2) by simp
  have base: "ch_base_height d = ch_base_height c" using d(1) by (auto simp: append_stored_block_def result_simps Let_def)
  have "chain_height d = Suc (chain_height c)" using represents_height [OF rep] represents_height [OF Suc.prems(1)] base by simp
  then show ?case using Suc.hyps(1) [OF _ rep Suc.prems(2)] Suc.hyps(2) d(2) base by simp
qed

lemma opened_base:
  assumes "open_chain R E S db g = Ok c" "read_meta_u64_by_name R db META_TIP_HEIGHT = Ok (Some t)" "0 < t" "t + 2 < U64_MAX"
    and "find_latest_checkpoint_pair R S db = Ok (Some (h, tip))" "h + 2 < U64_MAX"
  shows "\<exists>bs. represents (e_xof E) c bs \<and> ch_base_height c = h"
proof -
  let ?c = "chain_new_with_base tip h"
  have ht: "chain_height ?c = h" by (simp add: chain_new_with_base_def chain_height_def chain_tip_def)
  obtain sb where sb: "read_snapshot_base R db = Ok sb" using assms(1,2) by (cases "read_snapshot_base R db") (simp_all add: open_chain_def)
  have "load_tail R E S db [Suc (chain_height ?c)..<Suc t] ?c = Ok c"
  proof (cases sb)
    case None
    then show ?thesis
      using assms(1-3,5,6) sb unfolding ht
      by (cases "load_tail R E S db [Suc h..<Suc t] ?c") (simp_all add: open_chain_def checked_add_def del: upt_Suc split: if_splits)
  next
    case (Some e)
    then obtain bh bt where "sb = Some (bh, bt)" by (cases e) simp
    then show ?thesis
      using assms(1-3,5,6) sb unfolding ht
      by (cases "load_tail R E S db [Suc h..<Suc t] ?c") (simp_all add: open_chain_def checked_add_def del: upt_Suc split: if_splits)
  qed
  from load_tail_grows [OF chain_new_represents assms(4) this] show ?thesis
    using assms(6) by (auto simp: chain_new_with_base_def)
qed

lemma tail_heights:
  assumes "represents X c bs" "b \<in> set bs"
  shows "ch_base_height c < height_of b"
proof -
  obtain i where "i < length bs" "b = bs ! i" using assms(2) by (auto simp: in_set_conv_nth)
  moreover have "verify_stored_blocks_structure X (Suc (ch_base_height c)) (ch_anchor_prev_hash c) bs = Ok ()"
    using assms(1) by (simp add: represents_def)
  ultimately show ?thesis using verify_heights by fastforce
qed

lemma replay_gap:
  assumes rep: "represents (e_xof E) c bs" and low: "st_block_height s < ch_base_height c"
  shows "replay_blocks_from_state E s p bs fp fd vp =
    (if bs = [] then Ok \<lparr> rr_state = s, rr_tip_hash = p, rr_height = st_block_height s, rr_state_root = state_root (e_xof E) s \<rparr>
     else Err (HeightGap (Suc (st_block_height s)) (Suc (ch_base_height c))))"
proof -
  have "Suc (ch_base_height c) < U64_MAX" using verify_bound rep by (fastforce simp: represents_def)
  then have sat: "saturating_add U64_MAX (st_block_height s) 1 = Suc (st_block_height s)" "Suc (st_block_height s) < U64_MAX"
    using low by (simp_all add: saturating_add_def)
  show ?thesis
  proof (cases bs)
    case Nil
    moreover have "verify_stored_blocks_structure (e_xof E) (Suc (st_block_height s)) p [] = Ok ()" using sat(2) by (simp add: verify_Nil)
    ultimately show ?thesis using sat by (simp add: replay_blocks_from_state_def)
  next
    case (Cons b rest)
    then have "bh_height (bl_header (sb_block b)) = Suc (ch_base_height c)"
      using rep by (simp add: represents_def verify_Cons block_fits_def Let_def)
    then have "verify_stored_blocks_structure (e_xof E) (Suc (st_block_height s)) p bs = Err (HeightGap (Suc (st_block_height s)) (Suc (ch_base_height c)))"
      using sat low Cons by (subst verify_stored_blocks_structure.simps) (simp add: Let_def)
    then show ?thesis using Cons sat by (simp add: replay_blocks_from_state_def)
  qed
qed

text \<open>
  C27: Falling back to an older checkpoint does not recover the chain.  Open a database whose newest decodable checkpoint is at height
  \<open>h\<close>, and let recovery skip it, because its state does not have the recorded root, for an older one.  If the tip is
  at \<open>h\<close>, recovery reports success with the state of the older checkpoint, below the height of the chain.  Otherwise it
  fails, although every block is in the database: the blocks between the two checkpoints were not loaded.
\<close>

theorem rocks_fallback_misses_blocks:
  assumes "rocks_open_internal R E S db anchor wal = (db', Ok store)"
    and "read_meta_u64_by_name R db' META_TIP_HEIGHT = Ok (Some t)" "0 < t" "t + 2 < U64_MAX"
    and "find_latest_checkpoint_pair R S db' = Ok (Some (h, tip))" "h + 2 < U64_MAX"
    and "find_latest_checkpoint_with_state R (e_xof E) S db' (st_chain_id genesis_state) = Ok (Some (meta, s))" "tm_height meta < h"
  shows "if blocks_in_order (rs_chain store) = []
    then \<exists>r. rocks_recover_tip_with_checkpoint R E S store genesis_state fp fd vp = Ok r
      \<and> rr_state (cx_replay r) = s \<and> rr_height (cx_replay r) = tm_height meta \<and> rr_height (cx_replay r) < chain_height (rs_chain store)
    else rocks_recover_tip_with_checkpoint R E S store genesis_state fp fd vp = Err (SE_Replay (HeightGap (Suc (tm_height meta)) (Suc h)))"
proof -
  obtain g where store: "open_chain R E S db' g = Ok (rs_chain store)" "rs_db store = db'"
    using assms(1) by (auto simp: rocks_open_internal_def result_simps split: prod.splits)
  obtain bs where bs: "represents (e_xof E) (rs_chain store) bs" "ch_base_height (rs_chain store) = h"
    using opened_base [OF store(1) assms(2-6)] by blast
  have ord: "blocks_in_order (rs_chain store) = bs" using represents_order [OF bs(1)] by simp
  have "tm_height meta < height_of b" if "b \<in> set bs" for b using tail_heights [OF bs(1) that] bs(2) assms(8) by simp
  then have "filter (\<lambda>b. height_of b > tm_height meta) bs = bs" by (simp add: filter_id_conv)
  moreover have "st_block_height s = tm_height meta" using assms(7) scan_states_sound by (simp add: find_latest_checkpoint_with_state_def)
  moreover have "replay_blocks_from_state E s p bs fp fd vp =
    (if bs = [] then Ok \<lparr> rr_state = s, rr_tip_hash = p, rr_height = st_block_height s, rr_state_root = state_root (e_xof E) s \<rparr>
     else Err (HeightGap (Suc (st_block_height s)) (Suc h)))" for p
    using replay_gap [OF bs(1)] bs(2) assms(8) calculation(2) by simp
  moreover have "chain_height (rs_chain store) \<ge> h" using represents_height [OF bs(1)] bs(2) by simp
  ultimately show ?thesis
    using assms(7,8) store(2) ord by (cases "bs = []") (simp_all add: rocks_recover_tip_with_checkpoint_def Let_def)
qed

text \<open>The witness: two checkpoints, at heights five and six, the newer one with a root that is not that of its state.\<close>

definition level_state :: "nat \<Rightarrow> state_store" where
"level_state h = snapshot_state\<lparr> st_block_height := h \<rparr>"

lemma level_state_restores:
  "\<exists>t. record_into_state demo_xof (state_into_record (level_state h)) cid = Ok t \<and> st_block_height t = h
     \<and> state_root demo_xof t = state_root demo_xof (level_state h) \<and> st_validators t = []"
proof -
  have wf: "store_wf demo_xof (level_state h)" using snapshot_state_ok(1) by (simp add: level_state_def store_wf_def coherent_def)
  have rec: "recordable demo_xof (level_state h)" using snapshot_state_ok(2) by (simp add: level_state_def recordable_def unrecorded_initial_def)
  obtain t where t: "record_into_state demo_xof (state_into_record (level_state h)) cid = Ok t" "same_tables (level_state h) t"
    "unrecorded_initial demo_xof t" "coherent demo_xof t" using snapshot_restores [OF wf rec, of cid] by blast
  have "state_root demo_xof t = state_root demo_xof (level_state h)"
    using same_tables_root [OF _ t(4,2) _ t(3)] wf rec by (simp add: store_wf_def recordable_def)
  moreover have "st_validators t = []"
    using t(2) by (simp add: same_tables_def level_state_def snapshot_state_def insert_account_def store_new_def hget_def fun_eq_iff)
      (metis list.set_intros(1) map_of_eq_None_iff image_eqI all_not_in_conv list.set_cases neq_Nil_conv)
  ultimately show ?thesis using t by (auto simp: same_tables_def level_state_def)
qed

definition level_record :: "nat \<Rightarrow> hash32 \<Rightarrow> trusted_checkpoint_record" where
"level_record h root = checkpoint_record \<lparr> tm_height = h, tm_tip_hash = replicate 32 7, tm_state_root = root \<rparr> (level_state h)"

definition two_serde :: serde where
"two_serde = (demo_serde first_record None)\<lparr> sd_read_checkpoint := \<lambda>v.
   Some (if v = [5] then level_record 5 (state_root demo_xof (level_state 5)) else level_record 6 (0 # state_root demo_xof (level_state 6))) \<rparr>"

definition two_db :: demo_db where
"two_db = (\<lambda>_. [])(
   CF_META := [(META_GENESIS_ANCHOR, replicate 32 7), (META_TIP_HEIGHT, height_to_key 6)],
   CF_CHECKPOINTS := [(height_to_key 5, [5]), (height_to_key 6, [6])])"

lemma two_checkpoints: "db_iter_end demo_engine two_db CF_CHECKPOINTS = [Some (height_to_key 6, [6]), Some (height_to_key 5, [5])]"
proof -
  have lt: "height_to_key 5 < height_to_key 6" by (subst key_less_iff) (simp_all add: U64_MAX_def)
  then have "sorted_list_of_set {height_to_key 5, height_to_key 6} = [height_to_key 5, height_to_key 6]"
    by (simp add: sorted_list_of_set_insert_remove)
  then show ?thesis using lt by (auto simp: demo_engine_def demo_items_def two_db_def hget_def)
qed

theorem rocks_fallback_misses_blocks_witness:
  "\<exists>store r. rocks_open_internal demo_engine demo_env two_serde two_db (replicate 32 7) False = (two_db, Ok store)
     \<and> rocks_recover_tip_with_checkpoint demo_engine demo_env two_serde store snapshot_state sample_params fee_distribution_default [] = Ok r
     \<and> rr_height (cx_replay r) = 5 \<and> chain_height (rs_chain store) = 6"
proof -
  have X: "e_xof demo_env = demo_xof" by (simp add: demo_env_def)
  have get: "get_cf demo_engine db f k = Ok (hget (db f) k)" for db f k by (simp add: get_cf_def demo_engine_def)
  have tip: "read_meta_u64_by_name demo_engine two_db META_TIP_HEIGHT = Ok (Some 6)"
    by (simp add: read_meta_u64_by_name_def get two_db_def hget_def U64_MAX_def)
  have base: "read_snapshot_base demo_engine two_db = Ok None"
    by (simp add: read_snapshot_base_def read_meta_u64_by_name_def read_meta_hash_by_name_def get two_db_def hget_def)
  have pair: "find_latest_checkpoint_pair demo_engine two_serde two_db = Ok (Some (6, replicate 32 7))"
    by (simp add: find_latest_checkpoint_pair_def two_checkpoints two_serde_def level_record_def checkpoint_record_def del: replicate.simps)
  let ?c = "chain_new_with_base (replicate 32 7) 6"
  have ht: "chain_height ?c = 6" by (simp add: chain_new_with_base_def chain_height_def chain_tip_def)
  define store where "store = \<lparr> rs_db = two_db, rs_chain = ?c, rs_genesis_anchor = replicate 32 7, rs_disable_wal = False \<rparr>"
  have op: "rocks_open_internal demo_engine demo_env two_serde two_db (replicate 32 7) False = (two_db, Ok store)"
  proof -
    have "open_chain demo_engine demo_env two_serde two_db (replicate 32 7) = Ok ?c"
      using tip base pair ht by (simp add: open_chain_def checked_add_def U64_MAX_def del: replicate.simps)
    moreover have "ensure_genesis_anchor demo_engine two_db (replicate 32 7) = (two_db, Ok (replicate 32 7))"
      by (simp add: ensure_genesis_anchor_def read_meta_hash_by_name_def get two_db_def hget_def del: replicate.simps)
    ultimately show ?thesis by (simp add: rocks_open_internal_def store_def)
  qed
  obtain s6 where s6: "record_into_state demo_xof (state_into_record (level_state 6)) (st_chain_id snapshot_state) = Ok s6"
    "state_root demo_xof s6 = state_root demo_xof (level_state 6)" using level_state_restores [of 6] by blast
  obtain s5 where s5: "record_into_state demo_xof (state_into_record (level_state 5)) (st_chain_id snapshot_state) = Ok s5"
    "st_block_height s5 = 5" "state_root demo_xof s5 = state_root demo_xof (level_state 5)" using level_state_restores [of 5] by blast
  define meta where "meta = \<lparr> tm_height = 5, tm_tip_hash = replicate 32 7, tm_state_root = state_root demo_xof (level_state 5) \<rparr>"
  have found: "find_latest_checkpoint_with_state demo_engine (e_xof demo_env) two_serde two_db (st_chain_id snapshot_state) = Ok (Some (meta, s5))"
    using s5 s6 unfolding X
    by (simp add: find_latest_checkpoint_with_state_def two_checkpoints two_serde_def level_record_def checkpoint_record_def
        check_state_format_version_def Let_def meta_def del: replicate.simps)
  have "blocks_in_order (rs_chain store) = []" by (simp add: store_def blocks_in_order_def chain_new_with_base_def)
  then obtain r where "rocks_recover_tip_with_checkpoint demo_engine demo_env two_serde store snapshot_state sample_params fee_distribution_default [] = Ok r"
      "rr_height (cx_replay r) = 5"
    using rocks_fallback_misses_blocks [OF op tip _ _ pair _ found, of sample_params fee_distribution_default "[]"]
    by (auto simp: U64_MAX_def meta_def)
  then show ?thesis using op ht by (auto simp: store_def)
qed

section \<open>The chain-id guard\<close>

lemma kept_chain_id:
  "kept E S m g base anchor low bs \<Longrightarrow> kept E S (m(CF_META := (m CF_META)(META_CHAIN_ID \<mapsto> cid))) g base anchor low bs"
  by (simp add: kept_def meta_ok_def blocks_ok_def indices_ok_def checkpoints_ok_def)

lemma guarded_open:
  assumes laws: "rocksdb_laws R look" "block_law E S bs" and k: "kept E S (look db) g base anchor low bs" and id: "look db CF_META META_CHAIN_ID = Some stored"
  shows "\<exists>store. store_ok E S look g base anchor low bs store
    \<and> open_with_chain_id R E S db a cid wal = (db, if stored = cid then Ok store else Err (SE_ChainIdMismatch (hex_encode cid) (hex_encode stored)))"
proof -
  obtain store where st: "rocks_open_internal R E S db a wal = (db, Ok store)" "rs_db store = db" "store_ok E S look g base anchor low bs store"
    using open_kept [OF laws k] by blast
  then have "open_with_chain_id R E S db a cid wal = (db, if stored = cid then Ok store else Err (SE_ChainIdMismatch (hex_encode cid) (hex_encode stored)))"
    using id by (simp add: open_with_chain_id_def enforce_chain_id_def laws_get [OF laws(1)])
  then show ?thesis using st(3) by blast
qed

text \<open>
  The data directory belongs to one chain.  Once a directory was opened for a chain id, it opens again exactly for that id, as
  the same chain, and for every other id it is refused without any change.
\<close>

theorem rocks_chain_id_guard:
  assumes "rocksdb_laws R look" "block_law E S bs" "kept E S (look db) g base anchor low bs"
    and "open_with_chain_id R E S db a cid wal = (db', Ok store)"
  shows "store_ok E S look g base anchor low bs store \<and> rs_db store = db'
    \<and> (\<forall>b id w. \<exists>again. store_ok E S look g base anchor low bs again
         \<and> open_with_chain_id R E S db' b id w
           = (db', if id = cid then Ok again else Err (SE_ChainIdMismatch (hex_encode id) (hex_encode cid))))"
proof -
  obtain st where st: "rocks_open_internal R E S db a wal = (db, Ok st)" "rs_db st = db" "store_ok E S look g base anchor low bs st"
    using open_kept [OF assms(1-3)] by blast
  have "store_ok E S look g base anchor low bs store \<and> rs_db store = db' \<and> kept E S (look db') g base anchor low bs \<and> look db' CF_META META_CHAIN_ID = Some cid"
  proof (cases "look db CF_META META_CHAIN_ID")
    case (Some stored)
    then have "stored = cid" "store = st" "db' = db"
      using assms(4) st by (auto simp: open_with_chain_id_def enforce_chain_id_def laws_get [OF assms(1)] split: if_splits)
    then show ?thesis using Some st assms(3) by simp
  next
    case None
    have id: "enforce_chain_id R cid db = write_batch R False [Put_cf CF_META META_CHAIN_ID cid] db"
      using None by (simp add: enforce_chain_id_def laws_get [OF assms(1)] write_meta_raw_def put_cf_def)
    show ?thesis
    proof (cases rule: laws_write [OF assms(1), of False "[Put_cf CF_META META_CHAIN_ID cid]" db])
      case (1 db1)
      then have "db' = db1" "store = st\<lparr> rs_db := db1 \<rparr>" using assms(4) st id by (auto simp: open_with_chain_id_def)
      then show ?thesis using 1(2) kept_chain_id [OF assms(3)] st(3) by (simp add: store_ok_def)
    next
      case (2 db1)
      then show ?thesis using assms(4) st id by (simp add: open_with_chain_id_def)
    qed
  qed
  moreover from this have "\<exists>again. store_ok E S look g base anchor low bs again
      \<and> open_with_chain_id R E S db' b id w = (db', if id = cid then Ok again else Err (SE_ChainIdMismatch (hex_encode id) (hex_encode cid)))" for b id w
    using guarded_open [OF assms(1,2), of db' g base anchor low cid b id w] by (simp add: eq_commute [of cid id])
  ultimately show ?thesis by blast
qed

theorem rocks_chain_id_guard_witness:
  "\<exists>db store. open_with_chain_id demo_engine demo_env two_serde new_db (replicate 32 7) [1] False = (db, Ok store)
     \<and> open_with_chain_id demo_engine demo_env two_serde db (replicate 32 7) [2] False = (db, Err (SE_ChainIdMismatch (hex_encode [2]) (hex_encode [1])))"
proof -
  have k: "kept demo_env two_serde (demo_look new_db) (replicate 32 7) 0 (replicate 32 7) 0 []"
    using new_store_ok [of demo_env two_serde] by (simp add: store_ok_def new_store_def)
  have law: "block_law demo_env two_serde []" by (simp add: block_law_def)
  obtain st where st: "rocks_open_internal demo_engine demo_env two_serde new_db (replicate 32 7) False = (new_db, Ok st)" "rs_db st = new_db"
    using open_kept [of demo_engine demo_look demo_env two_serde "[]" new_db, OF demo_laws law k] by blast
  have "get_cf demo_engine new_db CF_META META_CHAIN_ID = Ok None" by (simp add: get_cf_def demo_engine_def new_db_def hget_def)
  then obtain db store where o: "open_with_chain_id demo_engine demo_env two_serde new_db (replicate 32 7) [1] False = (db, Ok store)"
    using st by (simp add: open_with_chain_id_def enforce_chain_id_def write_meta_raw_def put_cf_def demo_write)
  have "\<forall>b id w. \<exists>again. store_ok demo_env two_serde demo_look (replicate 32 7) 0 (replicate 32 7) 0 [] again
      \<and> open_with_chain_id demo_engine demo_env two_serde db b id w
        = (db, if id = [1] then Ok again else Err (SE_ChainIdMismatch (hex_encode id) (hex_encode [1])))"
    using rocks_chain_id_guard [of demo_engine demo_look demo_env two_serde "[]" new_db, OF demo_laws law k o] by blast
  then obtain again where "open_with_chain_id demo_engine demo_env two_serde db (replicate 32 7) [2] False
      = (db, if [2] = [1 :: byte] then Ok again else Err (SE_ChainIdMismatch (hex_encode [2]) (hex_encode [1])))" by blast
  then have "open_with_chain_id demo_engine demo_env two_serde db (replicate 32 7) [2] False = (db, Err (SE_ChainIdMismatch (hex_encode [2]) (hex_encode [1])))"
    by (simp del: replicate.simps)
  then show ?thesis using o by blast
qed

section \<open>Migration of a checkpoint\<close>

lemma newest_decodable_first:
  "sd_read_checkpoint S v = Some r \<Longrightarrow> ck_height r \<noteq> 0 \<Longrightarrow> newest_decodable S (Some (k, v) # rest) = Ok (Some (k, r))"
  by simp

text \<open>
  C39: The migration at start-up.  It always returns.  A newest checkpoint of this version is left alone and one of a later version is
  refused.  One of version one or two is rewritten as version three under its key, with its height and tip hash, when its state can
  be restored: the root written is that of the restored state, and the root that the old record carried is never looked at.
  Version zero is refused, for there is no handler.
\<close>

theorem upgrade_chain_migrates:
  assumes "rocksdb_laws R look" "db_iter_end R (rs_db store) CF_CHECKPOINTS = Some (k, v) # rest"
    and "sd_read_checkpoint S v = Some r" "ck_height r \<noteq> 0" "record_into_state X (ck_state r) [] = Ok s"
  shows "\<exists>store' res. apply_upgrade_chain R X S global_registry store = Some (store', res) \<and> rs_chain store' = rs_chain store
    \<and> (if ck_version r = 3 then res = Ok () \<and> store' = store
       else if 3 < ck_version r then res = Err (SE_BinaryTooOld (ck_version r) 3) \<and> store' = store
       else if ck_version r = 0 then res = Err SE_MigrationFailed \<and> store' = store
       else if is_ok res
       then look (rs_db store') = (look (rs_db store))(CF_CHECKPOINTS := (look (rs_db store) CF_CHECKPOINTS)(k \<mapsto>
              sd_write_checkpoint S (checkpoint_record \<lparr> tm_height = ck_height r, tm_tip_hash = ck_tip_hash r, tm_state_root = state_root X s \<rparr> s)))
       else res = Err SE_RocksDb \<and> look (rs_db store') = look (rs_db store))"
proof -
  have new: "newest_decodable S (db_iter_end R (rs_db store) CF_CHECKPOINTS) = Ok (Some (k, r))"
    unfolding assms(2) by (rule newest_decodable_first [OF assms(3,4)])
  have v3: "STATE_FORMAT_VERSION = 3" by (simp add: STATE_FORMAT_VERSION_def)
  let ?v = "sd_write_checkpoint S (checkpoint_record \<lparr> tm_height = ck_height r, tm_tip_hash = ck_tip_hash r, tm_state_root = state_root X s \<rparr> s)"
  have run: "apply_upgrade_chain R X S global_registry store =
      (if ck_version r = 3 then Some (store, Ok ())
       else if 3 < ck_version r then Some (store, Err (SE_BinaryTooOld (ck_version r) 3))
       else if ck_version r = 0 then Some (store, Err SE_MigrationFailed)
       else Some (case write_batch R False [Put_cf CF_CHECKPOINTS k ?v] (rs_db store) of (db, q) \<Rightarrow> (store\<lparr> rs_db := db \<rparr>, q)))"
    using new assms(5)
    by (simp add: apply_upgrade_chain_def v3 run_global_migrations or_same_def put_cf_def checkpoint_record_def)
  show ?thesis
  proof (cases rule: laws_write [OF assms(1), of False "[Put_cf CF_CHECKPOINTS k ?v]" "rs_db store"])
    case (1 db')
    then show ?thesis unfolding run by simp
  next
    case (2 db')
    then show ?thesis unfolding run by simp
  qed
qed

text \<open>The witness: a checkpoint of version two whose recorded root is empty.\<close>

theorem upgrade_chain_migrates_witness:
  "\<exists>S s store'. sd_read_checkpoint S [2] = Some ((level_record 5 [])\<lparr> ck_version := 2 \<rparr>)
     \<and> apply_upgrade_chain demo_engine demo_xof S global_registry snap_store = Some (store', Ok ())
     \<and> demo_look (rs_db store') CF_CHECKPOINTS (height_to_key 5) = Some (sd_write_checkpoint S
         (checkpoint_record \<lparr> tm_height = 5, tm_tip_hash = replicate 32 7, tm_state_root = state_root demo_xof s \<rparr> s))"
proof -
  let ?r = "(level_record 5 [])\<lparr> ck_version := 2 \<rparr>"
  define S where "S = demo_serde first_record (Some ?r)"
  have rd: "sd_read_checkpoint S [2] = Some ?r" by (simp add: S_def demo_serde_def)
  have r: "ck_height ?r = 5" "ck_version ?r = 2" "ck_tip_hash ?r = replicate 32 7" "ck_state ?r = state_into_record (level_state 5)"
    by (simp_all add: level_record_def checkpoint_record_def del: replicate.simps)
  obtain s where s: "record_into_state demo_xof (ck_state ?r) [] = Ok s" using level_state_restores unfolding r by blast
  have it: "db_iter_end demo_engine (rs_db snap_store) CF_CHECKPOINTS = Some (height_to_key 5, [2]) # []"
    by (simp add: demo_engine_def demo_items_def snap_store_def snap_db_def hget_def)
  have "ck_height ?r \<noteq> 0" unfolding r by simp
  from upgrade_chain_migrates [OF demo_laws it rd this s]
  obtain store' res where m: "apply_upgrade_chain demo_engine demo_xof S global_registry snap_store = Some (store', res)"
    and look: "if is_ok res then demo_look (rs_db store') = (demo_look (rs_db snap_store))(CF_CHECKPOINTS := (demo_look (rs_db snap_store) CF_CHECKPOINTS)(height_to_key 5 \<mapsto>
          sd_write_checkpoint S (checkpoint_record \<lparr> tm_height = 5, tm_tip_hash = replicate 32 7, tm_state_root = state_root demo_xof s \<rparr> s)))
      else res = Err SE_RocksDb"
    unfolding r by (auto split: if_splits)
  have "res = Ok ()"
    using m it rd s r by (auto simp: apply_upgrade_chain_def STATE_FORMAT_VERSION_def run_global_migrations or_same_def put_cf_def demo_write)
  then show ?thesis using m look rd by (intro exI [of _ S] exI [of _ s] exI [of _ store']) simp
qed

section \<open>Starting from a snapshot\<close>

lemma check_tail_represents:
  assumes "rocks_check_tail E S D policy bytes c = Ok (c', tail)" "represents (e_xof E) c as" "chain_height c + length bytes + 2 < U64_MAX"
  shows "represents (e_xof E) c' (as @ tail) \<and> ch_base_height c' = ch_base_height c \<and> ch_anchor_prev_hash c' = ch_anchor_prev_hash c
    \<and> map_r (rocks_decode_block_bytes E S) bytes = Ok tail"
  using assms
proof (induction bytes arbitrary: c as c' tail)
  case (Cons x bytes)
  obtain b d mt tl where d: "rocks_decode_block_bytes E S x = Ok b" "append_stored_block (e_xof E) b c = Ok (d, mt)"
    "rocks_check_tail E S D policy bytes d = Ok (c', tl)" "tail = b # tl"
    using Cons.prems(1) by (auto simp: result_simps split: prod.splits)
  have rep: "represents (e_xof E) d (as @ [b])" using represents_append [OF Cons.prems(2) d(2)] Cons.prems(3) by simp
  have base: "ch_base_height d = ch_base_height c" "ch_anchor_prev_hash d = ch_anchor_prev_hash c"
    using d(2) by (auto simp: append_stored_block_def result_simps Let_def)
  have "chain_height d = Suc (chain_height c)" using represents_height [OF rep] represents_height [OF Cons.prems(2)] base by simp
  then have "chain_height d + length bytes + 2 < U64_MAX" using Cons.prems(3) by simp
  from Cons.IH [OF d(3) rep this] show ?case using d(1,4) base by auto
qed simp

lemma tail_batch:
  assumes "\<forall>b \<in> set bs. storable E b"
  shows "\<exists>batch. append_blocks_to_batch E S bs pre = Ok (pre @ batch) \<and> fold batch_step batch m = fold (with_block E S) bs m"
  using assms
proof (induction bs arbitrary: pre m)
  case (Cons b bs)
  obtain x where x: "append_block_to_batch E S b pre = Ok (pre @ x)" "fold batch_step x m = with_block E S b m"
    using block_batch Cons.prems by fastforce
  obtain y where y: "append_blocks_to_batch E S bs (pre @ x) = Ok ((pre @ x) @ y)"
      "fold batch_step y (with_block E S b m) = fold (with_block E S) bs (with_block E S b m)"
    using Cons.IH [of "pre @ x" "with_block E S b m"] Cons.prems by auto
  show ?case using x y by (intro exI [of _ "x @ y"]) simp
qed simp

lemma with_tip_twice: "with_tip a (with_block E S b (with_tip c m)) = with_tip a (with_block E S b m)"
  by (simp add: with_tip_def with_block_def Let_def fun_eq_iff)

lemma kept_tail:
  assumes "kept E S (with_tip base m) g base anchor low []" "good_chain E null_backend None base anchor bs"
  shows "kept E S (with_tip (base + length bs) (fold (with_block E S) bs m)) g base anchor low bs"
  using assms(2)
proof (induction bs rule: rev_induct)
  case Nil
  then show ?case using assms(1) by simp
next
  case (snoc b bs)
  have "good_chain E null_backend None base anchor bs" using snoc.prems by (simp add: good_chain_def verify_append)
  from kept_snoc [OF snoc.IH [OF this] snoc.prems] show ?case
    using good_snoc_height [OF snoc.prems] by (simp add: with_tip_twice)
qed

lemma checked_snapshot_Ok:
  assumes "checked_snapshot X S bytes cid = Ok meta" "sd_read_checkpoint S bytes = Some r"
  shows "meta = \<lparr> tm_height = ck_height r, tm_tip_hash = ck_tip_hash r, tm_state_root = ck_state_root r \<rparr> \<and> ck_version r = STATE_FORMAT_VERSION
    \<and> (\<exists>s. record_into_state X (ck_state r) cid = Ok s \<and> st_block_height s = ck_height r \<and> state_root X s = ck_state_root r)"
  using assms by (cases "record_into_state X (ck_state r) cid")
    (auto simp: checked_snapshot_def check_state_format_version_def split: if_splits)

definition snapshot_view :: "nat \<Rightarrow> hash32 \<Rightarrow> bytes \<Rightarrow> view \<Rightarrow> view" where
"snapshot_view h tip bytes m =
   m(CF_CHECKPOINTS := (m CF_CHECKPOINTS)(height_to_key h \<mapsto> bytes),
     CF_META := (m CF_META)(META_SNAPSHOT_BASE_HEIGHT \<mapsto> height_to_key h, META_SNAPSHOT_BASE_HASH \<mapsto> tip))"

lemma kept_snapshot:
  assumes k: "kept E S m g 0 g low []" and empty: "m CF_CHECKPOINTS = Map.empty" and rd: "sd_read_checkpoint S bytes = Some r"
    and r: "0 < ck_height r" "length (ck_tip_hash r) = 32" "ck_version r = STATE_FORMAT_VERSION" "ck_height r + 2 < U64_MAX"
  shows "kept E S (with_tip (ck_height r) (snapshot_view (ck_height r) (ck_tip_hash r) bytes m)) g (ck_height r) (ck_tip_hash r) 0 []"
proof -
  have "checkpoint_fits S (ck_height r) (ck_tip_hash r) [] (height_to_key (ck_height r)) bytes"
    using rd r by (simp add: checkpoint_fits_def prev_at_def)
  then show ?thesis
    using k empty r by (auto simp: kept_def good_chain_def verify_Nil meta_ok_def blocks_ok_def indices_ok_def checkpoints_ok_def last_with_def
        with_tip_def snapshot_view_def split: if_splits)
qed

lemma bootstrap_batch:
  assumes st: "\<forall>b \<in> set tail. storable E b"
  obtains batch where "append_blocks_to_batch E S tail [Put_cf CF_CHECKPOINTS (height_to_key h) bytes,
      Put_cf CF_META META_SNAPSHOT_BASE_HEIGHT (height_to_key h), Put_cf CF_META META_SNAPSHOT_BASE_HASH tip] = Ok batch"
    "fold batch_step (batch @ [Put_cf CF_META META_TIP_HEIGHT (height_to_key final)]) m
      = with_tip final (fold (with_block E S) tail (snapshot_view h tip bytes m))"
proof -
  let ?pre = "[Put_cf CF_CHECKPOINTS (height_to_key h) bytes, Put_cf CF_META META_SNAPSHOT_BASE_HEIGHT (height_to_key h),
      Put_cf CF_META META_SNAPSHOT_BASE_HASH tip]"
  have pre: "fold batch_step ?pre m = snapshot_view h tip bytes m" by (simp add: snapshot_view_def fun_eq_iff)
  obtain x where x: "append_blocks_to_batch E S tail ?pre = Ok (?pre @ x)"
    "fold batch_step x (snapshot_view h tip bytes m) = fold (with_block E S) tail (snapshot_view h tip bytes m)"
    using tail_batch [OF st, of S ?pre] by blast
  have "fold batch_step ((?pre @ x) @ [Put_cf CF_META META_TIP_HEIGHT (height_to_key final)]) m
      = with_tip final (fold (with_block E S) tail (snapshot_view h tip bytes m))"
    unfolding fold_append comp_apply pre x(2) by (simp add: with_tip_def)
  then show ?thesis using that [OF x(1)] by blast
qed

lemma snapshot_tail:
  assumes "rocks_check_tail E S D policy tail_bytes (chain_new_with_base tip h) = Ok (c, tail)" "h + length tail_bytes + 2 < U64_MAX"
    and "\<forall>x \<in> set tail_bytes. \<forall>b. rocks_decode_block_bytes E S x = Ok b \<longrightarrow> storable E b \<and> block_law E S [b]"
  shows "map_r (rocks_decode_block_bytes E S) tail_bytes = Ok tail \<and> (\<forall>b \<in> set tail. storable E b) \<and> block_law E S tail
    \<and> good_chain E null_backend None h tip tail \<and> loaded (e_xof E) h tip 0 tail (length tail) c \<and> chain_height c = h + length tail"
proof -
  have c0: "represents (e_xof E) (chain_new_with_base tip h) []" "chain_height (chain_new_with_base tip h) = h"
    using chain_new_represents [of h] assms(2) by (simp_all add: chain_new_with_base_def chain_height_def chain_tip_def)
  have tail: "represents (e_xof E) c tail" "ch_base_height c = h" "ch_anchor_prev_hash c = tip" "map_r (rocks_decode_block_bytes E S) tail_bytes = Ok tail"
    using check_tail_represents [OF assms(1) c0(1)] c0(2) assms(2) by (simp_all add: chain_new_with_base_def)
  have "\<forall>b \<in> set tail. \<exists>x \<in> set tail_bytes. rocks_decode_block_bytes E S x = Ok b"
    using map_r_Ok_nth [OF tail(4)] by (metis in_set_conv_nth nth_mem)
  then have st: "\<forall>b \<in> set tail. storable E b" and law: "block_law E S tail" using assms(3) by (fastforce simp: block_law_def)+
  have "good_chain E null_backend None h tip tail"
    using tail(1-3) st by (simp add: represents_def holds_def good_chain_def validate_commit_proof_def)
  then show ?thesis using tail st law represents_height [OF tail(1)] by (simp add: loaded_def prev_at_def)
qed

lemma bootstrap_written: "rocks_bootstrap_from_external_snapshot R E S D store bytes tail_bytes cid = (store', res) \<Longrightarrow> written R store (rs_db store')"
  by (auto simp: rocks_bootstrap_from_external_snapshot_def or_same_def commit_memory_def Let_def
      split: result.splits prod.splits if_splits intro: written_batch)

lemma tail_checkpoints: "fold (with_block E S) bs m CF_CHECKPOINTS = m CF_CHECKPOINTS"
  by (induction bs arbitrary: m) (simp_all add: with_block_def Let_def)

text \<open>
  C25: Starting an empty store from the snapshot of another node is all or nothing.  The snapshot decodes, is not of height zero, and the blocks that come
  with it are \<open>storable\<close>.  On success the snapshot had the height and the root that it claims, its bytes are the one checkpoint of the database, the
  blocks in memory and in the database are those that came with it, in order, each continuing the one before, and the next opening, after an orderly
  close or after the death of the process with the write-ahead log on, finds that chain on top of the snapshot.  Otherwise nothing has changed.
\<close>

theorem rocks_bootstrap_reopens:
  assumes "rocksdb_laws R look" "store_ok E S look g 0 g low [] store" "look (rs_db store) CF_CHECKPOINTS = Map.empty"
    and "\<forall>x \<in> set tail_bytes. \<forall>b. rocks_decode_block_bytes E S x = Ok b \<longrightarrow> storable E b \<and> block_law E S [b]"
    and "sd_read_checkpoint S bytes = Some r" "0 < ck_height r" "length (ck_tip_hash r) = 32" "ck_height r + length tail_bytes + 2 < U64_MAX"
    and "rocks_bootstrap_from_external_snapshot R E S D store bytes tail_bytes cid = (store', res)"
    and "wal_law R look crash" "found look crash store (rs_db store') db'"
  shows "case res of
      Ok meta \<Rightarrow> meta = \<lparr> tm_height = ck_height r, tm_tip_hash = ck_tip_hash r, tm_state_root = ck_state_root r \<rparr>
        \<and> (\<exists>s. record_into_state (e_xof E) (ck_state r) cid = Ok s \<and> st_block_height s = ck_height r \<and> state_root (e_xof E) s = ck_state_root r)
        \<and> look db' CF_CHECKPOINTS = [height_to_key (ck_height r) \<mapsto> bytes]
        \<and> (\<exists>tail. map_r (rocks_decode_block_bytes E S) tail_bytes = Ok tail
             \<and> store_ok E S look g (ck_height r) (ck_tip_hash r) 0 tail store'
             \<and> reopens R look E S g (ck_height r) (ck_tip_hash r) 0 tail db')
    | _ \<Rightarrow> rs_chain store' = rs_chain store \<and> look db' = look (rs_db store)"
proof -
  note look = found_look [OF assms(10) bootstrap_written [OF assms(9)] assms(11)]
  show ?thesis
  proof (cases "chain_height (rs_chain store) = 0 \<and> (\<exists>meta policy c tail. checked_snapshot (e_xof E) S bytes cid = Ok meta
      \<and> snapshot_policy (e_xof E) S bytes cid = Ok policy \<and> rocks_check_tail E S D policy tail_bytes (chain_new_with_base (tm_tip_hash meta) (tm_height meta)) = Ok (c, tail))")
    case False
    then show ?thesis
      using assms(9) look by (auto simp: rocks_bootstrap_from_external_snapshot_def or_same_def split: if_splits result.splits)
  next
    case True
    then obtain meta policy c tail where ok: "chain_height (rs_chain store) = 0" "checked_snapshot (e_xof E) S bytes cid = Ok meta"
      "snapshot_policy (e_xof E) S bytes cid = Ok policy"
      "rocks_check_tail E S D policy tail_bytes (chain_new_with_base (tm_tip_hash meta) (tm_height meta)) = Ok (c, tail)" by blast
    note m = checked_snapshot_Ok [OF ok(2) assms(5)]
    have "rocks_check_tail E S D policy tail_bytes (chain_new_with_base (ck_tip_hash r) (ck_height r)) = Ok (c, tail)"
      using ok(4) m by simp
    from snapshot_tail [OF this assms(8) assms(4)]
    have t: "map_r (rocks_decode_block_bytes E S) tail_bytes = Ok tail" "\<forall>b \<in> set tail. storable E b" "block_law E S tail"
      "good_chain E null_backend None (ck_height r) (ck_tip_hash r) tail"
      "loaded (e_xof E) (ck_height r) (ck_tip_hash r) 0 tail (length tail) c" "chain_height c = ck_height r + length tail"
      by blast+
    let ?final = "if tail = [] then tm_height meta else chain_height c"
    have final: "?final = ck_height r + length tail" using t(6) m by simp
    obtain batch where batch: "append_blocks_to_batch E S tail [Put_cf CF_CHECKPOINTS (height_to_key (tm_height meta)) bytes,
        Put_cf CF_META META_SNAPSHOT_BASE_HEIGHT (height_to_key (tm_height meta)), Put_cf CF_META META_SNAPSHOT_BASE_HASH (tm_tip_hash meta)] = Ok batch"
      "fold batch_step (batch @ [Put_cf CF_META META_TIP_HEIGHT (height_to_key ?final)]) (look (rs_db store))
        = with_tip ?final (fold (with_block E S) tail (snapshot_view (tm_height meta) (tm_tip_hash meta) bytes (look (rs_db store))))"
      by (rule bootstrap_batch [OF t(2)])
    have run: "commit_memory store c meta (write_batch R (rs_disable_wal store) (batch @ [Put_cf CF_META META_TIP_HEIGHT (height_to_key ?final)]) (rs_db store))
        = (store', res)"
      using assms(9) ok batch(1) unfolding rocks_bootstrap_from_external_snapshot_def or_same_def by (simp add: Let_def)
    have k0: "kept E S (look (rs_db store)) g 0 g low []" "rs_genesis_anchor store = g" using assms(2) by (simp_all add: store_ok_def)
    have "kept E S (with_tip (ck_height r) (snapshot_view (ck_height r) (ck_tip_hash r) bytes (look (rs_db store)))) g (ck_height r) (ck_tip_hash r) 0 []"
      using kept_snapshot [OF k0(1) assms(3,5-7)] m assms(8) by simp
    from kept_tail [OF this t(4)]
    have kept': "kept E S (fold batch_step (batch @ [Put_cf CF_META META_TIP_HEIGHT (height_to_key ?final)]) (look (rs_db store)))
        g (ck_height r) (ck_tip_hash r) 0 tail" unfolding batch(2) unfolding final using m by simp
    show ?thesis
    proof (cases rule: laws_write [OF assms(1), of "rs_disable_wal store" "batch @ [Put_cf CF_META META_TIP_HEIGHT (height_to_key ?final)]" "rs_db store"])
      case (1 db1)
      then have st': "store' = store\<lparr> rs_db := db1, rs_chain := c \<rparr>" "res = Ok meta" using run by (simp_all add: commit_memory_def or_same_def)
      then have ok': "store_ok E S look g (ck_height r) (ck_tip_hash r) 0 tail store'"
        using kept' t(5) 1(2) k0(2) by (auto simp: store_ok_def)
      have "look db' CF_CHECKPOINTS = [height_to_key (ck_height r) \<mapsto> bytes]"
        using look st'(1) 1(2) m assms(3) unfolding batch(2) by (simp add: with_tip_def tail_checkpoints snapshot_view_def fun_upd_def)
      then show ?thesis using st'(2) m t(1) ok' unchanged_reopens [OF assms(1) t(3) ok' look] by auto
    next
      case (2 db1)
      then show ?thesis using run look by (auto simp: commit_memory_def or_same_def)
    qed
  qed
qed

text \<open>The witness: a new store that starts from the snapshot of height five, with no tail.\<close>

theorem rocks_bootstrap_reopens_witness:
  "\<exists>S store' meta. rocks_bootstrap_from_external_snapshot demo_engine demo_env S null_backend new_store [2] [] [] = (store', Ok meta)
     \<and> tm_height meta = 5 \<and> reopens demo_engine demo_look demo_env S (replicate 32 7) 5 (replicate 32 7) 0 [] (rs_db store')"
proof -
  let ?r = "level_record 5 (state_root demo_xof (level_state 5))"
  define S where "S = demo_serde first_record (Some ?r)"
  have rd: "sd_read_checkpoint S [2] = Some ?r" by (simp add: S_def demo_serde_def)
  have r: "ck_height ?r = 5" "ck_tip_hash ?r = replicate 32 7" "ck_version ?r = STATE_FORMAT_VERSION"
    "ck_state ?r = state_into_record (level_state 5)" "ck_state_root ?r = state_root demo_xof (level_state 5)"
    by (simp_all add: level_record_def checkpoint_record_def del: replicate.simps)
  obtain t where t: "record_into_state demo_xof (state_into_record (level_state 5)) [] = Ok t" "st_block_height t = 5"
    "state_root demo_xof t = state_root demo_xof (level_state 5)" "st_validators t = []" using level_state_restores [of 5] by blast
  have X: "e_xof demo_env = demo_xof" by (simp add: demo_env_def)
  obtain meta where meta: "checked_snapshot (e_xof demo_env) S [2] [] = Ok meta"
    using rd r t X by (simp add: checked_snapshot_def check_state_format_version_def)
  have pol: "snapshot_policy (e_xof demo_env) S [2] [] = Ok None"
    using rd r t X by (simp add: snapshot_policy_def policy_from_state_store_def active_validators_def hvals_def)
  have h0: "chain_height (rs_chain new_store) = 0" by (simp add: new_store_def chain_new_with_base_def chain_height_def chain_tip_def)
  obtain store' where run: "rocks_bootstrap_from_external_snapshot demo_engine demo_env S null_backend new_store [2] [] [] = (store', Ok meta)"
    using meta pol h0 by (simp add: rocks_bootstrap_from_external_snapshot_def or_same_def commit_memory_def demo_write)
  have look_checkpoints: "demo_look (rs_db new_store) CF_CHECKPOINTS = Map.empty"
    by (simp add: demo_look_def new_store_def new_db_def hget_def fun_eq_iff)
  have "0 < ck_height ?r" "length (ck_tip_hash ?r) = 32" "ck_height ?r + length ([] :: bytes list) + 2 < U64_MAX"
    unfolding r by (simp_all add: U64_MAX_def)
  from rocks_bootstrap_reopens [of demo_engine demo_look demo_env S, OF demo_laws new_store_ok look_checkpoints _ rd this run demo_wal new_store_found]
  have "meta = \<lparr> tm_height = 5, tm_tip_hash = replicate 32 7, tm_state_root = ck_state_root ?r \<rparr>"
    "reopens demo_engine demo_look demo_env S (replicate 32 7) 5 (replicate 32 7) 0 [] (rs_db store')"
    unfolding r by (auto simp del: replicate.simps)
  then show ?thesis using run by (intro exI [of _ S] exI [of _ store'] exI [of _ meta]) simp
qed

end
