(* ===== verification/Block_Tree_Cache.thy ===== *)
theory Block_Tree_Cache
  imports Chain
begin

text \<open>
  The cache of received blocks whose parent is not known yet
  (\<open>pqc-consensus/src/block_tree_cache.rs\<close>).  Times are nanoseconds; the current time is an argument of
  the operations that read the clock.

  The result: in every reachable cache the index by parent describes exactly the cached blocks, the
  bound on their number holds, and the queue of insertions names every cached block, so that the
  search for a victim always ends with one.
\<close>

section \<open>The cache\<close>

definition DEFAULT_CAPACITY :: nat where
"DEFAULT_CAPACITY = 1024"

definition DEFAULT_TTL :: nat where
"DEFAULT_TTL = 60000000000"

record cached =
  ca_stored :: stored_block
  ca_inserted_at :: nat

record block_tree_cache =
  bt_capacity :: nat
  bt_ttl :: nat
  bt_entries :: "(hash32, cached) hmap"
  bt_by_parent :: "(hash32, hash32 list) hmap"
  bt_insertion_order :: "hash32 list"

definition cache_new :: "nat \<Rightarrow> nat \<Rightarrow> block_tree_cache" where
"cache_new capacity ttl = \<lparr> bt_capacity = max capacity 1, bt_ttl = ttl, bt_entries = [], bt_by_parent = [],
   bt_insertion_order = [] \<rparr>"

definition cache_remove :: "hash32 \<Rightarrow> block_tree_cache \<Rightarrow> block_tree_cache \<times> stored_block option" where
"cache_remove h c =
   (case hget (bt_entries c) h of
      None \<Rightarrow> (c, None)
    | Some e \<Rightarrow>
        let parent = bm_prev_hash (sb_metadata (ca_stored e));
            c1 = c\<lparr> bt_entries := hdel h (bt_entries c) \<rparr>
        in (case hget (bt_by_parent c) parent of
              None \<Rightarrow> c1
            | Some set_of \<Rightarrow>
                let rest = removeAll h set_of in
                if rest = [] then c1\<lparr> bt_by_parent := hdel parent (bt_by_parent c) \<rparr>
                else c1\<lparr> bt_by_parent := hput parent rest (bt_by_parent c) \<rparr>, Some (ca_stored e)))"

text \<open>The loop of \<open>evict_oldest\<close>: stale hashes are skipped until a live one is found.\<close>

fun evict_from :: "hash32 list \<Rightarrow> block_tree_cache \<Rightarrow> block_tree_cache" where
"evict_from [] c = c\<lparr> bt_insertion_order := [] \<rparr>" |
"evict_from (h # order) c =
   (if hhas (bt_entries c) h then fst (cache_remove h (c\<lparr> bt_insertion_order := order \<rparr>)) else evict_from order c)"

definition evict_oldest :: "block_tree_cache \<Rightarrow> block_tree_cache" where
"evict_oldest c = evict_from (bt_insertion_order c) c"

definition cache_insert :: "nat \<Rightarrow> stored_block \<Rightarrow> block_tree_cache \<Rightarrow> block_tree_cache" where
"cache_insert now stored c =
   (let h = bm_block_hash (sb_metadata stored);
        parent = bm_prev_hash (sb_metadata stored)
    in case hget (bt_entries c) h of
         Some e \<Rightarrow> c\<lparr> bt_entries := hput h (e\<lparr> ca_inserted_at := now \<rparr>) (bt_entries c) \<rparr>
       | None \<Rightarrow>
           let c1 = (if length (bt_entries c) \<ge> bt_capacity c then evict_oldest c else c);
               siblings = (case hget (bt_by_parent c1) parent of Some hs \<Rightarrow> hs | None \<Rightarrow> [])
           in c1\<lparr> bt_entries := hput h \<lparr> ca_stored = stored, ca_inserted_at = now \<rparr> (bt_entries c1),
                  bt_by_parent := hput parent (List.insert h siblings) (bt_by_parent c1),
                  bt_insertion_order := bt_insertion_order c1 @ [h] \<rparr>)"

definition expired :: "nat \<Rightarrow> block_tree_cache \<Rightarrow> cached \<Rightarrow> bool" where
"expired now c e \<longleftrightarrow> now - ca_inserted_at e > bt_ttl c"

definition cache_get :: "nat \<Rightarrow> block_tree_cache \<Rightarrow> hash32 \<Rightarrow> stored_block option" where
"cache_get now c h =
   (case hget (bt_entries c) h of
      None \<Rightarrow> None
    | Some e \<Rightarrow> if expired now c e then None else Some (ca_stored e))"

definition children_of :: "nat \<Rightarrow> block_tree_cache \<Rightarrow> hash32 \<Rightarrow> stored_block list" where
"children_of now c parent =
   (case hget (bt_by_parent c) parent of
      None \<Rightarrow> []
    | Some hs \<Rightarrow> map ca_stored (filter (\<lambda>e. \<not> expired now c e) (List.map_filter (hget (bt_entries c)) (sort hs))))"

definition prune_expired :: "nat \<Rightarrow> block_tree_cache \<Rightarrow> block_tree_cache \<times> nat" where
"prune_expired now c =
   (let victims = map fst (filter (\<lambda>(h, e). expired now c e) (bt_entries c))
    in (fold (\<lambda>h c. fst (cache_remove h c)) victims c, length victims))"

section \<open>The invariant\<close>

definition kids :: "block_tree_cache \<Rightarrow> hash32 \<Rightarrow> hash32 list" where
"kids c parent = (case hget (bt_by_parent c) parent of Some hs \<Rightarrow> hs | None \<Rightarrow> [])"

abbreviation parent_of :: "cached \<Rightarrow> hash32" where
"parent_of e \<equiv> bm_prev_hash (sb_metadata (ca_stored e))"

definition indexed :: "block_tree_cache \<Rightarrow> bool" where
"indexed c \<longleftrightarrow> hwf (bt_entries c)
   \<and> (\<forall>h e. hget (bt_entries c) h = Some e \<longrightarrow> hash_of (ca_stored e) = h)
   \<and> (\<forall>p h. h \<in> set (kids c p) \<longleftrightarrow> (\<exists>e. hget (bt_entries c) h = Some e \<and> parent_of e = p))
   \<and> (\<forall>p. distinct (kids c p))"

definition queued :: "block_tree_cache \<Rightarrow> bool" where
"queued c \<longleftrightarrow> (\<forall>h. hhas (bt_entries c) h \<longrightarrow> h \<in> set (bt_insertion_order c))"

definition cache_ok :: "block_tree_cache \<Rightarrow> bool" where
"cache_ok c \<longleftrightarrow> indexed c \<and> queued c \<and> length (bt_entries c) \<le> bt_capacity c \<and> 0 < bt_capacity c"

lemma length_hput: "length (hput k v m) = (if hhas m k then length m else Suc (length m))"
  by (induction m) (auto simp: hput_def hhas_def hget_def)

lemma hdel_absent: "hget m k = None \<Longrightarrow> hdel k m = m"
  by (simp add: hget_def hdel_def delete_idem map_of_eq_None_iff)

lemma length_hdel: "hwf m \<Longrightarrow> hhas m k \<Longrightarrow> Suc (length (hdel k m)) = length m"
proof (induction m)
  case (Cons x m)
  show ?case
  proof (cases "fst x = k")
    case True
    then have "hdel k m = m" using Cons.prems(1) by (auto simp: hwf_def hget_def map_of_eq_None_iff intro!: hdel_absent)
    then show ?thesis using True by (auto simp: hdel_def)
  next
    case False
    then show ?thesis using Cons by (cases x) (auto simp: hdel_def hwf_def hhas_def hget_def)
  qed
qed (simp add: hhas_def)

lemma cache_new_ok: "cache_ok (cache_new capacity ttl)"
  by (simp add: cache_ok_def indexed_def queued_def cache_new_def kids_def hhas_def)

lemma remove_entries [simp]:
  "bt_entries (fst (cache_remove h c)) = hdel h (bt_entries c)"
  "bt_insertion_order (fst (cache_remove h c)) = bt_insertion_order c"
  "bt_capacity (fst (cache_remove h c)) = bt_capacity c"
  "bt_ttl (fst (cache_remove h c)) = bt_ttl c"
  by (auto simp: cache_remove_def Let_def hdel_absent split: option.split)

lemma remove_kids:
  "hget (bt_entries c) h = Some e \<Longrightarrow>
   kids (fst (cache_remove h c)) p = (if p = parent_of e then removeAll h (kids c p) else kids c p)"
  by (auto simp: cache_remove_def kids_def Let_def hget_hdel hget_hput split: option.split)

lemma remove_indexed:
  assumes "indexed c"
  shows "indexed (fst (cache_remove h c))"
proof (cases "hget (bt_entries c) h")
  case None
  then show ?thesis using assms by (simp add: cache_remove_def)
next
  case (Some e)
  then show ?thesis using assms by (auto simp: indexed_def remove_kids hget_hdel distinct_removeAll split: if_splits)
qed

lemma evict_from_ok:
  assumes "indexed c" "\<forall>h. hhas (bt_entries c) h \<longrightarrow> h \<in> set order" "bt_entries c \<noteq> []"
  shows "indexed (evict_from order c) \<and> queued (evict_from order c) \<and> bt_capacity (evict_from order c) = bt_capacity c
    \<and> Suc (length (bt_entries (evict_from order c))) = length (bt_entries c)
    \<and> (\<forall>h. hhas (bt_entries (evict_from order c)) h \<longrightarrow> hhas (bt_entries c) h)"
  using assms
proof (induction order)
  case Nil
  then obtain h e m where "bt_entries c = (h, e) # m" by (cases "bt_entries c") auto
  then show ?case using Nil.prems(2) by (auto simp: hhas_def hget_def dest!: spec [of _ h])
next
  case (Cons h order)
  show ?case
  proof (cases "hhas (bt_entries c) h")
    case True
    have "indexed (c\<lparr> bt_insertion_order := order \<rparr>)" using Cons.prems(1) by (simp add: indexed_def kids_def)
    from remove_indexed [OF this, of h] show ?thesis
      using True Cons.prems length_hdel [of "bt_entries c" h]
      by (auto simp: queued_def hhas_def hget_hdel indexed_def split: if_splits)
  next
    case False
    then show ?thesis using Cons.IH [OF Cons.prems(1)] Cons.prems(2,3) by auto
  qed
qed

lemma insert_new_ok:
  assumes "indexed c" "queued c" "length (bt_entries c) < bt_capacity c" "\<not> hhas (bt_entries c) (hash_of b)"
    "parent = bm_prev_hash (sb_metadata b)"
  shows "cache_ok (c\<lparr> bt_entries := hput (hash_of b) \<lparr> ca_stored = b, ca_inserted_at = now \<rparr> (bt_entries c),
           bt_by_parent := hput parent (List.insert (hash_of b) (kids c parent)) (bt_by_parent c),
           bt_insertion_order := bt_insertion_order c @ [hash_of b] \<rparr>)" (is "cache_ok ?d")
proof -
  have kids: "kids ?d p = (if p = parent then List.insert (hash_of b) (kids c parent) else kids c p)" for p
    by (simp add: kids_def hget_hput)
  have "hget (bt_entries c) (hash_of b) = None" using assms(4) by (simp add: hhas_def)
  then have "indexed ?d" using assms(1,5) unfolding indexed_def kids by (auto simp: hget_hput)
  then show ?thesis
    using assms(2-4) by (auto simp: cache_ok_def queued_def hhas_hput length_hput)
qed

lemma cache_insert_ok:
  assumes "cache_ok c"
  shows "cache_ok (cache_insert now b c) \<and> hget (bt_entries (cache_insert now b c)) (hash_of b) \<noteq> None
    \<and> bt_capacity (cache_insert now b c) = bt_capacity c"
proof (cases "hget (bt_entries c) (hash_of b)")
  case (Some e)
  then have "kids (cache_insert now b c) = kids c"
    by (simp add: cache_insert_def kids_def fun_eq_iff)
  then show ?thesis
    using Some assms
    by (auto simp: cache_ok_def indexed_def queued_def cache_insert_def hget_hput hhas_hput hhas_def length_hput split: if_splits)
next
  case None
  define d where "d = (if length (bt_entries c) \<ge> bt_capacity c then evict_oldest c else c)"
  have "indexed d \<and> queued d \<and> length (bt_entries d) < bt_capacity d \<and> \<not> hhas (bt_entries d) (hash_of b)
      \<and> bt_capacity d = bt_capacity c"
  proof (cases "length (bt_entries c) \<ge> bt_capacity c")
    case True
    then have "bt_entries c \<noteq> []" using assms by (auto simp: cache_ok_def)
    then show ?thesis
      using evict_from_ok [of c "bt_insertion_order c"] assms None True
      by (auto simp: d_def evict_oldest_def cache_ok_def queued_def hhas_def)
  next
    case False
    then show ?thesis using assms None by (simp add: d_def cache_ok_def hhas_def)
  qed
  then show ?thesis
    using insert_new_ok [of d b "bm_prev_hash (sb_metadata b)" now] None
    by (simp add: cache_insert_def Let_def kids_def flip: d_def)
qed

lemma cache_remove_ok: "cache_ok c \<Longrightarrow> cache_ok (fst (cache_remove h c))"
  using remove_indexed [of c h] length_hdel [of "bt_entries c" h] hdel_absent [of "bt_entries c" h]
  by (cases "hhas (bt_entries c) h") (auto simp: cache_ok_def queued_def hhas_def hget_hdel indexed_def)

lemma prune_ok: "cache_ok c \<Longrightarrow> cache_ok (fst (prune_expired now c))"
proof -
  have "cache_ok (fold (\<lambda>h c. fst (cache_remove h c)) hs c)" if "cache_ok c" for hs c
    using that by (induction hs arbitrary: c) (simp_all add: cache_remove_ok)
  then show "cache_ok c \<Longrightarrow> cache_ok (fst (prune_expired now c))" by (simp add: prune_expired_def Let_def)
qed

section \<open>The property\<close>

inductive cache_reachable :: "block_tree_cache \<Rightarrow> bool" where
reach_new: "cache_reachable (cache_new capacity ttl)" |
reach_insert: "cache_reachable c \<Longrightarrow> cache_reachable (cache_insert now b c)" |
reach_remove: "cache_reachable c \<Longrightarrow> cache_reachable (fst (cache_remove h c))" |
reach_prune: "cache_reachable c \<Longrightarrow> cache_reachable (fst (prune_expired now c))"

lemma reachable_ok: "cache_reachable c \<Longrightarrow> cache_ok c"
  by (induction rule: cache_reachable.induct) (simp_all add: cache_new_ok cache_insert_ok cache_remove_ok prune_ok)

lemma children_hashes:
  assumes "indexed c"
  shows "map hash_of (children_of now c p)
    = filter (\<lambda>h. \<exists>e. hget (bt_entries c) h = Some e \<and> \<not> expired now c e) (sort (kids c p))"
proof -
  have "map hash_of (map ca_stored (filter (\<lambda>e. \<not> expired now c e) (List.map_filter (hget (bt_entries c)) hs)))
    = filter (\<lambda>h. \<exists>e. hget (bt_entries c) h = Some e \<and> \<not> expired now c e) hs" for hs
    using assms by (induction hs) (auto simp: List.map_filter_def indexed_def split: option.splits)
  then show ?thesis by (auto simp: children_of_def kids_def split: option.split)
qed

lemma mem_children:
  assumes "indexed c"
  shows "b \<in> set (children_of now c p) \<longleftrightarrow> cache_get now c (hash_of b) = Some b \<and> bm_prev_hash (sb_metadata b) = p"
proof -
  have "b \<in> set (children_of now c p) \<longleftrightarrow>
      (\<exists>h e. h \<in> set (kids c p) \<and> hget (bt_entries c) h = Some e \<and> \<not> expired now c e \<and> b = ca_stored e)"
    by (auto simp: children_of_def kids_def List.map_filter_def image_iff split: option.splits) force
  also have "\<dots> \<longleftrightarrow> (\<exists>e. hget (bt_entries c) (hash_of b) = Some e \<and> \<not> expired now c e \<and> b = ca_stored e \<and> parent_of e = p)"
    using assms unfolding indexed_def by fastforce
  also have "\<dots> \<longleftrightarrow> cache_get now c (hash_of b) = Some b \<and> bm_prev_hash (sb_metadata b) = p"
    by (auto simp: cache_get_def split: option.split)
  finally show ?thesis .
qed

lemma children_length: "indexed c \<Longrightarrow> length (children_of now c p) \<le> length (kids c p)"
  using length_filter_le [of "\<lambda>h. \<exists>e. hget (bt_entries c) h = Some e \<and> \<not> expired now c e" "sort (kids c p)"]
    children_hashes [of c now p, THEN arg_cong [where f = length]] by simp

text \<open>
  The cache of orphan blocks is bounded and its index exact.  In every cache reached by inserting,
  removing and pruning, at most capacity many blocks are held; the children listed for a parent are
  exactly the unexpired cached blocks with that parent, in ascending order of their hashes and without
  repetition; and a block is available right after its insertion, however full the cache was.
\<close>

theorem block_tree_cache_exact:
  assumes "cache_reachable c"
  shows "length (bt_entries c) \<le> bt_capacity c
    \<and> (\<forall>b p. b \<in> set (children_of now c p) \<longleftrightarrow> cache_get now c (hash_of b) = Some b \<and> bm_prev_hash (sb_metadata b) = p)
    \<and> (\<forall>p. sorted (map hash_of (children_of now c p)) \<and> distinct (map hash_of (children_of now c p)))
    \<and> (\<forall>b. cache_get now (cache_insert now b c) (hash_of b) \<noteq> None)"
proof -
  have ok: "cache_ok c" by (rule reachable_ok [OF assms])
  then have i: "indexed c" and d: "distinct (kids c p)" for p by (simp_all add: cache_ok_def indexed_def)
  have "cache_get now (cache_insert now b c) (hash_of b) \<noteq> None" for b
    by (auto simp: cache_get_def cache_insert_def expired_def Let_def split: option.split)
  then show ?thesis
    using ok mem_children [OF i] d by (simp add: children_hashes [OF i] cache_ok_def sorted_wrt_filter)
qed

theorem block_tree_cache_exact_witness:
  "let c = cache_insert 5 sixth_block (cache_new 0 DEFAULT_TTL)
   in length (bt_entries c) = 1 \<and> children_of 9 c (replicate 32 7) = [sixth_block]"
proof -
  let ?c = "cache_insert 5 sixth_block (cache_new 0 DEFAULT_TTL)"
  have r: "cache_reachable ?c" by (intro cache_reachable.intros)
  have g: "cache_get 9 ?c (hash_of sixth_block) = Some sixth_block" and l: "length (bt_entries ?c) = 1"
    by (simp_all add: cache_get_def cache_insert_def cache_new_def expired_def DEFAULT_TTL_def Let_def length_hput hhas_def)
  have "bm_prev_hash (sb_metadata sixth_block) = replicate 32 7" by (simp add: sixth_block_def Let_def del: replicate.simps)
  with block_tree_cache_exact [OF r, of 9] g have m: "sixth_block \<in> set (children_of 9 ?c (replicate 32 7))" by blast
  have "length (kids ?c (replicate 32 7)) \<le> 1"
    by (simp add: kids_def cache_insert_def cache_new_def Let_def hget_hput)
  then have "length (children_of 9 ?c (replicate 32 7)) \<le> 1"
    using children_length [of ?c 9 "replicate 32 7"] reachable_ok [OF r] by (simp add: cache_ok_def)
  then have "children_of 9 ?c (replicate 32 7) = [sixth_block]"
    using m by (cases "children_of 9 ?c (replicate 32 7)") auto
  with l show ?thesis by (simp add: Let_def)
qed

end
