(* ===== verification/Archival_Epoch.thy ===== *)
theory Archival_Epoch
  imports Chain
begin

text \<open>
  The root of a closed epoch (\<open>pqc-consensus/src/archival.rs\<close>), which the archival signers of all nodes must agree on.
  The summary is exact on every chain store that implements a list of blocks, so two stores of one chain that were compacted
  differently never give different roots.
\<close>

definition ARCHIVAL_EPOCH_ROOT_DOMAIN :: bytes where
"ARCHIVAL_EPOCH_ROOT_DOMAIN = bstr ''VIPER-ARCHIVAL-V1''"

definition compute_archival_epoch_root :: "xof \<Rightarrow> nat \<Rightarrow> hash32 list \<Rightarrow> hash32" where
"compute_archival_epoch_root X epoch_number block_hashes =
   th_finish X (push_chunks block_hashes (push_u64 epoch_number (th_new X ARCHIVAL_EPOCH_ROOT_DOMAIN)))"

record archival_epoch_summary =
  as_epoch_number :: nat
  as_first_height :: nat
  as_last_height :: nat
  as_epoch_root :: hash32

fun collect_hashes :: "chain_store \<Rightarrow> nat list \<Rightarrow> hash32 list option" where
"collect_hashes c [] = Some []" |
"collect_hashes c (h # hs) =
   (case get_metadata_by_height c h of
      None \<Rightarrow> None
    | Some meta \<Rightarrow> map_option (\<lambda>hashes. bm_block_hash meta # hashes) (collect_hashes c hs))"

text \<open>The vector is allocated up front; a capacity of more than \<open>isize::MAX\<close> bytes panics.\<close>

definition summarize_closed_epoch :: "xof \<Rightarrow> chain_store \<Rightarrow> nat \<Rightarrow> nat \<Rightarrow> (archival_epoch_summary option, unit) result" where
"summarize_closed_epoch X c boundary_height epoch_duration =
   (if \<not> is_epoch_boundary boundary_height epoch_duration then Ok None
    else
      bind_r (epoch_for_height boundary_height epoch_duration) (\<lambda>current_epoch.
      if current_epoch = 0 then Ok None
      else
        let closed_epoch = current_epoch - 1;
            first_height = saturating_mul U64_MAX closed_epoch epoch_duration;
            last_height = saturating_sub (saturating_add U64_MAX first_height epoch_duration) 1
        in if 32 * epoch_duration \<ge> 2 ^ 63 then Panic
           else Ok (map_option (\<lambda>hashes. \<lparr> as_epoch_number = closed_epoch, as_first_height = first_height,
                    as_last_height = last_height, as_epoch_root = compute_archival_epoch_root X closed_epoch hashes \<rparr>)
                  (collect_hashes c [first_height..<Suc last_height]))))"

lemma represents_metadata:
  assumes "represents X c bs"
  shows "get_metadata_by_height c h = (if ch_base_height c < h \<and> h \<le> ch_base_height c + length bs
    then Some (sb_metadata (bs ! (h - Suc (ch_base_height c)))) else None)"
proof (cases "ch_base_height c < h \<and> h \<le> ch_base_height c + length bs")
  case True
  then have "h - Suc (ch_base_height c) < length bs" by linarith
  then have "get_stored_block_by_height c h = Some (bs ! (h - Suc (ch_base_height c)))"
    using True represents_get [OF assms, of "h - Suc (ch_base_height c)"] by simp
  then show ?thesis using True by (simp add: get_metadata_by_height_def get_stored_block_by_height_def)
next
  case False
  then have "h \<notin> fst ` set (enumerate (Suc (ch_base_height c)) (map hash_of bs))" by (auto simp: in_set_enumerate_eq)
  then have "hget (ch_by_height c) h = None" using assms by (simp add: represents_def holds_def map_of_eq_None_iff)
  then show ?thesis using False by (simp add: get_metadata_by_height_def)
qed

lemma collect_hashes_represents:
  assumes "represents X c bs"
  shows "collect_hashes c hs = (if \<forall>h \<in> set hs. ch_base_height c < h \<and> h \<le> ch_base_height c + length bs
    then Some (map (\<lambda>h. hash_of (bs ! (h - Suc (ch_base_height c)))) hs) else None)"
  by (induction hs) (auto simp: represents_metadata [OF assms])

lemma slice_nth:
  assumes "base < a" "a + n \<le> Suc base + length bs"
  shows "map (\<lambda>h. f (bs ! (h - Suc base))) [a..<a + n] = map f (take n (drop (a - Suc base) bs))"
  using assms by (intro nth_equalityI) (auto simp: nth_append)

text \<open>
  The root of a closed epoch.  At the boundary \<open>(Suc n) * d\<close> the summary is of the epoch \<open>n\<close>, the \<open>d\<close> blocks from height
  \<open>n * d\<close> to just below the boundary, and its root is that of their hashes in order.  There is a summary exactly when the
  store still has them all, never for the first epoch, whose block zero does not exist, and never off a boundary.
\<close>

theorem epoch_summary_exact:
  assumes "represents X c bs" "0 < d" "32 * d < 2 ^ 63" "h \<le> U64_MAX"
  shows "summarize_closed_epoch X c h d = Ok (
    if d dvd h \<and> ch_base_height c + d < h \<and> h \<le> Suc (ch_base_height c + length bs)
    then Some \<lparr> as_epoch_number = h div d - 1, as_first_height = h - d, as_last_height = h - 1,
           as_epoch_root = compute_archival_epoch_root X (h div d - 1) (map hash_of (take d (drop (h - d - Suc (ch_base_height c)) bs))) \<rparr>
    else None)"
proof (cases "0 < h \<and> d dvd h")
  case False
  then show ?thesis by (auto simp: summarize_closed_epoch_def is_epoch_boundary_def)
next
  case True
  then obtain n where h: "h = Suc n * d" using assms(2) by (metis dvd_div_mult_self gr0_implies_Suc div_greater_zero_iff dvd_imp_le)
  let ?b = "ch_base_height c"
  have first: "saturating_mul U64_MAX n d = n * d" "saturating_sub (saturating_add U64_MAX (n * d) d) (Suc 0) = h - Suc 0"
    using assms(4) h by (simp_all add: saturating_mul_def saturating_add_def saturating_sub_def min_absorb2 add.commute)
  have range: "n * d + d = h" using h by simp
  have sub: "h - d = n * d" "h div d = Suc n" using h assms(2) by simp_all
  have have_all: "(\<forall>k \<in> set [n * d..<n * d + d]. ?b < k \<and> k \<le> ?b + length bs) \<longleftrightarrow> ?b + d < h \<and> h \<le> Suc (?b + length bs)"
    (is "?all \<longleftrightarrow> _")
  proof
    assume all: ?all
    have "n * d \<in> set [n * d..<n * d + d]" "n * d + d - 1 \<in> set [n * d..<n * d + d]" using assms(2) by auto
    then have "?b < n * d" "n * d + d - 1 \<le> ?b + length bs" using all by blast+
    then show "?b + d < h \<and> h \<le> Suc (?b + length bs)" using h by simp
  qed (use h in auto)
  have "collect_hashes c [n * d..<n * d + d] = (if ?b + d < h \<and> h \<le> Suc (?b + length bs)
      then Some (map hash_of (take d (drop (n * d - Suc ?b) bs))) else None)"
    using collect_hashes_represents [OF assms(1), of "[n * d..<n * d + d]"] have_all slice_nth [of ?b "n * d" d bs hash_of] h by auto
  then show ?thesis
    using True assms(2,3) by (simp add: summarize_closed_epoch_def epoch_for_height_def is_epoch_boundary_def Let_def first range sub
        del: upt_Suc)
qed

end
