(* ===== verification/Round_Termination.thy ===== *)
theory Round_Termination
  imports Bft
begin

text \<open>
  Termination of a synchronous round of \<open>pqc-consensus/src/round.rs\<close>: what one machine does when the
  proposal and the votes of a quorum reach it, in the order of the protocol and in the opposite order.
\<close>

section \<open>Runs of one machine\<close>

fun run_events :: "consensus_round \<Rightarrow> round_event list \<Rightarrow> (consensus_round \<times> round_action list) option" where
"run_events c [] = Some (c, [])" |
"run_events c (e # es) =
   (case handle c e of
      None \<Rightarrow> None
    | Some (d, as) \<Rightarrow> map_option (\<lambda>(f, bs). (f, as @ bs)) (run_events d es))"

lemma run_events_append:
  "run_events c es = Some (d, as) \<Longrightarrow>
   run_events c (es @ fs) = map_option (\<lambda>(f, bs). (f, as @ bs)) (run_events d fs)"
proof (induction es arbitrary: c as)
  case Nil
  then show ?case by (cases "run_events d fs") auto
next
  case (Cons e es)
  then show ?case by (cases "run_events d fs") (auto split: option.splits)
qed

abbreviation store_of :: "consensus_round \<Rightarrow> consensus_vote list \<Rightarrow> vote_store" where
"store_of c vs \<equiv> record_all (cr_vote_store c) vs"

text \<open>Votes of distinct validators for one block, none of them recorded before.\<close>

definition fresh_votes :: "consensus_round \<Rightarrow> vote_step \<Rightarrow> hash32 \<Rightarrow> consensus_vote list \<Rightarrow> bool" where
"fresh_votes c st b vs \<longleftrightarrow> distinct (map cv_validator_address vs)
   \<and> (\<forall>v \<in> set vs. cv_height v = cr_height c \<and> cv_round v = cr_round c \<and> cv_step v = st \<and> cv_block_hash v = b
        \<and> hget (votes (cr_vote_store c)) (key_of v) = None)"

lemma fresh_votes_Cons:
  assumes "fresh_votes c st b (v # vs)" "cr_height d = cr_height c" "cr_round d = cr_round c"
    "cr_vote_store d = fst (vs_record (cr_vote_store c) v)"
  shows "fresh_votes d st b vs"
    "cv_validator_address v \<in> voters (cr_vote_store d) (cr_height c) (cr_round c) st b"
proof -
  have new: "cv_validator_address v \<notin> cv_validator_address ` set vs" using assms(1) by (simp add: fresh_votes_def)
  have "key_of w \<noteq> key_of v" if "w \<in> set vs" for w
  proof
    assume "key_of w = key_of v"
    then have "cv_validator_address w = cv_validator_address v" using key_of_simps(1) [of w] key_of_simps(1) [of v] by simp
    then show False using imageI [OF that, of cv_validator_address] new by simp
  qed
  then show "fresh_votes d st b vs" using assms by (auto simp: fresh_votes_def vs_record_votes)
  have "key_of v = \<lparr> vk_validator = cv_validator_address v, vk_height = cr_height c, vk_round = cr_round c, vk_step = st \<rparr>"
    using assms(1) by (simp add: fresh_votes_def key_of_def)
  then show "cv_validator_address v \<in> voters (cr_vote_store d) (cr_height c) (cr_round c) st b"
    using assms(1,4) by (auto simp: voters_def vs_record_votes fresh_votes_def)
qed

lemma voters_record_all: "voters s h r st b \<subseteq> voters (record_all s vs) h r st b"
proof (induction vs arbitrary: s)
  case (Cons v vs)
  show ?case using voters_record [of s h r st b v] Cons.IH [of "fst (vs_record s v)"] by auto
qed simp

lemma fresh_voters:
  "fresh_votes c st b vs \<Longrightarrow> length vs \<le> card (voters (store_of c vs) (cr_height c) (cr_round c) st b)"
proof -
  assume f: "fresh_votes c st b vs"
  have "cv_validator_address ` set vs \<subseteq> voters (store_of c vs) (cr_height c) (cr_round c) st b"
    using f
  proof (induction vs arbitrary: c)
    case (Cons v vs)
    let ?d = "c\<lparr> cr_vote_store := fst (vs_record (cr_vote_store c) v) \<rparr>"
    have d: "fresh_votes ?d st b vs" "cv_validator_address v \<in> voters (cr_vote_store ?d) (cr_height c) (cr_round c) st b"
      using fresh_votes_Cons [OF Cons.prems, of ?d] by simp_all
    show ?case
      using Cons.IH [OF d(1)] d(2) voters_record_all [of "cr_vote_store ?d" "cr_height c" "cr_round c" st b vs] by auto
  qed simp
  then have "card (cv_validator_address ` set vs) \<le> card (voters (store_of c vs) (cr_height c) (cr_round c) st b)"
    by (rule card_mono [OF finite_voters])
  then show "length vs \<le> card (voters (store_of c vs) (cr_height c) (cr_round c) st b)"
    using f distinct_card [of "map cv_validator_address vs"] by (simp add: fresh_votes_def)
qed

section \<open>Prevotes\<close>

lemma prevotes_idle:
  "cr_phase c \<noteq> Phase_Prevote \<Longrightarrow>
   run_events c (map Ev_Prevote vs) = Some (c\<lparr> cr_vote_store := store_of c vs \<rparr>, [])"
  by (induction vs arbitrary: c) (auto simp: on_prevote_def Let_def)

lemma prevotes_run:
  assumes "vs_inv (cr_vote_store c)" "cr_phase c = Phase_Prevote" "b \<noteq> NIL_HASH" "fresh_votes c Step_Prevote b vs"
  shows "run_events c (map Ev_Prevote vs) = Some (c\<lparr> cr_vote_store := store_of c vs, cr_phase := Phase_Precommit,
        cr_locked_block := Some b, cr_locked_round := Some (cr_round c) \<rparr>, [BroadcastPrecommit b])
    \<or> run_events c (map Ev_Prevote vs) = Some (c\<lparr> cr_vote_store := store_of c vs \<rparr>, [])
      \<and> (vs = [] \<or> card (voters (store_of c vs) (cr_height c) (cr_round c) Step_Prevote b) < cr_quorum c)"
  using assms
proof (induction vs arbitrary: c)
  case (Cons v vs)
  let ?d = "c\<lparr> cr_vote_store := fst (vs_record (cr_vote_store c) v) \<rparr>"
  have v: "cv_height v = cr_height c" "cv_round v = cr_round c" "cv_block_hash v = b"
    using Cons.prems(4) by (simp_all add: fresh_votes_def)
  have polka: "has_polka (cr_vote_store ?d) (cr_height c) (cr_round c) b (cr_quorum c)
      \<longleftrightarrow> cr_quorum c \<le> card (voters (cr_vote_store ?d) (cr_height c) (cr_round c) Step_Prevote b)"
    using Cons.prems(1,3) by (simp add: has_polka_def prevote_count_voters)
  show ?case
  proof (cases "has_polka (cr_vote_store ?d) (cr_height c) (cr_round c) b (cr_quorum c)")
    case True
    let ?e = "?d\<lparr> cr_phase := Phase_Precommit, cr_locked_block := Some b, cr_locked_round := Some (cr_round c) \<rparr>"
    have "on_prevote c v = (?e, [BroadcastPrecommit b])"
      using True Cons.prems(2,3) v by (simp add: on_prevote_def Let_def cr_quorum_def)
    then show ?thesis using prevotes_idle [of ?e vs] by simp
  next
    case False
    then have "on_prevote c v = (?d, [])" using Cons.prems(2,3) v by (simp add: on_prevote_def Let_def cr_quorum_def)
    moreover have "fresh_votes ?d Step_Prevote b vs" by (rule fresh_votes_Cons [OF Cons.prems(4)]) simp_all
    ultimately show ?thesis
      using Cons.IH [of ?d] Cons.prems(1-3) False polka by (auto simp: cr_quorum_def)
  qed
qed simp

section \<open>Precommits\<close>

lemma precommits_idle:
  "cr_phase c = Phase_Decided \<Longrightarrow>
   run_events c (map Ev_Precommit vs) = Some (c\<lparr> cr_vote_store := store_of c vs \<rparr>, [])"
  by (induction vs arbitrary: c) (auto simp: on_precommit_def Let_def)

lemma precommits_run:
  assumes "vs_inv (cr_vote_store c)" "cr_phase c \<noteq> Phase_Decided" "b \<noteq> NIL_HASH" "fresh_votes c Step_Precommit b vs"
  shows "run_events c (map Ev_Precommit vs) = Some (c\<lparr> cr_vote_store := store_of c vs, cr_phase := Phase_Decided \<rparr>,
        [Commit b (cr_round c)])
    \<or> run_events c (map Ev_Precommit vs) = Some (c\<lparr> cr_vote_store := store_of c vs \<rparr>, [])
      \<and> (vs = [] \<or> card (voters (store_of c vs) (cr_height c) (cr_round c) Step_Precommit b) < cr_quorum c)"
  using assms
proof (induction vs arbitrary: c)
  case (Cons v vs)
  let ?d = "c\<lparr> cr_vote_store := fst (vs_record (cr_vote_store c) v) \<rparr>"
  have v: "cv_height v = cr_height c" "cv_round v = cr_round c" "cv_block_hash v = b"
    using Cons.prems(4) by (simp_all add: fresh_votes_def)
  have quorum: "has_commit_quorum (cr_vote_store ?d) (cr_height c) (cr_round c) b (cr_quorum c)
      \<longleftrightarrow> cr_quorum c \<le> card (voters (cr_vote_store ?d) (cr_height c) (cr_round c) Step_Precommit b)"
    using Cons.prems(1,3) by (simp add: has_commit_quorum_def precommit_count_voters)
  show ?case
  proof (cases "has_commit_quorum (cr_vote_store ?d) (cr_height c) (cr_round c) b (cr_quorum c)")
    case True
    then have "on_precommit c v = (?d\<lparr> cr_phase := Phase_Decided \<rparr>, [Commit b (cr_round c)])"
      using Cons.prems(2,3) v by (simp add: on_precommit_def Let_def cr_quorum_def)
    then show ?thesis using precommits_idle [of "?d\<lparr> cr_phase := Phase_Decided \<rparr>" vs] by simp
  next
    case False
    then have "on_precommit c v = (?d, [])" using Cons.prems(2,3) v by (simp add: on_precommit_def Let_def cr_quorum_def)
    moreover have "fresh_votes ?d Step_Precommit b vs" by (rule fresh_votes_Cons [OF Cons.prems(4)]) simp_all
    ultimately show ?thesis
      using Cons.IH [of ?d] Cons.prems(1-3) False quorum by (auto simp: cr_quorum_def)
  qed
qed simp

section \<open>The property\<close>

lemma record_all_other:
  "\<forall>v \<in> set vs. key_of v \<noteq> k \<Longrightarrow> hget (votes (record_all s vs)) k = hget (votes s) k"
  by (induction vs arbitrary: s) (auto simp: vs_record_votes)

lemma fresh_after_prevotes:
  assumes "fresh_votes c Step_Precommit b qs" "\<forall>v \<in> set ps. cv_step v = Step_Prevote"
    "cr_height d = cr_height c" "cr_round d = cr_round c" "cr_vote_store d = store_of c ps"
  shows "fresh_votes d Step_Precommit b qs"
proof -
  have "key_of v \<noteq> key_of w" if "v \<in> set ps" "w \<in> set qs" for v w
  proof
    assume "key_of v = key_of w"
    then have "cv_step v = cv_step w" using key_of_simps(4) [of v] key_of_simps(4) [of w] by simp
    then show False using that assms(1,2) by (simp add: fresh_votes_def)
  qed
  then show ?thesis using assms(1,3-5) by (simp add: fresh_votes_def record_all_other)
qed

lemma precommits_decide:
  assumes "vs_inv (cr_vote_store c)" "cr_phase c \<noteq> Phase_Decided" "b \<noteq> NIL_HASH" "fresh_votes c Step_Precommit b qs"
    "cr_quorum c \<le> length qs"
  shows "run_events c (map Ev_Precommit qs) = Some (c\<lparr> cr_vote_store := store_of c qs, cr_phase := Phase_Decided \<rparr>,
    [Commit b (cr_round c)])"
proof -
  have "qs \<noteq> []" using assms(5) by (auto simp: cr_quorum_def quorum_size_def)
  then show ?thesis using precommits_run [OF assms(1-4)] fresh_voters [OF assms(4)] assms(5) by auto
qed

text \<open>
  C3: A synchronous round terminates.  A machine in the propose phase, unlocked or locked on the block
  proposed, that receives the proposal, then prevotes and then precommits of a quorum of distinct
  validators for that block, prevotes, precommits and commits it, in this order, whatever other votes
  it holds; a machine that is not decided and only sees the precommits of the quorum commits too.
\<close>

theorem synchronous_round_commits:
  assumes "vs_inv (cr_vote_store c)" "cr_phase c = Phase_Propose" "cr_locked_block c \<in> {None, Some b}" "b \<noteq> NIL_HASH"
    "fresh_votes c Step_Prevote b ps" "fresh_votes c Step_Precommit b qs"
    "cr_quorum c \<le> length ps" "cr_quorum c \<le> length qs"
  shows "(\<exists>d. run_events c (Ev_Proposal b # map Ev_Prevote ps @ map Ev_Precommit qs)
        = Some (d, [BroadcastPrevote b, BroadcastPrecommit b, Commit b (cr_round c)]) \<and> is_decided d)
    \<and> (\<exists>d. run_events c (map Ev_Precommit qs) = Some (d, [Commit b (cr_round c)]) \<and> is_decided d)"
proof -
  let ?c = "c\<lparr> cr_phase := Phase_Prevote \<rparr>"
  let ?d = "?c\<lparr> cr_vote_store := store_of c ps, cr_phase := Phase_Precommit, cr_locked_block := Some b,
      cr_locked_round := Some (cr_round c) \<rparr>"
  have 1: "handle c (Ev_Proposal b) = Some (?c, [BroadcastPrevote b])"
    using assms(2,3) by (auto simp: on_proposal_received_def Let_def split: option.splits)
  have f: "fresh_votes ?c Step_Prevote b ps" using assms(5) by (simp add: fresh_votes_def)
  have "ps \<noteq> []" using assms(7) by (auto simp: cr_quorum_def quorum_size_def)
  then have 2: "run_events ?c (map Ev_Prevote ps) = Some (?d, [BroadcastPrecommit b])"
    using prevotes_run [OF _ _ assms(4) f] fresh_voters [OF f] assms(1,7) by (auto simp: cr_quorum_def)
  have "fresh_votes ?d Step_Precommit b qs"
    by (rule fresh_after_prevotes [OF assms(6), of ps]) (use assms(5) in \<open>simp_all add: fresh_votes_def\<close>)
  then have "run_events ?d (map Ev_Precommit qs)
      = Some (?d\<lparr> cr_vote_store := store_of ?d qs, cr_phase := Phase_Decided \<rparr>, [Commit b (cr_round c)])"
    using precommits_decide [of ?d b qs] assms(1,4,8) by (simp add: vs_inv_record_all cr_quorum_def)
  then have "run_events c (Ev_Proposal b # map Ev_Prevote ps @ map Ev_Precommit qs)
      = Some (?d\<lparr> cr_vote_store := store_of ?d qs, cr_phase := Phase_Decided \<rparr>,
          [BroadcastPrevote b, BroadcastPrecommit b, Commit b (cr_round c)])"
    using 1 run_events_append [OF 2, of "map Ev_Precommit qs"] by simp
  moreover have "run_events c (map Ev_Precommit qs) = Some (c\<lparr> cr_vote_store := store_of c qs, cr_phase := Phase_Decided \<rparr>,
    [Commit b (cr_round c)])"
    using precommits_decide [OF assms(1) _ assms(4,6,8)] assms(2) by simp
  ultimately show ?thesis by (auto simp: is_decided_def)
qed

definition quorum_votes :: "vote_step \<Rightarrow> hash32 \<Rightarrow> consensus_vote list" where
"quorum_votes st b = map (\<lambda>n. \<lparr> cv_height = 5, cv_round = 0, cv_step = st, cv_block_hash = b,
   cv_validator_address = [n], cv_signature = [] \<rparr>) [1, 2, 3]"

theorem synchronous_round_commits_witness:
  "\<exists>d. run_events (cr_new 5 4) (Ev_Proposal [9] # map Ev_Prevote (quorum_votes Step_Prevote [9])
       @ map Ev_Precommit (quorum_votes Step_Precommit [9]))
     = Some (d, [BroadcastPrevote [9], BroadcastPrecommit [9], Commit [9] 0]) \<and> is_decided d"
proof -
  have "fresh_votes (cr_new 5 4) st [9] (quorum_votes st [9])" for st
    by (simp add: fresh_votes_def cr_new_def quorum_votes_def vs_new_def)
  moreover have "cr_quorum (cr_new 5 4) \<le> length (quorum_votes st [9])" for st
    by (simp add: cr_quorum_def cr_new_def quorum_size_def quorum_votes_def)
  moreover have "[9 :: byte] \<noteq> NIL_HASH" by (auto simp: NIL_HASH_def dest: arg_cong [where f = length])
  ultimately show ?thesis
    using synchronous_round_commits [of "cr_new 5 4" "[9]"] by (simp add: cr_new_def)
qed

end
