(* ===== verification/Spec2Isabelle.thy ===== *)
theory Spec2Isabelle
  imports Slh_Dsa Light_Client Rocks_Recovery Block_Tree_Cache Archival_Epoch Round_Termination
begin

text \<open>
  A verification library for the post-quantum chain under \<open>src/crates\<close> and the signature scheme it vendors under
  \<open>src/vendor/slh-dsa\<close>.

  \<^bold>\<open>Parts and how they interact.\<close>  A client submits a transaction; \<open>pqc-tx\<close> decodes and validates it against a view of
  the state, and \<open>pqc-mempool\<close> keeps it.  A proposer (\<open>pqc-consensus/src/proposer.rs\<close>) takes pending transactions in
  order of priority and lets \<open>engine.rs\<close> apply them with \<open>pqc-state\<close>; the result is a block with the root of the new
  state.  The validators vote on it in a round (\<open>round.rs\<close>, \<open>quorum.rs\<close>), and the commit signatures go into the block
  (\<open>commit.rs\<close>).  The block is appended to the chain in memory (\<open>chain.rs\<close>) and to a durable store, on files
  (\<open>storage.rs\<close>) or on RocksDB (\<open>storage_rocksdb.rs\<close>).  A node that restarts or that receives a block replays it
  (\<open>recovery.rs\<close>).  \<open>pqc-crypto\<close> and \<open>pqc-types\<close> hold the algorithms and the data types, and
  \<open>pqc-light-client\<close> the protocol for clients that do not replay.

  \<^bold>\<open>Conventions.\<close>  A struct is a record whose fields carry a two-letter prefix, an enum a datatype, a method a function that takes
  and returns the state.  Unsigned integers are natural numbers, and every operation that can leave the width of the type is the
  checked, saturating or wrapping one of \<open>Prelude\<close>; bytes are 8-bit words.  A hash map is an association list with
  \<open>hget\<close>, \<open>hput\<close> and \<open>hdel\<close>.  A result is \<open>Ok\<close>, \<open>Err\<close> with the error of the source, or
  \<open>Panic\<close>.  Definitions keep the names of the source; a prefix (\<open>rocks_\<close>, \<open>disk_\<close>, \<open>slh_\<close>) tells apart functions
  of the same name.

  \<^bold>\<open>Parameters.\<close>  Code outside the repository is an argument: the extendable-output function \<open>xof\<close> (SHAKE-256), the CBOR
  library and the signature check in \<open>env\<close>, the ML-DSA crate in \<open>signature_backend\<close>, the digests of SLH-DSA in
  \<open>digests\<close>, the CBOR form of records in \<open>serde\<close>, and the database engine in \<open>rocksdb\<close>.  Where a theorem
  relies on such code, the law is a hypothesis: collision resistance on the inputs at hand, that decoding inverts encoding
  (\<open>serde_laws\<close>, \<open>block_law\<close>), and for the engine \<open>rocksdb_laws\<close>: reads return what was written, iteration is in the
  order of the keys, and a batch is applied as a whole or not at all.  What the next opening finds is the database itself after an orderly
  close; after the death of the process it is \<open>crash db\<close>, and \<open>wal_law\<close> says that a batch written with the write-ahead log, which
  is on but in tests, outlives the process (\<open>found\<close>).

  \<^bold>\<open>Foundations.\<close>
  \<^item> \<open>Prelude\<close>: bytes, arithmetic, results, hash maps and the lemmas on them that all components share.
  \<^item> \<open>Crypto_Hash\<close>: tagged hashes, Merkle roots, addresses (\<open>pqc-crypto/src/hash.rs\<close>, \<open>address.rs\<close>).
  \<^item> \<open>Types\<close>, \<open>State_Types\<close>, \<open>Block\<close>, \<open>Fork\<close>: the types of \<open>pqc-types\<close> and \<open>pqc-crypto\<close>, the fee market,
    epochs, the hash of a block, fork digests.
  \<^item> \<open>Slh_Params\<close>, \<open>Slh_Wots\<close>, \<open>Slh_Tree\<close>, \<open>Slh_Encoding\<close>, \<open>Slh_Dsa\<close>: the signature scheme, from addresses and parameter
    sets to keys and encodings, and the front end in \<open>pqc-crypto\<close>.  Signing succeeds and verifies for all parameter sets
    and all digests; verification of arbitrary bytes returns; the digits of different messages are incomparable.

  \<^bold>\<open>Transactions and state.\<close>
  \<^item> \<open>Codec\<close>, \<open>Validate\<close>: \<open>pqc-tx\<close>.  Decoding inverts encoding, and the fee of a validated transaction covers its execution.
  \<^item> \<open>Mempool\<close>: \<open>pqc-mempool\<close>.  The two indexes agree, and an admission touches one slot.
  \<^item> \<open>State_Leaf\<close>, \<open>State_Store\<close>, \<open>State_Root\<close>, \<open>State_Evolution\<close>: the tables of \<open>pqc-state/src/store.rs\<close>, their cached leaf
    hashes, the invariant that the caches are those of the tables (\<open>coherent\<close>), and what no transition may do (\<open>evolves\<close>).
  \<^item> \<open>Apply_Error\<close>, \<open>Payload\<close>, \<open>Handler\<close>, \<open>Apply_Account\<close>, \<open>Apply_Validator\<close>, \<open>Apply_Archival\<close>, \<open>Governance\<close>, \<open>Apply\<close>: the payload
    decoders, one handler per message type, and the pipeline of \<open>apply.rs\<close>.  The locale \<open>payload_handler\<close> is what the pipeline
    needs of a handler; it is interpreted on every handler, and the account of the supply, monotone nonces and the invariant
    of the store follow for all of them.  Only evidence against a validator that has exited creates tokens.

  \<^bold>\<open>Blocks and consensus.\<close>
  \<^item> \<open>Round\<close>, \<open>Bft\<close>, \<open>Round_Termination\<close>: the vote store and the round machine; a network of such machines with fewer than a third faulty,
    as a step relation, never commits two blocks at a height, and a synchronous round commits.
  \<^item> \<open>Commit\<close>: the commit quorum of a block and the ML-DSA verifiers; two blocks accepted under the default threshold share a correct signer.
  \<^item> \<open>Engine\<close>, \<open>Proposer\<close>: assembly of a block.  It is deterministic, conserves the supply up to what evidence creates, accounts for every pending
    transaction and its bytes, and keeps the state root that of the tables.
  \<^item> \<open>Chain\<close>, \<open>Block_Tree_Cache\<close>: the chain in memory implements a list of blocks above a base, through compaction and swaps of the
    tip; the cache of orphans is exact.
  \<^item> \<open>Archival_Epoch\<close>: the root of a closed epoch, exact on every store of the chain.
  \<^item> \<open>Recovery\<close>: replay accepts what assembly produced and reaches the same state, for canonically encoded transactions and away from epoch boundaries.
  \<^item> \<open>Light_Client\<close>: compact headers, the choice of the committee, attestations.

  \<^bold>\<open>Durable stores.\<close>
  \<^item> \<open>Snapshot\<close>: the records of a state and of a block.  Restoring a recorded state gives the same tables and root for
    the states that a record can describe, and what a record has no field for is lost.
  \<^item> \<open>Disk_Store\<close>: the store on files.  Each operation is a list of file operations that may stop after any of them,
    or lose the end of a buffered file without an error (\<open>dk_fault\<close>).  An append that stops is noticed by the next opening; one that loses bytes reports
    success and leaves a directory that does not open.  Nothing is synced, and the loss of power is outside the model.
  \<^item> \<open>Upgrade\<close>: the migrations of old checkpoints.
  \<^item> \<open>Rocks_Store\<close>, \<open>Rocks_Durable\<close>, \<open>Rocks_Recovery\<close>: the store on RocksDB; its invariant \<open>store_ok\<close> ties the chain in memory and the
    column families to one list of blocks, and \<open>reopens\<close> says that the next opening finds that list.  Append, swap, checkpoint,
    pruning and a start from a snapshot keep both, with the conditions that each theorem names.  Recovery from an older checkpoint does not.  Both stores keep a block with its transactions encoded anew: a block is \<open>storable\<close> when they encode to
    the hashes it lists and decode again, and one that is \<open>misencoded\<close> is taken and then stops every opening.

  \<^bold>\<open>Bounds and termination.\<close>  There is no fuel.  Loops are recursions on lists or have a measure (Merkle folding, the exponential of
  the fee market); the walk of the migrations, which a bad registry sends round in circles, is a partial function,
  and it is shown to return for registries whose handlers raise the version.  Theorems on chains and stores ask that heights stay
  below the top of 64 bits, where the code saturates or refuses.

  \<^bold>\<open>Not modelled.\<close>  Network, transports and peer scores (\<open>pqc-p2p\<close>, \<open>vendor/libp2p-*\<close>), the node process, its HTTP interfaces, command
  line, wallet and metrics (\<open>pqcd\<close>), keystores, hardware signers, cold storage and the audit log, the time-stamp client and the archival
  sidecar: they are input and output around the components above or calls of external crates, and what they pass on
  enters the model as arguments.  Multi-signature and receipt types have no user outside \<open>pqc-types\<close>.  Log lines, metrics counters and the
  compaction requests that pruning sends to the engine have no effect on the state and are left out, as are the details of
  error messages that come from external code.
\<close>

end
